(* ===== verification/Prelude.thy ===== *)
theory Prelude
  imports Main "HOL-Library.Word"
begin

text \<open>
  Shared ground of the development: the machine types of \<open>src/src/common/Define.h\<close>, the
  failures a C++ operation can end in, the result type and its sequencing, 64-bit
  \<open>size_t\<close> arithmetic written out on \<^typ>\<open>nat\<close>, the \<open>memcpy\<close>/\<open>std::vector\<close>
  primitives the buffers rest on, and the lemma collections the component proofs use.
\<close>

unbundle bit_operations_syntax

section \<open>Machine types\<close>

type_synonym uint8 = "8 word"
type_synonym uint16 = "16 word"
type_synonym uint32 = "32 word"
type_synonym uint64 = "64 word"

text \<open>Signed integers are the same words, read with \<^const>\<open>sint\<close>; \<open>float\<close> and \<open>double\<close> are
  their IEEE bit patterns.\<close>

type_synonym int8 = "8 word"
type_synonym int16 = "16 word"
type_synonym int32 = "32 word"
type_synonym int64 = "64 word"

section \<open>Failures and results\<close>

text \<open>
  The exceptions the packet code throws, plus two failures that are not exceptions of the
  program: \<open>AssertFailure\<close> is a failed \<open>ASSERT\<close> (the process aborts) and
  \<open>UndefinedAccess\<close> an access outside the storage of a vector (undefined behaviour).
\<close>

datatype exn =
    ByteBufferPositionException bool nat nat nat
  | ByteBufferPlainException
  | ByteBufferInvalidValueException string string
  | PacketArrayMaxCapacityException nat nat
  | AssertFailure string
  | UndefinedAccess string

type_synonym 'a res = "exn + 'a"

fun bindr :: "'a res \<Rightarrow> ('a \<Rightarrow> 'b res) \<Rightarrow> 'b res" where
  "bindr (Inl e) f = Inl e"
| "bindr (Inr x) f = f x"

definition guard_or :: "bool \<Rightarrow> exn \<Rightarrow> 'a res \<Rightarrow> 'a res" where
  "guard_or c e r = (if c then r else Inl e)"

fun is_thrown :: "exn \<Rightarrow> bool" where
  "is_thrown (AssertFailure s) = False"
| "is_thrown (UndefinedAccess s) = False"
| "is_thrown e = True"

section \<open>64-bit sizes\<close>

definition wrap64 :: "nat \<Rightarrow> nat" where
  "wrap64 n = n mod 2 ^ 64"

definition sub64 :: "nat \<Rightarrow> nat \<Rightarrow> nat" where
  "sub64 a b = nat ((int a - int b) mod 2 ^ 64)"

section \<open>Raw storage\<close>

definition mem_read :: "string \<Rightarrow> nat \<Rightarrow> nat \<Rightarrow> 'a list \<Rightarrow> 'a list res" where
  "mem_read what pos n xs =
     (if pos + n \<le> length xs then Inr (take n (drop pos xs)) else Inl (UndefinedAccess what))"

definition mem_write :: "string \<Rightarrow> nat \<Rightarrow> 'a list \<Rightarrow> 'a list \<Rightarrow> 'a list res" where
  "mem_write what pos bs xs =
     (if pos + length bs \<le> length xs
      then Inr (take pos xs @ bs @ drop (pos + length bs) xs)
      else Inl (UndefinedAccess what))"

definition vec_resize :: "nat \<Rightarrow> 'a::zero list \<Rightarrow> 'a list" where
  "vec_resize n xs = take n xs @ replicate (n - length xs) 0"

section \<open>Characters and bytes\<close>

text \<open>A \<open>char\<close> of a \<open>std::string\<close> is a byte; these are the two casts.\<close>

definition byte_of_char :: "char \<Rightarrow> uint8" where
  "byte_of_char c = word_of_nat (of_char c)"

definition char_of_byte :: "uint8 \<Rightarrow> char" where
  "char_of_byte b = char_of (unat b)"

section \<open>Lemma collections\<close>

named_theorems size64 \<open>facts that remove the 64-bit wrap-around below the bound\<close>
named_theorems storage \<open>facts on raw storage reads and writes\<close>

lemma bindr_eq_Inr [simp]: "bindr r f = Inr y \<longleftrightarrow> (\<exists>x. r = Inr x \<and> f x = Inr y)"
  by (cases r) auto

lemma bindr_eq_Inl: "bindr r f = Inl e \<longleftrightarrow> r = Inl e \<or> (\<exists>x. r = Inr x \<and> f x = Inl e)"
  by (cases r) auto

lemma bindr_assoc: "bindr (bindr r f) g = bindr r (\<lambda>x. bindr (f x) g)"
  by (cases r) auto

lemma bindr_cong [fundef_cong]:
  "r = r' \<Longrightarrow> (\<And>x. r' = Inr x \<Longrightarrow> f x = g x) \<Longrightarrow> bindr r f = bindr r' g"
  by (cases r') auto

lemma wrap64_small [size64]: "n < 2 ^ 64 \<Longrightarrow> wrap64 n = n"
  by (simp add: wrap64_def)

lemma wrap64_less: "wrap64 n < 2 ^ 64"
  by (simp add: wrap64_def)

lemma sub64_le [size64]: "b \<le> a \<Longrightarrow> a < 2 ^ 64 \<Longrightarrow> sub64 a b = a - b"
  by (simp add: sub64_def nat_diff_distrib of_nat_diff[symmetric] del: of_nat_diff)

lemma length_vec_resize [simp]: "length (vec_resize n xs) = n"
  by (simp add: vec_resize_def)

lemma vec_resize_same [simp]: "vec_resize (length xs) xs = xs"
  by (simp add: vec_resize_def)

lemma take_vec_resize: "k \<le> n \<Longrightarrow> k \<le> length xs \<Longrightarrow> take k (vec_resize n xs) = take k xs"
  by (simp add: vec_resize_def)

lemma mem_read_ok [storage]:
  "pos + n \<le> length xs \<Longrightarrow> mem_read w pos n xs = Inr (take n (drop pos xs))"
  by (simp add: mem_read_def)

lemma mem_write_ok [storage]:
  "pos + length bs \<le> length xs \<Longrightarrow>
     mem_write w pos bs xs = Inr (take pos xs @ bs @ drop (pos + length bs) xs)"
  by (simp add: mem_write_def)

lemma mem_write_length: "mem_write w pos bs xs = Inr ys \<Longrightarrow> length ys = length xs"
  by (auto simp: mem_write_def split: if_splits)

lemma unat_drop_bit_div: "unat (drop_bit k (b :: 'a::len word)) = unat b div 2 ^ k"
  unfolding unat_drop_bit_eq by (simp add: drop_bit_eq_div)

lemma char_of_byte_of_char [simp]: "char_of_byte (byte_of_char c) = c"
proof -
  have "(of_char c :: nat) < 256" by (rule nat_of_char_less_256)
  then show ?thesis by (simp add: byte_of_char_def char_of_byte_def unat_of_nat)
qed

lemma byte_of_char_of_byte [simp]: "byte_of_char (char_of_byte b) = b"
proof -
  have "unat b < 256" using unsigned_less [of b, where 'a = nat] by simp
  then show ?thesis by (simp add: byte_of_char_def char_of_byte_def)
qed

end
