(* ===== verification/TaskScheduler.thy ===== *)
theory TaskScheduler
  imports Prelude "HOL-Library.Multiset" "HOL-Library.Multiset_Order"
begin

text \<open>
  The task scheduler, \<open>src/src/common/Utilities/TaskScheduler.h\<close> and \<open>TaskScheduler.cpp\<close>.
  A task is shared between the queue and the contexts handed to its handler, so tasks live on a
  heap (\<open>ts_tasks\<close>, a pointer is an index) and so do the \<open>_consumed\<close> flags that the copies of one
  context share (\<open>ts_contexts\<close>, a context is the index of its flag). Time is counted in
  nanoseconds on unbounded integers. A handler is any program over the public operations: what a
  run of it does is the list of calls it makes and the state of the rest of the process it leaves,
  both functions of the state it is started in.
\<close>

section \<open>Task\<close>

record 'h task =
  tk_end :: int
  tk_duration :: int
  tk_group :: "uint32 option"
  tk_repeated :: uint32
  tk_task :: 'h

definition Task_all :: "int \<Rightarrow> int \<Rightarrow> uint32 option \<Rightarrow> uint32 \<Rightarrow> 'h \<Rightarrow> 'h task" where
  "Task_all endt duration grp repeated task =
     \<lparr>tk_end = endt, tk_duration = duration, tk_group = grp, tk_repeated = repeated, tk_task = task\<rparr>"

definition Task_min :: "int \<Rightarrow> int \<Rightarrow> 'h \<Rightarrow> 'h task" where
  "Task_min endt duration task =
     \<lparr>tk_end = endt, tk_duration = duration, tk_group = None, tk_repeated = 0, tk_task = task\<rparr>"

definition Task_less :: "'h task \<Rightarrow> 'h task \<Rightarrow> bool" where
  "Task_less t other \<longleftrightarrow> tk_end t < tk_end other"

definition Task_greater :: "'h task \<Rightarrow> 'h task \<Rightarrow> bool" where
  "Task_greater t other \<longleftrightarrow> tk_end t > tk_end other"

definition Task_equal :: "'h task \<Rightarrow> 'h task \<Rightarrow> bool" where
  "Task_equal t other \<longleftrightarrow> tk_end t = tk_end other"

definition Task_IsInGroup :: "uint32 \<Rightarrow> 'h task \<Rightarrow> bool" where
  "Task_IsInGroup grp t \<longleftrightarrow> tk_group t = Some grp"

definition Compare :: "'h task list \<Rightarrow> nat \<Rightarrow> nat \<Rightarrow> bool" where
  "Compare heap left right \<longleftrightarrow> Task_less (heap ! left) (heap ! right)"

section \<open>TaskQueue\<close>

text \<open>A \<open>std::multiset\<close> is the list of its elements in iteration order; \<open>insert\<close> puts an element
  behind those equal to it.\<close>

fun tq_Push :: "('p \<Rightarrow> 'p \<Rightarrow> bool) \<Rightarrow> 'p \<Rightarrow> 'p list \<Rightarrow> 'p list" where
  "tq_Push cmp p [] = [p]"
| "tq_Push cmp p (q # qs) = (if cmp p q then p # q # qs else q # tq_Push cmp p qs)"

definition tq_Pop :: "'p list \<Rightarrow> ('p \<times> 'p list) res" where
  "tq_Pop container =
     (case container of [] \<Rightarrow> Inl (UndefinedAccess ''TaskQueue::Pop'') | p # ps \<Rightarrow> Inr (p, ps))"

definition tq_First :: "'p list \<Rightarrow> 'p res" where
  "tq_First container =
     (case container of [] \<Rightarrow> Inl (UndefinedAccess ''TaskQueue::First'') | p # ps \<Rightarrow> Inr p)"

definition tq_Clear :: "'p list \<Rightarrow> 'p list" where
  "tq_Clear container = []"

definition tq_IsEmpty :: "'p list \<Rightarrow> bool" where
  "tq_IsEmpty container \<longleftrightarrow> container = []"

fun tq_RemoveIf :: "('p \<Rightarrow> bool) \<Rightarrow> 'p list \<Rightarrow> 'p list" where
  "tq_RemoveIf filt [] = []"
| "tq_RemoveIf filt (p # ps) = (if filt p then tq_RemoveIf filt ps else p # tq_RemoveIf filt ps)"

text \<open>The filter given to \<open>ModifyIf\<close> changes the task it is asked about, before it answers: it maps
  a task to its answer and the changed task. The loop yields the heap, the cache and the elements
  that stay.\<close>

fun tq_modify_scan ::
  "('h task \<Rightarrow> bool \<times> 'h task) \<Rightarrow> 'h task list \<Rightarrow> nat list \<Rightarrow> 'h task list \<times> nat list \<times> nat list" where
  "tq_modify_scan filt heap [] = (heap, [], [])"
| "tq_modify_scan filt heap (p # ps) =
     (let (hit, t) = filt (heap ! p);
          (heap', cache, rest) = tq_modify_scan filt (heap[p := t]) ps
      in if hit then (heap', p # cache, rest) else (heap', cache, p # rest))"

definition tq_ModifyIf ::
  "('h task \<Rightarrow> bool \<times> 'h task) \<Rightarrow> 'h task list \<Rightarrow> nat list \<Rightarrow> 'h task list \<times> nat list" where
  "tq_ModifyIf filt heap container =
     (let (heap', cache, rest) = tq_modify_scan filt heap container
      in (heap', foldl (\<lambda>c p. tq_Push (Compare heap') p c) rest cache))"

section \<open>TaskScheduler\<close>

record ('h, 'w) task_scheduler =
  ts_self_reference :: bool
  ts_now :: int
  ts_task_holder :: "nat list"
  ts_asyncHolder :: "'h list"
  ts_predicate :: "'w \<Rightarrow> bool"
  ts_tasks :: "'h task list"
  ts_contexts :: "(nat option \<times> bool) list"
  ts_world :: 'w

definition EmptyValidator :: "'w \<Rightarrow> bool" where
  "EmptyValidator w = True"

definition TaskScheduler_new :: "int \<Rightarrow> 'w \<Rightarrow> ('h, 'w) task_scheduler" where
  "TaskScheduler_new now w =
     \<lparr>ts_self_reference = True, ts_now = now, ts_task_holder = [], ts_asyncHolder = [],
      ts_predicate = EmptyValidator, ts_tasks = [], ts_contexts = [], ts_world = w\<rparr>"

definition TaskScheduler_new_predicate :: "('w \<Rightarrow> bool) \<Rightarrow> int \<Rightarrow> 'w \<Rightarrow> ('h, 'w) task_scheduler" where
  "TaskScheduler_new_predicate predicate now w =
     \<lparr>ts_self_reference = True, ts_now = now, ts_task_holder = [], ts_asyncHolder = [],
      ts_predicate = predicate, ts_tasks = [], ts_contexts = [], ts_world = w\<rparr>"

definition SetValidator ::
  "('w \<Rightarrow> bool) \<Rightarrow> ('h, 'w) task_scheduler \<Rightarrow> ('h, 'w) task_scheduler" where
  "SetValidator predicate s = s\<lparr>ts_predicate := predicate\<rparr>"

definition ClearValidator :: "('h, 'w) task_scheduler \<Rightarrow> ('h, 'w) task_scheduler" where
  "ClearValidator s = s\<lparr>ts_predicate := EmptyValidator\<rparr>"

definition ts_Async :: "'h \<Rightarrow> ('h, 'w) task_scheduler \<Rightarrow> ('h, 'w) task_scheduler" where
  "ts_Async callable s = s\<lparr>ts_asyncHolder := ts_asyncHolder s @ [callable]\<rparr>"

definition InsertTask :: "nat \<Rightarrow> ('h, 'w) task_scheduler \<Rightarrow> ('h, 'w) task_scheduler" where
  "InsertTask task s = s\<lparr>ts_task_holder := tq_Push (Compare (ts_tasks s)) task (ts_task_holder s)\<rparr>"

definition new_task :: "'h task \<Rightarrow> ('h, 'w) task_scheduler \<Rightarrow> nat \<times> ('h, 'w) task_scheduler" where
  "new_task t s = (length (ts_tasks s), s\<lparr>ts_tasks := ts_tasks s @ [t]\<rparr>)"

definition ScheduleAt :: "int \<Rightarrow> int \<Rightarrow> 'h \<Rightarrow> ('h, 'w) task_scheduler \<Rightarrow> ('h, 'w) task_scheduler" where
  "ScheduleAt endt time task s =
     (let (p, s') = new_task (Task_min (endt + time) time task) s in InsertTask p s')"

definition ScheduleAt_group ::
  "int \<Rightarrow> int \<Rightarrow> uint32 \<Rightarrow> 'h \<Rightarrow> ('h, 'w) task_scheduler \<Rightarrow> ('h, 'w) task_scheduler" where
  "ScheduleAt_group endt time grp task s =
     (let (p, s') = new_task (Task_all (endt + time) time (Some grp) 0 task) s in InsertTask p s')"

definition ts_Schedule :: "int \<Rightarrow> 'h \<Rightarrow> ('h, 'w) task_scheduler \<Rightarrow> ('h, 'w) task_scheduler" where
  "ts_Schedule time task s = ScheduleAt (ts_now s) time task s"

definition ts_Schedule_group ::
  "int \<Rightarrow> uint32 \<Rightarrow> 'h \<Rightarrow> ('h, 'w) task_scheduler \<Rightarrow> ('h, 'w) task_scheduler" where
  "ts_Schedule_group time grp task s = ScheduleAt_group (ts_now s) time grp task s"

text \<open>\<open>duration_cast\<close> to milliseconds truncates towards zero; the counts are then cut to 32 bits.
  \<open>urand\<close> is the draw from the generator.\<close>

definition duration_cast_ms :: "int \<Rightarrow> int" where
  "duration_cast_ms d = (if d < 0 then - ((- d) div 1000000) else d div 1000000)"

definition RandomDurationBetween :: "(uint32 \<Rightarrow> uint32 \<Rightarrow> uint32) \<Rightarrow> int \<Rightarrow> int \<Rightarrow> int" where
  "RandomDurationBetween urand mn mx =
     (let milli_min = duration_cast_ms mn; milli_max = duration_cast_ms mx
      in uint (urand (word_of_int milli_min) (word_of_int milli_max)) * 1000000)"

definition ts_Schedule_random ::
  "(uint32 \<Rightarrow> uint32 \<Rightarrow> uint32) \<Rightarrow> int \<Rightarrow> int \<Rightarrow> 'h \<Rightarrow> ('h, 'w) task_scheduler \<Rightarrow> ('h, 'w) task_scheduler" where
  "ts_Schedule_random urand mn mx task s = ts_Schedule (RandomDurationBetween urand mn mx) task s"

definition ts_Schedule_random_group ::
  "(uint32 \<Rightarrow> uint32 \<Rightarrow> uint32) \<Rightarrow> int \<Rightarrow> int \<Rightarrow> uint32 \<Rightarrow> 'h \<Rightarrow> ('h, 'w) task_scheduler \<Rightarrow> ('h, 'w) task_scheduler" where
  "ts_Schedule_random_group urand mn mx grp task s =
     ts_Schedule_group (RandomDurationBetween urand mn mx) grp task s"

definition ts_CancelAll :: "('h, 'w) task_scheduler \<Rightarrow> ('h, 'w) task_scheduler" where
  "ts_CancelAll s = s\<lparr>ts_task_holder := tq_Clear (ts_task_holder s), ts_asyncHolder := []\<rparr>"

definition ts_CancelGroup :: "uint32 \<Rightarrow> ('h, 'w) task_scheduler \<Rightarrow> ('h, 'w) task_scheduler" where
  "ts_CancelGroup grp s =
     s\<lparr>ts_task_holder := tq_RemoveIf (\<lambda>task. Task_IsInGroup grp (ts_tasks s ! task)) (ts_task_holder s)\<rparr>"

definition ts_CancelGroupsOf :: "uint32 list \<Rightarrow> ('h, 'w) task_scheduler \<Rightarrow> ('h, 'w) task_scheduler" where
  "ts_CancelGroupsOf groups s = foldl (\<lambda>s grp. ts_CancelGroup grp s) s groups"

definition ts_modify ::
  "('h task \<Rightarrow> bool \<times> 'h task) \<Rightarrow> ('h, 'w) task_scheduler \<Rightarrow> ('h, 'w) task_scheduler" where
  "ts_modify filt s =
     (let (heap, holder) = tq_ModifyIf filt (ts_tasks s) (ts_task_holder s)
      in s\<lparr>ts_tasks := heap, ts_task_holder := holder\<rparr>)"

definition ts_DelayAll :: "int \<Rightarrow> ('h, 'w) task_scheduler \<Rightarrow> ('h, 'w) task_scheduler" where
  "ts_DelayAll duration s = ts_modify (\<lambda>task. (True, task\<lparr>tk_end := tk_end task + duration\<rparr>)) s"

definition ts_DelayGroup :: "uint32 \<Rightarrow> int \<Rightarrow> ('h, 'w) task_scheduler \<Rightarrow> ('h, 'w) task_scheduler" where
  "ts_DelayGroup grp duration s =
     ts_modify (\<lambda>task. if Task_IsInGroup grp task
                       then (True, task\<lparr>tk_end := tk_end task + duration\<rparr>) else (False, task)) s"

definition ts_RescheduleAll :: "int \<Rightarrow> ('h, 'w) task_scheduler \<Rightarrow> ('h, 'w) task_scheduler" where
  "ts_RescheduleAll duration s =
     (let endt = ts_now s + duration
      in ts_modify (\<lambda>task. (True, task\<lparr>tk_end := endt\<rparr>)) s)"

definition ts_RescheduleGroup :: "uint32 \<Rightarrow> int \<Rightarrow> ('h, 'w) task_scheduler \<Rightarrow> ('h, 'w) task_scheduler" where
  "ts_RescheduleGroup grp duration s =
     (let endt = ts_now s + duration
      in ts_modify (\<lambda>task. if Task_IsInGroup grp task then (True, task\<lparr>tk_end := endt\<rparr>)
                           else (False, task)) s)"

definition ts_DelayAll_random :: "(uint32 \<Rightarrow> uint32 \<Rightarrow> uint32) \<Rightarrow> int \<Rightarrow> int \<Rightarrow>
    ('h, 'w) task_scheduler \<Rightarrow> ('h, 'w) task_scheduler" where
  "ts_DelayAll_random urand mn mx s = ts_DelayAll (RandomDurationBetween urand mn mx) s"

definition ts_DelayGroup_random :: "(uint32 \<Rightarrow> uint32 \<Rightarrow> uint32) \<Rightarrow> uint32 \<Rightarrow> int \<Rightarrow> int \<Rightarrow>
    ('h, 'w) task_scheduler \<Rightarrow> ('h, 'w) task_scheduler" where
  "ts_DelayGroup_random urand grp mn mx s = ts_DelayGroup grp (RandomDurationBetween urand mn mx) s"

definition ts_RescheduleAll_random :: "(uint32 \<Rightarrow> uint32 \<Rightarrow> uint32) \<Rightarrow> int \<Rightarrow> int \<Rightarrow>
    ('h, 'w) task_scheduler \<Rightarrow> ('h, 'w) task_scheduler" where
  "ts_RescheduleAll_random urand mn mx s = ts_RescheduleAll (RandomDurationBetween urand mn mx) s"

definition ts_RescheduleGroup_random :: "(uint32 \<Rightarrow> uint32 \<Rightarrow> uint32) \<Rightarrow> uint32 \<Rightarrow> int \<Rightarrow> int \<Rightarrow>
    ('h, 'w) task_scheduler \<Rightarrow> ('h, 'w) task_scheduler" where
  "ts_RescheduleGroup_random urand grp mn mx s =
     ts_RescheduleGroup grp (RandomDurationBetween urand mn mx) s"

section \<open>TaskContext\<close>

text \<open>\<open>TaskContext_empty\<close> is the default constructor (no task, already consumed), \<open>TaskContext_new\<close>
  the one \<open>Dispatch\<close> uses. Copies of a context are the same index.\<close>

definition TaskContext_empty :: "('h, 'w) task_scheduler \<Rightarrow> nat \<times> ('h, 'w) task_scheduler" where
  "TaskContext_empty s = (length (ts_contexts s), s\<lparr>ts_contexts := ts_contexts s @ [(None, True)]\<rparr>)"

definition TaskContext_new :: "nat \<Rightarrow> ('h, 'w) task_scheduler \<Rightarrow> nat \<times> ('h, 'w) task_scheduler" where
  "TaskContext_new task s =
     (length (ts_contexts s), s\<lparr>ts_contexts := ts_contexts s @ [(Some task, False)]\<rparr>)"

definition ctx_task :: "nat \<Rightarrow> ('h, 'w) task_scheduler \<Rightarrow> nat res" where
  "ctx_task c s =
     (if c < length (ts_contexts s)
      then case fst (ts_contexts s ! c) of
             None \<Rightarrow> Inl (UndefinedAccess ''TaskContext::_task'')
           | Some p \<Rightarrow> Inr p
      else Inl (UndefinedAccess ''TaskContext''))"

definition ctx_Dispatch ::
  "(('h, 'w) task_scheduler \<Rightarrow> ('h, 'w) task_scheduler) \<Rightarrow> ('h, 'w) task_scheduler \<Rightarrow> ('h, 'w) task_scheduler" where
  "ctx_Dispatch app s = (if ts_self_reference s then app s else s)"

definition ctx_IsExpired :: "('h, 'w) task_scheduler \<Rightarrow> bool" where
  "ctx_IsExpired s \<longleftrightarrow> \<not> ts_self_reference s"

definition ctx_IsInGroup :: "uint32 \<Rightarrow> nat \<Rightarrow> ('h, 'w) task_scheduler \<Rightarrow> bool res" where
  "ctx_IsInGroup grp c s = bindr (ctx_task c s) (\<lambda>p. Inr (Task_IsInGroup grp (ts_tasks s ! p)))"

definition update_task ::
  "nat \<Rightarrow> ('h task \<Rightarrow> 'h task) \<Rightarrow> ('h, 'w) task_scheduler \<Rightarrow> ('h, 'w) task_scheduler" where
  "update_task p f s = s\<lparr>ts_tasks := (ts_tasks s)[p := f (ts_tasks s ! p)]\<rparr>"

definition ctx_SetGroup :: "uint32 \<Rightarrow> nat \<Rightarrow> ('h, 'w) task_scheduler \<Rightarrow> ('h, 'w) task_scheduler res" where
  "ctx_SetGroup grp c s =
     bindr (ctx_task c s) (\<lambda>p. Inr (update_task p (\<lambda>t. t\<lparr>tk_group := Some grp\<rparr>) s))"

definition ctx_ClearGroup :: "nat \<Rightarrow> ('h, 'w) task_scheduler \<Rightarrow> ('h, 'w) task_scheduler res" where
  "ctx_ClearGroup c s =
     bindr (ctx_task c s) (\<lambda>p. Inr (update_task p (\<lambda>t. t\<lparr>tk_group := None\<rparr>) s))"

definition ctx_GetRepeatCounter :: "nat \<Rightarrow> ('h, 'w) task_scheduler \<Rightarrow> uint32 res" where
  "ctx_GetRepeatCounter c s = bindr (ctx_task c s) (\<lambda>p. Inr (tk_repeated (ts_tasks s ! p)))"

definition ctx_AssertOnConsumed :: "nat \<Rightarrow> ('h, 'w) task_scheduler \<Rightarrow> unit res" where
  "ctx_AssertOnConsumed c s =
     (if c < length (ts_contexts s)
      then guard_or (\<not> snd (ts_contexts s ! c))
             (AssertFailure ''Bad task logic, task context was consumed already!'') (Inr ())
      else Inl (UndefinedAccess ''TaskContext''))"

definition ctx_consume :: "nat \<Rightarrow> ('h, 'w) task_scheduler \<Rightarrow> ('h, 'w) task_scheduler" where
  "ctx_consume c s =
     s\<lparr>ts_contexts := (ts_contexts s)[c := (fst (ts_contexts s ! c), True)]\<rparr>"

definition ctx_Repeat :: "int \<Rightarrow> nat \<Rightarrow> ('h, 'w) task_scheduler \<Rightarrow> ('h, 'w) task_scheduler res" where
  "ctx_Repeat duration c s =
     bindr (ctx_AssertOnConsumed c s) (\<lambda>_.
     bindr (ctx_task c s) (\<lambda>p.
       let s1 = update_task p (\<lambda>t. t\<lparr>tk_duration := duration, tk_end := tk_end t + duration,
                                    tk_repeated := tk_repeated t + 1\<rparr>) s;
           s2 = ctx_consume c s1
       in Inr (ctx_Dispatch (InsertTask p) s2)))"

definition ctx_Repeat_same :: "nat \<Rightarrow> ('h, 'w) task_scheduler \<Rightarrow> ('h, 'w) task_scheduler res" where
  "ctx_Repeat_same c s =
     bindr (ctx_task c s) (\<lambda>p. ctx_Repeat (tk_duration (ts_tasks s ! p)) c s)"

definition ctx_Repeat_random :: "(uint32 \<Rightarrow> uint32 \<Rightarrow> uint32) \<Rightarrow> int \<Rightarrow> int \<Rightarrow> nat \<Rightarrow>
    ('h, 'w) task_scheduler \<Rightarrow> ('h, 'w) task_scheduler res" where
  "ctx_Repeat_random urand mn mx c s = ctx_Repeat (RandomDurationBetween urand mn mx) c s"

definition ctx_Async :: "'h \<Rightarrow> ('h, 'w) task_scheduler \<Rightarrow> ('h, 'w) task_scheduler" where
  "ctx_Async callable s = ctx_Dispatch (ts_Async callable) s"

definition ctx_Schedule ::
  "int \<Rightarrow> 'h \<Rightarrow> nat \<Rightarrow> ('h, 'w) task_scheduler \<Rightarrow> ('h, 'w) task_scheduler res" where
  "ctx_Schedule time task c s =
     bindr (ctx_task c s) (\<lambda>p.
       let endt = tk_end (ts_tasks s ! p) in Inr (ctx_Dispatch (ScheduleAt endt time task) s))"

definition ctx_Schedule_group ::
  "int \<Rightarrow> uint32 \<Rightarrow> 'h \<Rightarrow> nat \<Rightarrow> ('h, 'w) task_scheduler \<Rightarrow> ('h, 'w) task_scheduler res" where
  "ctx_Schedule_group time grp task c s =
     bindr (ctx_task c s) (\<lambda>p.
       let endt = tk_end (ts_tasks s ! p) in Inr (ctx_Dispatch (ScheduleAt_group endt time grp task) s))"

definition ctx_Schedule_random :: "(uint32 \<Rightarrow> uint32 \<Rightarrow> uint32) \<Rightarrow> int \<Rightarrow> int \<Rightarrow> 'h \<Rightarrow> nat \<Rightarrow>
    ('h, 'w) task_scheduler \<Rightarrow> ('h, 'w) task_scheduler res" where
  "ctx_Schedule_random urand mn mx task c s = ctx_Schedule (RandomDurationBetween urand mn mx) task c s"

definition ctx_Schedule_random_group :: "(uint32 \<Rightarrow> uint32 \<Rightarrow> uint32) \<Rightarrow> int \<Rightarrow> int \<Rightarrow> uint32 \<Rightarrow> 'h \<Rightarrow> nat \<Rightarrow>
    ('h, 'w) task_scheduler \<Rightarrow> ('h, 'w) task_scheduler res" where
  "ctx_Schedule_random_group urand mn mx grp task c s =
     ctx_Schedule_group (RandomDurationBetween urand mn mx) grp task c s"

definition ctx_CancelAll :: "('h, 'w) task_scheduler \<Rightarrow> ('h, 'w) task_scheduler" where
  "ctx_CancelAll s = ctx_Dispatch ts_CancelAll s"

definition ctx_CancelGroup :: "uint32 \<Rightarrow> ('h, 'w) task_scheduler \<Rightarrow> ('h, 'w) task_scheduler" where
  "ctx_CancelGroup grp s = ctx_Dispatch (ts_CancelGroup grp) s"

definition ctx_CancelGroupsOf :: "uint32 list \<Rightarrow> ('h, 'w) task_scheduler \<Rightarrow> ('h, 'w) task_scheduler" where
  "ctx_CancelGroupsOf groups s = ctx_Dispatch (ts_CancelGroupsOf groups) s"

definition ctx_DelayAll :: "int \<Rightarrow> ('h, 'w) task_scheduler \<Rightarrow> ('h, 'w) task_scheduler" where
  "ctx_DelayAll duration s = ctx_Dispatch (ts_DelayAll duration) s"

definition ctx_DelayGroup :: "uint32 \<Rightarrow> int \<Rightarrow> ('h, 'w) task_scheduler \<Rightarrow> ('h, 'w) task_scheduler" where
  "ctx_DelayGroup grp duration s = ctx_Dispatch (ts_DelayGroup grp duration) s"

definition ctx_RescheduleAll :: "int \<Rightarrow> ('h, 'w) task_scheduler \<Rightarrow> ('h, 'w) task_scheduler" where
  "ctx_RescheduleAll duration s = ctx_Dispatch (ts_RescheduleAll duration) s"

definition ctx_RescheduleGroup :: "uint32 \<Rightarrow> int \<Rightarrow> ('h, 'w) task_scheduler \<Rightarrow> ('h, 'w) task_scheduler" where
  "ctx_RescheduleGroup grp duration s = ctx_Dispatch (ts_RescheduleGroup grp duration) s"

definition ctx_DelayAll_random :: "(uint32 \<Rightarrow> uint32 \<Rightarrow> uint32) \<Rightarrow> int \<Rightarrow> int \<Rightarrow>
    ('h, 'w) task_scheduler \<Rightarrow> ('h, 'w) task_scheduler" where
  "ctx_DelayAll_random urand mn mx s = ctx_DelayAll (RandomDurationBetween urand mn mx) s"

definition ctx_DelayGroup_random :: "(uint32 \<Rightarrow> uint32 \<Rightarrow> uint32) \<Rightarrow> uint32 \<Rightarrow> int \<Rightarrow> int \<Rightarrow>
    ('h, 'w) task_scheduler \<Rightarrow> ('h, 'w) task_scheduler" where
  "ctx_DelayGroup_random urand grp mn mx s = ctx_DelayGroup grp (RandomDurationBetween urand mn mx) s"

definition ctx_RescheduleAll_random :: "(uint32 \<Rightarrow> uint32 \<Rightarrow> uint32) \<Rightarrow> int \<Rightarrow> int \<Rightarrow>
    ('h, 'w) task_scheduler \<Rightarrow> ('h, 'w) task_scheduler" where
  "ctx_RescheduleAll_random urand mn mx s = ctx_RescheduleAll (RandomDurationBetween urand mn mx) s"

definition ctx_RescheduleGroup_random :: "(uint32 \<Rightarrow> uint32 \<Rightarrow> uint32) \<Rightarrow> uint32 \<Rightarrow> int \<Rightarrow> int \<Rightarrow>
    ('h, 'w) task_scheduler \<Rightarrow> ('h, 'w) task_scheduler" where
  "ctx_RescheduleGroup_random urand grp mn mx s =
     ctx_RescheduleGroup grp (RandomDurationBetween urand mn mx) s"

section \<open>Calls, handlers and Dispatch\<close>

text \<open>The calls a handler can make, on the scheduler itself or through a context. The overloads
  with a random duration are calls with the duration that was drawn.\<close>

datatype ('h, 'w) call =
    CallSetValidator "'w \<Rightarrow> bool"
  | CallClearValidator
  | CallAsync 'h
  | CallSchedule int 'h
  | CallScheduleGroup int uint32 'h
  | CallCancelAll
  | CallCancelGroup uint32
  | CallCancelGroupsOf "uint32 list"
  | CallDelayAll int
  | CallDelayGroup uint32 int
  | CallRescheduleAll int
  | CallRescheduleGroup uint32 int
  | CtxSetGroup nat uint32
  | CtxClearGroup nat
  | CtxRepeat nat int
  | CtxRepeatSame nat
  | CtxSchedule nat int 'h
  | CtxScheduleGroup nat int uint32 'h
  | CtxAsync 'h
  | CtxCancelAll
  | CtxCancelGroup uint32
  | CtxCancelGroupsOf "uint32 list"
  | CtxDelayAll int
  | CtxDelayGroup uint32 int
  | CtxRescheduleAll int
  | CtxRescheduleGroup uint32 int

fun do_call :: "('h, 'w) call \<Rightarrow> ('h, 'w) task_scheduler \<Rightarrow> ('h, 'w) task_scheduler res" where
  "do_call (CallSetValidator predicate) s = Inr (SetValidator predicate s)"
| "do_call CallClearValidator s = Inr (ClearValidator s)"
| "do_call (CallAsync callable) s = Inr (ts_Async callable s)"
| "do_call (CallSchedule time task) s = Inr (ts_Schedule time task s)"
| "do_call (CallScheduleGroup time grp task) s = Inr (ts_Schedule_group time grp task s)"
| "do_call CallCancelAll s = Inr (ts_CancelAll s)"
| "do_call (CallCancelGroup grp) s = Inr (ts_CancelGroup grp s)"
| "do_call (CallCancelGroupsOf groups) s = Inr (ts_CancelGroupsOf groups s)"
| "do_call (CallDelayAll duration) s = Inr (ts_DelayAll duration s)"
| "do_call (CallDelayGroup grp duration) s = Inr (ts_DelayGroup grp duration s)"
| "do_call (CallRescheduleAll duration) s = Inr (ts_RescheduleAll duration s)"
| "do_call (CallRescheduleGroup grp duration) s = Inr (ts_RescheduleGroup grp duration s)"
| "do_call (CtxSetGroup c grp) s = ctx_SetGroup grp c s"
| "do_call (CtxClearGroup c) s = ctx_ClearGroup c s"
| "do_call (CtxRepeat c duration) s = ctx_Repeat duration c s"
| "do_call (CtxRepeatSame c) s = ctx_Repeat_same c s"
| "do_call (CtxSchedule c time task) s = ctx_Schedule time task c s"
| "do_call (CtxScheduleGroup c time grp task) s = ctx_Schedule_group time grp task c s"
| "do_call (CtxAsync callable) s = Inr (ctx_Async callable s)"
| "do_call CtxCancelAll s = Inr (ctx_CancelAll s)"
| "do_call (CtxCancelGroup grp) s = Inr (ctx_CancelGroup grp s)"
| "do_call (CtxCancelGroupsOf groups) s = Inr (ctx_CancelGroupsOf groups s)"
| "do_call (CtxDelayAll duration) s = Inr (ctx_DelayAll duration s)"
| "do_call (CtxDelayGroup grp duration) s = Inr (ctx_DelayGroup grp duration s)"
| "do_call (CtxRescheduleAll duration) s = Inr (ctx_RescheduleAll duration s)"
| "do_call (CtxRescheduleGroup grp duration) s = Inr (ctx_RescheduleGroup grp duration s)"

fun do_calls :: "('h, 'w) call list \<Rightarrow> ('h, 'w) task_scheduler \<Rightarrow> ('h, 'w) task_scheduler res" where
  "do_calls [] s = Inr s"
| "do_calls (a # as) s = bindr (do_call a s) (do_calls as)"

text \<open>The bodies of the handlers: of a task handler, given its context, and of an asynchronous
  callable. A body yields its calls and the state of the rest of the process after it.\<close>

record ('h, 'w) bodies =
  b_task :: "'h \<Rightarrow> nat \<Rightarrow> ('h, 'w) task_scheduler \<Rightarrow> ('h, 'w) call list \<times> 'w"
  b_async :: "'h \<Rightarrow> ('h, 'w) task_scheduler \<Rightarrow> ('h, 'w) call list \<times> 'w"

definition run_body ::
  "('h, 'w) call list \<times> 'w \<Rightarrow> ('h, 'w) task_scheduler \<Rightarrow> ('h, 'w) task_scheduler res" where
  "run_body b s = bindr (do_calls (fst b) s) (\<lambda>s'. Inr (s'\<lparr>ts_world := snd b\<rparr>))"

definition ctx_Invoke ::
  "('h, 'w) bodies \<Rightarrow> nat \<Rightarrow> ('h, 'w) task_scheduler \<Rightarrow> ('h, 'w) task_scheduler res" where
  "ctx_Invoke B c s =
     bindr (ctx_task c s) (\<lambda>p. run_body (b_task B (tk_task (ts_tasks s ! p)) c s) s)"

definition run_front_async :: "('h, 'w) bodies \<Rightarrow> ('h, 'w) task_scheduler \<Rightarrow> ('h, 'w) task_scheduler res" where
  "run_front_async B s =
     (case ts_asyncHolder s of
        [] \<Rightarrow> Inl (UndefinedAccess ''std::queue::front'')
      | callable # _ \<Rightarrow>
          bindr (run_body (b_async B callable s) s) (\<lambda>s'.
            case ts_asyncHolder s' of
              [] \<Rightarrow> Inl (UndefinedAccess ''std::queue::pop'')
            | _ # rest \<Rightarrow> Inr (s'\<lparr>ts_asyncHolder := rest\<rparr>)))"

definition dispatch_first ::
  "('h, 'w) bodies \<Rightarrow> ('h, 'w) task_scheduler \<Rightarrow> (nat \<times> ('h, 'w) task_scheduler) res" where
  "dispatch_first B s =
     bindr (tq_Pop (ts_task_holder s)) (\<lambda>(p, rest).
       let (context, s1) = TaskContext_new p (s\<lparr>ts_task_holder := rest\<rparr>)
       in bindr (ctx_Invoke B context s1) (\<lambda>s2. Inr (p, s2)))"

text \<open>The two loops of \<open>Dispatch\<close>. \<open>None\<close> is a loop that does not end. A loop yields whether it ran
  to its end (not cut short by the predicate) and, beside the state, the tasks it invoked with the
  time each was due.\<close>

partial_function (option) async_loop ::
  "('h, 'w) bodies \<Rightarrow> ('h, 'w) task_scheduler \<Rightarrow> (bool \<times> ('h, 'w) task_scheduler) res option" where
  "async_loop B s =
     (if ts_asyncHolder s = [] then Some (Inr (True, s))
      else case run_front_async B s of
             Inl e \<Rightarrow> Some (Inl e)
           | Inr s' \<Rightarrow> if \<not> ts_predicate s' (ts_world s') then Some (Inr (False, s'))
                       else async_loop B s')"

partial_function (option) task_loop ::
  "('h, 'w) bodies \<Rightarrow> (nat \<times> int) list \<Rightarrow> ('h, 'w) task_scheduler \<Rightarrow>
     (bool \<times> (nat \<times> int) list \<times> ('h, 'w) task_scheduler) res option" where
  "task_loop B log s =
     (case ts_task_holder s of
        [] \<Rightarrow> Some (Inr (True, log, s))
      | p # _ \<Rightarrow>
          if tk_end (ts_tasks s ! p) > ts_now s then Some (Inr (True, log, s))
          else case dispatch_first B s of
                 Inl e \<Rightarrow> Some (Inl e)
               | Inr (q, s') \<Rightarrow>
                   let log' = log @ [(q, tk_end (ts_tasks s ! p))]
                   in if \<not> ts_predicate s' (ts_world s') then Some (Inr (False, log', s'))
                      else task_loop B log' s')"

definition ts_Dispatch :: "('h, 'w) bodies \<Rightarrow> ('w \<Rightarrow> 'w) \<Rightarrow> ('h, 'w) task_scheduler \<Rightarrow>
    ((nat \<times> int) list \<times> ('h, 'w) task_scheduler) res option" where
  "ts_Dispatch B callback s =
     (if \<not> ts_predicate s (ts_world s) then Some (Inr ([], s))
      else case async_loop B s of
             None \<Rightarrow> None
           | Some (Inl e) \<Rightarrow> Some (Inl e)
           | Some (Inr (False, s1)) \<Rightarrow> Some (Inr ([], s1))
           | Some (Inr (True, s1)) \<Rightarrow>
               (case task_loop B [] s1 of
                  None \<Rightarrow> None
                | Some (Inl e) \<Rightarrow> Some (Inl e)
                | Some (Inr (False, log, s2)) \<Rightarrow> Some (Inr (log, s2))
                | Some (Inr (True, log, s2)) \<Rightarrow>
                    Some (Inr (log, s2\<lparr>ts_world := callback (ts_world s2)\<rparr>))))"

definition EmptyCallback :: "'w \<Rightarrow> 'w" where
  "EmptyCallback w = w"

definition ts_Update :: "('h, 'w) bodies \<Rightarrow> int \<Rightarrow> ('w \<Rightarrow> 'w) \<Rightarrow> ('h, 'w) task_scheduler \<Rightarrow>
    ((nat \<times> int) list \<times> ('h, 'w) task_scheduler) res option" where
  "ts_Update B clock_now callback s = ts_Dispatch B callback (s\<lparr>ts_now := clock_now\<rparr>)"

definition ts_Update_diff :: "('h, 'w) bodies \<Rightarrow> int \<Rightarrow> ('w \<Rightarrow> 'w) \<Rightarrow> ('h, 'w) task_scheduler \<Rightarrow>
    ((nat \<times> int) list \<times> ('h, 'w) task_scheduler) res option" where
  "ts_Update_diff B difftime callback s = ts_Dispatch B callback (s\<lparr>ts_now := ts_now s + difftime\<rparr>)"

definition ts_Update_ms :: "('h, 'w) bodies \<Rightarrow> uint64 \<Rightarrow> ('w \<Rightarrow> 'w) \<Rightarrow> ('h, 'w) task_scheduler \<Rightarrow>
    ((nat \<times> int) list \<times> ('h, 'w) task_scheduler) res option" where
  "ts_Update_ms B milliseconds callback s = ts_Update_diff B (sint milliseconds * 1000000) callback s"

section \<open>Ordered queues\<close>

text \<open>What the scheduler relies on: pushing adds one element, keeps the order of the keys, and puts
  the new element behind those with the same key.\<close>

locale ordered_queue =
  fixes key :: "'p \<Rightarrow> int" and push :: "'p \<Rightarrow> 'p list \<Rightarrow> 'p list"
  assumes push_mset: "mset (push p q) = add_mset p (mset q)"
    and push_sorted: "sorted (map key q) \<Longrightarrow> sorted (map key (push p q))"
    and push_behind: "sorted (map key q) \<Longrightarrow>
      filter (\<lambda>x. key x = k) (push p q) = filter (\<lambda>x. key x = k) q @ (if key p = k then [p] else [])"
begin

lemma push_set: "set (push p q) = insert p (set q)"
  using arg_cong [OF push_mset, of set_mset] by simp

lemma push_distinct: "distinct (push p q) \<longleftrightarrow> p \<notin> set q \<and> distinct q"
  using mset_eq_imp_distinct_iff [of "push p q" "p # q"] by (simp add: push_mset)

lemma push_all_mset: "mset (foldl (\<lambda>c p. push p c) q ps) = mset q + mset ps"
  by (induction ps arbitrary: q) (simp_all add: push_mset)

lemma push_all_sorted: "sorted (map key q) \<Longrightarrow> sorted (map key (foldl (\<lambda>c p. push p c) q ps))"
  by (induction ps arbitrary: q) (simp_all add: push_sorted)

lemma push_all_behind: "sorted (map key q) \<Longrightarrow>
    filter (\<lambda>x. key x = k) (foldl (\<lambda>c p. push p c) q ps) =
    filter (\<lambda>x. key x = k) q @ filter (\<lambda>x. key x = k) ps"
  by (induction ps arbitrary: q) (simp_all add: push_sorted push_behind)

end

definition end_of :: "'h task list \<Rightarrow> nat \<Rightarrow> int" where
  "end_of heap p = tk_end (heap ! p)"

lemma Compare_end_of: "Compare heap p q \<longleftrightarrow> end_of heap p < end_of heap q"
  by (simp add: Compare_def Task_less_def end_of_def)

lemma tq_Push_mset: "mset (tq_Push cmp p q) = add_mset p (mset q)"
  by (induction q) auto

lemma tq_Push_set [simp]: "set (tq_Push cmp p q) = insert p (set q)"
  by (induction q) auto

lemma tq_Push_sorted:
  "sorted (map (end_of heap) q) \<Longrightarrow> sorted (map (end_of heap) (tq_Push (Compare heap) p q))"
  by (induction q) (auto simp: Compare_end_of)

lemma tq_Push_behind:
  "sorted (map (end_of heap) q) \<Longrightarrow>
     filter (\<lambda>x. end_of heap x = k) (tq_Push (Compare heap) p q) =
     filter (\<lambda>x. end_of heap x = k) q @ (if end_of heap p = k then [p] else [])"
proof (induction q)
  case (Cons a q)
  have "end_of heap p < end_of heap a \<Longrightarrow> filter (\<lambda>x. end_of heap x = end_of heap p) q = []"
    using Cons.prems by (force simp: filter_empty_conv)
  then show ?case using Cons by (auto simp: Compare_end_of)
qed simp

interpretation tq: ordered_queue "end_of heap" "tq_Push (Compare heap)" for heap :: "'h task list"
  by unfold_locales (simp_all add: tq_Push_mset tq_Push_sorted tq_Push_behind)

lemma tq_RemoveIf_filter: "tq_RemoveIf filt q = filter (\<lambda>p. \<not> filt p) q"
  by (induction q) auto

lemma tq_modify_scan_eq:
  assumes "distinct ps" "\<forall>p\<in>set ps. p < length heap"
  shows "\<exists>heap'. tq_modify_scan filt heap ps =
             (heap', filter (\<lambda>p. fst (filt (heap ! p))) ps, filter (\<lambda>p. \<not> fst (filt (heap ! p))) ps) \<and>
           length heap' = length heap \<and>
           (\<forall>q. heap' ! q = (if q \<in> set ps then snd (filt (heap ! q)) else heap ! q))"
  using assms
proof (induction ps arbitrary: heap)
  case Nil
  then show ?case by simp
next
  case (Cons p ps)
  let ?h = "heap[p := snd (filt (heap ! p))]"
  have same: "\<forall>q\<in>set ps. ?h ! q = heap ! q" using Cons.prems by (auto simp: nth_list_update)
  obtain heap' where scan: "tq_modify_scan filt ?h ps =
             (heap', filter (\<lambda>p. fst (filt (?h ! p))) ps, filter (\<lambda>p. \<not> fst (filt (?h ! p))) ps)"
      and len: "length heap' = length ?h"
      and nths: "\<forall>q. heap' ! q = (if q \<in> set ps then snd (filt (?h ! q)) else ?h ! q)"
    using Cons.IH [of ?h] Cons.prems by auto
  have filts: "filter (\<lambda>p. fst (filt (?h ! p))) ps = filter (\<lambda>p. fst (filt (heap ! p))) ps"
      "filter (\<lambda>p. \<not> fst (filt (?h ! p))) ps = filter (\<lambda>p. \<not> fst (filt (heap ! p))) ps"
    using same by (auto intro!: filter_cong)
  have eq: "tq_modify_scan filt heap (p # ps) =
      (heap', filter (\<lambda>p. fst (filt (heap ! p))) (p # ps), filter (\<lambda>p. \<not> fst (filt (heap ! p))) (p # ps))"
    using scan filts by (auto simp: Let_def split: prod.splits)
  moreover have "\<forall>q. heap' ! q = (if q \<in> set (p # ps) then snd (filt (heap ! q)) else heap ! q)"
    using nths same Cons.prems by (auto simp: nth_list_update)
  ultimately show ?case using len by auto
qed

section \<open>The invariant of the scheduler\<close>

text \<open>The tasks that an unconsumed context refers to, and the invariant: a task is queued at most
  once, and never while a context can still repeat it; the queue is ordered by the ends.\<close>

definition live_tasks :: "(nat option \<times> bool) list \<Rightarrow> nat list" where
  "live_tasks cs = List.map_filter (\<lambda>(t, consumed). if consumed then None else t) cs"

definition ts_inv :: "('h, 'w) task_scheduler \<Rightarrow> bool" where
  "ts_inv s \<longleftrightarrow>
     distinct (ts_task_holder s @ live_tasks (ts_contexts s)) \<and>
     (\<forall>p\<in>set (ts_task_holder s). p < length (ts_tasks s)) \<and>
     (\<forall>(t, _)\<in>set (ts_contexts s). \<forall>p\<in>set_option t. p < length (ts_tasks s)) \<and>
     sorted (map (end_of (ts_tasks s)) (ts_task_holder s))"

definition bag :: "('h, 'w) task_scheduler \<Rightarrow> 'h task multiset" where
  "bag s = mset (map (\<lambda>p. ts_tasks s ! p) (ts_task_holder s))"

lemma live_tasks_simps [simp]:
  "live_tasks [] = []"
  "live_tasks (cs @ ds) = live_tasks cs @ live_tasks ds"
  "live_tasks ((t, True) # cs) = live_tasks cs"
  "live_tasks ((None, False) # cs) = live_tasks cs"
  "live_tasks ((Some p, False) # cs) = p # live_tasks cs"
  by (simp_all add: live_tasks_def map_filter_def)

lemma set_live_tasks: "p \<in> set (live_tasks cs) \<longleftrightarrow> (Some p, False) \<in> set cs"
  by (induction cs) (auto simp: live_tasks_def map_filter_def split: if_splits)

lemma live_tasks_consume:
  assumes "c < length cs" "cs ! c = (Some p, False)"
  shows "mset (live_tasks cs) = add_mset p (mset (live_tasks (cs[c := (Some p, True)])))"
proof -
  have "live_tasks cs = live_tasks (take c cs @ cs ! c # drop (Suc c) cs)"
    using assms(1) by (simp add: id_take_nth_drop [symmetric])
  then show ?thesis using assms by (simp add: upd_conv_take_nth_drop)
qed

lemma end_of_keep:
  assumes "tk_end (f (heap ! p)) = tk_end (heap ! p)"
  shows "end_of (heap[p := f (heap ! p)]) = end_of heap"
proof
  fix q
  show "end_of (heap[p := f (heap ! p)]) q = end_of heap q"
    using assms by (cases "p < length heap") (auto simp: end_of_def nth_list_update list_update_beyond)
qed

lemma sorted_end_of_cong:
  "(\<forall>p\<in>set q. end_of heap p = end_of heap' p) \<Longrightarrow>
     sorted (map (end_of heap) q) = sorted (map (end_of heap') q)"
  by (metis map_eq_conv)

lemma ts_inv_new: "ts_inv (TaskScheduler_new now w)" "ts_inv (TaskScheduler_new_predicate P now w)"
  by (simp_all add: ts_inv_def TaskScheduler_new_def TaskScheduler_new_predicate_def)

lemma ts_inv_field_upd [simp]:
  "ts_inv (s\<lparr>ts_predicate := P\<rparr>) = ts_inv s" "ts_inv (s\<lparr>ts_asyncHolder := a\<rparr>) = ts_inv s"
  "ts_inv (s\<lparr>ts_now := n\<rparr>) = ts_inv s" "ts_inv (s\<lparr>ts_world := w\<rparr>) = ts_inv s"
  by (simp_all add: ts_inv_def)

lemma ts_inv_filter:
  "ts_inv s \<Longrightarrow> ts_inv (s\<lparr>ts_task_holder := filter f (ts_task_holder s)\<rparr>)"
  by (auto simp: ts_inv_def sorted_filter)

lemma ts_inv_keep_ends:
  "ts_inv s \<Longrightarrow> (\<And>t. tk_end (f t) = tk_end t) \<Longrightarrow> ts_inv (update_task p f s)"
  by (simp add: ts_inv_def update_task_def end_of_keep)

lemma ts_inv_insert:
  assumes "ts_inv s" "p < length (ts_tasks s)" "p \<notin> set (ts_task_holder s)" "p \<notin> set (live_tasks (ts_contexts s))"
  shows "ts_inv (InsertTask p s)"
  using assms by (auto simp: ts_inv_def InsertTask_def tq.push_distinct tq.push_sorted)

lemma ts_inv_contexts_bound:
  "ts_inv s \<Longrightarrow> c < length (ts_contexts s) \<Longrightarrow> fst (ts_contexts s ! c) = Some p \<Longrightarrow> p < length (ts_tasks s)"
  by (cases "ts_contexts s ! c") (fastforce simp: ts_inv_def dest: nth_mem)

lemma live_tasks_bound: "ts_inv s \<Longrightarrow> p \<in> set (live_tasks (ts_contexts s)) \<Longrightarrow> p < length (ts_tasks s)"
  by (fastforce simp: ts_inv_def set_live_tasks)

lemma ts_inv_new_task:
  assumes "ts_inv s" "new_task t s = (p, s')"
  shows "ts_inv s'" "p < length (ts_tasks s')" "p \<notin> set (ts_task_holder s')"
    "p \<notin> set (live_tasks (ts_contexts s'))"
proof -
  have s': "s' = s\<lparr>ts_tasks := ts_tasks s @ [t]\<rparr>" and p: "p = length (ts_tasks s)"
    using assms(2) by (auto simp: new_task_def)
  have ends: "\<forall>q\<in>set (ts_task_holder s). end_of (ts_tasks s @ [t]) q = end_of (ts_tasks s) q"
    using assms(1) by (auto simp: ts_inv_def end_of_def nth_append)
  show "ts_inv s'" using assms(1) sorted_end_of_cong [OF ends] unfolding s' ts_inv_def
    by (fastforce simp: less_Suc_eq)
  show "p < length (ts_tasks s')" using s' p by simp
  show "p \<notin> set (ts_task_holder s')" using assms(1) s' p by (auto simp: ts_inv_def)
  show "p \<notin> set (live_tasks (ts_contexts s'))"
    using live_tasks_bound [OF assms(1)] s' p by auto
qed

lemma ts_inv_ScheduleAt:
  assumes "ts_inv s"
  shows "ts_inv (ScheduleAt e d h s)" "ts_inv (ScheduleAt_group e d g h s)"
  by (simp_all add: ScheduleAt_def ScheduleAt_group_def ts_inv_insert ts_inv_new_task [OF assms] split: prod.splits)

lemma ts_modify_spec:
  assumes inv: "ts_inv s" and keeps: "\<And>t. \<not> fst (filt t) \<Longrightarrow> snd (filt t) = t"
  obtains heap holder where "ts_modify filt s = s\<lparr>ts_tasks := heap, ts_task_holder := holder\<rparr>"
    "mset holder = mset (ts_task_holder s)" "length heap = length (ts_tasks s)"
    "sorted (map (end_of heap) holder)"
    "\<forall>p. heap ! p = (if p \<in> set (ts_task_holder s) then snd (filt (ts_tasks s ! p)) else ts_tasks s ! p)"
proof -
  let ?q = "ts_task_holder s" and ?h = "ts_tasks s"
  let ?hit = "filter (\<lambda>p. fst (filt (?h ! p))) ?q" and ?rest = "filter (\<lambda>p. \<not> fst (filt (?h ! p))) ?q"
  obtain heap where scan: "tq_modify_scan filt ?h ?q = (heap, ?hit, ?rest)"
      and len: "length heap = length ?h"
      and nths: "\<forall>q. heap ! q = (if q \<in> set ?q then snd (filt (?h ! q)) else ?h ! q)"
    using tq_modify_scan_eq [of ?q ?h filt] inv by (auto simp: ts_inv_def)
  let ?holder = "foldl (\<lambda>c p. tq_Push (Compare heap) p c) ?rest ?hit"
  have "\<forall>p\<in>set ?rest. end_of heap p = end_of ?h p"
    using nths keeps by (auto simp: end_of_def)
  moreover have "sorted (map (end_of ?h) ?rest)" using inv by (simp add: ts_inv_def sorted_filter)
  ultimately have rest_sorted: "sorted (map (end_of heap) ?rest)" using sorted_end_of_cong by blast
  have "ts_modify filt s = s\<lparr>ts_tasks := heap, ts_task_holder := ?holder\<rparr>"
    by (simp add: ts_modify_def tq_ModifyIf_def scan)
  moreover have "mset ?holder = mset ?q"
    by (simp add: tq.push_all_mset multiset_partition [symmetric] union_commute)
  moreover have "sorted (map (end_of heap) ?holder)"
    using rest_sorted by (rule tq.push_all_sorted)
  ultimately show thesis using that len nths by blast
qed

lemma ts_inv_modify:
  assumes inv: "ts_inv s" and keeps: "\<And>t. \<not> fst (filt t) \<Longrightarrow> snd (filt t) = t"
  shows "ts_inv (ts_modify filt s)"
proof -
  obtain heap holder where s': "ts_modify filt s = s\<lparr>ts_tasks := heap, ts_task_holder := holder\<rparr>"
      and ms: "mset holder = mset (ts_task_holder s)" and len: "length heap = length (ts_tasks s)"
      and srt: "sorted (map (end_of heap) holder)"
    by (rule ts_modify_spec [OF inv keeps])
  have "set holder = set (ts_task_holder s)" "distinct holder = distinct (ts_task_holder s)"
    using ms by (metis set_mset_mset, metis mset_eq_imp_distinct_iff)
  then show ?thesis using inv len srt by (auto simp: s' ts_inv_def)
qed

lemma bag_modify:
  assumes inv: "ts_inv s" and keeps: "\<And>t. \<not> fst (filt t) \<Longrightarrow> snd (filt t) = t"
  shows "bag (ts_modify filt s) = image_mset (\<lambda>t. snd (filt t)) (bag s)"
proof -
  obtain heap holder where s': "ts_modify filt s = s\<lparr>ts_tasks := heap, ts_task_holder := holder\<rparr>"
      and ms: "mset holder = mset (ts_task_holder s)" and "length heap = length (ts_tasks s)"
      and "sorted (map (end_of heap) holder)"
      and nths: "\<forall>p. heap ! p = (if p \<in> set (ts_task_holder s) then snd (filt (ts_tasks s ! p)) else ts_tasks s ! p)"
    by (rule ts_modify_spec [OF inv keeps])
  have "image_mset (\<lambda>p. heap ! p) (mset (ts_task_holder s)) =
        image_mset (\<lambda>p. snd (filt (ts_tasks s ! p))) (mset (ts_task_holder s))"
    by (rule image_mset_cong) (simp add: nths)
  then show ?thesis by (simp add: bag_def s' ms image_mset.compositionality comp_def)
qed

lemma ts_inv_Delay_Reschedule:
  assumes "ts_inv s"
  shows "ts_inv (ts_DelayAll d s)" "ts_inv (ts_DelayGroup g d s)"
    "ts_inv (ts_RescheduleAll d s)" "ts_inv (ts_RescheduleGroup g d s)"
  using assms
  by (auto simp: ts_DelayAll_def ts_DelayGroup_def ts_RescheduleAll_def ts_RescheduleGroup_def
           intro!: ts_inv_modify)

lemma ts_inv_Cancel:
  assumes "ts_inv s"
  shows "ts_inv (ts_CancelAll s)" "ts_inv (ts_CancelGroup g s)"
  using assms ts_inv_filter [OF assms]
  by (auto simp: ts_CancelAll_def ts_CancelGroup_def tq_RemoveIf_filter tq_Clear_def ts_inv_def)

lemma ts_inv_CancelGroupsOf: "ts_inv s \<Longrightarrow> ts_inv (ts_CancelGroupsOf gs s)"
  by (induction gs arbitrary: s) (simp_all add: ts_CancelGroupsOf_def ts_inv_Cancel)

lemma ts_inv_ctx_Dispatch: "(ts_inv s \<Longrightarrow> ts_inv (f s)) \<Longrightarrow> ts_inv s \<Longrightarrow> ts_inv (ctx_Dispatch f s)"
  by (simp add: ctx_Dispatch_def)

lemma ctx_task_Inr:
  "ctx_task c s = Inr p \<longleftrightarrow> c < length (ts_contexts s) \<and> fst (ts_contexts s ! c) = Some p"
  by (auto simp: ctx_task_def split: option.splits)

lemma ctx_Repeat_eq:
  "ctx_Repeat d c s = Inr s' \<longleftrightarrow>
     (\<exists>p. c < length (ts_contexts s) \<and> ts_contexts s ! c = (Some p, False) \<and>
        s' = ctx_Dispatch (InsertTask p) (ctx_consume c
               (update_task p (\<lambda>t. t\<lparr>tk_duration := d, tk_end := tk_end t + d, tk_repeated := tk_repeated t + 1\<rparr>) s)))"
  by (cases "ts_contexts s ! c")
     (auto simp: ctx_Repeat_def ctx_AssertOnConsumed_def ctx_task_Inr guard_or_def Let_def split: if_splits)

lemma ts_inv_Repeat:
  assumes inv: "ts_inv s" and rep: "ctx_Repeat d c s = Inr s'"
  shows "ts_inv s'"
proof -
  let ?f = "\<lambda>t :: 'a task. t\<lparr>tk_duration := d, tk_end := tk_end t + d, tk_repeated := tk_repeated t + 1\<rparr>"
  obtain p where c: "c < length (ts_contexts s)" "ts_contexts s ! c = (Some p, False)"
      and s': "s' = ctx_Dispatch (InsertTask p) (ctx_consume c (update_task p ?f s))"
    using rep by (auto simp: ctx_Repeat_eq)
  let ?s2 = "ctx_consume c (update_task p ?f s)"
  have live: "mset (live_tasks (ts_contexts s)) = add_mset p (mset (live_tasks (ts_contexts ?s2)))"
    using live_tasks_consume [OF c] c by (simp add: ctx_consume_def update_task_def)
  have "distinct (p # ts_task_holder s @ live_tasks (ts_contexts ?s2))"
    using inv mset_eq_imp_distinct_iff [of "ts_task_holder s @ live_tasks (ts_contexts s)"
        "p # ts_task_holder s @ live_tasks (ts_contexts ?s2)"] live
    by (simp add: ts_inv_def)
  then have dist: "distinct (ts_task_holder s @ live_tasks (ts_contexts ?s2))"
      "p \<notin> set (ts_task_holder s)" "p \<notin> set (live_tasks (ts_contexts ?s2))"
    by auto
  have "\<forall>q\<in>set (ts_task_holder s). end_of (ts_tasks ?s2) q = end_of (ts_tasks s) q"
    using dist(2) by (simp add: end_of_def ctx_consume_def update_task_def) (metis nth_list_update_neq)
  from sorted_end_of_cong [OF this] have srt: "sorted (map (end_of (ts_tasks ?s2)) (ts_task_holder s))"
    using inv by (simp add: ts_inv_def)
  have bound: "p < length (ts_tasks s)"
    using ts_inv_contexts_bound [OF inv c(1)] c(2) by simp
  have "\<forall>(t, _)\<in>set ((ts_contexts s)[c := (Some p, True)]). \<forall>p\<in>set_option t. p < length (ts_tasks s)"
    using inv bound set_update_subset_insert [of "ts_contexts s" c "(Some p, True)"]
    by (fastforce simp: ts_inv_def)
  with srt have inv2: "ts_inv ?s2"
    using inv dist(1) c(2) by (simp add: ts_inv_def ctx_consume_def update_task_def)
  show ?thesis unfolding s'
    using ts_inv_insert [OF inv2] dist(2,3) inv2 bound by (simp add: ctx_Dispatch_def ctx_consume_def update_task_def)
qed

lemma ts_inv_ctx:
  assumes "ts_inv s"
  shows "ctx_SetGroup g c s = Inr s' \<Longrightarrow> ts_inv s'" "ctx_ClearGroup c s = Inr s' \<Longrightarrow> ts_inv s'"
    "ctx_Repeat_same c s = Inr s' \<Longrightarrow> ts_inv s'"
    "ctx_Schedule d h c s = Inr s' \<Longrightarrow> ts_inv s'" "ctx_Schedule_group d g h c s = Inr s' \<Longrightarrow> ts_inv s'"
  using assms
  by (auto simp: ctx_SetGroup_def ctx_ClearGroup_def ctx_Repeat_same_def ctx_Schedule_def ctx_Schedule_group_def
           ts_inv_keep_ends Let_def ts_inv_ctx_Dispatch ts_inv_ScheduleAt dest: ts_inv_Repeat)

lemmas ts_inv_ops =
  ts_inv_ScheduleAt ts_inv_Delay_Reschedule ts_inv_Cancel ts_inv_CancelGroupsOf ts_inv_ctx_Dispatch

lemma ts_inv_do_call: "ts_inv s \<Longrightarrow> do_call a s = Inr s' \<Longrightarrow> ts_inv s'"
  by (cases a)
     (auto simp: SetValidator_def ClearValidator_def ts_Async_def ts_Schedule_def ts_Schedule_group_def
        ctx_Async_def ctx_CancelAll_def ctx_CancelGroup_def ctx_CancelGroupsOf_def ctx_DelayAll_def
        ctx_DelayGroup_def ctx_RescheduleAll_def ctx_RescheduleGroup_def ts_inv_ops
        dest: ts_inv_ctx ts_inv_Repeat)

lemma ts_inv_do_calls: "ts_inv s \<Longrightarrow> do_calls as s = Inr s' \<Longrightarrow> ts_inv s'"
  by (induction as arbitrary: s) (auto dest: ts_inv_do_call)

lemma ts_inv_run_body: "ts_inv s \<Longrightarrow> run_body b s = Inr s' \<Longrightarrow> ts_inv s'"
  by (auto simp: run_body_def dest: ts_inv_do_calls)

lemma ts_inv_run_front_async: "ts_inv s \<Longrightarrow> run_front_async B s = Inr s' \<Longrightarrow> ts_inv s'"
  by (auto simp: run_front_async_def neq_Nil_conv split: list.split_asm) (blast dest: ts_inv_run_body)

lemma ts_inv_pop:
  "ts_inv s \<Longrightarrow> ts_task_holder s = p # rest \<Longrightarrow>
     ts_inv (snd (TaskContext_new p (s\<lparr>ts_task_holder := rest\<rparr>)))"
  by (auto simp: ts_inv_def TaskContext_new_def)

lemma dispatch_first_eq:
  "ts_task_holder s = p # rest \<Longrightarrow>
     dispatch_first B s =
       bindr (run_body (b_task B (tk_task (ts_tasks s ! p)) (length (ts_contexts s))
                         (s\<lparr>ts_task_holder := rest, ts_contexts := ts_contexts s @ [(Some p, False)]\<rparr>))
               (s\<lparr>ts_task_holder := rest, ts_contexts := ts_contexts s @ [(Some p, False)]\<rparr>))
             (\<lambda>s'. Inr (p, s'))"
  by (simp add: dispatch_first_def tq_Pop_def TaskContext_new_def ctx_Invoke_def ctx_task_def)

lemma ts_inv_dispatch_first:
  "ts_inv s \<Longrightarrow> ts_task_holder s = p # rest \<Longrightarrow> dispatch_first B s = Inr (q, s') \<Longrightarrow> q = p \<and> ts_inv s'"
  using ts_inv_pop [of s p rest] by (auto simp: dispatch_first_eq TaskContext_new_def dest: ts_inv_run_body)

lemma ts_inv_async_loop_aux:
  "async_loop B s = Some r \<Longrightarrow> ts_inv s \<longrightarrow> (\<forall>fin s'. r = Inr (fin, s') \<longrightarrow> ts_inv s')"
proof (erule async_loop.raw_induct [rotated], goal_cases)
  case (1 f B s y)
  then show ?case by (auto split: if_splits sum.split_asm dest: ts_inv_run_front_async)
qed

lemmas ts_inv_async_loop = ts_inv_async_loop_aux [THEN mp, THEN spec, THEN spec, THEN mp, OF _ _ refl]

lemma ts_inv_task_loop_aux:
  "task_loop B log s = Some r \<Longrightarrow> ts_inv s \<longrightarrow> (\<forall>fin log' s'. r = Inr (fin, log', s') \<longrightarrow> ts_inv s')"
proof (erule task_loop.raw_induct [rotated], goal_cases)
  case (1 f B log s y)
  then show ?case
    by (auto simp: Let_def split: if_splits sum.split_asm list.split_asm prod.split_asm dest: ts_inv_dispatch_first)
qed

lemmas ts_inv_task_loop =
  ts_inv_task_loop_aux [THEN mp, THEN spec, THEN spec, THEN spec, THEN mp, OF _ _ refl]

lemma ts_inv_Dispatch: "ts_inv s \<Longrightarrow> ts_Dispatch B cb s = Some (Inr (log, s')) \<Longrightarrow> ts_inv s'"
  by (auto simp: ts_Dispatch_def split: if_splits option.splits sum.splits bool.splits)
     (blast dest: ts_inv_async_loop ts_inv_task_loop)+

section \<open>Progress of a handler\<close>

text \<open>Calls that move time forward: what they schedule, repeat or reschedule lies in the future of
  the task that makes them, and nothing is moved back.\<close>

fun positive_call :: "('h, 'w) call \<Rightarrow> bool" where
  "positive_call (CallSchedule time task) \<longleftrightarrow> 0 < time"
| "positive_call (CallScheduleGroup time grp task) \<longleftrightarrow> 0 < time"
| "positive_call (CtxSchedule c time task) \<longleftrightarrow> 0 < time"
| "positive_call (CtxScheduleGroup c time grp task) \<longleftrightarrow> 0 < time"
| "positive_call (CtxRepeat c duration) \<longleftrightarrow> 0 < duration"
| "positive_call (CallDelayAll duration) \<longleftrightarrow> 0 \<le> duration"
| "positive_call (CallDelayGroup grp duration) \<longleftrightarrow> 0 \<le> duration"
| "positive_call (CtxDelayAll duration) \<longleftrightarrow> 0 \<le> duration"
| "positive_call (CtxDelayGroup grp duration) \<longleftrightarrow> 0 \<le> duration"
| "positive_call (CallRescheduleAll duration) \<longleftrightarrow> 0 < duration"
| "positive_call (CallRescheduleGroup grp duration) \<longleftrightarrow> 0 < duration"
| "positive_call (CtxRescheduleAll duration) \<longleftrightarrow> 0 < duration"
| "positive_call (CtxRescheduleGroup grp duration) \<longleftrightarrow> 0 < duration"
| "positive_call _ \<longleftrightarrow> True"

fun own_context :: "nat \<Rightarrow> ('h, 'w) call \<Rightarrow> bool" where
  "own_context c (CtxSetGroup c' _) \<longleftrightarrow> c' = c"
| "own_context c (CtxClearGroup c') \<longleftrightarrow> c' = c"
| "own_context c (CtxRepeat c' _) \<longleftrightarrow> c' = c"
| "own_context c (CtxRepeatSame c') \<longleftrightarrow> c' = c"
| "own_context c (CtxSchedule c' _ _) \<longleftrightarrow> c' = c"
| "own_context c (CtxScheduleGroup c' _ _ _) \<longleftrightarrow> c' = c"
| "own_context c _ \<longleftrightarrow> True"

definition positive_durations :: "'h task list \<Rightarrow> bool" where
  "positive_durations ts \<longleftrightarrow> (\<forall>t\<in>set ts. 0 < tk_duration t)"

text \<open>What has happened since task \<open>p0\<close>, due at \<open>e\<close>, was taken from the queue in state \<open>s1\<close> and its
  handler was started with the context \<open>c\<close>.\<close>

definition progress ::
  "nat \<Rightarrow> nat \<Rightarrow> int \<Rightarrow> ('h, 'w) task_scheduler \<Rightarrow> ('h, 'w) task_scheduler \<Rightarrow> bool" where
  "progress c p0 e s1 s \<longleftrightarrow>
     ts_inv s \<and> ts_now s = ts_now s1 \<and> positive_durations (ts_tasks s) \<and>
     ctx_task c s = Inr p0 \<and> e \<le> end_of (ts_tasks s) p0 \<and>
     (\<forall>p\<in>set (ts_task_holder s).
        p \<in> set (ts_task_holder s1) \<and> end_of (ts_tasks s1) p \<le> end_of (ts_tasks s) p \<or>
        e < end_of (ts_tasks s) p)"

lemma positive_durations_simps [simp]:
  "positive_durations (ts @ [t]) \<longleftrightarrow> positive_durations ts \<and> 0 < tk_duration t"
  by (auto simp: positive_durations_def)

lemma positive_durations_update:
  "positive_durations ts \<Longrightarrow> 0 < tk_duration t \<Longrightarrow> positive_durations (ts[p := t])"
  using set_update_subset_insert [of ts p t] by (auto simp: positive_durations_def)

lemma positive_durations_nth: "positive_durations ts \<Longrightarrow> p < length ts \<Longrightarrow> 0 < tk_duration (ts ! p)"
  by (simp add: positive_durations_def)

lemma positive_durations_map:
  assumes "positive_durations ts" "length heap = length ts"
    "\<forall>p. heap ! p = (if p \<in> S then snd (filt (ts ! p)) else ts ! p)"
    "\<And>t. tk_duration (snd (filt t)) = tk_duration t"
  shows "positive_durations heap"
  using assms by (auto simp: positive_durations_def in_set_conv_nth) (metis nth_mem)

lemma ctx_task_cong: "ts_contexts s = ts_contexts s' \<Longrightarrow> ctx_task c s = ctx_task c s'"
  by (simp add: ctx_task_def)

lemma progress_field_upd [simp]:
  "progress c p e s1 (s\<lparr>ts_predicate := P\<rparr>) = progress c p e s1 s"
  "progress c p e s1 (s\<lparr>ts_asyncHolder := a\<rparr>) = progress c p e s1 s"
  "progress c p e s1 (s\<lparr>ts_world := w\<rparr>) = progress c p e s1 s"
  by (simp_all add: progress_def ctx_task_Inr)

lemma progress_filter:
  "progress c p e s1 s \<Longrightarrow> progress c p e s1 (s\<lparr>ts_task_holder := filter f (ts_task_holder s)\<rparr>)"
  by (auto simp: progress_def ctx_task_Inr ts_inv_filter)

lemma progress_ScheduleAt:
  assumes "progress c p0 e s1 s" "e < endt + time" "0 < time"
  shows "progress c p0 e s1 (ScheduleAt endt time h s)"
    "progress c p0 e s1 (ScheduleAt_group endt time g h s)"
proof -
  have inv: "ts_inv s" using assms(1) by (simp add: progress_def)
  have p0: "p0 < length (ts_tasks s)"
    using assms(1) ts_inv_contexts_bound [OF inv] by (auto simp: progress_def ctx_task_Inr)
  have old: "\<forall>p\<in>set (ts_task_holder s). p < length (ts_tasks s)" using inv by (simp add: ts_inv_def)
  show "progress c p0 e s1 (ScheduleAt endt time h s)"
    "progress c p0 e s1 (ScheduleAt_group endt time g h s)"
    using ts_inv_ScheduleAt [OF inv] assms p0 old
    by (auto simp: progress_def ScheduleAt_def ScheduleAt_group_def new_task_def InsertTask_def
          Task_min_def Task_all_def end_of_def nth_append ctx_task_Inr)
qed

lemma progress_modify:
  assumes pr: "progress c p0 e s1 s" and keeps: "\<And>t. \<not> fst (filt t) \<Longrightarrow> snd (filt t) = t"
    and dur: "\<And>t. tk_duration (snd (filt t)) = tk_duration t"
    and fwd: "\<And>t. tk_end t \<le> tk_end (snd (filt t)) \<or> e < tk_end (snd (filt t))"
  shows "progress c p0 e s1 (ts_modify filt s)"
proof -
  have inv: "ts_inv s" using pr by (simp add: progress_def)
  obtain heap holder where s': "ts_modify filt s = s\<lparr>ts_tasks := heap, ts_task_holder := holder\<rparr>"
      and ms: "mset holder = mset (ts_task_holder s)" and len: "length heap = length (ts_tasks s)"
      and "sorted (map (end_of heap) holder)"
      and nths: "\<forall>p. heap ! p = (if p \<in> set (ts_task_holder s) then snd (filt (ts_tasks s ! p)) else ts_tasks s ! p)"
    by (rule ts_modify_spec [OF inv keeps])
  have holder: "set holder = set (ts_task_holder s)" using ms by (metis set_mset_mset)
  have ends: "end_of (ts_tasks s) p \<le> end_of heap p \<or> e < end_of heap p" for p
    using fwd [of "ts_tasks s ! p"] nths by (simp add: end_of_def)
  have "positive_durations heap"
    using pr positive_durations_map [OF _ len nths dur] by (simp add: progress_def)
  moreover have "e \<le> end_of heap p0"
    using ends [of p0] pr by (auto simp: progress_def)
  moreover have "\<forall>p\<in>set holder. p \<in> set (ts_task_holder s1) \<and> end_of (ts_tasks s1) p \<le> end_of heap p \<or> e < end_of heap p"
  proof
    fix p
    assume "p \<in> set holder"
    then have "p \<in> set (ts_task_holder s1) \<and> end_of (ts_tasks s1) p \<le> end_of (ts_tasks s) p \<or>
        e < end_of (ts_tasks s) p"
      using pr holder by (simp add: progress_def)
    then show "p \<in> set (ts_task_holder s1) \<and> end_of (ts_tasks s1) p \<le> end_of heap p \<or> e < end_of heap p"
      using ends [of p] by auto
  qed
  ultimately show ?thesis
    using ts_inv_modify [OF inv keeps] pr by (simp add: progress_def s' ctx_task_Inr)
qed

lemma progress_Delay_Reschedule:
  assumes "progress c p0 e s1 s" "e \<le> ts_now s1"
  shows "0 \<le> d \<Longrightarrow> progress c p0 e s1 (ts_DelayAll d s)"
    "0 \<le> d \<Longrightarrow> progress c p0 e s1 (ts_DelayGroup g d s)"
    "0 < d \<Longrightarrow> progress c p0 e s1 (ts_RescheduleAll d s)"
    "0 < d \<Longrightarrow> progress c p0 e s1 (ts_RescheduleGroup g d s)"
proof -
  have now: "ts_now s = ts_now s1" using assms(1) by (simp add: progress_def)
  show "0 \<le> d \<Longrightarrow> progress c p0 e s1 (ts_DelayAll d s)"
    "0 \<le> d \<Longrightarrow> progress c p0 e s1 (ts_DelayGroup g d s)"
    "0 < d \<Longrightarrow> progress c p0 e s1 (ts_RescheduleAll d s)"
    "0 < d \<Longrightarrow> progress c p0 e s1 (ts_RescheduleGroup g d s)"
    unfolding ts_DelayAll_def ts_DelayGroup_def ts_RescheduleAll_def ts_RescheduleGroup_def Let_def
    using assms now by (auto intro!: progress_modify)
qed

lemma progress_Cancel:
  assumes "progress c p e s1 s"
  shows "progress c p e s1 (ts_CancelAll s)" "progress c p e s1 (ts_CancelGroup g s)"
  using assms progress_filter [OF assms, of "\<lambda>_. False"] progress_filter [OF assms]
  by (auto simp: ts_CancelAll_def ts_CancelGroup_def tq_RemoveIf_filter tq_Clear_def)

lemma progress_CancelGroupsOf: "progress c p e s1 s \<Longrightarrow> progress c p e s1 (ts_CancelGroupsOf gs s)"
  by (induction gs arbitrary: s) (simp_all add: ts_CancelGroupsOf_def progress_Cancel)

lemma progress_ctx_Dispatch:
  "(progress c p e s1 s \<Longrightarrow> progress c p e s1 (f s)) \<Longrightarrow> progress c p e s1 s \<Longrightarrow> progress c p e s1 (ctx_Dispatch f s)"
  by (simp add: ctx_Dispatch_def)

lemma progress_keep_ends:
  assumes "progress c p0 e s1 s" "\<And>t. tk_end (f t) = tk_end t" "\<And>t. tk_duration (f t) = tk_duration t"
    "p < length (ts_tasks s)"
  shows "progress c p0 e s1 (update_task p f s)"
proof -
  have "positive_durations ((ts_tasks s)[p := f (ts_tasks s ! p)])"
    using assms by (intro positive_durations_update) (auto simp: progress_def positive_durations_nth)
  then show ?thesis
    using assms ts_inv_keep_ends [of s f p] by (simp add: progress_def ctx_task_Inr update_task_def end_of_keep)
qed

lemma progress_Repeat:
  assumes pr: "progress c p0 e s1 s" and d: "0 < d" and rep: "ctx_Repeat d c s = Inr s'"
  shows "progress c p0 e s1 s'"
proof -
  let ?f = "\<lambda>t :: 'a task. t\<lparr>tk_duration := d, tk_end := tk_end t + d, tk_repeated := tk_repeated t + 1\<rparr>"
  have inv: "ts_inv s" using pr by (simp add: progress_def)
  have c: "c < length (ts_contexts s)" "ts_contexts s ! c = (Some p0, False)"
      and s': "s' = ctx_Dispatch (InsertTask p0) (ctx_consume c (update_task p0 ?f s))"
    using rep pr by (auto simp: ctx_Repeat_eq progress_def ctx_task_Inr)
  have p0: "p0 < length (ts_tasks s)" using ts_inv_contexts_bound [OF inv c(1)] c(2) by simp
  have "(Some p0, False) \<in> set (ts_contexts s)" using c by (metis nth_mem)
  then have out: "p0 \<notin> set (ts_task_holder s)" using inv by (auto simp: ts_inv_def set_live_tasks)
  let ?h = "(ts_tasks s)[p0 := ?f (ts_tasks s ! p0)]"
  have ends: "e < end_of ?h p0" "\<forall>p\<in>set (ts_task_holder s). end_of ?h p = end_of (ts_tasks s) p"
    using pr d p0 out by (auto simp: progress_def end_of_def nth_list_update)
  have s'_fields: "ts_tasks s' = ?h" "ts_now s' = ts_now s" "set (ts_task_holder s') \<subseteq> insert p0 (set (ts_task_holder s))"
    unfolding s' by (auto simp: ctx_Dispatch_def InsertTask_def ctx_consume_def update_task_def)
  have ctx: "ctx_task c s' = Inr p0"
    unfolding s' using c by (simp add: ctx_task_Inr ctx_Dispatch_def InsertTask_def ctx_consume_def update_task_def)
  have dur: "positive_durations ?h" using pr d by (simp add: progress_def positive_durations_update)
  have holder: "\<forall>p\<in>set (ts_task_holder s').
        p \<in> set (ts_task_holder s1) \<and> end_of (ts_tasks s1) p \<le> end_of ?h p \<or> e < end_of ?h p"
  proof
    fix p
    assume "p \<in> set (ts_task_holder s')"
    then consider "p = p0" | "p \<in> set (ts_task_holder s)" using s'_fields(3) by auto
    then show "p \<in> set (ts_task_holder s1) \<and> end_of (ts_tasks s1) p \<le> end_of ?h p \<or> e < end_of ?h p"
      using ends pr by cases (simp_all add: progress_def)
  qed
  show ?thesis
    using pr ts_inv_Repeat [OF inv rep] ends(1) ctx dur holder
    unfolding progress_def s'_fields(1,2) by simp
qed

lemma progress_ctx:
  assumes pr: "progress c p0 e s1 s"
  shows "ctx_SetGroup g c s = Inr s' \<Longrightarrow> progress c p0 e s1 s'"
    "ctx_ClearGroup c s = Inr s' \<Longrightarrow> progress c p0 e s1 s'"
    "ctx_Repeat_same c s = Inr s' \<Longrightarrow> progress c p0 e s1 s'"
    "0 < d \<Longrightarrow> ctx_Schedule d h c s = Inr s' \<Longrightarrow> progress c p0 e s1 s'"
    "0 < d \<Longrightarrow> ctx_Schedule_group d g h c s = Inr s' \<Longrightarrow> progress c p0 e s1 s'"
proof -
  have p0: "ctx_task c s = Inr p0" and ge: "e \<le> tk_end (ts_tasks s ! p0)"
      and pd: "positive_durations (ts_tasks s)" and inv: "ts_inv s"
    using pr by (auto simp: progress_def end_of_def)
  then have len: "p0 < length (ts_tasks s)" using ts_inv_contexts_bound by (auto simp: ctx_task_Inr)
  show "ctx_SetGroup g c s = Inr s' \<Longrightarrow> progress c p0 e s1 s'" "ctx_ClearGroup c s = Inr s' \<Longrightarrow> progress c p0 e s1 s'"
    using pr p0 len by (auto simp: ctx_SetGroup_def ctx_ClearGroup_def intro!: progress_keep_ends)
  show "ctx_Repeat_same c s = Inr s' \<Longrightarrow> progress c p0 e s1 s'"
    using progress_Repeat [OF pr] positive_durations_nth [OF pd len] p0 by (auto simp: ctx_Repeat_same_def)
  show "0 < d \<Longrightarrow> ctx_Schedule d h c s = Inr s' \<Longrightarrow> progress c p0 e s1 s'"
    "0 < d \<Longrightarrow> ctx_Schedule_group d g h c s = Inr s' \<Longrightarrow> progress c p0 e s1 s'"
    using pr p0 ge
    by (auto simp: ctx_Schedule_def ctx_Schedule_group_def Let_def intro!: progress_ctx_Dispatch progress_ScheduleAt)
qed

lemma progress_do_call:
  assumes pr: "progress c p0 e s1 s" and e: "e \<le> ts_now s1"
    and "positive_call a" "own_context c a" "do_call a s = Inr s'"
  shows "progress c p0 e s1 s'"
proof -
  have now: "ts_now s = ts_now s1" using pr by (simp add: progress_def)
  show ?thesis using assms now
    by (cases a)
       (auto simp: SetValidator_def ClearValidator_def ts_Async_def ts_Schedule_def ts_Schedule_group_def
          ctx_Async_def ctx_CancelAll_def ctx_CancelGroup_def ctx_CancelGroupsOf_def ctx_DelayAll_def
          ctx_DelayGroup_def ctx_RescheduleAll_def ctx_RescheduleGroup_def
          progress_Delay_Reschedule progress_Cancel progress_CancelGroupsOf
          dest: progress_ctx progress_Repeat
          intro!: progress_ctx_Dispatch progress_ScheduleAt)
qed

lemma progress_do_calls:
  "progress c p0 e s1 s \<Longrightarrow> e \<le> ts_now s1 \<Longrightarrow> \<forall>a\<in>set as. positive_call a \<and> own_context c a \<Longrightarrow>
     do_calls as s = Inr s' \<Longrightarrow> progress c p0 e s1 s'"
  by (induction as arbitrary: s) (auto dest: progress_do_call)

section \<open>Dispatch ends, in time order\<close>

definition lag :: "('h, 'w) task_scheduler \<Rightarrow> nat \<Rightarrow> nat" where
  "lag s p = nat (ts_now s - end_of (ts_tasks s) p)"

definition due :: "('h, 'w) task_scheduler \<Rightarrow> nat set" where
  "due s = {p \<in> set (ts_task_holder s). end_of (ts_tasks s) p \<le> ts_now s}"

definition lags :: "('h, 'w) task_scheduler \<Rightarrow> nat multiset" where
  "lags s = image_mset (lag s) (mset_set (due s))"

lemma image_mset_set_mono:
  fixes f g :: "'a \<Rightarrow> 'b::linorder"
  assumes "finite Y" "X \<subseteq> Y" "\<And>x. x \<in> X \<Longrightarrow> f x \<le> g x"
  shows "image_mset f (mset_set X) \<le> image_mset g (mset_set Y)"
proof -
  have "finite X" using assms(1,2) by (rule finite_subset [rotated])
  then have "image_mset f (mset_set X) \<le> image_mset g (mset_set X)"
    using assms(3)
  proof (induction X rule: finite_induct)
    case (insert x F)
    then have "f x \<le> g x" by simp
    then have "{#f x#} \<le> {#g x#}" by (auto simp: le_less)
    with insert have "{#f x#} + image_mset f (mset_set F) \<le> {#g x#} + image_mset g (mset_set F)"
      by (intro add_mono) auto
    then show ?case using insert.hyps by simp
  qed simp
  also have "\<dots> \<le> image_mset g (mset_set Y)"
    using assms(1,2) by (intro subset_eq_imp_le_multiset image_mset_subseteq_mono subset_imp_msubset_mset_set)
  finally show ?thesis .
qed

lemma progress_lags:
  assumes inv: "ts_inv s" and q: "ts_task_holder s = p # rest" and e: "e = end_of (ts_tasks s) p"
    and now: "e \<le> ts_now s" and pr: "progress c p e (s\<lparr>ts_task_holder := rest\<rparr>) s'"
  shows "lags s' < lags s"
proof -
  let ?s1 = "s\<lparr>ts_task_holder := rest\<rparr>"
  let ?O = "{x \<in> due s'. x \<in> set rest \<and> end_of (ts_tasks s) x \<le> end_of (ts_tasks s') x}"
  let ?N = "due s' - ?O"
  have now': "ts_now s' = ts_now s" using pr by (simp add: progress_def)
  have fin: "finite (due s')" "finite (due ?s1)" by (simp_all add: due_def)
  have "image_mset (lag s') (mset_set ?O) \<le> image_mset (lag ?s1) (mset_set (due ?s1))"
    by (rule image_mset_set_mono) (auto simp: fin due_def lag_def now')
  moreover have "image_mset (lag s') (mset_set ?N) < {#lag s p#}"
  proof (rule ex_gt_imp_less_multiset, intro exI conjI allI impI)
    fix x
    assume "x \<in># image_mset (lag s') (mset_set ?N)"
    then obtain r where r: "r \<in> ?N" "x = lag s' r" using fin(1) by auto
    then have "e < end_of (ts_tasks s') r" "end_of (ts_tasks s') r \<le> ts_now s"
      using pr by (auto simp: progress_def due_def now')
    then show "x < lag s p" using r e now by (simp add: lag_def now')
  qed simp
  ultimately have "image_mset (lag s') (mset_set ?O) + image_mset (lag s') (mset_set ?N)
      < image_mset (lag ?s1) (mset_set (due ?s1)) + {#lag s p#}"
    by (rule add_le_less_mono)
  moreover have "lags s' = image_mset (lag s') (mset_set ?O) + image_mset (lag s') (mset_set ?N)"
  proof -
    have "due s' = ?O \<union> ?N" by blast
    then have "mset_set (due s') = mset_set ?O + mset_set ?N"
      using fin(1) by (metis (no_types, lifting) Diff_disjoint finite_Diff finite_subset mset_set_Union sup_ge1)
    then show ?thesis by (simp add: lags_def)
  qed
  moreover have lag_eq: "lag ?s1 = lag s" by (auto simp: lag_def fun_eq_iff)
  moreover have "due s = insert p (due ?s1)" "p \<notin> due ?s1"
    using inv q e now by (auto simp: due_def ts_inv_def)
  then have "lags s = image_mset (lag ?s1) (mset_set (due ?s1)) + {#lag s p#}"
    using fin(2) by (simp add: lags_def lag_eq)
  ultimately show ?thesis by simp
qed

definition steady :: "('h, 'w) bodies \<Rightarrow> bool" where
  "steady B \<longleftrightarrow> (\<forall>h c s. \<forall>a\<in>set (fst (b_task B h c s)). positive_call a \<and> own_context c a)"

lemma steady_dispatch_first:
  assumes "steady B" "ts_inv s" "positive_durations (ts_tasks s)" "ts_task_holder s = p # rest"
    "end_of (ts_tasks s) p \<le> ts_now s" "dispatch_first B s = Inr (q, s')"
  shows "q = p" "progress (length (ts_contexts s)) p (end_of (ts_tasks s) p) (s\<lparr>ts_task_holder := rest\<rparr>) s'"
proof -
  let ?c = "length (ts_contexts s)" and ?e = "end_of (ts_tasks s) p"
  let ?s1 = "s\<lparr>ts_task_holder := rest, ts_contexts := ts_contexts s @ [(Some p, False)]\<rparr>"
  have "ts_inv ?s1" using ts_inv_pop [OF assms(2,4)] by (simp add: TaskContext_new_def)
  then have start: "progress ?c p ?e (s\<lparr>ts_task_holder := rest\<rparr>) ?s1"
    using assms(3) by (simp add: progress_def ctx_task_def)
  let ?b = "b_task B (tk_task (ts_tasks s ! p)) ?c ?s1"
  have q: "q = p" and run: "run_body ?b ?s1 = Inr s'"
    using assms(6) by (auto simp: dispatch_first_eq [OF assms(4)])
  obtain s2 where calls: "do_calls (fst ?b) ?s1 = Inr s2" and s': "s' = s2\<lparr>ts_world := snd ?b\<rparr>"
    using run by (auto simp only: run_body_def bindr_eq_Inr sum.inject)
  have ok: "\<forall>a\<in>set (fst ?b). positive_call a \<and> own_context ?c a"
    using assms(1) unfolding steady_def by blast
  have "progress ?c p ?e (s\<lparr>ts_task_holder := rest\<rparr>) s2"
    by (rule progress_do_calls [OF start _ ok calls]) (simp add: assms(5))
  then show "progress ?c p ?e (s\<lparr>ts_task_holder := rest\<rparr>) s'" by (simp only: s' progress_field_upd)
  show "q = p" by (rule q)
qed

text \<open>The state of the task loop: the log is in time order, and nothing queued is earlier than what
  has run.\<close>

definition loop_inv :: "(nat \<times> int) list \<Rightarrow> ('h, 'w) task_scheduler \<Rightarrow> bool" where
  "loop_inv log s \<longleftrightarrow>
     ts_inv s \<and> positive_durations (ts_tasks s) \<and> sorted (map snd log) \<and>
     (\<forall>x\<in>set log. snd x \<le> ts_now s) \<and>
     (\<forall>x\<in>set log. \<forall>p\<in>set (ts_task_holder s). snd x \<le> end_of (ts_tasks s) p)"

lemma loop_inv_step:
  assumes inv: "loop_inv log s" and q: "ts_task_holder s = p # rest"
    and now: "end_of (ts_tasks s) p \<le> ts_now s"
    and pr: "progress c p (end_of (ts_tasks s) p) (s\<lparr>ts_task_holder := rest\<rparr>) s'"
  shows "loop_inv (log @ [(p, end_of (ts_tasks s) p)]) s'"
proof -
  let ?e = "end_of (ts_tasks s) p"
  have first: "\<forall>r\<in>set rest. ?e \<le> end_of (ts_tasks s) r" using inv q by (simp add: loop_inv_def ts_inv_def)
  have later: "?e \<le> end_of (ts_tasks s') r" if "r \<in> set (ts_task_holder s')" for r
  proof -
    have "r \<in> set rest \<and> end_of (ts_tasks s) r \<le> end_of (ts_tasks s') r \<or> ?e < end_of (ts_tasks s') r"
      using pr that by (simp add: progress_def)
    then show ?thesis using first by (meson less_imp_le order_trans)
  qed
  have log: "\<forall>x\<in>set log. snd x \<le> ?e" using inv q by (simp add: loop_inv_def)
  then have "\<forall>x\<in>set log. \<forall>r\<in>set (ts_task_holder s'). snd x \<le> end_of (ts_tasks s') r"
    using later by (meson order_trans)
  then show ?thesis using inv pr log later now by (auto simp: loop_inv_def progress_def sorted_append)
qed

lemma task_loop_total:
  assumes "steady B" "loop_inv log s"
  shows "\<exists>r. task_loop B log s = Some r \<and>
    (\<forall>fin log' s'. r = Inr (fin, log', s') \<longrightarrow>
       loop_inv log' s' \<and> ts_now s' = ts_now s \<and>
       (if fin then due s' = {} else \<not> ts_predicate s' (ts_world s')))"
  using assms(2)
proof (induction "lags s" arbitrary: s log rule: less_induct)
  case less
  have inv: "ts_inv s" "positive_durations (ts_tasks s)" using less.prems by (simp_all add: loop_inv_def)
  show ?case
  proof (cases "ts_task_holder s")
    case Nil
    then show ?thesis using less.prems by (simp add: task_loop.simps [of B log s] due_def)
  next
    case (Cons p rest)
    let ?e = "end_of (ts_tasks s) p"
    have all: "\<forall>r\<in>set (p # rest). ?e \<le> end_of (ts_tasks s) r"
      using inv(1) Cons by (simp add: ts_inv_def)
    show ?thesis
    proof (cases "?e > ts_now s")
      case True
      then have "due s = {}" using all Cons by (fastforce simp: due_def)
      then show ?thesis
        using less.prems True Cons by (simp add: task_loop.simps [of B log s] end_of_def)
    next
      case False
      then have now: "?e \<le> ts_now s" by simp
      note unfold = task_loop.simps [of B log s, unfolded Cons list.case]
      show ?thesis
      proof (cases "dispatch_first B s")
        case (Inl x)
        then show ?thesis using False by (simp add: unfold end_of_def)
      next
        case (Inr x)
        obtain q s' where x: "x = (q, s')" by (rule prod.exhaust)
        note st = steady_dispatch_first [OF assms(1) inv Cons now Inr [unfolded x]]
        have next_inv: "loop_inv (log @ [(p, ?e)]) s'" by (rule loop_inv_step [OF less.prems Cons now st(2)])
        have now': "ts_now s' = ts_now s" using st(2) by (simp add: progress_def)
        have "lags s' < lags s" by (rule progress_lags [OF inv(1) Cons refl now st(2)])
        note IH = less.hyps [OF this next_inv]
        show ?thesis
          using False Inr x st(1) now' next_inv IH by (simp add: unfold end_of_def Let_def)
      qed
    qed
  qed
qed

section \<open>The asynchronous callables\<close>

fun keeps_asyncs :: "('h, 'w) call \<Rightarrow> bool" where
  "keeps_asyncs (CallAsync h) \<longleftrightarrow> False"
| "keeps_asyncs (CtxAsync h) \<longleftrightarrow> False"
| "keeps_asyncs CallCancelAll \<longleftrightarrow> False"
| "keeps_asyncs CtxCancelAll \<longleftrightarrow> False"
| "keeps_asyncs _ \<longleftrightarrow> True"

definition quiet_asyncs :: "('h, 'w) bodies \<Rightarrow> bool" where
  "quiet_asyncs B \<longleftrightarrow> (\<forall>h s. \<forall>a\<in>set (fst (b_async B h s)). positive_call a \<and> keeps_asyncs a)"

lemmas ts_op_defs =
  SetValidator_def ClearValidator_def ts_Async_def ts_Schedule_def ts_Schedule_group_def ScheduleAt_def
  ScheduleAt_group_def new_task_def InsertTask_def ts_CancelAll_def ts_CancelGroup_def ts_modify_def
  ts_DelayAll_def ts_DelayGroup_def ts_RescheduleAll_def ts_RescheduleGroup_def ctx_Dispatch_def
  ctx_Async_def ctx_CancelAll_def ctx_CancelGroup_def ctx_CancelGroupsOf_def ctx_DelayAll_def
  ctx_DelayGroup_def ctx_RescheduleAll_def ctx_RescheduleGroup_def ctx_SetGroup_def ctx_ClearGroup_def
  ctx_Repeat_same_def ctx_Schedule_def ctx_Schedule_group_def ctx_Repeat_eq ctx_consume_def update_task_def

lemma ts_CancelGroupsOf_fields [simp]:
  "ts_now (ts_CancelGroupsOf gs s) = ts_now s" "ts_asyncHolder (ts_CancelGroupsOf gs s) = ts_asyncHolder s"
  "ts_tasks (ts_CancelGroupsOf gs s) = ts_tasks s"
  by (induction gs arbitrary: s) (simp_all add: ts_CancelGroupsOf_def ts_CancelGroup_def)

lemma do_call_now: "do_call a s = Inr s' \<Longrightarrow> ts_now s' = ts_now s"
  by (cases a) (auto simp: ts_op_defs split: prod.splits)

lemma do_call_asyncs: "do_call a s = Inr s' \<Longrightarrow> keeps_asyncs a \<Longrightarrow> ts_asyncHolder s' = ts_asyncHolder s"
  by (cases a) (auto simp: ts_op_defs split: prod.splits)

lemma do_calls_asyncs:
  "do_calls as s = Inr s' \<Longrightarrow> \<forall>a\<in>set as. keeps_asyncs a \<Longrightarrow>
     ts_asyncHolder s' = ts_asyncHolder s \<and> ts_now s' = ts_now s"
  by (induction as arbitrary: s) (auto dest: do_call_asyncs do_call_now)

lemma positive_durations_modify:
  assumes "ts_inv s" "\<And>t. \<not> fst (filt t) \<Longrightarrow> snd (filt t) = t" "positive_durations (ts_tasks s)"
    "\<And>t. tk_duration (snd (filt t)) = tk_duration t"
  shows "positive_durations (ts_tasks (ts_modify filt s))"
proof -
  obtain heap holder where "ts_modify filt s = s\<lparr>ts_tasks := heap, ts_task_holder := holder\<rparr>"
      and "mset holder = mset (ts_task_holder s)" and len: "length heap = length (ts_tasks s)"
      and "sorted (map (end_of heap) holder)"
      and nths: "\<forall>p. heap ! p = (if p \<in> set (ts_task_holder s) then snd (filt (ts_tasks s ! p)) else ts_tasks s ! p)"
    by (rule ts_modify_spec [OF assms(1,2)])
  then show ?thesis using positive_durations_map [OF assms(3) len nths assms(4)] by simp
qed

lemma do_call_positive_durations:
  assumes "do_call a s = Inr s'" "positive_call a" "ts_inv s" "positive_durations (ts_tasks s)"
  shows "positive_durations (ts_tasks s')"
proof -
  note md = positive_durations_modify [OF assms(3) _ assms(4)]
  have delays: "positive_durations (ts_tasks (ts_DelayAll d s))" "positive_durations (ts_tasks (ts_DelayGroup g d s))"
      "positive_durations (ts_tasks (ts_RescheduleAll d s))" "positive_durations (ts_tasks (ts_RescheduleGroup g d s))"
    for d g
    by (auto simp: ts_DelayAll_def ts_DelayGroup_def ts_RescheduleAll_def ts_RescheduleGroup_def intro!: md)
  have nth: "fst (ts_contexts s ! c) = Some p \<Longrightarrow> c < length (ts_contexts s) \<Longrightarrow> 0 < tk_duration (ts_tasks s ! p)" for c p
    using ts_inv_contexts_bound [OF assms(3)] positive_durations_nth [OF assms(4)] by blast
  have nth': "ts_contexts s ! c = (Some p, b) \<Longrightarrow> c < length (ts_contexts s) \<Longrightarrow> 0 < tk_duration (ts_tasks s ! p)"
    for c p b using nth [of c p] by simp
  show ?thesis
    using assms delays nth nth'
    by (cases a)
       (auto simp: ctx_Dispatch_def SetValidator_def ClearValidator_def ts_Async_def ts_Schedule_def
          ts_Schedule_group_def ScheduleAt_def ScheduleAt_group_def new_task_def InsertTask_def ts_CancelAll_def
          ts_CancelGroup_def ctx_Async_def ctx_CancelAll_def ctx_CancelGroup_def ctx_CancelGroupsOf_def
          ctx_DelayAll_def ctx_DelayGroup_def ctx_RescheduleAll_def ctx_RescheduleGroup_def ctx_SetGroup_def
          ctx_ClearGroup_def ctx_Repeat_same_def ctx_Schedule_def ctx_Schedule_group_def ctx_Repeat_eq
          ctx_consume_def update_task_def Task_min_def Task_all_def ctx_task_Inr positive_durations_update)
qed

lemma do_calls_positive_durations:
  "do_calls as s = Inr s' \<Longrightarrow> \<forall>a\<in>set as. positive_call a \<Longrightarrow> ts_inv s \<Longrightarrow> positive_durations (ts_tasks s) \<Longrightarrow>
     positive_durations (ts_tasks s')"
  by (induction as arbitrary: s) (auto dest: do_call_positive_durations ts_inv_do_call)

lemma quiet_run_front_async:
  assumes "quiet_asyncs B" "ts_inv s" "positive_durations (ts_tasks s)" "run_front_async B s = Inr s'"
  shows "ts_inv s' \<and> positive_durations (ts_tasks s') \<and> ts_now s' = ts_now s \<and>
    length (ts_asyncHolder s') < length (ts_asyncHolder s)"
proof (cases "ts_asyncHolder s")
  case Nil
  then show ?thesis using assms(4) by (simp add: run_front_async_def)
next
  case (Cons h hs)
  let ?b = "b_async B h s"
  have ok: "\<forall>a\<in>set (fst ?b). positive_call a" "\<forall>a\<in>set (fst ?b). keeps_asyncs a"
    using assms(1) by (auto simp: quiet_asyncs_def)
  obtain s2 where s2: "do_calls (fst ?b) s = Inr s2"
    using assms(4) Cons by (auto simp: run_front_async_def run_body_def)
  have s': "s' = s2\<lparr>ts_world := snd ?b, ts_asyncHolder := hs\<rparr>"
    using assms(4) Cons s2 do_calls_asyncs [OF s2 ok(2)] by (simp add: run_front_async_def run_body_def)
  have "positive_durations (ts_tasks s2)" by (rule do_calls_positive_durations [OF s2 ok(1) assms(2,3)])
  then show ?thesis
    using ts_inv_do_calls [OF assms(2) s2] do_calls_asyncs [OF s2 ok(2)] Cons
    by (simp add: s' ts_inv_def)
qed

lemma async_loop_total:
  assumes "quiet_asyncs B" "ts_inv s" "positive_durations (ts_tasks s)"
  shows "\<exists>r. async_loop B s = Some r \<and>
    (\<forall>fin s'. r = Inr (fin, s') \<longrightarrow> ts_inv s' \<and> positive_durations (ts_tasks s') \<and> ts_now s' = ts_now s \<and>
       (\<not> fin \<longrightarrow> \<not> ts_predicate s' (ts_world s')))"
  using assms(2,3)
proof (induction "length (ts_asyncHolder s)" arbitrary: s rule: less_induct)
  case less
  show ?case
  proof (cases "ts_asyncHolder s = [] \<or> (\<exists>e. run_front_async B s = Inl e)")
    case True
    then show ?thesis using less.prems by (auto simp: async_loop.simps [of B s])
  next
    case False
    then obtain s' where s': "run_front_async B s = Inr s'" "ts_asyncHolder s \<noteq> []"
      by (metis old.sum.exhaust)
    note q = quiet_run_front_async [OF assms(1) less.prems s'(1)]
    show ?thesis using less.hyps [of s'] q s' by (auto simp: async_loop.simps [of B s])
  qed
qed

lemma loop_inv_start: "ts_inv s \<Longrightarrow> positive_durations (ts_tasks s) \<Longrightarrow> loop_inv [] s"
  by (simp add: loop_inv_def)

text \<open>
  C38. \<open>Dispatch\<close> ends, and runs the due tasks in time order: from a well-formed scheduler, when
  task handlers work through their own context and schedule and repeat with positive durations,
  and asynchronous callables neither add asynchronous callables nor cancel all. What it ran is
  sorted by due time and nothing ran early; afterwards no queued task is due, unless the
  validator stopped the run.
\<close>

theorem dispatch_in_time_order:
  assumes "steady B" "quiet_asyncs B" "ts_inv s" "positive_durations (ts_tasks s)"
  shows "\<exists>r. ts_Dispatch B callback s = Some r \<and>
    (\<forall>log s'. r = Inr (log, s') \<longrightarrow>
       sorted (map snd log) \<and> (\<forall>(p, e)\<in>set log. e \<le> ts_now s) \<and> ts_inv s' \<and>
       (due s' = {} \<or> \<not> ts_predicate s' (ts_world s')))"
proof (cases "ts_predicate s (ts_world s)")
  case False
  then show ?thesis using assms by (simp add: ts_Dispatch_def)
next
  case True
  obtain r where r: "async_loop B s = Some r"
      and rr: "\<forall>fin s'. r = Inr (fin, s') \<longrightarrow> ts_inv s' \<and> positive_durations (ts_tasks s') \<and>
        ts_now s' = ts_now s \<and> (\<not> fin \<longrightarrow> \<not> ts_predicate s' (ts_world s'))"
    using async_loop_total [OF assms(2,3,4)] by blast
  show ?thesis
  proof (cases "\<exists>s1. r = Inr (True, s1)")
    case False
    then consider e where "r = Inl e" | s1 where "r = Inr (False, s1)"
      by (metis (full_types) old.sum.exhaust surj_pair)
    then show ?thesis
    proof cases
      case 1
      then show ?thesis using True r by (simp add: ts_Dispatch_def)
    next
      case 2
      then show ?thesis using True r rr by (auto simp: ts_Dispatch_def)
    qed
  next
    case True2: True
    then obtain s1 where s1: "r = Inr (True, s1)" by blast
    then have ok: "ts_inv s1" "positive_durations (ts_tasks s1)" "ts_now s1 = ts_now s" using rr by auto
    obtain r2 where r2: "task_loop B [] s1 = Some r2" and
        rr2: "\<forall>fin log s'. r2 = Inr (fin, log, s') \<longrightarrow> loop_inv log s' \<and> ts_now s' = ts_now s1 \<and>
          (if fin then due s' = {} else \<not> ts_predicate s' (ts_world s'))"
      using task_loop_total [OF assms(1) loop_inv_start [OF ok(1,2)]] by (elim exE conjE) (rule that)
    show ?thesis
    proof (cases r2)
      case (Inl e)
      then show ?thesis using True r s1 r2 by (simp add: ts_Dispatch_def)
    next
      case (Inr x)
      obtain fin log s2 where x: "x = (fin, log, s2)" by (rule prod_cases3)
      have end_state: "loop_inv log s2" "ts_now s2 = ts_now s" "if fin then due s2 = {} else \<not> ts_predicate s2 (ts_world s2)"
        using rr2 Inr x ok by auto
      have "due (s2\<lparr>ts_world := w\<rparr>) = due s2" for w by (simp add: due_def)
      then show ?thesis using True r s1 r2 Inr x end_state
        by (cases fin) (auto simp: ts_Dispatch_def loop_inv_def)
    qed
  qed
qed

text \<open>A concrete run: a handler that repeats itself every 10 ns and cancels group 7, and two queued
  tasks.\<close>

definition ticker :: "(nat, unit) bodies" where
  "ticker = \<lparr>b_task = (\<lambda>h c s. ([CtxRepeat c 10, CtxCancelGroup 7], ())), b_async = (\<lambda>h s. ([CallCancelGroup 9], ()))\<rparr>"

definition two_tasks :: "(nat, unit) task_scheduler" where
  "two_tasks = ts_Async 3 (ts_Schedule_group 25 7 2 (ts_Schedule 15 1 (TaskScheduler_new 0 ())))\<lparr>ts_now := 40\<rparr>"

theorem dispatch_in_time_order_witness:
  "\<exists>r. ts_Dispatch ticker id two_tasks = Some r \<and>
    (\<forall>log s'. r = Inr (log, s') \<longrightarrow>
       sorted (map snd log) \<and> (\<forall>(p, e)\<in>set log. e \<le> 40) \<and> ts_inv s' \<and>
       (due s' = {} \<or> \<not> ts_predicate s' (ts_world s')))"
proof -
  have s: "ts_inv two_tasks" "positive_durations (ts_tasks two_tasks)" "ts_now two_tasks = 40"
    by code_simp+
  have B: "steady ticker" "quiet_asyncs ticker" by (auto simp: steady_def quiet_asyncs_def ticker_def)
  show ?thesis using dispatch_in_time_order [OF B s(1,2), of id] unfolding s(3) .
qed

section \<open>Reachable schedulers\<close>

inductive ts_reachable :: "('h, 'w) bodies \<Rightarrow> ('h, 'w) task_scheduler \<Rightarrow> bool" for B where
  created: "ts_reachable B (TaskScheduler_new now w)"
| created_predicate: "ts_reachable B (TaskScheduler_new_predicate P now w)"
| called: "ts_reachable B s \<Longrightarrow> do_call a s = Inr s' \<Longrightarrow> ts_reachable B s'"
| empty_context: "ts_reachable B s \<Longrightarrow> TaskContext_empty s = (c, s') \<Longrightarrow> ts_reachable B s'"
| updated: "ts_reachable B s \<Longrightarrow> ts_Update B now callback s = Some (Inr (log, s')) \<Longrightarrow> ts_reachable B s'"
| updated_diff: "ts_reachable B s \<Longrightarrow> ts_Update_diff B diff callback s = Some (Inr (log, s')) \<Longrightarrow> ts_reachable B s'"
| updated_ms: "ts_reachable B s \<Longrightarrow> ts_Update_ms B ms callback s = Some (Inr (log, s')) \<Longrightarrow> ts_reachable B s'"

lemma ts_inv_empty_context: "ts_inv s \<Longrightarrow> TaskContext_empty s = (c, s') \<Longrightarrow> ts_inv s'"
  by (fastforce simp: TaskContext_empty_def ts_inv_def)

text \<open>
  C39. The invariant of the scheduler: whatever handlers and callers do through the public
  operations, through any copy of any context, a task is queued at most once, is never queued
  while an unconsumed context could repeat it, and the queue is ordered by due time - although the
  queue shares the tasks with the contexts that modify them.
\<close>

theorem scheduler_invariant:
  assumes "ts_reachable B s"
  shows "distinct (ts_task_holder s @ live_tasks (ts_contexts s)) \<and>
         sorted (map (end_of (ts_tasks s)) (ts_task_holder s)) \<and>
         (\<forall>p\<in>set (ts_task_holder s). p < length (ts_tasks s))"
proof -
  have "ts_inv s" using assms
    by induction
       (auto simp: ts_inv_new ts_Update_def ts_Update_diff_def ts_Update_ms_def
             dest: ts_inv_do_call ts_inv_empty_context ts_inv_Dispatch [rotated])
  then show ?thesis by (simp add: ts_inv_def)
qed

definition no_bodies :: "(nat, unit) bodies" where
  "no_bodies = \<lparr>b_task = (\<lambda>h c s. ([], ())), b_async = (\<lambda>h s. ([], ()))\<rparr>"

theorem scheduler_invariant_witness:
  "ts_task_holder (ts_Schedule 15 1 (ts_Schedule 20 0 (TaskScheduler_new 0 () :: (nat, unit) task_scheduler))) = [1, 0] \<and>
   distinct (ts_task_holder (ts_Schedule 15 1 (ts_Schedule 20 0 (TaskScheduler_new 0 () :: (nat, unit) task_scheduler))))"
proof -
  let ?s1 = "ts_Schedule 20 0 (TaskScheduler_new 0 ()) :: (nat, unit) task_scheduler"
  have "ts_reachable no_bodies ?s1"
    by (rule called [OF created, where a = "CallSchedule 20 0"]) simp
  then have "ts_reachable no_bodies (ts_Schedule 15 1 ?s1)"
    by (rule called [where a = "CallSchedule 15 1"]) simp
  from scheduler_invariant [OF this] have "distinct (ts_task_holder (ts_Schedule 15 1 ?s1))" by simp
  moreover have "ts_task_holder (ts_Schedule 15 1 ?s1) = [1, 0]" by code_simp
  ultimately show ?thesis by simp
qed

section \<open>The scheduler as a bag of tasks\<close>

lemma bag_CancelGroup: "bag (ts_CancelGroup g s) = filter_mset (\<lambda>t. \<not> Task_IsInGroup g t) (bag s)"
  by (simp add: bag_def ts_CancelGroup_def tq_RemoveIf_filter filter_mset_image_mset comp_def)

lemma bag_CancelGroupsOf:
  "bag (ts_CancelGroupsOf gs s) = filter_mset (\<lambda>t. \<forall>g\<in>set gs. \<not> Task_IsInGroup g t) (bag s)"
proof (induction gs arbitrary: s)
  case (Cons g gs)
  have "ts_CancelGroupsOf (g # gs) s = ts_CancelGroupsOf gs (ts_CancelGroup g s)"
    by (simp add: ts_CancelGroupsOf_def)
  then show ?case by (simp add: Cons.IH bag_CancelGroup filter_filter_mset conj_commute)
qed (simp add: ts_CancelGroupsOf_def)

lemma bag_schedule:
  assumes "ts_inv s"
  shows "bag (ts_Schedule d h s) = add_mset (Task_min (ts_now s + d) d h) (bag s)"
    "bag (ts_Schedule_group d g h s) = add_mset (Task_all (ts_now s + d) d (Some g) 0 h) (bag s)"
proof -
  have "\<forall>p\<in>set (ts_task_holder s). (ts_tasks s @ [t]) ! p = ts_tasks s ! p" for t
    using assms by (auto simp: ts_inv_def nth_append)
  then have "image_mset (\<lambda>p. (ts_tasks s @ [t]) ! p) (mset (ts_task_holder s)) = bag s" for t
    unfolding bag_def mset_map by (intro image_mset_cong) simp
  then show "bag (ts_Schedule d h s) = add_mset (Task_min (ts_now s + d) d h) (bag s)"
    "bag (ts_Schedule_group d g h s) = add_mset (Task_all (ts_now s + d) d (Some g) 0 h) (bag s)"
    by (simp_all add: bag_def ts_Schedule_def ts_Schedule_group_def ScheduleAt_def ScheduleAt_group_def
          new_task_def InsertTask_def tq_Push_mset)
qed

lemma bag_Repeat:
  assumes inv: "ts_inv s" and rep: "ctx_Repeat d c s = Inr s'" and alive: "ts_self_reference s"
    and c: "ctx_task c s = Inr p"
  shows "bag s' = add_mset ((ts_tasks s ! p)\<lparr>tk_duration := d, tk_end := tk_end (ts_tasks s ! p) + d,
                              tk_repeated := tk_repeated (ts_tasks s ! p) + 1\<rparr>) (bag s)"
proof -
  let ?t = "(ts_tasks s ! p)\<lparr>tk_duration := d, tk_end := tk_end (ts_tasks s ! p) + d,
                              tk_repeated := tk_repeated (ts_tasks s ! p) + 1\<rparr>"
  have cs: "c < length (ts_contexts s)" "ts_contexts s ! c = (Some p, False)"
    and s': "ts_task_holder s' = tq_Push (Compare ((ts_tasks s)[p := ?t])) p (ts_task_holder s)"
      "ts_tasks s' = (ts_tasks s)[p := ?t]"
    using rep c alive
    by (auto simp: ctx_Repeat_eq ctx_task_Inr ctx_Dispatch_def InsertTask_def ctx_consume_def update_task_def)
  have "(Some p, False) \<in> set (ts_contexts s)" using cs by (metis nth_mem)
  then have out: "p \<notin> set (ts_task_holder s)" using inv by (auto simp: ts_inv_def set_live_tasks)
  have "image_mset (\<lambda>q. (ts_tasks s)[p := ?t] ! q) (mset (ts_task_holder s)) = bag s"
    unfolding bag_def mset_map by (rule image_mset_cong) (use out in \<open>metis nth_list_update_neq set_mset_mset\<close>)
  moreover have "p < length (ts_tasks s)" using ts_inv_contexts_bound [OF inv cs(1)] cs(2) by simp
  ultimately show ?thesis by (simp add: bag_def s' tq_Push_mset)
qed

text \<open>
  C40. The queue refines a bag of tasks: with \<open>bag\<close> the multiset of queued tasks, scheduling adds one
  task, cancelling removes exactly the tasks of the groups named, delaying and rescheduling change
  exactly the ends of the tasks they select and lose none, and a repeat adds the task again with the
  new duration, an end moved by it and the counter increased.
\<close>

theorem scheduler_refines_bag:
  assumes "ts_inv s"
  shows "bag (ts_Schedule d h s) = add_mset (Task_min (ts_now s + d) d h) (bag s) \<and>
    bag (ts_Schedule_group d g h s) = add_mset (Task_all (ts_now s + d) d (Some g) 0 h) (bag s) \<and>
    bag (ts_CancelAll s) = {#} \<and>
    bag (ts_CancelGroup g s) = filter_mset (\<lambda>t. tk_group t \<noteq> Some g) (bag s) \<and>
    bag (ts_CancelGroupsOf gs s) = filter_mset (\<lambda>t. tk_group t \<notin> Some ` set gs) (bag s) \<and>
    bag (ts_DelayAll d s) = image_mset (\<lambda>t. t\<lparr>tk_end := tk_end t + d\<rparr>) (bag s) \<and>
    bag (ts_DelayGroup g d s) =
      image_mset (\<lambda>t. if tk_group t = Some g then t\<lparr>tk_end := tk_end t + d\<rparr> else t) (bag s) \<and>
    bag (ts_RescheduleAll d s) = image_mset (\<lambda>t. t\<lparr>tk_end := ts_now s + d\<rparr>) (bag s) \<and>
    bag (ts_RescheduleGroup g d s) =
      image_mset (\<lambda>t. if tk_group t = Some g then t\<lparr>tk_end := ts_now s + d\<rparr> else t) (bag s) \<and>
    (\<forall>c p s'. ctx_Repeat d c s = Inr s' \<and> ctx_task c s = Inr p \<and> ts_self_reference s \<longrightarrow>
       bag s' = add_mset ((ts_tasks s ! p)\<lparr>tk_duration := d, tk_end := tk_end (ts_tasks s ! p) + d,
                            tk_repeated := tk_repeated (ts_tasks s ! p) + 1\<rparr>) (bag s))"
proof (intro conjI)
  have in_group: "Task_IsInGroup g t \<longleftrightarrow> tk_group t = Some g" for g and t :: "'a task"
    by (simp add: Task_IsInGroup_def)
  show "bag (ts_CancelAll s) = {#}" by (simp add: bag_def ts_CancelAll_def tq_Clear_def)
  show "bag (ts_CancelGroup g s) = filter_mset (\<lambda>t. tk_group t \<noteq> Some g) (bag s)"
    by (simp add: bag_CancelGroup in_group)
  show "bag (ts_CancelGroupsOf gs s) = filter_mset (\<lambda>t. tk_group t \<notin> Some ` set gs) (bag s)"
    unfolding bag_CancelGroupsOf in_group by (rule filter_mset_cong) auto
  show "bag (ts_DelayAll d s) = image_mset (\<lambda>t. t\<lparr>tk_end := tk_end t + d\<rparr>) (bag s)"
    "bag (ts_RescheduleAll d s) = image_mset (\<lambda>t. t\<lparr>tk_end := ts_now s + d\<rparr>) (bag s)"
    unfolding ts_DelayAll_def ts_RescheduleAll_def Let_def by (subst bag_modify [OF assms]; simp)+
  show "bag (ts_DelayGroup g d s) =
           image_mset (\<lambda>t. if tk_group t = Some g then t\<lparr>tk_end := tk_end t + d\<rparr> else t) (bag s)"
    "bag (ts_RescheduleGroup g d s) =
           image_mset (\<lambda>t. if tk_group t = Some g then t\<lparr>tk_end := ts_now s + d\<rparr> else t) (bag s)"
    unfolding ts_DelayGroup_def ts_RescheduleGroup_def Let_def
    by (subst bag_modify [OF assms]; auto simp: in_group intro!: image_mset_cong)+
qed (use bag_schedule [OF assms] bag_Repeat [OF assms] in auto)

theorem scheduler_refines_bag_witness:
  "bag (ts_CancelGroup 7 two_tasks) = filter_mset (\<lambda>t. tk_group t \<noteq> Some 7) (bag two_tasks) \<and>
   bag (ts_DelayAll 5 two_tasks) = image_mset (\<lambda>t. t\<lparr>tk_end := tk_end t + 5\<rparr>) (bag two_tasks)"
proof -
  have "ts_inv two_tasks" by code_simp
  from scheduler_refines_bag [OF this, where d = 5 and g = 7] show ?thesis by blast
qed

text \<open>
  An asynchronous callable may not cancel everything: \<open>Dispatch\<close> runs the callable at the front
  of the queue and pops it afterwards, and \<open>CancelAll\<close> replaces the queue by an empty one in
  between, so the pop is made on an empty queue (and the callable destroyed while it runs).
\<close>

theorem async_cancel_all_undefined:
  assumes "ts_predicate s (ts_world s)" "ts_asyncHolder s = h # rest"
    and "b_async B h s = ([CallCancelAll], w)"
  shows "ts_Dispatch B callback s = Some (Inl (UndefinedAccess ''std::queue::pop''))"
  using assms
  by (simp add: ts_Dispatch_def async_loop.simps [of B s] run_front_async_def run_body_def ts_CancelAll_def)

theorem async_cancel_all_undefined_witness:
  "ts_Dispatch \<lparr>b_task = (\<lambda>h c s. ([], ())), b_async = (\<lambda>h s. ([CallCancelAll], ()))\<rparr> id
     (ts_Async (5 :: nat) (TaskScheduler_new 0 ())) = Some (Inl (UndefinedAccess ''std::queue::pop''))"
  by (rule async_cancel_all_undefined [where h = 5 and rest = "[]" and w = "()"])
     (simp_all add: ts_Async_def TaskScheduler_new_def EmptyValidator_def)

end
