(* ===== verification/Utf8.thy ===== *)
theory Utf8
  imports Prelude
begin

text \<open>
  UTF-8 validation as the packet code uses it: \<open>utf8::is_valid\<close> of
  \<open>src/deps/utf8cpp/utf8/core.h\<close>. An iterator pair \<open>(it, end)\<close> is the list of the octets
  from \<open>it\<close> on. The result is that the validator accepts exactly the concatenations of
  encodings of Unicode scalar values.
\<close>

section \<open>The validator\<close>

datatype utf_error = UTF8_OK | NOT_ENOUGH_ROOM | INVALID_LEAD | INCOMPLETE_SEQUENCE
  | OVERLONG_SEQUENCE | INVALID_CODE_POINT

definition is_trail :: "uint8 \<Rightarrow> bool" where
  "is_trail oc \<longleftrightarrow> drop_bit 6 oc = 0x2"

definition is_surrogate :: "uint32 \<Rightarrow> bool" where
  "is_surrogate cp \<longleftrightarrow> cp \<ge> 0xd800 \<and> cp \<le> 0xdfff"

definition is_code_point_valid :: "uint32 \<Rightarrow> bool" where
  "is_code_point_valid cp \<longleftrightarrow> cp \<le> 0x0010ffff \<and> \<not> is_surrogate cp"

definition sequence_length :: "uint8 \<Rightarrow> nat" where
  "sequence_length lead =
     (if lead < 0x80 then 1
      else if drop_bit 5 lead = 0x6 then 2
      else if drop_bit 4 lead = 0xe then 3
      else if drop_bit 3 lead = 0x1e then 4
      else 0)"

definition is_overlong_sequence :: "uint32 \<Rightarrow> nat \<Rightarrow> bool" where
  "is_overlong_sequence cp len =
     (if cp < 0x80 then len \<noteq> 1
      else if cp < 0x800 then len \<noteq> 2
      else if cp < 0x10000 then len \<noteq> 3
      else False)"

text \<open>\<open>increase_safely\<close> on a non-empty range; the range from the next octet on is returned.\<close>

fun increase_safely :: "uint8 list \<Rightarrow> utf_error \<times> uint8 list" where
  "increase_safely [] = (NOT_ENOUGH_ROOM, [])"
| "increase_safely [b] = (NOT_ENOUGH_ROOM, [])"
| "increase_safely (b # c # bs) =
     (if \<not> is_trail c then (INCOMPLETE_SEQUENCE, c # bs) else (UTF8_OK, c # bs))"

definition mask8 :: "uint8 \<Rightarrow> uint32" where
  "mask8 oc = 0xff AND ucast oc"

definition get_sequence_1 :: "uint8 list \<Rightarrow> utf_error \<times> uint8 list \<times> uint32" where
  "get_sequence_1 it = (if it = [] then (NOT_ENOUGH_ROOM, it, 0) else (UTF8_OK, it, mask8 (hd it)))"

definition get_sequence_2 :: "uint8 list \<Rightarrow> utf_error \<times> uint8 list \<times> uint32" where
  "get_sequence_2 it =
     (if it = [] then (NOT_ENOUGH_ROOM, it, 0)
      else let cp = mask8 (hd it); (e1, it1) = increase_safely it in
        if e1 \<noteq> UTF8_OK then (e1, it1, cp)
        else (UTF8_OK, it1, (push_bit 6 cp AND 0x7ff) + (mask8 (hd it1) AND 0x3f)))"

definition get_sequence_3 :: "uint8 list \<Rightarrow> utf_error \<times> uint8 list \<times> uint32" where
  "get_sequence_3 it =
     (if it = [] then (NOT_ENOUGH_ROOM, it, 0)
      else let cp = mask8 (hd it); (e1, it1) = increase_safely it in
        if e1 \<noteq> UTF8_OK then (e1, it1, cp)
        else let cp1 = (push_bit 12 cp AND 0xffff) + (push_bit 6 (mask8 (hd it1)) AND 0xfff);
                 (e2, it2) = increase_safely it1 in
          if e2 \<noteq> UTF8_OK then (e2, it2, cp1)
          else (UTF8_OK, it2, cp1 + (mask8 (hd it2) AND 0x3f)))"

definition get_sequence_4 :: "uint8 list \<Rightarrow> utf_error \<times> uint8 list \<times> uint32" where
  "get_sequence_4 it =
     (if it = [] then (NOT_ENOUGH_ROOM, it, 0)
      else let cp = mask8 (hd it); (e1, it1) = increase_safely it in
        if e1 \<noteq> UTF8_OK then (e1, it1, cp)
        else let cp1 = (push_bit 18 cp AND 0x1fffff) + (push_bit 12 (mask8 (hd it1)) AND 0x3ffff);
                 (e2, it2) = increase_safely it1 in
          if e2 \<noteq> UTF8_OK then (e2, it2, cp1)
          else let cp2 = cp1 + (push_bit 6 (mask8 (hd it2)) AND 0xfff);
                   (e3, it3) = increase_safely it2 in
            if e3 \<noteq> UTF8_OK then (e3, it3, cp2)
            else (UTF8_OK, it3, cp2 + (mask8 (hd it3) AND 0x3f)))"

definition validate_next :: "uint8 list \<Rightarrow> utf_error \<times> uint8 list \<times> uint32" where
  "validate_next it =
     (if it = [] then (NOT_ENOUGH_ROOM, it, 0)
      else let len = sequence_length (hd it) in
        if len = 0 then (INVALID_LEAD, it, 0)
        else let (err, it', cp) =
               (if len = 1 then get_sequence_1 it
                else if len = 2 then get_sequence_2 it
                else if len = 3 then get_sequence_3 it
                else get_sequence_4 it) in
          if err = UTF8_OK then
            if is_code_point_valid cp then
              if \<not> is_overlong_sequence cp len then (UTF8_OK, tl it', cp)
              else (OVERLONG_SEQUENCE, it, 0)
            else (INVALID_CODE_POINT, it, 0)
          else (err, it, 0))"

lemma increase_safely_shorter:
  "increase_safely it = (UTF8_OK, it') \<Longrightarrow> it' = tl it \<and> it' \<noteq> [] \<and> is_trail (hd it')"
  by (cases it rule: increase_safely.cases) (auto split: if_splits)

lemma validate_next_shorter:
  assumes "validate_next it = (UTF8_OK, it', cp)" and "it \<noteq> []"
  shows "length it' < length it"
  using assms
  by (auto simp: validate_next_def get_sequence_1_def get_sequence_2_def get_sequence_3_def
      get_sequence_4_def Let_def length_tl split: prod.splits if_splits
      dest!: increase_safely_shorter)

text \<open>\<open>find_invalid\<close>: the position of the first octet that does not start a valid sequence, as
  the range from it to the end.\<close>

function find_invalid :: "uint8 list \<Rightarrow> uint8 list" where
  "find_invalid result =
     (if result \<noteq> [] then
        (case validate_next result of
           (err, result', _) \<Rightarrow> if err \<noteq> UTF8_OK then result' else find_invalid result')
      else result)"
  by pat_completeness auto
termination
  by (relation "measure length") (auto dest: validate_next_shorter [OF sym])

declare find_invalid.simps [simp del]

definition utf8_is_valid :: "uint8 list \<Rightarrow> bool" where
  "utf8_is_valid bs \<longleftrightarrow> find_invalid bs = []"

section \<open>Specification and correctness\<close>

definition scalar :: "nat \<Rightarrow> bool" where
  "scalar n \<longleftrightarrow> n \<le> 0x10ffff \<and> \<not> (0xd800 \<le> n \<and> n \<le> 0xdfff)"

definition utf8_encode :: "nat \<Rightarrow> uint8 list" where
  "utf8_encode n =
     map word_of_nat
      (if n < 0x80 then [n]
       else if n < 0x800 then [0xc0 + n div 64, 0x80 + n mod 64]
       else if n < 0x10000 then [0xe0 + n div 4096, 0x80 + n div 64 mod 64, 0x80 + n mod 64]
       else [0xf0 + n div 262144, 0x80 + n div 4096 mod 64, 0x80 + n div 64 mod 64, 0x80 + n mod 64])"

lemma is_trail_unat: "is_trail b \<longleftrightarrow> unat b div 64 = 2"
  unfolding is_trail_def word_unat_eq_iff unat_drop_bit_div by simp

lemma sequence_length_unat:
  "sequence_length b = (if unat b < 128 then 1 else if unat b div 32 = 6 then 2
     else if unat b div 16 = 14 then 3 else if unat b div 8 = 30 then 4 else 0)"
  unfolding sequence_length_def word_unat_eq_iff unat_drop_bit_div word_less_nat_alt by simp

lemma unat_and_mask: "unat (w AND mask m) = unat w mod 2 ^ m" for w :: "'a::len word"
  unfolding take_bit_eq_mask [symmetric] unsigned_take_bit_eq by (simp add: take_bit_eq_mod)

lemma unat_mask8 [simp]: "unat (mask8 b) = unat b"
proof -
  have m: "(0xff :: uint32) = mask 8" by (simp add: mask_eq_exp_minus_1)
  have "unat b < 256" using unsigned_less [of b, where 'a = nat] by simp
  then show ?thesis
    unfolding mask8_def m by (subst and.commute) (simp add: unat_and_mask unsigned_ucast_eq take_bit_eq_mod)
qed

lemma unat_shift_mask:
  assumes "m \<le> 32"
  shows "unat (push_bit k (mask8 b) AND mask m) = unat b * 2 ^ k mod 2 ^ m"
proof -
  have "(2::nat) ^ m dvd 2 ^ 32" using assms by (rule le_imp_power_dvd)
  then have "unat b * 2 ^ k mod 2 ^ 32 mod 2 ^ m = unat b * 2 ^ k mod 2 ^ m"
    by (rule mod_mod_cancel)
  then show ?thesis
    unfolding unat_and_mask unsigned_push_bit_eq unat_mask8
    by (simp add: take_bit_eq_mod push_bit_eq_mult)
qed

lemma code_point_masks:
  "(0x3f :: uint32) = mask 6" "(0x7ff :: uint32) = mask 11" "(0xfff :: uint32) = mask 12"
  "(0xffff :: uint32) = mask 16" "(0x3ffff :: uint32) = mask 18" "(0x1fffff :: uint32) = mask 21"
  by (simp_all add: mask_eq_exp_minus_1)

lemma unat_add_small: "unat x + unat y < 2 ^ 32 \<Longrightarrow> unat (x + y :: uint32) = unat x + unat y"
  by (simp add: unat_word_ariths)

lemma code_point_parts:
  "unat (mask8 b AND 0x3f) = unat b mod 64"
  "unat (push_bit 6 (mask8 b) AND 0x7ff) = unat b * 64 mod 2048"
  "unat (push_bit 6 (mask8 b) AND 0xfff) = unat b * 64 mod 4096"
  "unat (push_bit 12 (mask8 b) AND 0xffff) = unat b * 4096 mod 65536"
  "unat (push_bit 12 (mask8 b) AND 0x3ffff) = unat b * 4096 mod 262144"
  "unat (push_bit 18 (mask8 b) AND 0x1fffff) = unat b * 262144 mod 2097152"
  using unat_shift_mask [of 6 0 b] unat_shift_mask [of 11 6 b] unat_shift_mask [of 12 6 b]
    unat_shift_mask [of 16 12 b] unat_shift_mask [of 18 12 b] unat_shift_mask [of 21 18 b]
  unfolding code_point_masks by simp_all

lemma code_point_2:
  "unat ((push_bit 6 (mask8 b) AND 0x7ff) + (mask8 c AND 0x3f))
     = unat b * 64 mod 2048 + unat c mod 64"
  by (subst unat_add_small; unfold code_point_parts; simp)

lemma code_point_3:
  "unat ((push_bit 12 (mask8 b) AND 0xffff) + (push_bit 6 (mask8 c) AND 0xfff) + (mask8 d AND 0x3f))
     = unat b * 4096 mod 65536 + unat c * 64 mod 4096 + unat d mod 64"
  by (subst unat_add_small; (subst unat_add_small)?; unfold code_point_parts; simp?)

lemma code_point_4:
  "unat ((push_bit 18 (mask8 b) AND 0x1fffff) + (push_bit 12 (mask8 c) AND 0x3ffff)
      + (push_bit 6 (mask8 d) AND 0xfff) + (mask8 e AND 0x3f))
     = unat b * 262144 mod 2097152 + unat c * 4096 mod 262144 + unat d * 64 mod 4096 + unat e mod 64"
  by (subst unat_add_small; (subst unat_add_small)?; (subst unat_add_small)?;
      unfold code_point_parts; simp?)

lemma base64_div: "l < 64 \<Longrightarrow> (q * 64 + l) div 64 = (q :: nat)"
  and base64_mod: "l < 64 \<Longrightarrow> (q * 64 + l) mod 64 = l"
  by simp_all

lemma utf8_encode_1: "n < 128 \<Longrightarrow> utf8_encode n = [word_of_nat n]"
  by (simp add: utf8_encode_def)

lemma utf8_encode_2:
  assumes "k < 32" "l < 64" "2 \<le> k"
  shows "utf8_encode (k * 64 + l) = [word_of_nat (192 + k), word_of_nat (128 + l)]"
  using assms by (simp add: utf8_encode_def)

lemma utf8_encode_3:
  assumes "k < 16" "l < 64" "m < 64" "0x800 \<le> k * 4096 + l * 64 + m"
  shows "utf8_encode (k * 4096 + l * 64 + m)
    = [word_of_nat (224 + k), word_of_nat (128 + l), word_of_nat (128 + m)]"
proof -
  let ?n = "k * 4096 + l * 64 + m"
  have n: "?n = (k * 64 + l) * 64 + m" by simp
  have "?n div 64 = k * 64 + l" "?n mod 64 = m"
    unfolding n by (rule base64_div base64_mod, fact)+
  moreover have "?n div 4096 = ?n div 64 div 64"
    by (simp flip: div_mult2_eq)
  ultimately show ?thesis using assms by (simp add: utf8_encode_def)
qed

lemma utf8_encode_4:
  assumes "k < 8" "l < 64" "m < 64" "p < 64" "0x10000 \<le> k * 262144 + l * 4096 + m * 64 + p"
  shows "utf8_encode (k * 262144 + l * 4096 + m * 64 + p)
    = [word_of_nat (240 + k), word_of_nat (128 + l), word_of_nat (128 + m), word_of_nat (128 + p)]"
proof -
  let ?n = "k * 262144 + l * 4096 + m * 64 + p"
  have n: "?n = ((k * 64 + l) * 64 + m) * 64 + p" by simp
  have 1: "?n div 64 = (k * 64 + l) * 64 + m" "?n mod 64 = p"
    unfolding n by (rule base64_div base64_mod, fact)+
  have "?n div 64 mod 64 = m" unfolding 1 by (rule base64_mod) fact
  moreover have 2: "?n div 4096 = k * 64 + l"
  proof -
    have "?n div 4096 = ?n div 64 div 64" by (simp flip: div_mult2_eq)
    then show ?thesis unfolding 1 by (simp only: base64_div [OF assms(3)])
  qed
  moreover have "?n div 262144 = k"
  proof -
    have "?n div 262144 = ?n div 4096 div 64" by (simp flip: div_mult2_eq)
    then show ?thesis unfolding 2 by (simp only: base64_div [OF assms(2)])
  qed
  ultimately show ?thesis using assms 1(2) by (simp add: utf8_encode_def)
qed

lemma word_of_unat: "unat b = n \<Longrightarrow> b = word_of_nat n"
  by auto

lemma trail_parts: "is_trail c \<Longrightarrow> \<exists>l < 64. unat c = 128 + l"
  unfolding is_trail_unat by (rule exI [of _ "unat c - 128"]) auto

lemma scalar_unat: "is_code_point_valid cp \<longleftrightarrow> scalar (unat cp)"
  by (simp add: is_code_point_valid_def is_surrogate_def scalar_def word_le_nat_alt)

lemma overlong_unat:
  "is_overlong_sequence cp len \<longleftrightarrow>
     (if unat cp < 0x80 then len \<noteq> 1 else if unat cp < 0x800 then len \<noteq> 2
      else if unat cp < 0x10000 then len \<noteq> 3 else False)"
  by (simp add: is_overlong_sequence_def word_less_nat_alt)

lemma increase_safely_Cons:
  "increase_safely (b # bs) = (UTF8_OK, it') \<longleftrightarrow> (\<exists>c r. bs = c # r \<and> is_trail c \<and> it' = c # r)"
  by (cases bs) auto


lemmas sequence_defs = get_sequence_1_def get_sequence_2_def get_sequence_3_def get_sequence_4_def

lemma lead_parts:
  "sequence_length b = 2 \<Longrightarrow> \<exists>k < 32. unat b = 192 + k"
  "sequence_length b = 3 \<Longrightarrow> \<exists>k < 16. unat b = 224 + k"
  "sequence_length b = 4 \<Longrightarrow> \<exists>k < 8. unat b = 240 + k"
  unfolding sequence_length_unat
  subgoal by (rule exI [of _ "unat b - 192"]) (auto split: if_splits)
  subgoal by (rule exI [of _ "unat b - 224"]) (auto split: if_splits)
  subgoal by (rule exI [of _ "unat b - 240"]) (auto split: if_splits)
  done

lemma mod_offset:
  assumes "a * s = q * n" and "k * s < n"
  shows "(a + k) * s mod n = k * (s :: nat)"
proof -
  have "(a + k) * s = q * n + k * s" using assms(1) by (simp add: distrib_right)
  with assms(2) show ?thesis by simp
qed

lemma lead_shift:
  "k < 32 \<Longrightarrow> (192 + k) * 64 mod 2048 = (k :: nat) * 64"
  "k < 16 \<Longrightarrow> (224 + k) * 4096 mod 65536 = (k :: nat) * 4096"
  "k < 8 \<Longrightarrow> (240 + k) * 262144 mod 2097152 = (k :: nat) * 262144"
  "k < 64 \<Longrightarrow> (128 + k) * 64 mod 4096 = (k :: nat) * 64"
  "k < 64 \<Longrightarrow> (128 + k) * 4096 mod 262144 = (k :: nat) * 4096"
  subgoal by (rule mod_offset [where q = 6]) simp_all
  subgoal by (rule mod_offset [where q = 14]) simp_all
  subgoal by (rule mod_offset [where q = 30]) simp_all
  subgoal by (rule mod_offset [where q = 2]) simp_all
  subgoal by (rule mod_offset [where q = 2]) simp_all
  done

lemma trail_shift: "k < 64 \<Longrightarrow> (128 + k) mod 64 = (k :: nat)"
  using mod_offset [of 128 1 2 64 k] by simp

lemma validate_next_1:
  "sequence_length b = 1 \<Longrightarrow> validate_next (b # r) = (UTF8_OK, r, mask8 b)"
  by (auto simp: validate_next_def get_sequence_1_def scalar_unat overlong_unat scalar_def
      sequence_length_unat split: if_splits)

lemma validate_next_2:
  assumes "sequence_length b = 2" "unat b = 192 + k" "unat c = 128 + l" "k < 32" "l < 64"
  shows "validate_next (b # c # r) =
    (if 2 \<le> k then (UTF8_OK, r, (push_bit 6 (mask8 b) AND 0x7ff) + (mask8 c AND 0x3f))
     else (OVERLONG_SEQUENCE, b # c # r, 0))"
proof -
  let ?cp = "(push_bit 6 (mask8 b) AND 0x7ff) + (mask8 c AND 0x3f)"
  have cp: "unat ?cp = k * 64 + l"
    unfolding code_point_2 assms(2,3) using assms(4,5) by (simp only: lead_shift trail_shift)
  have t: "is_trail c" unfolding is_trail_unat assms(3) using assms(5) by simp
  show ?thesis
    using t assms(1,4,5) unfolding validate_next_def get_sequence_2_def
    by (simp add: Let_def scalar_unat overlong_unat cp scalar_def)
qed


lemma validate_next_3:
  assumes "sequence_length b = 3" "unat b = 224 + k" "unat c = 128 + l" "unat d = 128 + m"
    "k < 16" "l < 64" "m < 64"
  shows "validate_next (b # c # d # r) =
    (let cp = (push_bit 12 (mask8 b) AND 0xffff) + (push_bit 6 (mask8 c) AND 0xfff) + (mask8 d AND 0x3f)
     in if scalar (k * 4096 + l * 64 + m) then
          if 0x800 \<le> k * 4096 + l * 64 + m then (UTF8_OK, r, cp)
          else (OVERLONG_SEQUENCE, b # c # d # r, 0)
        else (INVALID_CODE_POINT, b # c # d # r, 0))"
proof -
  let ?cp = "(push_bit 12 (mask8 b) AND 0xffff) + (push_bit 6 (mask8 c) AND 0xfff) + (mask8 d AND 0x3f)"
  have cp: "unat ?cp = k * 4096 + l * 64 + m"
    unfolding code_point_3 assms(2-4) using assms(5-7) by (simp only: lead_shift trail_shift)
  have t: "is_trail c" "is_trail d" unfolding is_trail_unat assms(3,4) using assms(6,7) by simp_all
  have "unat ?cp < 0x10000" unfolding cp using assms(5-7) by simp
  then show ?thesis
    using t assms(1) unfolding validate_next_def get_sequence_3_def
    by (simp add: Let_def scalar_unat overlong_unat cp)
qed

lemma validate_next_4:
  assumes "sequence_length b = 4" "unat b = 240 + k" "unat c = 128 + l" "unat d = 128 + m"
    "unat e = 128 + p" "k < 8" "l < 64" "m < 64" "p < 64"
  shows "validate_next (b # c # d # e # r) =
    (let cp = (push_bit 18 (mask8 b) AND 0x1fffff) + (push_bit 12 (mask8 c) AND 0x3ffff)
           + (push_bit 6 (mask8 d) AND 0xfff) + (mask8 e AND 0x3f)
     in if scalar (k * 262144 + l * 4096 + m * 64 + p) then
          if 0x10000 \<le> k * 262144 + l * 4096 + m * 64 + p then (UTF8_OK, r, cp)
          else (OVERLONG_SEQUENCE, b # c # d # e # r, 0)
        else (INVALID_CODE_POINT, b # c # d # e # r, 0))"
proof -
  let ?cp = "(push_bit 18 (mask8 b) AND 0x1fffff) + (push_bit 12 (mask8 c) AND 0x3ffff)
           + (push_bit 6 (mask8 d) AND 0xfff) + (mask8 e AND 0x3f)"
  have cp: "unat ?cp = k * 262144 + l * 4096 + m * 64 + p"
    unfolding code_point_4 assms(2-5) using assms(6-9) by (simp only: lead_shift trail_shift)
  have t: "is_trail c" "is_trail d" "is_trail e"
    unfolding is_trail_unat assms(3-5) using assms(7-9) by simp_all
  show ?thesis
    using t assms(1) unfolding validate_next_def get_sequence_4_def
    by (simp add: Let_def scalar_unat overlong_unat cp)
qed


lemma sequence_length_range: "sequence_length b \<in> {0, 1, 2, 3, 4}"
  by (simp add: sequence_length_def)

lemma trailing_2:
  assumes "validate_next (b # bs) = (UTF8_OK, it', cp)" and "sequence_length b = 2"
  shows "\<exists>c r. bs = c # r \<and> is_trail c"
  using assms by (auto simp: validate_next_def get_sequence_2_def Let_def increase_safely_Cons
      split: if_splits prod.splits)

lemma trailing_3:
  assumes "validate_next (b # bs) = (UTF8_OK, it', cp)" and "sequence_length b = 3"
  shows "\<exists>c d r. bs = c # d # r \<and> is_trail c \<and> is_trail d"
  using assms by (auto simp: validate_next_def get_sequence_3_def Let_def increase_safely_Cons
      split: if_splits prod.splits)

lemma trailing_4:
  assumes "validate_next (b # bs) = (UTF8_OK, it', cp)" and "sequence_length b = 4"
  shows "\<exists>c d e r. bs = c # d # e # r \<and> is_trail c \<and> is_trail d \<and> is_trail e"
  using assms by (auto simp: validate_next_def get_sequence_4_def Let_def increase_safely_Cons
      split: if_splits prod.splits)

lemma validate_next_sound_2:
  assumes v: "validate_next (b # bs) = (UTF8_OK, it', cp)" and len: "sequence_length b = 2"
  shows "scalar (unat cp) \<and> b # bs = utf8_encode (unat cp) @ it'"
proof -
  from trailing_2 [OF v len] obtain c r where bs: "bs = c # r" and "is_trail c" by blast
  then obtain k l where k: "k < 32" "unat b = 192 + k" and l: "l < 64" "unat c = 128 + l"
    using lead_parts(1) [OF len] trail_parts by metis
  from v have *: "2 \<le> k" "r = it'" "cp = (push_bit 6 (mask8 b) AND 0x7ff) + (mask8 c AND 0x3f)"
    unfolding bs validate_next_2 [OF len k(2) l(2) k(1) l(1)] by (auto split: if_splits)
  have "unat cp = k * 64 + l"
    unfolding *(3) code_point_2 k l using k l by (simp only: lead_shift trail_shift)
  with *(1,2) k l show ?thesis
    by (simp add: bs scalar_def utf8_encode_2 word_of_unat [OF k(2)] word_of_unat [OF l(2)])
qed

lemma validate_next_sound_3:
  assumes v: "validate_next (b # bs) = (UTF8_OK, it', cp)" and len: "sequence_length b = 3"
  shows "scalar (unat cp) \<and> b # bs = utf8_encode (unat cp) @ it'"
proof -
  from trailing_3 [OF v len] obtain c d r where bs: "bs = c # d # r" and "is_trail c" "is_trail d"
    by blast
  then obtain k l m where k: "k < 16" "unat b = 224 + k" and l: "l < 64" "unat c = 128 + l"
    and m: "m < 64" "unat d = 128 + m"
    using lead_parts(2) [OF len] trail_parts by metis
  from v have *: "scalar (k * 4096 + l * 64 + m)" "0x800 \<le> k * 4096 + l * 64 + m" "r = it'"
    "cp = (push_bit 12 (mask8 b) AND 0xffff) + (push_bit 6 (mask8 c) AND 0xfff) + (mask8 d AND 0x3f)"
    unfolding bs validate_next_3 [OF len k(2) l(2) m(2) k(1) l(1) m(1)] Let_def
    by (auto split: if_splits)
  have "unat cp = k * 4096 + l * 64 + m"
    unfolding *(4) code_point_3 k l m using k l m by (simp only: lead_shift trail_shift)
  then show ?thesis
    using * k l m
    by (simp only: bs utf8_encode_3 word_of_unat [OF k(2)] word_of_unat [OF l(2)]
        word_of_unat [OF m(2)] append.simps simp_thms)
qed

lemma validate_next_sound_4:
  assumes v: "validate_next (b # bs) = (UTF8_OK, it', cp)" and len: "sequence_length b = 4"
  shows "scalar (unat cp) \<and> b # bs = utf8_encode (unat cp) @ it'"
proof -
  from trailing_4 [OF v len] obtain c d e r where bs: "bs = c # d # e # r"
    and "is_trail c" "is_trail d" "is_trail e" by blast
  then obtain k l m p where k: "k < 8" "unat b = 240 + k" and l: "l < 64" "unat c = 128 + l"
    and m: "m < 64" "unat d = 128 + m" and p: "p < 64" "unat e = 128 + p"
    using lead_parts(3) [OF len] trail_parts by metis
  from v have *: "scalar (k * 262144 + l * 4096 + m * 64 + p)"
    "0x10000 \<le> k * 262144 + l * 4096 + m * 64 + p" "r = it'"
    "cp = (push_bit 18 (mask8 b) AND 0x1fffff) + (push_bit 12 (mask8 c) AND 0x3ffff)
       + (push_bit 6 (mask8 d) AND 0xfff) + (mask8 e AND 0x3f)"
    unfolding bs validate_next_4 [OF len k(2) l(2) m(2) p(2) k(1) l(1) m(1) p(1)] Let_def
    by (auto split: if_splits)
  have "unat cp = k * 262144 + l * 4096 + m * 64 + p"
    unfolding *(4) code_point_4 k l m p using k l m p by (simp only: lead_shift trail_shift)
  then show ?thesis
    using * k l m p
    by (simp only: bs utf8_encode_4 word_of_unat [OF k(2)] word_of_unat [OF l(2)]
        word_of_unat [OF m(2)] word_of_unat [OF p(2)] append.simps simp_thms)
qed

lemma validate_next_sound:
  assumes "validate_next it = (UTF8_OK, it', cp)"
  shows "scalar (unat cp) \<and> it = utf8_encode (unat cp) @ it'"
proof -
  from assms obtain b bs where it: "it = b # bs"
    by (cases it) (auto simp: validate_next_def)
  consider "sequence_length b = 0" | "sequence_length b = 1" | "sequence_length b = 2"
    | "sequence_length b = 3" | "sequence_length b = 4"
    using sequence_length_range [of b] by auto
  then show ?thesis
  proof cases
    case 1
    with assms it show ?thesis by (simp add: validate_next_def)
  next
    case 2
    with assms it have "bs = it'" "cp = mask8 b" by (auto simp: validate_next_1)
    moreover have "unat b < 128" using 2 by (auto simp: sequence_length_unat split: if_splits)
    ultimately show ?thesis by (simp add: it scalar_def utf8_encode_1)
  qed (use assms it validate_next_sound_2 validate_next_sound_3 validate_next_sound_4 in blast)+
qed


lemma div_digits_2:
  assumes "n div 64 = k * 64 + l"
  shows "n = k * 4096 + l * 64 + n mod (64 :: nat)"
proof -
  have "n = n div 64 * 64 + n mod 64" by (rule div_mult_mod_eq [symmetric])
  also have "\<dots> = (k * 64 + l) * 64 + n mod 64" by (simp only: assms)
  also have "\<dots> = k * 4096 + l * 64 + n mod 64" by (simp add: distrib_right)
  finally show ?thesis .
qed

lemma div_digits_3:
  assumes "n div 4096 = k * 64 + l" and "n div 64 = n div 4096 * 64 + m"
  shows "n = k * 262144 + l * 4096 + m * 64 + n mod (64 :: nat)"
proof -
  have "n = n div 64 * 64 + n mod 64" by (rule div_mult_mod_eq [symmetric])
  also have "\<dots> = ((k * 64 + l) * 64 + m) * 64 + n mod 64" by (simp only: assms)
  also have "\<dots> = k * 262144 + l * 4096 + m * 64 + n mod 64" by (simp add: distrib_right)
  finally show ?thesis .
qed

lemma unat_byte: "n < 256 \<Longrightarrow> unat (word_of_nat n :: uint8) = n"
  by (simp add: unat_of_nat)

lemma validate_next_complete_3:
  assumes n: "scalar n" "0x800 \<le> n" "n < 0x10000"
  shows "\<exists>cp. validate_next (utf8_encode n @ r) = (UTF8_OK, r, cp)"
proof -
  define k l m where "k = n div 4096" and "l = n div 64 mod 64" and "m = n mod 64"
  have "n div 64 = k * 64 + l"
    by (simp add: k_def l_def div_mult2_eq [of n 64 64, simplified])
  then have nk: "n = k * 4096 + l * 64 + m" unfolding m_def by (rule div_digits_2)
  from n have kl: "k < 16" "l < 64" "m < 64" by (auto simp: k_def l_def m_def)
  then have "(224 + k) div 32 = 7" "(224 + k) div 16 = 14" by linarith+
  with kl have "sequence_length (word_of_nat (224 + k)) = 3"
    by (simp add: sequence_length_unat unat_byte del: of_nat_add)
  note v = validate_next_3 [OF this unat_byte unat_byte unat_byte kl(1-3)]
  have "scalar (k * 4096 + l * 64 + m)" "0x800 \<le> k * 4096 + l * 64 + m"
    using n by (simp_all only: nk)
  with kl show ?thesis unfolding nk by (simp add: utf8_encode_3 v Let_def del: of_nat_add)
qed

lemma validate_next_complete_4:
  assumes n: "scalar n" "0x10000 \<le> n"
  shows "\<exists>cp. validate_next (utf8_encode n @ r) = (UTF8_OK, r, cp)"
proof -
  define k l m p where "k = n div 262144" and "l = n div 4096 mod 64" and "m = n div 64 mod 64"
    and "p = n mod 64"
  have "n div 4096 = k * 64 + l" "n div 64 = n div 4096 * 64 + m"
    by (simp_all add: k_def l_def m_def div_mult2_eq [of n 64 64, simplified]
        div_mult2_eq [of n 4096 64, simplified])
  then have nk: "n = k * 262144 + l * 4096 + m * 64 + p" unfolding p_def by (rule div_digits_3)
  from n have kl: "k < 8" "l < 64" "m < 64" "p < 64"
    by (auto simp: k_def l_def m_def p_def scalar_def)
  then have "(240 + k) div 32 = 7" "(240 + k) div 16 = 15" "(240 + k) div 8 = 30" by linarith+
  with kl have "sequence_length (word_of_nat (240 + k)) = 4"
    by (simp add: sequence_length_unat unat_byte del: of_nat_add)
  note v = validate_next_4 [OF this unat_byte unat_byte unat_byte unat_byte kl(1-4)]
  have "scalar (k * 262144 + l * 4096 + m * 64 + p)" "0x10000 \<le> k * 262144 + l * 4096 + m * 64 + p"
    using n by (simp_all only: nk)
  with kl show ?thesis unfolding nk by (simp add: utf8_encode_4 v Let_def del: of_nat_add)
qed

lemma validate_next_complete:
  assumes n: "scalar n"
  shows "\<exists>cp. validate_next (utf8_encode n @ r) = (UTF8_OK, r, cp)"
proof -
  consider "n < 128" | "128 \<le> n" "n < 0x800" | "0x800 \<le> n" "n < 0x10000" | "0x10000 \<le> n"
    by linarith
  then show ?thesis
  proof cases
    case 1
    then have "sequence_length (word_of_nat n) = 1"
      by (simp add: sequence_length_unat unat_byte del: of_nat_add)
    with 1 show ?thesis by (simp add: utf8_encode_1 validate_next_1)
  next
    case 2
    define k l where "k = n div 64" and "l = n mod 64"
    with 2 have kl: "k < 32" "l < 64" "2 \<le> k" "n = k * 64 + l" by auto
    then have "sequence_length (word_of_nat (192 + k)) = 2"
      by (simp add: sequence_length_unat unat_byte del: of_nat_add)
    from validate_next_2 [OF this unat_byte unat_byte kl(1,2)] kl show ?thesis
      by (simp add: utf8_encode_2)
  qed (use n validate_next_complete_3 validate_next_complete_4 in blast)+
qed

lemma utf8_encode_not_Nil [simp]: "utf8_encode n \<noteq> []"
  by (simp add: utf8_encode_def)

lemma find_invalid_encodings:
  "\<forall>n\<in>set cps. scalar n \<Longrightarrow> find_invalid (concat (map utf8_encode cps)) = []"
proof (induction cps)
  case Nil
  then show ?case by (simp add: find_invalid.simps)
next
  case (Cons n cps)
  then obtain cp where "validate_next (utf8_encode n @ concat (map utf8_encode cps))
      = (UTF8_OK, concat (map utf8_encode cps), cp)"
    using validate_next_complete by fastforce
  with Cons show ?case by (subst find_invalid.simps) simp
qed

lemma validate_next_error:
  "validate_next it = (err, it', cp) \<Longrightarrow> err \<noteq> UTF8_OK \<Longrightarrow> it' = it"
  by (auto simp: validate_next_def Let_def split: if_splits prod.splits)

lemma find_invalid_Nil_encodings:
  "find_invalid bs = [] \<Longrightarrow> \<exists>cps. (\<forall>n\<in>set cps. scalar n) \<and> bs = concat (map utf8_encode cps)"
proof (induction bs rule: find_invalid.induct)
  case (1 bs)
  show ?case
  proof (cases "bs = []")
    case True
    then show ?thesis by (intro exI [of _ "[]"]) simp
  next
    case False
    obtain err bs' cp where v: "validate_next bs = (err, bs', cp)" by (cases "validate_next bs")
    with "1.prems" False have ok: "err = UTF8_OK" and rest: "find_invalid bs' = []"
      using validate_next_error [OF v] by (auto simp: find_invalid.simps [of bs] split: if_splits)
    from "1.IH" [OF False v [symmetric] refl] ok rest obtain cps
      where "\<forall>n\<in>set cps. scalar n" "bs' = concat (map utf8_encode cps)" by auto
    with validate_next_sound [of bs bs' cp] v ok show ?thesis
      by (intro exI [of _ "unat cp # cps"]) simp
  qed
qed

text \<open>
  C35. \<open>utf8::is_valid\<close> accepts an octet sequence exactly when it is the concatenation of the
  shortest-form encodings of Unicode scalar values: no surrogates, no overlong forms, no code
  point above U+10FFFF, no truncated sequence.
\<close>

theorem utf8_is_valid_iff:
  "utf8_is_valid bs \<longleftrightarrow> (\<exists>cps. list_all scalar cps \<and> bs = concat (map utf8_encode cps))"
  using find_invalid_encodings find_invalid_Nil_encodings
  unfolding utf8_is_valid_def list_all_iff by blast

end
