(* ===== verification/TextUtil.thy ===== *)
theory TextUtil
  imports Utf8
begin

text \<open>
  Text helpers: the conversions of \<open>src/deps/utf8cpp/utf8/checked.h\<close> that the program calls, and
  \<open>src/src/common/Utilities/Util.h\<close> and \<open>Util.cpp\<close> on top of them. A \<open>std::string\<close> is the list
  of its bytes, \<open>wchar_t\<close> has 32 bits, an iterator pair is the list from the one to the other, and
  an exception is the left part of a sum. \<open>tolower\<close> is that of the C locale.
\<close>

text \<open>A string literal as the bytes it stands for.\<close>

definition bytes_of :: "string \<Rightarrow> uint8 list" where
  "bytes_of s = map byte_of_char s"

section \<open>Checked UTF-8 and UTF-16\<close>

datatype utf_exception = invalid_code_point uint32 | invalid_utf8 uint8 | invalid_utf16 uint16 | not_enough_room

type_synonym wchar = uint32

definition utf8_next :: "uint8 list \<Rightarrow> utf_exception + (uint32 \<times> uint8 list)" where
  "utf8_next it =
     (case validate_next it of
        (UTF8_OK, it', cp) \<Rightarrow> Inr (cp, it')
      | (NOT_ENOUGH_ROOM, _, _) \<Rightarrow> Inl not_enough_room
      | (INVALID_CODE_POINT, _, cp) \<Rightarrow> Inl (invalid_code_point cp)
      | (_, it', _) \<Rightarrow> Inl (invalid_utf8 (hd it')))"

definition utf8_append :: "uint32 \<Rightarrow> utf_exception + uint8 list" where
  "utf8_append cp =
     (if \<not> is_code_point_valid cp then Inl (invalid_code_point cp)
      else if cp < 0x80 then Inr [ucast cp]
      else if cp < 0x800 then
        Inr [ucast (drop_bit 6 cp OR 0xc0), ucast ((cp AND 0x3f) OR 0x80)]
      else if cp < 0x10000 then
        Inr [ucast (drop_bit 12 cp OR 0xe0), ucast ((drop_bit 6 cp AND 0x3f) OR 0x80), ucast ((cp AND 0x3f) OR 0x80)]
      else
        Inr [ucast (drop_bit 18 cp OR 0xf0), ucast ((drop_bit 12 cp AND 0x3f) OR 0x80),
             ucast ((drop_bit 6 cp AND 0x3f) OR 0x80), ucast ((cp AND 0x3f) OR 0x80)])"

lemma utf8_next_shorter: "it \<noteq> [] \<Longrightarrow> utf8_next it = Inr (cp, it') \<Longrightarrow> length it' < length it"
  by (auto simp: utf8_next_def validate_next_shorter split: prod.splits utf_error.splits)

function utf8_distance :: "uint8 list \<Rightarrow> utf_exception + nat" where
  "utf8_distance first =
     (if first = [] then Inr 0
      else case utf8_next first of
             Inl e \<Rightarrow> Inl e
           | Inr (_, first') \<Rightarrow> map_sum id Suc (utf8_distance first'))"
  by pat_completeness auto
termination
  by (relation "measure length") (auto simp: utf8_next_shorter)

declare utf8_distance.simps [simp del]

definition LEAD_OFFSET :: uint16 where "LEAD_OFFSET = 0xd7c0"
definition TRAIL_SURROGATE_MIN :: uint16 where "TRAIL_SURROGATE_MIN = 0xdc00"
definition SURROGATE_OFFSET :: uint32 where "SURROGATE_OFFSET = 0xfca02400"

definition mask16 :: "wchar \<Rightarrow> uint16" where
  "mask16 oc = ucast (0xffff AND oc)"

definition is_lead_surrogate :: "uint32 \<Rightarrow> bool" where
  "is_lead_surrogate cp \<longleftrightarrow> cp \<ge> 0xd800 \<and> cp \<le> 0xdbff"

definition is_trail_surrogate :: "uint32 \<Rightarrow> bool" where
  "is_trail_surrogate cp \<longleftrightarrow> cp \<ge> 0xdc00 \<and> cp \<le> 0xdfff"

text \<open>The units one code point is written as.\<close>

definition utf16_units :: "uint32 \<Rightarrow> wchar list" where
  "utf16_units cp =
     (if cp > 0xffff then
        [ucast (ucast (drop_bit 10 cp + ucast LEAD_OFFSET) :: uint16),
         ucast (ucast ((cp AND 0x3ff) + ucast TRAIL_SURROGATE_MIN) :: uint16)]
      else [ucast (ucast cp :: uint16)])"

function utf8to16 :: "uint8 list \<Rightarrow> utf_exception + wchar list" where
  "utf8to16 start =
     (if start = [] then Inr []
      else case utf8_next start of
             Inl e \<Rightarrow> Inl e
           | Inr (cp, start') \<Rightarrow> map_sum id (\<lambda>out. utf16_units cp @ out) (utf8to16 start'))"
  by pat_completeness auto
termination
  by (relation "measure length") (auto simp: utf8_next_shorter)

declare utf8to16.simps [simp del]

definition append_then :: "uint32 \<Rightarrow> utf_exception + uint8 list \<Rightarrow> utf_exception + uint8 list" where
  "append_then cp rest =
     (case utf8_append cp of Inl e \<Rightarrow> Inl e | Inr bs \<Rightarrow> map_sum id (\<lambda>out. bs @ out) rest)"

fun utf16to8 :: "wchar list \<Rightarrow> utf_exception + uint8 list" where
  "utf16to8 [] = Inr []"
| "utf16to8 (u # us) =
     (let cp = ucast (mask16 u) :: uint32 in
      if is_lead_surrogate cp then
        (case us of
           [] \<Rightarrow> Inl (invalid_utf16 (mask16 u))
         | v # vs \<Rightarrow>
             (let trail_surrogate = ucast (mask16 v) :: uint32 in
              if is_trail_surrogate trail_surrogate
              then append_then (push_bit 10 cp + trail_surrogate + SURROGATE_OFFSET) (utf16to8 vs)
              else Inl (invalid_utf16 (mask16 v))))
      else if is_trail_surrogate cp then Inl (invalid_utf16 (mask16 u))
      else append_then cp (utf16to8 us))"

section \<open>Util: UTF-8 strings\<close>

text \<open>A function that takes a string by reference returns the string it leaves behind.\<close>

definition Utf8toWStr :: "uint8 list \<Rightarrow> bool \<times> wchar list" where
  "Utf8toWStr utf8str =
     (case utf8to16 utf8str of Inl _ \<Rightarrow> (False, []) | Inr wstr \<Rightarrow> (True, wstr))"

text \<open>The overload that writes into a buffer of \<open>wsize\<close> characters through a checked iterator: the
  buffer behind the terminator is not described. \<open>message\<close> is the error text.\<close>

definition Utf8toWStr_buffer :: "wchar list \<Rightarrow> uint8 list \<Rightarrow> nat \<Rightarrow> bool \<times> wchar list \<times> nat" where
  "Utf8toWStr_buffer message utf8str wsize =
     (case utf8to16 utf8str of
        Inr out \<Rightarrow>
          if length out \<le> wsize then (True, out @ [0], length out)
          else if wsize \<ge> length message then (False, message @ [0], length message)
          else if wsize > 0 then (False, [0], 0)
          else (False, [], 0)
      | Inl _ \<Rightarrow>
          if wsize \<ge> length message then (False, message @ [0], length message)
          else if wsize > 0 then (False, [0], 0)
          else (False, [], 0))"

definition WStrToUtf8 :: "wchar list \<Rightarrow> bool \<times> uint8 list" where
  "WStrToUtf8 wstr = (case utf16to8 wstr of Inl _ \<Rightarrow> (False, []) | Inr utf8str \<Rightarrow> (True, utf8str))"

definition isNumeric :: "wchar \<Rightarrow> bool" where
  "isNumeric c \<longleftrightarrow> c \<ge> 0x30 \<and> c \<le> 0x39"

text \<open>\<open>isNumeric\<close> takes a \<open>char\<close>: the character is cut to 8 bits on the way.\<close>

definition isNumericOrSpace :: "wchar \<Rightarrow> bool" where
  "isNumericOrSpace c \<longleftrightarrow> isNumeric (scast (ucast c :: int8)) \<or> c = 0x20"

definition isBasicLatinCharacter :: "wchar \<Rightarrow> bool" where
  "isBasicLatinCharacter c \<longleftrightarrow> (c \<ge> 0x61 \<and> c \<le> 0x7a) \<or> (c \<ge> 0x41 \<and> c \<le> 0x5a)"

definition isBasicLatinString :: "wchar list \<Rightarrow> bool \<Rightarrow> bool" where
  "isBasicLatinString wstr numericOrSpace \<longleftrightarrow>
     list_all (\<lambda>i. isBasicLatinCharacter i \<or> (numericOrSpace \<and> isNumericOrSpace i)) wstr"

definition wcharToUpper :: "wchar \<Rightarrow> wchar" where
  "wcharToUpper c =
     (if c \<ge> 0x61 \<and> c \<le> 0x7a then ucast (ucast c :: uint16) - 0x20
      else if c = 0x00DF then 0x1E9E
      else if c \<ge> 0x00E0 \<and> c \<le> 0x00F6 then ucast (ucast c :: uint16) - 0x20
      else if c \<ge> 0x00F8 \<and> c \<le> 0x00FE then ucast (ucast c :: uint16) - 0x20
      else if c \<ge> 0x0101 \<and> c \<le> 0x012F \<and> c mod 2 = 1 then ucast (ucast c :: uint16) - 1
      else if c \<ge> 0x0430 \<and> c \<le> 0x044F then ucast (ucast c :: uint16) - 0x20
      else if c = 0x0451 then 0x0401
      else c)"

definition wcharToUpperOnlyLatin :: "wchar \<Rightarrow> wchar" where
  "wcharToUpperOnlyLatin c = (if isBasicLatinCharacter c then wcharToUpper c else c)"

definition Utf8ToUpperOnlyLatin :: "uint8 list \<Rightarrow> bool \<times> uint8 list" where
  "Utf8ToUpperOnlyLatin utf8String =
     (case Utf8toWStr utf8String of
        (False, _) \<Rightarrow> (False, utf8String)
      | (True, wstr) \<Rightarrow> WStrToUtf8 (map wcharToUpperOnlyLatin wstr))"

definition utf8length :: "uint8 list \<Rightarrow> nat \<times> uint8 list" where
  "utf8length utf8str = (case utf8_distance utf8str of Inl _ \<Rightarrow> (0, []) | Inr n \<Rightarrow> (n, utf8str))"

text \<open>\<open>utf8truncate\<close> converts into a buffer with one character per code point; more characters are
  written past its end. The result is converted back over the string, which is long enough.\<close>

definition utf8truncate :: "nat \<Rightarrow> uint8 list \<Rightarrow> uint8 list res" where
  "utf8truncate len utf8str =
     (case utf8_distance utf8str of
        Inl _ \<Rightarrow> Inr []
      | Inr wlen \<Rightarrow>
          if wlen \<le> len then Inr utf8str
          else
            (case utf8to16 utf8str of
               Inl _ \<Rightarrow> Inr []
             | Inr units \<Rightarrow>
                 if length units > wlen then Inl (UndefinedAccess ''utf8truncate: wstr'')
                 else
                   (case utf16to8 (take len units @ replicate (len - length units) 0) of
                      Inl _ \<Rightarrow> Inr []
                    | Inr bs \<Rightarrow>
                        if length bs \<le> length utf8str then Inr bs
                        else Inl (UndefinedAccess ''utf8truncate: utf8str''))))"

section \<open>Util: case-insensitive comparison\<close>

definition c_tolower :: "uint8 \<Rightarrow> uint8" where
  "c_tolower c = (if c \<ge> 0x41 \<and> c \<le> 0x5a then c + 0x20 else c)"

definition GetLowerString :: "uint8 list \<Rightarrow> uint8 list" where
  "GetLowerString str = map c_tolower str"

fun StringEqualI :: "uint8 list \<Rightarrow> uint8 list \<Rightarrow> bool" where
  "StringEqualI [] [] = True"
| "StringEqualI (a # as) (b # bs) = (c_tolower a = c_tolower b \<and> StringEqualI as bs)"
| "StringEqualI _ _ = False"

definition StringStartsWith :: "uint8 list \<Rightarrow> uint8 list \<Rightarrow> bool" where
  "StringStartsWith haystack needle \<longleftrightarrow> take (length needle) haystack = needle"

definition StringStartsWithI :: "uint8 list \<Rightarrow> uint8 list \<Rightarrow> bool" where
  "StringStartsWithI haystack needle \<longleftrightarrow> StringEqualI (take (length needle) haystack) needle"

text \<open>\<open>std::search\<close>: the first place where the needle starts, or the end. An empty needle in an
  empty haystack is found at its end, which the caller takes for a miss.\<close>

fun search_from :: "uint8 list \<Rightarrow> uint8 list \<Rightarrow> uint8 list" where
  "search_from [] needle = []"
| "search_from (h # hs) needle =
     (if length needle \<le> Suc (length hs) \<and> StringStartsWithI (h # hs) needle then h # hs
      else search_from hs needle)"

definition StringContainsStringI :: "uint8 list \<Rightarrow> uint8 list \<Rightarrow> bool" where
  "StringContainsStringI haystack needle \<longleftrightarrow> search_from haystack needle \<noteq> []"

fun StringCompareLessI :: "uint8 list \<Rightarrow> uint8 list \<Rightarrow> bool" where
  "StringCompareLessI _ [] = False"
| "StringCompareLessI [] (b # bs) = True"
| "StringCompareLessI (a # as) (b # bs) =
     (if sint (c_tolower a) < sint (c_tolower b) then True
      else if sint (c_tolower b) < sint (c_tolower a) then False
      else StringCompareLessI as bs)"

section \<open>Code points\<close>

lemma unat_utf8_encode:
  assumes "scalar n"
  shows "map unat (utf8_encode n) =
      (if n < 0x80 then [n]
       else if n < 0x800 then [0xc0 + n div 64, 0x80 + n mod 64]
       else if n < 0x10000 then [0xe0 + n div 4096, 0x80 + n div 64 mod 64, 0x80 + n mod 64]
       else [0xf0 + n div 262144, 0x80 + n div 4096 mod 64, 0x80 + n div 64 mod 64, 0x80 + n mod 64])"
proof -
  have "n div 262144 < 5" "n < 0x800 \<Longrightarrow> n div 64 < 32" "n < 0x10000 \<Longrightarrow> n div 4096 < 16"
    using assms by (auto simp: scalar_def)
  then show ?thesis by (auto simp: utf8_encode_def unat_byte simp del: of_nat_add)
qed

fun utf8_digits :: "nat list \<Rightarrow> nat" where
  "utf8_digits [a] = a"
| "utf8_digits [a, b] = (a - 0xc0) * 64 + (b - 0x80)"
| "utf8_digits [a, b, c] = ((a - 0xe0) * 64 + (b - 0x80)) * 64 + (c - 0x80)"
| "utf8_digits [a, b, c, d] = (((a - 0xf0) * 64 + (b - 0x80)) * 64 + (c - 0x80)) * 64 + (d - 0x80)"
| "utf8_digits _ = 0"

lemma utf8_digits_encode: "scalar n \<Longrightarrow> utf8_digits (map unat (utf8_encode n)) = n"
proof -
  have 2: "n div 4096 * 64 + n div 64 mod 64 = n div 64"
    using div_mult_mod_eq [of "n div 64" 64] by (simp add: div_mult2_eq [symmetric])
  have 3: "n div 262144 * 64 + n div 4096 mod 64 = n div 4096"
    using div_mult_mod_eq [of "n div 4096" 64] by (simp add: div_mult2_eq [symmetric])
  show "scalar n \<Longrightarrow> utf8_digits (map unat (utf8_encode n)) = n"
    by (simp add: unat_utf8_encode 2 3)
qed

lemma utf8_encode_inj: "scalar m \<Longrightarrow> scalar n \<Longrightarrow> utf8_encode m = utf8_encode n \<Longrightarrow> m = n"
  by (metis utf8_digits_encode)

lemma utf8_next_encode:
  assumes "scalar n"
  shows "utf8_next (utf8_encode n @ r) = Inr (word_of_nat n, r)"
proof -
  obtain cp where v: "validate_next (utf8_encode n @ r) = (UTF8_OK, r, cp)"
    using validate_next_complete [OF assms] by blast
  from validate_next_sound [OF v] have "scalar (unat cp)" "utf8_encode n = utf8_encode (unat cp)" by auto
  then have "word_of_nat n = cp" using utf8_encode_inj [OF assms, of "unat cp"] by simp
  then show ?thesis by (simp add: utf8_next_def v)
qed

lemma utf8_next_sound:
  assumes "it \<noteq> []" "utf8_next it = Inr (cp, it')"
  shows "scalar (unat cp) \<and> it = utf8_encode (unat cp) @ it'"
  using assms validate_next_sound [of it it' cp]
  by (auto simp: utf8_next_def split: prod.splits utf_error.splits)

text \<open>A string the conversions accept is the encoding of its code points.\<close>

lemma utf8to16_encoded:
  "\<forall>n\<in>set cps. scalar n \<Longrightarrow>
     utf8to16 (concat (map utf8_encode cps)) = Inr (concat (map (utf16_units \<circ> word_of_nat) cps))"
proof (induction cps)
  case (Cons n cps)
  then show ?case by (subst utf8to16.simps) (simp add: utf8_next_encode comp_def)
qed (simp add: utf8to16.simps)

lemma utf8_distance_encoded:
  "\<forall>n\<in>set cps. scalar n \<Longrightarrow> utf8_distance (concat (map utf8_encode cps)) = Inr (length cps)"
proof (induction cps)
  case (Cons n cps)
  then show ?case by (subst utf8_distance.simps) (simp add: utf8_next_encode)
qed (simp add: utf8_distance.simps)

lemma utf8_distance_ok:
  "utf8_distance bs = Inr k \<Longrightarrow> \<exists>cps. (\<forall>n\<in>set cps. scalar n) \<and> bs = concat (map utf8_encode cps)"
proof (induction bs arbitrary: k rule: utf8_distance.induct)
  case (1 bs)
  show ?case
  proof (cases "bs = []")
    case True
    then show ?thesis by (intro exI [of _ "[]"]) simp
  next
    case False
    then obtain cp rest k' where n: "utf8_next bs = Inr (cp, rest)" and d: "utf8_distance rest = Inr k'"
      using "1.prems" unfolding utf8_distance.simps [of bs]
      by (cases "utf8_next bs"; cases "utf8_distance (snd (projr (utf8_next bs)))") (auto split: prod.splits)
    from "1.IH" [OF False n refl d] utf8_next_sound [OF False n] obtain cps
      where "\<forall>n\<in>set cps. scalar n" "rest = concat (map utf8_encode cps)" by auto
    then show ?thesis using utf8_next_sound [OF False n] by (intro exI [of _ "unat cp # cps"]) simp
  qed
qed

lemma utf8_valid_encoded:
  "utf8_is_valid bs \<Longrightarrow> \<exists>cps. (\<forall>n\<in>set cps. scalar n) \<and> bs = concat (map utf8_encode cps)"
  using find_invalid_Nil_encodings by (simp add: utf8_is_valid_def)

lemma utf8_next_valid:
  assumes "bs \<noteq> []"
  shows "utf8_is_valid bs \<longleftrightarrow> (\<exists>cp rest. utf8_next bs = Inr (cp, rest) \<and> utf8_is_valid rest)"
proof
  assume "utf8_is_valid bs"
  then obtain cps where "\<forall>n\<in>set cps. scalar n" "bs = concat (map utf8_encode cps)" using utf8_valid_encoded by blast
  with assms obtain n ns where "bs = utf8_encode n @ concat (map utf8_encode ns)" "scalar n" "\<forall>n\<in>set ns. scalar n"
    by (cases cps) auto
  then show "\<exists>cp rest. utf8_next bs = Inr (cp, rest) \<and> utf8_is_valid rest"
    using find_invalid_encodings by (auto simp: utf8_next_encode utf8_is_valid_def)
next
  assume "\<exists>cp rest. utf8_next bs = Inr (cp, rest) \<and> utf8_is_valid rest"
  then obtain cp rest where n: "utf8_next bs = Inr (cp, rest)" "utf8_is_valid rest" by blast
  from utf8_valid_encoded [OF n(2)] obtain cps where "\<forall>n\<in>set cps. scalar n" "rest = concat (map utf8_encode cps)" by blast
  with utf8_next_sound [OF assms n(1)] show "utf8_is_valid bs"
    using find_invalid_encodings [of "unat cp # cps"] by (simp add: utf8_is_valid_def)
qed

lemma utf8to16_invalid: "\<not> utf8_is_valid bs \<Longrightarrow> \<exists>e. utf8to16 bs = Inl e"
proof (induction bs rule: utf8to16.induct)
  case (1 bs)
  then have ne: "bs \<noteq> []" by (auto simp: utf8_is_valid_def find_invalid.simps)
  show ?case
  proof (cases "utf8_next bs")
    case (Inl e)
    then show ?thesis using ne by (subst utf8to16.simps) simp
  next
    case (Inr x)
    obtain cp rest where x: "x = (cp, rest)" by (rule prod.exhaust)
    then have "\<not> utf8_is_valid rest" using "1.prems" utf8_next_valid [OF ne] Inr by blast
    from "1.IH" [OF ne Inr x [symmetric] this] obtain e where "utf8to16 rest = Inl e" by blast
    then show ?thesis using ne Inr x by (subst utf8to16.simps) simp
  qed
qed

section \<open>Writing code points\<close>

lemma unat_or_disjoint:
  fixes x :: uint32
  assumes "unat x < 2 ^ k" "unat x + unat c < 2 ^ 32" "c = push_bit k d"
  shows "unat (x OR c) = unat x + unat c"
proof -
  have "take_bit k x = x"
    using assms(1) by (metis (no_types, opaque_lifting) take_bit_nat_eq_self unsigned_take_bit_eq unsigned_word_eqI)
  then have x: "bit x i \<Longrightarrow> i < k" for i by (metis bit_take_bit_iff)
  have "x AND c = 0" by (rule bit_eqI) (auto simp: bit_simps assms(3) dest!: x)
  then have "x OR c = x + c" by (simp add: disjunctive_add_eq_or)
  then show ?thesis using assms(2) by (simp add: unat_add_small)
qed

lemma byte_of_or:
  fixes x :: uint32
  assumes "unat x < 2 ^ k" "unat x + c < 256" "word_of_nat c = push_bit k (d :: uint32)"
  shows "(ucast (x OR word_of_nat c) :: uint8) = word_of_nat (unat x + c)"
proof -
  have c: "unat (word_of_nat c :: uint32) = c" using assms(2) by (simp add: unat_of_nat)
  have "unat (x OR word_of_nat c) = unat x + c"
    using unat_or_disjoint [OF assms(1) _ assms(3)] assms(2) c by simp
  then show ?thesis by (metis of_nat_unat ucast_id unsigned_of_nat)
qed

lemma unat_and_63: "unat (x AND (0x3f :: uint32)) = unat x mod 64"
  unfolding code_point_masks(1) unat_and_mask by simp

lemma trail_byte: "(ucast ((x AND 0x3f) OR (0x80 :: uint32)) :: uint8) = word_of_nat (0x80 + unat x mod 64)"
  using byte_of_or [of "x AND 0x3f" 7 128 1] by (simp add: unat_and_63 add.commute less_le_trans [of _ 64])

lemma lead_bytes:
  "unat x < 32 \<Longrightarrow> (ucast (x OR (0xc0 :: uint32)) :: uint8) = word_of_nat (0xc0 + unat x)"
  "unat x < 16 \<Longrightarrow> (ucast (x OR (0xe0 :: uint32)) :: uint8) = word_of_nat (0xe0 + unat x)"
  "unat x < 8 \<Longrightarrow> (ucast (x OR (0xf0 :: uint32)) :: uint8) = word_of_nat (0xf0 + unat x)"
  using byte_of_or [of x 5 "0xc0" 6] byte_of_or [of x 4 "0xe0" 14] byte_of_or [of x 3 "0xf0" 30]
  by (simp_all add: add.commute)

lemma unat_word_of_scalar: "scalar n \<Longrightarrow> unat (word_of_nat n :: uint32) = n"
  by (simp add: unat_of_nat scalar_def)

lemma utf8_append_encode:
  assumes "scalar n"
  shows "utf8_append (word_of_nat n) = Inr (utf8_encode n)"
proof -
  let ?cp = "word_of_nat n :: uint32"
  have u: "unat ?cp = n" by (rule unat_word_of_scalar [OF assms])
  have small: "n < 0x800 \<Longrightarrow> unat (drop_bit 6 ?cp) < 32" "n < 0x10000 \<Longrightarrow> unat (drop_bit 12 ?cp) < 16"
      "unat (drop_bit 18 ?cp) < 8"
    using assms by (auto simp: unat_drop_bit_div u scalar_def)
  have cmp: "?cp < 0x80 \<longleftrightarrow> n < 0x80" "?cp < 0x800 \<longleftrightarrow> n < 0x800" "?cp < 0x10000 \<longleftrightarrow> n < 0x10000"
    by (simp_all add: word_less_nat_alt u)
  have one: "n < 0x80 \<Longrightarrow> (ucast ?cp :: uint8) = word_of_nat n" by (metis u of_nat_unat ucast_id unsigned_of_nat)
  have valid: "is_code_point_valid ?cp" using assms by (simp add: scalar_unat u)
  show ?thesis
    unfolding utf8_append_def utf8_encode_def cmp
    using valid small one by (simp add: trail_byte lead_bytes unat_drop_bit_div u del: of_nat_add)
qed

lemma unat_cut16: "unat (ucast (ucast (w :: uint32) :: uint16) :: uint32) = unat w mod 65536"
proof -
  have "unat (ucast (ucast w :: uint16) :: uint32) = take_bit 32 (take_bit 16 (unat w))"
    by (simp only: unsigned_ucast_eq)  (simp add: unsigned_take_bit_eq)
  then show ?thesis by (simp add: take_bit_eq_mod)
qed

lemma mask16_unit: "(ucast (mask16 (ucast (v :: uint16))) :: uint32) = ucast v"
proof -
  have m: "(0xffff :: uint32) = mask 16" by (simp add: mask_eq_exp_minus_1)
  show ?thesis unfolding mask16_def m by (rule bit_eqI) (auto simp: bit_simps dest: bit_imp_le_length)
qed

lemma unat_and_3ff: "unat (x AND (0x3ff :: uint32)) = unat x mod 1024"
proof -
  have "(0x3ff :: uint32) = mask 10" by (simp add: mask_eq_exp_minus_1)
  from unat_and_mask [of x 10, folded this] show ?thesis by simp
qed

lemma surrogate_units:
  assumes n: "scalar n" "0xffff < n"
  shows "utf16_units (word_of_nat n) = [word_of_nat (n div 1024 + 0xd7c0), word_of_nat (n mod 1024 + 0xdc00)]"
proof -
  let ?cp = "word_of_nat n :: uint32"
  have u: "unat ?cp = n" by (rule unat_word_of_scalar [OF n(1)])
  have bound: "n div 1024 \<le> 1087" using n(1) div_le_mono [of n 1114111 1024] by (simp add: scalar_def)
  have "unat (drop_bit 10 ?cp + ucast LEAD_OFFSET) = n div 1024 + 0xd7c0"
    using bound by (simp add: LEAD_OFFSET_def unat_word_ariths unat_drop_bit_div u)
  moreover have "unat ((?cp AND 0x3ff) + ucast TRAIL_SURROGATE_MIN) = n mod 1024 + 0xdc00"
    by (simp add: TRAIL_SURROGATE_MIN_def unat_word_ariths unat_and_3ff u)
  moreover have "?cp > 0xffff" using n(2) by (simp add: word_less_nat_alt u)
  ultimately show ?thesis
    using bound
    by (simp add: utf16_units_def word_unat_eq_iff unat_cut16 unat_of_nat del: of_nat_add)
qed

lemma utf16to8_unit_small:
  assumes n: "scalar n" "n \<le> 0xffff"
  shows "utf16_units (word_of_nat n) = [word_of_nat n]"
    and "utf16to8 (word_of_nat n # us) = map_sum id (\<lambda>out. utf8_encode n @ out) (utf16to8 us)"
proof -
  let ?cp = "word_of_nat n :: uint32"
  have u: "unat ?cp = n" by (rule unat_word_of_scalar [OF n(1)])
  have cut: "ucast (ucast ?cp :: uint16) = ?cp" unfolding word_unat_eq_iff unat_cut16 u using n(2) by simp
  have "\<not> ?cp > 0xffff" using n(2) by (simp add: word_less_nat_alt u)
  then show "utf16_units ?cp = [?cp]" by (simp add: utf16_units_def cut)
  have "(ucast (mask16 ?cp) :: uint32) = ?cp" using mask16_unit [of "ucast ?cp"] unfolding cut .
  moreover have "\<not> is_lead_surrogate ?cp" "\<not> is_trail_surrogate ?cp"
    using n(1) by (auto simp: is_lead_surrogate_def is_trail_surrogate_def word_le_nat_alt u scalar_def)
  ultimately show "utf16to8 (?cp # us) = map_sum id (\<lambda>out. utf8_encode n @ out) (utf16to8 us)"
    by (simp add: append_then_def utf8_append_encode [OF n(1)])
qed

lemma utf16to8_units_large:
  assumes n: "scalar n" "0xffff < n"
  shows "utf16to8 (utf16_units (word_of_nat n) @ us) = map_sum id (\<lambda>out. utf8_encode n @ out) (utf16to8 us)"
proof -
  let ?a = "n div 1024 + 0xd7c0" and ?b = "n mod 1024 + 0xdc00"
  have bound: "n div 1024 \<le> 1087" "64 \<le> n div 1024"
    using n div_le_mono [of n 1114111 1024] div_le_mono [of 65536 n 1024] by (simp_all add: scalar_def)
  have unit: "(ucast (mask16 (word_of_nat m)) :: uint32) = word_of_nat m" if "m < 65536" for m
  proof -
    have "(ucast (word_of_nat m :: uint16) :: uint32) = word_of_nat m"
      using that by (simp add: word_unat_eq_iff unsigned_ucast_eq unat_of_nat take_bit_eq_mod)
    with mask16_unit [of "word_of_nat m"] show ?thesis by simp
  qed
  have a: "(ucast (mask16 (word_of_nat ?a)) :: uint32) = word_of_nat ?a" using bound by (intro unit) simp
  have b: "(ucast (mask16 (word_of_nat ?b)) :: uint32) = word_of_nat ?b" by (intro unit) simp
  have ua: "unat (word_of_nat ?a :: uint32) = ?a" and ub: "unat (word_of_nat ?b :: uint32) = ?b"
    using bound by (simp_all add: unat_of_nat del: of_nat_add)
  have lead: "is_lead_surrogate (word_of_nat ?a)" and trail: "is_trail_surrogate (word_of_nat ?b)"
    using bound unfolding is_lead_surrogate_def is_trail_surrogate_def word_le_nat_alt ua ub by simp_all
  have "(word_of_nat (n mod 1024 + 1024 * (n div 1024)) :: uint32) = word_of_nat n" by simp
  then have "word_of_nat (n mod 1024) + 1024 * word_of_nat (n div 1024) = (word_of_nat n :: uint32)"
    unfolding of_nat_add of_nat_mult by simp
  moreover have zero: "(4294967296 :: uint32) = 0" by simp
  have wrap: "x + 4294967296 = x" for x :: uint32 by (subst zero) simp
  ultimately have cp: "push_bit 10 (word_of_nat ?a :: uint32) + word_of_nat ?b + SURROGATE_OFFSET = word_of_nat n"
    by (simp add: push_bit_eq_mult SURROGATE_OFFSET_def algebra_simps wrap)
  show ?thesis
    using lead trail unfolding surrogate_units [OF n]
    by (simp add: a b cp append_then_def utf8_append_encode [OF n(1)] del: of_nat_add)
qed

lemma utf16to8_encoded:
  "\<forall>n\<in>set cps. scalar n \<Longrightarrow>
     utf16to8 (concat (map (utf16_units \<circ> word_of_nat) cps)) = Inr (concat (map utf8_encode cps))"
proof (induction cps)
  case (Cons n cps)
  then show ?case
    using utf16to8_unit_small [of n] utf16to8_units_large [of n] by (cases "n \<le> 0xffff") (auto simp: comp_def)
qed simp

section \<open>Properties of the conversions\<close>

text \<open>
  The conversions to wide strings and back are inverse: a byte string converts exactly when it is
  valid UTF-8, and what it converts to converts back to it, surrogate pairs included.
\<close>

theorem wide_roundtrip:
  "(if utf8_is_valid bs
    then \<exists>wstr. Utf8toWStr bs = (True, wstr) \<and> WStrToUtf8 wstr = (True, bs)
    else Utf8toWStr bs = (False, []))"
proof (cases "utf8_is_valid bs")
  case True
  then obtain cps where "\<forall>n\<in>set cps. scalar n" "bs = concat (map utf8_encode cps)"
    using utf8_valid_encoded by blast
  then show ?thesis using True by (simp add: Utf8toWStr_def WStrToUtf8_def utf8to16_encoded utf16to8_encoded)
next
  case False
  then show ?thesis using utf8to16_invalid [of bs] by (auto simp: Utf8toWStr_def)
qed

definition latin_upper :: "uint8 \<Rightarrow> uint8" where
  "latin_upper b = (if b \<ge> 0x61 \<and> b \<le> 0x7a then b - 0x20 else b)"

definition upper_cp :: "nat \<Rightarrow> nat" where
  "upper_cp n = (if 0x61 \<le> n \<and> n \<le> 0x7a then n - 0x20 else n)"

lemma scalar_upper_cp: "scalar n \<Longrightarrow> scalar (upper_cp n)"
  by (auto simp: scalar_def upper_cp_def)

lemma latin_upper_high: "128 \<le> unat b \<Longrightarrow> latin_upper b = b"
  by (simp add: latin_upper_def word_le_nat_alt)

lemma latin_upper_encode:
  assumes "scalar n"
  shows "map latin_upper (utf8_encode n) = utf8_encode (upper_cp n)"
proof (cases "n < 128")
  case True
  then have u: "unat (word_of_nat n :: uint8) = n" by (simp add: unat_byte)
  have "upper_cp n < 128" using True by (auto simp: upper_cp_def)
  moreover have "latin_upper (word_of_nat n) = word_of_nat (upper_cp n)"
    using True u by (auto simp: latin_upper_def upper_cp_def word_le_nat_alt of_nat_diff)
  ultimately show ?thesis using True by (simp add: utf8_encode_1)
next
  case False
  have "\<forall>x\<in>set (map unat (utf8_encode n)). 128 \<le> x"
    using False by (simp add: unat_utf8_encode [OF assms])
  then have "map latin_upper (utf8_encode n) = map id (utf8_encode n)"
    by (intro map_cong) (auto simp: latin_upper_high)
  then show ?thesis using False by (simp add: upper_cp_def)
qed

lemma basic_latin_nat:
  assumes "n < 2 ^ 32"
  shows "wcharToUpperOnlyLatin (word_of_nat n) = word_of_nat (upper_cp n)"
proof -
  let ?w = "word_of_nat n :: uint32"
  have u: "unat ?w = n" using assms by (simp add: unat_of_nat)
  have "\<not> (0x61 \<le> n \<and> n \<le> 0x7a) \<Longrightarrow> isBasicLatinCharacter ?w \<Longrightarrow> wcharToUpper ?w = ?w"
    by (auto simp: isBasicLatinCharacter_def wcharToUpper_def word_le_nat_alt u word_unat_eq_iff)
  moreover have "0x61 \<le> n \<and> n \<le> 0x7a \<Longrightarrow> isBasicLatinCharacter ?w"
    by (auto simp: isBasicLatinCharacter_def word_le_nat_alt u)
  moreover have "0x61 \<le> n \<and> n \<le> 0x7a \<Longrightarrow> wcharToUpper ?w = word_of_nat (n - 0x20)"
  proof -
    assume n: "0x61 \<le> n \<and> n \<le> 0x7a"
    have "ucast (ucast ?w :: uint16) = ?w" unfolding word_unat_eq_iff unat_cut16 u using n by simp
    then show "wcharToUpper ?w = word_of_nat (n - 0x20)"
      using n by (simp add: wcharToUpper_def word_le_nat_alt u of_nat_diff)
  qed
  ultimately show ?thesis by (auto simp: wcharToUpperOnlyLatin_def upper_cp_def)
qed

lemma upper_units:
  assumes "scalar n"
  shows "map wcharToUpperOnlyLatin (utf16_units (word_of_nat n)) = utf16_units (word_of_nat (upper_cp n))"
proof (cases "n \<le> 0xffff")
  case True
  then have "utf16_units (word_of_nat (upper_cp n)) = [word_of_nat (upper_cp n)]"
    using scalar_upper_cp [OF assms] by (intro utf16to8_unit_small) (auto simp: upper_cp_def)
  then show ?thesis using True by (simp add: utf16to8_unit_small [OF assms] basic_latin_nat)
next
  case False
  have bound: "n div 1024 \<le> 1087" "n mod 1024 < 1024"
    using assms div_le_mono [of n 1114111 1024] by (simp_all add: scalar_def)
  then have "wcharToUpperOnlyLatin (word_of_nat (n div 1024 + 0xd7c0)) = word_of_nat (n div 1024 + 0xd7c0)"
      "wcharToUpperOnlyLatin (word_of_nat (n mod 1024 + 0xdc00)) = word_of_nat (n mod 1024 + 0xdc00)"
    using basic_latin_nat [of "n div 1024 + 0xd7c0"] basic_latin_nat [of "n mod 1024 + 0xdc00"]
    by (simp_all add: upper_cp_def del: of_nat_add)
  moreover have "upper_cp n = n" using False by (simp add: upper_cp_def)
  ultimately show ?thesis using False surrogate_units [OF assms] by (simp del: of_nat_add)
qed

lemma Utf8ToUpperOnlyLatin_eq:
  "Utf8ToUpperOnlyLatin bs = (if utf8_is_valid bs then (True, map latin_upper bs) else (False, bs))"
proof (cases "utf8_is_valid bs")
  case True
  then obtain cps where cps: "\<forall>n\<in>set cps. scalar n" and bs: "bs = concat (map utf8_encode cps)"
    using utf8_valid_encoded by blast
  have units: "map wcharToUpperOnlyLatin (concat (map (utf16_units \<circ> word_of_nat) cps)) =
      concat (map (utf16_units \<circ> word_of_nat) (map upper_cp cps))"
    using cps by (induction cps) (simp_all add: upper_units comp_def)
  have bytes: "map latin_upper bs = concat (map utf8_encode (map upper_cp cps))"
    unfolding bs using cps by (induction cps) (simp_all add: latin_upper_encode)
  have "\<forall>n\<in>set (map upper_cp cps). scalar n" using cps scalar_upper_cp by simp
  from utf16to8_encoded [OF this] show ?thesis
    using True cps by (simp add: Utf8ToUpperOnlyLatin_def Utf8toWStr_def WStrToUtf8_def bs [symmetric] bytes
        utf8to16_encoded [OF cps, folded bs] units del: map_map)
next
  case False
  then show ?thesis using utf8to16_invalid [of bs] by (auto simp: Utf8ToUpperOnlyLatin_def Utf8toWStr_def)
qed

lemma latin_upper_idem [simp]: "latin_upper (latin_upper b) = latin_upper b"
proof (cases "b \<ge> 0x61 \<and> b \<le> 0x7a")
  case True
  then have "unat (b - 0x20) = unat b - 0x20" by (subst unat_sub) (auto simp: word_le_nat_alt)
  then show ?thesis using True by (auto simp: latin_upper_def word_le_nat_alt)
qed (auto simp: latin_upper_def)

lemma latin_upper_valid: "utf8_is_valid bs \<Longrightarrow> utf8_is_valid (map latin_upper bs)"
proof -
  assume "utf8_is_valid bs"
  then obtain cps where cps: "\<forall>n\<in>set cps. scalar n" and bs: "bs = concat (map utf8_encode cps)"
    using utf8_valid_encoded by blast
  have "map latin_upper bs = concat (map utf8_encode (map upper_cp cps))"
    unfolding bs using cps by (induction cps) (simp_all add: latin_upper_encode)
  moreover have "\<forall>n\<in>set (map upper_cp cps). scalar n" using cps scalar_upper_cp by simp
  ultimately show ?thesis using find_invalid_encodings by (metis utf8_is_valid_def)
qed

text \<open>
  Upper-casing the Latin letters of an account name or key, which the code does by converting to
  UTF-16, mapping and converting back, is the same as replacing the bytes of the letters a to z: it
  succeeds exactly on valid UTF-8 and leaves the string as it is otherwise. Doing it twice is doing
  it once.
\<close>

theorem upper_latin_bytewise:
  "Utf8ToUpperOnlyLatin bs = (if utf8_is_valid bs then (True, map latin_upper bs) else (False, bs)) \<and>
   Utf8ToUpperOnlyLatin (snd (Utf8ToUpperOnlyLatin bs)) = Utf8ToUpperOnlyLatin bs"
  using latin_upper_valid [of bs] by (simp add: Utf8ToUpperOnlyLatin_eq comp_def)

lemma utf16_units_length: "scalar n \<Longrightarrow> length (utf16_units (word_of_nat n)) = (if n \<le> 0xffff then 1 else 2)"
  using utf16to8_unit_small(1) [of n] surrogate_units [of n] by auto

lemma units_length:
  "\<forall>n\<in>set cps. scalar n \<Longrightarrow>
     length (concat (map (utf16_units \<circ> word_of_nat) cps)) = length cps + length (filter (\<lambda>n. n > 0xffff) cps)"
  by (induction cps) (auto simp: utf16_units_length)

lemma units_small:
  "\<forall>n\<in>set cps. scalar n \<and> n \<le> 0xffff \<Longrightarrow> concat (map (utf16_units \<circ> word_of_nat) cps) = map word_of_nat cps"
  by (induction cps) (auto simp: utf16to8_unit_small)

lemma length_encoded_take:
  "length (concat (map utf8_encode (take k cps))) \<le> length (concat (map utf8_encode cps))"
proof -
  have "concat (map utf8_encode cps) = concat (map utf8_encode (take k cps)) @ concat (map utf8_encode (drop k cps))"
    by (metis append_take_drop_id concat_append map_append)
  then show ?thesis by simp
qed

lemma utf8length_eq:
  "utf8length bs = (if utf8_is_valid bs then (fst (utf8length bs), bs) else (0, []))"
proof (cases "utf8_distance bs")
  case (Inl e)
  then have "\<not> utf8_is_valid bs" using utf8_distance_encoded utf8_valid_encoded by fastforce
  then show ?thesis using Inl by (simp add: utf8length_def)
next
  case (Inr n)
  then have "utf8_is_valid bs" using utf8_distance_ok find_invalid_encodings by (metis utf8_is_valid_def)
  then show ?thesis using Inr by (simp add: utf8length_def)
qed

text \<open>
  C28. Truncation works on the basic plane and overruns its buffer beyond it: a valid string of at
  most \<open>len\<close> code points is kept; a longer one is cut to its first \<open>len\<close> code points when all of
  them are below U+10000; and one with a code point above writes past the end of the temporary
  buffer, which has room for one character per code point while such a code point takes two.
\<close>

theorem utf8truncate_bounds:
  assumes cps: "\<forall>n\<in>set cps. scalar n"
  shows "utf8truncate len (concat (map utf8_encode cps)) =
    (if length cps \<le> len then Inr (concat (map utf8_encode cps))
     else if \<forall>n\<in>set cps. n \<le> 0xffff then Inr (concat (map utf8_encode (take len cps)))
     else Inl (UndefinedAccess ''utf8truncate: wstr''))"
proof (cases "length cps \<le> len \<or> \<not> (\<forall>n\<in>set cps. n \<le> 0xffff)")
  case True
  have "filter (\<lambda>n. n > 0xffff) cps \<noteq> [] \<longleftrightarrow> \<not> (\<forall>n\<in>set cps. n \<le> 0xffff)"
    by (auto simp: filter_empty_conv not_le)
  then show ?thesis using True
    by (auto simp: utf8truncate_def utf8_distance_encoded [OF cps] utf8to16_encoded [OF cps] units_length [OF cps])
next
  case False
  then have small: "\<forall>n\<in>set cps. scalar n \<and> n \<le> 0xffff" using cps by simp
  then have "\<forall>n\<in>set (take len cps). scalar n \<and> n \<le> 0xffff" by (meson in_set_takeD)
  then have cut: "take len (map word_of_nat cps) = concat (map (utf16_units \<circ> word_of_nat) (take len cps))"
      "\<forall>n\<in>set (take len cps). scalar n"
    by (auto simp: units_small take_map)
  show ?thesis
    using False length_encoded_take [of len cps] utf16to8_encoded [OF cut(2)]
    by (simp add: utf8truncate_def utf8_distance_encoded [OF cps] utf8to16_encoded [OF cps] units_small [OF small]
        cut(1))
qed

theorem utf8truncate_bounds_witness:
  "utf8truncate 1 (concat (map utf8_encode [0x1F600, 0x61])) = Inl (UndefinedAccess ''utf8truncate: wstr'') \<and>
   utf8truncate 1 (concat (map utf8_encode [0x416, 0x61])) = Inr (utf8_encode 0x416)"
  using utf8truncate_bounds [of "[0x1F600, 0x61]" 1] utf8truncate_bounds [of "[0x416, 0x61]" 1]
  by (simp add: scalar_def)

section \<open>Util: hexadecimal\<close>

definition hex_digit :: "nat \<Rightarrow> uint8" where
  "hex_digit n = word_of_nat (if n < 10 then 0x30 + n else 0x37 + n)"

text \<open>The conversion \<open>%02X\<close>, and the indices the loops visit.\<close>

definition sprintf_02X :: "uint8 \<Rightarrow> uint8 list" where
  "sprintf_02X b = [hex_digit (unat b div 16), hex_digit (unat b mod 16)]"

definition loop_indices :: "nat \<Rightarrow> bool \<Rightarrow> nat list" where
  "loop_indices n rever = (if rever then rev [0..<n] else [0..<n])"

definition ByteArrayToHexStr :: "uint8 list \<Rightarrow> bool \<Rightarrow> uint8 list" where
  "ByteArrayToHexStr bytes rever = concat (map (\<lambda>i. sprintf_02X (bytes ! i)) (loop_indices (length bytes) rever))"

text \<open>\<open>strtoul\<close> in base 16: white space, a sign, an optional prefix, digits as far as they go.\<close>

definition c_isspace :: "uint8 \<Rightarrow> bool" where
  "c_isspace b \<longleftrightarrow> (b \<ge> 9 \<and> b \<le> 13) \<or> b = 32"

definition hex_value :: "uint8 \<Rightarrow> nat option" where
  "hex_value b =
     (if b \<ge> 0x30 \<and> b \<le> 0x39 then Some (unat b - 0x30)
      else if b \<ge> 0x41 \<and> b \<le> 0x46 then Some (unat b - 0x37)
      else if b \<ge> 0x61 \<and> b \<le> 0x66 then Some (unat b - 0x57)
      else None)"

fun hex_digits :: "nat \<Rightarrow> uint8 list \<Rightarrow> nat" where
  "hex_digits acc [] = acc"
| "hex_digits acc (b # bs) = (case hex_value b of None \<Rightarrow> acc | Some d \<Rightarrow> hex_digits (16 * acc + d) bs)"

definition strtoul16 :: "uint8 list \<Rightarrow> uint64" where
  "strtoul16 s =
     (let s1 = dropWhile c_isspace s;
          neg = (s1 \<noteq> [] \<and> hd s1 = 0x2d);
          s2 = (if s1 \<noteq> [] \<and> (hd s1 = 0x2d \<or> hd s1 = 0x2b) then tl s1 else s1);
          s3 = (case s2 of
                  z # x # d # _ \<Rightarrow> if z = 0x30 \<and> (x = 0x78 \<or> x = 0x58) \<and> hex_value d \<noteq> None then drop 2 s2 else s2
                | _ \<Rightarrow> s2);
          v = word_of_nat (hex_digits 0 s3)
      in if neg then - v else v)"

definition HexStrToByteArray :: "uint8 list \<Rightarrow> nat \<Rightarrow> bool \<Rightarrow> uint8 list res" where
  "HexStrToByteArray str outlen rever =
     guard_or (length str = 2 * outlen) (AssertFailure ''str.size() == (2 * outlen)'')
       (Inr (map (\<lambda>i. ucast (strtoul16 [str ! (2 * i), str ! (2 * i + 1)])) (loop_indices outlen rever)))"

lemma hex_digit_facts:
  assumes "n < 16"
  shows "hex_value (hex_digit n) = Some n" "\<not> c_isspace (hex_digit n)" "hex_digit n \<noteq> 0x2d" "hex_digit n \<noteq> 0x2b"
proof -
  have "\<forall>n<16. hex_value (hex_digit n) = Some n \<and> \<not> c_isspace (hex_digit n) \<and> hex_digit n \<noteq> 0x2d \<and> hex_digit n \<noteq> 0x2b"
    by code_simp
  then show "hex_value (hex_digit n) = Some n" "\<not> c_isspace (hex_digit n)" "hex_digit n \<noteq> 0x2d" "hex_digit n \<noteq> 0x2b"
    using assms by blast+
qed

lemma strtoul16_hex: "ucast (strtoul16 (sprintf_02X b)) = b"
proof -
  have lt: "unat b < 256" using unsigned_less [of b, where 'a = nat] by simp
  then have b: "unat b div 16 < 16" "unat b < 18446744073709551616" by simp_all
  have "strtoul16 (sprintf_02X b) = word_of_nat (unat b div 16 * 16 + unat b mod 16)"
    using hex_digit_facts [OF b(1)] hex_digit_facts [of "unat b mod 16"]
    by (simp add: strtoul16_def sprintf_02X_def Let_def mult.commute)
  then show ?thesis using lt b(2) by (simp add: word_unat_eq_iff unsigned_ucast_eq unat_of_nat take_bit_eq_mod)
qed

lemma nth_hex_pairs:
  "i < length bs \<Longrightarrow>
     [concat (map sprintf_02X bs) ! (2 * i), concat (map sprintf_02X bs) ! (2 * i + 1)] = sprintf_02X (bs ! i)"
proof (induction bs arbitrary: i)
  case (Cons b bs)
  then show ?case by (cases i) (auto simp: sprintf_02X_def)
qed simp

lemma strtoul16_nth:
  "i < length bs \<Longrightarrow>
     ucast (strtoul16 [concat (map sprintf_02X bs) ! (2 * i), concat (map sprintf_02X bs) ! (2 * i + 1)]) = bs ! i"
  by (simp only: nth_hex_pairs strtoul16_hex)

lemma hex_pairs_length: "length (concat (map sprintf_02X bs)) = 2 * length bs"
  by (induction bs) (simp_all add: sprintf_02X_def)

lemma ByteArrayToHexStr_eq: "ByteArrayToHexStr bs rever = concat (map sprintf_02X (if rever then rev bs else bs))"
proof -
  have "map (\<lambda>i. sprintf_02X (bs ! i)) [0..<length bs] = map sprintf_02X bs"
    by (rule nth_equalityI) simp_all
  then show ?thesis by (simp add: ByteArrayToHexStr_def loop_indices_def flip: rev_map)
qed

text \<open>
  Hexadecimal text is read back to the bytes it was written from, in either direction, and text
  of the wrong length is refused by the assertion.
\<close>

theorem hex_roundtrip:
  "HexStrToByteArray (ByteArrayToHexStr bs rever) (length bs) rever = Inr bs \<and>
   (length str \<noteq> 2 * n \<longrightarrow> HexStrToByteArray str n rever = Inl (AssertFailure ''str.size() == (2 * outlen)''))"
proof -
  let ?bs = "if rever then rev bs else bs"
  have "map (\<lambda>i. ucast (strtoul16 [concat (map sprintf_02X ?bs) ! (2 * i), concat (map sprintf_02X ?bs) ! (2 * i + 1)]))
      [0..<length bs] = map (\<lambda>i. ?bs ! i) [0..<length bs]"
    by (rule map_cong [OF refl], rule strtoul16_nth) simp
  also have "\<dots> = ?bs" using map_nth [of "rev bs"] map_nth [of bs] by simp
  finally show ?thesis
    by (auto simp: HexStrToByteArray_def guard_or_def ByteArrayToHexStr_eq hex_pairs_length loop_indices_def
        simp flip: rev_map)
qed

theorem hex_roundtrip_witness:
  "HexStrToByteArray (ByteArrayToHexStr [0x0a, 0xff] True) 2 True = Inr [0x0a, 0xff] \<and>
   HexStrToByteArray [0x30] 1 False = Inl (AssertFailure ''str.size() == (2 * outlen)'')"
  using hex_roundtrip [of "[0x0a, 0xff]" True "[]" 0] hex_roundtrip [of "[]" False "[0x30]" 1]
  by (simp add: numeral_2_eq_2)

end
