(* ===== verification/Convert.thy ===== *)
theory Convert
  imports TextUtil
begin

text \<open>
  Splitting, trimming and converting strings: \<open>Tokenize.cpp\<close>, \<open>StringFormat.cpp\<close> and
  \<open>StringConvert.h\<close> of \<open>src/src/common/Utilities\<close>. A string is the list of its bytes.
  \<open>std::from_chars\<close> and \<open>std::to_chars\<close> are modelled for the integer types, which are given by their
  signedness and width; the conversions of floating-point numbers are left out.
\<close>

section \<open>Tokenize\<close>

text \<open>\<open>find\<close>: the first position of \<open>sep\<close> at or after \<open>start\<close>.\<close>

definition find_from :: "uint8 \<Rightarrow> uint8 list \<Rightarrow> nat \<Rightarrow> nat option" where
  "find_from sep str start =
     (let rest = drop start str; k = length (takeWhile (\<lambda>c. c \<noteq> sep) rest)
      in if k < length rest then Some (start + k) else None)"

definition substr :: "uint8 list \<Rightarrow> nat \<Rightarrow> nat \<Rightarrow> uint8 list" where
  "substr str pos n = take n (drop pos str)"

lemma find_from_bound: "find_from sep str start = Some e \<Longrightarrow> start \<le> e \<and> e < length str"
  by (auto simp: find_from_def Let_def split: if_splits)

function tokenize_from :: "uint8 list \<Rightarrow> uint8 \<Rightarrow> bool \<Rightarrow> nat \<Rightarrow> uint8 list list" where
  "tokenize_from str sep keepEmpty start =
     (case find_from sep str start of
        Some e \<Rightarrow>
          (if keepEmpty \<or> start < e then [substr str start (e - start)] else [])
            @ tokenize_from str sep keepEmpty (e + 1)
      | None \<Rightarrow> if keepEmpty \<or> start < length str then [drop start str] else [])"
  by pat_completeness auto
termination
  by (relation "measure (\<lambda>(str, sep, keepEmpty, start). length str - start)") (auto dest: find_from_bound)

declare tokenize_from.simps [simp del]

definition Tokenize :: "uint8 list \<Rightarrow> uint8 \<Rightarrow> bool \<Rightarrow> uint8 list list" where
  "Tokenize str sep keepEmpty = tokenize_from str sep keepEmpty 0"

section \<open>Trimming\<close>

definition Trim :: "uint8 list \<Rightarrow> uint8 list" where
  "Trim s =
     (let first = dropWhile c_isspace s
      in if first = [] then [] else rev (dropWhile c_isspace (rev first)))"

text \<open>The loop of \<open>TrimRightInPlace\<close> counts down from the last position; \<open>n\<close> is \<open>pos + 1\<close>.\<close>

fun trim_pos :: "uint8 list \<Rightarrow> nat \<Rightarrow> nat" where
  "trim_pos str 0 = 0"
| "trim_pos str (Suc pos) = (if c_isspace (str ! pos) then trim_pos str pos else Suc pos)"

definition TrimRightInPlace :: "uint8 list \<Rightarrow> uint8 list" where
  "TrimRightInPlace str = take (trim_pos str (length str)) str"

section \<open>Integers\<close>

text \<open>An integral type \<open>T\<close>.\<close>

record int_type =
  it_signed :: bool
  it_width :: nat

definition it_min :: "int_type \<Rightarrow> int" where
  "it_min T = (if it_signed T then - (2 ^ (it_width T - 1)) else 0)"

definition it_max :: "int_type \<Rightarrow> int" where
  "it_max T = (if it_signed T then 2 ^ (it_width T - 1) else 2 ^ it_width T) - 1"

definition char_digit :: "uint8 \<Rightarrow> nat option" where
  "char_digit c =
     (if c \<ge> 0x30 \<and> c \<le> 0x39 then Some (unat c - 0x30)
      else if c \<ge> 0x41 \<and> c \<le> 0x5a then Some (unat c - 0x37)
      else if c \<ge> 0x61 \<and> c \<le> 0x7a then Some (unat c - 0x57)
      else None)"

definition is_digit :: "nat \<Rightarrow> uint8 \<Rightarrow> bool" where
  "is_digit base c = (case char_digit c of None \<Rightarrow> False | Some d \<Rightarrow> d < base)"

definition digits_value :: "nat \<Rightarrow> uint8 list \<Rightarrow> nat" where
  "digits_value base ds = foldl (\<lambda>acc c. base * acc + the (char_digit c)) 0 ds"

text \<open>\<open>std::from_chars\<close>: no white space, no plus sign, a minus sign only for signed types; the longest
  run of digits is taken. The result has the rest that was not taken.\<close>

datatype from_chars_result = InvalidArgument | ResultOutOfRange "uint8 list" | Converted int "uint8 list"

definition from_chars :: "int_type \<Rightarrow> nat \<Rightarrow> uint8 list \<Rightarrow> from_chars_result" where
  "from_chars T base str =
     (let neg = (it_signed T \<and> str \<noteq> [] \<and> hd str = 0x2d);
          s = (if neg then tl str else str);
          ds = takeWhile (is_digit base) s;
          rest = dropWhile (is_digit base) s;
          v = (if neg then - int (digits_value base ds) else int (digits_value base ds))
      in if ds = [] then InvalidArgument
         else if v < it_min T \<or> v > it_max T then ResultOutOfRange rest
         else Converted v rest)"

definition FromString_int :: "int_type \<Rightarrow> nat \<Rightarrow> uint8 list \<Rightarrow> int option" where
  "FromString_int T base str =
     (let (base', str', empty) =
        (if base = 0 then
           (let (b, s) = (if StringEqualI (substr str 0 2) (bytes_of ''0x'') then (16, drop 2 str)
                          else if StringEqualI (substr str 0 2) (bytes_of ''0b'') then (2, drop 2 str)
                          else (10, str))
            in (b, s, s = []))
         else (base, str, False))
      in if empty then None
         else (case from_chars T base' str' of
                 Converted v rest \<Rightarrow> if rest = [] then Some v else None
               | _ \<Rightarrow> None))"

fun dec_digits :: "nat \<Rightarrow> uint8 list" where
  "dec_digits n = (if n < 10 then [0x30 + word_of_nat n] else dec_digits (n div 10) @ [0x30 + word_of_nat (n mod 10)])"

declare dec_digits.simps [simp del]

text \<open>\<open>std::to_chars\<close> in base 10, into a buffer of a given size.\<close>

definition to_chars :: "nat \<Rightarrow> int \<Rightarrow> uint8 list option" where
  "to_chars bufsize v =
     (let s = (if v < 0 then 0x2d # dec_digits (nat (- v)) else dec_digits (nat v))
      in if length s \<le> bufsize then Some s else None)"

definition ToString_int :: "int \<Rightarrow> uint8 list res" where
  "ToString_int v =
     (case to_chars 20 v of None \<Rightarrow> Inl (AssertFailure ''res.ec == std::errc()'') | Some s \<Rightarrow> Inr s)"

section \<open>Booleans\<close>

definition FromString_bool :: "bool \<Rightarrow> uint8 list \<Rightarrow> bool option" where
  "FromString_bool strict str =
     (if strict then
        (if str = bytes_of ''1'' then Some True else if str = bytes_of ''0'' then Some False else None)
      else if str = bytes_of ''1'' \<or> StringEqualI str (bytes_of ''y'') \<or> StringEqualI str (bytes_of ''on'')
           \<or> StringEqualI str (bytes_of ''yes'') \<or> StringEqualI str (bytes_of ''true'') then Some True
      else if str = bytes_of ''0'' \<or> StringEqualI str (bytes_of ''n'') \<or> StringEqualI str (bytes_of ''off'')
           \<or> StringEqualI str (bytes_of ''no'') \<or> StringEqualI str (bytes_of ''false'') then Some False
      else None)"

definition ToString_bool :: "bool \<Rightarrow> uint8 list" where
  "ToString_bool val = (if val then bytes_of ''1'' else bytes_of ''0'')"

section \<open>Tokens\<close>

text \<open>The tokens are what lies between the separators.\<close>

fun split_at_sep :: "uint8 \<Rightarrow> uint8 list \<Rightarrow> uint8 list list" where
  "split_at_sep sep [] = [[]]"
| "split_at_sep sep (c # cs) =
     (if c = sep then [] # split_at_sep sep cs
      else (case split_at_sep sep cs of [] \<Rightarrow> [[c]] | t # ts \<Rightarrow> (c # t) # ts))"

fun join_with :: "uint8 \<Rightarrow> uint8 list list \<Rightarrow> uint8 list" where
  "join_with sep [] = []"
| "join_with sep [t] = t"
| "join_with sep (t # ts) = t @ sep # join_with sep ts"

lemma split_at_sep_not_Nil [simp]: "split_at_sep sep s \<noteq> []"
  by (induction s) (auto split: list.split)

lemma split_at_sep_append:
  "sep \<notin> set t \<Longrightarrow> split_at_sep sep (t @ sep # s) = t # split_at_sep sep s"
  by (induction t) auto

lemma split_at_sep_whole: "sep \<notin> set t \<Longrightarrow> split_at_sep sep t = [t]"
  by (induction t) auto

lemma join_split: "join_with sep (split_at_sep sep s) = s"
proof (induction s)
  case (Cons c s)
  obtain t ts where "split_at_sep sep s = t # ts" by (cases "split_at_sep sep s") auto
  then show ?case using Cons by (cases ts) auto
qed simp

lemma split_no_sep: "\<forall>t\<in>set (split_at_sep sep s). sep \<notin> set t"
  by (induction s) (auto split: list.split)

lemma find_from_Some:
  assumes "find_from sep str start = Some e"
  shows "drop start str = substr str start (e - start) @ sep # drop (e + 1) str" "sep \<notin> set (substr str start (e - start))"
proof -
  let ?t = "takeWhile (\<lambda>c. c \<noteq> sep) (drop start str)"
  have e: "e = start + length ?t" "length ?t < length (drop start str)"
    using assms by (auto simp: find_from_def Let_def split: if_splits)
  have "drop start str = ?t @ drop (length ?t) (drop start str)"
    by (metis append_take_drop_id takeWhile_eq_take)
  moreover have "drop (length ?t) (drop start str) = sep # drop (Suc (length ?t)) (drop start str)"
    using nth_length_takeWhile [OF e(2)] Cons_nth_drop_Suc [OF e(2)] by simp
  moreover have "substr str start (e - start) = ?t" using e by (simp add: substr_def takeWhile_eq_take [symmetric])
  ultimately show "drop start str = substr str start (e - start) @ sep # drop (e + 1) str"
      "sep \<notin> set (substr str start (e - start))"
    using e by (auto simp: add.commute dest: set_takeWhileD)
qed

lemma find_from_None:
  assumes "find_from sep str start = None"
  shows "sep \<notin> set (drop start str)"
proof -
  have "length (takeWhile (\<lambda>c. c \<noteq> sep) (drop start str)) \<ge> length (drop start str)"
    using assms by (simp add: find_from_def Let_def split: if_splits)
  then have "takeWhile (\<lambda>c. c \<noteq> sep) (drop start str) = drop start str"
    by (metis length_takeWhile_le le_antisym take_all takeWhile_eq_take)
  then show ?thesis by (metis set_takeWhileD)
qed

lemma tokenize_from_split:
  "tokenize_from str sep keepEmpty start =
     filter (\<lambda>t. keepEmpty \<or> t \<noteq> []) (split_at_sep sep (drop start str))"
proof (induction str sep keepEmpty start rule: tokenize_from.induct)
  case (1 str sep keepEmpty start)
  show ?case
  proof (cases "find_from sep str start")
    case None
    then show ?thesis using find_from_None [OF None]
      by (subst tokenize_from.simps) (auto simp: split_at_sep_whole)
  next
    case (Some e)
    have "substr str start (e - start) = [] \<longleftrightarrow> \<not> start < e"
      using find_from_bound [OF Some] by (auto simp: substr_def)
    then show ?thesis using "1.IH" [OF Some] find_from_Some [OF Some] Some
      by (subst tokenize_from.simps) (auto simp: split_at_sep_append)
  qed
qed

text \<open>
  Tokens lose nothing: keeping empty tokens, joining the tokens of a string with the separator gives
  the string back and no token contains the separator; otherwise the result is the same list without
  its empty tokens.
\<close>

theorem tokenize_roundtrip:
  "join_with sep (Tokenize str sep True) = str \<and> list_all (\<lambda>t. sep \<notin> set t) (Tokenize str sep True) \<and>
   Tokenize str sep False = filter (\<lambda>t. t \<noteq> []) (Tokenize str sep True)"
  by (simp add: Tokenize_def tokenize_from_split join_split split_no_sep list_all_iff)

section \<open>Numbers and their text\<close>

lemma digit_char:
  assumes "d < 10"
  shows "char_digit (0x30 + word_of_nat d) = Some d" "0x30 + word_of_nat d \<noteq> (0x2d :: uint8)"
    "is_digit 10 (0x30 + word_of_nat d)"
proof -
  have u: "unat (0x30 + word_of_nat d :: uint8) = 0x30 + d"
    using assms by (simp add: unat_word_ariths unat_of_nat)
  then show "char_digit (0x30 + word_of_nat d) = Some d" "0x30 + word_of_nat d \<noteq> (0x2d :: uint8)"
    using assms by (auto simp: char_digit_def word_le_nat_alt word_unat_eq_iff)
  then show "is_digit 10 (0x30 + word_of_nat d)" using assms by (simp add: is_digit_def)
qed

lemma dec_digits_facts:
  "list_all (is_digit 10) (dec_digits n) \<and> digits_value 10 (dec_digits n) = n \<and> dec_digits n \<noteq> [] \<and> 0x2d \<notin> set (dec_digits n)"
proof (induction n rule: dec_digits.induct)
  case (1 n)
  show ?case
  proof (cases "n < 10")
    case True
    then show ?thesis using digit_char [OF True] by (subst (1 2 3 4) dec_digits.simps) (auto simp: digits_value_def)
  next
    case False
    have "n mod 10 < 10" by simp
    from digit_char [OF this] "1.IH" [OF False] show ?thesis using False
      by (subst (1 2 3 4) dec_digits.simps) (auto simp: digits_value_def)
  qed
qed

lemma dec_digits_length: "n < 10 ^ k \<Longrightarrow> 0 < k \<Longrightarrow> length (dec_digits n) \<le> k"
proof (induction n arbitrary: k rule: dec_digits.induct)
  case (1 n)
  show ?case
  proof (cases "n < 10")
    case True
    then show ?thesis using "1.prems" by (subst dec_digits.simps) simp
  next
    case False
    then obtain j where j: "k = Suc j" "0 < j" using "1.prems" by (cases k; cases "k - 1") auto
    then have "n div 10 < 10 ^ j" using "1.prems" by (simp add: less_mult_imp_div_less mult.commute)
    then show ?thesis using "1.IH" [OF False _ j(2)] False j by (subst dec_digits.simps) simp
  qed
qed

lemma from_chars_digits:
  assumes "list_all (is_digit base) ds" "ds \<noteq> []" "hd ds \<noteq> 0x2d"
  shows "from_chars T base ds =
      (if int (digits_value base ds) > it_max T \<or> int (digits_value base ds) < it_min T then ResultOutOfRange []
       else Converted (int (digits_value base ds)) [])"
    "it_signed T \<Longrightarrow> from_chars T base (0x2d # ds) =
      (if - int (digits_value base ds) > it_max T \<or> - int (digits_value base ds) < it_min T then ResultOutOfRange []
       else Converted (- int (digits_value base ds)) [])"
proof -
  have tw: "takeWhile (is_digit base) ds = ds" "dropWhile (is_digit base) ds = []"
    using assms(1) by (auto simp: list_all_iff takeWhile_eq_all_conv)
  show "from_chars T base ds =
      (if int (digits_value base ds) > it_max T \<or> int (digits_value base ds) < it_min T then ResultOutOfRange []
       else Converted (int (digits_value base ds)) [])"
    "it_signed T \<Longrightarrow> from_chars T base (0x2d # ds) =
      (if - int (digits_value base ds) > it_max T \<or> - int (digits_value base ds) < it_min T then ResultOutOfRange []
       else Converted (- int (digits_value base ds)) [])"
    using assms(2,3) by (auto simp: from_chars_def Let_def tw)
qed

lemma from_chars_range: "from_chars T base str = Converted w rest \<Longrightarrow> it_min T \<le> w \<and> w \<le> it_max T"
  by (simp add: from_chars_def Let_def split: if_splits)

lemma FromString_int_Converted:
  "FromString_int T base str = Some w \<Longrightarrow> \<exists>b s. from_chars T b s = Converted w []"
  unfolding FromString_int_def Let_def split_beta
  by (simp split: if_splits from_chars_result.splits) blast+

lemma in_range_64:
  assumes "it_width T \<le> 64" "it_min T \<le> v" "v \<le> it_max T"
  shows "- (2 ^ 63) \<le> v" "v < 2 ^ 64" "v < 0 \<Longrightarrow> it_signed T"
proof -
  have p: "(2::int) ^ (it_width T - 1) \<le> 2 ^ 63" "(2::int) ^ it_width T \<le> 2 ^ 64"
    using assms(1) power_increasing [of "it_width T - 1" 63 "2 :: int"] power_increasing [of "it_width T" 64 "2 :: int"]
    by simp_all
  then show "- (2 ^ 63) \<le> v" "v < 2 ^ 64" using assms(2,3) by (auto simp: it_min_def it_max_def split: if_splits)
  show "v < 0 \<Longrightarrow> it_signed T" using assms(2) by (auto simp: it_min_def split: if_splits)
qed

lemma int_string_value:
  assumes "it_width T \<le> 64" "it_min T \<le> v" "v \<le> it_max T"
  shows "\<exists>s. ToString_int v = Inr s \<and> length s \<le> 20 \<and> FromString_int T 10 s = Some v"
proof -
  let ?n = "nat \<bar>v\<bar>"
  let ?s = "if v < 0 then 0x2d # dec_digits ?n else dec_digits ?n"
  have ds: "list_all (is_digit 10) (dec_digits ?n)" "digits_value 10 (dec_digits ?n) = ?n" "dec_digits ?n \<noteq> []"
      "0x2d \<notin> set (dec_digits ?n)"
    using dec_digits_facts [of ?n] by auto
  have hd: "hd (dec_digits ?n) \<noteq> 0x2d" using ds(3,4) hd_in_set by metis
  have r: "- (2 ^ 63) \<le> v" "v < 2 ^ 64" "v < 0 \<Longrightarrow> it_signed T" using in_range_64 [OF assms] by auto
  have "?n < 10 ^ 20" "v < 0 \<Longrightarrow> ?n < 10 ^ 19" using r(1,2) by auto
  then have len: "length ?s \<le> 20" using dec_digits_length [of ?n 20] dec_digits_length [of ?n 19] by auto
  then have "ToString_int v = Inr ?s" by (simp add: ToString_int_def to_chars_def Let_def split: if_splits)
  moreover have "FromString_int T 10 ?s = Some v"
    using from_chars_digits [OF ds(1,3) hd, of T] ds(2) assms(2,3) r(3) by (auto simp: FromString_int_def)
  ultimately show "\<exists>s. ToString_int v = Inr s \<and> length s \<le> 20 \<and> FromString_int T 10 s = Some v" using len by blast
qed

text \<open>
  Integers survive their text: for every integral type of at most 64 bits, the 20 characters of the
  buffer are enough for every value (the assertion holds), and the text converts back to the value.
  What converts at all lies within the range of the type.
\<close>

theorem int_string_roundtrip:
  assumes "it_width T \<le> 64" "it_min T \<le> v" "v \<le> it_max T"
  shows "(\<exists>s. ToString_int v = Inr s \<and> length s \<le> 20 \<and> FromString_int T 10 s = Some v) \<and>
    (FromString_int T base str = Some w \<longrightarrow> it_min T \<le> w \<and> w \<le> it_max T)"
  using int_string_value [OF assms] FromString_int_Converted from_chars_range by blast

theorem int_string_roundtrip_witness:
  "\<exists>s. ToString_int (- 128) = Inr s \<and> FromString_int \<lparr>it_signed = True, it_width = 8\<rparr> 10 s = Some (- 128)"
  using int_string_roundtrip [of "\<lparr>it_signed = True, it_width = 8\<rparr>" "- 128" 10 "[]" 0] by (auto simp: it_min_def it_max_def)

lemma bool_string_roundtrip: "FromString_bool strict (ToString_bool b) = Some b"
proof -
  have "\<forall>strict b. FromString_bool strict (ToString_bool b) = Some b" by code_simp
  then show ?thesis by blast
qed

section \<open>Trimmed text\<close>

lemma trim_pos_take: "n \<le> length str \<Longrightarrow> take (trim_pos str n) str = rev (dropWhile c_isspace (rev (take n str)))"
  by (induction n) (auto simp: take_Suc_conv_app_nth)

lemma TrimRightInPlace_eq: "TrimRightInPlace str = rev (dropWhile c_isspace (rev str))"
  by (simp add: TrimRightInPlace_def trim_pos_take)

lemma hd_dropWhile_not: "dropWhile P xs \<noteq> [] \<Longrightarrow> \<not> P (hd (dropWhile P xs))"
  by (induction xs) auto

lemma Trim_ends: "Trim s \<noteq> [] \<Longrightarrow> \<not> c_isspace (hd (Trim s)) \<and> \<not> c_isspace (last (Trim s))"
proof -
  assume ne: "Trim s \<noteq> []"
  define t where "t = dropWhile c_isspace s"
  have t: "t \<noteq> []" using ne by (auto simp: Trim_def t_def Let_def split: if_splits)
  then have hd: "\<not> c_isspace (hd t)" unfolding t_def by (rule hd_dropWhile_not)
  have eq: "Trim s = rev (dropWhile c_isspace (rev t))" using t by (simp add: Trim_def t_def [symmetric] Let_def)
  have "\<not> c_isspace (last (Trim s))"
    using ne hd_dropWhile_not [of c_isspace "rev t"] by (simp add: eq last_rev)
  moreover have "t = Trim s @ rev (takeWhile c_isspace (rev t))"
    unfolding eq by (metis rev_append rev_rev_ident takeWhile_dropWhile_id)
  then have "hd t = hd (Trim s)" using ne by (metis hd_append2)
  ultimately show ?thesis using hd by simp
qed

lemma Trim_idem: "Trim (Trim s) = Trim s"
proof (cases "Trim s = []")
  case False
  from Trim_ends [OF this] have "dropWhile c_isspace (Trim s) = Trim s" "dropWhile c_isspace (rev (Trim s)) = rev (Trim s)"
    using False by (metis dropWhile_eq_self_iff, metis dropWhile_eq_self_iff hd_rev)
  then show ?thesis using False by (simp add: Trim_def [of "Trim s"])
qed (simp add: Trim_def)

end
