(* ===== verification/KeyedStore.thy ===== *)
theory KeyedStore
  imports Main
begin

text \<open>
  The hash maps of the program, as lists of entries in iteration order, and the interface their users
  rely on. Sessions, accounts, bans, guilds and options are kept in such maps.
\<close>

section \<open>Hash maps\<close>

definition um_find :: "'k \<Rightarrow> ('k \<times> 'v) list \<Rightarrow> 'v option" where
  "um_find k m = map_of m k"

definition um_erase :: "'k \<Rightarrow> ('k \<times> 'v) list \<Rightarrow> ('k \<times> 'v) list" where
  "um_erase k m = filter (\<lambda>(k', _). k' \<noteq> k) m"

text \<open>\<open>emplace\<close> does nothing when the key is there.\<close>

definition um_emplace :: "'k \<Rightarrow> 'v \<Rightarrow> ('k \<times> 'v) list \<Rightarrow> ('k \<times> 'v) list" where
  "um_emplace k v m = (if um_find k m = None then m @ [(k, v)] else m)"

definition um_modify :: "'k \<Rightarrow> ('v \<Rightarrow> 'v) \<Rightarrow> ('k \<times> 'v) list \<Rightarrow> ('k \<times> 'v) list" where
  "um_modify k f m = map (\<lambda>(k', v). (k', if k' = k then f v else v)) m"

text \<open>What the users of a hash map rely on.\<close>

locale keyed_store =
  fixes lookup :: "'m \<Rightarrow> 'k \<Rightarrow> 'v option" and erase :: "'k \<Rightarrow> 'm \<Rightarrow> 'm"
    and emplace :: "'k \<Rightarrow> 'v \<Rightarrow> 'm \<Rightarrow> 'm"
  assumes lookup_erase: "lookup (erase k m) k' = (if k' = k then None else lookup m k')"
    and lookup_emplace: "lookup (emplace k v m) k' =
      (if k' = k \<and> lookup m k = None then Some v else lookup m k')"
begin

text \<open>Erase, then emplace: the entry is replaced and the others stay.\<close>

definition replace_entry :: "'k \<Rightarrow> 'v \<Rightarrow> 'm \<Rightarrow> 'm" where
  "replace_entry k v m = emplace k v (erase k m)"

lemma lookup_replace: "lookup (replace_entry k v m) k' = (if k' = k then Some v else lookup m k')"
  by (simp add: replace_entry_def lookup_emplace lookup_erase)

lemma emplace_twice: "lookup (emplace k w (emplace k v m)) = lookup (emplace k v m)"
  by (rule ext) (simp add: lookup_emplace)

end

lemma um_find_erase: "um_find k' (um_erase k m) = (if k' = k then None else um_find k' m)"
  by (induction m) (auto simp: um_find_def um_erase_def)

lemma um_find_emplace:
  "um_find k' (um_emplace k v m) = (if k' = k \<and> um_find k m = None then Some v else um_find k' m)"
  by (auto simp: um_emplace_def um_find_def map_add_def split: option.splits)

interpretation um: keyed_store "\<lambda>m k. um_find k m" um_erase um_emplace
  by unfold_locales (rule um_find_erase um_find_emplace)+

lemma um_find_modify: "um_find k' (um_modify k f m) = (if k' = k then map_option f (um_find k m) else um_find k' m)"
  by (induction m) (auto simp: um_find_def um_modify_def)

lemma um_keys [simp]:
  "map fst (um_modify k f m) = map fst m" "map fst (um_erase k m) = filter (\<lambda>k'. k' \<noteq> k) (map fst m)"
  by (induction m) (auto simp: um_modify_def um_erase_def)

lemma um_modify_set: "x \<in> set (um_modify k f m) \<longleftrightarrow> (\<exists>(k', v)\<in>set m. x = (k', if k' = k then f v else v))"
  by (auto simp: um_modify_def image_iff split_beta)

lemma um_erase_set: "set (um_erase k m) = {(k', v) \<in> set m. k' \<noteq> k}"
  by (auto simp: um_erase_def)

lemma um_find_None: "um_find k m = None \<longleftrightarrow> k \<notin> fst ` set m"
  by (simp add: um_find_def map_of_eq_None_iff)

lemma um_erase_modify [simp]: "um_erase k (um_modify k f m) = um_erase k m"
  by (induction m) (auto simp: um_erase_def um_modify_def)

lemma um_erase_absent: "um_find k m = None \<Longrightarrow> um_erase k m = m"
  by (induction m) (auto simp: um_erase_def um_find_def split: if_splits)

lemma um_find_replace: "um_find k' (um.replace_entry k v m) = (if k' = k then Some v else um_find k' m)"
  using um.lookup_replace [of k' k v m] by simp

lemma um_find_filter_map:
  "distinct (map fst m) \<Longrightarrow>
     um_find k (map (map_prod id f) (filter (\<lambda>(_, v). P v) m)) =
       (case um_find k m of None \<Rightarrow> None | Some v \<Rightarrow> if P v then Some (f v) else None)"
  by (induction m) (auto simp: um_find_def map_of_eq_None_iff image_iff split: option.splits)

end
