(* ===== verification/Config.thy ===== *)
theory Config
  imports Convert KeyedStore
begin

text \<open>
  Configuration: the files and options of \<open>src/src/common/Configuration/Config.cpp\<close> and the typed cache
  of \<open>src/src/server/Config/DiscordConfig.cpp\<close>. A file is the list of its bytes, or \<open>None\<close> when it
  cannot be opened; a line that cannot be read is not modelled. Messages are left out, and so are
  options of type \<open>float\<close>. The switch \<open>CONFIG_ABORT_INCORRECT_OPTIONS\<close> is off, as in the build files.
\<close>

section \<open>Reading a file\<close>

definition contains :: "uint8 list \<Rightarrow> uint8 list \<Rightarrow> bool" where
  "contains needle hay = list_ex (\<lambda>i. substr hay i (length needle) = needle) [0..<Suc (length hay)]"

definition IsLoggingSystemOptions :: "uint8 list \<Rightarrow> bool" where
  "IsLoggingSystemOptions optionName \<longleftrightarrow>
     contains (bytes_of ''LogChannel.'') optionName \<or> contains (bytes_of ''Logger.'') optionName"

type_synonym options = "(uint8 list \<times> uint8 list) list"

definition AddKey :: "bool \<Rightarrow> bool \<Rightarrow> uint8 list \<Rightarrow> uint8 list \<Rightarrow> options \<Rightarrow> options" where
  "AddKey isOptional isReload optionName optionKey opts =
     (if isOptional \<and> um_find optionName opts = None \<and> \<not> IsLoggingSystemOptions optionName \<and> \<not> isReload then opts
      else
        (let opts1 = (if um_find optionName opts \<noteq> None then um_erase optionName opts else opts)
         in um_emplace optionName optionKey opts1))"

text \<open>One pass of the loop over the lines.\<close>

datatype config_line = SkipLine | BadLine | OptionLine "uint8 list" "uint8 list"

definition parse_line :: "uint8 list \<Rightarrow> config_line" where
  "parse_line raw =
     (let line = Trim raw in
      if line = [] then SkipLine
      else if hd line = 0x23 \<or> hd line = 0x5b then SkipLine
      else
        (let line1 = takeWhile (\<lambda>c. c \<noteq> 0x23) line in
         if 0x3d \<notin> set line1 then BadLine
         else
           (let entry = Trim (takeWhile (\<lambda>c. c \<noteq> 0x3d) line1);
                val = Trim (tl (dropWhile (\<lambda>c. c \<noteq> 0x3d) line1))
            in OptionLine entry (filter (\<lambda>c. c \<noteq> 0x22) val))))"

fun read_lines :: "uint8 list list \<Rightarrow> options \<Rightarrow> options" where
  "read_lines [] fileConfigs = fileConfigs"
| "read_lines (l # ls) fileConfigs =
     (case parse_line l of
        OptionLine entry val \<Rightarrow>
          if um_find entry fileConfigs \<noteq> None then read_lines ls fileConfigs
          else read_lines ls (um_emplace entry val fileConfigs)
      | _ \<Rightarrow> read_lines ls fileConfigs)"

datatype config_exception = FailedOpen | EmptyFile

definition ParseFile ::
  "uint8 list option \<Rightarrow> bool \<Rightarrow> bool \<Rightarrow> options \<Rightarrow> config_exception + (bool \<times> options)" where
  "ParseFile file isOptional isReload opts =
     (case file of
        None \<Rightarrow> if isOptional then Inr (False, opts) else Inl FailedOpen
      | Some content \<Rightarrow>
          (let fileConfigs = read_lines (split_at_sep 0x0a content) [] in
           if fileConfigs = [] then (if isOptional then Inr (False, opts) else Inl EmptyFile)
           else Inr (True, foldl (\<lambda>opts (entry, key). AddKey isOptional isReload entry key opts) opts fileConfigs)))"

definition LoadFile :: "uint8 list option \<Rightarrow> bool \<Rightarrow> bool \<Rightarrow> options \<Rightarrow> bool \<times> options" where
  "LoadFile file isOptional isReload opts =
     (case ParseFile file isOptional isReload opts of Inl e \<Rightarrow> (False, opts) | Inr r \<Rightarrow> r)"

section \<open>ConfigMgr\<close>

record config_mgr =
  cm_filename :: "uint8 list"
  cm_configOptions :: options
  cm_usingDistConfig :: bool

definition LoadInitial :: "uint8 list option \<Rightarrow> bool \<Rightarrow> config_mgr \<Rightarrow> bool \<times> config_mgr" where
  "LoadInitial file isReload m =
     (let (ok, opts) = LoadFile file False isReload [] in (ok, m\<lparr>cm_configOptions := opts\<rparr>))"

definition LoadAdditionalFile :: "uint8 list option \<Rightarrow> bool \<Rightarrow> bool \<Rightarrow> config_mgr \<Rightarrow> bool \<times> config_mgr" where
  "LoadAdditionalFile file isOptional isReload m =
     (let (ok, opts) = LoadFile file isOptional isReload (cm_configOptions m) in (ok, m\<lparr>cm_configOptions := opts\<rparr>))"

definition LoadAppConfigs :: "(uint8 list \<Rightarrow> uint8 list option) \<Rightarrow> uint8 list \<Rightarrow> config_mgr \<Rightarrow> bool \<times> config_mgr" where
  "LoadAppConfigs files initFileName m =
     (let m1 = m\<lparr>cm_filename := initFileName\<rparr>;
          (ok, m2) = LoadInitial (files (initFileName @ bytes_of ''.dist'')) False m1
      in if \<not> ok then (False, m2)
         else
           (let (ok2, m3) = LoadAdditionalFile (files initFileName) True False m2
            in (True, if \<not> ok2 then m3\<lparr>cm_usingDistConfig := True\<rparr> else m3)))"

definition GetFilename :: "config_mgr \<Rightarrow> uint8 list" where
  "GetFilename m = (if cm_usingDistConfig m then cm_filename m @ bytes_of ''.dist'' else cm_filename m)"

definition GetKeysByString :: "uint8 list \<Rightarrow> config_mgr \<Rightarrow> uint8 list list" where
  "GetKeysByString name m =
     map fst (filter (\<lambda>(optionName, _). substr optionName 0 (length name) = name) (cm_configOptions m))"

text \<open>\<open>GetValueDefault\<close> for a type with the conversion \<open>conv\<close>, and its specialisation for strings.\<close>

definition GetValueDefault :: "(uint8 list \<Rightarrow> 'a option) \<Rightarrow> uint8 list \<Rightarrow> 'a \<Rightarrow> config_mgr \<Rightarrow> 'a" where
  "GetValueDefault conv name def m =
     (case um_find name (cm_configOptions m) of
        None \<Rightarrow> def
      | Some s \<Rightarrow> (case conv s of None \<Rightarrow> def | Some v \<Rightarrow> v))"

definition GetValueDefault_string :: "uint8 list \<Rightarrow> uint8 list \<Rightarrow> config_mgr \<Rightarrow> uint8 list" where
  "GetValueDefault_string name def m =
     (case um_find name (cm_configOptions m) of None \<Rightarrow> def | Some s \<Rightarrow> s)"

definition cm_GetOption_int :: "int_type \<Rightarrow> uint8 list \<Rightarrow> int \<Rightarrow> config_mgr \<Rightarrow> int" where
  "cm_GetOption_int T name def m = GetValueDefault (FromString_int T 10) name def m"

definition cm_GetOption_bool :: "uint8 list \<Rightarrow> bool \<Rightarrow> config_mgr \<Rightarrow> bool" where
  "cm_GetOption_bool name def m =
     (case FromString_bool False (GetValueDefault_string name (ToString_bool def) m) of
        None \<Rightarrow> def | Some b \<Rightarrow> b)"

section \<open>DiscordConfig\<close>

datatype option_type = OptBool | OptInt int_type | OptString
datatype option_value = BoolValue bool | IntValue int | StringValue "uint8 list"

fun GetDefaultValue :: "option_type \<Rightarrow> option_value" where
  "GetDefaultValue OptBool = BoolValue False"
| "GetDefaultValue (OptInt T) = IntValue 0"
| "GetDefaultValue OptString = StringValue []"

text \<open>The text of a value as \<open>fmt\<close> writes it, and as \<open>ToString\<close> writes it.\<close>

fun fmt_value :: "option_value \<Rightarrow> uint8 list" where
  "fmt_value (BoolValue b) = (if b then bytes_of ''true'' else bytes_of ''false'')"
| "fmt_value (IntValue v) = (if v < 0 then 0x2d # dec_digits (nat (- v)) else dec_digits (nat v))"
| "fmt_value (StringValue s) = s"

definition GetDefaultValueString :: "option_type \<Rightarrow> option_value option \<Rightarrow> uint8 list" where
  "GetDefaultValueString T def = fmt_value (case def of None \<Rightarrow> GetDefaultValue T | Some v \<Rightarrow> v)"

fun option_StringTo :: "option_type \<Rightarrow> uint8 list \<Rightarrow> option_value option" where
  "option_StringTo OptBool s = map_option BoolValue (FromString_bool False s)"
| "option_StringTo (OptInt T) s = map_option IntValue (FromString_int T 10 s)"
| "option_StringTo OptString s = Some (StringValue s)"

fun option_ToString :: "option_value \<Rightarrow> uint8 list res" where
  "option_ToString (BoolValue b) = Inr (ToString_bool b)"
| "option_ToString (IntValue v) = ToString_int v"
| "option_ToString (StringValue s) = Inr s"

definition AddOption :: "config_mgr \<Rightarrow> option_type \<Rightarrow> uint8 list \<Rightarrow> option_value option \<Rightarrow> options \<Rightarrow> options" where
  "AddOption m T option def opts =
     (let opts1 = (if um_find option opts \<noteq> None then um_erase option opts else opts)
      in um_emplace option (GetValueDefault_string option (GetDefaultValueString T def) m) opts1)"

definition AddOptions :: "config_mgr \<Rightarrow> uint8 list list \<Rightarrow> options \<Rightarrow> options" where
  "AddOptions m optionList opts = foldl (\<lambda>opts option. AddOption m OptString option None opts) opts optionList"

definition GetOption ::
  "config_mgr \<Rightarrow> option_type \<Rightarrow> uint8 list \<Rightarrow> option_value option \<Rightarrow> options \<Rightarrow> option_value \<times> options" where
  "GetOption m T option def opts =
     (let opts1 = (if um_find option opts = None then AddOption m T option def opts else opts)
      in case um_find option opts1 of
           None \<Rightarrow> (GetDefaultValue T, opts1)
         | Some s \<Rightarrow>
             (case option_StringTo T s of
                None \<Rightarrow> (GetDefaultValue T, opts1)
              | Some v \<Rightarrow> (v, opts1)))"

definition SetOption :: "uint8 list \<Rightarrow> option_value \<Rightarrow> options \<Rightarrow> options res" where
  "SetOption option val opts =
     (if um_find option opts = None then Inr opts
      else bindr (option_ToString val) (\<lambda>s. Inr (um_emplace option s (um_erase option opts))))"

section \<open>Two layers of files\<close>

text \<open>What a file says about an option: its first definition.\<close>

definition file_option :: "uint8 list option \<Rightarrow> uint8 list \<Rightarrow> uint8 list option" where
  "file_option file name =
     (case file of None \<Rightarrow> None
      | Some content \<Rightarrow> map_of (concat (map (\<lambda>l. case parse_line l of OptionLine entry val \<Rightarrow> [(entry, val)] | _ \<Rightarrow> [])
          (split_at_sep 0x0a content))) name)"

lemma read_lines_find:
  "um_find name (read_lines ls acc) =
     (case um_find name acc of Some v \<Rightarrow> Some v
      | None \<Rightarrow> map_of (concat (map (\<lambda>l. case parse_line l of OptionLine entry val \<Rightarrow> [(entry, val)] | _ \<Rightarrow> []) ls)) name)"
  by (induction ls acc rule: read_lines.induct)
    (auto simp: um_find_emplace split: option.splits config_line.splits)

lemma read_lines_distinct: "distinct (map fst acc) \<Longrightarrow> distinct (map fst (read_lines ls acc))"
  by (induction ls acc rule: read_lines.induct)
    (auto simp: um_emplace_def um_find_None split: config_line.splits)

lemma AddKey_find:
  "um_find n (AddKey isOptional isReload k v opts) =
     (if n \<noteq> k then um_find n opts
      else if isOptional \<and> um_find n opts = None \<and> \<not> IsLoggingSystemOptions n \<and> \<not> isReload then None else Some v)"
  by (auto simp: AddKey_def Let_def um_find_emplace um_find_erase)

lemma AddKeys_find:
  "distinct (map fst es) \<Longrightarrow>
   um_find n (foldl (\<lambda>opts (entry, key). AddKey isOptional isReload entry key opts) opts es) =
     (case map_of es n of None \<Rightarrow> um_find n opts
      | Some v \<Rightarrow> if isOptional \<and> um_find n opts = None \<and> \<not> IsLoggingSystemOptions n \<and> \<not> isReload then None else Some v)"
proof (induction es arbitrary: opts)
  case (Cons e es)
  obtain k v where e: "e = (k, v)" by (cases e)
  have "k = n \<Longrightarrow> map_of es n = None" using Cons.prems by (simp add: e map_of_eq_None_iff)
  then show ?case using Cons by (cases "k = n") (auto simp: e AddKey_find split: option.splits)
qed simp

lemma LoadFile_find:
  assumes "LoadFile file isOptional isReload opts = (ok, opts')"
  shows "um_find n opts' =
     (case file_option file n of None \<Rightarrow> um_find n opts
      | Some v \<Rightarrow> if isOptional \<and> um_find n opts = None \<and> \<not> IsLoggingSystemOptions n \<and> \<not> isReload then None else Some v)"
    "ok \<longleftrightarrow> (\<exists>k. file_option file k \<noteq> None)"
proof -
  show find: "um_find n opts' =
     (case file_option file n of None \<Rightarrow> um_find n opts
      | Some v \<Rightarrow> if isOptional \<and> um_find n opts = None \<and> \<not> IsLoggingSystemOptions n \<and> \<not> isReload then None else Some v)"
  proof (cases "file")
    case None
    then show ?thesis using assms by (auto simp: LoadFile_def ParseFile_def file_option_def split: if_splits)
  next
    case (Some content)
    let ?es = "read_lines (split_at_sep 0x0a content) []"
    have es: "map_of ?es n = file_option file n" for n
      using read_lines_find [of n "split_at_sep 0x0a content" "[]"] by (simp add: Some file_option_def um_find_def)
    have "distinct (map fst ?es)" by (rule read_lines_distinct) simp
    then show ?thesis
      using AddKeys_find [of ?es n isOptional isReload opts] assms es [of n]
      by (auto simp: LoadFile_def ParseFile_def Some Let_def split: if_splits)
  qed
  show "ok \<longleftrightarrow> (\<exists>k. file_option file k \<noteq> None)"
  proof (cases "file")
    case None
    then show ?thesis using assms by (auto simp: LoadFile_def ParseFile_def file_option_def split: if_splits)
  next
    case (Some content)
    let ?es = "read_lines (split_at_sep 0x0a content) []"
    have es: "map_of ?es n = file_option file n" for n
      using read_lines_find [of n "split_at_sep 0x0a content" "[]"] by (simp add: Some file_option_def um_find_def)
    have "?es \<noteq> [] \<longleftrightarrow> (\<exists>k. map_of ?es k \<noteq> None)"
      by (cases ?es) (auto simp: map_of_eq_None_iff)
    then show ?thesis using assms es by (auto simp: LoadFile_def ParseFile_def Some Let_def split: if_splits)
  qed
qed

text \<open>
  C22. The two layers of configuration: loading succeeds exactly when the \<open>.dist\<close> file defines an option.
  Then an option has the value of its first definition in the file without \<open>.dist\<close>, provided the
  \<open>.dist\<close> file defines it too or it is a logging option, and otherwise that of the \<open>.dist\<close> file; options
  that neither file defines are missing. The \<open>.dist\<close> file is reported as the one in use exactly when the
  other defines nothing.
\<close>

theorem config_layers:
  assumes "LoadAppConfigs files f m = (ok, m')"
  shows "(ok \<longleftrightarrow> (\<exists>k. file_option (files (f @ bytes_of ''.dist'')) k \<noteq> None)) \<and>
    (ok \<longrightarrow> um_find n (cm_configOptions m') =
      (let dist = file_option (files (f @ bytes_of ''.dist'')) n in
       case file_option (files f) n of
         None \<Rightarrow> dist
       | Some v \<Rightarrow> if dist = None \<and> \<not> IsLoggingSystemOptions n then None else Some v)) \<and>
    (ok \<and> \<not> cm_usingDistConfig m \<longrightarrow>
       GetFilename m' = (if \<exists>k. file_option (files f) k \<noteq> None then f else f @ bytes_of ''.dist''))"
proof -
  obtain ok1 o1 where l1: "LoadFile (files (f @ bytes_of ''.dist'')) False False [] = (ok1, o1)" by fastforce
  obtain ok2 o2 where l2: "LoadFile (files f) True False o1 = (ok2, o2)" by fastforce
  note f1 = LoadFile_find [OF l1] note f2 = LoadFile_find [OF l2]
  have r: "ok = ok1" "ok \<Longrightarrow> cm_configOptions m' = o2"
      "ok \<Longrightarrow> GetFilename m' = (if ok2 \<and> \<not> cm_usingDistConfig m then f else f @ bytes_of ''.dist'')"
    using assms l1 l2 by (auto simp: LoadAppConfigs_def LoadInitial_def LoadAdditionalFile_def GetFilename_def Let_def split: if_splits)
  show ?thesis using r f1(1) [of n] f1(2) f2(1) [of n] f2(2)
    by (auto simp: um_find_def Let_def split: option.splits)
qed

theorem config_layers_witness:
  "\<exists>m'. LoadAppConfigs
      (\<lambda>f. if f = bytes_of ''d.dist'' then Some (bytes_of ''A = 1 # one'') else if f = bytes_of ''d'' then Some (bytes_of ''A=2'') else None)
      (bytes_of ''d'') \<lparr>cm_filename = [], cm_configOptions = [], cm_usingDistConfig = False\<rparr> = (True, m') \<and>
    um_find (bytes_of ''A'') (cm_configOptions m') = Some (bytes_of ''2'')"
proof -
  let ?fs = "\<lambda>f. if f = bytes_of ''d.dist'' then Some (bytes_of ''A = 1 # one'') else if f = bytes_of ''d'' then Some (bytes_of ''A=2'') else None"
  let ?m = "\<lparr>cm_filename = [], cm_configOptions = [], cm_usingDistConfig = False\<rparr>"
  obtain ok m' where l: "LoadAppConfigs ?fs (bytes_of ''d'') ?m = (ok, m')" by fastforce
  have n: "bytes_of ''d'' @ bytes_of ''.dist'' = bytes_of ''d.dist''" "bytes_of ''d'' \<noteq> bytes_of ''d.dist''"
      "file_option (Some (bytes_of ''A = 1 # one'')) (bytes_of ''A'') = Some (bytes_of ''1'')"
      "file_option (Some (bytes_of ''A=2'')) (bytes_of ''A'') = Some (bytes_of ''2'')"
    by code_simp+
  have c: "(ok \<longleftrightarrow> (\<exists>k. file_option (Some (bytes_of ''A = 1 # one'')) k \<noteq> None)) \<and>
      (ok \<longrightarrow> um_find (bytes_of ''A'') (cm_configOptions m') = Some (bytes_of ''2''))"
    using config_layers [OF l, of "bytes_of ''A''"] by (simp add: n Let_def)
  then have ok using n(3) by (metis option.distinct(1))
  then show ?thesis using l c by simp
qed

section \<open>Cached options\<close>

text \<open>The values of a type.\<close>

fun option_value_ok :: "option_type \<Rightarrow> option_value \<Rightarrow> bool" where
  "option_value_ok OptBool (BoolValue b) = True"
| "option_value_ok (OptInt T) (IntValue v) \<longleftrightarrow> it_width T \<le> 64 \<and> it_min T \<le> v \<and> v \<le> it_max T"
| "option_value_ok OptString (StringValue s) = True"
| "option_value_ok T v = False"

lemma fmt_bool_roundtrip: "FromString_bool False (fmt_value (BoolValue b)) = Some b"
proof -
  have "\<forall>b. FromString_bool False (fmt_value (BoolValue b)) = Some b" by code_simp
  then show ?thesis by blast
qed

lemma ToString_int_fmt: "ToString_int v = Inr s \<Longrightarrow> s = fmt_value (IntValue v)"
  by (auto simp: ToString_int_def to_chars_def Let_def split: if_splits option.splits)

lemma option_ToString_ok:
  assumes "option_value_ok T v"
  shows "\<exists>s. option_ToString v = Inr s \<and> option_StringTo T s = Some v"
  using assms int_string_value by (cases "(T, v)" rule: option_value_ok.cases) (auto simp: bool_string_roundtrip)

lemma option_fmt_ok:
  assumes "option_value_ok T v"
  shows "option_StringTo T (fmt_value v) = Some v"
  using assms int_string_value
  by (cases "(T, v)" rule: option_value_ok.cases) (auto simp: fmt_bool_roundtrip simp del: fmt_value.simps(1,2) dest: ToString_int_fmt)

text \<open>
  Options keep their values: setting a known option to a value of its type and reading it back
  gives the value and leaves every other option as it was; setting an unknown option changes nothing.
  Reading an option that neither the cache nor the files know returns the caller's default and caches it,
  so that a later read gives it too, whatever default it is given.
\<close>

theorem option_roundtrip:
  assumes "option_value_ok T v"
  shows "(um_find option opts \<noteq> None \<longrightarrow>
      (\<exists>opts'. SetOption option v opts = Inr opts' \<and> GetOption m T option def opts' = (v, opts') \<and>
         (\<forall>other. other \<noteq> option \<longrightarrow> um_find other opts' = um_find other opts))) \<and>
    (um_find option opts = None \<longrightarrow> SetOption option w opts = Inr opts) \<and>
    (um_find option opts = None \<and> um_find option (cm_configOptions m) = None \<longrightarrow>
      (\<exists>opts'. GetOption m T option (Some v) opts = (v, opts') \<and> GetOption m T option def' opts' = (v, opts')))"
proof -
  obtain s where "option_ToString v = Inr s" "option_StringTo T s = Some v" using option_ToString_ok [OF assms] by blast
  then show ?thesis using option_fmt_ok [OF assms]
    by (auto simp: SetOption_def GetOption_def AddOption_def GetValueDefault_string_def GetDefaultValueString_def
        um_find_emplace um_find_erase Let_def)
qed

theorem option_roundtrip_witness:
  "\<exists>opts'. GetOption \<lparr>cm_filename = [], cm_configOptions = [], cm_usingDistConfig = False\<rparr> OptBool [0x61]
      (Some (BoolValue True)) [] = (BoolValue True, opts')"
  using option_roundtrip [of OptBool "BoolValue True" "[0x61]" "[]" "\<lparr>cm_filename = [], cm_configOptions = [], cm_usingDistConfig = False\<rparr>"]
  by (auto simp: um_find_def)

end
