(* ===== verification/IPLocation.thy ===== *)
theory IPLocation
  imports Config "HOL-Library.Multiset" "HOL-Library.Monad_Syntax"
begin

text \<open>
  The database of countries by address ranges: \<open>src/src/common/IPLocation/IPLocation.cpp\<close>.
  Files are read as in \<open>Config\<close>. \<open>std::sort\<close> is not stable, so the order it gives to records that
  start at the same address is left open: the sorting function is an argument. The conversion of
  an address's text by \<open>boost::asio\<close> is an argument too; it throws on a bad address (\<open>None\<close>).
\<close>

section \<open>Loading\<close>

record IpLocationRecord =
  IpFrom :: uint32
  IpTo :: uint32
  CountryCode :: "uint8 list"
  CountryName :: "uint8 list"

text \<open>\<open>std::getline\<close>: the text up to the delimiter, which is taken away; it fails at the end of the file.\<close>

definition getline :: "uint8 \<Rightarrow> uint8 list \<Rightarrow> (uint8 list \<times> uint8 list) option" where
  "getline delim rest =
     (if rest = [] then None
      else Some (takeWhile (\<lambda>c. c \<noteq> delim) rest, tl (dropWhile (\<lambda>c. c \<noteq> delim) rest)))"

lemma getline_length: "getline delim rest = Some (s, rest') \<Longrightarrow> length rest' < length rest"
proof -
  have "length (tl (dropWhile P xs)) < length xs" if "xs \<noteq> []" for P and xs :: "uint8 list"
    unfolding length_tl using that length_dropWhile_le [of P xs] length_greater_0_conv [of xs] by linarith
  then show "getline delim rest = Some (s, rest') \<Longrightarrow> length rest' < length rest"
    by (auto simp: getline_def split: if_splits)
qed

definition remove_char :: "uint8 \<Rightarrow> uint8 list \<Rightarrow> uint8 list" where
  "remove_char c s = filter (\<lambda>x. x \<noteq> c) s"

definition uint32_type :: int_type where
  "uint32_type = \<lparr>it_signed = False, it_width = 32\<rparr>"

definition make_record :: "uint8 list \<Rightarrow> uint8 list \<Rightarrow> uint8 list \<Rightarrow> uint8 list \<Rightarrow> IpLocationRecord option" where
  "make_record ipFrom ipTo countryCode countryName =
     (let countryName = remove_char 0x0a (remove_char 0x0d countryName);
          ipFrom = remove_char 0x22 ipFrom;
          ipTo = remove_char 0x22 ipTo;
          countryCode = remove_char 0x22 countryCode;
          countryName = remove_char 0x22 countryName;
          countryCode = map c_tolower countryCode
      in case (FromString_int uint32_type 10 ipFrom, FromString_int uint32_type 10 ipTo) of
           (Some a, Some b) \<Rightarrow>
             Some \<lparr>IpFrom = word_of_int a, IpTo = word_of_int b, CountryCode = countryCode, CountryName = countryName\<rparr>
         | _ \<Rightarrow> None)"

text \<open>
  One pass of the loop, which ends when a line is cut short. The test \<open>good()\<close> fails only at the end of
  the file, where the first \<open>getline\<close> fails as well.
\<close>

definition read_fields :: "uint8 list \<Rightarrow> (IpLocationRecord option \<times> uint8 list) option" where
  "read_fields s =
     do { (ipFrom, s) \<leftarrow> getline 0x2c s;
          (ipTo, s) \<leftarrow> getline 0x2c s;
          (countryCode, s) \<leftarrow> getline 0x2c s;
          (countryName, s) \<leftarrow> getline 0x0a s;
          Some (make_record ipFrom ipTo countryCode countryName, s) }"

lemma read_fields_length: "read_fields s = Some (r, s') \<Longrightarrow> length s' < length s"
  by (auto simp: read_fields_def split: Option.bind_splits dest!: getline_length)

function read_records :: "uint8 list \<Rightarrow> IpLocationRecord list" where
  "read_records s =
     (case read_fields s of
        None \<Rightarrow> []
      | Some (None, s') \<Rightarrow> read_records s'
      | Some (Some r, s') \<Rightarrow> r # read_records s')"
  by pat_completeness auto
termination by (relation "measure length") (auto dest: read_fields_length)

declare read_records.simps [simp del]

fun not_overlapping :: "IpLocationRecord list \<Rightarrow> bool" where
  "not_overlapping (a # b # rs) = (\<not> IpFrom b < IpTo a \<and> not_overlapping (b # rs))"
| "not_overlapping rs = True"

definition Load ::
  "(IpLocationRecord list \<Rightarrow> IpLocationRecord list) \<Rightarrow> (uint8 list \<Rightarrow> uint8 list option) \<Rightarrow> config_mgr \<Rightarrow>
     IpLocationRecord list res" where
  "Load std_sort files config =
     (let databaseFilePath = GetValueDefault_string (bytes_of ''IPLocationFile'') [] config in
      if databaseFilePath = [] then Inr []
      else
        (case files databaseFilePath of
           None \<Rightarrow> Inr []
         | Some content \<Rightarrow>
             (let store = std_sort (read_records content) in
              if not_overlapping store then Inr store
              else Inl (AssertFailure ''Overlapping IP ranges detected in database file''))))"

section \<open>Looking up an address\<close>

text \<open>\<open>std::upper_bound\<close>: the binary search over a range of \<open>len\<close> elements that starts at \<open>first\<close>.\<close>

function upper_bound_from :: "('a \<Rightarrow> bool) \<Rightarrow> 'a list \<Rightarrow> nat \<Rightarrow> nat \<Rightarrow> nat" where
  "upper_bound_from before xs first len =
     (if len = 0 then first
      else
        (let half = len div 2; middle = first + half in
         if before (xs ! middle) then upper_bound_from before xs first half
         else upper_bound_from before xs (middle + 1) (len - half - 1)))"
  by pat_completeness auto
termination by (relation "measure (\<lambda>(before, xs, first, len). len)") auto

declare upper_bound_from.simps [simp del]

definition GetLocationRecord ::
  "(uint8 list \<Rightarrow> uint32 option) \<Rightarrow> IpLocationRecord list \<Rightarrow> uint8 list \<Rightarrow> string + IpLocationRecord option" where
  "GetLocationRecord make_address_v4 store ipAddress =
     (case make_address_v4 ipAddress of
        None \<Rightarrow> Inl ''make_address_v4''
      | Some ip \<Rightarrow>
          (let itr = upper_bound_from (\<lambda>loc. ip < IpTo loc) store 0 (length store) in
           if itr = length store then Inr None
           else if ip < IpFrom (store ! itr) then Inr None
           else Inr (Some (store ! itr))))"

section \<open>The binary search\<close>

lemma upper_bound_from_partition:
  assumes "\<And>i j. \<lbrakk>first \<le> i; i \<le> j; j < first + len; before (xs ! i)\<rbrakk> \<Longrightarrow> before (xs ! j)"
  shows "(let p = upper_bound_from before xs first len in
     first \<le> p \<and> p \<le> first + len \<and> (\<forall>i. first \<le> i \<and> i < p \<longrightarrow> \<not> before (xs ! i)) \<and>
     (\<forall>i. p \<le> i \<and> i < first + len \<longrightarrow> before (xs ! i)))"
  using assms
proof (induction before xs first len rule: upper_bound_from.induct)
  case (1 before xs first len)
  let ?h = "len div 2" let ?m = "first + len div 2"
  show ?case
  proof (cases "len = 0")
    case True
    then show ?thesis by (subst upper_bound_from.simps) auto
  next
    case False
    then have h: "?h < len" by simp
    show ?thesis
    proof (cases "before (xs ! ?m)")
      case True
      have up: "before (xs ! i)" if "?m \<le> i" "i < first + len" for i using "1.prems" [of ?m i] True that by simp
      have "let p = upper_bound_from before xs first ?h in
          first \<le> p \<and> p \<le> first + ?h \<and> (\<forall>i. first \<le> i \<and> i < p \<longrightarrow> \<not> before (xs ! i)) \<and>
          (\<forall>i. p \<le> i \<and> i < first + ?h \<longrightarrow> before (xs ! i))"
        using "1.IH"(1) [OF False refl refl True] "1.prems" h by force
      then show ?thesis
        using up h by (subst upper_bound_from.simps) (auto simp: Let_def False True, meson not_le)
    next
      case f: False
      have low: "\<not> before (xs ! i)" if "first \<le> i" "i \<le> ?m" for i using "1.prems" [of i ?m] f h that by auto
      have e: "?m + 1 + (len - ?h - 1) = first + len" using h by simp
      have "let p = upper_bound_from before xs (?m + 1) (len - ?h - 1) in
          ?m + 1 \<le> p \<and> p \<le> first + len \<and> (\<forall>i. ?m + 1 \<le> i \<and> i < p \<longrightarrow> \<not> before (xs ! i)) \<and>
          (\<forall>i. p \<le> i \<and> i < first + len \<longrightarrow> before (xs ! i))"
      proof (rule "1.IH"(2) [OF False refl refl f, unfolded e])
        show "before (xs ! j)" if "?m + 1 \<le> i" "i \<le> j" "j < first + len" "before (xs ! i)" for i j
          using "1.prems" [of i j] that by simp
      qed
      moreover have "upper_bound_from before xs first len = upper_bound_from before xs (?m + 1) (len - ?h - 1)"
        using False f by (subst upper_bound_from.simps) (simp add: Let_def)
      moreover have "\<not> before (xs ! i)" if "first \<le> i" "i < ?m + 1" for i using low that by simp
      ultimately show ?thesis by (simp add: Let_def) (meson Suc_leI not_le add_leD1 le_SucI)
    qed
  qed
qed

lemma ranges_ordered:
  "not_overlapping rs \<Longrightarrow> list_all (\<lambda>r. IpFrom r \<le> IpTo r) rs \<Longrightarrow> sorted_wrt (\<lambda>a b. IpTo a \<le> IpFrom b) rs"
proof (induction rs rule: not_overlapping.induct)
  case (1 a b rs)
  then have "sorted_wrt (\<lambda>a b. IpTo a \<le> IpFrom b) (b # rs)" "IpTo a \<le> IpFrom b" "IpFrom b \<le> IpTo b" by (auto simp: not_less)
  then show ?case by auto
qed simp_all

text \<open>Over ordered ranges the binary search finds the record whose range holds the address.\<close>

lemma lookup_ordered:
  assumes "sorted_wrt (\<lambda>a b. IpTo a \<le> IpFrom b) store" "list_all (\<lambda>r. IpFrom r \<le> IpTo r) store"
    "make_address_v4 addr = Some ip"
  shows "GetLocationRecord make_address_v4 store addr = Inr (Some r) \<longleftrightarrow>
    r \<in> set store \<and> IpFrom r \<le> ip \<and> ip < IpTo r"
proof -
  define p where "p = upper_bound_from (\<lambda>loc. ip < IpTo loc) store 0 (length store)"
  have ord: "IpTo (store ! i) \<le> IpFrom (store ! j)" if "i < j" "j < length store" for i j
    using assms(1) that by (simp add: sorted_wrt_iff_nth_less)
  have le: "IpFrom (store ! j) \<le> IpTo (store ! j)" if "j < length store" for j
    using assms(2) that by (simp add: list_all_length)
  have mono: "ip < IpTo (store ! j)" if "i \<le> j" "j < length store" "ip < IpTo (store ! i)" for i j
    using ord [of i j] le [of j] that by (cases "i = j") auto
  have p: "p \<le> length store" "\<And>i. i < p \<Longrightarrow> \<not> ip < IpTo (store ! i)" "\<And>i. p \<le> i \<Longrightarrow> i < length store \<Longrightarrow> ip < IpTo (store ! i)"
    using upper_bound_from_partition [of 0 "length store" "\<lambda>loc. ip < IpTo loc" store] mono by (auto simp: Let_def p_def)
  have "i = p" if "i < length store" "IpFrom (store ! i) \<le> ip" "ip < IpTo (store ! i)" for i
    using p(2) [of i] p(3) [of p] ord [of p i] that by (cases i p rule: linorder_cases) auto
  moreover have "GetLocationRecord make_address_v4 store addr = Inr (Some r) \<longleftrightarrow>
      p < length store \<and> IpFrom (store ! p) \<le> ip \<and> r = store ! p"
    using p(1) assms(3) by (auto simp: GetLocationRecord_def Let_def p_def [symmetric])
  ultimately show ?thesis using p(3) [of p] by (auto simp: in_set_conv_nth)
qed

definition disjoint_ranges :: "IpLocationRecord list \<Rightarrow> bool" where
  "disjoint_ranges rs \<longleftrightarrow> distinct rs \<and> (\<forall>a\<in>set rs. \<forall>b\<in>set rs. a \<noteq> b \<longrightarrow> IpTo a \<le> IpFrom b \<or> IpTo b \<le> IpFrom a)"

lemma disjoint_ranges_mset: "mset xs = mset ys \<Longrightarrow> disjoint_ranges xs \<longleftrightarrow> disjoint_ranges ys"
  using mset_eq_imp_distinct_iff [of xs ys] mset_eq_setD [of xs ys] by (simp add: disjoint_ranges_def)

lemma ordered_disjoint:
  "sorted_wrt (\<lambda>a b. IpTo a \<le> IpFrom b) rs \<Longrightarrow> list_all (\<lambda>r. IpFrom r < IpTo r) rs \<Longrightarrow> disjoint_ranges rs"
  by (induction rs) (force simp: disjoint_ranges_def list_all_iff)+

lemma disjoint_not_overlapping:
  "disjoint_ranges rs \<Longrightarrow> sorted (map IpFrom rs) \<Longrightarrow> list_all (\<lambda>r. IpFrom r < IpTo r) rs \<Longrightarrow> not_overlapping rs"
proof (induction rs rule: not_overlapping.induct)
  case (1 a b rs)
  then have "IpTo a \<le> IpFrom b \<or> IpTo b \<le> IpFrom a" "IpFrom a \<le> IpFrom b" "IpFrom b < IpTo b"
    by (auto simp: disjoint_ranges_def)
  moreover have "not_overlapping (b # rs)" using 1 by (auto simp: disjoint_ranges_def)
  ultimately show ?case by auto
qed simp_all

definition is_std_sort :: "(IpLocationRecord list \<Rightarrow> IpLocationRecord list) \<Rightarrow> bool" where
  "is_std_sort f \<longleftrightarrow> (\<forall>rs. mset (f rs) = mset rs \<and> sorted (map IpFrom (f rs)))"

text \<open>
  C23. Looking up an address: once a database whose ranges are not reversed is loaded, whatever order the
  sort gives to records that start at the same address, a lookup returns a record exactly when the
  file holds it and its range holds the address, the last address of the range excluded. When no
  range is empty, loading succeeds exactly when no two records of the file overlap.
\<close>

theorem ip_lookup:
  assumes "is_std_sort std_sort" "GetValueDefault_string (bytes_of ''IPLocationFile'') [] config = path" "path \<noteq> []"
    "files path = Some content" "list_all (\<lambda>r. IpFrom r \<le> IpTo r) (read_records content)"
    "make_address_v4 addr = Some ip"
  shows "(\<forall>store. Load std_sort files config = Inr store \<longrightarrow>
      (\<forall>r. GetLocationRecord make_address_v4 store addr = Inr (Some r) \<longleftrightarrow>
         r \<in> set (read_records content) \<and> IpFrom r \<le> ip \<and> ip < IpTo r)) \<and>
    (list_all (\<lambda>r. IpFrom r < IpTo r) (read_records content) \<longrightarrow>
      (\<exists>store. Load std_sort files config = Inr store) \<longleftrightarrow> disjoint_ranges (read_records content))"
proof -
  let ?s = "std_sort (read_records content)"
  have m: "mset ?s = mset (read_records content)" and sorted: "sorted (map IpFrom ?s)"
    using assms(1) by (auto simp: is_std_sort_def)
  have set: "set ?s = set (read_records content)" using mset_eq_setD [OF m] .
  have le: "list_all (\<lambda>r. IpFrom r \<le> IpTo r) ?s" using assms(5) set by (simp add: list_all_iff)
  have load: "Load std_sort files config = Inr store \<longleftrightarrow> not_overlapping ?s \<and> store = ?s" for store
    using assms(2,3,4) by (auto simp: Load_def Let_def)
  have "not_overlapping ?s \<longleftrightarrow> disjoint_ranges (read_records content)"
    if "list_all (\<lambda>r. IpFrom r < IpTo r) (read_records content)"
    using that ordered_disjoint [OF ranges_ordered] disjoint_not_overlapping [of ?s] sorted le set disjoint_ranges_mset [OF m]
    by (auto simp: list_all_iff)
  moreover have "GetLocationRecord make_address_v4 ?s addr = Inr (Some r) \<longleftrightarrow>
      r \<in> set (read_records content) \<and> IpFrom r \<le> ip \<and> ip < IpTo r" if "not_overlapping ?s" for r
    using lookup_ordered [of ?s make_address_v4 addr ip, OF ranges_ordered [OF that le] le assms(6)] set by simp
  ultimately show ?thesis using load by auto
qed

definition ip_example :: "uint8 list" where
  "ip_example = bytes_of ''20,30,DE,Germany'' @ [0x0a] @ bytes_of ''10,20,FR,France'' @ [0x0a]"

theorem ip_lookup_witness:
  "\<exists>store. Load (sort_key IpFrom) (\<lambda>f. Some ip_example)
      \<lparr>cm_filename = [], cm_configOptions = [(bytes_of ''IPLocationFile'', [0x66])], cm_usingDistConfig = False\<rparr> = Inr store \<and>
    GetLocationRecord (\<lambda>_. Some 25) store [] =
      Inr (Some \<lparr>IpFrom = 20, IpTo = 30, CountryCode = bytes_of ''de'', CountryName = bytes_of ''Germany''\<rparr>)"
proof -
  let ?c = "\<lparr>cm_filename = [], cm_configOptions = [(bytes_of ''IPLocationFile'', [0x66])], cm_usingDistConfig = False\<rparr>"
  have rs: "read_records ip_example =
      [\<lparr>IpFrom = 20, IpTo = 30, CountryCode = bytes_of ''de'', CountryName = bytes_of ''Germany''\<rparr>,
       \<lparr>IpFrom = 10, IpTo = 20, CountryCode = bytes_of ''fr'', CountryName = bytes_of ''France''\<rparr>]"
    by code_simp
  have "GetValueDefault_string (bytes_of ''IPLocationFile'') [] ?c = [0x66]" by code_simp
  moreover have "is_std_sort (sort_key IpFrom)" by (simp add: is_std_sort_def)
  ultimately show ?thesis
    using ip_lookup [of "sort_key IpFrom" ?c "[0x66]" "\<lambda>f. Some ip_example" ip_example "\<lambda>_. Some 25" "[]" 25]
    by (auto simp: rs disjoint_ranges_def)
qed

section \<open>The text of a database\<close>

definition render_record :: "IpLocationRecord \<Rightarrow> uint8 list" where
  "render_record r =
     0x22 # dec_digits (unat (IpFrom r)) @ [0x22, 0x2c, 0x22] @ dec_digits (unat (IpTo r)) @ [0x22, 0x2c, 0x22]
       @ CountryCode r @ [0x22, 0x2c, 0x22] @ CountryName r @ [0x22, 0x0d, 0x0a]"

definition record_text_ok :: "IpLocationRecord \<Rightarrow> bool" where
  "record_text_ok r \<longleftrightarrow>
     list_all (\<lambda>c. c \<noteq> 0x22 \<and> c \<noteq> 0x2c \<and> c_tolower c = c) (CountryCode r) \<and>
     list_all (\<lambda>c. c \<noteq> 0x22 \<and> c \<noteq> 0x0d \<and> c \<noteq> 0x0a) (CountryName r)"

lemma getline_append: "delim \<notin> set s \<Longrightarrow> getline delim (s @ delim # rest) = Some (s, rest)"
proof -
  assume "delim \<notin> set s"
  then have "takeWhile (\<lambda>c. c \<noteq> delim) (s @ delim # rest) = s" "dropWhile (\<lambda>c. c \<noteq> delim) (s @ delim # rest) = delim # rest"
    by (induction s) auto
  then show "getline delim (s @ delim # rest) = Some (s, rest)" by (simp add: getline_def)
qed

lemma remove_char_absent: "c \<notin> set s \<Longrightarrow> remove_char c s = s"
  by (auto simp: remove_char_def filter_id_conv)

lemma remove_quotes: "0x22 \<notin> set s \<Longrightarrow> remove_char 0x22 (0x22 # s @ [0x22]) = s"
  using remove_char_absent [of "0x22" s] by (simp add: remove_char_def)

lemma remove_returns:
  "0x0d \<notin> set s \<Longrightarrow> 0x0a \<notin> set s \<Longrightarrow>
     remove_char 0x0a (remove_char 0x0d (0x22 # s @ [0x22] @ [0x0d])) = 0x22 # s @ [0x22]"
  using remove_char_absent [of "0x0d" s] remove_char_absent [of "0x0a" s] by (simp add: remove_char_def)

lemma uint32_text: "FromString_int uint32_type 10 (dec_digits (unat (w :: uint32))) = Some (uint w)"
proof -
  have "uint w \<le> it_max uint32_type" using uint_lt2p [of w] by (simp add: it_max_def uint32_type_def)
  then obtain s where "ToString_int (uint w) = Inr s" "FromString_int uint32_type 10 s = Some (uint w)"
    using int_string_value [of uint32_type "uint w"] by (auto simp: it_min_def uint32_type_def)
  moreover from this have "s = dec_digits (unat w)" using ToString_int_fmt [of "uint w" s] by (simp add: nat_uint_eq split: if_splits)
  ultimately show ?thesis by simp
qed

lemma dec_digits_plain: "c \<in> {0x22, 0x2c} \<Longrightarrow> c \<notin> set (dec_digits n)"
proof -
  have "\<not> is_digit 10 0x22" "\<not> is_digit 10 0x2c" by code_simp+
  then show "c \<in> {0x22, 0x2c} \<Longrightarrow> c \<notin> set (dec_digits n)" using dec_digits_facts [of n] by (auto simp: list_all_iff)
qed

lemma read_records_render:
  "list_all record_text_ok rs \<Longrightarrow> read_records (concat (map render_record rs)) = rs"
proof (induction rs)
  case Nil
  then show ?case by (simp add: read_records.simps read_fields_def getline_def)
next
  case (Cons r rs)
  let ?q = "\<lambda>s. 0x22 # s @ [0x22]"
  have n: "0x2c \<notin> set (?q (dec_digits n))" for n using dec_digits_plain [of "0x2c" n] by simp
  have c: "0x2c \<notin> set (?q (CountryCode r))" "0x0a \<notin> set (?q (CountryName r) @ [0x0d])" "map c_tolower (CountryCode r) = CountryCode r"
    using Cons.prems by (auto simp: record_text_ok_def list_all_iff map_idI)
  have e: "concat (map render_record (r # rs)) = ?q (dec_digits (unat (IpFrom r))) @ 0x2c # ?q (dec_digits (unat (IpTo r))) @ 0x2c #
      ?q (CountryCode r) @ 0x2c # (?q (CountryName r) @ [0x0d]) @ 0x0a # concat (map render_record rs)"
    by (simp add: render_record_def)
  have mk: "make_record (?q (dec_digits (unat (IpFrom r)))) (?q (dec_digits (unat (IpTo r)))) (?q (CountryCode r)) (?q (CountryName r) @ [0x0d]) = Some r"
    using Cons.prems c(3) remove_returns [of "CountryName r"] remove_quotes [of "CountryCode r"] remove_quotes [of "CountryName r"]
      remove_quotes [OF dec_digits_plain]
    by (simp add: make_record_def Let_def record_text_ok_def list_all_iff uint32_text) fastforce
  have "read_fields (concat (map render_record (r # rs))) = Some (Some r, concat (map render_record rs))"
    unfolding read_fields_def e by (simp only: getline_append [OF n] getline_append [OF c(1)] getline_append [OF c(2)] mk Option.bind.simps prod.case)
  then show ?case using Cons by (subst read_records.simps) simp
qed
end
