(* ===== verification/LogChannel.thy ===== *)
theory LogChannel
  imports Config
begin

text \<open>
  Log levels, messages and channels: \<open>LogCommon.h\<close>, \<open>LogMessage.h\<close>, \<open>Channel.cpp\<close>, \<open>ConsoleChannel.cpp\<close>
  (its Unix part) and \<open>FileChannel.cpp\<close> of \<open>src/src/common/Logging\<close>. What a channel does to the outside is a
  list of effects. The operating system and the library \<open>fmt\<close> are arguments: whether a file can be
  opened and written, the text of the time stamp, of a point in time (in nanoseconds from 1970 on) and of a
  file name filled in.
\<close>

section \<open>Levels and messages\<close>

datatype LogLevel = Disabled | Fatal | Critical | Error | Warning | Info | Debug | Trace | MaxLevel

fun level_num :: "LogLevel \<Rightarrow> nat" where
  "level_num Disabled = 0"
| "level_num Fatal = 1"
| "level_num Critical = 2"
| "level_num Error = 3"
| "level_num Warning = 4"
| "level_num Info = 5"
| "level_num Debug = 6"
| "level_num Trace = 7"
| "level_num MaxLevel = 8"

lemma level_num_inj: "level_num a = level_num b \<Longrightarrow> a = b"
  by (cases a; cases b) simp_all

instantiation LogLevel :: linorder
begin

definition less_eq_LogLevel :: "LogLevel \<Rightarrow> LogLevel \<Rightarrow> bool" where
  "less_eq_LogLevel a b \<longleftrightarrow> level_num a \<le> level_num b"

definition less_LogLevel :: "LogLevel \<Rightarrow> LogLevel \<Rightarrow> bool" where
  "less_LogLevel a b \<longleftrightarrow> level_num a < level_num b"

instance
  by standard (auto simp: less_eq_LogLevel_def less_LogLevel_def dest: level_num_inj)

end

fun GetLogLevelName :: "LogLevel \<Rightarrow> string" where
  "GetLogLevelName Disabled = ''Disabled''"
| "GetLogLevelName Fatal = ''Fatal''"
| "GetLogLevelName Critical = ''Critical''"
| "GetLogLevelName Error = ''Error''"
| "GetLogLevelName Warning = ''Warning''"
| "GetLogLevelName Info = ''Info''"
| "GetLogLevelName Debug = ''Debug''"
| "GetLogLevelName Trace = ''Trace''"
| "GetLogLevelName MaxLevel = ''Max''"

definition MAX_LOG_LEVEL :: nat where "MAX_LOG_LEVEL = level_num MaxLevel"

text \<open>The cast from a number below \<open>MAX_LOG_LEVEL\<close>.\<close>

definition level_of :: "nat \<Rightarrow> LogLevel" where
  "level_of n = ([Disabled, Fatal, Critical, Error, Warning, Info, Debug, Trace, MaxLevel] ! n)"

record LogMessage =
  lm_source :: "uint8 list"
  lm_text :: "uint8 list"
  lm_level :: LogLevel
  lm_time :: nat
  lm_file :: "uint8 list"
  lm_line :: nat
  lm_option :: "uint8 list"

section \<open>Patterns\<close>

record PatternAction =
  pa_key :: uint8
  pa_length :: nat
  pa_property :: "uint8 list"
  pa_prepend :: "uint8 list"

datatype log_exception = LogException string

definition size_t_type :: int_type where
  "size_t_type = \<lparr>it_signed = False, it_width = 64\<rparr>"

lemma dropWhile_tl_length: "length (tl (dropWhile P xs)) \<le> length xs"
  using length_dropWhile_le [of P xs] by simp

text \<open>The loop over the pattern; \<open>it\<close> is what is left of it.\<close>

function parse_actions ::
  "uint8 list \<Rightarrow> uint8 list \<Rightarrow> PatternAction list \<Rightarrow> log_exception + (PatternAction list \<times> uint8 list)" where
  "parse_actions [] prepend acts = Inr (acts, prepend)"
| "parse_actions (c # it) prepend acts =
     (if c \<noteq> 0x25 then parse_actions it (prepend @ [c]) acts
      else
        (case it of
           [] \<Rightarrow> Inr (acts, prepend)
         | d # it \<Rightarrow>
             if d = 0x5b then
               parse_actions (tl (dropWhile (\<lambda>c. c \<noteq> 0x5d) it)) []
                 (acts @ [\<lparr>pa_key = 0x78, pa_length = 0, pa_property = takeWhile (\<lambda>c. c \<noteq> 0x5d) it, pa_prepend = prepend\<rparr>])
             else if it \<noteq> [] \<and> hd it = 0x5b then
               (case FromString_int size_t_type 10 (takeWhile (\<lambda>c. c \<noteq> 0x5d) (tl it)) of
                  None \<Rightarrow> Inl (LogException ''ParsePattern: Error at conver lenght'')
                | Some n \<Rightarrow>
                    parse_actions (tl (dropWhile (\<lambda>c. c \<noteq> 0x5d) (tl it))) []
                      (acts @ [\<lparr>pa_key = d, pa_length = nat n, pa_property = [], pa_prepend = prepend\<rparr>]))
             else
               parse_actions it [] (acts @ [\<lparr>pa_key = d, pa_length = 0, pa_property = [], pa_prepend = prepend\<rparr>])))"
  by pat_completeness auto
termination
proof (relation "measure (\<lambda>(it, prepend, acts). length it)", goal_cases)
  case (4 c it prepend acts d it' n)
  then show ?case using dropWhile_tl_length [of "\<lambda>c. c \<noteq> 0x5d" "tl it'"] by (auto simp: less_Suc_eq_le le_diff_conv)
next
  case (3 c it prepend acts d it')
  then show ?case using dropWhile_tl_length [of "\<lambda>c. c \<noteq> 0x5d" it'] by auto
qed auto

definition ParsePattern :: "uint8 list \<Rightarrow> log_exception + PatternAction list" where
  "ParsePattern pattern =
     (if pattern = [] then Inl (LogException ''Pattern is empty'')
      else
        (case parse_actions pattern [] [] of
           Inl e \<Rightarrow> Inl e
         | Inr (acts, prepend) \<Rightarrow>
             (let acts1 =
                (if prepend \<noteq> [] then acts @ [\<lparr>pa_key = 0, pa_length = 0, pa_property = [], pa_prepend = prepend\<rparr>] else acts)
              in if acts1 = [] then Inl (LogException ''ParsePattern: Error at parse pattern'') else Inr acts1)))"

definition to_text :: "int \<Rightarrow> uint8 list" where
  "to_text v = (case ToString_int v of Inl _ \<Rightarrow> [] | Inr s \<Rightarrow> s)"

text \<open>\<open>path::filename\<close> on a system whose separator is a slash.\<close>

definition path_filename :: "uint8 list \<Rightarrow> uint8 list" where
  "path_filename p = rev (takeWhile (\<lambda>c. c \<noteq> 0x2f) (rev p))"

definition time_formats :: "(char \<times> string) list" where
  "time_formats =
     [(CHR ''w'', ''%a''), (CHR ''W'', ''%A''), (CHR ''b'', ''%b''), (CHR ''B'', ''%B''), (CHR ''d'', ''%d''),
      (CHR ''m'', ''%m''), (CHR ''n'', ''%Om''), (CHR ''y'', ''%y''), (CHR ''Y'', ''%Y''), (CHR ''h'', ''%OH''),
      (CHR ''H'', ''%OI''), (CHR ''A'', ''%p''), (CHR ''M'', ''%OM''), (CHR ''S'', ''%OS'')]"

text \<open>What one action appends after its fixed text. \<open>fmt_time\<close> is \<open>fmt\<close>'s text of a time point.\<close>

definition action_text :: "(string \<Rightarrow> nat \<Rightarrow> uint8 list) \<Rightarrow> LogMessage \<Rightarrow> PatternAction \<Rightarrow> uint8 list" where
  "action_text fmt_time msg pa =
     (let key = pa_key pa; src = lm_source msg in
      if key = byte_of_char (CHR ''s'') then src
      else if key = byte_of_char (CHR ''t'') then lm_text msg
      else if key = byte_of_char (CHR ''l'') then to_text (int (level_num (lm_level msg)))
      else if key = byte_of_char (CHR ''p'') then bytes_of (GetLogLevelName (lm_level msg))
      else if key = byte_of_char (CHR ''q'') then [byte_of_char (GetLogLevelName (lm_level msg) ! 0)]
      else if key = byte_of_char (CHR ''U'') then lm_file msg
      else if key = byte_of_char (CHR ''O'') then (if lm_file msg = [] then [] else path_filename (lm_file msg))
      else if key = byte_of_char (CHR ''u'') then to_text (int (lm_line msg))
      else if key = byte_of_char (CHR ''E'') then to_text (int (lm_time msg div 1000000000))
      else if key = byte_of_char (CHR ''v'') then
        (if pa_length pa > length src then src @ replicate (pa_length pa - length src) 0x20
         else if pa_length pa \<noteq> 0 \<and> pa_length pa < length src then drop (length src - pa_length pa) src
         else src)
      else (case find (\<lambda>(c, _). byte_of_char c = key) time_formats of
              None \<Rightarrow> []
            | Some (_, f) \<Rightarrow> fmt_time f (lm_time msg)))"

definition Format :: "(string \<Rightarrow> nat \<Rightarrow> uint8 list) \<Rightarrow> PatternAction list \<Rightarrow> LogMessage \<Rightarrow> uint8 list \<Rightarrow> uint8 list" where
  "Format fmt_time acts msg text0 =
     (if acts = [] then text0
      else foldl (\<lambda>text pa. text @ pa_prepend pa @ action_text fmt_time msg pa) [] acts)"

section \<open>Console channels\<close>

definition color_table :: "(string \<times> nat) list" where
  "color_table =
     [(''default'', 0x27), (''black'', 0x1e), (''red'', 0x1f), (''green'', 0x20), (''brown'', 0x21), (''blue'', 0x22),
      (''magenta'', 0x23), (''cyan'', 0x24), (''gray'', 0x25), (''darkGray'', 0x11e), (''lightRed'', 0x11f),
      (''lightGreen'', 0x120), (''yellow'', 0x121), (''lightBlue'', 0x122), (''lightMagenta'', 0x123),
      (''lightCyan'', 0x124), (''white'', 0x125)]"

definition ParseColor :: "uint8 list \<Rightarrow> log_exception + nat" where
  "ParseColor color =
     (case find (\<lambda>(n, _). StringEqualI color (bytes_of n)) color_table of
        None \<Rightarrow> Inl (LogException ''Invalid color value'')
      | Some (_, c) \<Rightarrow> Inr c)"

fun parse_colors :: "uint8 list list \<Rightarrow> log_exception + nat list" where
  "parse_colors [] = Inr []"
| "parse_colors (t # ts) =
     (case ParseColor t of Inl e \<Rightarrow> Inl e
      | Inr c \<Rightarrow> (case parse_colors ts of Inl e \<Rightarrow> Inl e | Inr cs \<Rightarrow> Inr (c # cs)))"

definition InitDefaultColors :: "nat list" where
  "InitDefaultColors = [0x27, 0x11f, 0x11f, 0x11f, 0x121, 0x27, 0x25, 0x25]"

text \<open>
  The colours of the levels, entry 0 for \<open>Disabled\<close>. A bad name throws half way through the loop, but only
  out of the constructor, so the channel is lost with it.
\<close>

definition SetColors :: "uint8 list \<Rightarrow> nat list \<Rightarrow> log_exception + nat list" where
  "SetColors colors old =
     (let colorTokens = Tokenize colors 0x20 True in
      if length colorTokens \<noteq> MAX_LOG_LEVEL - 1 then Inl (LogException ''SetColors: Invalid colors size'')
      else (case parse_colors colorTokens of Inl e \<Rightarrow> Inl e | Inr cs \<Rightarrow> Inr (hd old # cs)))"

record console =
  cn_enableColors :: bool
  cn_colors :: "nat list"

definition UnixConsoleChannel :: "uint8 list list \<Rightarrow> log_exception + console" where
  "UnixConsoleChannel options =
     (if length options > 4 then Inl (LogException ''Incorrect options count'')
      else if length options > 3 then
        (case SetColors (options ! 3) InitDefaultColors of
           Inl e \<Rightarrow> Inl e
         | Inr cs \<Rightarrow> Inr \<lparr>cn_enableColors = True, cn_colors = cs\<rparr>)
      else Inr \<lparr>cn_enableColors = True, cn_colors = InitDefaultColors\<rparr>)"

definition UnixConsoleChannel_colors :: "uint8 list \<Rightarrow> log_exception + console" where
  "UnixConsoleChannel_colors colors =
     (if colors \<noteq> [] then
        (case SetColors colors InitDefaultColors of
           Inl e \<Rightarrow> Inl e
         | Inr cs \<Rightarrow> Inr \<lparr>cn_enableColors = True, cn_colors = cs\<rparr>)
      else Inr \<lparr>cn_enableColors = True, cn_colors = InitDefaultColors\<rparr>)"

definition CSI :: "uint8 list" where "CSI = [0x1b, 0x5b]"

definition console_Write :: "LogLevel \<Rightarrow> console \<Rightarrow> uint8 list \<Rightarrow> uint8 list" where
  "console_Write level cn text =
     (let color = cn_colors cn ! level_num level in
      (if cn_enableColors cn then
         (if color AND 0x100 \<noteq> 0 then CSI @ bytes_of ''1m'' else []) @ CSI @ to_text (int (color AND 0xff)) @ bytes_of ''m''
       else [])
      @ text @ (if cn_enableColors cn then CSI @ bytes_of ''0m'' else []) @ [0x0a])"

section \<open>File channels\<close>

text \<open>\<open>fc_logFile\<close> is the stream: \<open>None\<close> before it is made, otherwise its path and whether it is open.\<close>

record file_channel =
  fc_logsDir :: "uint8 list"
  fc_fileName :: "uint8 list"
  fc_logFile :: "(uint8 list \<times> bool) option"
  fc_isDynamicFileName :: bool
  fc_isFlush :: bool
  fc_isOpenModeAppend :: bool
  fc_isAddTimestamp :: bool

definition bool_option :: "uint8 list list \<Rightarrow> nat \<Rightarrow> bool \<Rightarrow> string \<Rightarrow> log_exception + bool" where
  "bool_option options i def err =
     (if length options \<ge> i + 1 then
        (case FromString_bool False (options ! i) of None \<Rightarrow> Inl (LogException err) | Some b \<Rightarrow> Inr b)
      else Inr def)"

definition new_FileChannel :: "uint8 list \<Rightarrow> uint8 list list \<Rightarrow> log_exception + file_channel" where
  "new_FileChannel logsDir options =
     (if length options < 4 then Inl (LogException ''Incorrect options count'')
      else
        (case bool_option options 4 True ''Incorrect option for open mode'' of
           Inl e \<Rightarrow> Inl e
         | Inr isAppend \<Rightarrow>
             (case bool_option options 5 True ''Incorrect option for flush'' of
                Inl e \<Rightarrow> Inl e
              | Inr isFlush \<Rightarrow>
                  (case bool_option options 6 False ''Incorrect option for add timestamp'' of
                     Inl e \<Rightarrow> Inl e
                   | Inr isStamp \<Rightarrow>
                       Inr \<lparr>fc_logsDir = logsDir, fc_fileName = options ! 3, fc_logFile = None,
                            fc_isDynamicFileName = contains (bytes_of ''{}'') (options ! 3),
                            fc_isFlush = isFlush, fc_isOpenModeAppend = isAppend, fc_isAddTimestamp = isStamp\<rparr>))))"

text \<open>What the channels use of their surroundings.\<close>

record log_env =
  le_can_open :: "uint8 list \<Rightarrow> bool"
  le_good :: "uint8 list \<Rightarrow> bool"
  le_timestamp :: "uint8 list"
  le_fmt_time :: "string \<Rightarrow> nat \<Rightarrow> uint8 list"
  le_fmt_format :: "uint8 list \<Rightarrow> uint8 list \<Rightarrow> uint8 list"

datatype log_effect =
  ConsoleOut "uint8 list"
  | FileOpen "uint8 list" bool
  | FileOut "uint8 list" "uint8 list"
  | FileClose "uint8 list"

text \<open>\<open>insert\<close> before the last dot, or at the end.\<close>

definition add_timestamp :: "uint8 list \<Rightarrow> uint8 list \<Rightarrow> uint8 list" where
  "add_timestamp timeStamp fileName =
     (if 0x2e \<in> set fileName then
        (let ext = takeWhile (\<lambda>c. c \<noteq> 0x2e) (rev fileName); n = length fileName - length ext - 1
         in take n fileName @ timeStamp @ drop n fileName)
      else fileName @ timeStamp)"

definition OpenFile :: "log_env \<Rightarrow> file_channel \<Rightarrow> bool \<times> file_channel \<times> log_effect list" where
  "OpenFile env fc =
     (case fc_logFile fc of
        Some (_, is_open) \<Rightarrow> (is_open, fc, [])
      | None \<Rightarrow>
          (let fileName = (if fc_isAddTimestamp fc then add_timestamp (0x5f # le_timestamp env) (fc_fileName fc) else fc_fileName fc);
               path = fc_logsDir fc @ fileName;
               is_open = le_can_open env path
           in (is_open, fc\<lparr>fc_fileName := fileName, fc_logFile := Some (path, is_open)\<rparr>,
               if is_open then [FileOpen path (fc_isOpenModeAppend fc)] else [])))"

definition CloseFile :: "file_channel \<Rightarrow> file_channel \<times> log_effect list" where
  "CloseFile fc =
     (case fc_logFile fc of
        None \<Rightarrow> (fc, [])
      | Some (path, is_open) \<Rightarrow> (fc\<lparr>fc_logFile := None\<rparr>, if is_open then [FileClose path] else []))"

text \<open>\<open>open_path\<close> is the path of the stream.\<close>

definition open_path :: "file_channel \<Rightarrow> uint8 list" where
  "open_path fc = (case fc_logFile fc of None \<Rightarrow> [] | Some (path, _) \<Rightarrow> path)"

definition file_Write ::
  "log_env \<Rightarrow> PatternAction list \<Rightarrow> LogMessage \<Rightarrow> file_channel \<Rightarrow>
     log_exception option \<times> file_channel \<times> log_effect list" where
  "file_Write env acts msg fc =
     (if fc_isDynamicFileName fc \<and> lm_option msg = [] then (Some (LogException ''Empty option for dynamic file''), fc, [])
      else
        (let text = Format (le_fmt_time env) acts msg (lm_text msg) in
         if fc_isDynamicFileName fc then
           (let fc1 = fc\<lparr>fc_fileName := le_fmt_format env (fc_fileName fc) (lm_option msg)\<rparr>;
                (ok, fc2, eff) = OpenFile env fc1
            in if \<not> ok then (Some (LogException ''Cannot open file''), fc2, eff)
               else
                 (let (fc3, eff') = CloseFile fc2
                  in (None, fc3, eff @ [FileOut (open_path fc2) (text @ [0x0a])] @ eff')))
         else
           (let (ok, fc1, eff) = OpenFile env fc
            in if \<not> ok then (Some (LogException ''Cannot open file''), fc1, eff)
               else
                 (let out = [FileOut (open_path fc1) (text @ [0x0a])]
                  in if le_good env (open_path fc1) then (None, fc1, eff @ out)
                     else (Some (LogException ''Incorrect write to file''), fc1, eff @ out)))))"

section \<open>Channels\<close>

datatype ChannelType = ConsoleType | FileType | DBType | DiscordType | MaxType

fun channel_num :: "ChannelType \<Rightarrow> int" where
  "channel_num ConsoleType = 1"
| "channel_num FileType = 2"
| "channel_num DBType = 3"
| "channel_num DiscordType = 4"
| "channel_num MaxType = 5"

datatype channel_impl = ConsoleImpl console | FileImpl file_channel

record Channel =
  ch_type :: ChannelType
  ch_name :: "uint8 list"
  ch_level :: LogLevel
  ch_pattern :: "uint8 list"
  ch_patternActions :: "PatternAction list"
  ch_impl :: channel_impl

text \<open>The constructors: that of the base class first, which parses the pattern.\<close>

definition make_channel ::
  "ChannelType \<Rightarrow> uint8 list \<Rightarrow> LogLevel \<Rightarrow> uint8 list \<Rightarrow> log_exception + channel_impl \<Rightarrow> log_exception + Channel" where
  "make_channel type name level pattern impl =
     (case ParsePattern pattern of
        Inl e \<Rightarrow> Inl e
      | Inr acts \<Rightarrow>
          (case impl of Inl e \<Rightarrow> Inl e
           | Inr i \<Rightarrow> Inr \<lparr>ch_type = type, ch_name = name, ch_level = level, ch_pattern = pattern,
                            ch_patternActions = acts, ch_impl = i\<rparr>))"

definition channel_Write ::
  "log_env \<Rightarrow> LogMessage \<Rightarrow> Channel \<Rightarrow> log_exception option \<times> Channel \<times> log_effect list" where
  "channel_Write env msg ch =
     (case ch_impl ch of
        ConsoleImpl cn \<Rightarrow>
          if lm_level msg > ch_level ch then (None, ch, [])
          else
            (None, ch, [ConsoleOut (console_Write (lm_level msg) cn
               (Format (le_fmt_time env) (ch_patternActions ch) msg (lm_text msg)))])
      | FileImpl fc \<Rightarrow>
          (let (exc, fc', eff) = file_Write env (ch_patternActions ch) msg fc
           in (exc, ch\<lparr>ch_impl := FileImpl fc'\<rparr>, eff)))"

section \<open>Patterns and their text\<close>

definition fixed_text :: "uint8 list \<Rightarrow> PatternAction" where
  "fixed_text s = \<lparr>pa_key = 0, pa_length = 0, pa_property = [], pa_prepend = s\<rparr>"

lemma fixed_text_prepend [simp]: "pa_prepend (fixed_text s) = s"
  by (simp add: fixed_text_def)

definition is_property :: "PatternAction \<Rightarrow> bool" where
  "is_property a \<longleftrightarrow> pa_key a = 0x78 \<and> pa_length a = 0"

definition render_action :: "PatternAction \<Rightarrow> uint8 list" where
  "render_action a =
     pa_prepend a @
       (if is_property a then [0x25, 0x5b] @ pa_property a @ [0x5d]
        else [0x25, pa_key a, 0x5b] @ dec_digits (pa_length a) @ [0x5d])"

definition action_ok :: "PatternAction \<Rightarrow> bool" where
  "action_ok a \<longleftrightarrow> 0x25 \<notin> set (pa_prepend a) \<and> 0x5d \<notin> set (pa_property a) \<and>
     (is_property a \<or> pa_property a = [] \<and> pa_key a \<noteq> 0x5b \<and> pa_length a < 2 ^ 64)"

lemma parse_prepend: "0x25 \<notin> set p \<Longrightarrow> parse_actions (p @ it) pre acts = parse_actions it (pre @ p) acts"
  by (induction p arbitrary: pre) auto

lemma takeWhile_upto [simp]:
  "c \<notin> set s \<Longrightarrow> takeWhile (\<lambda>x. x \<noteq> c) (s @ c # rest) = s"
  "c \<notin> set s \<Longrightarrow> dropWhile (\<lambda>x. x \<noteq> c) (s @ c # rest) = c # rest"
  by (induction s) auto

lemma size_t_text: "n < 2 ^ 64 \<Longrightarrow> FromString_int size_t_type 10 (dec_digits n) = Some (int n)"
proof -
  assume n: "n < 2 ^ 64"
  then have "int n \<le> it_max size_t_type" by (simp add: it_max_def size_t_type_def)
  then obtain s where "ToString_int (int n) = Inr s" "FromString_int size_t_type 10 s = Some (int n)"
    using int_string_value [of size_t_type "int n"] by (auto simp: it_min_def size_t_type_def)
  moreover from this have "s = dec_digits n" using ToString_int_fmt [of "int n" s] by simp
  ultimately show ?thesis by simp
qed

lemma dec_digits_no_bracket: "0x5d \<notin> set (dec_digits n)"
proof -
  have "\<not> is_digit 10 0x5d" by code_simp
  then show ?thesis using dec_digits_facts [of n] by (auto simp: list_all_iff)
qed

lemma parse_action: "action_ok a \<Longrightarrow> parse_actions (render_action a @ it) [] acts = parse_actions it [] (acts @ [a])"
  using size_t_text [of "pa_length a"] dec_digits_no_bracket [of "pa_length a"]
  by (cases a) (auto simp: render_action_def action_ok_def is_property_def parse_prepend)

lemma parse_rendered:
  "list_all action_ok acts \<Longrightarrow>
     parse_actions (concat (map render_action acts) @ it) [] acc = parse_actions it [] (acc @ acts)"
  by (induction acts arbitrary: acc) (simp_all add: parse_action)

lemma foldl_append_concat: "foldl (\<lambda>text pa. text @ f pa) acc xs = acc @ concat (map f xs)"
  by (induction xs arbitrary: acc) simp_all

lemma fixed_action_text: "action_text fmt_time msg (fixed_text s) = []"
proof -
  have "find (\<lambda>(c, _). byte_of_char c = 0) time_formats = None" by code_simp
  moreover have "byte_of_char c \<noteq> 0" if "c \<in> {CHR ''s'', CHR ''t'', CHR ''l'', CHR ''p'', CHR ''q'', CHR ''U'', CHR ''O'', CHR ''u'', CHR ''E'', CHR ''v''}" for c
  proof -
    have "list_all (\<lambda>c. byte_of_char c \<noteq> 0) [CHR ''s'', CHR ''t'', CHR ''l'', CHR ''p'', CHR ''q'', CHR ''U'', CHR ''O'', CHR ''u'', CHR ''E'', CHR ''v'']"
      by code_simp
    then show ?thesis using that by auto
  qed
  ultimately show ?thesis by (simp add: action_text_def fixed_text_def Let_def)
qed

text \<open>
  Patterns: the text of a list of actions, with some fixed text after it, parses back to the actions,
  each with its fixed text, its width or its property, and formatting a message with them gives the
  actions' texts in order, each after its fixed text, with the last fixed text at the end.
\<close>

theorem pattern_roundtrip:
  assumes "list_all action_ok acts" "0x25 \<notin> set tail" "acts \<noteq> [] \<or> tail \<noteq> []"
  shows "\<exists>pas. ParsePattern (concat (map render_action acts) @ tail) = Inr pas \<and>
    pas = acts @ (if tail = [] then [] else [fixed_text tail]) \<and>
    Format fmt_time pas msg text0 =
      concat (map (\<lambda>pa. pa_prepend pa @ action_text fmt_time msg pa) acts) @ tail"
proof -
  let ?pas = "acts @ (if tail = [] then [] else [fixed_text tail])"
  have "parse_actions (concat (map render_action acts) @ tail) [] [] = parse_actions ([] @ tail @ []) [] acts"
    using parse_rendered [OF assms(1), of tail "[]"] by simp
  then have p: "parse_actions (concat (map render_action acts) @ tail) [] [] = Inr (acts, tail)"
    using parse_prepend [OF assms(2), of "[]" "[]" acts] by simp
  have "render_action a \<noteq> []" for a by (simp add: render_action_def)
  then have ne: "concat (map render_action acts) @ tail \<noteq> []" using assms(3) by (cases acts) auto
  have "ParsePattern (concat (map render_action acts) @ tail) = Inr ?pas"
    using p ne assms(3) by (simp add: ParsePattern_def fixed_text_def)
  moreover have "Format fmt_time ?pas msg text0 = concat (map (\<lambda>pa. pa_prepend pa @ action_text fmt_time msg pa) acts) @ tail"
    using assms(3) fixed_action_text [of fmt_time msg tail]
    by (auto simp: Format_def foldl_append_concat)
  ultimately show ?thesis by blast
qed

theorem pattern_roundtrip_witness:
  "\<exists>pas. ParsePattern (bytes_of ''[%v[5]] '') = Inr pas \<and> length pas = 2"
proof -
  let ?a = "\<lparr>pa_key = 0x76, pa_length = 5, pa_property = [], pa_prepend = [0x5b]\<rparr>"
  have "action_ok ?a" by (simp add: action_ok_def is_property_def)
  moreover have "concat (map render_action [?a]) @ [0x5d, 0x20] = bytes_of ''[%v[5]] ''" by code_simp
  ultimately show ?thesis using pattern_roundtrip [of "[?a]" "[0x5d, 0x20]"] by auto
qed

section \<open>Files named after an option\<close>

text \<open>
  A file channel whose name has a placeholder for the message's option writes every message, after the
  first, to the file of the first message: the name filled in replaces the one with the placeholder. (Names
  without braces are left alone by \<open>fmt\<close>.)
\<close>

theorem dynamic_file_fixed:
  assumes "\<And>s x. 0x7b \<notin> set s \<Longrightarrow> 0x7d \<notin> set s \<Longrightarrow> le_fmt_format env s x = s"
    "fc_isDynamicFileName fc" "\<not> fc_isAddTimestamp fc" "fc_logFile fc = None"
    "file = le_fmt_format env (fc_fileName fc) (lm_option msg)" "0x7b \<notin> set file" "0x7d \<notin> set file"
    "lm_option msg \<noteq> []" "lm_option msg' \<noteq> []" "le_can_open env (fc_logsDir fc @ file)"
    "file_Write env acts msg fc = (exc, fc', eff)"
  shows "exc = None \<and> fc_fileName fc' = file \<and>
    (let path = fc_logsDir fc @ file in
     file_Write env acts msg' fc' =
       (None, fc', [FileOpen path (fc_isOpenModeAppend fc),
          FileOut path (Format (le_fmt_time env) acts msg' (lm_text msg') @ [0x0a]), FileClose path]))"
proof -
  have fc': "fc' = fc\<lparr>fc_fileName := file\<rparr>" "exc = None"
    using assms by (auto simp: file_Write_def Let_def OpenFile_def CloseFile_def open_path_def)
  have "le_fmt_format env file x = file" for x using assms(1,6,7) by blast
  then show ?thesis using assms
    by (simp add: fc' file_Write_def Let_def OpenFile_def CloseFile_def open_path_def)
qed

theorem dynamic_file_fixed_witness:
  "\<exists>env fc msg msg' fc' eff. le_fmt_format env (fc_fileName fc) (lm_option msg) \<noteq> le_fmt_format env (fc_fileName fc) (lm_option msg') \<and>
    file_Write env [] msg fc = (None, fc', eff) \<and>
    file_Write env [] msg' fc' = (None, fc', [FileOpen [0x31] True, FileOut [0x31] [0x0a], FileClose [0x31]])"
proof -
  let ?env = "\<lparr>le_can_open = \<lambda>_. True, le_good = \<lambda>_. True, le_timestamp = [], le_fmt_time = \<lambda>_ _. [],
      le_fmt_format = \<lambda>s x. if s = [0x7b, 0x7d] then x else s\<rparr>"
  let ?fc = "\<lparr>fc_logsDir = [], fc_fileName = [0x7b, 0x7d], fc_logFile = None, fc_isDynamicFileName = True,
      fc_isFlush = True, fc_isOpenModeAppend = True, fc_isAddTimestamp = False\<rparr>"
  let ?m = "\<lambda>x. \<lparr>lm_source = [], lm_text = [], lm_level = Info, lm_time = 0, lm_file = [], lm_line = 0, lm_option = [x]\<rparr>"
  obtain exc fc' eff where w: "file_Write ?env [] (?m 0x31) ?fc = (exc, fc', eff)"
    by (cases "file_Write ?env [] (?m 0x31) ?fc") simp
  have fmt: "le_fmt_format ?env s x = s" if "0x7b \<notin> set s" "0x7d \<notin> set s" for s x using that by auto
  have "exc = None \<and> fc_fileName fc' = [0x31] \<and>
     file_Write ?env [] (?m 0x32) fc' = (None, fc', [FileOpen [0x31] True, FileOut [0x31] [0x0a], FileClose [0x31]])"
    using dynamic_file_fixed [of ?env ?fc "[0x31]" "?m 0x31" "?m 0x32" "[]", OF fmt _ _ _ _ _ _ _ _ _ w]
    by (simp add: Format_def Let_def)
  moreover have "le_fmt_format ?env (fc_fileName ?fc) (lm_option (?m 0x31)) \<noteq> le_fmt_format ?env (fc_fileName ?fc) (lm_option (?m 0x32))"
    by simp
  ultimately show ?thesis using w
    by (intro exI [of _ ?env] exI [of _ ?fc] exI [of _ "?m 0x31"] exI [of _ "?m 0x32"] exI [of _ fc'] exI [of _ eff]) simp
qed

end
