(* ===== verification/Logging.thy ===== *)
theory Logging
  imports LogChannel
begin

text \<open>
  Loggers and the log: \<open>Logger.cpp\<close> and \<open>Log.cpp\<close> of \<open>src/src/common/Logging\<close>, with the macros of \<open>Log.h\<close>.
  A logger refers to its channels by their key in the log's map, whose entries are never replaced. The
  keys of the configuration are visited in the order of its list; the source's order is that of a hash map.
\<close>

section \<open>Loggers\<close>

record Logger =
  lr_name :: "uint8 list"
  lr_channels :: "uint8 list list"
  lr_level :: LogLevel

type_synonym channels = "(uint8 list \<times> Channel) list"

definition AddChannel :: "uint8 list \<Rightarrow> Logger \<Rightarrow> Logger" where
  "AddChannel channel lr = lr\<lparr>lr_channels := lr_channels lr @ [channel]\<rparr>"

text \<open>The loop over the channels; an exception ends it.\<close>

fun write_channels ::
  "log_env \<Rightarrow> LogMessage \<Rightarrow> uint8 list list \<Rightarrow> channels \<Rightarrow> log_exception option \<times> channels \<times> log_effect list" where
  "write_channels env msg [] chs = (None, chs, [])"
| "write_channels env msg (n # ns) chs =
     (case um_find n chs of
        None \<Rightarrow> write_channels env msg ns chs
      | Some ch \<Rightarrow>
          if ch_level ch < lm_level msg then write_channels env msg ns chs
          else
            (let (exc, ch', eff) = channel_Write env msg ch; chs1 = um_modify n (\<lambda>_. ch') chs
             in case exc of
                  Some e \<Rightarrow> (Some e, chs1, eff)
                | None \<Rightarrow> (let (exc', chs2, eff') = write_channels env msg ns chs1 in (exc', chs2, eff @ eff'))))"

definition logger_Write ::
  "log_env \<Rightarrow> LogMessage \<Rightarrow> Logger \<Rightarrow> channels \<Rightarrow> log_exception option \<times> channels \<times> log_effect list" where
  "logger_Write env msg lr chs =
     (if lr_level lr < lm_level msg then (None, chs, []) else write_channels env msg (lr_channels lr) chs)"

text \<open>
  \<open>std::erase\<close> is given a reference to the element to erase, which \<open>std::remove\<close> overwrites with the first
  element that it keeps: from there on it erases the elements equal to that one.
\<close>

definition erase_aliased :: "'a list \<Rightarrow> 'a list" where
  "erase_aliased xs =
     (case xs of [] \<Rightarrow> []
      | a # rest \<Rightarrow> (case dropWhile (\<lambda>x. x = a) rest of [] \<Rightarrow> [] | x # ys \<Rightarrow> x # filter (\<lambda>y. y \<noteq> x) ys))"

definition DeleteChannel :: "uint8 list \<Rightarrow> channels \<Rightarrow> Logger \<Rightarrow> Logger" where
  "DeleteChannel name chs lr =
     (let named = (\<lambda>n. case um_find n chs of None \<Rightarrow> False | Some ch \<Rightarrow> ch_name ch = name);
          before = takeWhile (\<lambda>n. \<not> named n) (lr_channels lr);
          rest = dropWhile (\<lambda>n. \<not> named n) (lr_channels lr)
      in lr\<lparr>lr_channels := before @ erase_aliased rest\<rparr>)"

definition Shutdown :: "Logger \<Rightarrow> Logger" where
  "Shutdown lr = lr\<lparr>lr_channels := []\<rparr>"

section \<open>The log\<close>

record Log =
  lg_loggers :: "(uint8 list \<times> Logger) list"
  lg_channels :: channels
  lg_channelsCreateFunction :: "(int \<times> ChannelType) list"
  lg_highestLogLevel :: LogLevel
  lg_logsDir :: "uint8 list"
  lg_isUseDefaultLogs :: bool

definition RegisterChannel :: "ChannelType \<Rightarrow> Log \<Rightarrow> Log res" where
  "RegisterChannel type lg =
     (if \<not> channel_num type < channel_num MaxType then Inl (AssertFailure ''type < ChannelType::Max'')
      else if um_find (channel_num type) (lg_channelsCreateFunction lg) \<noteq> None then
        Inl (AssertFailure ''itr == _channelsCreateFunction.end()'')
      else Inr (lg\<lparr>lg_channelsCreateFunction := um_emplace (channel_num type) type (lg_channelsCreateFunction lg)\<rparr>))"

definition new_Log :: "Log res" where
  "new_Log =
     bindr (RegisterChannel ConsoleType
       \<lparr>lg_loggers = [], lg_channels = [], lg_channelsCreateFunction = [], lg_highestLogLevel = Disabled,
        lg_logsDir = [], lg_isUseDefaultLogs = False\<rparr>) (RegisterChannel FileType)"

definition Clear :: "Log \<Rightarrow> Log" where
  "Clear lg = lg\<lparr>lg_loggers := [], lg_channels := []\<rparr>"

definition LOGGER_ROOT :: "uint8 list" where "LOGGER_ROOT = bytes_of ''root''"
definition LOGGER_GM :: "uint8 list" where "LOGGER_GM = bytes_of ''commands.gm''"
definition PREFIX_LOGGER :: "uint8 list" where "PREFIX_LOGGER = bytes_of ''Logger.''"
definition PREFIX_CHANNEL :: "uint8 list" where "PREFIX_CHANNEL = bytes_of ''LogChannel.''"

definition HasLogger :: "uint8 list \<Rightarrow> Log \<Rightarrow> Logger option" where
  "HasLogger type lg = um_find type (lg_loggers lg)"

definition HasChannel :: "uint8 list \<Rightarrow> Log \<Rightarrow> Channel option" where
  "HasChannel name lg = um_find name (lg_channels lg)"

definition uint8_type :: int_type where "uint8_type = \<lparr>it_signed = False, it_width = 8\<rparr>"
definition int8_type :: int_type where "int8_type = \<lparr>it_signed = True, it_width = 8\<rparr>"

definition parse_level :: "uint8 list \<Rightarrow> LogLevel option" where
  "parse_level token =
     (case FromString_int uint8_type 10 token of
        None \<Rightarrow> None
      | Some v \<Rightarrow> if nat v \<ge> MAX_LOG_LEVEL then None else Some (level_of (nat v)))"

text \<open>The loop over a logger's channels; those that do not exist are reported and left out.\<close>

fun add_channels :: "Log \<Rightarrow> uint8 list list \<Rightarrow> Logger \<Rightarrow> Logger" where
  "add_channels lg [] logger = logger"
| "add_channels lg (channelName # names) logger =
     (case HasChannel channelName lg of
        Some _ \<Rightarrow> add_channels lg names (AddChannel channelName logger)
      | None \<Rightarrow> add_channels lg names logger)"

definition CreateLoggerFromConfig :: "config_mgr \<Rightarrow> uint8 list \<Rightarrow> Log \<Rightarrow> Log" where
  "CreateLoggerFromConfig config configLoggerName lg =
     (if configLoggerName = [] then lg
      else if HasLogger configLoggerName lg \<noteq> None then lg
      else
        (let options = GetValueDefault_string configLoggerName [] config;
             loggerName = drop (length PREFIX_LOGGER) configLoggerName;
             tokens = Tokenize options 0x2c True
         in if options = [] then lg
            else if length tokens \<noteq> 2 then lg
            else
              (case parse_level (tokens ! 0) of
                 None \<Rightarrow> lg
               | Some level \<Rightarrow>
                   (let lg1 = (if level > lg_highestLogLevel lg then lg\<lparr>lg_highestLogLevel := level\<rparr> else lg);
                        logger = add_channels lg1 (Tokenize (tokens ! 1) 0x20 False)
                          \<lparr>lr_name = loggerName, lr_channels = [], lr_level = level\<rparr>
                    in lg1\<lparr>lg_loggers := um_emplace loggerName logger (lg_loggers lg1)\<rparr>))))"

text \<open>The functions that \<open>RegisterChannel\<close> stores, for the two types that exist.\<close>

definition CreateChannel ::
  "ChannelType \<Rightarrow> uint8 list \<Rightarrow> uint8 list \<Rightarrow> LogLevel \<Rightarrow> uint8 list \<Rightarrow> uint8 list list \<Rightarrow> log_exception + Channel" where
  "CreateChannel type logsDir name level pattern options =
     (case type of
        FileType \<Rightarrow> make_channel FileType name level pattern (map_sum id FileImpl (new_FileChannel logsDir options))
      | _ \<Rightarrow> make_channel ConsoleType name level pattern (map_sum id ConsoleImpl (UnixConsoleChannel options)))"

definition CreateChannelsFromConfig :: "config_mgr \<Rightarrow> uint8 list \<Rightarrow> Log \<Rightarrow> Log" where
  "CreateChannelsFromConfig config logChannelName lg =
     (if logChannelName = [] then lg
      else if HasChannel logChannelName lg \<noteq> None then lg
      else
        (let options = GetValueDefault_string logChannelName [] config;
             channelName = drop (length PREFIX_CHANNEL) logChannelName;
             tokens = Tokenize options 0x2c True
         in if length tokens < 3 \<or> length tokens > 7 then lg
            else
              (case FromString_int int8_type 10 (tokens ! 0) of
                 None \<Rightarrow> lg
               | Some channelType \<Rightarrow>
                   (case um_find channelType (lg_channelsCreateFunction lg) of
                      None \<Rightarrow> lg
                    | Some type \<Rightarrow>
                        (case parse_level (tokens ! 1) of
                           None \<Rightarrow> lg
                         | Some level \<Rightarrow>
                             if tokens ! 2 = [] then lg
                             else
                               (case CreateChannel type (lg_logsDir lg) logChannelName level (tokens ! 2) tokens of
                                  Inl e \<Rightarrow> lg
                                | Inr ch \<Rightarrow> lg\<lparr>lg_channels := um_emplace channelName ch (lg_channels lg)\<rparr>))))))"

definition ReadLoggersFromConfig :: "config_mgr \<Rightarrow> Log \<Rightarrow> Log" where
  "ReadLoggersFromConfig config lg =
     foldl (\<lambda>lg loggerName. CreateLoggerFromConfig config loggerName lg) lg (GetKeysByString PREFIX_LOGGER config)"

definition ReadChannelsFromConfig :: "config_mgr \<Rightarrow> Log \<Rightarrow> Log" where
  "ReadChannelsFromConfig config lg =
     foldl (\<lambda>lg channelName. CreateChannelsFromConfig config channelName lg) lg (GetKeysByString PREFIX_CHANNEL config)"

definition CorrectDirPath :: "uint8 list \<Rightarrow> uint8 list" where
  "CorrectDirPath path =
     (if path = [] then path
      else
        (let p = map (\<lambda>c. if c = 0x5c then 0x2f else c) path
         in if last p \<noteq> 0x2f then p @ [0x2f] else p))"

text \<open>\<open>dir_ok\<close> says whether a directory exists or can be made.\<close>

definition CreateDirIfNeed :: "(uint8 list \<Rightarrow> bool) \<Rightarrow> uint8 list \<Rightarrow> bool" where
  "CreateDirIfNeed dir_ok path \<longleftrightarrow> path = [] \<or> dir_ok path"

definition LoadFromConfig :: "(uint8 list \<Rightarrow> bool) \<Rightarrow> config_mgr \<Rightarrow> Log \<Rightarrow> Log res" where
  "LoadFromConfig dir_ok config lg =
     (let logsDir = CorrectDirPath (GetValueDefault_string (bytes_of ''LogsDir'') [] config);
          lg1 = lg\<lparr>lg_highestLogLevel := Fatal, lg_logsDir := logsDir\<rparr>
      in if \<not> CreateDirIfNeed dir_ok logsDir then Inl (AssertFailure ''CreateDirIfNeed'')
         else Inr (ReadLoggersFromConfig config (ReadChannelsFromConfig config (Clear lg1))))"

definition Initialize :: "(uint8 list \<Rightarrow> bool) \<Rightarrow> config_mgr \<Rightarrow> Log \<Rightarrow> Log res" where
  "Initialize dir_ok config lg = (if lg_isUseDefaultLogs lg then Inr lg else LoadFromConfig dir_ok config lg)"

definition UsingDefaultLogs :: "bool \<Rightarrow> Log \<Rightarrow> Log" where
  "UsingDefaultLogs value lg =
     (let lg1 = lg\<lparr>lg_isUseDefaultLogs := value\<rparr> in
      if \<not> value then lg1
      else
        (let lg2 = (Clear lg1)\<lparr>lg_highestLogLevel := Debug\<rparr> in
         case make_channel ConsoleType (bytes_of ''Console'') Debug (bytes_of ''[%H:%M:%S] %t'')
             (map_sum id ConsoleImpl
               (UnixConsoleChannel_colors (bytes_of ''lightRed lightRed red brown cyan lightMagenta green''))) of
           Inl e \<Rightarrow> lg2
         | Inr consoleChannel \<Rightarrow>
             lg2\<lparr>lg_channels := um_emplace (bytes_of ''Console'') consoleChannel (lg_channels lg2),
                 lg_loggers := um_emplace (bytes_of ''root'')
                   (AddChannel (bytes_of ''Console'') \<lparr>lr_name = bytes_of ''root'', lr_channels = [], lr_level = Debug\<rparr>)
                   (lg_loggers lg2)\<rparr>))"

text \<open>The name before the last dot, or the root.\<close>

definition parentLogger :: "uint8 list \<Rightarrow> uint8 list" where
  "parentLogger type =
     (if 0x2e \<in> set type then rev (tl (dropWhile (\<lambda>c. c \<noteq> 0x2e) (rev type))) else LOGGER_ROOT)"

lemma parentLogger_length: "0x2e \<in> set type \<Longrightarrow> length (parentLogger type) < length type"
proof -
  assume "0x2e \<in> set type"
  then have "length (parentLogger type) = length (dropWhile (\<lambda>c. c \<noteq> 0x2e) (rev type)) - 1" "0 < length type"
    by (auto simp: parentLogger_def)
  then show ?thesis using length_dropWhile_le [of "\<lambda>c. c \<noteq> 0x2e" "rev type", unfolded length_rev] by linarith
qed

function GetLoggerByType :: "uint8 list \<Rightarrow> Log \<Rightarrow> Logger option" where
  "GetLoggerByType type lg =
     (case HasLogger type lg of
        Some logger \<Rightarrow> Some logger
      | None \<Rightarrow> if type = LOGGER_ROOT then None else GetLoggerByType (parentLogger type) lg)"
  by pat_completeness auto
termination
proof (relation "measure (\<lambda>(type, lg). if type = LOGGER_ROOT then 0 else Suc (length type))", goal_cases)
  case (2 type lg)
  then show ?case using parentLogger_length [of type] by (cases "0x2e \<in> set type") (auto simp: parentLogger_def)
qed simp

declare GetLoggerByType.simps [simp del]

definition ShouldLog :: "uint8 list \<Rightarrow> LogLevel \<Rightarrow> Log \<Rightarrow> bool" where
  "ShouldLog flt level lg =
     (if level > lg_highestLogLevel lg then False
      else
        (case GetLoggerByType flt lg of
           None \<Rightarrow> False
         | Some logger \<Rightarrow> lr_level logger \<noteq> Disabled \<and> lr_level logger \<ge> level))"

definition log_Write :: "log_env \<Rightarrow> LogMessage \<Rightarrow> Log \<Rightarrow> Log \<times> log_effect list" where
  "log_Write env msg lg =
     (case GetLoggerByType (lm_source msg) lg of
        None \<Rightarrow> (lg, [])
      | Some logger \<Rightarrow>
          (let (exc, chs, eff) = logger_Write env msg logger (lg_channels lg) in (lg\<lparr>lg_channels := chs\<rparr>, eff)))"

text \<open>
  The macro of all levels. \<open>text\<close> is the formatted text, or \<open>None\<close> when formatting throws; then \<open>wrong\<close> is logged.
\<close>

definition LOG_MSG_BODY ::
  "log_env \<Rightarrow> nat \<Rightarrow> uint8 list \<Rightarrow> nat \<Rightarrow> uint8 list \<Rightarrow> uint8 list \<Rightarrow> LogLevel \<Rightarrow> uint8 list option \<Rightarrow> Log \<Rightarrow>
     Log \<times> log_effect list" where
  "LOG_MSG_BODY env now srcfile line wrong flt level text lg =
     (if ShouldLog flt level lg then
        (case text of
           Some t \<Rightarrow>
             log_Write env \<lparr>lm_source = flt, lm_text = t, lm_level = level, lm_time = now, lm_file = srcfile,
               lm_line = line, lm_option = []\<rparr> lg
         | None \<Rightarrow>
             log_Write env \<lparr>lm_source = bytes_of ''server'', lm_text = wrong, lm_level = Error, lm_time = now,
               lm_file = srcfile, lm_line = line, lm_option = []\<rparr> lg)
      else (lg, []))"

definition OutCommand :: "log_env \<Rightarrow> nat \<Rightarrow> uint32 \<Rightarrow> uint8 list \<Rightarrow> Log \<Rightarrow> Log \<times> log_effect list" where
  "OutCommand env now accountID message lg =
     (if \<not> ShouldLog LOGGER_GM Info lg then (lg, [])
      else
        log_Write env \<lparr>lm_source = LOGGER_GM, lm_text = message, lm_level = Info, lm_time = now, lm_file = [],
          lm_line = 0, lm_option = to_text (uint accountID)\<rparr> lg)"

definition SetLoggerLevel :: "uint8 list \<Rightarrow> LogLevel \<Rightarrow> Log \<Rightarrow> Log" where
  "SetLoggerLevel name level lg =
     (if level \<ge> MaxLevel then lg
      else
        (let lg1 = (if level > lg_highestLogLevel lg then lg\<lparr>lg_highestLogLevel := level\<rparr> else lg)
         in lg1\<lparr>lg_loggers := um_modify name (\<lambda>lr. lr\<lparr>lr_level := level\<rparr>) (lg_loggers lg1)\<rparr>))"

definition SetChannelLevel :: "uint8 list \<Rightarrow> LogLevel \<Rightarrow> Log \<Rightarrow> Log" where
  "SetChannelLevel name level lg =
     (if level \<ge> MaxLevel then lg
      else lg\<lparr>lg_channels := um_modify name (\<lambda>ch. ch\<lparr>ch_level := level\<rparr>) (lg_channels lg)\<rparr>)"

section \<open>The nearest logger\<close>

text \<open>The parts of a name before its dots, the shortest first.\<close>

fun dotted :: "uint8 list \<Rightarrow> uint8 list list" where
  "dotted [] = []"
| "dotted (c # cs) = (if c = 0x2e then [[]] else []) @ map (Cons c) (dotted cs)"

lemma dotted_snoc: "dotted (xs @ [c]) = dotted xs @ (if c = 0x2e then [xs] else [])"
  by (induction xs) auto

lemma dotted_parent: "0x2e \<in> set type \<Longrightarrow> dotted type = dotted (parentLogger type) @ [parentLogger type]"
  by (induction type rule: rev_induct) (auto simp: dotted_snoc parentLogger_def)

lemma dotted_none: "0x2e \<notin> set type \<Longrightarrow> dotted type = []"
  by (induction type) auto

definition logger_names :: "uint8 list \<Rightarrow> uint8 list list" where
  "logger_names type = type # rev (dotted type) @ [LOGGER_ROOT]"

lemma root_no_dot: "0x2e \<notin> set LOGGER_ROOT"
  by code_simp

lemma logger_names_parent:
  assumes "HasLogger type lg = None" "type \<noteq> LOGGER_ROOT"
  shows "find (\<lambda>n. HasLogger n lg \<noteq> None) (logger_names type) = find (\<lambda>n. HasLogger n lg \<noteq> None) (logger_names (parentLogger type))"
proof (cases "0x2e \<in> set type")
  case True
  then show ?thesis using assms(1) by (simp add: logger_names_def dotted_parent)
next
  case False
  then show ?thesis using assms(1)
    by (auto simp: logger_names_def dotted_none parentLogger_def root_no_dot)
qed

text \<open>
  The logger of a message: it is the first that exists among the message's type, the parts of
  the type before its dots from the longest to the shortest, and the root logger; without any of
  them there is none. The search always ends.
\<close>

theorem nearest_logger:
  "GetLoggerByType type lg =
     (case find (\<lambda>n. HasLogger n lg \<noteq> None) (logger_names type) of None \<Rightarrow> None | Some n \<Rightarrow> HasLogger n lg)"
proof (induction type lg rule: GetLoggerByType.induct)
  case (1 type lg)
  show ?case
  proof (cases "HasLogger type lg")
    case None
    then show ?thesis using 1 [OF None] logger_names_parent [OF None]
      by (subst GetLoggerByType.simps)
        (auto simp: logger_names_def dotted_none [OF root_no_dot])
  next
    case (Some logger)
    then show ?thesis by (subst GetLoggerByType.simps) (simp add: logger_names_def)
  qed
qed

section \<open>The highest level\<close>

text \<open>Every logger's level is at most the highest one, and every logger's channels exist, once each.\<close>

definition logger_ok :: "LogLevel \<Rightarrow> channels \<Rightarrow> Logger \<Rightarrow> bool" where
  "logger_ok highest chs lr \<longleftrightarrow> lr_level lr \<le> highest \<and> set (lr_channels lr) \<subseteq> fst ` set chs"

definition log_ok :: "Log \<Rightarrow> bool" where
  "log_ok lg \<longleftrightarrow> distinct (map fst (lg_channels lg)) \<and>
     (\<forall>lr\<in>snd ` set (lg_loggers lg). logger_ok (lg_highestLogLevel lg) (lg_channels lg) lr)"

lemma logger_ok_mono:
  "logger_ok h chs lr \<Longrightarrow> h \<le> h' \<Longrightarrow> fst ` set chs \<subseteq> fst ` set chs' \<Longrightarrow> logger_ok h' chs' lr"
  by (auto simp: logger_ok_def)

lemma log_okI:
  assumes "log_ok lg" "snd ` set (lg_loggers lg') \<subseteq> insert lr (snd ` set (lg_loggers lg))"
    "lg_highestLogLevel lg \<le> lg_highestLogLevel lg'" "fst ` set (lg_channels lg) \<subseteq> fst ` set (lg_channels lg')"
    "logger_ok (lg_highestLogLevel lg') (lg_channels lg') lr" "distinct (map fst (lg_channels lg'))"
  shows "log_ok lg'"
  unfolding log_ok_def
proof (intro conjI ballI assms(6))
  fix x assume "x \<in> snd ` set (lg_loggers lg')"
  then have "x = lr \<or> logger_ok (lg_highestLogLevel lg) (lg_channels lg) x" using assms(1,2) unfolding log_ok_def by blast
  then show "logger_ok (lg_highestLogLevel lg') (lg_channels lg') x" using assms(5) logger_ok_mono [OF _ assms(3,4)] by metis
qed

lemma log_ok_same:
  assumes "log_ok lg" "lg_loggers lg' = lg_loggers lg" "lg_highestLogLevel lg \<le> lg_highestLogLevel lg'"
    "fst ` set (lg_channels lg) \<subseteq> fst ` set (lg_channels lg')" "distinct (map fst (lg_channels lg'))"
  shows "log_ok lg'"
  using assms(1,2,5) logger_ok_mono [OF _ assms(3,4)] unfolding log_ok_def by simp

lemma um_emplace_set: "set (um_emplace k v m) \<subseteq> insert (k, v) (set m)" "fst ` set m \<subseteq> fst ` set (um_emplace k v m)"
  by (auto simp: um_emplace_def)

lemma um_emplace_values: "snd ` set (um_emplace k v m) \<subseteq> insert v (snd ` set m)"
  using um_emplace_set(1) [of k v m] by force

lemma um_emplace_distinct: "distinct (map fst m) \<Longrightarrow> distinct (map fst (um_emplace k v m))"
  by (auto simp: um_emplace_def um_find_None)

lemma log_ok_Clear [simp]: "log_ok (Clear lg)"
  by (simp add: log_ok_def Clear_def)

lemma HasChannel_set: "HasChannel n lg = Some ch \<Longrightarrow> n \<in> fst ` set (lg_channels lg)"
  using um_find_None [of n "lg_channels lg"] by (auto simp: HasChannel_def)

lemma add_channels_ok:
  "logger_ok h (lg_channels lg) lr \<Longrightarrow> logger_ok h (lg_channels lg) (add_channels lg ns lr)"
proof (induction lg ns lr rule: add_channels.induct)
  case (2 lg n ns lr)
  have "logger_ok h (lg_channels lg) (AddChannel n lr)" if "HasChannel n lg = Some ch" for ch
    using 2(3) HasChannel_set [OF that] by (simp add: logger_ok_def AddChannel_def)
  then show ?case using 2 by (auto split: option.splits)
qed simp

lemma CreateLoggerFromConfig_ok: "log_ok lg \<Longrightarrow> log_ok (CreateLoggerFromConfig config name lg)"
proof -
  assume ok: "log_ok lg"
  have step: "log_ok (lg1\<lparr>lg_loggers := um_emplace n
      (add_channels lg1 ns \<lparr>lr_name = n, lr_channels = [], lr_level = level\<rparr>) (lg_loggers lg1)\<rparr>)"
    if "lg1 = (if level > lg_highestLogLevel lg then lg\<lparr>lg_highestLogLevel := level\<rparr> else lg)" for lg1 level n ns
  proof (rule log_okI [OF ok])
    have "logger_ok (lg_highestLogLevel lg1) (lg_channels lg1) \<lparr>lr_name = n, lr_channels = [], lr_level = level\<rparr>"
      using that by (auto simp: logger_ok_def)
    then show "logger_ok (lg_highestLogLevel (lg1\<lparr>lg_loggers := um_emplace n
      (add_channels lg1 ns \<lparr>lr_name = n, lr_channels = [], lr_level = level\<rparr>) (lg_loggers lg1)\<rparr>))
      (lg_channels (lg1\<lparr>lg_loggers := um_emplace n
      (add_channels lg1 ns \<lparr>lr_name = n, lr_channels = [], lr_level = level\<rparr>) (lg_loggers lg1)\<rparr>))
      (add_channels lg1 ns \<lparr>lr_name = n, lr_channels = [], lr_level = level\<rparr>)"
      using add_channels_ok by simp
  qed (use that ok in \<open>simp_all add: um_emplace_values less_imp_le log_ok_def\<close>)
  show ?thesis
    unfolding CreateLoggerFromConfig_def Let_def
    using ok step [OF refl] by (simp split: option.split)
qed

lemma CreateChannelsFromConfig_ok: "log_ok lg \<Longrightarrow> log_ok (CreateChannelsFromConfig config name lg)"
proof -
  assume ok: "log_ok lg"
  have "log_ok (lg\<lparr>lg_channels := um_emplace n ch (lg_channels lg)\<rparr>)" for n ch
    by (rule log_ok_same [OF ok]) (use ok in \<open>simp_all add: um_emplace_set(2) um_emplace_distinct log_ok_def\<close>)
  then show ?thesis using ok
    unfolding CreateChannelsFromConfig_def Let_def by (simp split: option.split sum.split)
qed

lemma foldl_ok: "P s \<Longrightarrow> (\<And>x s. P s \<Longrightarrow> P (f s x)) \<Longrightarrow> P (foldl f s xs)"
  by (induction xs arbitrary: s) auto

lemma ReadFromConfig_ok:
  "log_ok lg \<Longrightarrow> log_ok (ReadLoggersFromConfig config (ReadChannelsFromConfig config lg))"
  unfolding ReadLoggersFromConfig_def ReadChannelsFromConfig_def
  by (rule foldl_ok [of log_ok]) (rule foldl_ok [of log_ok], assumption, erule CreateChannelsFromConfig_ok, erule CreateLoggerFromConfig_ok)

lemma Initialize_ok: "log_ok lg \<Longrightarrow> Initialize dir_ok config lg = Inr lg' \<Longrightarrow> log_ok lg'"
  by (auto simp: Initialize_def LoadFromConfig_def Let_def intro!: ReadFromConfig_ok split: if_splits)

lemma UsingDefaultLogs_ok: "log_ok lg \<Longrightarrow> log_ok (UsingDefaultLogs value lg)"
proof -
  assume ok: "log_ok lg"
  have "log_ok ((Clear lg1)\<lparr>lg_highestLogLevel := Debug, lg_channels := um_emplace n ch (lg_channels (Clear lg1)),
      lg_loggers := um_emplace n' (AddChannel n \<lparr>lr_name = n', lr_channels = [], lr_level = Debug\<rparr>) (lg_loggers (Clear lg1))\<rparr>)" for lg1 n n' ch
    by (simp add: log_ok_def logger_ok_def Clear_def AddChannel_def um_emplace_def um_find_def)
  moreover have "log_ok ((Clear lg1)\<lparr>lg_highestLogLevel := Debug\<rparr>)" "log_ok (lg\<lparr>lg_isUseDefaultLogs := False\<rparr>)" for lg1
    using ok by (simp_all add: log_ok_def Clear_def)
  ultimately show ?thesis unfolding UsingDefaultLogs_def Let_def by (cases "value") (simp_all split: sum.split)
qed

lemma SetLoggerLevel_ok: "log_ok lg \<Longrightarrow> log_ok (SetLoggerLevel name level lg)"
proof -
  assume ok: "log_ok lg"
  let ?h = "if level > lg_highestLogLevel lg then level else lg_highestLogLevel lg"
  have "logger_ok ?h (lg_channels lg) lr"
    if lr: "lr \<in> snd ` set (um_modify name (\<lambda>lr. lr\<lparr>lr_level := level\<rparr>) (lg_loggers lg))" for lr
  proof -
    obtain k lr0 where "(k, lr0) \<in> set (lg_loggers lg)" and l: "lr = (if k = name then lr0\<lparr>lr_level := level\<rparr> else lr0)"
      using lr by (auto simp: um_modify_set)
    then have "logger_ok (lg_highestLogLevel lg) (lg_channels lg) lr0" using ok by (force simp: log_ok_def)
    then show ?thesis by (auto simp: l logger_ok_def)
  qed
  then have "\<forall>lr\<in>snd ` set (um_modify name (\<lambda>lr. lr\<lparr>lr_level := level\<rparr>) (lg_loggers lg)). logger_ok ?h (lg_channels lg) lr"
    by blast
  then show ?thesis using ok by (cases "lg_highestLogLevel lg < level") (simp_all add: SetLoggerLevel_def Let_def log_ok_def)
qed

lemma log_ok_channels:
  assumes "log_ok lg" "map fst chs = map fst (lg_channels lg)"
  shows "log_ok (lg\<lparr>lg_channels := chs\<rparr>)"
proof -
  have "fst ` set chs = fst ` set (lg_channels lg)" using assms(2) by (metis list.set_map)
  then show ?thesis using assms by (intro log_ok_same [OF assms(1)]) (simp_all add: log_ok_def)
qed

lemma SetChannelLevel_ok: "log_ok lg \<Longrightarrow> log_ok (SetChannelLevel name level lg)"
  by (simp add: SetChannelLevel_def log_ok_channels)

lemma write_channels_keys: "map fst (fst (snd (write_channels env msg ns chs))) = map fst chs"
  by (induction ns arbitrary: chs) (simp_all add: Let_def split_beta split: option.split)

lemma log_Write_ok: "log_ok lg \<Longrightarrow> log_ok (fst (log_Write env msg lg))"
  by (simp add: log_Write_def Let_def logger_Write_def split_beta write_channels_keys log_ok_channels split: option.split)

definition is_console :: "Channel \<Rightarrow> bool" where
  "is_console ch = (case ch_impl ch of ConsoleImpl _ \<Rightarrow> True | FileImpl _ \<Rightarrow> False)"

lemma GetLoggerByType_ok:
  assumes "log_ok lg" "GetLoggerByType flt lg = Some lr"
  shows "logger_ok (lg_highestLogLevel lg) (lg_channels lg) lr"
proof -
  have "\<exists>n. HasLogger n lg = Some lr" using assms(2)
    by (induction flt lg rule: GetLoggerByType.induct)
      (auto simp: GetLoggerByType.simps split: option.splits if_splits)
  then obtain n where "(n, lr) \<in> set (lg_loggers lg)" using map_of_SomeD by (fastforce simp: HasLogger_def um_find_def)
  then show ?thesis using assms(1) by (force simp: log_ok_def)
qed

lemma ex_Inr_iff: "(\<exists>y. r = Inr y) \<longleftrightarrow> (case r of Inl _ \<Rightarrow> False | Inr _ \<Rightarrow> True)"
  by (cases r) auto

lemma default_logs:
  "\<exists>ch. lg_channels (UsingDefaultLogs True lg) = [(bytes_of ''Console'', ch)] \<and> is_console ch \<and> ch_level ch = Debug \<and>
    lg_loggers (UsingDefaultLogs True lg) =
      [(bytes_of ''root'', \<lparr>lr_name = bytes_of ''root'', lr_channels = [bytes_of ''Console''], lr_level = Debug\<rparr>)]"
proof -
  have "\<exists>acts. ParsePattern (bytes_of ''[%H:%M:%S] %t'') = Inr acts"
      "\<exists>cn. UnixConsoleChannel_colors (bytes_of ''lightRed lightRed red brown cyan lightMagenta green'') = Inr cn"
    unfolding ex_Inr_iff by code_simp+
  then show ?thesis
    by (auto simp: UsingDefaultLogs_def Let_def make_channel_def Clear_def AddChannel_def um_emplace_def um_find_def is_console_def)
qed

section \<open>Delivery\<close>

text \<open>The states of the log.\<close>

inductive log_reach :: "Log \<Rightarrow> bool" where
  created: "new_Log = Inr lg \<Longrightarrow> log_reach lg"
| initialized: "log_reach lg \<Longrightarrow> Initialize dir_ok config lg = Inr lg' \<Longrightarrow> log_reach lg'"
| defaulted: "log_reach lg \<Longrightarrow> log_reach (UsingDefaultLogs value lg)"
| logger_set: "log_reach lg \<Longrightarrow> log_reach (SetLoggerLevel name level lg)"
| channel_set: "log_reach lg \<Longrightarrow> log_reach (SetChannelLevel name level lg)"
| logged: "log_reach lg \<Longrightarrow> log_reach (fst (LOG_MSG_BODY env now srcfile line wrong flt level text lg))"
| commanded: "log_reach lg \<Longrightarrow> log_reach (fst (OutCommand env now accountID message lg))"

lemma new_Log_ok: "new_Log = Inr lg \<Longrightarrow> log_ok lg"
  by (auto simp: new_Log_def RegisterChannel_def log_ok_def split: if_splits sum.splits)

lemma log_reach_ok: "log_reach lg \<Longrightarrow> log_ok lg"
proof (induction rule: log_reach.induct)
  case (logged lg env now srcfile line wrong flt level t)
  then show ?case using log_Write_ok by (simp add: LOG_MSG_BODY_def split: option.split)
next
  case (commanded lg env now accountID message)
  then show ?case using log_Write_ok by (simp add: OutCommand_def)
qed (auto intro: new_Log_ok Initialize_ok UsingDefaultLogs_ok SetLoggerLevel_ok SetChannelLevel_ok)

lemma um_modify_same: "distinct (map fst m) \<Longrightarrow> um_find k m = Some v \<Longrightarrow> um_modify k (\<lambda>_. v) m = m"
  unfolding um_modify_def um_find_def by (rule map_idI) (auto dest: eq_key_imp_eq_value)

lemma write_consoles:
  assumes "distinct (map fst chs)" "list_all (\<lambda>(_, ch). is_console ch) chs" "set ns \<subseteq> fst ` set chs"
  shows "write_channels env msg ns chs =
    (None, chs, concat (map (\<lambda>ch. snd (snd (channel_Write env msg ch)))
       (filter (\<lambda>ch. lm_level msg \<le> ch_level ch) (map (\<lambda>n. the (um_find n chs)) ns))))"
  using assms(3)
proof (induction ns)
  case (Cons n ns)
  then obtain ch where ch: "um_find n chs = Some ch" using um_find_None [of n chs] by auto
  then have "(n, ch) \<in> set chs" using map_of_SomeD by (fastforce simp: um_find_def)
  then have "is_console ch" using assms(2) by (auto simp: list_all_iff)
  then have w: "channel_Write env msg ch = (None, ch, snd (snd (channel_Write env msg ch)))"
    by (auto simp: is_console_def channel_Write_def split: channel_impl.splits)
  have IH: "write_channels env msg ns chs = (None, chs, concat (map (\<lambda>ch. snd (snd (channel_Write env msg ch)))
       (filter (\<lambda>ch. lm_level msg \<le> ch_level ch) (map (\<lambda>n. the (um_find n chs)) ns))))"
    using Cons by simp
  obtain eff where eff: "channel_Write env msg ch = (None, ch, eff)" using w by metis
  show ?case
    using ch um_modify_same [OF assms(1) ch]
    by (cases "ch_level ch < lm_level msg") (simp_all add: Let_def IH eff not_le [symmetric])
qed simp

lemma ShouldLog_exact:
  assumes "log_ok lg"
  shows "ShouldLog flt level lg \<longleftrightarrow>
    (\<exists>lr. GetLoggerByType flt lg = Some lr \<and> lr_level lr \<noteq> Disabled \<and> level \<le> lr_level lr)"
proof -
  have "logger_ok (lg_highestLogLevel lg) (lg_channels lg) lr" if "GetLoggerByType flt lg = Some lr" for lr
    using GetLoggerByType_ok [OF assms that] .
  then show ?thesis by (force simp: ShouldLog_def logger_ok_def split: option.split)
qed



end
