(* ===== verification/MessageBuffer.thy ===== *)
theory MessageBuffer
  imports Prelude
begin

text \<open>
  The byte buffer between the sockets and the packet layer,
  \<open>src/src/common/Utilities/MessageBuffer.h\<close>: a vector with a read and a write position.
  The operations that move bytes return \<open>UndefinedAccess\<close> where the C++ would run outside the
  vector; the lemmas show that the invariant \<open>mb_inv\<close> rules that out.
\<close>

section \<open>Data and operations\<close>

record message_buffer =
  mb_wpos :: nat
  mb_rpos :: nat
  mb_storage :: "uint8 list"

definition READ_BLOCK_SIZE :: nat where
  "READ_BLOCK_SIZE = 4096"

definition MessageBuffer_sized :: "nat \<Rightarrow> message_buffer" where
  "MessageBuffer_sized initialSize =
     \<lparr>mb_wpos = 0, mb_rpos = 0, mb_storage = vec_resize initialSize []\<rparr>"

definition MessageBuffer_default :: message_buffer where
  "MessageBuffer_default = MessageBuffer_sized READ_BLOCK_SIZE"

definition mb_Reset :: "message_buffer \<Rightarrow> message_buffer" where
  "mb_Reset m = m\<lparr>mb_wpos := 0, mb_rpos := 0\<rparr>"

definition mb_Resize :: "nat \<Rightarrow> message_buffer \<Rightarrow> message_buffer" where
  "mb_Resize bytes m = m\<lparr>mb_storage := vec_resize bytes (mb_storage m)\<rparr>"

definition mb_ReadCompleted :: "nat \<Rightarrow> message_buffer \<Rightarrow> message_buffer" where
  "mb_ReadCompleted bytes m = m\<lparr>mb_rpos := wrap64 (mb_rpos m + bytes)\<rparr>"

definition mb_WriteCompleted :: "nat \<Rightarrow> message_buffer \<Rightarrow> message_buffer" where
  "mb_WriteCompleted bytes m = m\<lparr>mb_wpos := wrap64 (mb_wpos m + bytes)\<rparr>"

definition mb_GetActiveSize :: "message_buffer \<Rightarrow> nat" where
  "mb_GetActiveSize m = sub64 (mb_wpos m) (mb_rpos m)"

definition mb_GetRemainingSpace :: "message_buffer \<Rightarrow> nat" where
  "mb_GetRemainingSpace m = sub64 (length (mb_storage m)) (mb_wpos m)"

definition mb_GetBufferSize :: "message_buffer \<Rightarrow> nat" where
  "mb_GetBufferSize m = length (mb_storage m)"

definition mb_HasActiveSize :: "message_buffer \<Rightarrow> bool" where
  "mb_HasActiveSize m \<longleftrightarrow> mb_GetActiveSize m > 0"

definition mb_HasRemainingSpace :: "message_buffer \<Rightarrow> bool" where
  "mb_HasRemainingSpace m \<longleftrightarrow> mb_GetRemainingSpace m > 0"

text \<open>Discards the inactive data; \<open>memmove\<close> reads the active bytes and writes them at the base.\<close>

definition mb_Normalize :: "message_buffer \<Rightarrow> message_buffer res" where
  "mb_Normalize m =
     (if mb_rpos m \<noteq> 0 then
        bindr (if mb_rpos m \<noteq> mb_wpos m then
                 bindr (mem_read ''Normalize'' (mb_rpos m) (mb_GetActiveSize m) (mb_storage m))
                   (\<lambda>bs. mem_write ''Normalize'' 0 bs (mb_storage m))
               else Inr (mb_storage m))
          (\<lambda>st. Inr (m\<lparr>mb_storage := st, mb_wpos := sub64 (mb_wpos m) (mb_rpos m), mb_rpos := 0\<rparr>))
      else Inr m)"

definition mb_EnsureFreeSpace :: "message_buffer \<Rightarrow> message_buffer" where
  "mb_EnsureFreeSpace m =
     (if mb_GetRemainingSpace m = 0
      then mb_Resize (wrap64 (length (mb_storage m) * 3) div 2) m else m)"

definition mb_Write :: "uint8 list \<Rightarrow> message_buffer \<Rightarrow> message_buffer res" where
  "mb_Write bs m =
     (if length bs \<noteq> 0 then
        bindr (mem_write ''MessageBuffer::Write'' (mb_wpos m) bs (mb_storage m))
          (\<lambda>st. Inr (mb_WriteCompleted (length bs) (m\<lparr>mb_storage := st\<rparr>)))
      else Inr m)"

text \<open>\<open>Move()\<close>: the vector is given away, the positions are reset and the vector is left empty.\<close>

definition mb_Move :: "message_buffer \<Rightarrow> uint8 list \<times> message_buffer" where
  "mb_Move m = (mb_storage m, m\<lparr>mb_wpos := 0, mb_rpos := 0, mb_storage := []\<rparr>)"

text \<open>The bytes a read of \<open>n\<close> bytes at \<open>GetReadPointer()\<close> sees.\<close>

definition mb_peek :: "nat \<Rightarrow> message_buffer \<Rightarrow> uint8 list res" where
  "mb_peek n m = mem_read ''GetReadPointer'' (mb_rpos m) n (mb_storage m)"

section \<open>Invariant and abstraction\<close>

text \<open>The storage bound keeps \<open>size * 3\<close> below \<open>2 ^ 64\<close>, as every real vector does.\<close>

definition mb_inv :: "message_buffer \<Rightarrow> bool" where
  "mb_inv m \<longleftrightarrow> mb_rpos m \<le> mb_wpos m \<and> mb_wpos m \<le> length (mb_storage m)
     \<and> length (mb_storage m) < 2 ^ 60"

definition mb_active :: "message_buffer \<Rightarrow> uint8 list" where
  "mb_active m = take (mb_wpos m - mb_rpos m) (drop (mb_rpos m) (mb_storage m))"

lemmas mb_defs = mb_Reset_def mb_Resize_def mb_ReadCompleted_def mb_WriteCompleted_def
  mb_HasActiveSize_def mb_HasRemainingSpace_def mb_GetBufferSize_def MessageBuffer_sized_def

lemma mb_active_size [simp]: "mb_inv m \<Longrightarrow> mb_GetActiveSize m = length (mb_active m)"
  by (auto simp: mb_inv_def mb_GetActiveSize_def mb_active_def size64)

lemma mb_remaining [simp]:
  "mb_inv m \<Longrightarrow> mb_GetRemainingSpace m = length (mb_storage m) - mb_wpos m"
  by (simp add: mb_inv_def mb_GetRemainingSpace_def size64)

lemma mb_inv_sized [simp]: "n < 2 ^ 60 \<Longrightarrow> mb_inv (MessageBuffer_sized n)"
  by (simp add: mb_inv_def MessageBuffer_sized_def)

lemma mb_active_sized [simp]: "mb_active (MessageBuffer_sized n) = []"
  by (simp add: mb_active_def MessageBuffer_sized_def)

lemma mb_peek_ok:
  assumes "mb_inv m" and "n \<le> length (mb_active m)"
  shows "mb_peek n m = Inr (take n (mb_active m))"
  using assms by (auto simp: mb_inv_def mb_peek_def mb_active_def mem_read_def)

lemma mb_ReadCompleted_active:
  assumes "mb_inv m" and "n \<le> length (mb_active m)"
  shows "mb_inv (mb_ReadCompleted n m)" and "mb_active (mb_ReadCompleted n m) = drop n (mb_active m)"
    and "mb_storage (mb_ReadCompleted n m) = mb_storage m"
  using assms by (auto simp: mb_inv_def mb_ReadCompleted_def mb_active_def size64 drop_take add.commute)

lemma mb_Write_ok:
  assumes "mb_inv m" and "length bs \<le> mb_GetRemainingSpace m"
  shows "\<exists>m'. mb_Write bs m = Inr m' \<and> mb_inv m' \<and> mb_active m' = mb_active m @ bs
     \<and> mb_rpos m' = mb_rpos m \<and> mb_wpos m' = mb_wpos m + length bs
     \<and> length (mb_storage m') = length (mb_storage m)"
proof (cases "bs = []")
  case True
  with assms show ?thesis by (simp add: mb_Write_def)
next
  case False
  have len: "mb_wpos m + length bs \<le> length (mb_storage m)" "mb_rpos m \<le> mb_wpos m"
    using assms by (auto simp: mb_inv_def size64 mb_GetRemainingSpace_def)
  with assms(1) False show ?thesis
    by (auto simp: mb_Write_def storage mb_WriteCompleted_def mb_inv_def mb_active_def size64 drop_take)
qed

lemma mb_Normalize_ok:
  assumes "mb_inv m"
  shows "\<exists>m'. mb_Normalize m = Inr m' \<and> mb_inv m' \<and> mb_active m' = mb_active m \<and> mb_rpos m' = 0
     \<and> mb_GetRemainingSpace m' = mb_GetRemainingSpace m + mb_rpos m"
proof (cases "mb_rpos m = 0")
  case True
  with assms show ?thesis by (simp add: mb_Normalize_def)
next
  case False
  have b: "mb_rpos m \<le> mb_wpos m" "mb_wpos m \<le> length (mb_storage m)" "length (mb_storage m) < 2 ^ 60"
    using assms by (auto simp: mb_inv_def)
  then have s: "sub64 (mb_wpos m) (mb_rpos m) = mb_wpos m - mb_rpos m"
    by (simp add: size64)
  have a: "mb_GetActiveSize m = mb_wpos m - mb_rpos m"
    by (simp add: mb_GetActiveSize_def s)
  show ?thesis
    using b False
    by (auto simp: mb_Normalize_def a s storage mb_inv_def mb_active_def mb_GetRemainingSpace_def size64)
qed

lemma mb_EnsureFreeSpace_ok:
  assumes "mb_inv m" "2 \<le> length (mb_storage m)" "length (mb_storage m) < 2 ^ 59"
  shows "mb_inv (mb_EnsureFreeSpace m) \<and> mb_active (mb_EnsureFreeSpace m) = mb_active m
     \<and> 0 < mb_GetRemainingSpace (mb_EnsureFreeSpace m) \<and> mb_rpos (mb_EnsureFreeSpace m) = mb_rpos m"
proof (cases "mb_GetRemainingSpace m = 0")
  case True
  with assms have w: "mb_wpos m = length (mb_storage m)" by (simp add: mb_inv_def)
  have "wrap64 (length (mb_storage m) * 3) = length (mb_storage m) * 3" using assms by (simp add: size64)
  then have e: "mb_EnsureFreeSpace m = mb_Resize (length (mb_storage m) * 3 div 2) m"
    using True by (simp add: mb_EnsureFreeSpace_def)
  have "length (mb_storage m) < length (mb_storage m) * 3 div 2" using assms(2) by linarith
  with assms w show ?thesis
    by (auto simp: e mb_Resize_def mb_inv_def mb_active_def vec_resize_def mb_GetRemainingSpace_def size64)
next
  case False
  with assms show ?thesis by (simp add: mb_EnsureFreeSpace_def)
qed

text \<open>
  \<open>MessageBuffer::Normalize\<close> on a well-formed buffer never reads or writes outside its
  storage, keeps exactly the unread bytes, moves them to the front and gives their old offset
  back as free space.
\<close>

theorem Normalize_keeps_unread:
  assumes "mb_inv m"
  shows "\<exists>m'. mb_Normalize m = Inr m' \<and> mb_inv m' \<and> mb_active m' = mb_active m \<and> mb_rpos m' = 0
     \<and> mb_GetRemainingSpace m' = mb_GetRemainingSpace m + mb_rpos m"
  using assms by (rule mb_Normalize_ok)

theorem Normalize_keeps_unread_witness:
  "\<exists>m'. mb_Normalize \<lparr>mb_wpos = 3, mb_rpos = 1, mb_storage = [9, 7, 8, 0]\<rparr> = Inr m'
     \<and> mb_active m' = [7, 8] \<and> mb_GetRemainingSpace m' = 2"
  using Normalize_keeps_unread [of "\<lparr>mb_wpos = 3, mb_rpos = 1, mb_storage = [9, 7, 8, 0]\<rparr>"]
  by (auto simp: mb_inv_def mb_active_def)

end
