(* ===== verification/ByteConverter.thy ===== *)
theory ByteConverter
  imports Prelude
begin

text \<open>
  Byte order: \<open>src/src/common/Utilities/ByteConverter.h\<close>. A value of a fundamental type is
  a word; its bytes in the memory of the host follow the host's byte order, which is a compile
  time constant (\<open>WARHEAD_ENDIAN\<close>) and a parameter here. The results: \<open>ByteConverter::convert\<close>
  reverses its bytes, and the bytes written after \<open>EndianConvert\<close> are little endian on either
  host.
\<close>

section \<open>Words as bytes\<close>

datatype endian = WARHEAD_LITTLEENDIAN | WARHEAD_BIGENDIAN

definition le_bytes :: "'a::len word \<Rightarrow> uint8 list" where
  "le_bytes w = map (\<lambda>i. ucast (drop_bit (8 * i) w)) [0..<LENGTH('a) div 8]"

primrec le_word :: "uint8 list \<Rightarrow> 'a::len word" where
  "le_word [] = 0"
| "le_word (b # bs) = (ucast b OR push_bit 8 (le_word bs))"

text \<open>The bytes of a value in the host's memory, and the value the host reads from them.\<close>

definition mem_bytes :: "endian \<Rightarrow> 'a::len word \<Rightarrow> uint8 list" where
  "mem_bytes h w = (case h of WARHEAD_LITTLEENDIAN \<Rightarrow> le_bytes w | WARHEAD_BIGENDIAN \<Rightarrow> rev (le_bytes w))"

definition mem_value :: "endian \<Rightarrow> uint8 list \<Rightarrow> 'a::len word" where
  "mem_value h bs = (case h of WARHEAD_LITTLEENDIAN \<Rightarrow> le_word bs | WARHEAD_BIGENDIAN \<Rightarrow> le_word (rev bs))"

section \<open>The converter\<close>

text \<open>\<open>convert<T>\<close>: swap the outer bytes, then convert the \<open>T - 2\<close> bytes between them.\<close>

fun convert :: "uint8 list \<Rightarrow> uint8 list" where
  "convert [] = []"
| "convert [b] = [b]"
| "convert (b # c # bs) = last (c # bs) # convert (butlast (c # bs)) @ [b]"

definition byte_apply :: "endian \<Rightarrow> 'a::len word \<Rightarrow> 'a word" where
  "byte_apply h v = mem_value h (convert (mem_bytes h v))"

definition EndianConvert :: "endian \<Rightarrow> 'a::len word \<Rightarrow> 'a word" where
  "EndianConvert h v = (if h = WARHEAD_BIGENDIAN then byte_apply h v else v)"

definition EndianConvertReverse :: "endian \<Rightarrow> 'a::len word \<Rightarrow> 'a word" where
  "EndianConvertReverse h v = (if h = WARHEAD_BIGENDIAN then v else byte_apply h v)"

section \<open>Facts on words and bytes\<close>

lemma length_le_bytes [simp]: "length (le_bytes (w :: 'a::len word)) = LENGTH('a) div 8"
  by (simp add: le_bytes_def)

lemma length_mem_bytes [simp]: "length (mem_bytes h (w :: 'a::len word)) = LENGTH('a) div 8"
  by (simp add: mem_bytes_def split: endian.split)

lemma bit_le_word:
  "bit (le_word bs :: 'a::len word) n \<longleftrightarrow>
     n < LENGTH('a) \<and> n div 8 < length bs \<and> bit (bs ! (n div 8)) (n mod 8)"
proof (induction bs arbitrary: n)
  case Nil
  then show ?case by simp
next
  case (Cons b bs)
  show ?case
  proof (cases "n < 8")
    case True
    then show ?thesis by (auto simp: bit_or_iff bit_push_bit_iff bit_ucast_iff)
  next
    case False
    then have n: "n div 8 = Suc ((n - 8) div 8)" "n mod 8 = (n - 8) mod 8"
      by (auto simp: le_div_geq le_mod_geq)
    have "\<not> bit b n" using False by (simp add: bit_word.rep_eq)
    then show ?thesis
      using False Cons.IH [of "n - 8"] unfolding n
      by (auto simp: bit_or_iff bit_push_bit_iff bit_ucast_iff)
  qed
qed

lemma le_word_bytes:
  assumes "8 dvd LENGTH('a)"
  shows "le_word (le_bytes (w :: 'a::len word)) = w"
proof (rule bit_word_eqI)
  fix n assume n: "n < LENGTH('a)"
  with assms have "n div 8 < LENGTH('a) div 8" by auto
  moreover have "8 * (n div 8) + n mod 8 = n" by simp
  ultimately show "bit (le_word (le_bytes w) :: 'a word) n = bit w n"
    using n by (simp add: bit_le_word le_bytes_def bit_ucast_iff bit_drop_bit_eq)
qed

lemma le_bytes_word:
  assumes "8 * length bs = LENGTH('a)"
  shows "le_bytes (le_word bs :: 'a::len word) = bs"
proof (rule nth_equalityI)
  show len: "length (le_bytes (le_word bs :: 'a word)) = length bs"
    using assms by simp
  fix i assume "i < length (le_bytes (le_word bs :: 'a word))"
  with len have i: "i < length bs" by simp
  have d: "LENGTH('a) div 8 = length bs" using len by simp
  show "le_bytes (le_word bs :: 'a word) ! i = bs ! i"
  proof (rule bit_word_eqI)
    fix n assume n: "n < LENGTH(8)"
    with i assms have "8 * i + n < LENGTH('a)" by simp
    moreover have "(8 * i + n) div 8 = i" "(8 * i + n) mod 8 = n" using n by simp_all
    ultimately show "bit (le_bytes (le_word bs :: 'a word) ! i) n = bit (bs ! i) n"
      using i n d by (simp add: le_bytes_def bit_ucast_iff bit_drop_bit_eq bit_le_word)
  qed
qed

lemma mem_value_bytes [simp]:
  "8 dvd LENGTH('a) \<Longrightarrow> mem_value h (mem_bytes h (w :: 'a::len word)) = w"
  by (simp add: mem_value_def mem_bytes_def le_word_bytes split: endian.split)

lemma mem_bytes_value [simp]:
  "8 * length bs = LENGTH('a) \<Longrightarrow> mem_bytes h (mem_value h bs :: 'a::len word) = bs"
  by (simp add: mem_value_def mem_bytes_def le_bytes_word split: endian.split)

lemma convert_rev: "convert bs = rev bs"
proof (induction bs rule: convert.induct)
  case (3 b c bs)
  have "rev (c # bs) = last (c # bs) # rev (butlast (c # bs))"
    by (metis append_butlast_last_id list.distinct(1) rev.simps(1) rev_rev_ident rev_append
        append_Cons append_Nil rev.simps(2))
  with 3 show ?case by simp
qed simp_all

lemma EndianConvert_wire:
  "8 dvd LENGTH('a) \<Longrightarrow> mem_bytes h (EndianConvert h (w :: 'a::len word)) = le_bytes w"
  by (cases h) (auto simp: EndianConvert_def byte_apply_def convert_rev mem_bytes_def mem_value_def
      le_bytes_word)

lemma EndianConvert_from_wire:
  assumes "8 * length bs = LENGTH('a)"
  shows "EndianConvert h (mem_value h bs :: 'a::len word) = le_word bs"
  using assms by (cases h)
    (auto simp: EndianConvert_def byte_apply_def convert_rev mem_bytes_def mem_value_def le_bytes_word)

lemma EndianConvertReverse_from_wire:
  assumes "8 * length bs = LENGTH('a)"
  shows "EndianConvertReverse h (mem_value h bs :: 'a::len word) = le_word (rev bs)"
  using assms by (cases h)
    (auto simp: EndianConvertReverse_def byte_apply_def convert_rev mem_bytes_def mem_value_def
      le_bytes_word)

end
