(* ===== verification/ByteBuffer.thy ===== *)
theory ByteBuffer
  imports MessageBuffer ByteConverter Utf8
begin

text \<open>
  The packet payload, \<open>src/src/server/Server/Packets/ByteBuffer.h\<close> and \<open>ByteBuffer.cpp\<close>:
  a byte vector with a read and a write position, typed appends and reads, strings, packed
  GUIDs and packed times. A \<open>throw\<close> is an \<open>Inl\<close>; the buffer of a failed read is dropped, as
  every caller does. The vector's capacity is not modelled: \<open>reserve\<close> and \<open>shrink_to_fit\<close> do
  not change its contents.

  A position that a check has passed is at most the size of the storage, so the sums stored into
  the positions do not wrap and are written on \<^typ>\<open>nat\<close>; the sums the checks themselves compute
  are on 64 bits.
\<close>

section \<open>Data and constructors\<close>

record byte_buffer =
  bb_rpos :: nat
  bb_wpos :: nat
  bb_storage :: "uint8 list"

abbreviation bb_size :: "byte_buffer \<Rightarrow> nat" where
  "bb_size b \<equiv> length (bb_storage b)"

definition ByteBuffer_new :: byte_buffer where
  "ByteBuffer_new = \<lparr>bb_rpos = 0, bb_wpos = 0, bb_storage = []\<rparr>"

text \<open>\<open>ByteBuffer(char const*, size_t)\<close> reserves and copies into the reserved memory; the vector
  stays empty.\<close>

definition ByteBuffer_from_chars :: "uint8 list \<Rightarrow> byte_buffer" where
  "ByteBuffer_from_chars buffer = \<lparr>bb_rpos = 0, bb_wpos = 0, bb_storage = []\<rparr>"

definition ByteBuffer_move :: "byte_buffer \<Rightarrow> byte_buffer \<times> byte_buffer" where
  "ByteBuffer_move buf = (buf, \<lparr>bb_rpos = 0, bb_wpos = 0, bb_storage = []\<rparr>)"

definition ByteBuffer_of_MessageBuffer :: "message_buffer \<Rightarrow> byte_buffer \<times> message_buffer" where
  "ByteBuffer_of_MessageBuffer buffer =
     (let (st, buffer') = mb_Move buffer
      in (\<lparr>bb_rpos = 0, bb_wpos = 0, bb_storage = st\<rparr>, buffer'))"

definition bb_clear :: "byte_buffer \<Rightarrow> byte_buffer" where
  "bb_clear b = b\<lparr>bb_storage := [], bb_rpos := 0, bb_wpos := 0\<rparr>"

section \<open>Writing\<close>

definition bb_append :: "uint8 list \<Rightarrow> byte_buffer \<Rightarrow> byte_buffer res" where
  "bb_append src b =
     (let cnt = length src in
      if cnt = 0 then Inl (AssertFailure ''Attempted to put a zero-sized value in ByteBuffer'')
      else if \<not> bb_size b < 10000000 then Inl (AssertFailure ''size() < 10000000'')
      else
        let newSize = bb_wpos b + cnt;
            st = (if bb_size b < newSize then vec_resize newSize (bb_storage b) else bb_storage b)
        in bindr (mem_write ''ByteBuffer::append'' (bb_wpos b) src st)
             (\<lambda>st'. Inr (b\<lparr>bb_storage := st', bb_wpos := newSize\<rparr>)))"

definition bb_append_value :: "endian \<Rightarrow> 'a::len word \<Rightarrow> byte_buffer \<Rightarrow> byte_buffer res" where
  "bb_append_value h value b = bb_append (mem_bytes h (EndianConvert h value)) b"

definition bb_put_bytes :: "nat \<Rightarrow> uint8 list \<Rightarrow> byte_buffer \<Rightarrow> byte_buffer res" where
  "bb_put_bytes pos src b =
     (let cnt = length src in
      if \<not> wrap64 (pos + cnt) \<le> bb_size b then Inl (AssertFailure ''Attempted to put value with size'')
      else if cnt = 0 then Inl (AssertFailure ''Attempted to put a zero-sized value in ByteBuffer'')
      else bindr (mem_write ''ByteBuffer::put'' pos src (bb_storage b))
             (\<lambda>st. Inr (b\<lparr>bb_storage := st\<rparr>)))"

definition bb_put_value :: "endian \<Rightarrow> nat \<Rightarrow> 'a::len word \<Rightarrow> byte_buffer \<Rightarrow> byte_buffer res" where
  "bb_put_value h pos value b = bb_put_bytes pos (mem_bytes h (EndianConvert h value)) b"

definition shl_bool :: "endian \<Rightarrow> bool \<Rightarrow> byte_buffer \<Rightarrow> byte_buffer res" where
  "shl_bool h value b = bb_append_value h (if value then 1 else 0 :: uint8) b"

definition shl_uint8 :: "endian \<Rightarrow> uint8 \<Rightarrow> byte_buffer \<Rightarrow> byte_buffer res" where
  "shl_uint8 h value b = bb_append_value h value b"

definition shl_uint16 :: "endian \<Rightarrow> uint16 \<Rightarrow> byte_buffer \<Rightarrow> byte_buffer res" where
  "shl_uint16 h value b = bb_append_value h value b"

definition shl_uint32 :: "endian \<Rightarrow> uint32 \<Rightarrow> byte_buffer \<Rightarrow> byte_buffer res" where
  "shl_uint32 h value b = bb_append_value h value b"

definition shl_uint64 :: "endian \<Rightarrow> uint64 \<Rightarrow> byte_buffer \<Rightarrow> byte_buffer res" where
  "shl_uint64 h value b = bb_append_value h value b"

definition shl_int8 :: "endian \<Rightarrow> int8 \<Rightarrow> byte_buffer \<Rightarrow> byte_buffer res" where
  "shl_int8 h value b = bb_append_value h value b"

definition shl_int16 :: "endian \<Rightarrow> int16 \<Rightarrow> byte_buffer \<Rightarrow> byte_buffer res" where
  "shl_int16 h value b = bb_append_value h value b"

definition shl_int32 :: "endian \<Rightarrow> int32 \<Rightarrow> byte_buffer \<Rightarrow> byte_buffer res" where
  "shl_int32 h value b = bb_append_value h value b"

definition shl_int64 :: "endian \<Rightarrow> int64 \<Rightarrow> byte_buffer \<Rightarrow> byte_buffer res" where
  "shl_int64 h value b = bb_append_value h value b"

definition shl_float :: "endian \<Rightarrow> uint32 \<Rightarrow> byte_buffer \<Rightarrow> byte_buffer res" where
  "shl_float h value b = bb_append_value h value b"

definition shl_double :: "endian \<Rightarrow> uint64 \<Rightarrow> byte_buffer \<Rightarrow> byte_buffer res" where
  "shl_double h value b = bb_append_value h value b"

definition shl_string :: "endian \<Rightarrow> string \<Rightarrow> byte_buffer \<Rightarrow> byte_buffer res" where
  "shl_string h value b =
     bindr (if length value \<noteq> 0 then bb_append (map byte_of_char value) b else Inr b)
       (\<lambda>b'. bb_append_value h (0 :: uint8) b')"

section \<open>Reading\<close>

definition bb_read_at :: "endian \<Rightarrow> nat \<Rightarrow> byte_buffer \<Rightarrow> 'a::len word res" where
  "bb_read_at h pos b =
     (let n = LENGTH('a) div 8 in
      if wrap64 (pos + n) > bb_size b then Inl (ByteBufferPositionException False pos n (bb_size b))
      else bindr (mem_read ''ByteBuffer::read'' pos n (bb_storage b))
             (\<lambda>bs. Inr (EndianConvert h (mem_value h bs))))"

definition bb_read :: "endian \<Rightarrow> byte_buffer \<Rightarrow> ('a::len word \<times> byte_buffer) res" where
  "bb_read h b =
     bindr (bb_read_at h (bb_rpos b) b)
       (\<lambda>r. Inr (r :: 'a word, b\<lparr>bb_rpos := bb_rpos b + LENGTH('a) div 8\<rparr>))"

definition bb_read_bytes :: "nat \<Rightarrow> byte_buffer \<Rightarrow> (uint8 list \<times> byte_buffer) res" where
  "bb_read_bytes len b =
     (if wrap64 (bb_rpos b + len) > bb_size b
      then Inl (ByteBufferPositionException False (bb_rpos b) len (bb_size b))
      else bindr (mem_read ''ByteBuffer::read'' (bb_rpos b) len (bb_storage b))
             (\<lambda>bs. Inr (bs, b\<lparr>bb_rpos := bb_rpos b + len\<rparr>)))"

definition shr_array :: "nat \<Rightarrow> byte_buffer \<Rightarrow> (uint8 list \<times> byte_buffer) res" where
  "shr_array Size b = bb_read_bytes Size b"

text \<open>\<open>read_skip\<close> only moves the position, which wraps with the sum it checks.\<close>

definition bb_read_skip :: "nat \<Rightarrow> byte_buffer \<Rightarrow> byte_buffer res" where
  "bb_read_skip skip b =
     (if wrap64 (bb_rpos b + skip) > bb_size b
      then Inl (ByteBufferPositionException False (bb_rpos b) skip (bb_size b))
      else Inr (b\<lparr>bb_rpos := wrap64 (bb_rpos b + skip)\<rparr>))"

definition bb_index :: "nat \<Rightarrow> byte_buffer \<Rightarrow> uint8 res" where
  "bb_index pos b =
     (if pos \<ge> bb_size b then Inl (ByteBufferPositionException False pos 1 (bb_size b))
      else Inr (bb_storage b ! pos))"

definition bb_set_rpos :: "nat \<Rightarrow> byte_buffer \<Rightarrow> byte_buffer" where
  "bb_set_rpos r b = b\<lparr>bb_rpos := r\<rparr>"

definition bb_set_wpos :: "nat \<Rightarrow> byte_buffer \<Rightarrow> byte_buffer" where
  "bb_set_wpos w b = b\<lparr>bb_wpos := w\<rparr>"

definition bb_rfinish :: "byte_buffer \<Rightarrow> byte_buffer" where
  "bb_rfinish b = b\<lparr>bb_rpos := bb_wpos b\<rparr>"

definition bb_contents :: "byte_buffer \<Rightarrow> uint8 list res" where
  "bb_contents b = (if bb_storage b = [] then Inl ByteBufferPlainException else Inr (bb_storage b))"

definition bb_resize :: "nat \<Rightarrow> byte_buffer \<Rightarrow> byte_buffer" where
  "bb_resize newsize b =
     b\<lparr>bb_storage := vec_resize newsize (bb_storage b), bb_rpos := 0, bb_wpos := newsize\<rparr>"

definition bb_append_buffer :: "byte_buffer \<Rightarrow> byte_buffer \<Rightarrow> byte_buffer res" where
  "bb_append_buffer buffer b =
     (if bb_wpos buffer \<noteq> 0 then
        bindr (bb_contents buffer) (\<lambda>c.
          bindr (mem_read ''ByteBuffer::append'' 0 (bb_wpos buffer) c) (\<lambda>src. bb_append src b))
      else Inr b)"

text \<open>\<open>operator>>(bool&)\<close> reads a (signed) \<open>char\<close> and compares it with zero.\<close>

definition shr_bool :: "endian \<Rightarrow> byte_buffer \<Rightarrow> (bool \<times> byte_buffer) res" where
  "shr_bool h b = bindr (bb_read h b) (\<lambda>(c :: uint8, b'). Inr (sint c > 0, b'))"

definition shr_uint8 :: "endian \<Rightarrow> byte_buffer \<Rightarrow> (uint8 \<times> byte_buffer) res" where
  "shr_uint8 h b = bb_read h b"

definition shr_uint16 :: "endian \<Rightarrow> byte_buffer \<Rightarrow> (uint16 \<times> byte_buffer) res" where
  "shr_uint16 h b = bb_read h b"

definition shr_uint32 :: "endian \<Rightarrow> byte_buffer \<Rightarrow> (uint32 \<times> byte_buffer) res" where
  "shr_uint32 h b = bb_read h b"

definition shr_uint64 :: "endian \<Rightarrow> byte_buffer \<Rightarrow> (uint64 \<times> byte_buffer) res" where
  "shr_uint64 h b = bb_read h b"

definition shr_int8 :: "endian \<Rightarrow> byte_buffer \<Rightarrow> (int8 \<times> byte_buffer) res" where
  "shr_int8 h b = bb_read h b"

definition shr_int16 :: "endian \<Rightarrow> byte_buffer \<Rightarrow> (int16 \<times> byte_buffer) res" where
  "shr_int16 h b = bb_read h b"

definition shr_int32 :: "endian \<Rightarrow> byte_buffer \<Rightarrow> (int32 \<times> byte_buffer) res" where
  "shr_int32 h b = bb_read h b"

definition shr_int64 :: "endian \<Rightarrow> byte_buffer \<Rightarrow> (int64 \<times> byte_buffer) res" where
  "shr_int64 h b = bb_read h b"

lemmas shift_ops = shl_uint8_def shr_uint8_def shl_uint16_def shr_uint16_def shl_uint32_def shr_uint32_def
  shl_uint64_def shr_uint64_def shl_int8_def shr_int8_def shl_int16_def shr_int16_def
  shl_int32_def shr_int32_def shl_int64_def shr_int64_def

text \<open>Floating point values as their IEEE bit patterns: finite means an exponent that is not all
  ones.\<close>

definition isfinite32 :: "uint32 \<Rightarrow> bool" where
  "isfinite32 v \<longleftrightarrow> drop_bit 23 v AND 0xff \<noteq> 0xff"

definition isfinite64 :: "uint64 \<Rightarrow> bool" where
  "isfinite64 v \<longleftrightarrow> drop_bit 52 v AND 0x7ff \<noteq> 0x7ff"

definition shr_float :: "endian \<Rightarrow> byte_buffer \<Rightarrow> (uint32 \<times> byte_buffer) res" where
  "shr_float h b = bindr (bb_read h b) (\<lambda>(v, b').
     if \<not> isfinite32 v then Inl (ByteBufferInvalidValueException ''float'' ''infinity'') else Inr (v, b'))"

definition shr_double :: "endian \<Rightarrow> byte_buffer \<Rightarrow> (uint64 \<times> byte_buffer) res" where
  "shr_double h b = bindr (bb_read h b) (\<lambda>(v, b').
     if \<not> isfinite64 v then Inl (ByteBufferInvalidValueException ''double'' ''infinity'') else Inr (v, b'))"

lemma bb_read_rpos: "bb_read h b = Inr (v :: 'a::len word, b') \<Longrightarrow>
    bb_storage b' = bb_storage b \<and> bb_rpos b' = bb_rpos b + LENGTH('a) div 8"
  by (auto simp: bb_read_def)

text \<open>\<open>ReadCString\<close>: read characters up to a zero byte or the end of the storage.\<close>

function read_cstring_loop :: "endian \<Rightarrow> string \<Rightarrow> byte_buffer \<Rightarrow> (string \<times> byte_buffer) res" where
  "read_cstring_loop h value b =
     (if bb_rpos b < bb_size b then
        bindr (bb_read h b) (\<lambda>(c :: uint8, b').
          if c = 0 then Inr (value, b') else read_cstring_loop h (value @ [char_of_byte c]) b')
      else Inr (value, b))"
  by pat_completeness auto
termination
  by (relation "measure (\<lambda>(h, value, b). bb_size b - bb_rpos b)") (auto dest!: bb_read_rpos)

declare read_cstring_loop.simps [simp del]

definition ReadCString :: "endian \<Rightarrow> bool \<Rightarrow> byte_buffer \<Rightarrow> (string \<times> byte_buffer) res" where
  "ReadCString h requireValidUtf8 b =
     bindr (read_cstring_loop h [] b) (\<lambda>(value, b').
       if requireValidUtf8 \<and> \<not> utf8_is_valid (map byte_of_char value)
       then Inl (ByteBufferInvalidValueException ''string'' value)
       else Inr (value, b'))"

definition shr_string :: "endian \<Rightarrow> byte_buffer \<Rightarrow> (string \<times> byte_buffer) res" where
  "shr_string h b = ReadCString h True b"

section \<open>Packed GUIDs\<close>

primrec read_guid_loop ::
  "endian \<Rightarrow> uint8 \<Rightarrow> nat list \<Rightarrow> uint64 \<Rightarrow> byte_buffer \<Rightarrow> (uint64 \<times> byte_buffer) res" where
  "read_guid_loop h guidmark [] guid b = Inr (guid, b)"
| "read_guid_loop h guidmark (i # is) guid b =
     (if guidmark AND push_bit i 1 \<noteq> 0 then
        if wrap64 (bb_rpos b + 1) > bb_size b
        then Inl (ByteBufferPositionException False (bb_rpos b) 1 (bb_size b))
        else bindr (bb_read h b) (\<lambda>(bt :: uint8, b').
               read_guid_loop h guidmark is (guid OR push_bit (i * 8) (ucast bt)) b')
      else read_guid_loop h guidmark is guid b)"

definition readPackGUID :: "endian \<Rightarrow> byte_buffer \<Rightarrow> (uint64 \<times> byte_buffer) res" where
  "readPackGUID h b =
     (if wrap64 (bb_rpos b + 1) > bb_size b
      then Inl (ByteBufferPositionException False (bb_rpos b) 1 (bb_size b))
      else bindr (bb_read h b) (\<lambda>(guidmark, b'). read_guid_loop h guidmark [0..<8] 0 b'))"

lemma unat_drop_bit_lt: "(w :: 'a::len word) \<noteq> 0 \<Longrightarrow> 0 < n \<Longrightarrow> unat (drop_bit n w) < unat w"
  unfolding unat_drop_bit_div
  by (rule div_less_dividend) (simp_all add: unat_gt_0 one_less_power del: One_nat_def)

text \<open>The loop over the bytes of the GUID: the mask byte and the bytes that are not zero.\<close>

function pack_guid_loop :: "nat \<Rightarrow> uint64 \<Rightarrow> uint8 \<Rightarrow> uint8 list \<Rightarrow> uint8 \<times> uint8 list" where
  "pack_guid_loop i guid mask0 out =
     (if guid \<noteq> 0 then
        if guid AND 0xFF \<noteq> 0
        then pack_guid_loop (Suc i) (drop_bit 8 guid) (mask0 OR push_bit i 1) (out @ [ucast (guid AND 0xFF)])
        else pack_guid_loop (Suc i) (drop_bit 8 guid) mask0 out
      else (mask0, out))"
  by pat_completeness auto
termination
  by (relation "measure (\<lambda>(i, guid, m, out). unat guid)") (auto intro!: unat_drop_bit_lt)

declare pack_guid_loop.simps [simp del]

definition appendPackGUID :: "uint64 \<Rightarrow> byte_buffer \<Rightarrow> byte_buffer res" where
  "appendPackGUID guid b = (let (m, out) = pack_guid_loop 0 guid 0 [] in bb_append (m # out) b)"

section \<open>Packed times\<close>

record tm =
  tm_sec :: int
  tm_min :: int
  tm_hour :: int
  tm_mday :: int
  tm_mon :: int
  tm_year :: int
  tm_wday :: int

definition unpack_time :: "uint32 \<Rightarrow> tm" where
  "unpack_time packedDate =
     \<lparr>tm_sec = 0,
      tm_min = uint (packedDate AND 0x3F),
      tm_hour = uint (drop_bit 6 packedDate AND 0x1F),
      tm_mday = uint (drop_bit 14 packedDate AND 0x3F) + 1,
      tm_mon = uint (drop_bit 20 packedDate AND 0xF),
      tm_year = uint (drop_bit 24 packedDate AND 0x1F) + 100,
      tm_wday = 0\<rparr>"

definition pack_time :: "tm \<Rightarrow> uint32" where
  "pack_time lt =
     push_bit 24 (word_of_int (tm_year lt - 100)) OR push_bit 20 (word_of_int (tm_mon lt))
     OR push_bit 14 (word_of_int (tm_mday lt - 1)) OR push_bit 11 (word_of_int (tm_wday lt))
     OR push_bit 6 (word_of_int (tm_hour lt)) OR word_of_int (tm_min lt)"

definition ReadPackedTime :: "(tm \<Rightarrow> int) \<Rightarrow> endian \<Rightarrow> byte_buffer \<Rightarrow> (uint32 \<times> byte_buffer) res" where
  "ReadPackedTime mktime h b =
     bindr (bb_read h b) (\<lambda>(packedDate, b'). Inr (word_of_int (mktime (unpack_time packedDate)), b'))"

definition AppendPackedTime :: "(int \<Rightarrow> tm) \<Rightarrow> endian \<Rightarrow> int \<Rightarrow> byte_buffer \<Rightarrow> byte_buffer res" where
  "AppendPackedTime TimeBreakdown h time b = bb_append_value h (pack_time (TimeBreakdown time)) b"

end
