(* ===== verification/WireFormat.thy ===== *)
theory WireFormat
  imports ByteBuffer
begin

text \<open>
  What the typed reads and writes of \<open>ByteBuffer\<close> promise to the packet classes: each kind of value
  has a wire format, writing appends it, reading returns the value and moves past it. The contract
  is the locale \<open>wire_codec\<close> (and \<open>wire_stream\<close> with the writer); it is interpreted on the
  fixed-width integers, booleans, strings and packed GUIDs of the model. The properties are the
  round trips, across hosts of either byte order, and the memory safety of the reads.
\<close>

section \<open>Well-formed buffers and what is left to read\<close>

definition bb_ok :: "byte_buffer \<Rightarrow> bool" where
  "bb_ok b \<longleftrightarrow> bb_rpos b \<le> bb_size b \<and> bb_size b < 2 ^ 63"

definition bb_unread :: "byte_buffer \<Rightarrow> uint8 list" where
  "bb_unread b = drop (bb_rpos b) (bb_storage b)"

definition bb_advance :: "nat \<Rightarrow> byte_buffer \<Rightarrow> byte_buffer" where
  "bb_advance n b = b\<lparr>bb_rpos := bb_rpos b + n\<rparr>"

named_theorems advance \<open>facts on moving the read position\<close>

lemma bb_advance_simps [simp, advance]:
  "bb_storage (bb_advance n b) = bb_storage b" "bb_wpos (bb_advance n b) = bb_wpos b"
  "bb_rpos (bb_advance n b) = bb_rpos b + n" "bb_advance m (bb_advance n b) = bb_advance (n + m) b"
  "bb_advance 0 b = b"
  by (simp_all add: bb_advance_def)

lemma bb_unread_advance [advance]: "bb_unread (bb_advance n b) = drop n (bb_unread b)"
  by (simp add: bb_unread_def add.commute)

lemma bb_ok_advance [advance]: "bb_ok b \<Longrightarrow> n \<le> length (bb_unread b) \<Longrightarrow> bb_ok (bb_advance n b)"
  by (auto simp: bb_ok_def bb_unread_def)

lemma bb_ok_unread_length: "bb_ok b \<Longrightarrow> bb_rpos b + length (bb_unread b) = bb_size b"
  by (simp add: bb_ok_def bb_unread_def)

lemma bb_unread_Cons: "bb_unread b = x # xs \<Longrightarrow> bb_rpos b < bb_size b"
  unfolding bb_unread_def by (rule ccontr) simp

lemma bb_read_eq:
  assumes "bb_ok b" and "8 dvd LENGTH('a)" and "LENGTH('a) \<le> 64"
  shows "bb_read h b =
    (let n = LENGTH('a) div 8 in
     if n \<le> length (bb_unread b) then Inr (le_word (take n (bb_unread b)) :: 'a::len word, bb_advance n b)
     else Inl (ByteBufferPositionException False (bb_rpos b) n (bb_size b)))"
proof -
  let ?n = "LENGTH('a) div 8"
  have "?n \<le> 8" using assms(3) by simp
  then have w: "wrap64 (bb_rpos b + ?n) = bb_rpos b + ?n"
    using assms(1) by (simp add: size64 bb_ok_def)
  have l: "?n \<le> length (bb_unread b) \<longleftrightarrow> bb_rpos b + ?n \<le> bb_size b"
    using bb_ok_unread_length [OF assms(1)] by linarith
  show ?thesis
  proof (cases "bb_rpos b + ?n \<le> bb_size b")
    case True
    then have "8 * length (take ?n (bb_unread b)) = LENGTH('a)"
      using assms(2) l by simp
    note e = EndianConvert_from_wire [OF this]
    with True show ?thesis
      by (simp add: bb_read_def bb_read_at_def w l Let_def storage bb_unread_def bb_advance_def)
  next
    case False
    then show ?thesis
      by (simp add: bb_read_def bb_read_at_def w l Let_def)
  qed
qed

lemma le_bytes_byte [simp]: "le_bytes (c :: uint8) = [c]"
  by (simp add: le_bytes_def)

lemma le_word_byte [simp]: "(le_word [c] :: uint8) = c"
  by simp

lemma bb_append_ok:
  assumes "src \<noteq> []" and "bb_size b < 10000000" and "bb_wpos b \<le> bb_size b"
  shows "bb_append src b = Inr (b\<lparr>
      bb_storage := take (bb_wpos b) (bb_storage b) @ src @ drop (bb_wpos b + length src) (bb_storage b),
      bb_wpos := bb_wpos b + length src\<rparr>)"
  using assms by (auto simp: bb_append_def Let_def storage vec_resize_def)

section \<open>Wire formats\<close>

text \<open>
  The contract between the packet readers and a typed read of the buffer: a value has a wire
  format, and reading a buffer whose unread part starts with it returns the value and moves past
  it. The packet classes rely on this interface only.
\<close>

fun read_many :: "nat \<Rightarrow> (byte_buffer \<Rightarrow> ('v \<times> byte_buffer) res) \<Rightarrow> byte_buffer \<Rightarrow>
    ('v list \<times> byte_buffer) res" where
  "read_many 0 dec b = Inr ([], b)"
| "read_many (Suc n) dec b =
     bindr (dec b) (\<lambda>(v, b'). bindr (read_many n dec b') (\<lambda>(vs, b''). Inr (v # vs, b'')))"

locale wire_codec =
  fixes enc :: "'v \<Rightarrow> uint8 list"
    and dec :: "byte_buffer \<Rightarrow> ('v \<times> byte_buffer) res"
    and wire_valid :: "'v \<Rightarrow> bool"
  assumes decode: "bb_ok b \<Longrightarrow> wire_valid v \<Longrightarrow> bb_unread b = enc v @ rest \<Longrightarrow>
    dec b = Inr (v, bb_advance (length (enc v)) b)"
begin

lemma decode_continue:
  assumes "bb_ok b" and "wire_valid v" and "bb_unread b = enc v @ rest"
  shows "bindr (dec b) f = f (v, bb_advance (length (enc v)) b)"
    and "bb_ok (bb_advance (length (enc v)) b)"
    and "bb_unread (bb_advance (length (enc v)) b) = rest"
  using decode [OF assms] assms by (auto simp: advance)

lemma decode_many:
  "bb_ok b \<Longrightarrow> list_all wire_valid vs \<Longrightarrow> bb_unread b = concat (map enc vs) @ rest \<Longrightarrow>
     read_many (length vs) dec b = Inr (vs, bb_advance (length (concat (map enc vs))) b)"
proof (induction vs arbitrary: b)
  case Nil
  then show ?case by simp
next
  case (Cons v vs)
  let ?b = "bb_advance (length (enc v)) b"
  have v: "wire_valid v" and u: "bb_unread b = enc v @ concat (map enc vs) @ rest"
    using Cons.prems by simp_all
  note d = decode_continue [OF Cons.prems(1) v u]
  have "read_many (length vs) dec ?b = Inr (vs, bb_advance (length (concat (map enc vs))) ?b)"
    using Cons.IH [OF d(2) _ d(3)] Cons.prems by simp
  then show ?case by (simp add: d(1))
qed

lemma decode_many_continue:
  assumes "bb_ok b" and "list_all wire_valid vs" and "bb_unread b = concat (map enc vs) @ rest"
  shows "bindr (read_many (length vs) dec b) f = f (vs, bb_advance (length (concat (map enc vs))) b)"
    and "bb_ok (bb_advance (length (concat (map enc vs))) b)"
    and "bb_unread (bb_advance (length (concat (map enc vs))) b) = rest"
  using decode_many [OF assms] assms by (auto simp: advance)

lemma decode_functional:
  assumes "bb_ok b" and "wire_valid v" and "wire_valid w"
    and "bb_unread b = enc v @ r" and "bb_unread b = enc w @ s"
  shows "v = w"
  using decode [OF assms(1,2,4)] decode [OF assms(1,3,5)] by simp

end

text \<open>A wire format together with the operation that writes it at the end of a buffer.\<close>

definition bb_writing :: "byte_buffer \<Rightarrow> bool" where
  "bb_writing b \<longleftrightarrow> bb_wpos b = bb_size b \<and> bb_size b < 10000000"

definition bb_extend :: "uint8 list \<Rightarrow> byte_buffer \<Rightarrow> byte_buffer" where
  "bb_extend bs b = b\<lparr>bb_storage := bb_storage b @ bs, bb_wpos := bb_wpos b + length bs\<rparr>"

lemma bb_extend_append: "bb_extend bs (bb_extend as b) = bb_extend (as @ bs) b"
  by (simp add: bb_extend_def)

lemma bb_writing_extend:
  "bb_writing b \<Longrightarrow> bb_size b + length as < 10000000 \<Longrightarrow> bb_writing (bb_extend as b)"
  by (simp add: bb_writing_def bb_extend_def)

lemma bb_size_extend [simp]: "bb_size (bb_extend as b) = bb_size b + length as"
  by (simp add: bb_extend_def)

lemma bb_extend_Nil [simp]: "bb_extend [] b = b"
  by (simp add: bb_extend_def)

locale wire_stream = wire_codec enc dec wire_valid
  for enc :: "'v \<Rightarrow> uint8 list" and dec :: "byte_buffer \<Rightarrow> ('v \<times> byte_buffer) res"
    and wire_valid :: "'v \<Rightarrow> bool" +
  fixes put :: "'v \<Rightarrow> byte_buffer \<Rightarrow> byte_buffer res"
  assumes put_extends: "bb_writing b \<Longrightarrow> bb_size b + length (enc v) \<le> 10000000 \<Longrightarrow>
      wire_valid v \<Longrightarrow> put v b = Inr (bb_extend (enc v) b)"
begin

lemma write_read:
  assumes "bb_writing b" "bb_size b + length (enc v) \<le> 10000000" "wire_valid v"
  shows "\<exists>b'. put v b = Inr b' \<and>
     dec (b'\<lparr>bb_rpos := bb_size b\<rparr>) = Inr (v, b'\<lparr>bb_rpos := bb_size b'\<rparr>)"
proof -
  let ?b = "(bb_extend (enc v) b)\<lparr>bb_rpos := bb_size b\<rparr>"
  have "bb_ok ?b" "bb_unread ?b = enc v @ []"
    using assms by (simp_all add: bb_ok_def bb_unread_def bb_extend_def)
  from decode [OF this(1) assms(3) this(2)] put_extends [OF assms] show ?thesis
    by (simp add: bb_advance_def bb_extend_def)
qed

end


subsection \<open>Fixed-width values\<close>

lemma word_decode:
  assumes "8 dvd LENGTH('a)" "LENGTH('a) \<le> 64" "bb_ok b" "bb_unread b = le_bytes (v :: 'a::len word) @ rest"
  shows "bb_read h b = Inr (v, bb_advance (length (le_bytes v)) b)"
  using assms by (simp add: bb_read_eq Let_def le_word_bytes)

lemma word_put_extends:
  assumes "8 dvd LENGTH('a)" "bb_writing b"
  shows "bb_append_value h (v :: 'a::len word) b = Inr (bb_extend (le_bytes v) b)"
proof -
  have "LENGTH('a) \<ge> 8" using assms(1) by (simp add: dvd_imp_le)
  then have "le_bytes v \<noteq> []" by (simp flip: length_greater_0_conv)
  with assms show ?thesis
    by (simp add: bb_append_value_def EndianConvert_wire bb_append_ok bb_writing_def bb_extend_def)
qed

interpretation u8: wire_stream "le_bytes :: uint8 \<Rightarrow> _" "bb_read h" "\<lambda>_. True" "bb_append_value h" for h
  by unfold_locales (rule word_decode word_put_extends; simp)+

interpretation u16: wire_stream "le_bytes :: uint16 \<Rightarrow> _" "bb_read h" "\<lambda>_. True" "bb_append_value h" for h
  by unfold_locales (rule word_decode word_put_extends; simp)+

interpretation u32: wire_stream "le_bytes :: uint32 \<Rightarrow> _" "bb_read h" "\<lambda>_. True" "bb_append_value h" for h
  by unfold_locales (rule word_decode word_put_extends; simp)+

interpretation u64: wire_stream "le_bytes :: uint64 \<Rightarrow> _" "bb_read h" "\<lambda>_. True" "bb_append_value h" for h
  by unfold_locales (rule word_decode word_put_extends; simp)+

subsection \<open>Booleans and strings\<close>

definition bool_bytes :: "bool \<Rightarrow> uint8 list" where
  "bool_bytes v = [if v then 1 else 0]"

interpretation bools: wire_stream bool_bytes "shr_bool h" "\<lambda>_. True" "shl_bool h" for h
proof unfold_locales
  fix b :: byte_buffer and v :: bool and rest
  assume "bb_ok b" "bb_unread b = bool_bytes v @ rest"
  then show "shr_bool h b = Inr (v, bb_advance (length (bool_bytes v)) b)"
    by (simp add: shr_bool_def bool_bytes_def bb_read_eq Let_def)
next
  fix b v
  assume "bb_writing b"
  then show "shl_bool h v b = Inr (bb_extend (bool_bytes v) b)"
    by (simp add: shl_bool_def word_put_extends bool_bytes_def)
qed

text \<open>A string goes over the wire as its bytes and a zero byte. It survives when it holds no zero
  byte and is valid UTF-8.\<close>

definition string_bytes :: "string \<Rightarrow> uint8 list" where
  "string_bytes s = map byte_of_char s @ [0]"

definition wire_string :: "string \<Rightarrow> bool" where
  "wire_string s \<longleftrightarrow> list_all (\<lambda>c. byte_of_char c \<noteq> 0) s \<and> utf8_is_valid (map byte_of_char s)"

lemma read_cstring_loop_wire:
  "bb_ok b \<Longrightarrow> list_all (\<lambda>c. byte_of_char c \<noteq> 0) s \<Longrightarrow> bb_unread b = string_bytes s @ rest \<Longrightarrow>
     read_cstring_loop h acc b = Inr (acc @ s, bb_advance (length s + 1) b)"
proof (induction s arbitrary: acc b)
  case Nil
  then have "bb_rpos b < bb_size b" by (auto simp: string_bytes_def intro: bb_unread_Cons)
  with Nil show ?case
    by (subst read_cstring_loop.simps) (simp add: bb_read_eq Let_def string_bytes_def)
next
  case (Cons c s)
  then have "bb_rpos b < bb_size b" by (auto simp: string_bytes_def intro: bb_unread_Cons)
  moreover have "bb_unread (bb_advance 1 b) = string_bytes s @ rest" "bb_ok (bb_advance 1 b)"
    using Cons.prems by (auto simp: advance string_bytes_def)
  ultimately show ?case
    using Cons.prems Cons.IH [of "bb_advance 1 b" "acc @ [c]"]
    by (subst read_cstring_loop.simps) (simp add: bb_read_eq Let_def string_bytes_def)
qed

interpretation strings: wire_stream string_bytes "shr_string h" wire_string "shl_string h" for h
proof unfold_locales
  fix b :: byte_buffer and v rest
  assume "bb_ok b" "wire_string v" "bb_unread b = string_bytes v @ rest"
  moreover from this have "read_cstring_loop h [] b = Inr (v, bb_advance (length v + 1) b)"
    using read_cstring_loop_wire [of b v rest h "[]"] by (simp add: wire_string_def)
  ultimately show "shr_string h b = Inr (v, bb_advance (length (string_bytes v)) b)"
    by (simp add: shr_string_def ReadCString_def wire_string_def string_bytes_def)
next
  fix b v
  assume "bb_writing b" "bb_size b + length (string_bytes v) \<le> 10000000"
  then show "shl_string h v b = Inr (bb_extend (string_bytes v) b)"
    by (auto simp: shl_string_def bb_append_ok word_put_extends bb_writing_def string_bytes_def bb_extend_def)
qed

subsection \<open>Packed GUIDs on the wire\<close>

primrec guid_mask :: "nat \<Rightarrow> uint8 list \<Rightarrow> uint8" where
  "guid_mask i [] = 0"
| "guid_mask i (b # bs) = ((if b \<noteq> 0 then push_bit i 1 else 0) OR guid_mask (Suc i) bs)"

definition guid_bytes :: "uint64 \<Rightarrow> uint8 list" where
  "guid_bytes guid = guid_mask 0 (le_bytes guid) # filter (\<lambda>b. b \<noteq> 0) (le_bytes guid)"

lemma bit_guid_mask:
  "bit (guid_mask i bs) n \<longleftrightarrow> i \<le> n \<and> n - i < length bs \<and> n < 8 \<and> bs ! (n - i) \<noteq> 0"
proof (induction bs arbitrary: i)
  case (Cons b bs)
  show ?case
  proof (cases "n = i")
    case True
    with Cons.IH [of "Suc i"] show ?thesis by (auto simp: bit_or_iff bit_exp_iff)
  next
    case False
    then have "i \<le> n \<and> n - i < length (b # bs) \<longleftrightarrow> Suc i \<le> n \<and> n - Suc i < length bs" by auto
    moreover have "Suc i \<le> n \<Longrightarrow> (b # bs) ! (n - i) = bs ! (n - Suc i)" by (simp add: nth_Cons')
    ultimately show ?thesis using False Cons.IH [of "Suc i"]
      by (auto simp: bit_or_iff bit_exp_iff)
  qed
qed simp

lemma byte_in_guid:
  "ucast (ucast b :: uint64) = (b :: uint8)" "(ucast b :: uint64) = 0 \<longleftrightarrow> b = 0"
proof -
  show u: "ucast (ucast b :: uint64) = b" by (rule bit_word_eqI) (simp add: bit_ucast_iff)
  show "(ucast b :: uint64) = 0 \<longleftrightarrow> b = 0" using u by (metis unsigned_0)
qed

lemma le_word_Cons64:
  assumes "length bs < 8"
  shows "(le_word (b # bs) :: uint64) AND 0xFF = ucast b"
    and "drop_bit 8 (le_word (b # bs) :: uint64) = le_word bs"
proof -
  have d: "(8 + n) div 8 = Suc (n div 8)" for n :: nat by simp
  have m: "(0xFF :: uint64) = mask 8" by (simp add: mask_eq_exp_minus_1)
  show "(le_word (b # bs) :: uint64) AND 0xFF = ucast b"
    unfolding m by (rule bit_word_eqI) (auto simp: bit_simps dest: bit_imp_le_length)
  show "drop_bit 8 (le_word (b # bs) :: uint64) = le_word bs"
    by (rule bit_word_eqI)
      (use assms in \<open>auto simp: bit_drop_bit_eq bit_le_word d simp del: le_word.simps\<close>)
qed

lemma le_word_0: "length bs \<le> 8 \<Longrightarrow> (le_word bs :: uint64) = 0 \<longleftrightarrow> list_all (\<lambda>b. b = 0) bs"
proof (induction bs)
  case (Cons b bs)
  then have l: "length bs < 8" by simp
  have "(le_word (b # bs) :: uint64) = 0 \<longleftrightarrow> b = 0 \<and> (le_word bs :: uint64) = 0"
    using le_word_Cons64 [OF l, of b] byte_in_guid [of b]
    by (metis and_zero_eq drop_bit_of_0 le_word.simps(2) push_bit_of_0 or.right_neutral)
  with Cons show ?case by (simp del: le_word.simps)
qed simp

lemma guid_mask_zeros: "list_all (\<lambda>b. b = 0) bs \<Longrightarrow> guid_mask i bs = 0 \<and> filter (\<lambda>b. b \<noteq> 0) bs = []"
  by (induction bs arbitrary: i) auto

lemma pack_guid_loop_bytes:
  "length bs \<le> 8 \<Longrightarrow> pack_guid_loop i (le_word bs) m out
     = (m OR guid_mask i bs, out @ filter (\<lambda>b. b \<noteq> 0) bs)"
proof (induction bs arbitrary: i m out)
  case Nil
  then show ?case by (subst pack_guid_loop.simps) simp
next
  case (Cons b bs)
  then have l: "length bs < 8" by simp
  show ?case
  proof (cases "(le_word (b # bs) :: uint64) = 0")
    case True
    then have "list_all (\<lambda>b. b = 0) (b # bs)" using le_word_0 [OF Cons.prems] by blast
    with True show ?thesis
      by (subst pack_guid_loop.simps) (use guid_mask_zeros [of "b # bs" i] in \<open>simp\<close>)
  next
    case False
    show ?thesis
      by (subst pack_guid_loop.simps)
        (use False Cons.IH l in \<open>simp add: le_word_Cons64 [OF l] byte_in_guid or.assoc del: le_word.simps\<close>)
  qed
qed


lemma read_guid_loop_bytes:
  assumes "length bs + i \<le> 8" and "bb_ok b" and "bb_unread b = filter (\<lambda>x. x \<noteq> 0) bs @ rest"
    and "\<forall>j < length bs. bit mark (i + j) \<longleftrightarrow> bs ! j \<noteq> 0"
  shows "read_guid_loop h mark [i..<i + length bs] acc b =
    Inr (acc OR push_bit (i * 8) (le_word bs), bb_advance (length (filter (\<lambda>x. x \<noteq> 0) bs)) b)"
  using assms
proof (induction bs arbitrary: i acc b)
  case (Cons x bs)
  have upt: "[i..<i + length (x # bs)] = i # [Suc i..<Suc i + length bs]"
    by (simp add: upt_rec)
  have mark: "mark AND push_bit i 1 \<noteq> 0 \<longleftrightarrow> x \<noteq> 0"
    using Cons.prems(4) [rule_format, of 0] by (simp add: and_exp_eq_0_iff_not_bit)
  have tail: "\<forall>j < length bs. bit mark (Suc i + j) \<longleftrightarrow> bs ! j \<noteq> 0"
    using Cons.prems(4) by (metis add_Suc add_Suc_right length_Cons nth_Cons_Suc Suc_less_eq)
  have word: "push_bit (i * 8) (le_word (x # bs) :: uint64)
      = push_bit (i * 8) (ucast x) OR push_bit (Suc i * 8) (le_word bs)"
    by (simp add: push_bit_or add.commute)
  show ?case
  proof (cases "x = 0")
    case True
    with Cons.IH [of "Suc i" b acc] Cons.prems tail mark show ?thesis
      unfolding upt word by (simp del: upt_Suc)
  next
    case False
    let ?b = "bb_advance 1 b"
    from False Cons.prems have "bb_rpos b < bb_size b" "bb_ok ?b"
      "bb_unread ?b = filter (\<lambda>x. x \<noteq> 0) bs @ rest"
      by (auto simp: advance intro: bb_unread_Cons)
    with False Cons.IH [of "Suc i" ?b "acc OR push_bit (i * 8) (ucast x)"] Cons.prems tail mark
    show ?thesis
      unfolding upt word by (simp add: bb_read_eq Let_def size64 bb_ok_def or.assoc del: upt_Suc)
  qed
qed simp

lemma length_guid_bytes: "length (guid_bytes guid) \<le> 9"
  unfolding guid_bytes_def using length_filter_le [of "\<lambda>b. b \<noteq> 0" "le_bytes guid"] by simp

interpretation guids: wire_stream guid_bytes "readPackGUID h" "\<lambda>_. True" appendPackGUID for h
proof unfold_locales
  fix b :: byte_buffer and v :: uint64 and rest
  assume b: "bb_ok b" and u: "bb_unread b = guid_bytes v @ rest"
  let ?bs = "le_bytes v" and ?b = "bb_advance 1 b"
  have ok: "bb_rpos b < bb_size b" "bb_ok ?b" "bb_unread ?b = filter (\<lambda>x. x \<noteq> 0) ?bs @ rest"
    using b u by (auto simp: advance guid_bytes_def intro: bb_unread_Cons)
  have "read_guid_loop h (guid_mask 0 ?bs) [0..<0 + length ?bs] 0 ?b
      = Inr (0 OR push_bit (0 * 8) (le_word ?bs), bb_advance (length (filter (\<lambda>x. x \<noteq> 0) ?bs)) ?b)"
    using ok by (intro read_guid_loop_bytes) (auto simp: bit_guid_mask)
  with b u ok(1) show "readPackGUID h b = Inr (v, bb_advance (length (guid_bytes v)) b)"
    by (simp add: readPackGUID_def bb_read_eq Let_def guid_bytes_def le_word_bytes size64 bb_ok_def)
next
  fix b v
  assume "bb_writing b"
  moreover have "pack_guid_loop 0 v 0 [] = (guid_mask 0 (le_bytes v), filter (\<lambda>b. b \<noteq> 0) (le_bytes v))"
    using pack_guid_loop_bytes [of "le_bytes v" 0 0 "[]"] by (simp add: le_word_bytes)
  ultimately show "appendPackGUID v b = Inr (bb_extend (guid_bytes v) b)"
    by (simp add: appendPackGUID_def guid_bytes_def bb_append_ok bb_writing_def bb_extend_def)
qed

subsection \<open>Packed times on the wire\<close>

text \<open>The field ranges \<open>localtime\<close> documents, with the years the five year bits can hold.\<close>

definition packable_tm :: "tm \<Rightarrow> bool" where
  "packable_tm lt \<longleftrightarrow> 0 \<le> tm_min lt \<and> tm_min lt < 60 \<and> 0 \<le> tm_hour lt \<and> tm_hour lt < 24
     \<and> 1 \<le> tm_mday lt \<and> tm_mday lt \<le> 31 \<and> 0 \<le> tm_mon lt \<and> tm_mon lt < 12
     \<and> 0 \<le> tm_wday lt \<and> tm_wday lt < 7 \<and> 100 \<le> tm_year lt \<and> tm_year lt < 132"

lemma bit_small_word: "bit (word_of_int k :: uint32) i \<Longrightarrow> 0 \<le> k \<Longrightarrow> k < 2 ^ n \<Longrightarrow> i < n"
  by (metis bit_take_bit_iff take_bit_int_eq_self bit_word_of_int_iff)

lemma uint_small_word: "0 \<le> k \<Longrightarrow> k < 64 \<Longrightarrow> uint (word_of_int k :: uint32) = k"
  by (simp add: uint_word_of_int)

lemma packed_fields:
  fixes mn hr md mo yr wd :: uint32
  assumes "\<forall>i. bit mn i \<longrightarrow> i < 6" "\<forall>i. bit hr i \<longrightarrow> i < 5" "\<forall>i. bit wd i \<longrightarrow> i < 3"
    "\<forall>i. bit md i \<longrightarrow> i < 6" "\<forall>i. bit mo i \<longrightarrow> i < 4" "\<forall>i. bit yr i \<longrightarrow> i < 5"
  defines "p \<equiv> push_bit 24 yr OR push_bit 20 mo OR push_bit 14 md OR push_bit 11 wd OR push_bit 6 hr OR mn"
  shows "p AND mask 6 = mn" "drop_bit 6 p AND mask 5 = hr" "drop_bit 14 p AND mask 6 = md"
    "drop_bit 20 p AND mask 4 = mo" "drop_bit 24 p AND mask 5 = yr"
  subgoal
    unfolding p_def by (rule bit_word_eqI) (use assms(1-6) in \<open>force simp: bit_simps\<close>)
  subgoal
    unfolding p_def by (rule bit_word_eqI) (use assms(1-6) in \<open>force simp: bit_simps\<close>)
  subgoal
    unfolding p_def by (rule bit_word_eqI) (use assms(1-6) in \<open>force simp: bit_simps\<close>)
  subgoal
    unfolding p_def by (rule bit_word_eqI) (use assms(1-6) in \<open>force simp: bit_simps\<close>)
  subgoal
    unfolding p_def by (rule bit_word_eqI) (use assms(1-6) in \<open>force simp: bit_simps\<close>)
  done

lemma time_masks: "(0x3F :: uint32) = mask 6" "(0x1F :: uint32) = mask 5" "(0xF :: uint32) = mask 4"
  by (simp_all add: mask_eq_exp_minus_1)

lemma unpack_pack_time:
  assumes "packable_tm lt"
  shows "unpack_time (pack_time lt) = lt\<lparr>tm_sec := 0, tm_wday := 0\<rparr>"
proof -
  let ?w = "word_of_int :: int \<Rightarrow> uint32"
  have b: "\<forall>i. bit (?w (tm_min lt)) i \<longrightarrow> i < 6" "\<forall>i. bit (?w (tm_hour lt)) i \<longrightarrow> i < 5"
    "\<forall>i. bit (?w (tm_wday lt)) i \<longrightarrow> i < 3" "\<forall>i. bit (?w (tm_mday lt - 1)) i \<longrightarrow> i < 6"
    "\<forall>i. bit (?w (tm_mon lt)) i \<longrightarrow> i < 4" "\<forall>i. bit (?w (tm_year lt - 100)) i \<longrightarrow> i < 5"
    using assms by (auto simp: packable_tm_def simp del: of_int_diff elim!: bit_small_word)
  note f = packed_fields [OF b]
  have "unpack_time (pack_time lt) = \<lparr>tm_sec = 0, tm_min = tm_min lt, tm_hour = tm_hour lt,
     tm_mday = tm_mday lt, tm_mon = tm_mon lt, tm_year = tm_year lt, tm_wday = 0\<rparr>"
    unfolding unpack_time_def pack_time_def time_masks f
    using assms by (simp add: packable_tm_def uint_small_word del: of_int_diff)
  then show ?thesis by simp
qed

section \<open>Safety of the reads\<close>

fun safe_read :: "('v \<times> byte_buffer) res \<Rightarrow> bool" where
  "safe_read (Inl e) = is_thrown e"
| "safe_read (Inr (v, b)) = bb_ok b"

lemma safe_read_bind:
  "safe_read r \<Longrightarrow> (\<And>v b. r = Inr (v, b) \<Longrightarrow> bb_ok b \<Longrightarrow> safe_read (f (v, b))) \<Longrightarrow> safe_read (bindr r f)"
  by (cases r) auto

lemma safe_bb_read:
  "bb_ok b \<Longrightarrow> 8 dvd LENGTH('a) \<Longrightarrow> LENGTH('a) \<le> 64 \<Longrightarrow>
     safe_read (bb_read h b :: ('a::len word \<times> byte_buffer) res)"
  by (simp add: bb_read_eq Let_def bb_ok_advance)

lemma safe_read_cstring_loop: "bb_ok b \<Longrightarrow> safe_read (read_cstring_loop h acc b)"
proof (induction h acc b rule: read_cstring_loop.induct)
  case (1 h acc b)
  show ?case
  proof (cases "bb_rpos b < bb_size b")
    case True
    have "safe_read (bindr (bb_read h b) (\<lambda>(c :: uint8, b').
        if c = 0 then Inr (acc, b') else read_cstring_loop h (acc @ [char_of_byte c]) b'))"
      by (rule safe_read_bind [OF safe_bb_read]) (use 1 True in auto)
    with True show ?thesis by (subst read_cstring_loop.simps) simp
  next
    case False
    with 1 show ?thesis by (subst read_cstring_loop.simps) simp
  qed
qed

lemma safe_read_guid_loop: "bb_ok b \<Longrightarrow> safe_read (read_guid_loop h mark is guid b)"
proof (induction "is" arbitrary: guid b)
  case (Cons i "is")
  have "safe_read (bindr (bb_read h b) (\<lambda>(bt :: uint8, b').
      read_guid_loop h mark is (guid OR push_bit (i * 8) (ucast bt)) b'))"
    by (rule safe_read_bind [OF safe_bb_read]) (use Cons in auto)
  with Cons show ?case by auto
qed simp

lemma safe_ReadCString: "bb_ok b \<Longrightarrow> safe_read (ReadCString h u b)"
  unfolding ReadCString_def by (rule safe_read_bind [OF safe_read_cstring_loop]) auto

lemma safe_readPackGUID: "bb_ok b \<Longrightarrow> safe_read (readPackGUID h b)"
  unfolding readPackGUID_def
  by (auto intro!: safe_read_bind [OF safe_bb_read] safe_read_guid_loop)

lemma safe_shr_bool: "bb_ok b \<Longrightarrow> safe_read (shr_bool h b)"
  unfolding shr_bool_def by (rule safe_read_bind [OF safe_bb_read]) auto

lemma safe_bb_read_bytes: "bb_ok b \<Longrightarrow> n < 2 ^ 63 \<Longrightarrow> safe_read (bb_read_bytes n b)"
  by (auto simp: bb_read_bytes_def bb_ok_def size64 storage bindr_eq_Inl)

section \<open>Properties\<close>

text \<open>
  Round trip of every fixed-width value: a value appended on a host of one byte order is read
  back unchanged on a host of either byte order, and the read ends exactly behind it.
\<close>

theorem value_roundtrip:
  fixes v :: "'a::len word"
  assumes "8 dvd LENGTH('a)" "LENGTH('a) \<le> 64" "bb_wpos b = bb_size b" "bb_size b < 10000000"
  shows "\<exists>b'. bb_append_value h v b = Inr b' \<and> bb_storage b' = bb_storage b @ le_bytes v
     \<and> bb_read h' (b'\<lparr>bb_rpos := bb_size b\<rparr>) = Inr (v, b'\<lparr>bb_rpos := bb_size b'\<rparr>)"
proof -
  let ?b = "(bb_extend (le_bytes v) b)\<lparr>bb_rpos := bb_size b\<rparr>"
  have "bb_ok ?b" "bb_unread ?b = le_bytes v @ []"
    using assms by (simp_all add: bb_ok_def bb_unread_def bb_extend_def)
  from word_decode [OF assms(1,2) this] word_put_extends [OF assms(1), of b] assms(3,4) show ?thesis
    by (simp add: bb_advance_def bb_extend_def bb_writing_def)
qed

theorem value_roundtrip_witness:
  "\<exists>b'. bb_append_value WARHEAD_BIGENDIAN (0x01020304 :: uint32) ByteBuffer_new = Inr b' \<and>
     bb_storage b' = [4, 3, 2, 1] \<and>
     bb_read WARHEAD_LITTLEENDIAN (b'\<lparr>bb_rpos := 0\<rparr>) = Inr (0x01020304 :: uint32, b'\<lparr>bb_rpos := bb_size b'\<rparr>)"
proof -
  have "le_bytes (0x01020304 :: uint32) = [4, 3, 2, 1]" by code_simp
  with value_roundtrip [where v = "0x01020304 :: uint32" and b = ByteBuffer_new
      and h = WARHEAD_BIGENDIAN and h' = WARHEAD_LITTLEENDIAN]
  show ?thesis by (simp add: ByteBuffer_new_def)
qed

text \<open>
  Round trip of strings: a valid UTF-8 string without zero bytes that is appended to a buffer
  is read back unchanged by \<open>operator>>\<close>, and nothing behind its terminator is consumed.
\<close>

theorem string_roundtrip:
  assumes "list_all (\<lambda>c. byte_of_char c \<noteq> 0) s" "utf8_is_valid (map byte_of_char s)"
    and "bb_wpos b = bb_size b" "bb_size b + length s < 10000000"
  shows "\<exists>b'. shl_string h s b = Inr b' \<and>
     shr_string h (b'\<lparr>bb_rpos := bb_size b\<rparr>) = Inr (s, b'\<lparr>bb_rpos := bb_size b'\<rparr>)"
  using assms by (intro strings.write_read) (simp_all add: bb_writing_def wire_string_def string_bytes_def)

theorem string_roundtrip_witness:
  "\<exists>b'. shl_string WARHEAD_LITTLEENDIAN ''realm'' ByteBuffer_new = Inr b' \<and>
     shr_string WARHEAD_LITTLEENDIAN (b'\<lparr>bb_rpos := 0\<rparr>) = Inr (''realm'', b'\<lparr>bb_rpos := bb_size b'\<rparr>)"
proof -
  have "list_all (\<lambda>c. byte_of_char c \<noteq> 0) ''realm''" "utf8_is_valid (map byte_of_char ''realm'')"
    by code_simp+
  from string_roundtrip [OF this, of ByteBuffer_new] show ?thesis by (simp add: ByteBuffer_new_def)
qed

text \<open>
  Round trip of packed GUIDs: every 64-bit GUID, zero included, that \<open>appendPackGUID\<close> writes
  (a mask byte and the bytes that are not zero) is what \<open>readPackGUID\<close> returns.
\<close>

theorem packguid_roundtrip:
  assumes "bb_wpos b = bb_size b" "bb_size b + 9 \<le> 10000000"
  shows "\<exists>b'. appendPackGUID guid b = Inr b' \<and>
     readPackGUID h (b'\<lparr>bb_rpos := bb_size b\<rparr>) = Inr (guid, b'\<lparr>bb_rpos := bb_size b'\<rparr>)"
  using assms length_guid_bytes [of guid]
  by (intro guids.write_read) (simp_all add: bb_writing_def)

theorem packguid_roundtrip_witness:
  "\<exists>b'. appendPackGUID 0x0100000000AB0000 ByteBuffer_new = Inr b' \<and>
     readPackGUID WARHEAD_BIGENDIAN (b'\<lparr>bb_rpos := 0\<rparr>) = Inr (0x0100000000AB0000, b'\<lparr>bb_rpos := bb_size b'\<rparr>)"
  using packguid_roundtrip [of ByteBuffer_new "0x0100000000AB0000" WARHEAD_BIGENDIAN]
  by (simp add: ByteBuffer_new_def)

text \<open>
  Round trip of packed times for the years 2000 to 2031: what \<open>ReadPackedTime\<close> hands to
  \<open>mktime\<close> is the broken-down time \<open>AppendPackedTime\<close> packed, with seconds and weekday cleared.
  The libc functions \<open>mktime\<close> and \<open>localtime\<close> are parameters.
\<close>

theorem packed_time_roundtrip:
  assumes "packable_tm (TimeBreakdown t)" "bb_wpos b = bb_size b" "bb_size b + 4 \<le> 10000000"
  shows "\<exists>b'. AppendPackedTime TimeBreakdown h t b = Inr b' \<and>
     ReadPackedTime mktime h (b'\<lparr>bb_rpos := bb_size b\<rparr>)
       = Inr (word_of_int (mktime ((TimeBreakdown t)\<lparr>tm_sec := 0, tm_wday := 0\<rparr>)), b'\<lparr>bb_rpos := bb_size b'\<rparr>)"
proof -
  let ?p = "pack_time (TimeBreakdown t)" and ?b' = "bb_extend (le_bytes (pack_time (TimeBreakdown t))) b"
  have "bb_append_value h ?p b = Inr ?b'"
    using assms(2,3) by (simp add: word_put_extends bb_writing_def)
  moreover have "bb_read h (?b'\<lparr>bb_rpos := bb_size b\<rparr>) = Inr (?p, ?b'\<lparr>bb_rpos := bb_size ?b'\<rparr>)"
    using u32.write_read [of b ?p h] assms(2,3) calculation by (simp add: bb_writing_def)
  ultimately show ?thesis
    using unpack_pack_time [OF assms(1)] by (simp add: AppendPackedTime_def ReadPackedTime_def)
qed

theorem packed_time_roundtrip_witness:
  "let lt = \<lparr>tm_sec = 30, tm_min = 59, tm_hour = 23, tm_mday = 31, tm_mon = 11, tm_year = 122, tm_wday = 6\<rparr>
   in \<exists>b'. AppendPackedTime (\<lambda>_. lt) WARHEAD_LITTLEENDIAN 7 ByteBuffer_new = Inr b' \<and>
     ReadPackedTime tm_mday WARHEAD_LITTLEENDIAN (b'\<lparr>bb_rpos := 0\<rparr>) = Inr (31, b'\<lparr>bb_rpos := bb_size b'\<rparr>)"
  using packed_time_roundtrip [of "\<lambda>_. \<lparr>tm_sec = 30, tm_min = 59, tm_hour = 23, tm_mday = 31, tm_mon = 11,
      tm_year = 122, tm_wday = 6\<rparr>" 7 ByteBuffer_new WARHEAD_LITTLEENDIAN tm_mday]
  by (simp add: ByteBuffer_new_def packable_tm_def)

text \<open>
  C34. Memory safety of parsing: on a buffer whose read position is inside its storage, every read
  of the packet layer either throws one of the buffer's own exceptions or returns with the position
  still inside; none reads outside the storage and none fails an assertion.
\<close>

theorem reads_stay_inside:
  assumes "bb_ok b" and "n < 2 ^ 63"
  shows "safe_read (bb_read h b :: (uint8 \<times> _) res) \<and> safe_read (bb_read h b :: (uint16 \<times> _) res)
    \<and> safe_read (bb_read h b :: (uint32 \<times> _) res) \<and> safe_read (bb_read h b :: (uint64 \<times> _) res)
    \<and> safe_read (shr_bool h b) \<and> safe_read (shr_string h b) \<and> safe_read (readPackGUID h b)
    \<and> safe_read (bb_read_bytes n b)"
  using assms by (simp add: safe_bb_read safe_shr_bool shr_string_def safe_ReadCString
      safe_readPackGUID safe_bb_read_bytes)

theorem reads_stay_inside_witness:
  "safe_read (readPackGUID WARHEAD_LITTLEENDIAN \<lparr>bb_rpos = 1, bb_wpos = 0, bb_storage = [7, 3, 9]\<rparr>)"
  using reads_stay_inside [of "\<lparr>bb_rpos = 1, bb_wpos = 0, bb_storage = [7, 3, 9]\<rparr>" 0]
  by (simp add: bb_ok_def)

text \<open>
  \<open>read_skip\<close> computes its bound on 64 bits: a skip count close to \<open>2 ^ 64\<close> passes the check
  and moves the read position backwards instead of throwing.
\<close>

theorem read_skip_wraps:
  assumes "0 < k" "k \<le> bb_rpos b" "bb_rpos b \<le> bb_size b" "bb_rpos b < 2 ^ 64"
  shows "bb_read_skip (2 ^ 64 - k) b = Inr (b\<lparr>bb_rpos := bb_rpos b - k\<rparr>)"
proof -
  have "bb_rpos b + (2 ^ 64 - k) = (bb_rpos b - k) + 2 ^ 64" using assms by simp
  then have "wrap64 (bb_rpos b + (2 ^ 64 - k)) = bb_rpos b - k"
    using assms unfolding wrap64_def by (metis less_imp_diff_less mod_add_self2 mod_less)
  with assms show ?thesis by (simp add: bb_read_skip_def)
qed

theorem read_skip_wraps_witness:
  "bb_read_skip (2 ^ 64 - 2) \<lparr>bb_rpos = 3, bb_wpos = 0, bb_storage = [1, 2, 3, 4]\<rparr>
     = Inr \<lparr>bb_rpos = 1, bb_wpos = 0, bb_storage = [1, 2, 3, 4]\<rparr>"
  using read_skip_wraps [of 2 "\<lparr>bb_rpos = 3, bb_wpos = 0, bb_storage = [1, 2, 3, 4]\<rparr>"] by simp

end
