(* ===== verification/PacketUtilities.thy ===== *)
theory PacketUtilities
  imports WireFormat
begin

text \<open>
  Containers of client packets, \<open>src/src/server/Server/Packets/PacketUtilities.h\<close> and
  \<open>PacketUtilities.cpp\<close>: validated strings, arrays with a size limit and compact arrays (a bit
  mask and the elements whose bit is set). The results: an array never grows past its limit, and a
  compact array that was built by insertions is read back from what was written.
\<close>

section \<open>Validated strings\<close>

text \<open>The validators of \<open>String<Max, ...>\<close>: the size limit first, then UTF-8 unless \<open>RawBytes\<close> is
  given. \<open>Utf8::Validate\<close> throws; the size validator only returns false, which ends the fold
  and is ignored by the reader.\<close>

definition Utf8_Validate :: "string \<Rightarrow> bool res" where
  "Utf8_Validate value =
     (if \<not> utf8_is_valid (map byte_of_char value)
      then Inl (ByteBufferInvalidValueException ''string'' value) else Inr True)"

definition String_Validate :: "nat \<Rightarrow> bool \<Rightarrow> string \<Rightarrow> bool res" where
  "String_Validate maxBytes rawBytes value =
     (if length value \<le> maxBytes
      then (if rawBytes then Inr True else Utf8_Validate value)
      else Inr False)"

definition shr_String :: "endian \<Rightarrow> nat \<Rightarrow> bool \<Rightarrow> byte_buffer \<Rightarrow> (string \<times> byte_buffer) res" where
  "shr_String h maxBytes rawBytes data =
     bindr (ReadCString h False data) (\<lambda>(value, data').
       bindr (String_Validate maxBytes rawBytes value) (\<lambda>_. Inr (value, data')))"

section \<open>Arrays with a limit\<close>

record 'a packet_array =
  pa_storage :: "'a list"
  pa_limit :: nat

definition pa_new :: "nat \<Rightarrow> 'a packet_array" where
  "pa_new limit = \<lparr>pa_storage = [], pa_limit = limit\<rparr>"

definition pa_resize :: "nat \<Rightarrow> 'a::zero packet_array \<Rightarrow> 'a packet_array res" where
  "pa_resize newSize a =
     (if newSize > pa_limit a then Inl (PacketArrayMaxCapacityException newSize (pa_limit a))
      else Inr (a\<lparr>pa_storage := vec_resize newSize (pa_storage a)\<rparr>))"

definition pa_reserve :: "nat \<Rightarrow> 'a packet_array \<Rightarrow> 'a packet_array res" where
  "pa_reserve newSize a =
     (if newSize > pa_limit a then Inl (PacketArrayMaxCapacityException newSize (pa_limit a))
      else Inr a)"

definition pa_push_back :: "'a \<Rightarrow> 'a packet_array \<Rightarrow> 'a packet_array res" where
  "pa_push_back value a =
     (if length (pa_storage a) \<ge> pa_limit a
      then Inl (PacketArrayMaxCapacityException (length (pa_storage a) + 1) (pa_limit a))
      else Inr (a\<lparr>pa_storage := pa_storage a @ [value]\<rparr>))"

section \<open>Compact arrays\<close>

record 'a compact_array =
  ca_mask :: uint32
  ca_contents :: "'a list"

definition ca_new :: "'l::len word compact_array" where
  "ca_new = \<lparr>ca_mask = 0, ca_contents = []\<rparr>"

definition CheckCompactArrayMaskOverflow :: "nat \<Rightarrow> nat \<Rightarrow> unit res" where
  "CheckCompactArrayMaskOverflow index limit =
     (if index < limit then Inr () else Inl (AssertFailure ''Attempted to insert values into CompactArray''))"

definition ca_Insert :: "nat \<Rightarrow> 'l::len word \<Rightarrow> 'l word compact_array \<Rightarrow> 'l word compact_array res" where
  "ca_Insert index value v =
     bindr (CheckCompactArrayMaskOverflow index 32) (\<lambda>_.
       let cs = (if length (ca_contents v) \<le> index then vec_resize (index + 1) (ca_contents v)
                 else ca_contents v)
       in Inr (v\<lparr>ca_mask := ca_mask v OR push_bit index 1, ca_contents := cs[index := value]\<rparr>))"

definition ca_Clear :: "'l::len word compact_array \<Rightarrow> 'l word compact_array" where
  "ca_Clear v = v\<lparr>ca_mask := 0, ca_contents := []\<rparr>"

primrec ca_write_loop :: "endian \<Rightarrow> uint32 \<Rightarrow> nat \<Rightarrow> 'l::len word list \<Rightarrow> byte_buffer \<Rightarrow> byte_buffer res" where
  "ca_write_loop h msk i [] data = Inr data"
| "ca_write_loop h msk i (x # xs) data =
     (if msk AND push_bit i 1 \<noteq> 0
      then bindr (bb_append_value h x data) (ca_write_loop h msk (Suc i) xs)
      else ca_write_loop h msk (Suc i) xs data)"

definition shl_CompactArray :: "endian \<Rightarrow> 'l::len word compact_array \<Rightarrow> byte_buffer \<Rightarrow> byte_buffer res" where
  "shl_CompactArray h v data =
     bindr (shl_uint32 h (ca_mask v) data) (ca_write_loop h (ca_mask v) 0 (ca_contents v))"

function ca_read_loop :: "endian \<Rightarrow> nat \<Rightarrow> uint32 \<Rightarrow> 'l::len word compact_array \<Rightarrow> byte_buffer \<Rightarrow>
    ('l word compact_array \<times> byte_buffer) res" where
  "ca_read_loop h index msk v data =
     (if msk \<noteq> 0 then
        bindr (if msk AND 1 \<noteq> 0
               then bindr (bb_read h data) (\<lambda>(x, data'). bindr (ca_Insert index x v) (\<lambda>v'. Inr (v', data')))
               else Inr (v, data))
          (\<lambda>(v', data'). ca_read_loop h (Suc index) (drop_bit 1 msk) v' data')
      else Inr (v, data))"
  by pat_completeness auto
termination
  by (relation "measure (\<lambda>(h, index, msk, v, data). unat msk)") (auto intro!: unat_drop_bit_lt)

declare ca_read_loop.simps [simp del]

definition shr_CompactArray :: "endian \<Rightarrow> 'l::len word compact_array \<Rightarrow> byte_buffer \<Rightarrow>
    ('l word compact_array \<times> byte_buffer) res" where
  "shr_CompactArray h v data = bindr (shr_uint32 h data) (\<lambda>(msk, data'). ca_read_loop h 0 msk v data')"

section \<open>Array limits\<close>

definition pa_within_limit :: "'a packet_array \<Rightarrow> bool" where
  "pa_within_limit a \<longleftrightarrow> length (pa_storage a) \<le> pa_limit a"

lemma pa_ops_within_limit:
  assumes "pa_within_limit a"
  shows "pa_push_back x a = Inr a' \<Longrightarrow> pa_within_limit a' \<and> pa_limit a' = pa_limit a"
    and "pa_reserve n a = Inr a' \<Longrightarrow> pa_within_limit a' \<and> pa_limit a' = pa_limit a"
  using assms by (auto simp: pa_push_back_def pa_reserve_def pa_within_limit_def split: if_splits)

lemma pa_resize_within_limit:
  "pa_resize n a = Inr a' \<Longrightarrow> pa_within_limit a' \<and> pa_limit a' = pa_limit a"
  by (auto simp: pa_resize_def pa_within_limit_def split: if_splits)

section \<open>Compact arrays on the wire\<close>

lemma mask_test: "(m :: 'a::len word) AND push_bit i 1 \<noteq> 0 \<longleftrightarrow> bit m i"
  by (simp add: and_exp_eq_0_iff_not_bit)

text \<open>What insertions into an empty array maintain: the mask bits select positions of the
  contents, the other positions hold the default and the last position is selected.\<close>

definition ca_inv :: "'l::len word compact_array \<Rightarrow> bool" where
  "ca_inv v \<longleftrightarrow> length (ca_contents v) \<le> 32
     \<and> (\<forall>i. bit (ca_mask v) i \<longrightarrow> i < length (ca_contents v))
     \<and> (\<forall>i < length (ca_contents v). \<not> bit (ca_mask v) i \<longrightarrow> ca_contents v ! i = 0)
     \<and> (ca_contents v \<noteq> [] \<longrightarrow> bit (ca_mask v) (length (ca_contents v) - 1))"

lemma ca_inv_new [simp]: "ca_inv ca_new"
  by (simp add: ca_inv_def ca_new_def)

lemma nth_vec_resize: "i < n \<Longrightarrow> vec_resize n xs ! i = (if i < length xs then xs ! i else 0)"
  by (auto simp: vec_resize_def nth_append min_def)

lemma ca_Insert_inv:
  assumes "ca_inv v" and "ca_Insert index x v = Inr v'"
  shows "ca_inv v'"
proof -
  let ?cs = "if length (ca_contents v) \<le> index then vec_resize (index + 1) (ca_contents v) else ca_contents v"
  have i: "index < 32" and v': "v' = v\<lparr>ca_mask := ca_mask v OR push_bit index 1, ca_contents := ?cs[index := x]\<rparr>"
    using assms(2) by (auto simp: ca_Insert_def CheckCompactArrayMaskOverflow_def Let_def split: if_splits)
  have m: "bit (ca_mask v') j \<longleftrightarrow> bit (ca_mask v) j \<or> j = index" for j
    using i by (auto simp: v' bit_or_iff bit_exp_iff)
  have "ca_contents v' ! j = 0" if "j < length (ca_contents v')" "\<not> bit (ca_mask v') j" for j
    using that assms(1) unfolding m by (auto simp: v' ca_inv_def nth_vec_resize nth_list_update)
  then show ?thesis
    using assms(1) i unfolding ca_inv_def m by (auto simp: v' less_Suc_eq_le)
qed

primrec ca_wire :: "uint32 \<Rightarrow> nat \<Rightarrow> 'l::len word list \<Rightarrow> uint8 list" where
  "ca_wire msk i [] = []"
| "ca_wire msk i (x # xs) = (if bit msk i then le_bytes x else []) @ ca_wire msk (Suc i) xs"

lemma ca_write_loop_wire:
  fixes xs :: "'l::len word list"
  assumes "8 dvd LENGTH('l)"
  shows "bb_writing b \<Longrightarrow> bb_size b + length (ca_wire msk i xs) < 10000000 \<Longrightarrow>
    ca_write_loop h msk i xs b = Inr (bb_extend (ca_wire msk i xs) b)"
proof (induction xs arbitrary: i b)
  case (Cons x xs)
  then show ?case
    by (cases "bit msk i")
      (simp_all add: mask_test [simplified] word_put_extends [OF assms] bb_writing_extend bb_extend_append)
qed simp

text \<open>The state of the reading loop before position \<open>k\<close> of the array \<open>orig\<close>.\<close>

definition ca_upto :: "'l::len word compact_array \<Rightarrow> nat \<Rightarrow> 'l word compact_array \<Rightarrow> bool" where
  "ca_upto orig k v \<longleftrightarrow> ca_inv v \<and> ca_mask v = take_bit k (ca_mask orig)
     \<and> (\<forall>i < k. bit (ca_mask orig) i \<longrightarrow> ca_contents v ! i = ca_contents orig ! i)"

lemma ca_upto_0: "ca_upto orig 0 ca_new"
  by (simp add: ca_upto_def) (simp add: ca_new_def)

lemma ca_upto_all:
  assumes inv: "ca_inv orig" and up: "ca_upto orig k v" and k: "length (ca_contents orig) \<le> k"
  shows "v = orig"
proof -
  let ?xs = "ca_contents orig" and ?ys = "ca_contents v"
  have bits: "bit (ca_mask orig) i \<Longrightarrow> i < k" for i
    using inv k by (auto simp: ca_inv_def intro: less_le_trans)
  have m: "ca_mask v = ca_mask orig"
    using up bits by (intro bit_word_eqI) (auto simp: ca_upto_def bit_take_bit_iff)
  have iv: "ca_inv v" using up by (simp add: ca_upto_def)
  have last: "ca_inv u \<Longrightarrow> ca_mask u = ca_mask w \<Longrightarrow> ca_inv w \<Longrightarrow> length (ca_contents u) \<le> length (ca_contents w)"
    for u w :: "'l::len word compact_array"
    unfolding ca_inv_def by (cases "ca_contents u = []") fastforce+
  have len: "length ?ys = length ?xs"
    using last [OF iv m inv] last [OF inv m [symmetric] iv] by simp
  have "?ys = ?xs"
  proof (rule nth_equalityI [OF len])
    fix i assume "i < length ?ys"
    with up inv iv m len k show "?ys ! i = ?xs ! i"
      by (cases "bit (ca_mask orig) i") (auto simp: ca_upto_def ca_inv_def)
  qed
  with m show ?thesis by (simp add: compact_array.equality)
qed

lemma ca_upto_skip: "ca_upto orig k v \<Longrightarrow> \<not> bit (ca_mask orig) k \<Longrightarrow> ca_upto orig (Suc k) v"
  by (auto simp: ca_upto_def less_Suc_eq bit_take_bit_iff intro!: bit_word_eqI)

lemma ca_upto_insert:
  assumes "ca_upto orig k v" "bit (ca_mask orig) k" "k < 32" "x = ca_contents orig ! k"
  shows "\<exists>v'. ca_Insert k x v = Inr v' \<and> ca_upto orig (Suc k) v'"
proof -
  let ?cs = "if length (ca_contents v) \<le> k then vec_resize (k + 1) (ca_contents v) else ca_contents v"
  let ?v = "v\<lparr>ca_mask := ca_mask v OR push_bit k 1, ca_contents := ?cs[k := x]\<rparr>"
  have ins: "ca_Insert k x v = Inr ?v"
    using assms(3) by (simp add: ca_Insert_def CheckCompactArrayMaskOverflow_def Let_def)
  have "ca_inv ?v" using ca_Insert_inv [OF _ ins] assms(1) by (simp add: ca_upto_def)
  moreover have "ca_mask ?v = take_bit (Suc k) (ca_mask orig)"
    using assms(1-3)
    by (intro bit_word_eqI) (auto simp: ca_upto_def bit_or_iff bit_exp_iff bit_take_bit_iff less_Suc_eq)
  moreover have "ca_contents ?v ! i = ca_contents orig ! i" if "i < Suc k" "bit (ca_mask orig) i" for i
  proof (cases "i = k")
    case True
    then show ?thesis using assms(4) by simp
  next
    case False
    with that assms(1) have "bit (ca_mask v) i" by (auto simp: ca_upto_def bit_take_bit_iff)
    with assms(1) have "i < length (ca_contents v)" by (auto simp: ca_upto_def ca_inv_def)
    with False that assms(1) show ?thesis by (auto simp: ca_upto_def nth_vec_resize)
  qed
  ultimately show ?thesis using ins unfolding ca_upto_def by auto
qed


lemma ca_read_loop_step:
  assumes "msk \<noteq> 0"
  shows "ca_read_loop h k msk v data =
     bindr (if bit msk 0
            then bindr (bb_read h data) (\<lambda>(x, data'). bindr (ca_Insert k x v) (\<lambda>v'. Inr (v', data')))
            else Inr (v, data))
       (\<lambda>(v', data'). ca_read_loop h (Suc k) (drop_bit 1 msk) v' data')"
proof -
  have "msk AND 1 \<noteq> 0 \<longleftrightarrow> bit msk 0" using mask_test [of msk 0] by simp
  then show ?thesis using assms by (subst ca_read_loop.simps) (simp only: if_True simp_thms)
qed

lemma ca_read_loop_wire:
  fixes orig :: "'l::len word compact_array"
  assumes l: "8 dvd LENGTH('l)" "LENGTH('l) \<le> 64" and inv: "ca_inv orig"
  shows "ys = drop k (ca_contents orig) \<Longrightarrow> ca_upto orig k v \<Longrightarrow> bb_ok data \<Longrightarrow>
    bb_unread data = ca_wire (ca_mask orig) k ys @ rest \<Longrightarrow>
    ca_read_loop h k (drop_bit k (ca_mask orig)) v data
      = Inr (orig, bb_advance (length (ca_wire (ca_mask orig) k ys)) data)"
proof (induction ys arbitrary: k v data)
  case Nil
  let ?m = "ca_mask orig"
  have len: "length (ca_contents orig) \<le> k" using Nil.prems(1) by simp
  have "\<not> bit ?m (k + i)" for i using inv len by (auto simp: ca_inv_def dest!: spec [of _ "k + i"])
  then have "drop_bit k ?m = 0" by (intro bit_word_eqI) (simp add: bit_drop_bit_eq)
  moreover have "v = orig" by (rule ca_upto_all [OF inv Nil.prems(2) len])
  ultimately show ?case by (subst ca_read_loop.simps) simp
next
  case (Cons x ys)
  let ?m = "ca_mask orig" and ?xs = "ca_contents orig"
  have k: "k < length ?xs" using Cons.prems(1) by (metis drop_all list.distinct(1) not_le)
  have x: "x = ?xs ! k" and ys: "ys = drop (Suc k) ?xs"
    using Cons.prems(1) k by (simp_all add: Cons_nth_drop_Suc [symmetric])
  have k32: "k < 32" using k inv by (auto simp: ca_inv_def)
  have "bit ?m (length ?xs - 1)" using k inv by (auto simp: ca_inv_def)
  then have "bit (drop_bit k ?m) (length ?xs - 1 - k)" using k by (simp add: bit_drop_bit_eq)
  then have nz: "drop_bit k ?m \<noteq> 0" by auto
  have dd: "drop_bit 1 (drop_bit k ?m) = drop_bit (Suc k) ?m" by simp
  have b0: "bit (drop_bit k ?m) 0 = bit ?m k" by (simp add: bit_drop_bit_eq)
  show ?case
  proof (cases "bit ?m k")
    case True
    obtain v' where v': "ca_Insert k x v = Inr v'" "ca_upto orig (Suc k) v'"
      using ca_upto_insert [OF Cons.prems(2) True k32 x] by blast
    let ?d = "bb_advance (length (le_bytes x)) data"
    have u: "bb_unread data = le_bytes x @ ca_wire ?m (Suc k) ys @ rest"
      using Cons.prems(4) True by simp
    have "bb_ok ?d" "bb_unread ?d = ca_wire ?m (Suc k) ys @ rest"
      using Cons.prems(3) u by (auto simp: advance)
    from Cons.IH [OF ys v'(2) this] word_decode [OF l Cons.prems(3) u] v'(1) True show ?thesis
      unfolding ca_read_loop_step [OF nz] b0 dd by simp
  next
    case False
    from Cons.IH [OF ys ca_upto_skip [OF Cons.prems(2) False] Cons.prems(3)] Cons.prems(4) False
    show ?thesis unfolding ca_read_loop_step [OF nz] b0 dd by simp
  qed
qed

text \<open>
  Round trip of compact arrays: an array built by insertions into an empty one, with elements of
  any fixed width, is read back into an empty array with the same mask and contents.
\<close>

theorem compact_array_roundtrip:
  fixes v :: "'l::len word compact_array"
  assumes "8 dvd LENGTH('l)" "LENGTH('l) \<le> 64" "ca_inv v" "bb_wpos b = bb_size b"
    "bb_size b + 4 + length (ca_wire (ca_mask v) 0 (ca_contents v)) < 10000000"
  shows "\<exists>b'. shl_CompactArray h v b = Inr b' \<and>
     shr_CompactArray h ca_new (b'\<lparr>bb_rpos := bb_size b\<rparr>) = Inr (v, b'\<lparr>bb_rpos := bb_size b'\<rparr>)"
proof -
  let ?w = "ca_wire (ca_mask v) 0 (ca_contents v)" and ?m = "le_bytes (ca_mask v)"
  let ?b = "bb_extend (?m @ ?w) b"
  have wr: "bb_writing b" "bb_writing (bb_extend ?m b)"
    using assms(4,5) by (simp_all add: bb_writing_def bb_extend_def)
  have 1: "shl_CompactArray h v b = Inr ?b"
    using wr assms(5) by (simp add: shl_CompactArray_def shl_uint32_def word_put_extends
        ca_write_loop_wire [OF assms(1)] bb_extend_append)
  let ?d = "?b\<lparr>bb_rpos := bb_size b\<rparr>"
  have ok: "bb_ok ?d" "bb_unread ?d = ?m @ ?w @ []"
    using assms(5) by (simp_all add: bb_ok_def bb_unread_def bb_extend_def)
  note r = u32.decode_continue [OF ok(1) TrueI ok(2)]
  have "shr_CompactArray h ca_new ?d = Inr (v, bb_advance (length ?w) (bb_advance (length ?m) ?d))"
    using ca_read_loop_wire [OF assms(1-3) _ ca_upto_0 r(2), of "ca_contents v" "[]"] r(3)
    by (simp add: shr_CompactArray_def shr_uint32_def r(1))
  with 1 show ?thesis by (simp add: bb_advance_def bb_extend_def)
qed

theorem compact_array_roundtrip_witness:
  "\<exists>v b'. bindr (ca_Insert 3 0xAABB ca_new) (ca_Insert 1 7) = Inr (v :: 16 word compact_array) \<and>
     shl_CompactArray WARHEAD_LITTLEENDIAN v ByteBuffer_new = Inr b' \<and>
     shr_CompactArray WARHEAD_LITTLEENDIAN ca_new (b'\<lparr>bb_rpos := 0\<rparr>) = Inr (v, b'\<lparr>bb_rpos := bb_size b'\<rparr>)"
proof -
  define v :: "16 word compact_array" where "v = \<lparr>ca_mask = 10, ca_contents = [0, 7, 0, 0xAABB]\<rparr>"
  have i: "bindr (ca_Insert 3 0xAABB ca_new) (ca_Insert 1 7) = Inr v"
    unfolding v_def by code_simp
  have "ca_inv v"
    using i ca_Insert_inv [OF ca_inv_new] ca_Insert_inv by (fastforce simp only: bindr_eq_Inr)
  moreover have "length (ca_wire (ca_mask v) 0 (ca_contents v)) = 4"
    unfolding v_def by code_simp
  ultimately show ?thesis
    using i compact_array_roundtrip [of v ByteBuffer_new WARHEAD_LITTLEENDIAN]
    by (auto simp: ByteBuffer_new_def)
qed

text \<open>
  Loop counter protection: whatever a packet asks for, \<open>resize\<close>, \<open>reserve\<close> and \<open>push_back\<close> of a
  packet array throw \<open>PacketArrayMaxCapacityException\<close> exactly when the array would pass its limit,
  and otherwise leave it within the limit.
\<close>

theorem packet_array_limit:
  assumes "pa_within_limit (a :: 'a::zero packet_array)"
  shows "(pa_resize n a = Inl (PacketArrayMaxCapacityException n (pa_limit a)) \<longleftrightarrow> n > pa_limit a)
    \<and> (pa_push_back x a = Inl (PacketArrayMaxCapacityException (Suc (pa_limit a)) (pa_limit a))
         \<longleftrightarrow> length (pa_storage a) = pa_limit a)
    \<and> list_all (\<lambda>r. case r of Inl e \<Rightarrow> is_thrown e | Inr a' \<Rightarrow> pa_within_limit a')
        [pa_resize n a, pa_reserve n a, pa_push_back x a]"
proof (intro conjI)
  show "pa_resize n a = Inl (PacketArrayMaxCapacityException n (pa_limit a)) \<longleftrightarrow> n > pa_limit a"
    by (simp add: pa_resize_def)
  show "pa_push_back x a = Inl (PacketArrayMaxCapacityException (Suc (pa_limit a)) (pa_limit a))
      \<longleftrightarrow> length (pa_storage a) = pa_limit a"
    using assms by (auto simp: pa_push_back_def pa_within_limit_def)
  show "list_all (\<lambda>r. case r of Inl e \<Rightarrow> is_thrown e | Inr a' \<Rightarrow> pa_within_limit a')
      [pa_resize n a, pa_reserve n a, pa_push_back x a]"
    using assms by (simp add: pa_resize_def pa_reserve_def pa_push_back_def pa_within_limit_def)
qed

theorem packet_array_limit_witness:
  "pa_push_back 5 \<lparr>pa_storage = [1, 2 :: nat], pa_limit = 2\<rparr> = Inl (PacketArrayMaxCapacityException 3 2)"
  using packet_array_limit [of "\<lparr>pa_storage = [1, 2 :: nat], pa_limit = 2\<rparr>" 0 5]
  by (simp add: pa_within_limit_def numeral_3_eq_3)

end
