(* ===== verification/Packets.thy ===== *)
theory Packets
  imports PacketUtilities
begin

text \<open>
  The packets themselves: the codes of \<open>src/src/shared/DiscordSharedDefines.h\<close>, the headers of
  \<open>src/src/shared/DiscordPacketHeader.h\<close>, \<open>DiscordPacket\<close>, the packet classes under
  \<open>src/src/server/Server/Packets/PacketsImpl\<close> and the opcode table of
  \<open>src/src/server/Server/Protocol\<close>.
\<close>

section \<open>Codes\<close>

datatype DiscordCode =
    CLIENT_SEND_HELLO
  | CLIENT_AUTH_SESSION
  | CLIENT_SEND_MESSAGE
  | CLIENT_SEND_MESSAGE_EMBED
  | CLIENT_SEND_PING
  | SERVER_SEND_AUTH_RESPONSE
  | SERVER_SEND_PONG

primrec code_value :: "DiscordCode \<Rightarrow> uint16" where
  "code_value CLIENT_SEND_HELLO = 1"
| "code_value CLIENT_AUTH_SESSION = 2"
| "code_value CLIENT_SEND_MESSAGE = 3"
| "code_value CLIENT_SEND_MESSAGE_EMBED = 4"
| "code_value CLIENT_SEND_PING = 5"
| "code_value SERVER_SEND_AUTH_RESPONSE = 6"
| "code_value SERVER_SEND_PONG = 7"

definition NUM_DISCORD_CODE_HANDLERS :: nat where
  "NUM_DISCORD_CODE_HANDLERS = 8"

definition NULL_DISCORD_CODE :: uint16 where
  "NULL_DISCORD_CODE = 0"

datatype DiscordAuthResponseCodes =
    AuthOk | AuthFailed | IncorrectKey | UnknownAccount | BannedAccount | BannedIP
  | BannedPermanentlyAccount | BannedPermanentlyIP | ServerOffline | BotNotFound
  | ChannelsNotFound | ChannelsIncorrect

primrec auth_code_value :: "DiscordAuthResponseCodes \<Rightarrow> uint8" where
  "auth_code_value AuthOk = 0"
| "auth_code_value AuthFailed = 1"
| "auth_code_value IncorrectKey = 2"
| "auth_code_value UnknownAccount = 3"
| "auth_code_value BannedAccount = 4"
| "auth_code_value BannedIP = 5"
| "auth_code_value BannedPermanentlyAccount = 6"
| "auth_code_value BannedPermanentlyIP = 7"
| "auth_code_value ServerOffline = 8"
| "auth_code_value BotNotFound = 9"
| "auth_code_value ChannelsNotFound = 10"
| "auth_code_value ChannelsIncorrect = 11"

definition DEFAULT_CHANNELS_COUNT :: nat where
  "DEFAULT_CHANNELS_COUNT = 7"

record embed_field =
  ef_Name :: string
  ef_Value :: string
  ef_IsInline :: bool

definition IsCorrectName :: "embed_field \<Rightarrow> bool" where
  "IsCorrectName f \<longleftrightarrow> length (ef_Name f) \<le> 256"

definition IsCorrectValue :: "embed_field \<Rightarrow> bool" where
  "IsCorrectValue f \<longleftrightarrow> length (ef_Value f) \<le> 1024"

section \<open>Headers\<close>

text \<open>The six header bytes of a packet from the server: the size big endian, the code little
  endian, both by shifts.\<close>

definition DiscordServerPktHeader :: "uint32 \<Rightarrow> uint16 \<Rightarrow> uint8 list" where
  "DiscordServerPktHeader sz cmd =
     [ucast (0xFF AND drop_bit 24 sz), ucast (0xFF AND drop_bit 16 sz),
      ucast (0xFF AND drop_bit 8 sz), ucast (0xFF AND sz),
      ucast (0xFF AND cmd), ucast (0xFF AND drop_bit 8 cmd)]"

definition header_length :: nat where
  "header_length = 6"

record client_header =
  ch_size :: uint32
  ch_cmd :: uint16

definition IsValidSize :: "client_header \<Rightarrow> bool" where
  "IsValidSize hdr \<longleftrightarrow> ch_size hdr \<ge> 2 \<and> ch_size hdr < 10000"

definition IsValidOpcode :: "client_header \<Rightarrow> bool" where
  "IsValidOpcode hdr \<longleftrightarrow> unat (ch_cmd hdr) < NUM_DISCORD_CODE_HANDLERS"

text \<open>The packed struct laid over six bytes of memory.\<close>

definition header_of_bytes :: "endian \<Rightarrow> uint8 list \<Rightarrow> client_header" where
  "header_of_bytes h bs =
     \<lparr>ch_size = mem_value h (take 4 bs), ch_cmd = mem_value h (take 2 (drop 4 bs))\<rparr>"

definition bytes_of_header :: "endian \<Rightarrow> client_header \<Rightarrow> uint8 list" where
  "bytes_of_header h hdr = mem_bytes h (ch_size hdr) @ mem_bytes h (ch_cmd hdr)"

section \<open>DiscordPacket\<close>

record discord_packet =
  dp_opcode :: uint16
  dp_buf :: byte_buffer

definition DiscordPacket_new :: "uint16 \<Rightarrow> discord_packet" where
  "DiscordPacket_new opcode = \<lparr>dp_opcode = opcode, dp_buf = ByteBuffer_new\<rparr>"

definition DiscordPacket_of_MessageBuffer :: "uint16 \<Rightarrow> message_buffer \<Rightarrow> discord_packet \<times> message_buffer" where
  "DiscordPacket_of_MessageBuffer opcode buffer =
     (let (b, buffer') = ByteBuffer_of_MessageBuffer buffer
      in (\<lparr>dp_opcode = opcode, dp_buf = b\<rparr>, buffer'))"

definition DiscordPacket_move :: "discord_packet \<Rightarrow> discord_packet \<times> discord_packet" where
  "DiscordPacket_move packet =
     (let (b, b') = ByteBuffer_move (dp_buf packet)
      in (packet\<lparr>dp_buf := b\<rparr>, packet\<lparr>dp_buf := b'\<rparr>))"

definition dp_Initialize :: "uint16 \<Rightarrow> discord_packet \<Rightarrow> discord_packet" where
  "dp_Initialize opcode packet = packet\<lparr>dp_buf := bb_clear (dp_buf packet), dp_opcode := opcode\<rparr>"

definition dp_SetOpcode :: "uint16 \<Rightarrow> discord_packet \<Rightarrow> discord_packet" where
  "dp_SetOpcode opcode packet = packet\<lparr>dp_opcode := opcode\<rparr>"

section \<open>Packet classes\<close>

text \<open>\<open>ClientPacket(expectedOpcode, packet)\<close> takes the packet over and asserts its code.\<close>

definition ClientPacket :: "DiscordCode \<Rightarrow> discord_packet \<Rightarrow> byte_buffer res" where
  "ClientPacket expectedOpcode packet =
     (if dp_opcode packet = code_value expectedOpcode then Inr (dp_buf packet)
      else Inl (AssertFailure ''GetOpcode() == expectedOpcode''))"

record hello_packet =
  hp_Message :: string

definition HelloClient_Read :: "endian \<Rightarrow> byte_buffer \<Rightarrow> (hello_packet \<times> byte_buffer) res" where
  "HelloClient_Read h b = bindr (shr_string h b) (\<lambda>(m, b'). Inr (\<lparr>hp_Message = m\<rparr>, b'))"

record message_packet =
  mp_ChannelType :: uint8
  mp_Context :: string

definition SendDiscordMessage_Read :: "endian \<Rightarrow> byte_buffer \<Rightarrow> (message_packet \<times> byte_buffer) res" where
  "SendDiscordMessage_Read h b =
     bindr (shr_uint8 h b) (\<lambda>(t, b1).
     bindr (shr_string h b1) (\<lambda>(c, b2).
       Inr (\<lparr>mp_ChannelType = t, mp_Context = c\<rparr>, b2)))"

record embed_packet =
  ep_ChannelType :: uint8
  ep_Color :: uint32
  ep_Title :: string
  ep_Description :: string
  ep_EmbedFieldsSize :: uint64
  ep_Timestamp :: int64
  ep_EmbedFields :: "embed_field list"

definition read_embed_field :: "endian \<Rightarrow> byte_buffer \<Rightarrow> (embed_field \<times> byte_buffer) res" where
  "read_embed_field h b =
     bindr (shr_string h b) (\<lambda>(name, b1).
     bindr (shr_string h b1) (\<lambda>(value, b2).
     bindr (shr_bool h b2) (\<lambda>(isInline, b3).
       Inr (\<lparr>ef_Name = name, ef_Value = value, ef_IsInline = isInline\<rparr>, b3))))"

definition SendDiscordEmbedMessage_Read :: "endian \<Rightarrow> byte_buffer \<Rightarrow> (embed_packet \<times> byte_buffer) res" where
  "SendDiscordEmbedMessage_Read h b =
     bindr (shr_uint8 h b) (\<lambda>(t, b1).
     bindr (shr_uint32 h b1) (\<lambda>(color, b2).
     bindr (shr_string h b2) (\<lambda>(title, b3).
     bindr (shr_string h b3) (\<lambda>(description, b4).
     bindr (shr_uint64 h b4) (\<lambda>(n, b5).
     bindr (read_many (unat n) (read_embed_field h) b5) (\<lambda>(fields, b6).
     bindr (shr_int64 h b6) (\<lambda>(stamp, b7).
       Inr (\<lparr>ep_ChannelType = t, ep_Color = color, ep_Title = title, ep_Description = description,
             ep_EmbedFieldsSize = n, ep_Timestamp = stamp, ep_EmbedFields = fields\<rparr>, b7))))))))"

definition AuthResponse_Write :: "endian \<Rightarrow> DiscordAuthResponseCodes \<Rightarrow> discord_packet res" where
  "AuthResponse_Write h code =
     bindr (shl_uint8 h (auth_code_value code) ByteBuffer_new)
       (\<lambda>b. Inr \<lparr>dp_opcode = code_value SERVER_SEND_AUTH_RESPONSE, dp_buf = b\<rparr>)"

section \<open>The opcode table\<close>

datatype opcode_function =
    HandleHelloOpcode | Handle_EarlyProccess | HandleSendDiscordMessageOpcode
  | HandleSendDiscordEmbedMessageOpcode | Handle_ServerSide

record opcode_handler =
  oh_Name :: string
  oh_Function :: opcode_function

type_synonym opcode_table = "opcode_handler option list"

definition OpcodeTable_new :: opcode_table where
  "OpcodeTable_new = replicate NUM_DISCORD_CODE_HANDLERS None"

text \<open>Both setters refuse the null code, codes past the table and codes that have a handler; they
  log the refusal and return.\<close>

definition ValidateAndSetClientOpcode ::
  "uint16 \<Rightarrow> opcode_function \<Rightarrow> string \<Rightarrow> opcode_table \<Rightarrow> opcode_table" where
  "ValidateAndSetClientOpcode opcode fn name tbl =
     (if opcode = NULL_DISCORD_CODE then tbl
      else if unat opcode \<ge> NUM_DISCORD_CODE_HANDLERS then tbl
      else if tbl ! unat opcode \<noteq> None then tbl
      else tbl[unat opcode := Some \<lparr>oh_Name = name, oh_Function = fn\<rparr>])"

definition ValidateAndSetServerOpcode :: "uint16 \<Rightarrow> string \<Rightarrow> opcode_table \<Rightarrow> opcode_table" where
  "ValidateAndSetServerOpcode opcode name tbl =
     (if opcode = NULL_DISCORD_CODE then tbl
      else if unat opcode \<ge> NUM_DISCORD_CODE_HANDLERS then tbl
      else if tbl ! unat opcode \<noteq> None then tbl
      else tbl[unat opcode := Some \<lparr>oh_Name = name, oh_Function = Handle_ServerSide\<rparr>])"

definition OpcodeTable_Initialize :: "opcode_table \<Rightarrow> opcode_table" where
  "OpcodeTable_Initialize t0 =
     (let t1 = ValidateAndSetClientOpcode (code_value CLIENT_SEND_HELLO) HandleHelloOpcode ''CLIENT_SEND_HELLO'' t0;
          t2 = ValidateAndSetClientOpcode (code_value CLIENT_AUTH_SESSION) Handle_EarlyProccess ''CLIENT_AUTH_SESSION'' t1;
          t3 = ValidateAndSetClientOpcode (code_value CLIENT_SEND_MESSAGE) HandleSendDiscordMessageOpcode ''CLIENT_SEND_MESSAGE'' t2;
          t4 = ValidateAndSetClientOpcode (code_value CLIENT_SEND_MESSAGE_EMBED) HandleSendDiscordEmbedMessageOpcode ''CLIENT_SEND_MESSAGE_EMBED'' t3;
          t5 = ValidateAndSetClientOpcode (code_value CLIENT_SEND_PING) Handle_EarlyProccess ''CLIENT_SEND_PING'' t4;
          t6 = ValidateAndSetServerOpcode (code_value SERVER_SEND_AUTH_RESPONSE) ''SERVER_SEND_AUTH_RESPONSE'' t5
      in ValidateAndSetServerOpcode (code_value SERVER_SEND_PONG) ''SERVER_SEND_PONG'' t6)"

text \<open>\<open>opcodeTable[opcode]\<close>: outside the table the access is undefined.\<close>

definition opcode_lookup :: "opcode_table \<Rightarrow> uint16 \<Rightarrow> opcode_handler option res" where
  "opcode_lookup tbl opcode =
     (if unat opcode < length tbl then Inr (tbl ! unat opcode) else Inl (UndefinedAccess ''OpcodeTable''))"

definition opcode_name :: "opcode_table \<Rightarrow> uint16 \<Rightarrow> string" where
  "opcode_name tbl opcode =
     (if unat opcode < NUM_DISCORD_CODE_HANDLERS then
        (case tbl ! unat opcode of Some hdr \<Rightarrow> oh_Name hdr | None \<Rightarrow> ''UNKNOWN OPCODE'')
      else ''INVALID OPCODE'')"

section \<open>Wire formats of the packets\<close>

definition field_bytes :: "embed_field \<Rightarrow> uint8 list" where
  "field_bytes f = string_bytes (ef_Name f) @ string_bytes (ef_Value f) @ bool_bytes (ef_IsInline f)"

definition wire_field :: "embed_field \<Rightarrow> bool" where
  "wire_field f \<longleftrightarrow> wire_string (ef_Name f) \<and> wire_string (ef_Value f)"

definition embed_bytes :: "embed_packet \<Rightarrow> uint8 list" where
  "embed_bytes p = le_bytes (ep_ChannelType p) @ le_bytes (ep_Color p) @ string_bytes (ep_Title p)
     @ string_bytes (ep_Description p) @ le_bytes (ep_EmbedFieldsSize p)
     @ concat (map field_bytes (ep_EmbedFields p)) @ le_bytes (ep_Timestamp p)"

definition wire_embed :: "embed_packet \<Rightarrow> bool" where
  "wire_embed p \<longleftrightarrow> wire_string (ep_Title p) \<and> wire_string (ep_Description p)
     \<and> list_all wire_field (ep_EmbedFields p) \<and> unat (ep_EmbedFieldsSize p) = length (ep_EmbedFields p)"

interpretation fields: wire_codec field_bytes "read_embed_field h" wire_field for h
proof unfold_locales
  fix b v rest
  assume b: "bb_ok b" and v: "wire_field v" and u: "bb_unread b = field_bytes v @ rest"
  from v have s: "wire_string (ef_Name v)" "wire_string (ef_Value v)" by (simp_all add: wire_field_def)
  from u have "bb_unread b = string_bytes (ef_Name v) @ string_bytes (ef_Value v) @ bool_bytes (ef_IsInline v) @ rest"
    by (simp add: field_bytes_def)
  note 1 = strings.decode_continue [OF b s(1) this]
  note 2 = strings.decode_continue [OF 1(2) s(2) 1(3)]
  note 3 = bools.decode_continue [OF 2(2) TrueI 2(3)]
  show "read_embed_field h b = Inr (v, bb_advance (length (field_bytes v)) b)"
    unfolding read_embed_field_def 1(1) prod.case 2(1) 3(1) by (simp add: field_bytes_def add.assoc)
qed

interpretation embeds: wire_codec embed_bytes "SendDiscordEmbedMessage_Read h" wire_embed for h
proof unfold_locales
  fix b v rest
  assume b: "bb_ok b" and v: "wire_embed v" and u: "bb_unread b = embed_bytes v @ rest"
  from v have s: "wire_string (ep_Title v)" "wire_string (ep_Description v)"
    "list_all wire_field (ep_EmbedFields v)" "unat (ep_EmbedFieldsSize v) = length (ep_EmbedFields v)"
    by (simp_all add: wire_embed_def)
  note w = u [unfolded embed_bytes_def append_assoc]
  note 1 = u8.decode_continue [OF b TrueI w]
  note 2 = u32.decode_continue [OF 1(2) TrueI 1(3)]
  note 3 = strings.decode_continue [OF 2(2) s(1) 2(3)]
  note 4 = strings.decode_continue [OF 3(2) s(2) 3(3)]
  note 5 = u64.decode_continue [OF 4(2) TrueI 4(3)]
  note 6 = fields.decode_many_continue [OF 5(2) s(3) 5(3)]
  note 7 = u64.decode_continue [OF 6(2) TrueI 6(3)]
  show "SendDiscordEmbedMessage_Read h b = Inr (v, bb_advance (length (embed_bytes v)) b)"
    unfolding SendDiscordEmbedMessage_Read_def shift_ops 1(1) prod.case 2(1) 3(1) 4(1) 5(1) s(4) 6(1) 7(1)
    by (simp add: embed_bytes_def add.assoc)
qed


section \<open>Safety of the packet readers\<close>

text \<open>
  A read that starts inside the buffer is safe, leaves the storage alone and moves at least as far
  as its result says. This is compositional over the sequences of reads of the packet classes.
\<close>

definition consumes :: "('v \<Rightarrow> nat) \<Rightarrow> byte_buffer \<Rightarrow> ('v \<times> byte_buffer) res \<Rightarrow> bool" where
  "consumes N b r \<longleftrightarrow> safe_read r \<and>
     (\<forall>v b'. r = Inr (v, b') \<longrightarrow> bb_storage b' = bb_storage b \<and> bb_rpos b + N v \<le> bb_rpos b')"

lemma consumes_return: "bb_ok b \<Longrightarrow> N v = 0 \<Longrightarrow> consumes N b (Inr (v, b))"
  by (simp add: consumes_def)

lemma consumes_bind:
  assumes "consumes M b r"
    and "\<And>v b'. bb_ok b' \<Longrightarrow> consumes (\<lambda>x. N x - M v) b' (g v b')"
  shows "consumes N b (bindr r (\<lambda>(v, b'). g v b'))"
proof (cases r)
  case (Inl e)
  with assms(1) show ?thesis by (simp add: consumes_def)
next
  case (Inr p)
  obtain v b' where p: "p = (v, b')" by (cases p)
  with Inr assms(1) have "bb_ok b'" "bb_storage b' = bb_storage b" "bb_rpos b + M v \<le> bb_rpos b'"
    by (simp_all add: consumes_def)
  with assms(2) [OF this(1), of v] p Inr show ?thesis by (fastforce simp: consumes_def)
qed

lemma consumes_read:
  "bb_ok b \<Longrightarrow> 8 dvd LENGTH('a) \<Longrightarrow> LENGTH('a) \<le> 64 \<Longrightarrow>
     consumes (\<lambda>_. LENGTH('a) div 8) b (bb_read h b :: ('a::len word \<times> byte_buffer) res)"
  unfolding consumes_def by (auto simp: safe_bb_read) (auto simp: bb_read_eq Let_def split: if_splits)

lemma consumes_bool: "bb_ok b \<Longrightarrow> consumes (\<lambda>_. 1) b (shr_bool h b)"
  unfolding shr_bool_def by (rule consumes_bind [OF consumes_read]) (simp_all add: consumes_return)

lemma consumes_cstring_loop: "bb_ok b \<Longrightarrow> consumes (\<lambda>_. 0) b (read_cstring_loop h acc b)"
proof (induction h acc b rule: read_cstring_loop.induct)
  case (1 h acc b)
  show ?case
  proof (cases "bb_rpos b < bb_size b")
    case True
    have r: "consumes (\<lambda>_. 1) b (bb_read h b :: (uint8 \<times> _) res)"
      using consumes_read [OF 1(2), where 'a = 8] by simp
    show ?thesis
    proof (cases "bb_read h b :: (uint8 \<times> _) res")
      case (Inl e)
      with True r show ?thesis by (subst read_cstring_loop.simps) (simp add: consumes_def)
    next
      case (Inr p)
      obtain c b' where p: "p = (c, b')" by (cases p)
      with r Inr have "bb_ok b'" "bb_storage b' = bb_storage b" "bb_rpos b + 1 \<le> bb_rpos b'"
        by (simp_all add: consumes_def)
      with 1(1) [OF True Inr p [symmetric]] True Inr p show ?thesis
        by (subst read_cstring_loop.simps) (auto simp: consumes_def)
    qed
  next
    case False
    with 1(2) show ?thesis by (subst read_cstring_loop.simps) (simp add: consumes_return)
  qed
qed

lemma consumes_string: "bb_ok b \<Longrightarrow> consumes (\<lambda>_. 0) b (shr_string h b)"
  unfolding shr_string_def ReadCString_def
  by (rule consumes_bind [OF consumes_cstring_loop]) (auto intro: consumes_return simp: consumes_def)

lemma consumes_field: "bb_ok b \<Longrightarrow> consumes (\<lambda>_. 1) b (read_embed_field h b)"
  unfolding read_embed_field_def
  by (rule consumes_bind [OF consumes_string], assumption, rule consumes_bind [OF consumes_string],
      assumption, rule consumes_bind [OF consumes_bool]) (simp_all add: consumes_return)

lemma consumes_many:
  "bb_ok b \<Longrightarrow> (\<And>b. bb_ok b \<Longrightarrow> consumes (\<lambda>_. k) b (dec b)) \<Longrightarrow>
     consumes (\<lambda>vs. k * length vs) b (read_many n dec b)"
proof (induction n arbitrary: b)
  case (Suc n)
  show ?case
    unfolding read_many.simps
    by (rule consumes_bind [OF Suc.prems(2) [OF Suc.prems(1)]], rule consumes_bind [OF Suc.IH])
      (use Suc.prems in \<open>auto intro: consumes_return\<close>)
qed (simp add: consumes_return)

lemma consumes_embed:
  assumes "bb_ok b"
  shows "consumes (\<lambda>p. 21 + length (ep_EmbedFields p)) b (SendDiscordEmbedMessage_Read h b)"
  unfolding SendDiscordEmbedMessage_Read_def shift_ops
  by ((rule consumes_bind [OF consumes_read] consumes_bind [OF consumes_string]
        consumes_bind [OF consumes_many [OF _ consumes_field]]; (assumption | rule assms | simp; fail)?)+)
    (simp add: consumes_return)

lemma read_many_length: "read_many n dec b = Inr (vs, b') \<Longrightarrow> length vs = n"
  by (induction n arbitrary: b vs) auto

section \<open>Headers\<close>

lemma shifted_bytes:
  "[ucast (0xFF AND drop_bit 24 w), ucast (0xFF AND drop_bit 16 w), ucast (0xFF AND drop_bit 8 w),
    ucast (0xFF AND w)] = rev (le_bytes (w :: uint32))"
  "[ucast (0xFF AND c), ucast (0xFF AND drop_bit 8 c)] = le_bytes (c :: uint16)"
proof -
  have m: "(ucast (0xFF AND x) :: uint8) = ucast x" for x :: "'a::len word"
  proof -
    have m8: "(0xFF :: 'a word) = mask 8" by (simp add: mask_eq_exp_minus_1)
    show ?thesis unfolding m8 by (rule bit_word_eqI) (auto simp: bit_simps dest: bit_imp_le_length)
  qed
  show "[ucast (0xFF AND drop_bit 24 w), ucast (0xFF AND drop_bit 16 w), ucast (0xFF AND drop_bit 8 w),
    ucast (0xFF AND w)] = rev (le_bytes w)"
    by (simp add: m le_bytes_def upt_rec)
  show "[ucast (0xFF AND c), ucast (0xFF AND drop_bit 8 c)] = le_bytes c"
    by (simp add: m le_bytes_def upt_rec)
qed

lemma server_header_bytes: "DiscordServerPktHeader sz cmd = rev (le_bytes sz) @ le_bytes cmd"
  unfolding DiscordServerPktHeader_def shifted_bytes(2) [symmetric] shifted_bytes(1) [symmetric] by simp

section \<open>The initialized table\<close>

lemma initialized_table:
  "OpcodeTable_Initialize OpcodeTable_new =
     [None, Some \<lparr>oh_Name = ''CLIENT_SEND_HELLO'', oh_Function = HandleHelloOpcode\<rparr>,
      Some \<lparr>oh_Name = ''CLIENT_AUTH_SESSION'', oh_Function = Handle_EarlyProccess\<rparr>,
      Some \<lparr>oh_Name = ''CLIENT_SEND_MESSAGE'', oh_Function = HandleSendDiscordMessageOpcode\<rparr>,
      Some \<lparr>oh_Name = ''CLIENT_SEND_MESSAGE_EMBED'', oh_Function = HandleSendDiscordEmbedMessageOpcode\<rparr>,
      Some \<lparr>oh_Name = ''CLIENT_SEND_PING'', oh_Function = Handle_EarlyProccess\<rparr>,
      Some \<lparr>oh_Name = ''SERVER_SEND_AUTH_RESPONSE'', oh_Function = Handle_ServerSide\<rparr>,
      Some \<lparr>oh_Name = ''SERVER_SEND_PONG'', oh_Function = Handle_ServerSide\<rparr>]"
  by code_simp

lemma unat_less_8: "unat (w :: uint16) < 8 \<longleftrightarrow> w \<in> {0, 1, 2, 3, 4, 5, 6, 7}"
proof -
  have "unat w < 8 \<longleftrightarrow> unat w \<in> {0, 1, 2, 3, 4, 5, 6, 7}" by auto
  also have "\<dots> \<longleftrightarrow> w \<in> {0, 1, 2, 3, 4, 5, 6, 7}" by (simp add: word_unat_eq_iff)
  finally show ?thesis .
qed

lemma range_code_value: "range code_value = {1, 2, 3, 4, 5, 6, 7}"
proof -
  have "c \<in> {CLIENT_SEND_HELLO, CLIENT_AUTH_SESSION, CLIENT_SEND_MESSAGE, CLIENT_SEND_MESSAGE_EMBED,
      CLIENT_SEND_PING, SERVER_SEND_AUTH_RESPONSE, SERVER_SEND_PONG}" for c by (cases c) simp_all
  then have u: "(UNIV :: DiscordCode set) = {CLIENT_SEND_HELLO, CLIENT_AUTH_SESSION, CLIENT_SEND_MESSAGE,
      CLIENT_SEND_MESSAGE_EMBED, CLIENT_SEND_PING, SERVER_SEND_AUTH_RESPONSE, SERVER_SEND_PONG}"
    by blast
  show ?thesis unfolding u by simp
qed

section \<open>Properties\<close>

text \<open>
  The six header bytes of a packet, built by shifts, are parsed back on a host of either byte
  order by the reader's two conversions (\<open>EndianConvertReverse\<close> of the size, \<open>EndianConvert\<close> of
  the code) to exactly the size and the code.
\<close>

theorem header_roundtrip:
  "let hdr = header_of_bytes h (DiscordServerPktHeader sz cmd) in
     length (DiscordServerPktHeader sz cmd) = header_length
     \<and> EndianConvertReverse h (ch_size hdr) = sz \<and> EndianConvert h (ch_cmd hdr) = cmd"
  unfolding server_header_bytes
  by (simp add: Let_def header_of_bytes_def header_length_def EndianConvertReverse_from_wire
      EndianConvert_from_wire le_word_bytes)

text \<open>
  An embed message laid out as the wire format says (channel type, colour, title, description,
  field count, the fields, time stamp) is read back to the same packet, on either host, and the
  read ends exactly behind it.
\<close>

theorem embed_message_read:
  assumes "bb_ok b" "wire_embed p" "bb_unread b = embed_bytes p @ rest"
  shows "SendDiscordEmbedMessage_Read h b = Inr (p, bb_advance (length (embed_bytes p)) b)"
  using assms by (rule embeds.decode)

theorem embed_message_read_witness:
  "let p = \<lparr>ep_ChannelType = 2, ep_Color = 0x28a745, ep_Title = ''Hi'', ep_Description = [],
      ep_EmbedFieldsSize = 1, ep_Timestamp = 9,
      ep_EmbedFields = [\<lparr>ef_Name = ''a'', ef_Value = ''b'', ef_IsInline = True\<rparr>]\<rparr>
   in SendDiscordEmbedMessage_Read WARHEAD_BIGENDIAN \<lparr>bb_rpos = 0, bb_wpos = 0, bb_storage = embed_bytes p @ [7]\<rparr>
      = Inr (p, \<lparr>bb_rpos = 30, bb_wpos = 0, bb_storage = embed_bytes p @ [7]\<rparr>)"
proof -
  define p where "p = \<lparr>ep_ChannelType = 2, ep_Color = 0x28a745, ep_Title = ''Hi'', ep_Description = [],
      ep_EmbedFieldsSize = 1, ep_Timestamp = 9,
      ep_EmbedFields = [\<lparr>ef_Name = ''a'', ef_Value = ''b'', ef_IsInline = True\<rparr>]\<rparr>"
  have w: "wire_embed p" unfolding p_def by code_simp
  have n: "length (embed_bytes p) = 30"
    by (simp add: p_def embed_bytes_def field_bytes_def string_bytes_def bool_bytes_def)
  have "bb_ok \<lparr>bb_rpos = 0, bb_wpos = 0, bb_storage = embed_bytes p @ [7]\<rparr>"
    by (simp add: bb_ok_def n)
  from embed_message_read [OF this w, of "[7]" WARHEAD_BIGENDIAN] n show ?thesis
    by (simp add: bb_unread_def bb_advance_def p_def [symmetric])
qed

text \<open>
  Reading an embed message of any bytes is safe and bounded by the packet: it throws one of the
  buffer's exceptions, or ends inside the buffer having read as many fields as the packet announced,
  each of which took at least one byte. A field count that the packet has not the bytes for is
  therefore always an error, whatever 64-bit number it is.
\<close>

theorem embed_message_bounded:
  assumes "bb_ok b"
  shows "safe_read (SendDiscordEmbedMessage_Read h b) \<and>
    (\<forall>p b'. SendDiscordEmbedMessage_Read h b = Inr (p, b') \<longrightarrow>
      unat (ep_EmbedFieldsSize p) = length (ep_EmbedFields p)
      \<and> bb_rpos b + 21 + length (ep_EmbedFields p) \<le> bb_rpos b' \<and> bb_rpos b' \<le> bb_size b)"
proof -
  have c: "consumes (\<lambda>p. 21 + length (ep_EmbedFields p)) b (SendDiscordEmbedMessage_Read h b)"
    using assms by (rule consumes_embed)
  moreover have "unat (ep_EmbedFieldsSize p) = length (ep_EmbedFields p)"
    if "SendDiscordEmbedMessage_Read h b = Inr (p, b')" for p b'
    using that by (auto simp: SendDiscordEmbedMessage_Read_def dest!: read_many_length)
  ultimately show ?thesis
    by (auto simp: consumes_def bb_ok_def)
qed

theorem embed_message_bounded_witness:
  "safe_read (SendDiscordEmbedMessage_Read WARHEAD_LITTLEENDIAN
     \<lparr>bb_rpos = 0, bb_wpos = 0, bb_storage = [1, 0, 0, 0, 0, 0, 0, 255, 255, 255, 255, 255, 255, 255, 255, 9]\<rparr>)"
  using embed_message_bounded [of "\<lparr>bb_rpos = 0, bb_wpos = 0,
     bb_storage = [1, 0, 0, 0, 0, 0, 0, 255, 255, 255, 255, 255, 255, 255, 255, 9]\<rparr>" WARHEAD_LITTLEENDIAN]
  by (simp add: bb_ok_def)

text \<open>
  After \<open>OpcodeTable::Initialize\<close> on the empty table, every code of the protocol has its
  handler under its own name, the null code has none, and every code \<open>IsValidOpcode\<close> lets through is
  inside the table.
\<close>

theorem opcode_table_complete:
  "let tbl = OpcodeTable_Initialize OpcodeTable_new in
     opcode_lookup tbl NULL_DISCORD_CODE = Inr None
     \<and> (\<forall>c. \<exists>hdl. opcode_lookup tbl (code_value c) = Inr (Some hdl) \<and> opcode_name tbl (code_value c) = oh_Name hdl
          \<and> (oh_Function hdl = Handle_ServerSide \<longleftrightarrow> c \<in> {SERVER_SEND_AUTH_RESPONSE, SERVER_SEND_PONG}))
     \<and> (\<forall>hdr. IsValidOpcode hdr \<longleftrightarrow> ch_cmd hdr = NULL_DISCORD_CODE \<or> ch_cmd hdr \<in> range code_value)"
proof -
  let ?tbl = "OpcodeTable_Initialize OpcodeTable_new"
  have "opcode_lookup ?tbl NULL_DISCORD_CODE = Inr None" by code_simp
  moreover have "\<exists>hdl. opcode_lookup ?tbl (code_value c) = Inr (Some hdl) \<and> opcode_name ?tbl (code_value c) = oh_Name hdl
       \<and> (oh_Function hdl = Handle_ServerSide \<longleftrightarrow> c \<in> {SERVER_SEND_AUTH_RESPONSE, SERVER_SEND_PONG})" for c
    by (cases c) (simp_all add: initialized_table opcode_lookup_def opcode_name_def
        NUM_DISCORD_CODE_HANDLERS_def)
  moreover have "IsValidOpcode hdr \<longleftrightarrow> ch_cmd hdr = NULL_DISCORD_CODE \<or> ch_cmd hdr \<in> range code_value" for hdr
    by (simp add: IsValidOpcode_def NUM_DISCORD_CODE_HANDLERS_def NULL_DISCORD_CODE_def unat_less_8 range_code_value)
  ultimately show ?thesis by (simp add: Let_def)
qed

end
