(* ===== verification/Socket.thy ===== *)
theory Socket
  imports MessageBuffer
begin

text \<open>
  The socket base class, \<open>src/src/shared/Network/Socket.h\<close>, in its configuration without IOCP. The
  state keeps the read buffer, the queue of buffers to write and the flags; \<open>sk_reading\<close> says that an
  \<open>async_read_some\<close> is outstanding and \<open>sk_sent\<close> is what the operating system took, so that what the
  peer sees is part of the state. The virtual \<open>OnClose\<close> is an argument; derived sockets extend the
  record. What \<open>write_some\<close> answers is an argument too.
\<close>

record socket =
  sk_readBuffer :: message_buffer
  sk_writeQueue :: "message_buffer list"
  sk_closed :: bool
  sk_closing :: bool
  sk_isWritingAsync :: bool
  sk_reading :: bool
  sk_sent :: "uint8 list"

definition sk_IsOpen :: "'z socket_scheme \<Rightarrow> bool" where
  "sk_IsOpen s \<longleftrightarrow> \<not> sk_closed s \<and> \<not> sk_closing s"

definition CloseSocket :: "('z socket_scheme \<Rightarrow> 'z socket_scheme) \<Rightarrow> 'z socket_scheme \<Rightarrow> 'z socket_scheme" where
  "CloseSocket OnClose s = (if sk_closed s then s else OnClose (s\<lparr>sk_closed := True\<rparr>))"

definition DelayedCloseSocket :: "'z socket_scheme \<Rightarrow> 'z socket_scheme" where
  "DelayedCloseSocket s = s\<lparr>sk_closing := True\<rparr>"

definition sk_QueuePacket :: "message_buffer \<Rightarrow> 'z socket_scheme \<Rightarrow> 'z socket_scheme" where
  "sk_QueuePacket buffer s = s\<lparr>sk_writeQueue := sk_writeQueue s @ [buffer]\<rparr>"

definition AsyncRead :: "'z socket_scheme \<Rightarrow> 'z socket_scheme res" where
  "AsyncRead s =
     (if \<not> sk_IsOpen s then Inr s
      else bindr (mb_Normalize (sk_readBuffer s))
             (\<lambda>b. Inr (s\<lparr>sk_readBuffer := mb_EnsureFreeSpace b, sk_reading := True\<rparr>)))"

definition AsyncProcessQueue :: "'z socket_scheme \<Rightarrow> bool \<times> 'z socket_scheme" where
  "AsyncProcessQueue s =
     (if sk_isWritingAsync s then (False, s) else (False, s\<lparr>sk_isWritingAsync := True\<rparr>))"

text \<open>\<open>write_some\<close> takes some of the bytes, or fails; \<open>would_block\<close> and \<open>try_again\<close> mean that the
  socket takes nothing now.\<close>

datatype write_result = WouldBlock | WriteError | Wrote nat

definition pop_and_close ::
  "('z socket_scheme \<Rightarrow> 'z socket_scheme) \<Rightarrow> 'z socket_scheme \<Rightarrow> 'z socket_scheme" where
  "pop_and_close OnClose s =
     (let s' = s\<lparr>sk_writeQueue := tl (sk_writeQueue s)\<rparr>
      in if sk_closing s' \<and> sk_writeQueue s' = [] then CloseSocket OnClose s' else s')"

definition HandleQueue ::
  "('z socket_scheme \<Rightarrow> 'z socket_scheme) \<Rightarrow> write_result \<Rightarrow> 'z socket_scheme \<Rightarrow> bool \<times> 'z socket_scheme" where
  "HandleQueue OnClose r s =
     (case sk_writeQueue s of
        [] \<Rightarrow> (False, s)
      | queuedMessage # rest \<Rightarrow>
          (let bytesToSend = mb_GetActiveSize queuedMessage in
           case r of
             WouldBlock \<Rightarrow> AsyncProcessQueue s
           | WriteError \<Rightarrow> (False, pop_and_close OnClose s)
           | Wrote bytesSent \<Rightarrow>
               (let s1 = s\<lparr>sk_sent := sk_sent s @ take bytesSent (mb_active queuedMessage)\<rparr> in
                if bytesSent = 0 then (False, pop_and_close OnClose s1)
                else if bytesSent < bytesToSend then
                  AsyncProcessQueue (s1\<lparr>sk_writeQueue := mb_ReadCompleted bytesSent queuedMessage # rest\<rparr>)
                else (let s2 = pop_and_close OnClose s1 in (sk_writeQueue s2 \<noteq> [], s2)))))"

definition WriteHandlerWrapper ::
  "('z socket_scheme \<Rightarrow> 'z socket_scheme) \<Rightarrow> write_result \<Rightarrow> 'z socket_scheme \<Rightarrow> 'z socket_scheme" where
  "WriteHandlerWrapper OnClose r s = snd (HandleQueue OnClose r (s\<lparr>sk_isWritingAsync := False\<rparr>))"

text \<open>The loop of \<open>Update\<close>; \<open>env i\<close> is the answer to its \<open>i\<close>-th \<open>write_some\<close>. It goes on only when
  a whole buffer was written and another is queued, so the number of buffers bounds it.\<close>

fun handle_queue_loop ::
  "('z socket_scheme \<Rightarrow> 'z socket_scheme) \<Rightarrow> nat \<Rightarrow> (nat \<Rightarrow> write_result) \<Rightarrow> nat \<Rightarrow> 'z socket_scheme \<Rightarrow> 'z socket_scheme option" where
  "handle_queue_loop OnClose 0 env i s = None"
| "handle_queue_loop OnClose (Suc fuel) env i s =
     (case HandleQueue OnClose (env i) s of
        (False, s') \<Rightarrow> Some s'
      | (True, s') \<Rightarrow> handle_queue_loop OnClose fuel env (Suc i) s')"

definition Socket_Update ::
  "('z socket_scheme \<Rightarrow> 'z socket_scheme) \<Rightarrow> (nat \<Rightarrow> write_result) \<Rightarrow> 'z socket_scheme \<Rightarrow> (bool \<times> 'z socket_scheme) option" where
  "Socket_Update OnClose env s =
     (if sk_closed s then Some (False, s)
      else if sk_isWritingAsync s \<or> (sk_writeQueue s = [] \<and> \<not> sk_closing s) then Some (True, s)
      else map_option (Pair True) (handle_queue_loop OnClose (Suc (length (sk_writeQueue s))) env 0 s))"

text \<open>\<open>ReadHandlerInternal\<close> after an \<open>async_read_some\<close> that put \<open>bs\<close> at the write pointer; \<open>None\<close> is
  an error code. The virtual \<open>ReadHandler\<close> is an argument.\<close>

definition ReadHandlerInternal ::
  "('z socket_scheme \<Rightarrow> 'z socket_scheme) \<Rightarrow> ('z socket_scheme \<Rightarrow> 'z socket_scheme res option) \<Rightarrow>
   uint8 list option \<Rightarrow> 'z socket_scheme \<Rightarrow> 'z socket_scheme res option" where
  "ReadHandlerInternal OnClose ReadHandler transferred s =
     (case transferred of
        None \<Rightarrow> Some (Inr (CloseSocket OnClose (s\<lparr>sk_reading := False\<rparr>)))
      | Some bs \<Rightarrow>
          (case mem_write ''async_read_some'' (mb_wpos (sk_readBuffer s)) bs (mb_storage (sk_readBuffer s)) of
             Inl e \<Rightarrow> Some (Inl e)
           | Inr st \<Rightarrow>
               ReadHandler (s\<lparr>sk_reading := False,
                 sk_readBuffer := mb_WriteCompleted (length bs) ((sk_readBuffer s)\<lparr>mb_storage := st\<rparr>)\<rparr>)))"

section \<open>Runs of the writing side\<close>

text \<open>The writing side is driven by \<open>Update\<close> and by the completion of an asynchronous write, when one is outstanding.\<close>

datatype write_step = UpdateStep "nat \<Rightarrow> write_result" | HandlerStep write_result

fun write_run :: "('z socket_scheme \<Rightarrow> 'z socket_scheme) \<Rightarrow> write_step list \<Rightarrow> 'z socket_scheme \<Rightarrow> 'z socket_scheme option" where
  "write_run OnClose [] s = Some s"
| "write_run OnClose (UpdateStep env # ws) s = Option.bind (Socket_Update OnClose env s) (\<lambda>(_, s'). write_run OnClose ws s')"
| "write_run OnClose (HandlerStep r # ws) s = write_run OnClose ws (if sk_isWritingAsync s then WriteHandlerWrapper OnClose r s else s)"

text \<open>The answers of \<open>write_some\<close> in a run without errors.\<close>

fun step_takes :: "write_step \<Rightarrow> bool" where
  "step_takes (UpdateStep env) \<longleftrightarrow> (\<forall>i. env i \<noteq> WriteError \<and> env i \<noteq> Wrote 0)"
| "step_takes (HandlerStep r) \<longleftrightarrow> r \<noteq> WriteError \<and> r \<noteq> Wrote 0"

section \<open>What leaves the socket\<close>

text \<open>The bytes still to send, and the hypotheses on \<open>OnClose\<close> (it leaves the base class's own
  state alone) and on \<open>write_some\<close> (it takes at most what it was given).\<close>

definition sk_unsent :: "'z socket_scheme \<Rightarrow> uint8 list" where
  "sk_unsent s = concat (map mb_active (sk_writeQueue s))"

definition sk_queue_ok :: "'z socket_scheme \<Rightarrow> bool" where
  "sk_queue_ok s \<longleftrightarrow> list_all (\<lambda>m. mb_inv m \<and> mb_active m \<noteq> []) (sk_writeQueue s)"

text \<open>What the base class relies on a derived \<open>OnClose\<close> for.\<close>

locale close_hook =
  fixes OnClose :: "'z socket_scheme \<Rightarrow> 'z socket_scheme"
  assumes keeps_queue [simp]: "sk_writeQueue (OnClose s) = sk_writeQueue s"
    and keeps_sent [simp]: "sk_sent (OnClose s) = sk_sent s"
    and keeps_closed [simp]: "sk_closed (OnClose s) = sk_closed s"
    and keeps_closing [simp]: "sk_closing (OnClose s) = sk_closing s"
    and keeps_writing [simp]: "sk_isWritingAsync (OnClose s) = sk_isWritingAsync s"
begin

lemma CloseSocket_simps [simp]:
  "sk_closed (CloseSocket OnClose s)" "sk_writeQueue (CloseSocket OnClose s) = sk_writeQueue s"
  "sk_sent (CloseSocket OnClose s) = sk_sent s" "sk_closing (CloseSocket OnClose s) = sk_closing s"
  by (simp_all add: CloseSocket_def)

lemma pop_and_close_simps [simp]:
  "sk_writeQueue (pop_and_close OnClose s) = tl (sk_writeQueue s)"
  "sk_sent (pop_and_close OnClose s) = sk_sent s" "sk_closing (pop_and_close OnClose s) = sk_closing s"
  "sk_closing s \<Longrightarrow> tl (sk_writeQueue s) = [] \<Longrightarrow> sk_closed (pop_and_close OnClose s)"
  by (simp_all add: pop_and_close_def Let_def)

lemma HandleQueue_true: "HandleQueue OnClose r s = (True, s') \<Longrightarrow>
    length (sk_writeQueue s') < length (sk_writeQueue s) \<and> sk_writeQueue s' \<noteq> []"
  by (auto simp: HandleQueue_def AsyncProcessQueue_def Let_def split: list.splits write_result.splits if_splits)

lemma handle_queue_loop_returns:
  "length (sk_writeQueue s) < fuel \<Longrightarrow> \<exists>s'. handle_queue_loop OnClose fuel env i s = Some s'"
proof (induction fuel arbitrary: i s)
  case (Suc fuel)
  obtain b s' where h: "HandleQueue OnClose (env i) s = (b, s')" by fastforce
  show ?case
  proof (cases b)
    case True
    with h HandleQueue_true [of "env i" s s'] Suc show ?thesis by simp
  qed (use h in simp)
qed simp

lemma Socket_Update_returns: "\<exists>r. Socket_Update OnClose env s = Some r"
  using handle_queue_loop_returns [of s "Suc (length (sk_writeQueue s))" env 0]
  by (auto simp: Socket_Update_def)

lemma HandleQueue_conserves:
  assumes "sk_queue_ok s" "HandleQueue OnClose r s = (b, s')" "r \<noteq> WriteError" "r \<noteq> Wrote 0"
  shows "sk_sent s' @ sk_unsent s' = sk_sent s @ sk_unsent s \<and> sk_queue_ok s'"
proof (cases "sk_writeQueue s")
  case Nil
  with assms show ?thesis by (auto simp: HandleQueue_def)
next
  case (Cons m rest)
  with assms(1) have m: "mb_inv m" "mb_active m \<noteq> []" by (simp_all add: sk_queue_ok_def)
  show ?thesis
  proof (cases r)
    case (Wrote n)
    show ?thesis
    proof (cases "n < mb_GetActiveSize m")
      case True
      with m mb_ReadCompleted_active [of m n] assms Cons Wrote show ?thesis
        by (auto simp: HandleQueue_def AsyncProcessQueue_def Let_def sk_unsent_def sk_queue_ok_def split: if_splits)
    next
      case False
      with m assms Cons Wrote show ?thesis
        by (auto simp: HandleQueue_def Let_def sk_unsent_def sk_queue_ok_def)
    qed
  qed (use assms Cons in \<open>auto simp: HandleQueue_def AsyncProcessQueue_def Let_def sk_unsent_def sk_queue_ok_def split: if_splits\<close>)
qed

lemma handle_queue_loop_conserves:
  "handle_queue_loop OnClose fuel env i s = Some s' \<Longrightarrow> sk_queue_ok s \<Longrightarrow>
   \<forall>i. env i \<noteq> WriteError \<and> env i \<noteq> Wrote 0 \<Longrightarrow>
     sk_sent s' @ sk_unsent s' = sk_sent s @ sk_unsent s \<and> sk_queue_ok s'"
proof (induction fuel arbitrary: i s)
  case (Suc fuel)
  obtain b t where h: "HandleQueue OnClose (env i) s = (b, t)" by fastforce
  from HandleQueue_conserves [OF Suc.prems(2) h] Suc.prems(3)
  have t: "sk_sent t @ sk_unsent t = sk_sent s @ sk_unsent s" "sk_queue_ok t" by blast+
  show ?case
  proof (cases b)
    case True
    with h Suc.prems(1) Suc.IH [of "Suc i" t] t Suc.prems(3) show ?thesis by simp
  qed (use h Suc.prems(1) t in simp)
qed simp

lemma Update_conserves:
  assumes "Socket_Update OnClose env s = Some (b, s')" "sk_queue_ok s"
    and "\<forall>i. env i \<noteq> WriteError \<and> env i \<noteq> Wrote 0"
  shows "sk_sent s' @ sk_unsent s' = sk_sent s @ sk_unsent s \<and> sk_queue_ok s'"
  using assms handle_queue_loop_conserves [OF _ assms(2,3)]
  by (auto simp: Socket_Update_def simp del: handle_queue_loop.simps split: if_splits)

lemma handle_queue_loop_flushes:
  "length (sk_writeQueue s) < fuel \<Longrightarrow> sk_writeQueue s \<noteq> [] \<Longrightarrow> sk_queue_ok s \<Longrightarrow>
   \<forall>i. \<exists>n. env i = Wrote n \<and> (\<forall>m \<in> set (sk_writeQueue s). length (mb_active m) \<le> n) \<Longrightarrow>
     \<exists>s'. handle_queue_loop OnClose fuel env i s = Some s' \<and> sk_writeQueue s' = [] \<and> (sk_closing s \<longrightarrow> sk_closed s')"
proof (induction fuel arbitrary: i s)
  case (Suc fuel)
  obtain m rest where q: "sk_writeQueue s = m # rest" using Suc.prems(2) by (cases "sk_writeQueue s") auto
  obtain n where n: "env i = Wrote n" "length (mb_active m) \<le> n" using Suc.prems(4) q by fastforce
  from Suc.prems(3) q have m: "mb_inv m" "mb_active m \<noteq> []" by (simp_all add: sk_queue_ok_def)
  define t where "t = pop_and_close OnClose (s\<lparr>sk_sent := sk_sent s @ take n (mb_active m)\<rparr>)"
  have h: "HandleQueue OnClose (env i) s = (rest \<noteq> [], t)"
    using n m q by (auto simp: HandleQueue_def Let_def t_def)
  have t: "sk_writeQueue t = rest" "sk_closing t = sk_closing s" "rest = [] \<Longrightarrow> sk_closing s \<Longrightarrow> sk_closed t"
    using q by (simp_all add: t_def)
  show ?case
  proof (cases "rest = []")
    case True
    with h t show ?thesis by simp
  next
    case False
    have "\<forall>i. \<exists>n. env i = Wrote n \<and> (\<forall>m \<in> set (sk_writeQueue t). length (mb_active m) \<le> n)"
      using Suc.prems(4) q t(1) by (metis list.set_intros(2))
    with Suc.IH [of t "Suc i"] Suc.prems(1,3) q t h False show ?thesis by (simp add: sk_queue_ok_def)
  qed
qed simp

lemma Update_flushes:
  assumes "\<not> sk_closed s" "\<not> sk_isWritingAsync s" "sk_writeQueue s \<noteq> []" "sk_queue_ok s"
    and "\<forall>i. \<exists>n. env i = Wrote n \<and> (\<forall>m \<in> set (sk_writeQueue s). length (mb_active m) \<le> n)"
  shows "\<exists>s'. Socket_Update OnClose env s = Some (True, s') \<and> sk_writeQueue s' = [] \<and> (sk_closing s \<longrightarrow> sk_closed s')"
  using handle_queue_loop_flushes [of s "Suc (length (sk_writeQueue s))" env 0] assms
  by (auto simp: Socket_Update_def simp del: handle_queue_loop.simps)

text \<open>While a socket is marked for closing and drains its queue, it is closed exactly when nothing is left.\<close>

lemma HandleQueue_drains:
  assumes "HandleQueue OnClose r s = (b, s')" "sk_closing s" "sk_writeQueue s = [] \<longleftrightarrow> sk_closed s"
  shows "sk_closing s' \<and> (sk_writeQueue s' = [] \<longleftrightarrow> sk_closed s')"
proof (cases "sk_writeQueue s")
  case Nil
  then show ?thesis using assms by (auto simp: HandleQueue_def)
next
  case (Cons m rest)
  then have open_s: "\<not> sk_closed s" using assms(3) by simp
  have pop: "sk_closed (pop_and_close OnClose t) \<longleftrightarrow> rest = []" if "sk_closing t" "\<not> sk_closed t" "sk_writeQueue t = m # rest" for t
    using that by (simp add: pop_and_close_def Let_def)
  show ?thesis
  proof (cases r)
    case WouldBlock
    then show ?thesis using assms(1,2) Cons open_s by (auto simp: HandleQueue_def AsyncProcessQueue_def split: if_splits)
  next
    case WriteError
    then show ?thesis using assms(1,2) Cons open_s pop [of s] by (auto simp: HandleQueue_def Let_def)
  next
    case (Wrote n)
    then show ?thesis using assms(1,2) Cons open_s pop [of "s\<lparr>sk_sent := sk_sent s @ take n (mb_active m)\<rparr>"]
      by (auto simp: HandleQueue_def AsyncProcessQueue_def Let_def split: if_splits)
  qed
qed

lemma handle_queue_loop_drains:
  "handle_queue_loop OnClose fuel env i s = Some s' \<Longrightarrow> sk_closing s \<Longrightarrow> (sk_writeQueue s = [] \<longleftrightarrow> sk_closed s) \<Longrightarrow>
     sk_closing s' \<and> (sk_writeQueue s' = [] \<longleftrightarrow> sk_closed s')"
proof (induction fuel arbitrary: i s)
  case (Suc fuel)
  obtain b t where h: "HandleQueue OnClose (env i) s = (b, t)" by fastforce
  from HandleQueue_drains [OF h Suc.prems(2,3)] have "sk_closing t" "sk_writeQueue t = [] \<longleftrightarrow> sk_closed t" by blast+
  then show ?case using h Suc.prems(1) Suc.IH [of "Suc i" t] by (cases b) simp_all
qed simp

lemma write_run_drains:
  "write_run OnClose ws s = Some s' \<Longrightarrow> sk_closing s \<Longrightarrow> (sk_writeQueue s = [] \<longleftrightarrow> sk_closed s) \<Longrightarrow> sk_queue_ok s \<Longrightarrow>
   list_all step_takes ws \<Longrightarrow> (sk_writeQueue s' = [] \<longleftrightarrow> sk_closed s') \<and> sk_sent s' @ sk_unsent s' = sk_sent s @ sk_unsent s"
proof (induction ws arbitrary: s)
  case (Cons w ws)
  show ?case
  proof (cases w)
    case (UpdateStep env)
    obtain b t where u: "Socket_Update OnClose env s = Some (b, t)" using Socket_Update_returns by fastforce
    have t: "sk_closing t \<and> (sk_writeQueue t = [] \<longleftrightarrow> sk_closed t)"
      using u Cons.prems(2,3) handle_queue_loop_drains [of _ env 0 s t]
      by (auto simp: Socket_Update_def simp del: handle_queue_loop.simps split: if_splits)
    show ?thesis using Cons.IH [of t] Cons.prems UpdateStep u t Update_conserves [OF u Cons.prems(4)] by simp
  next
    case (HandlerStep r)
    show ?thesis
    proof (cases "sk_isWritingAsync s")
      case True
      let ?s = "s\<lparr>sk_isWritingAsync := False\<rparr>"
      obtain b t where h: "HandleQueue OnClose r ?s = (b, t)" by fastforce
      have t: "sk_closing t \<and> (sk_writeQueue t = [] \<longleftrightarrow> sk_closed t)"
        using HandleQueue_drains [OF h] Cons.prems(2,3) by simp
      have ok: "sk_queue_ok ?s" "sk_unsent ?s = sk_unsent s" using Cons.prems(4) by (simp_all add: sk_queue_ok_def sk_unsent_def)
      show ?thesis
        using Cons.IH [of t] Cons.prems HandlerStep True h t ok HandleQueue_conserves [OF ok(1) h] by (simp add: WriteHandlerWrapper_def)
    qed (use Cons HandlerStep in simp)
  qed
qed simp

text \<open>With an empty queue nothing closes the socket any more.\<close>

lemma write_run_empty:
  "sk_writeQueue s = [] \<Longrightarrow> \<not> sk_closed s \<Longrightarrow> \<exists>w. write_run OnClose ws s = Some (s\<lparr>sk_isWritingAsync := w\<rparr>)"
proof (induction ws arbitrary: s)
  case Nil
  show ?case by (simp, rule exI [of _ "sk_isWritingAsync s"]) simp
next
  case (Cons w ws)
  show ?case
  proof (cases w)
    case (UpdateStep env)
    have "Socket_Update OnClose env s = Some (True, s)" using Cons.prems by (simp add: Socket_Update_def HandleQueue_def)
    then show ?thesis using Cons UpdateStep by simp
  next
    case (HandlerStep r)
    then show ?thesis using Cons.IH [of "s\<lparr>sk_isWritingAsync := False\<rparr>"] Cons.IH [of s] Cons.prems
      by (simp add: WriteHandlerWrapper_def HandleQueue_def)
  qed
qed

end

end
