(* ===== verification/SRP6.thy ===== *)
theory SRP6
  imports TextUtil
begin

text \<open>
  The password verifiers and the key exchange of
  \<open>src/src/common/Cryptography/Authentication/SRP6.cpp\<close> and the operations of \<open>BigNumber\<close> they use.
  SHA-1, which is computed by OpenSSL, is a parameter \<open>H\<close>, also of every theorem; random bytes are
  arguments; a \<open>BigNumber\<close> is a natural number, and only its conversion to and from bytes is spelled
  out. Strings are lists of bytes.
\<close>

section \<open>Big numbers as bytes\<close>

fun bn_of_bytes :: "uint8 list \<Rightarrow> nat" where
  "bn_of_bytes [] = 0"
| "bn_of_bytes (b # bs) = unat b + 256 * bn_of_bytes bs"

fun nat_bytes :: "nat \<Rightarrow> nat \<Rightarrow> uint8 list" where
  "nat_bytes 0 n = []"
| "nat_bytes (Suc k) n = word_of_nat (n mod 256) # nat_bytes k (n div 256)"

text \<open>\<open>BigNumber::GetBytes\<close> in little-endian order; it asserts that the number fits.\<close>

definition bn_GetBytes :: "nat \<Rightarrow> nat \<Rightarrow> uint8 list res" where
  "bn_GetBytes k n =
     guard_or (n < 256 ^ k) (AssertFailure ''Buffer is too small to hold bignum'') (Inr (nat_bytes k n))"

definition bn_ModExp :: "nat \<Rightarrow> nat \<Rightarrow> nat \<Rightarrow> nat" where
  "bn_ModExp base e modulus = base ^ e mod modulus"

section \<open>SRP6\<close>

definition SRP6_g :: "uint8 list" where
  "SRP6_g = [7]"

definition SRP6_N :: "uint8 list" where
  "SRP6_N =
     (case HexStrToByteArray (bytes_of ''894B645E89E1535BBDAD5B8B290650530801B18EBFBF5E8FAB3C82872A3E9BB7'') 32 True of
        Inl _ \<Rightarrow> [] | Inr bs \<Rightarrow> bs)"

definition CalculateVerifier ::
  "(uint8 list \<Rightarrow> uint8 list) \<Rightarrow> uint8 list \<Rightarrow> uint8 list \<Rightarrow> uint8 list \<Rightarrow> uint8 list res" where
  "CalculateVerifier H username password salt =
     bn_GetBytes 32 (bn_ModExp (bn_of_bytes SRP6_g)
       (bn_of_bytes (H (salt @ H (username @ bytes_of '':'' @ password)))) (bn_of_bytes SRP6_N))"

definition MakeRegistrationData ::
  "(uint8 list \<Rightarrow> uint8 list) \<Rightarrow> uint8 list \<Rightarrow> uint8 list \<Rightarrow> uint8 list \<Rightarrow> (uint8 list \<times> uint8 list) res" where
  "MakeRegistrationData H random username password =
     bindr (CalculateVerifier H username password random) (\<lambda>verifier. Inr (random, verifier))"

definition CheckLogin ::
  "(uint8 list \<Rightarrow> uint8 list) \<Rightarrow> uint8 list \<Rightarrow> uint8 list \<Rightarrow> uint8 list \<Rightarrow> uint8 list \<Rightarrow> bool res" where
  "CheckLogin H username password salt verifier =
     bindr (CalculateVerifier H username password salt) (\<lambda>v. Inr (verifier = v))"

definition GetSessionVerifier ::
  "(uint8 list \<Rightarrow> uint8 list) \<Rightarrow> uint8 list \<Rightarrow> uint8 list \<Rightarrow> uint8 list \<Rightarrow> uint8 list" where
  "GetSessionVerifier H A clientM K = H (A @ clientM @ K)"

text \<open>The loop that looks for the first byte that is not zero.\<close>

fun first_nonzero :: "uint8 list \<Rightarrow> nat" where
  "first_nonzero [] = 0"
| "first_nonzero (b # bs) = (if b = 0 then Suc (first_nonzero bs) else 0)"

fun interleave :: "uint8 list \<Rightarrow> uint8 list \<Rightarrow> uint8 list" where
  "interleave (a # as) (b # bs) = a # b # interleave as bs"
| "interleave _ _ = []"

definition SHA1Interleave :: "(uint8 list \<Rightarrow> uint8 list) \<Rightarrow> uint8 list \<Rightarrow> uint8 list" where
  "SHA1Interleave H S =
     (let buf0 = map (\<lambda>i. S ! (2 * i)) [0..<16];
          buf1 = map (\<lambda>i. S ! (2 * i + 1)) [0..<16];
          p0 = first_nonzero S;
          p1 = (if odd p0 then p0 + 1 else p0);
          p = p1 div 2
      in interleave (H (drop p buf0)) (H (drop p buf1)))"

record srp6 =
  sr_used :: bool
  sr_I :: "uint8 list"
  sr_b :: nat
  sr_v :: nat
  sr_s :: "uint8 list"
  sr_B :: "uint8 list"

definition SRP6_B :: "nat \<Rightarrow> nat \<Rightarrow> uint8 list res" where
  "SRP6_B b v =
     bn_GetBytes 32 ((bn_ModExp (bn_of_bytes SRP6_g) b (bn_of_bytes SRP6_N) + v * 3) mod bn_of_bytes SRP6_N)"

definition SRP6_new ::
  "(uint8 list \<Rightarrow> uint8 list) \<Rightarrow> uint8 list \<Rightarrow> uint8 list \<Rightarrow> uint8 list \<Rightarrow> uint8 list \<Rightarrow> srp6 res" where
  "SRP6_new H random username salt verifier =
     (let b = bn_of_bytes random; v = bn_of_bytes verifier in
      bindr (SRP6_B b v) (\<lambda>B.
        Inr \<lparr>sr_used = False, sr_I = H username, sr_b = b, sr_v = v, sr_s = salt, sr_B = B\<rparr>))"

definition xor_bytes :: "uint8 list \<Rightarrow> uint8 list \<Rightarrow> uint8 list" where
  "xor_bytes as bs = map2 (\<lambda>a b. a XOR b) as bs"

definition srp6_M ::
  "(uint8 list \<Rightarrow> uint8 list) \<Rightarrow> uint8 list \<Rightarrow> uint8 list \<Rightarrow> uint8 list \<Rightarrow> uint8 list \<Rightarrow> uint8 list \<Rightarrow> uint8 list" where
  "srp6_M H I s A B K = H (xor_bytes (H SRP6_N) (H SRP6_g) @ I @ s @ A @ B @ K)"

definition VerifyChallengeResponse ::
  "(uint8 list \<Rightarrow> uint8 list) \<Rightarrow> uint8 list \<Rightarrow> uint8 list \<Rightarrow> srp6 \<Rightarrow> (uint8 list option \<times> srp6) res" where
  "VerifyChallengeResponse H A clientM srp =
     (if sr_used srp then Inl (AssertFailure ''!_used'')
      else
        (let srp' = srp\<lparr>sr_used := True\<rparr>; a = bn_of_bytes A; n = bn_of_bytes SRP6_N in
         if a mod n = 0 then Inr (None, srp')
         else
           (let u = bn_of_bytes (H (A @ sr_B srp)) in
            bindr (bn_GetBytes 32 (bn_ModExp (a * bn_ModExp (sr_v srp) u n) (sr_b srp) n)) (\<lambda>S.
              let K = SHA1Interleave H S;
                  ourM = srp6_M H (sr_I srp) (sr_s srp) A (sr_B srp) K
              in Inr (if ourM = clientM then Some K else None, srp')))))"

section \<open>The key agreement\<close>

text \<open>The modulus as a number.\<close>

definition srp6_modulus :: nat where
  "srp6_modulus = 62100066509156017342069496140902949863249758336000796928566441170293728648119"

lemma SRP6_N_bytes:
  "SRP6_N = [183, 155, 62, 42, 135, 130, 60, 171, 143, 94, 191, 191, 142, 177, 1, 8, 83, 80, 6, 41, 139, 91, 173, 189, 91, 83, 225, 137, 94, 100, 75, 137]"
  by code_simp

lemma bn_N: "bn_of_bytes SRP6_N = srp6_modulus"
  by (simp add: SRP6_N_bytes srp6_modulus_def)

lemma bn_g: "bn_of_bytes SRP6_g = 7"
  by (simp add: SRP6_g_def)

lemma srp6_modulus_fits: "srp6_modulus < 256 ^ 32" "0 < srp6_modulus" "1 < srp6_modulus"
  by (simp_all add: srp6_modulus_def)

lemma srp6_modulus_coprime: "coprime 7 srp6_modulus"
proof (rule coprimeI)
  fix d :: nat
  assume d: "d dvd 7" "d dvd srp6_modulus"
  have "7 * 17742876145473147812019856040257985675214216667428799122447554620083922470891 + 1 = srp6_modulus * 2"
    by (simp add: srp6_modulus_def)
  then show "is_unit d" using d dvd_add_right_iff dvd_mult2 by metis
qed

lemma bn_of_nat_bytes: "bn_of_bytes (nat_bytes k n) = n mod 256 ^ k"
proof (induction k arbitrary: n)
  case (Suc k)
  have "unat (word_of_nat (n mod 256) :: uint8) = n mod 256" by (simp add: unat_of_nat)
  then show ?case using Suc by (simp add: mod_mult2_eq)
qed simp

lemma length_nat_bytes [simp]: "length (nat_bytes k n) = k"
  by (induction k n rule: nat_bytes.induct) simp_all

lemma bn_of_bytes_bound: "bn_of_bytes bs < 256 ^ length bs"
proof (induction bs)
  case (Cons b bs)
  have "unat b < 256" using unsigned_less [of b, where 'a = nat] by simp
  then show ?case using Cons by simp
qed simp

lemma nat_bytes_of_bn: "nat_bytes (length bs) (bn_of_bytes bs) = bs"
proof (induction bs)
  case (Cons b bs)
  have "unat b < 256" using unsigned_less [of b, where 'a = nat] by simp
  then show ?case using Cons by simp
qed simp

lemma bn_GetBytes_mod_N: "bn_GetBytes 32 (n mod srp6_modulus) = Inr (nat_bytes 32 (n mod srp6_modulus))"
proof -
  have "n mod srp6_modulus < 256 ^ 32"
    using srp6_modulus_fits mod_less_divisor order.strict_trans by blast
  then show ?thesis by (simp add: bn_GetBytes_def guard_or_def)
qed

text \<open>
  The other side of the exchange, as SRP6 prescribes it for a party that knows the password: the
  public value \<open>A = g ^ a\<close>, the secret \<open>(B - 3 g ^ x) ^ (a + u x)\<close> and the proof \<open>M\<close>.
\<close>

definition srp6_x :: "(uint8 list \<Rightarrow> uint8 list) \<Rightarrow> uint8 list \<Rightarrow> uint8 list \<Rightarrow> uint8 list \<Rightarrow> nat" where
  "srp6_x H username password salt = bn_of_bytes (H (salt @ H (username @ bytes_of '':'' @ password)))"

definition srp6_client_A :: "nat \<Rightarrow> uint8 list" where
  "srp6_client_A a = nat_bytes 32 (7 ^ a mod srp6_modulus)"

definition srp6_client_S :: "(uint8 list \<Rightarrow> uint8 list) \<Rightarrow> nat \<Rightarrow> nat \<Rightarrow> uint8 list \<Rightarrow> nat" where
  "srp6_client_S H x a B =
     nat ((int (bn_of_bytes B) - 3 * 7 ^ x) ^ (a + bn_of_bytes (H (srp6_client_A a @ B)) * x) mod int srp6_modulus)"

definition srp6_client_K :: "(uint8 list \<Rightarrow> uint8 list) \<Rightarrow> nat \<Rightarrow> nat \<Rightarrow> uint8 list \<Rightarrow> uint8 list" where
  "srp6_client_K H x a B = SHA1Interleave H (nat_bytes 32 (srp6_client_S H x a B))"

lemma bn_client_A: "bn_of_bytes (srp6_client_A a) = 7 ^ a mod srp6_modulus"
proof -
  have "7 ^ a mod srp6_modulus < 256 ^ 32"
    using srp6_modulus_fits mod_less_divisor order.strict_trans by blast
  then show ?thesis by (simp only: srp6_client_A_def bn_of_nat_bytes mod_less)
qed

lemma client_A_nonzero: "bn_of_bytes (srp6_client_A a) mod srp6_modulus \<noteq> 0"
proof
  assume "bn_of_bytes (srp6_client_A a) mod srp6_modulus = 0"
  then have "srp6_modulus dvd 7 ^ a" by (simp add: bn_client_A mod_eq_0_iff_dvd)
  moreover have "coprime (7 ^ a) srp6_modulus" using srp6_modulus_coprime by (simp only: coprime_power_left_iff simp_thms)
  ultimately have "is_unit srp6_modulus" by (metis coprime_common_divisor dvd_refl)
  then have "srp6_modulus = 1" by simp
  then show False using srp6_modulus_fits(3) by linarith
qed

text \<open>Both secrets are \<open>g ^ (b (a + u x))\<close>.\<close>

lemma secret_server:
  fixes n :: nat
  shows "(g ^ a mod n * ((g ^ x mod n) ^ u mod n)) ^ b mod n = g ^ (b * (a + u * x)) mod n"
proof -
  have "(g ^ a mod n * ((g ^ x mod n) ^ u mod n)) ^ b mod n = (g ^ a * (g ^ x) ^ u) ^ b mod n"
    by (metis mod_mult_eq power_mod)
  also have "(g ^ a * (g ^ x) ^ u) ^ b = g ^ (b * (a + u * x))"
    by (metis mult.commute power_add power_mult)
  finally show ?thesis .
qed

lemma secret_client:
  fixes n g b v k :: nat
  assumes "v = g ^ x mod n"
  shows "(int ((g ^ b mod n + v * 3) mod n) - 3 * int g ^ x) ^ k mod int n = int (g ^ (b * k) mod n)"
proof -
  have "(int ((g ^ b mod n + v * 3) mod n) - 3 * int g ^ x) mod int n
      = (int g ^ b + (int g ^ x mod int n) * 3 - 3 * int g ^ x) mod int n"
    using assms by (simp add: zmod_int mod_diff_left_eq mod_add_left_eq algebra_simps mod_add_right_eq)
  also have "\<dots> = int g ^ b mod int n"
  proof -
    have "(int g ^ x mod int n) * 3 mod int n = 3 * int g ^ x mod int n"
      by (metis mod_mult_left_eq mult.commute)
    then have "int n dvd (int g ^ x mod int n) * 3 - 3 * int g ^ x" by (simp add: mod_eq_dvd_iff)
    then show ?thesis by (simp add: mod_eq_dvd_iff algebra_simps)
  qed
  finally show ?thesis
    by (metis of_nat_mod of_nat_power power_mod power_mult)
qed

lemma CalculateVerifier_eq:
  "CalculateVerifier H username password salt =
     Inr (nat_bytes 32 (7 ^ srp6_x H username password salt mod srp6_modulus))"
  by (simp add: CalculateVerifier_def bn_ModExp_def bn_N bn_g bn_GetBytes_mod_N srp6_x_def)

lemma bn_nat_bytes_mod_N: "bn_of_bytes (nat_bytes 32 (n mod srp6_modulus)) = n mod srp6_modulus"
  using bn_GetBytes_mod_N [of n]
  by (metis bn_of_nat_bytes mod_less mod_less_divisor order.strict_trans srp6_modulus_fits(1,2))

text \<open>
  C25. Key agreement of SRP6: whatever the hash \<open>H\<close>, an account whose verifier was computed by
  \<open>CalculateVerifier\<close> from a name and a password opens an exchange (no assertion of
  \<open>BigNumber::GetBytes\<close> fails), and a client that knows the password and follows the protocol with any
  exponent \<open>a\<close> is accepted by \<open>VerifyChallengeResponse\<close>, which returns the client's own session key and
  marks the exchange as used, so that verifying a second time fails the assertion.
\<close>

theorem srp6_agreement:
  "\<exists>verifier srp. CalculateVerifier H username password salt = Inr verifier \<and>
     SRP6_new H random username salt verifier = Inr srp \<and>
     (let x = srp6_x H username password salt; K = srp6_client_K H x a (sr_B srp);
          M = srp6_M H (H username) salt (srp6_client_A a) (sr_B srp) K;
          srp' = srp\<lparr>sr_used := True\<rparr>
      in VerifyChallengeResponse H (srp6_client_A a) M srp = Inr (Some K, srp') \<and>
         VerifyChallengeResponse H A2 M2 srp' = Inl (AssertFailure ''!_used''))"
proof -
  define x where "x = srp6_x H username password salt"
  define v where "v = 7 ^ x mod srp6_modulus"
  define b where "b = bn_of_bytes random"
  define B where "B = nat_bytes 32 ((7 ^ b mod srp6_modulus + v * 3) mod srp6_modulus)"
  define u where "u = bn_of_bytes (H (srp6_client_A a @ B))"
  define srp where "srp = \<lparr>sr_used = False, sr_I = H username, sr_b = b, sr_v = v, sr_s = salt, sr_B = B\<rparr>"
  have verifier: "CalculateVerifier H username password salt = Inr (nat_bytes 32 v)"
    by (simp add: CalculateVerifier_eq v_def x_def)
  have new: "SRP6_new H random username salt (nat_bytes 32 v) = Inr srp"
    by (simp add: SRP6_new_def SRP6_B_def bn_ModExp_def bn_N bn_g bn_GetBytes_mod_N bn_nat_bytes_mod_N
        srp_def v_def b_def B_def Let_def)
  have bnB: "bn_of_bytes B = (7 ^ b mod srp6_modulus + v * 3) mod srp6_modulus"
    unfolding B_def by (rule bn_nat_bytes_mod_N)
  have client: "srp6_client_S H x a B = 7 ^ (b * (a + u * x)) mod srp6_modulus"
    using secret_client [OF v_def, of b "a + u * x"] by (simp add: srp6_client_S_def bnB u_def)
  have server: "bn_ModExp (bn_of_bytes (srp6_client_A a) * bn_ModExp v u srp6_modulus) b srp6_modulus
      = 7 ^ (b * (a + u * x)) mod srp6_modulus"
    by (simp add: bn_ModExp_def bn_client_A v_def secret_server)
  have "VerifyChallengeResponse H (srp6_client_A a)
      (srp6_M H (H username) salt (srp6_client_A a) B (srp6_client_K H x a B)) srp
      = Inr (Some (srp6_client_K H x a B), srp\<lparr>sr_used := True\<rparr>)"
    by (simp add: VerifyChallengeResponse_def client_A_nonzero bn_N Let_def srp_def server [unfolded u_def]
        bn_GetBytes_mod_N srp6_client_K_def client [unfolded u_def])
  moreover have "VerifyChallengeResponse H A2 M2 (srp\<lparr>sr_used := True\<rparr>) = Inl (AssertFailure ''!_used'')"
    by (simp add: VerifyChallengeResponse_def)
  ultimately show ?thesis using verifier new by (auto simp: Let_def x_def srp_def)
qed

end
