(* ===== verification/QueryResults.thy ===== *)
theory QueryResults
  imports Convert ByteConverter
begin

text \<open>
  Results of queries and their fields: \<open>QueryResult.cpp\<close> and \<open>Field.cpp\<close> of \<open>src/src/database/Database\<close>. A pointer is a
  block of memory with an offset, so that reading past the end of a block shows. The rows that the client library delivers and the
  size of its structure for times are arguments, and so is the value of \<open>GetData<double>\<close>, which the reading of sums falls back to.
  The checks of types that \<open>WARHEAD_STRICT_DATABASE_TYPE_CHECKS\<close> adds are not compiled in.
\<close>

section \<open>Types of columns\<close>

datatype column_type =
    CT_NULL | CT_TINY | CT_YEAR | CT_SHORT | CT_INT24 | CT_LONG | CT_FLOAT | CT_DOUBLE | CT_LONGLONG | CT_BIT | CT_TIMESTAMP
  | CT_DATE | CT_TIME | CT_DATETIME | CT_TINY_BLOB | CT_MEDIUM_BLOB | CT_LONG_BLOB | CT_BLOB | CT_STRING | CT_VAR_STRING
  | CT_DECIMAL | CT_NEWDECIMAL | CT_GEOMETRY | CT_ENUM | CT_SET | CT_NEWDATE

record column =
  cl_type :: column_type
  cl_max_length :: nat
  cl_org_table :: "uint8 list"
  cl_table :: "uint8 list"
  cl_org_name :: "uint8 list"
  cl_name :: "uint8 list"

fun SizeForType :: "nat \<Rightarrow> column_type \<Rightarrow> nat \<Rightarrow> nat" where
  "SizeForType time_size CT_NULL m = 0"
| "SizeForType time_size CT_TINY m = 1"
| "SizeForType time_size CT_YEAR m = 2"
| "SizeForType time_size CT_SHORT m = 2"
| "SizeForType time_size CT_INT24 m = 4"
| "SizeForType time_size CT_LONG m = 4"
| "SizeForType time_size CT_FLOAT m = 4"
| "SizeForType time_size CT_DOUBLE m = 8"
| "SizeForType time_size CT_LONGLONG m = 8"
| "SizeForType time_size CT_BIT m = 8"
| "SizeForType time_size CT_TIMESTAMP m = time_size"
| "SizeForType time_size CT_DATE m = time_size"
| "SizeForType time_size CT_TIME m = time_size"
| "SizeForType time_size CT_DATETIME m = time_size"
| "SizeForType time_size CT_TINY_BLOB m = (m + 1) mod 2 ^ 32"
| "SizeForType time_size CT_MEDIUM_BLOB m = (m + 1) mod 2 ^ 32"
| "SizeForType time_size CT_LONG_BLOB m = (m + 1) mod 2 ^ 32"
| "SizeForType time_size CT_BLOB m = (m + 1) mod 2 ^ 32"
| "SizeForType time_size CT_STRING m = (m + 1) mod 2 ^ 32"
| "SizeForType time_size CT_VAR_STRING m = (m + 1) mod 2 ^ 32"
| "SizeForType time_size CT_DECIMAL m = 64"
| "SizeForType time_size CT_NEWDECIMAL m = 64"
| "SizeForType time_size _ m = 0"

datatype DatabaseFieldTypes = FtNull | FtInt8 | FtInt16 | FtInt32 | FtInt64 | FtFloat | FtDouble | FtDecimal | FtDate | FtBinary

fun MysqlTypeToFieldType :: "column_type \<Rightarrow> DatabaseFieldTypes" where
  "MysqlTypeToFieldType CT_NULL = FtNull"
| "MysqlTypeToFieldType CT_TINY = FtInt8"
| "MysqlTypeToFieldType CT_YEAR = FtInt16"
| "MysqlTypeToFieldType CT_SHORT = FtInt16"
| "MysqlTypeToFieldType CT_INT24 = FtInt32"
| "MysqlTypeToFieldType CT_LONG = FtInt32"
| "MysqlTypeToFieldType CT_LONGLONG = FtInt64"
| "MysqlTypeToFieldType CT_BIT = FtInt64"
| "MysqlTypeToFieldType CT_FLOAT = FtFloat"
| "MysqlTypeToFieldType CT_DOUBLE = FtDouble"
| "MysqlTypeToFieldType CT_DECIMAL = FtDecimal"
| "MysqlTypeToFieldType CT_NEWDECIMAL = FtDecimal"
| "MysqlTypeToFieldType CT_TIMESTAMP = FtDate"
| "MysqlTypeToFieldType CT_DATE = FtDate"
| "MysqlTypeToFieldType CT_TIME = FtDate"
| "MysqlTypeToFieldType CT_DATETIME = FtDate"
| "MysqlTypeToFieldType CT_TINY_BLOB = FtBinary"
| "MysqlTypeToFieldType CT_MEDIUM_BLOB = FtBinary"
| "MysqlTypeToFieldType CT_LONG_BLOB = FtBinary"
| "MysqlTypeToFieldType CT_BLOB = FtBinary"
| "MysqlTypeToFieldType CT_STRING = FtBinary"
| "MysqlTypeToFieldType CT_VAR_STRING = FtBinary"
| "MysqlTypeToFieldType _ = FtNull"

fun FieldTypeToString :: "column_type \<Rightarrow> string" where
  "FieldTypeToString CT_NULL = ''NULL''"
| "FieldTypeToString CT_TINY = ''TINY''"
| "FieldTypeToString CT_YEAR = ''YEAR''"
| "FieldTypeToString CT_SHORT = ''SHORT''"
| "FieldTypeToString CT_INT24 = ''INT24''"
| "FieldTypeToString CT_LONG = ''LONG''"
| "FieldTypeToString CT_FLOAT = ''FLOAT''"
| "FieldTypeToString CT_DOUBLE = ''DOUBLE''"
| "FieldTypeToString CT_LONGLONG = ''LONGLONG''"
| "FieldTypeToString CT_BIT = ''BIT''"
| "FieldTypeToString CT_TIMESTAMP = ''TIMESTAMP''"
| "FieldTypeToString CT_DATE = ''DATE''"
| "FieldTypeToString CT_TIME = ''TIME''"
| "FieldTypeToString CT_DATETIME = ''DATETIME''"
| "FieldTypeToString CT_TINY_BLOB = ''TINY_BLOB''"
| "FieldTypeToString CT_MEDIUM_BLOB = ''MEDIUM_BLOB''"
| "FieldTypeToString CT_LONG_BLOB = ''LONG_BLOB''"
| "FieldTypeToString CT_BLOB = ''BLOB''"
| "FieldTypeToString CT_STRING = ''STRING''"
| "FieldTypeToString CT_VAR_STRING = ''VAR_STRING''"
| "FieldTypeToString CT_DECIMAL = ''DECIMAL''"
| "FieldTypeToString CT_NEWDECIMAL = ''NEWDECIMAL''"
| "FieldTypeToString CT_GEOMETRY = ''GEOMETRY''"
| "FieldTypeToString CT_ENUM = ''ENUM''"
| "FieldTypeToString CT_SET = ''SET''"
| "FieldTypeToString CT_NEWDATE = ''NEWDATE''"

record field_metadata =
  fm_TableName :: "uint8 list"
  fm_TableAlias :: "uint8 list"
  fm_Name :: "uint8 list"
  fm_Alias :: "uint8 list"
  fm_TypeName :: string
  fm_Index :: nat
  fm_Type :: DatabaseFieldTypes

definition InitializeDatabaseFieldMetadata :: "column \<Rightarrow> nat \<Rightarrow> field_metadata" where
  "InitializeDatabaseFieldMetadata col i =
     \<lparr>fm_TableName = cl_org_table col, fm_TableAlias = cl_table col, fm_Name = cl_org_name col, fm_Alias = cl_name col,
      fm_TypeName = FieldTypeToString (cl_type col), fm_Index = i, fm_Type = MysqlTypeToFieldType (cl_type col)\<rparr>"

section \<open>Fields\<close>

record field =
  fl_value :: "(uint8 list \<times> nat) option"
  fl_length :: nat
  fl_raw :: bool
  fl_meta :: field_metadata

definition SetByteValue :: "(uint8 list \<times> nat) option \<Rightarrow> nat \<Rightarrow> field \<Rightarrow> field" where
  "SetByteValue value n f = f\<lparr>fl_value := value, fl_length := n, fl_raw := True\<rparr>"

definition SetStructuredValue :: "(uint8 list \<times> nat) option \<Rightarrow> nat \<Rightarrow> field \<Rightarrow> field" where
  "SetStructuredValue value n f = f\<lparr>fl_value := value, fl_length := n, fl_raw := False\<rparr>"

definition fl_IsNull :: "field \<Rightarrow> bool" where
  "fl_IsNull f \<longleftrightarrow> fl_value f = None"

definition IsType :: "DatabaseFieldTypes \<Rightarrow> field \<Rightarrow> bool" where
  "IsType ty f \<longleftrightarrow> fm_Type (fl_meta f) = ty"

definition IsNumeric :: "field \<Rightarrow> bool" where
  "IsNumeric f \<longleftrightarrow> fm_Type (fl_meta f) \<in> {FtInt8, FtInt16, FtInt32, FtInt64, FtFloat, FtDouble}"

datatype num_type = NumBool | NumInt int_type

definition num_bytes :: "num_type \<Rightarrow> nat" where
  "num_bytes T = (case T of NumBool \<Rightarrow> 1 | NumInt t \<Rightarrow> it_width t div 8)"

definition type_int :: "bool \<Rightarrow> nat \<Rightarrow> num_type" where
  "type_int sg w = NumInt \<lparr>it_signed = sg, it_width = w\<rparr>"

fun IsCorrectFieldType :: "num_type \<Rightarrow> DatabaseFieldTypes \<Rightarrow> bool" where
  "IsCorrectFieldType NumBool ty = (ty = FtInt8)"
| "IsCorrectFieldType (NumInt t) ty =
     (it_width t = 8 \<and> ty = FtInt8 \<or> it_width t = 16 \<and> ty = FtInt16 \<or> it_width t = 32 \<and> ty = FtInt32 \<or> it_width t = 64 \<and> ty = FtInt64)"

definition GetCleanAliasName :: "uint8 list \<Rightarrow> uint8 list option" where
  "GetCleanAliasName alias =
     (if alias = [] then None else map_option (\<lambda>pos. take pos alias) (find_from (byte_of_char CHR ''('') alias 0))"

definition IsCorrectAlias :: "num_type \<Rightarrow> DatabaseFieldTypes \<Rightarrow> uint8 list \<Rightarrow> bool" where
  "IsCorrectAlias T ty alias =
     (if T = type_int False 64 then StringEqualI alias (bytes_of ''count'') \<and> ty = FtInt64
      else (StringEqualI alias (bytes_of ''min'') \<or> StringEqualI alias (bytes_of ''max'')) \<and> IsCorrectFieldType T ty)"

text \<open>The value of some bytes in the order of the host, and the conversion to a type that wraps around.\<close>

definition bytes_nat :: "endian \<Rightarrow> uint8 list \<Rightarrow> nat" where
  "bytes_nat h bs = foldr (\<lambda>b acc. unat b + 256 * acc) (case h of WARHEAD_LITTLEENDIAN \<Rightarrow> bs | WARHEAD_BIGENDIAN \<Rightarrow> rev bs) 0"

definition convert_int :: "num_type \<Rightarrow> int \<Rightarrow> int" where
  "convert_int T v =
     (case T of
        NumBool \<Rightarrow> if v = 0 then 0 else 1
      | NumInt t \<Rightarrow> (let u = v mod 2 ^ it_width t in if it_signed t \<and> u \<ge> 2 ^ (it_width t - 1) then u - 2 ^ it_width t else u))"

definition read_raw :: "endian \<Rightarrow> num_type \<Rightarrow> uint8 list \<times> nat \<Rightarrow> int res" where
  "read_raw h T = (\<lambda>(mem, pos).
     bindr (mem_read ''data.value'' pos (num_bytes T) mem) (\<lambda>bs. Inr (convert_int T (int (bytes_nat h bs)))))"

text \<open>The text at a pointer, up to the zero that ends it.\<close>

definition c_text :: "uint8 list \<times> nat \<Rightarrow> uint8 list res" where
  "c_text = (\<lambda>(mem, pos).
     let rest = drop pos mem in
     if 0 \<in> set rest then Inr (takeWhile (\<lambda>b. b \<noteq> 0) rest) else Inl (UndefinedAccess ''strlen''))"

definition num_StringTo :: "num_type \<Rightarrow> uint8 list \<Rightarrow> int option" where
  "num_StringTo T s =
     (case T of
        NumBool \<Rightarrow> map_option (\<lambda>b. if b then 1 else 0) (FromString_bool False s)
      | NumInt t \<Rightarrow> FromString_int t 10 s)"

text \<open>What \<open>GetData\<close> does next: return a value, or read the field again with another type.\<close>

datatype get_next = GetReturn int | GetInt32 | GetUInt64 | GetDouble

definition get_decide :: "endian \<Rightarrow> num_type \<Rightarrow> field \<Rightarrow> uint8 list \<times> nat \<Rightarrow> get_next res" where
  "get_decide h T f ptr =
     bindr (if fl_raw f then bindr (read_raw h T ptr) (\<lambda>v. Inr (Some v)) else bindr (c_text ptr) (\<lambda>s. Inr (num_StringTo T s))) (\<lambda>result.
       bindr (if T = type_int False 32 \<and> length (fm_TableName (fl_meta f)) > 4 then
                bindr (c_text ptr) (\<lambda>s.
                  Inr (num_StringTo (type_int True 32) s \<noteq> None \<and> result = None \<and>
                    drop (length (fm_TableName (fl_meta f)) - 4) (fm_TableName (fl_meta f)) = bytes_of ''_dbc''))
              else Inr False) (\<lambda>dbc.
         Inr (if dbc then GetInt32
              else case GetCleanAliasName (fm_Alias (fl_meta f)) of
                Some alias \<Rightarrow>
                  if (StringEqualI alias (bytes_of ''sum'') \<or> StringEqualI alias (bytes_of ''avg'')) \<and> \<not> IsCorrectAlias T (fm_Type (fl_meta f)) alias
                  then GetDouble
                  else if StringEqualI alias (bytes_of ''count'') \<and> \<not> IsCorrectAlias T (fm_Type (fl_meta f)) alias then GetUInt64
                  else GetReturn (case result of None \<Rightarrow> 0 | Some v \<Rightarrow> v)
              | None \<Rightarrow> GetReturn (case result of None \<Rightarrow> 0 | Some v \<Rightarrow> v))))"

partial_function (option) GetData :: "endian \<Rightarrow> (field \<Rightarrow> int) \<Rightarrow> num_type \<Rightarrow> field \<Rightarrow> int res option" where
  "GetData h dbl T f =
     (case fl_value f of
        None \<Rightarrow> Some (Inr 0)
      | Some ptr \<Rightarrow>
          (case get_decide h T f ptr of
             Inl e \<Rightarrow> Some (Inl e)
           | Inr (GetReturn v) \<Rightarrow> Some (Inr v)
           | Inr GetDouble \<Rightarrow> Some (Inr (convert_int T (dbl f)))
           | Inr GetInt32 \<Rightarrow> Option.bind (GetData h dbl (type_int True 32) f) (\<lambda>r. Some (map_sum id (convert_int T) r))
           | Inr GetUInt64 \<Rightarrow> Option.bind (GetData h dbl (type_int False 64) f) (\<lambda>r. Some (map_sum id (convert_int T) r))))"

definition GetDataString :: "field \<Rightarrow> uint8 list res" where
  "GetDataString f = (case fl_value f of None \<Rightarrow> Inr [] | Some (mem, pos) \<Rightarrow> mem_read ''data.value'' pos (fl_length f) mem)"

definition GetDataBinary :: "field \<Rightarrow> uint8 list res" where
  "GetDataBinary f =
     (case fl_value f of
        None \<Rightarrow> Inr []
      | Some (mem, pos) \<Rightarrow> if fl_length f = 0 then Inr [] else mem_read ''data.value'' pos (fl_length f) mem)"

definition GetBinarySizeChecked :: "nat \<Rightarrow> field \<Rightarrow> uint8 list res" where
  "GetBinarySizeChecked n f =
     (case fl_value f of
        Some (mem, pos) \<Rightarrow> if fl_length f = n then mem_read ''data.value'' pos n mem else Inl (AssertFailure ''Expected binary blob'')
      | None \<Rightarrow> Inl (AssertFailure ''Expected binary blob''))"

text \<open>\<open>Get\<close> for durations: the flag chooses between 32 and 64 bits.\<close>

definition Get_duration :: "endian \<Rightarrow> (field \<Rightarrow> int) \<Rightarrow> bool \<Rightarrow> field \<Rightarrow> int res option" where
  "Get_duration h dbl convertToUin32 f = GetData h dbl (if convertToUin32 then type_int False 32 else type_int False 64) f"

section \<open>Results of prepared statements\<close>

text \<open>The client library writes the values of a row to the buffers, at most as many bytes as a buffer has.\<close>

fun stmt_fetch :: "nat list \<Rightarrow> uint8 list option list \<Rightarrow> nat list \<Rightarrow> uint8 list \<Rightarrow> uint8 list res" where
  "stmt_fetch (s # ss) (None # row) (p # ps) mem = stmt_fetch ss row ps mem"
| "stmt_fetch (s # ss) (Some v # row) (p # ps) mem = bindr (mem_write ''dataBuffer'' p (take s v) mem) (stmt_fetch ss row ps)"
| "stmt_fetch _ _ _ mem = Inr mem"

fun is_text :: "column_type \<Rightarrow> bool" where
  "is_text CT_TINY_BLOB = True"
| "is_text CT_MEDIUM_BLOB = True"
| "is_text CT_LONG_BLOB = True"
| "is_text CT_BLOB = True"
| "is_text CT_STRING = True"
| "is_text CT_VAR_STRING = True"
| "is_text _ = False"

text \<open>
  The loop over the fields of a row that was fetched: texts are ended with a zero where there is room, the place of the value is
  recorded and the buffer of the field moved on by the size of a row, unless the value is null.
\<close>

fun store_row ::
  "nat \<Rightarrow> column_type list \<Rightarrow> nat list \<Rightarrow> uint8 list option list \<Rightarrow> nat list \<Rightarrow> uint8 list \<Rightarrow> ((nat option \<times> nat) list \<times> nat list \<times> uint8 list) res" where
  "store_row rowSize (t # ts) (s # ss) (None # row) (p # ps) mem =
     bindr (store_row rowSize ts ss row ps mem) (\<lambda>(fs, ps', mem'). Inr ((None, 0) # fs, p # ps', mem'))"
| "store_row rowSize (t # ts) (s # ss) (Some v # row) (p # ps) mem =
     bindr (if is_text t \<and> length v < s then mem_write ''dataBuffer'' (p + length v) [0] mem else Inr mem) (\<lambda>mem1.
       bindr (store_row rowSize ts ss row ps mem1) (\<lambda>(fs, ps', mem'). Inr ((Some p, length v) # fs, (p + rowSize) # ps', mem')))"
| "store_row rowSize _ _ _ _ mem = Inr ([], [], mem)"

fun store_rows ::
  "nat \<Rightarrow> column_type list \<Rightarrow> nat list \<Rightarrow> uint8 list option list list \<Rightarrow> nat list \<Rightarrow> uint8 list \<Rightarrow> ((nat option \<times> nat) list list \<times> uint8 list) res" where
  "store_rows rowSize ts ss [] ps mem = Inr ([], mem)"
| "store_rows rowSize ts ss (row # rows) ps mem =
     bindr (stmt_fetch ss row ps mem) (\<lambda>mem1.
       bindr (store_row rowSize ts ss row ps mem1) (\<lambda>(fs, ps', mem2).
         bindr (store_rows rowSize ts ss rows ps' mem2) (\<lambda>(fss, mem3). Inr (fs # fss, mem3))))"

fun offsets :: "nat \<Rightarrow> nat list \<Rightarrow> nat list" where
  "offsets off [] = []"
| "offsets off (s # ss) = off # offsets (off + s) ss"

record prepared_result =
  pr_rows :: "field list list"
  pr_rowCount :: nat
  pr_rowPosition :: nat
  pr_fieldCount :: nat

text \<open>
  The constructor, for a statement with a result that can be stored and bound; \<open>rows\<close> are the rows that the library delivers and
  \<open>garbage\<close> the contents of the new buffer. The length of a null is what the library leaves there, and no accessor reads it: it is
  zero here. There are less than \<open>2 ^ 32\<close> fields, so that the indices of \<open>m_rows\<close>, which are computed with 32 bits, do not wrap.
\<close>

definition PreparedResultSet_new :: "nat \<Rightarrow> column list \<Rightarrow> uint8 list option list list \<Rightarrow> (nat \<Rightarrow> uint8) \<Rightarrow> prepared_result res" where
  "PreparedResultSet_new time_size cols rows garbage =
     (let sizes = map (\<lambda>c. SizeForType time_size (cl_type c) (cl_max_length c)) cols;
          rowSize = sum_list sizes;
          meta = map2 InitializeDatabaseFieldMetadata cols [0..<length cols];
          dataBuffer = map garbage [0..<rowSize * length rows]
      in bindr (store_rows rowSize (map cl_type cols) sizes rows (offsets 0 sizes) dataBuffer) (\<lambda>(cells, mem).
           Inr \<lparr>pr_rows = map (\<lambda>cs. map2 (\<lambda>(pos, len) m. \<lparr>fl_value = map_option (Pair mem) pos, fl_length = len, fl_raw = True, fl_meta = m\<rparr>) cs meta) cells,
                pr_rowCount = length rows, pr_rowPosition = 0, pr_fieldCount = length cols\<rparr>))"

definition pr_NextRow :: "prepared_result \<Rightarrow> bool \<times> prepared_result" where
  "pr_NextRow r = (let r' = r\<lparr>pr_rowPosition := pr_rowPosition r + 1\<rparr> in (pr_rowPosition r' < pr_rowCount r', r'))"

definition pr_Fetch :: "prepared_result \<Rightarrow> field list res" where
  "pr_Fetch r = (if pr_rowPosition r < pr_rowCount r then Inr (pr_rows r ! pr_rowPosition r) else Inl (AssertFailure ''m_rowPosition < m_rowCount''))"

definition pr_index :: "nat \<Rightarrow> prepared_result \<Rightarrow> field res" where
  "pr_index i r =
     (if pr_rowPosition r < pr_rowCount r then
        (if i < pr_fieldCount r then Inr (pr_rows r ! pr_rowPosition r ! i) else Inl (AssertFailure ''index < m_fieldCount''))
      else Inl (AssertFailure ''m_rowPosition < m_rowCount''))"

definition pr_AssertRows :: "nat \<Rightarrow> prepared_result \<Rightarrow> unit res" where
  "pr_AssertRows n r =
     (if pr_rowPosition r < pr_rowCount r then (if n = pr_fieldCount r then Inr () else Inl (AssertFailure ''Tuple size != count fields''))
      else Inl (AssertFailure ''m_rowPosition < m_rowCount''))"

section \<open>Results of queries in text form\<close>

text \<open>The library keeps a row until the next is fetched; each value is followed by a zero.\<close>

record text_result =
  rs_rest :: "uint8 list option list list"
  rs_open :: bool
  rs_row :: "field list"
  rs_meta :: "field_metadata list"

definition ResultSet_new :: "column list \<Rightarrow> uint8 list option list list \<Rightarrow> text_result" where
  "ResultSet_new cols rows =
     (let meta = map2 InitializeDatabaseFieldMetadata cols [0..<length cols]
      in \<lparr>rs_rest = rows, rs_open = True, rs_row = map (\<lambda>m. \<lparr>fl_value = None, fl_length = 0, fl_raw = False, fl_meta = m\<rparr>) meta, rs_meta = meta\<rparr>)"

definition rs_CleanUp :: "text_result \<Rightarrow> text_result" where
  "rs_CleanUp r = r\<lparr>rs_row := [], rs_open := False\<rparr>"

definition rs_NextRow :: "text_result \<Rightarrow> bool \<times> text_result" where
  "rs_NextRow r =
     (if \<not> rs_open r then (False, r)
      else case rs_rest r of
        [] \<Rightarrow> (False, rs_CleanUp r)
      | row # rest \<Rightarrow>
          (True, r\<lparr>rs_rest := rest,
             rs_row := map2 (\<lambda>f v. SetStructuredValue (map_option (\<lambda>bs. (bs @ [0], 0)) v) (case v of None \<Rightarrow> 0 | Some bs \<Rightarrow> length bs) f) (rs_row r) row\<rparr>))"

definition rs_index :: "nat \<Rightarrow> text_result \<Rightarrow> field res" where
  "rs_index i r =
     (if i < length (rs_meta r) then (if i < length (rs_row r) then Inr (rs_row r ! i) else Inl (UndefinedAccess ''_currentRow''))
      else Inl (AssertFailure ''index < _fieldCount''))"

definition GetFieldName :: "nat \<Rightarrow> text_result \<Rightarrow> uint8 list res" where
  "GetFieldName i r = (if i < length (rs_meta r) then Inr (fm_Alias (rs_meta r ! i)) else Inl (AssertFailure ''index < _fieldCount''))"

definition rs_AssertRows :: "nat \<Rightarrow> text_result \<Rightarrow> unit res" where
  "rs_AssertRows n r = (if n = length (rs_meta r) then Inr () else Inl (AssertFailure ''sizeRows == _fieldCount''))"

section \<open>Places in the buffer\<close>

definition place_holds :: "uint8 list \<Rightarrow> nat \<Rightarrow> uint8 list \<Rightarrow> bool" where
  "place_holds mem p v \<longleftrightarrow> p + length v \<le> length mem \<and> take (length v) (drop p mem) = v"

definition apart :: "nat \<times> nat \<Rightarrow> nat \<times> nat \<Rightarrow> bool" where
  "apart = (\<lambda>(p, n) (q, m). p + n \<le> q \<or> q + m \<le> p)"

lemma place_holds_nth: "place_holds mem p v \<longleftrightarrow> p + length v \<le> length mem \<and> (\<forall>i < length v. mem ! (p + i) = v ! i)"
  unfolding place_holds_def by (auto simp: list_eq_iff_nth_eq)

lemma mem_write_nth:
  assumes "p + length bs \<le> length mem"
  shows "\<exists>mem'. mem_write what p bs mem = Inr mem' \<and> length mem' = length mem \<and>
    (\<forall>i < length mem. mem' ! i = (if p \<le> i \<and> i < p + length bs then bs ! (i - p) else mem ! i))"
  using assms by (auto simp: mem_write_def nth_append min_def)

lemma mem_write_place:
  assumes "p + length bs \<le> length mem"
  shows "\<exists>mem'. mem_write what p bs mem = Inr mem' \<and> length mem' = length mem \<and> place_holds mem' p bs \<and>
    (\<forall>q v. place_holds mem q v \<longrightarrow> apart (q, length v) (p, length bs) \<longrightarrow> place_holds mem' q v)"
proof -
  obtain mem' where m: "mem_write what p bs mem = Inr mem'" "length mem' = length mem"
      "\<forall>i < length mem. mem' ! i = (if p \<le> i \<and> i < p + length bs then bs ! (i - p) else mem ! i)"
    using mem_write_nth [OF assms] by blast
  then have "place_holds mem' q v" if "place_holds mem q v" "apart (q, length v) (p, length bs)" for q v
    using that by (auto simp: place_holds_nth apart_def)
  moreover have "place_holds mem' p bs" using m assms by (simp add: place_holds_nth)
  ultimately show ?thesis using m by blast
qed

text \<open>The places of a row, and that they are apart from each other and from the places that are already used.\<close>

fun apart_all :: "(nat \<times> nat) list \<Rightarrow> bool" where
  "apart_all [] = True"
| "apart_all (x # xs) = ((\<forall>y \<in> set xs. apart x y) \<and> apart_all xs)"

definition row_fits :: "nat list \<Rightarrow> uint8 list option list \<Rightarrow> bool" where
  "row_fits ss row \<longleftrightarrow> list_all2 (\<lambda>s v. case v of None \<Rightarrow> True | Some bs \<Rightarrow> length bs \<le> s) ss row"

fun row_cells :: "uint8 list option list \<Rightarrow> nat list \<Rightarrow> (nat \<times> uint8 list) list" where
  "row_cells (None # row) (p # ps) = row_cells row ps"
| "row_cells (Some v # row) (p # ps) = (p, v) # row_cells row ps"
| "row_cells _ _ = []"

lemma apart_less: "apart (p, n) x \<Longrightarrow> m \<le> n \<Longrightarrow> apart (p, m) x" "apart x (p, n) \<Longrightarrow> m \<le> n \<Longrightarrow> apart x (p, m)"
  by (auto simp: apart_def split: prod.splits)

lemma apart_sym: "apart x y = apart y x"
  by (auto simp: apart_def split: prod.splits)

lemma row_cells_places:
  "length ps = length ss \<Longrightarrow> row_fits ss row \<Longrightarrow> (p, v) \<in> set (row_cells row ps) \<Longrightarrow> \<exists>s. (p, s) \<in> set (zip ps ss) \<and> length v \<le> s"
proof (induction row ps arbitrary: ss rule: row_cells.induct)
  case (1 row p' ps)
  then show ?case by (cases ss) (auto simp: row_fits_def)
next
  case (2 v' row p' ps)
  then show ?case by (cases ss) (auto simp: row_fits_def)
qed auto

lemma stmt_fetch_holds:
  assumes "length ps = length ss" "row_fits ss row" "apart_all (zip ps ss)" "\<forall>(p, s) \<in> set (zip ps ss). p + s \<le> length mem"
    "\<forall>(q, v) \<in> set used. place_holds mem q v \<and> (\<forall>x \<in> set (zip ps ss). apart (q, length v) x)"
  shows "\<exists>mem'. stmt_fetch ss row ps mem = Inr mem' \<and> length mem' = length mem \<and>
    (\<forall>(q, v) \<in> set (used @ row_cells row ps). place_holds mem' q v)"
  using assms
proof (induction ss row ps mem arbitrary: used rule: stmt_fetch.induct)
  case (1 s ss row p ps mem)
  have "\<forall>(q, v) \<in> set used. place_holds mem q v \<and> (\<forall>x \<in> set (zip ps ss). apart (q, length v) x)" using "1.prems"(5) by auto
  then show ?case using "1.IH" [of used] "1.prems" by (simp add: row_fits_def)
next
  case (2 s ss v row p ps mem)
  have lv: "length v \<le> s" "row_fits ss row" using "2.prems"(2) by (auto simp: row_fits_def)
  then have "p + length v \<le> length mem" "take s v = v" using "2.prems"(4) by auto
  with mem_write_place [of p v mem "''dataBuffer''"]
  obtain mem1 where m1: "mem_write ''dataBuffer'' p (take s v) mem = Inr mem1" "length mem1 = length mem" "place_holds mem1 p v"
      "\<forall>q w. place_holds mem q w \<longrightarrow> apart (q, length w) (p, length v) \<longrightarrow> place_holds mem1 q w"
    by auto
  have "place_holds mem1 q w \<and> (\<forall>x \<in> set (zip ps ss). apart (q, length w) x)" if "(q, w) \<in> set used" for q w
    using that "2.prems"(5) m1(4) apart_less(2) [of "(q, length w)" p s "length v"] lv(1) by auto
  moreover have "\<forall>x \<in> set (zip ps ss). apart (p, length v) x" using "2.prems"(3) lv(1) apart_less(1) by auto
  ultimately have "\<forall>(q, w) \<in> set (used @ [(p, v)]). place_holds mem1 q w \<and> (\<forall>x \<in> set (zip ps ss). apart (q, length w) x)"
    using m1(3) by auto
  then obtain mem' where "stmt_fetch ss row ps mem1 = Inr mem'" "length mem' = length mem1"
      "\<forall>(q, w) \<in> set ((used @ [(p, v)]) @ row_cells row ps). place_holds mem' q w"
    using "2.IH" [of mem1 "used @ [(p, v)]"] m1 "2.prems" lv(2) by auto
  then show ?case using m1 by auto
qed (auto simp: row_fits_def)

lemma store_row_holds:
  assumes "length ps = length ss" "length ts = length ss" "row_fits ss row" "apart_all (zip ps ss)" "\<forall>(p, s) \<in> set (zip ps ss). p + s \<le> length mem"
    "\<forall>(q, v) \<in> set used. place_holds mem q v \<and> (\<forall>x \<in> set (zip ps ss). apart (q, length v) x)"
    "\<forall>(q, v) \<in> set (row_cells row ps). place_holds mem q v"
  shows "\<exists>mem'. store_row rowSize ts ss row ps mem =
      Inr (map2 (\<lambda>v p. case v of None \<Rightarrow> (None, 0) | Some bs \<Rightarrow> (Some p, length bs)) row ps,
           map2 (\<lambda>v p. if v = None then p else p + rowSize) row ps, mem') \<and> length mem' = length mem \<and>
    (\<forall>(q, v) \<in> set (used @ row_cells row ps). place_holds mem' q v)"
  using assms
proof (induction rowSize ts ss row ps mem arbitrary: used rule: store_row.induct)
  case (1 rowSize t ts s ss row p ps mem)
  have "\<forall>(q, v) \<in> set used. place_holds mem q v \<and> (\<forall>x \<in> set (zip ps ss). apart (q, length v) x)" using "1.prems"(6) by auto
  then show ?case using "1.IH" [of used] "1.prems" by (simp add: row_fits_def)
next
  case (2 rowSize t ts s ss v row p ps mem)
  have lv: "length v \<le> s" "row_fits ss row" using "2.prems"(3) by (auto simp: row_fits_def)
  have others: "\<forall>(q, w) \<in> set (row_cells row ps). apart (q, length w) (p, s)"
  proof (clarify)
    fix q w assume "(q, w) \<in> set (row_cells row ps)"
    then obtain s' where "(q, s') \<in> set (zip ps ss)" "length w \<le> s'" using row_cells_places [of ps ss row q w] "2.prems"(1) lv(2) by auto
    then show "apart (q, length w) (p, s)" using "2.prems"(4) apart_less(1) apart_sym by (metis apart_all.simps(2) zip_Cons_Cons)
  qed
  define wr where "wr = (if is_text t \<and> length v < s then mem_write ''dataBuffer'' (p + length v) [0] mem else Inr mem)"
  have "\<exists>mem1. wr = Inr mem1 \<and> length mem1 = length mem \<and> place_holds mem1 p v \<and>
      (\<forall>q w. place_holds mem q w \<longrightarrow> apart (q, length w) (p, s) \<longrightarrow> place_holds mem1 q w)"
  proof (cases "is_text t \<and> length v < s")
    case True
    have "apart (p, length v) (p + length v, length [0 :: uint8])" by (simp add: apart_def)
    moreover have "apart (q, n) (p + length v, length [0 :: uint8])" if "apart (q, n) (p, s)" for q n
      using that True by (auto simp: apart_def)
    moreover have "place_holds mem p v" using "2.prems"(7) by simp
    ultimately show ?thesis using mem_write_place [of "p + length v" "[0]" mem "''dataBuffer''"] True "2.prems"(5) by (auto simp: wr_def)
  qed (use "2.prems"(7) in \<open>auto simp: wr_def\<close>)
  then obtain mem1 where m1: "wr = Inr mem1" "length mem1 = length mem" "place_holds mem1 p v"
      "\<forall>q w. place_holds mem q w \<longrightarrow> apart (q, length w) (p, s) \<longrightarrow> place_holds mem1 q w"
    by blast
  have "place_holds mem1 q w \<and> (\<forall>x \<in> set (zip ps ss). apart (q, length w) x)" if "(q, w) \<in> set used" for q w
    using that "2.prems"(6) m1(4) by auto
  moreover have "\<forall>x \<in> set (zip ps ss). apart (p, length v) x" using "2.prems"(4) lv(1) apart_less(1) by auto
  ultimately have "\<forall>(q, w) \<in> set (used @ [(p, v)]). place_holds mem1 q w \<and> (\<forall>x \<in> set (zip ps ss). apart (q, length w) x)"
    using m1(3) by auto
  moreover have "\<forall>(q, w) \<in> set (row_cells row ps). place_holds mem1 q w" using "2.prems"(7) others m1(4) by fastforce
  ultimately obtain mem' where "store_row rowSize ts ss row ps mem1 =
      Inr (map2 (\<lambda>v p. case v of None \<Rightarrow> (None, 0) | Some bs \<Rightarrow> (Some p, length bs)) row ps,
           map2 (\<lambda>v p. if v = None then p else p + rowSize) row ps, mem')" "length mem' = length mem1"
      "\<forall>(q, w) \<in> set ((used @ [(p, v)]) @ row_cells row ps). place_holds mem' q w"
    using "2.IH" [of mem1 "used @ [(p, v)]"] m1 "2.prems" lv(2) by (auto simp: wr_def)
  then show ?case using m1 by (auto simp: wr_def [symmetric])
qed (auto simp: row_fits_def)

section \<open>The layout of the buffer\<close>

lemma length_offsets [simp]: "length (offsets a ss) = length ss"
  by (induction ss arbitrary: a) simp_all

lemma offsets_nth: "i < length ss \<Longrightarrow> offsets a ss ! i = a + sum_list (take i ss)"
  by (induction ss arbitrary: a i) (auto simp: less_Suc_eq_0_disj)

lemma offsets_order:
  assumes "i < j" "j < length ss"
  shows "offsets a ss ! i + ss ! i \<le> offsets a ss ! j"
proof -
  have "sum_list (take (Suc i) ss) \<le> sum_list (take j ss)"
    using assms by (metis Suc_leI le_add1 le_add_diff_inverse sum_list_append take_add)
  then show ?thesis using assms by (simp add: offsets_nth take_Suc_conv_app_nth)
qed

lemma offsets_end: "i < length ss \<Longrightarrow> offsets 0 ss ! i + ss ! i \<le> sum_list ss"
proof -
  assume i: "i < length ss"
  have "sum_list (take (Suc i) ss) \<le> sum_list ss" by (metis append_take_drop_id le_add1 sum_list_append)
  then show ?thesis using i by (simp add: offsets_nth take_Suc_conv_app_nth)
qed

text \<open>The place of the \<open>k\<close>-th value of a column, and that two such places do not overlap.\<close>

definition place :: "nat list \<Rightarrow> nat \<Rightarrow> nat \<Rightarrow> nat" where
  "place ss j k = offsets 0 ss ! j + k * sum_list ss"

lemma place_less: "i < length ss \<Longrightarrow> k < l \<Longrightarrow> place ss i k + ss ! i \<le> place ss j l"
proof -
  assume i: "i < length ss" and kl: "k < l"
  have "place ss i k + ss ! i \<le> sum_list ss + k * sum_list ss" using offsets_end [OF i] by (simp add: place_def)
  also have "\<dots> \<le> l * sum_list ss" using kl by (metis Suc_leI mult_Suc mult_le_mono1)
  finally show ?thesis by (simp add: place_def)
qed

lemma places_apart:
  assumes "i < length ss" "j < length ss" "i \<noteq> j \<or> k \<noteq> l"
  shows "apart (place ss i k, ss ! i) (place ss j l, ss ! j)"
proof (cases "k = l")
  case True
  then have "i < j \<or> j < i" using assms(3) by auto
  then show ?thesis using True assms(1,2) offsets_order [of i j ss 0] offsets_order [of j i ss 0]
    by (auto simp: apart_def place_def)
next
  case False
  then show ?thesis using place_less [of i ss k l j] place_less [of j ss l k i] assms by (auto simp: apart_def neq_iff)
qed

lemma place_inside:
  assumes "j < length ss" "k < n"
  shows "place ss j k + ss ! j \<le> sum_list ss * n"
proof -
  have "place ss j k + ss ! j \<le> sum_list ss + k * sum_list ss" using offsets_end [OF assms(1)] by (simp add: place_def)
  also have "\<dots> \<le> n * sum_list ss" using assms(2) by (metis Suc_leI mult_Suc mult_le_mono1)
  finally show ?thesis by (simp add: mult.commute)
qed

lemma apart_all_nth: "(\<And>i j. i < j \<Longrightarrow> j < length xs \<Longrightarrow> apart (xs ! i) (xs ! j)) \<Longrightarrow> apart_all xs"
proof (induction xs)
  case (Cons x xs)
  have "\<forall>y \<in> set xs. apart x y" using Cons.prems [of 0] by (force simp: in_set_conv_nth)
  moreover have "apart_all xs" using Cons.prems [of "Suc _" "Suc _"] by (intro Cons.IH) auto
  ultimately show ?case by simp
qed simp

definition ptrs :: "nat list \<Rightarrow> nat list \<Rightarrow> nat list" where
  "ptrs ss ks = map (\<lambda>j. place ss j (ks ! j)) [0..<length ss]"

lemma ptrs_nth [simp]: "j < length ss \<Longrightarrow> ptrs ss ks ! j = place ss j (ks ! j)" "length (ptrs ss ks) = length ss"
  by (simp_all add: ptrs_def)

lemma ptrs_start: "ptrs ss (replicate (length ss) 0) = offsets 0 ss"
  by (simp add: list_eq_iff_nth_eq place_def)

lemma ptrs_advance:
  assumes "length row = length ss" "length ks = length ss"
  shows "map2 (\<lambda>v p. if v = None then p else p + sum_list ss) row (ptrs ss ks) = ptrs ss (map2 (\<lambda>v k. if v = None then k else Suc k) row ks)"
  using assms by (simp add: list_eq_iff_nth_eq place_def)

lemma row_cells_set:
  "length row = length ps \<Longrightarrow> (q, v) \<in> set (row_cells row ps) \<longleftrightarrow> (\<exists>j < length ps. q = ps ! j \<and> row ! j = Some v)"
  by (induction row ps rule: row_cells.induct) (simp_all add: Ex_less_Suc2, blast)

definition cell_holds :: "uint8 list \<Rightarrow> uint8 list option \<Rightarrow> nat option \<times> nat \<Rightarrow> bool" where
  "cell_holds mem v c = (case v of None \<Rightarrow> c = (None, 0) | Some bs \<Rightarrow> \<exists>q. c = (Some q, length bs) \<and> place_holds mem q bs)"

lemma store_rows_holds:
  assumes "length ts = length ss" "list_all (row_fits ss) rows" "length ks = length ss" "\<forall>k \<in> set ks. k \<le> n"
    "length mem = sum_list ss * (n + length rows)"
    "\<forall>(q, v) \<in> set used. place_holds mem q v \<and> (\<exists>j k. j < length ss \<and> k < ks ! j \<and> q = place ss j k \<and> length v \<le> ss ! j)"
  shows "\<exists>cells mem'. store_rows (sum_list ss) ts ss rows (ptrs ss ks) mem = Inr (cells, mem') \<and> length mem' = length mem \<and>
    length cells = length rows \<and> (\<forall>(q, v) \<in> set used. place_holds mem' q v) \<and>
    list_all2 (list_all2 (cell_holds mem')) rows cells"
  using assms(2-)
proof (induction rows arbitrary: ks n mem used)
  case (Cons row rows)
  let ?ps = "ptrs ss ks" and ?ks = "map2 (\<lambda>v k. if v = None then k else Suc k) row ks"
  have lr: "length row = length ss" "row_fits ss row" using Cons.prems(1) by (auto simp: row_fits_def list_all2_lengthD [symmetric])
  have ks: "ks ! j \<le> n" if "j < length ss" for j using that Cons.prems(2,3) by (metis nth_mem)
  have z: "zip ?ps ss ! j = (place ss j (ks ! j), ss ! j)" if "j < length ss" for j using that by simp
  have all: "apart_all (zip ?ps ss)" by (rule apart_all_nth) (simp add: places_apart)
  have inside: "\<forall>(p, s) \<in> set (zip ?ps ss). p + s \<le> length mem"
    using place_inside [of _ ss _ "n + length (row # rows)"] ks Cons.prems(4) by (fastforce simp: in_set_conv_nth le_imp_less_Suc)
  have used: "\<forall>(q, v) \<in> set used. place_holds mem q v \<and> (\<forall>x \<in> set (zip ?ps ss). apart (q, length v) x)"
  proof (clarify, intro conjI ballI)
    fix q v x assume qv: "(q, v) \<in> set used" and "x \<in> set (zip ?ps ss)"
    then obtain j where j: "j < length ss" "x = (place ss j (ks ! j), ss ! j)" by (auto simp: in_set_conv_nth)
    obtain i k where "i < length ss" "k < ks ! i" "q = place ss i k" "length v \<le> ss ! i" using Cons.prems(5) qv by blast
    then show "apart (q, length v) x" using places_apart [of i ss j k "ks ! j"] j by (auto intro: apart_less(1))
  qed (use Cons.prems(5) in auto)
  obtain mem1 where m1: "stmt_fetch ss row ?ps mem = Inr mem1" "length mem1 = length mem" "\<forall>(q, v) \<in> set (used @ row_cells row ?ps). place_holds mem1 q v"
    using stmt_fetch_holds [OF _ lr(2) all inside used] by auto
  have used1: "\<forall>(q, v) \<in> set used. place_holds mem1 q v \<and> (\<forall>x \<in> set (zip ?ps ss). apart (q, length v) x)" using used m1(3) by auto
  obtain mem2 where m2: "store_row (sum_list ss) ts ss row ?ps mem1 =
      Inr (map2 (\<lambda>v p. case v of None \<Rightarrow> (None, 0) | Some bs \<Rightarrow> (Some p, length bs)) row ?ps, ptrs ss ?ks, mem2)" "length mem2 = length mem"
      "\<forall>(q, v) \<in> set (used @ row_cells row ?ps). place_holds mem2 q v"
    using store_row_holds [OF _ assms(1) lr(2) all _ used1, of "sum_list ss"] inside m1(2,3) ptrs_advance [OF lr(1) Cons.prems(2)] by auto
  have k1: "length ?ks = length ss" "\<forall>k \<in> set ?ks. k \<le> Suc n" using ks Cons.prems(2) lr(1) by (auto simp: in_set_conv_nth le_SucI)
  have kj: "?ks ! j = (if row ! j = None then ks ! j else Suc (ks ! j))" if "j < length ss" for j using that lr(1) Cons.prems(2) by simp
  have "\<forall>(q, v) \<in> set (used @ row_cells row ?ps). place_holds mem2 q v \<and> (\<exists>j k. j < length ss \<and> k < ?ks ! j \<and> q = place ss j k \<and> length v \<le> ss ! j)"
  proof (clarify, intro conjI)
    fix q v assume "(q, v) \<in> set (used @ row_cells row ?ps)"
    then consider "(q, v) \<in> set used" | "(q, v) \<in> set (row_cells row ?ps)" by auto
    then show "\<exists>j k. j < length ss \<and> k < ?ks ! j \<and> q = place ss j k \<and> length v \<le> ss ! j"
    proof cases
      case 1
      then obtain j k where "j < length ss" "k < ks ! j" "q = place ss j k" "length v \<le> ss ! j" using Cons.prems(5) by blast
      moreover have "k < ?ks ! j" using calculation kj [of j] by simp
      ultimately show ?thesis by blast
    next
      case 2
      then obtain j where j: "j < length ss" "q = place ss j (ks ! j)" "row ! j = Some v" using lr(1) by (auto simp: row_cells_set)
      then have "length v \<le> ss ! j" using lr(2) by (auto simp: row_fits_def list_all2_conv_all_nth)
      moreover have "ks ! j < ?ks ! j" using j kj [of j] by simp
      ultimately show ?thesis using j by blast
    qed
  qed (use m2(3) in auto)
  then obtain cells mem' where IH: "store_rows (sum_list ss) ts ss rows (ptrs ss ?ks) mem2 = Inr (cells, mem')" "length mem' = length mem2"
      "length cells = length rows" "\<forall>(q, v) \<in> set (used @ row_cells row ?ps). place_holds mem' q v"
      "list_all2 (list_all2 (cell_holds mem')) rows cells"
    using Cons.IH [of ?ks "Suc n" mem2 "used @ row_cells row ?ps"] Cons.prems(1,4) k1 m2(2) by (auto simp: algebra_simps)
  have "place_holds mem' (place ss j (ks ! j)) v" if "j < length ss" "row ! j = Some v" for j v
  proof -
    have "(place ss j (ks ! j), v) \<in> set (row_cells row ?ps)" using that lr(1) by (auto simp: row_cells_set intro: exI [of _ j])
    then show ?thesis using IH(4) by auto
  qed
  then have "list_all2 (cell_holds mem') row (map2 (\<lambda>v p. case v of None \<Rightarrow> (None, 0) | Some bs \<Rightarrow> (Some p, length bs)) row ?ps)"
    using lr(1) by (auto simp: list_all2_conv_all_nth cell_holds_def split: option.split)
  then show ?case using IH m1(1) m2(1,2) by auto
qed fastforce

section \<open>Reading a result\<close>

lemma place_read: "place_holds mem p v \<Longrightarrow> mem_read what p (length v) mem = Inr v"
  by (simp add: place_holds_def mem_read_def)

definition meta_of :: "column list \<Rightarrow> field_metadata list" where
  "meta_of cols = map2 InitializeDatabaseFieldMetadata cols [0..<length cols]"

definition sizes_of :: "nat \<Rightarrow> column list \<Rightarrow> nat list" where
  "sizes_of time_size cols = map (\<lambda>c. SizeForType time_size (cl_type c) (cl_max_length c)) cols"

lemma length_sizes_of [simp]: "length (sizes_of time_size cols) = length cols" "length (meta_of cols) = length cols"
  by (simp_all add: sizes_of_def meta_of_def)

lemma result_cells_hold:
  assumes "list_all (row_fits (sizes_of time_size cols)) rows"
  shows "\<exists>cells mem. store_rows (sum_list (sizes_of time_size cols)) (map cl_type cols) (sizes_of time_size cols) rows
      (offsets 0 (sizes_of time_size cols)) (map garbage [0..<sum_list (sizes_of time_size cols) * length rows]) = Inr (cells, mem) \<and>
    length mem = sum_list (sizes_of time_size cols) * length rows \<and> length cells = length rows \<and>
    list_all2 (list_all2 (cell_holds mem)) rows cells \<and>
    PreparedResultSet_new time_size cols rows garbage =
      Inr \<lparr>pr_rows = map (\<lambda>cs. map2 (\<lambda>(pos, len) m. \<lparr>fl_value = map_option (Pair mem) pos, fl_length = len, fl_raw = True, fl_meta = m\<rparr>) cs (meta_of cols)) cells,
           pr_rowCount = length rows, pr_rowPosition = 0, pr_fieldCount = length cols\<rparr>"
proof -
  let ?ss = "sizes_of time_size cols"
  obtain cells mem where "store_rows (sum_list ?ss) (map cl_type cols) ?ss rows (offsets 0 ?ss) (map garbage [0..<sum_list ?ss * length rows]) = Inr (cells, mem)"
      "length mem = sum_list ?ss * length rows" "length cells = length rows" "list_all2 (list_all2 (cell_holds mem)) rows cells"
    using store_rows_holds [of "map cl_type cols" ?ss rows "replicate (length cols) 0" 0 "map garbage [0..<sum_list ?ss * length rows]" "[]"] assms
      ptrs_start [of ?ss] by auto
  then show ?thesis by (simp add: PreparedResultSet_new_def Let_def sizes_of_def [symmetric] meta_of_def [symmetric])
qed

lemma NextRow_times:
  "((snd \<circ> pr_NextRow) ^^ i) r = r\<lparr>pr_rowPosition := pr_rowPosition r + i\<rparr>"
  by (induction i) (simp_all add: pr_NextRow_def Let_def)

text \<open>A field that holds the bytes of a value.\<close>

definition field_holds :: "uint8 list option \<Rightarrow> field_metadata \<Rightarrow> field \<Rightarrow> bool" where
  "field_holds v m f \<longleftrightarrow> fl_raw f \<and> fl_meta f = m \<and>
     (case v of None \<Rightarrow> fl_value f = None
      | Some bs \<Rightarrow> fl_length f = length bs \<and> (\<exists>mem p. fl_value f = Some (mem, p) \<and> place_holds mem p bs))"

lemma result_fields:
  assumes "list_all (row_fits (sizes_of time_size cols)) rows"
  obtains r where "PreparedResultSet_new time_size cols rows garbage = Inr r" "pr_rowCount r = length rows" "pr_rowPosition r = 0"
    "pr_fieldCount r = length cols"
    "\<And>i j. i < length rows \<Longrightarrow> j < length cols \<Longrightarrow>
       \<exists>f. pr_index j (((snd \<circ> pr_NextRow) ^^ i) r) = Inr f \<and> field_holds (rows ! i ! j) (meta_of cols ! j) f"
proof -
  obtain cells mem where c: "length cells = length rows" "list_all2 (list_all2 (cell_holds mem)) rows cells"
      "PreparedResultSet_new time_size cols rows garbage =
      Inr \<lparr>pr_rows = map (\<lambda>cs. map2 (\<lambda>(pos, len) m. \<lparr>fl_value = map_option (Pair mem) pos, fl_length = len, fl_raw = True, fl_meta = m\<rparr>) cs (meta_of cols)) cells,
           pr_rowCount = length rows, pr_rowPosition = 0, pr_fieldCount = length cols\<rparr>"
    using result_cells_hold [OF assms] by metis
  have "length (rows ! i) = length cols" if "i < length rows" for i
    using that assms by (auto simp: list_all_length row_fits_def list_all2_lengthD [symmetric])
  then have "cell_holds mem (rows ! i ! j) (cells ! i ! j) \<and> length (cells ! i) = length cols" if "i < length rows" "j < length cols" for i j
    using that c(2) by (auto simp: list_all2_conv_all_nth)
  then have "\<exists>f. pr_index j (((snd \<circ> pr_NextRow) ^^ i) (projr (PreparedResultSet_new time_size cols rows garbage))) = Inr f \<and>
      field_holds (rows ! i ! j) (meta_of cols ! j) f" if "i < length rows" "j < length cols" for i j
    using that c(1,3) by (fastforce simp: NextRow_times pr_index_def field_holds_def cell_holds_def split: option.splits)
  then show ?thesis using that c(3) by simp
qed

text \<open>What the accessors return for a value: nulls read as empty, and blobs of a fixed size are accepted exactly at that size.\<close>

definition reads_as :: "uint8 list option \<Rightarrow> field \<Rightarrow> bool" where
  "reads_as v f \<longleftrightarrow>
     (fl_IsNull f \<longleftrightarrow> v = None) \<and>
     GetDataString f = Inr (case v of None \<Rightarrow> [] | Some bs \<Rightarrow> bs) \<and>
     GetDataBinary f = Inr (case v of None \<Rightarrow> [] | Some bs \<Rightarrow> bs) \<and>
     (\<forall>n. GetBinarySizeChecked n f = (case v of
        Some bs \<Rightarrow> if length bs = n then Inr bs else Inl (AssertFailure ''Expected binary blob'')
      | None \<Rightarrow> Inl (AssertFailure ''Expected binary blob'')))"

lemma field_holds_reads: "field_holds v m f \<Longrightarrow> reads_as v f"
  by (auto simp: reads_as_def field_holds_def fl_IsNull_def GetDataString_def GetDataBinary_def GetBinarySizeChecked_def mem_read_def place_holds_def split: option.splits)

text \<open>
  C15. A result of a prepared statement whose values fit the sizes of the columns is stored without writing outside the buffer, and
  walking through it with \<open>NextRow\<close> finds every value of every row: a null is null, and the text and the bytes of any other value
  are those that were fetched, also when rows before it had nulls in some columns, and blobs of a fixed size are accepted exactly
  at that size. \<open>NextRow\<close> is true as long as there is a row.
\<close>

theorem result_cells:
  assumes "list_all (row_fits (sizes_of time_size cols)) rows"
  shows "\<exists>r. PreparedResultSet_new time_size cols rows garbage = Inr r \<and> pr_rowCount r = length rows \<and>
    (\<forall>i. fst (pr_NextRow (((snd \<circ> pr_NextRow) ^^ i) r)) = (Suc i < length rows)) \<and>
    (\<forall>i < length rows. \<forall>j < length cols. \<exists>f. pr_index j (((snd \<circ> pr_NextRow) ^^ i) r) = Inr f \<and> reads_as (rows ! i ! j) f)"
proof -
  obtain r where r: "PreparedResultSet_new time_size cols rows garbage = Inr r" "pr_rowCount r = length rows" "pr_rowPosition r = 0"
    "\<And>i j. i < length rows \<Longrightarrow> j < length cols \<Longrightarrow>
       \<exists>f. pr_index j (((snd \<circ> pr_NextRow) ^^ i) r) = Inr f \<and> field_holds (rows ! i ! j) (meta_of cols ! j) f"
    using result_fields [OF assms] by metis
  have "fst (pr_NextRow (((snd \<circ> pr_NextRow) ^^ i) r)) = (Suc i < length rows)" for i
    using r(2,3) by (simp add: NextRow_times pr_NextRow_def Let_def)
  then show ?thesis using r(1,2) r(4) field_holds_reads by blast
qed

definition plain_column :: "column_type \<Rightarrow> nat \<Rightarrow> string \<Rightarrow> string \<Rightarrow> column" where
  "plain_column t m table name =
     \<lparr>cl_type = t, cl_max_length = m, cl_org_table = bytes_of table, cl_table = bytes_of table, cl_org_name = bytes_of name, cl_name = bytes_of name\<rparr>"

theorem result_cells_witness:
  "let cols = [plain_column CT_TINY 1 ''a'' ''x'', plain_column CT_VAR_STRING 2 ''a'' ''y'']; rows = [[None, Some [65, 66]], [Some [7], Some [67]]]
   in list_all (row_fits (sizes_of 40 cols)) rows \<and>
     (\<exists>r. PreparedResultSet_new 40 cols rows (\<lambda>_. 9) = Inr r \<and> (\<exists>f. pr_index 0 (((snd \<circ> pr_NextRow) ^^ 1) r) = Inr f \<and> reads_as (Some [7]) f))"
proof -
  define cols where "cols = [plain_column CT_TINY 1 ''a'' ''x'', plain_column CT_VAR_STRING 2 ''a'' ''y'']"
  define rows where "rows = [[None, Some [65, 66]], [Some [7], Some [67 :: uint8]]]"
  have fits: "list_all (row_fits (sizes_of 40 cols)) rows" by (simp add: cols_def rows_def row_fits_def sizes_of_def plain_column_def)
  have at: "1 < length rows" "0 < length cols" "rows ! 1 ! 0 = Some [7]" by (simp_all add: cols_def rows_def)
  obtain r where r: "PreparedResultSet_new 40 cols rows (\<lambda>_. 9) = Inr r"
      "\<forall>i < length rows. \<forall>j < length cols. \<exists>f. pr_index j (((snd \<circ> pr_NextRow) ^^ i) r) = Inr f \<and> reads_as (rows ! i ! j) f"
    using result_cells [OF fits, of "\<lambda>_. 9"] by blast
  obtain f where "pr_index 0 (((snd \<circ> pr_NextRow) ^^ 1) r) = Inr f" "reads_as (Some [7]) f"
    using r(2) [rule_format, OF at(1,2)] unfolding at(3) by blast
  then show ?thesis using r(1) fits unfolding cols_def [symmetric] rows_def [symmetric] Let_def by blast
qed

section \<open>Reading numbers\<close>

text \<open>The bytes of a number in the order of the host, as the library stores it for a column of that width.\<close>

fun stored_bytes :: "nat \<Rightarrow> int \<Rightarrow> uint8 list" where
  "stored_bytes 0 v = []"
| "stored_bytes (Suc n) v = word_of_int v # stored_bytes n (v div 256)"

definition int_bytes :: "endian \<Rightarrow> nat \<Rightarrow> int \<Rightarrow> uint8 list" where
  "int_bytes h n v = (case h of WARHEAD_LITTLEENDIAN \<Rightarrow> stored_bytes n v | WARHEAD_BIGENDIAN \<Rightarrow> rev (stored_bytes n v))"

lemma length_stored_bytes [simp]: "length (stored_bytes n v) = n" "length (int_bytes h n v) = n"
  by (induction n arbitrary: v) (simp_all add: int_bytes_def split: endian.split)

lemma stored_bytes_value: "int (foldr (\<lambda>b acc. unat b + 256 * acc) (stored_bytes n v) 0) = v mod 256 ^ n"
proof (induction n arbitrary: v)
  case (Suc n)
  have "int (unat (word_of_int v :: uint8)) = v mod 256" by (simp add: unsigned_of_int take_bit_eq_mod)
  moreover have "v mod 256 + 256 * (v div 256 mod 256 ^ n) = v mod 256 ^ Suc n" by (simp add: mod_mult2_eq' zmod_zmult2_eq)
  ultimately show ?case using Suc [of "v div 256"] by simp
qed simp

lemma int_bytes_value: "int (bytes_nat h (int_bytes h n v)) = v mod 256 ^ n"
  by (cases h) (simp_all add: bytes_nat_def int_bytes_def stored_bytes_value)

definition in_type :: "num_type \<Rightarrow> int \<Rightarrow> bool" where
  "in_type T v = (case T of
     NumBool \<Rightarrow> v = 0 \<or> v = 1
   | NumInt t \<Rightarrow> if it_signed t then - (2 ^ (it_width t - 1)) \<le> v \<and> v < 2 ^ (it_width t - 1) else 0 \<le> v \<and> v < 2 ^ it_width t)"

definition type_ok :: "num_type \<Rightarrow> bool" where
  "type_ok T = (case T of NumBool \<Rightarrow> True | NumInt t \<Rightarrow> it_width t \<in> {8, 16, 32, 64})"

lemma mod_below_zero: "- m \<le> v \<Longrightarrow> v < 0 \<Longrightarrow> v mod m = v + (m :: int)"
  using mod_pos_pos_trivial [of "v + m" m] by simp

lemma convert_int_bytes:
  assumes "type_ok T" "in_type T v"
  shows "convert_int T (int (bytes_nat h (int_bytes h (num_bytes T) v))) = v"
proof (cases T)
  case NumBool
  then show ?thesis using assms by (auto simp: int_bytes_value in_type_def num_bytes_def convert_int_def)
next
  case (NumInt t)
  then have w: "it_width t = 8 \<or> it_width t = 16 \<or> it_width t = 32 \<or> it_width t = 64" using assms(1) by (simp add: type_ok_def)
  have "(256 :: int) ^ num_bytes T = 2 ^ it_width t" using w NumInt by (auto simp: num_bytes_def)
  moreover have "(if it_signed t \<and> v mod 2 ^ it_width t \<ge> 2 ^ (it_width t - 1) then v mod 2 ^ it_width t - 2 ^ it_width t else v mod 2 ^ it_width t) = v"
  proof (cases "v < 0")
    case True
    then have "v mod 2 ^ it_width t = v + 2 ^ it_width t" "it_signed t" "2 ^ (it_width t - 1) \<le> v + 2 ^ it_width t"
      using assms(2) w NumInt by (auto simp: in_type_def mod_below_zero split: if_splits)
    then show ?thesis by simp
  next
    case False
    then have "v mod 2 ^ it_width t = v" "it_signed t \<Longrightarrow> v < 2 ^ (it_width t - 1)"
      using assms(2) w NumInt by (auto simp: in_type_def split: if_splits)
    then show ?thesis by auto
  qed
  ultimately show ?thesis using NumInt by (simp add: int_bytes_value convert_int_def Let_def)
qed

lemma read_raw_place:
  assumes "type_ok T" "in_type T v" "place_holds mem p (int_bytes h (num_bytes T) v)"
  shows "read_raw h T (mem, p) = Inr v"
  using place_read [OF assms(3)] convert_int_bytes [OF assms(1,2)] by (simp add: read_raw_def)

text \<open>
  Reading a field again as an unsigned number of 32 bits inspects the text at its place when the table has a long name; every other
  reading of a field without an aggregate as its name only reads the number.
\<close>

definition reads_plain :: "num_type \<Rightarrow> field_metadata \<Rightarrow> bool" where
  "reads_plain T m \<longleftrightarrow> GetCleanAliasName (fm_Alias m) = None \<and> \<not> (T = type_int False 32 \<and> length (fm_TableName m) > 4)"

lemma GetData_plain:
  assumes "fl_raw f" "fl_value f = Some (mem, p)" "reads_plain T (fl_meta f)"
  shows "GetData h dbl T f = Some (read_raw h T (mem, p))"
  using assms by (subst GetData.simps, cases "read_raw h T (mem, p)") (auto simp: get_decide_def reads_plain_def)

lemma GetData_null: "fl_value f = None \<Longrightarrow> GetData h dbl T f = Some (Inr 0)"
  by (subst GetData.simps) simp

text \<open>
  Columns whose value is returned as it is read: the name is not that of a sum or average, and a count is read with 64 bits from a column of
  64 bits.
\<close>

definition reads_value :: "num_type \<Rightarrow> field_metadata \<Rightarrow> bool" where
  "reads_value T m \<longleftrightarrow> (case GetCleanAliasName (fm_Alias m) of
     None \<Rightarrow> True
   | Some alias \<Rightarrow> \<not> StringEqualI alias (bytes_of ''sum'') \<and> \<not> StringEqualI alias (bytes_of ''avg'') \<and>
       (StringEqualI alias (bytes_of ''count'') \<longrightarrow> T = type_int False 64 \<and> fm_Type m = FtInt64))"

text \<open>The inspection as text that \<open>GetData<uint32>\<close> makes in tables with long names finds no end in the buffer.\<close>

definition text_overrun :: "num_type \<Rightarrow> field \<Rightarrow> bool" where
  "text_overrun T f \<longleftrightarrow> T = type_int False 32 \<and> length (fm_TableName (fl_meta f)) > 4 \<and>
     (case fl_value f of None \<Rightarrow> False | Some (mem, p) \<Rightarrow> 0 \<notin> set (drop p mem))"

lemma GetData_value:
  assumes "fl_raw f" "fl_value f = Some (mem, p)" "reads_value T (fl_meta f)" "read_raw h T (mem, p) = Inr v"
  shows "GetData h dbl T f = Some (if text_overrun T f then Inl (UndefinedAccess ''strlen'') else Inr v)"
proof -
  have "get_decide h T f (mem, p) = (if text_overrun T f then Inl (UndefinedAccess ''strlen'') else Inr (GetReturn v))"
    using assms by (auto simp: get_decide_def reads_value_def text_overrun_def c_text_def IsCorrectAlias_def split: option.splits)
  then show ?thesis using assms(2) by (subst GetData.simps) simp
qed



section \<open>Reading past the end of the buffer\<close>

lemma store_row_result:
  "store_row rowSize ts ss row ps mem = Inr (fs, ps', mem') \<Longrightarrow> length ts = length ps \<Longrightarrow> length ss = length ps \<Longrightarrow> length row = length ps \<Longrightarrow>
   fs = map2 (\<lambda>v p. case v of None \<Rightarrow> (None, 0) | Some bs \<Rightarrow> (Some p, length bs)) row ps"
proof (induction rowSize ts ss row ps mem arbitrary: fs ps' mem' rule: store_row.induct)
  case (1 rowSize t ts s ss row p ps mem)
  then show ?case by fastforce
next
  case (2 rowSize t ts s ss v row p ps mem)
  then show ?case by fastforce
qed auto

lemma single_row:
  assumes "row_fits (sizes_of time_size cols) row"
  obtains r mem where "PreparedResultSet_new time_size cols [row] garbage = Inr r" "length mem = sum_list (sizes_of time_size cols)"
    "\<And>j v. j < length cols \<Longrightarrow> row ! j = Some v \<Longrightarrow> place_holds mem (offsets 0 (sizes_of time_size cols) ! j) v \<and>
       pr_index j r = Inr \<lparr>fl_value = Some (mem, offsets 0 (sizes_of time_size cols) ! j), fl_length = length v, fl_raw = True, fl_meta = meta_of cols ! j\<rparr>"
proof -
  let ?ss = "sizes_of time_size cols"
  have lr: "length row = length cols" using assms by (auto simp: row_fits_def list_all2_lengthD [symmetric])
  obtain cells mem where c: "store_rows (sum_list ?ss) (map cl_type cols) ?ss [row] (offsets 0 ?ss) (map garbage [0..<sum_list ?ss * 1]) = Inr (cells, mem)"
      "length mem = sum_list ?ss" "list_all2 (list_all2 (cell_holds mem)) [row] cells"
      "PreparedResultSet_new time_size cols [row] garbage =
      Inr \<lparr>pr_rows = map (\<lambda>cs. map2 (\<lambda>(pos, len) m. \<lparr>fl_value = map_option (Pair mem) pos, fl_length = len, fl_raw = True, fl_meta = m\<rparr>) cs (meta_of cols)) cells,
           pr_rowCount = 1, pr_rowPosition = 0, pr_fieldCount = length cols\<rparr>"
    using result_cells_hold [of time_size cols "[row]" garbage] assms by auto
  have cells: "cells = [map2 (\<lambda>v p. case v of None \<Rightarrow> (None, 0) | Some bs \<Rightarrow> (Some p, length bs)) row (offsets 0 ?ss)]"
    using c(1) lr by (auto dest!: store_row_result)
  have "cell_holds mem (row ! j) (cells ! 0 ! j)" if "j < length cols" for j using that c(3) lr by (auto simp: cells list_all2_conv_all_nth)
  then show ?thesis using that [OF c(4)] c(2) lr by (force simp: cells cell_holds_def pr_index_def)
qed

lemma bytes_nat_append: "bytes_nat WARHEAD_LITTLEENDIAN (xs @ ys) = bytes_nat WARHEAD_LITTLEENDIAN xs + 256 ^ length xs * bytes_nat WARHEAD_LITTLEENDIAN ys"
  unfolding bytes_nat_def endian.case by (induction xs) simp_all

lemma bytes_nat_less: "bytes_nat h xs < 256 ^ length xs"
proof -
  have "foldr (\<lambda>b acc. unat b + 256 * acc) ys 0 < 256 ^ length ys" for ys :: "uint8 list"
  proof (induction ys)
    case (Cons y ys)
    then show ?case using unsigned_less [of y, where ?'a = nat] by simp
  qed simp
  from this [of xs] this [of "rev xs"] show ?thesis by (cases h) (simp_all add: bytes_nat_def)
qed

lemma Get_duration_uint64: "Get_duration h dbl False = GetData h dbl (type_int False 64)"
  by (simp add: Get_duration_def fun_eq_iff)

text \<open>
  C17. The dates of a ban are columns of four bytes, and \<open>AccountInfo\<close> reads them as durations of 64 bits. On the row that the
  account query returns, with the two dates last, the date of the ban is then read together with the date of its end, and the date
  of the end with four bytes behind the buffer.
\<close>

theorem ban_dates_overrun:
  assumes "cols = cs @ [b, u]" "cl_type b = CT_LONG" "cl_type u = CT_LONG" "GetCleanAliasName (cl_name b) = None" "GetCleanAliasName (cl_name u) = None"
    and "row = vs @ [Some bandate, Some unbandate]" "length bandate = 4" "length unbandate = 4" "row_fits (sizes_of time_size cs) vs"
  shows "\<exists>r f g. PreparedResultSet_new time_size cols [row] garbage = Inr r \<and>
    pr_index (length cs) r = Inr f \<and> pr_index (Suc (length cs)) r = Inr g \<and>
    Get_duration WARHEAD_LITTLEENDIAN dbl False f =
      Some (Inr (int (bytes_nat WARHEAD_LITTLEENDIAN bandate) + 2 ^ 32 * int (bytes_nat WARHEAD_LITTLEENDIAN unbandate))) \<and>
    Get_duration h dbl False g = Some (Inl (UndefinedAccess ''data.value''))"
proof -
  let ?ss = "sizes_of time_size cols" and ?p = "sum_list (sizes_of time_size cs)"
  have ss: "?ss = sizes_of time_size cs @ [4, 4]" using assms(1-3) by (simp add: sizes_of_def)
  have vs: "length vs = length cs" using assms(9) by (auto simp: row_fits_def list_all2_lengthD [symmetric])
  have "row_fits ?ss row" using assms(6-9) by (simp add: ss row_fits_def list_all2_appendI)
  from single_row [OF this, of garbage] obtain r mem where r: "PreparedResultSet_new time_size cols [row] garbage = Inr r" "length mem = sum_list ?ss"
    "\<And>j v. j < length cols \<Longrightarrow> row ! j = Some v \<Longrightarrow> place_holds mem (offsets 0 ?ss ! j) v \<and>
       pr_index j r = Inr \<lparr>fl_value = Some (mem, offsets 0 ?ss ! j), fl_length = length v, fl_raw = True, fl_meta = meta_of cols ! j\<rparr>"
    by metis
  have off: "offsets 0 ?ss ! length cs = ?p" "offsets 0 ?ss ! Suc (length cs) = ?p + 4"
    using offsets_nth [of _ ?ss 0] by (simp_all add: ss)
  have rj: "row ! length cs = Some bandate" "row ! Suc (length cs) = Some unbandate" using assms(6) vs by (simp_all add: nth_append)
  have plain: "reads_plain (type_int False 64) (meta_of cols ! length cs)" "reads_plain (type_int False 64) (meta_of cols ! Suc (length cs))"
    using assms(1,4,5) by (simp_all add: reads_plain_def meta_of_def InitializeDatabaseFieldMetadata_def type_int_def nth_append)
  have m: "length mem = ?p + 8" using r(2) by (simp add: ss)
  have "place_holds mem ?p bandate" "place_holds mem (?p + 4) unbandate"
    using r(3) [of "length cs"] r(3) [of "Suc (length cs)"] rj off assms(1) by simp_all
  then have "take 8 (drop ?p mem) = bandate @ unbandate"
    using assms(7,8) take_add [of 4 4 "drop ?p mem"] by (simp add: place_holds_def add.commute)
  moreover have "int (bytes_nat WARHEAD_LITTLEENDIAN bandate) + 2 ^ 32 * int (bytes_nat WARHEAD_LITTLEENDIAN unbandate) < 2 ^ 64"
    using bytes_nat_less [of WARHEAD_LITTLEENDIAN "bandate @ unbandate"] assms(7,8) by (simp add: bytes_nat_append)
  ultimately have "read_raw WARHEAD_LITTLEENDIAN (type_int False 64) (mem, ?p) =
      Inr (int (bytes_nat WARHEAD_LITTLEENDIAN bandate) + 2 ^ 32 * int (bytes_nat WARHEAD_LITTLEENDIAN unbandate))"
    using m assms(7,8) by (simp add: read_raw_def mem_read_def num_bytes_def type_int_def convert_int_def bytes_nat_append)
  moreover have "read_raw h (type_int False 64) (mem, ?p + 4) = Inl (UndefinedAccess ''data.value'')"
    using m by (simp add: read_raw_def mem_read_def num_bytes_def type_int_def)
  ultimately show ?thesis
    using r(1) r(3) [of "length cs"] r(3) [of "Suc (length cs)"] rj off assms(1) plain by (auto simp: Get_duration_uint64 GetData_plain)
qed

theorem ban_dates_overrun_witness:
  "let b = plain_column CT_LONG 0 ''account_banned'' ''bandate''; u = plain_column CT_LONG 0 ''account_banned'' ''unbandate'';
       cs = [plain_column CT_LONG 0 ''account'' ''ID'', plain_column CT_STRING 32 ''account'' ''Salt'', plain_column CT_STRING 32 ''account'' ''Verifier'',
             plain_column CT_LONGLONG 0 ''account'' ''GuildID'', plain_column CT_VAR_STRING 1 ''account'' ''RealmName'', plain_column CT_VAR_STRING 1 ''account'' ''LastIP'',
             plain_column CT_VAR_STRING 1 ''account'' ''CoreName'', plain_column CT_LONG 0 ''account'' ''ModuleVersion''];
       vs = [Some [1, 0, 0, 0], Some (replicate 32 7), Some (replicate 32 8), Some (replicate 8 1), Some [65], Some [66], Some [67], Some [1, 0, 0, 0]]
   in \<exists>r f g. PreparedResultSet_new 40 (cs @ [b, u]) [vs @ [Some [1, 0, 0, 0], Some [2, 0, 0, 0]]] (\<lambda>_. 0) = Inr r \<and>
     pr_index 8 r = Inr f \<and> pr_index 9 r = Inr g \<and>
     Get_duration WARHEAD_LITTLEENDIAN (\<lambda>_. 0) False f = Some (Inr (1 + 2 ^ 33)) \<and>
     Get_duration WARHEAD_LITTLEENDIAN (\<lambda>_. 0) False g = Some (Inl (UndefinedAccess ''data.value''))"
proof -
  define b u where "b = plain_column CT_LONG 0 ''account_banned'' ''bandate''" and "u = plain_column CT_LONG 0 ''account_banned'' ''unbandate''"
  define cs where "cs = [plain_column CT_LONG 0 ''account'' ''ID'', plain_column CT_STRING 32 ''account'' ''Salt'', plain_column CT_STRING 32 ''account'' ''Verifier'',
    plain_column CT_LONGLONG 0 ''account'' ''GuildID'', plain_column CT_VAR_STRING 1 ''account'' ''RealmName'', plain_column CT_VAR_STRING 1 ''account'' ''LastIP'',
    plain_column CT_VAR_STRING 1 ''account'' ''CoreName'', plain_column CT_LONG 0 ''account'' ''ModuleVersion'']"
  define vs :: "uint8 list option list" where
    "vs = [Some [1, 0, 0, 0], Some (replicate 32 7), Some (replicate 32 8), Some (replicate 8 1), Some [65], Some [66], Some [67], Some [1, 0, 0, 0]]"
  have types: "cl_type b = CT_LONG" "cl_type u = CT_LONG" by (simp_all add: b_def u_def plain_column_def)
  have plain: "GetCleanAliasName (cl_name b) = None" "GetCleanAliasName (cl_name u) = None"
    unfolding b_def u_def plain_column_def column.simps by code_simp+
  have fits: "row_fits (sizes_of 40 cs) vs" by (simp add: row_fits_def sizes_of_def cs_def vs_def plain_column_def)
  have "length cs = 8" by (simp add: cs_def)
  moreover have "int (bytes_nat WARHEAD_LITTLEENDIAN [1, 0, 0, 0]) + 2 ^ 32 * int (bytes_nat WARHEAD_LITTLEENDIAN [2, 0, 0, 0]) = 1 + 2 ^ 33"
    by (simp add: bytes_nat_def)
  ultimately show ?thesis
    using ban_dates_overrun [OF refl types plain refl _ _ fits, of "[1, 0, 0, 0]" "[2, 0, 0, 0]" "\<lambda>_. 0" "\<lambda>_. 0" WARHEAD_LITTLEENDIAN]
    unfolding b_def [symmetric] u_def [symmetric] cs_def [symmetric] vs_def [symmetric] Let_def by simp
qed

section \<open>Whether reading a number returns\<close>

definition counts :: "field_metadata \<Rightarrow> bool" where
  "counts m = (case GetCleanAliasName (fm_Alias m) of None \<Rightarrow> False | Some alias \<Rightarrow> StringEqualI alias (bytes_of ''count''))"

lemma StringEqualI_length: "StringEqualI a b \<Longrightarrow> length a = length b"
  by (induction a b rule: StringEqualI.induct) simp_all

lemma count_is_no_sum: "StringEqualI alias (bytes_of ''count'') \<Longrightarrow> \<not> StringEqualI alias (bytes_of ''sum'') \<and> \<not> StringEqualI alias (bytes_of ''avg'')"
  by (auto dest!: StringEqualI_length simp: bytes_of_def)

lemma get_decide_next:
  "get_decide h T f ptr = Inr GetInt32 \<Longrightarrow> T = type_int False 32"
  "get_decide h T f ptr = Inr GetUInt64 \<Longrightarrow> T = type_int False 64 \<Longrightarrow> counts (fl_meta f) \<and> fm_Type (fl_meta f) \<noteq> FtInt64"
  by (auto simp: get_decide_def counts_def IsCorrectAlias_def split: if_splits option.splits)

lemma widths: "type_int False 64 \<noteq> type_int False 32" "type_int True 32 \<noteq> type_int False 32"
  by (simp_all add: type_int_def)

lemma GetData_uint64_returns:
  assumes "\<not> (counts (fl_meta f) \<and> fm_Type (fl_meta f) \<noteq> FtInt64)"
  shows "\<exists>r. GetData h dbl (type_int False 64) f = Some r"
proof (cases "fl_value f")
  case (Some ptr)
  have "get_decide h (type_int False 64) f ptr \<noteq> Inr GetUInt64" "get_decide h (type_int False 64) f ptr \<noteq> Inr GetInt32"
    using get_decide_next [of h "type_int False 64" f ptr] assms widths by auto
  then show ?thesis using Some by (subst GetData.simps) (auto split: sum.split get_next.split)
qed (simp add: GetData_null)

lemma GetData_returns_but_uint32:
  assumes "\<not> (counts (fl_meta f) \<and> fm_Type (fl_meta f) \<noteq> FtInt64)" "T \<noteq> type_int False 32"
  shows "\<exists>r. GetData h dbl T f = Some r"
proof (cases "fl_value f")
  case (Some ptr)
  have "get_decide h T f ptr \<noteq> Inr GetInt32" using get_decide_next(1) assms(2) by blast
  then show ?thesis using Some GetData_uint64_returns [OF assms(1), of h dbl]
    by (subst GetData.simps) (auto split: sum.split get_next.split)
qed (simp add: GetData_null)

lemma GetData_some_returns:
  assumes "\<not> (counts (fl_meta f) \<and> fm_Type (fl_meta f) \<noteq> FtInt64)"
  shows "\<exists>r. GetData h dbl T f = Some r"
proof (cases "fl_value f")
  case (Some ptr)
  then show ?thesis using GetData_uint64_returns [OF assms, of h dbl] GetData_returns_but_uint32 [OF assms widths(2), of h dbl]
    by (subst GetData.simps) (auto split: sum.split get_next.split)
qed (simp add: GetData_null)

lemma GetData_diverges:
  assumes "fl_value f = Some ptr" "get_decide h (type_int False 64) f ptr = Inr GetUInt64"
  shows "GetData h dbl (type_int False 64) f = None"
proof -
  have "k = h \<longrightarrow> T = type_int False 64 \<longrightarrow> g = f \<longrightarrow> False" if "GetData k d T g = Some r" for k d T g r
    using _ that
    by (rule GetData.raw_induct [where P = "\<lambda>k d T g r. k = h \<longrightarrow> T = type_int False 64 \<longrightarrow> g = f \<longrightarrow> False"])
      (use assms in \<open>auto split: Option.bind_splits\<close>)
  then show ?thesis by (metis not_None_eq)
qed

text \<open>
  Reading a number returns, with a value or an error, unless the name of the column starts with \<open>count(\<close> and its type is not
  that of 64 bits (sums and averages are handed to the reading as \<open>double\<close>, which is an argument). Then the reading with 64 bits calls itself for ever, on every value that it can read at all.
\<close>

theorem GetData_returns:
  "(counts (fl_meta f) \<and> fm_Type (fl_meta f) \<noteq> FtInt64 \<or> (\<exists>r. GetData h dbl T f = Some r)) \<and>
   (counts (fl_meta f) \<and> fm_Type (fl_meta f) \<noteq> FtInt64 \<and> fl_value f = Some ptr \<and> get_decide h (type_int False 64) f ptr = Inr n \<longrightarrow>
    GetData h dbl (type_int False 64) f = None)"
proof (intro conjI impI)
  show "counts (fl_meta f) \<and> fm_Type (fl_meta f) \<noteq> FtInt64 \<or> (\<exists>r. GetData h dbl T f = Some r)"
    using GetData_some_returns by blast
  assume "counts (fl_meta f) \<and> fm_Type (fl_meta f) \<noteq> FtInt64 \<and> fl_value f = Some ptr \<and> get_decide h (type_int False 64) f ptr = Inr n"
  moreover from this have "n = GetUInt64"
    by (auto simp: get_decide_def counts_def IsCorrectAlias_def type_int_def dest: count_is_no_sum split: if_splits option.splits)
  ultimately show "GetData h dbl (type_int False 64) f = None" using GetData_diverges by blast
qed

theorem GetData_returns_witness:
  "let m = InitializeDatabaseFieldMetadata (plain_column CT_LONG 0 ''account'' ''Count(ID)'') 0;
       f = \<lparr>fl_value = Some (replicate 8 1, 0), fl_length = 4, fl_raw = True, fl_meta = m\<rparr>
   in counts m \<and> GetData WARHEAD_LITTLEENDIAN (\<lambda>_. 0) (type_int False 64) f = None \<and>
     (\<exists>r. GetData WARHEAD_LITTLEENDIAN (\<lambda>_. 0) (type_int False 32) (f\<lparr>fl_meta := m\<lparr>fm_Alias := bytes_of ''ID''\<rparr>\<rparr>) = Some r)"
proof -
  define m where "m = InitializeDatabaseFieldMetadata (plain_column CT_LONG 0 ''account'' ''Count(ID)'') 0"
  define f where "f = \<lparr>fl_value = Some (replicate 8 (1 :: uint8), 0), fl_length = 4, fl_raw = True, fl_meta = m\<rparr>"
  have c: "counts m" "fm_Type m \<noteq> FtInt64" "\<not> counts (m\<lparr>fm_Alias := bytes_of ''ID''\<rparr>)"
    unfolding m_def counts_def InitializeDatabaseFieldMetadata_def plain_column_def by code_simp+
  have "read_raw WARHEAD_LITTLEENDIAN (type_int False 64) (replicate 8 1, 0) = Inr (projr (read_raw WARHEAD_LITTLEENDIAN (type_int False 64) (replicate 8 1, 0)))"
    by (simp add: read_raw_def mem_read_def type_int_def num_bytes_def)
  then have "\<exists>n. get_decide WARHEAD_LITTLEENDIAN (type_int False 64) f (replicate 8 1, 0) = Inr n"
    using widths(1) by (auto simp: get_decide_def f_def)
  then show ?thesis
    using GetData_returns [of f WARHEAD_LITTLEENDIAN "\<lambda>_. 0" "type_int False 64" "(replicate 8 1, 0)"]
      GetData_returns [of "f\<lparr>fl_meta := m\<lparr>fm_Alias := bytes_of ''ID''\<rparr>\<rparr>" WARHEAD_LITTLEENDIAN "\<lambda>_. 0" "type_int False 32"] c
    unfolding m_def [symmetric] f_def [symmetric] Let_def by (auto simp: f_def)
qed

text \<open>
  An unsigned number of 32 bits without a zero byte that ends the buffer, in a table with a name of more than four letters, makes
  the search for the end of its text leave the buffer: the number is inspected as text although it is stored in binary.
\<close>

theorem number_read_as_text:
  assumes "row_fits (sizes_of time_size (cs @ [c])) (vs @ [Some number])" "cl_type c = CT_LONG" "length (cl_org_table c) > 4"
    "length vs = length cs" "length number = 4" "0 \<notin> set number"
  shows "\<exists>r f. PreparedResultSet_new time_size (cs @ [c]) [vs @ [Some number]] garbage = Inr r \<and> pr_index (length cs) r = Inr f \<and>
    GetData h dbl (type_int False 32) f = Some (Inl (UndefinedAccess ''strlen''))"
proof -
  let ?cols = "cs @ [c]" and ?p = "sum_list (sizes_of time_size cs)"
  obtain r mem where r: "PreparedResultSet_new time_size ?cols [vs @ [Some number]] garbage = Inr r" "length mem = sum_list (sizes_of time_size ?cols)"
    "\<And>j v. j < length ?cols \<Longrightarrow> (vs @ [Some number]) ! j = Some v \<Longrightarrow> place_holds mem (offsets 0 (sizes_of time_size ?cols) ! j) v \<and>
       pr_index j r = Inr \<lparr>fl_value = Some (mem, offsets 0 (sizes_of time_size ?cols) ! j), fl_length = length v, fl_raw = True, fl_meta = meta_of ?cols ! j\<rparr>"
    using single_row [OF assms(1), of garbage] by metis
  have ss: "sizes_of time_size ?cols = sizes_of time_size cs @ [4]" using assms(2) by (simp add: sizes_of_def)
  have off: "offsets 0 (sizes_of time_size ?cols) ! length cs = ?p" using offsets_nth [of "length cs" "sizes_of time_size ?cols" 0] by (simp add: ss)
  have last: "(vs @ [Some number]) ! length cs = Some number" using assms(4) by (simp add: nth_append)
  have f: "place_holds mem ?p number"
    "pr_index (length cs) r = Inr \<lparr>fl_value = Some (mem, ?p), fl_length = 4, fl_raw = True, fl_meta = meta_of ?cols ! length cs\<rparr>"
    using r(3) [OF _ last] off assms(5) by simp_all
  have "drop ?p mem = number" using f(1) r(2) assms(5) by (simp add: place_holds_def ss)
  then have "c_text (mem, ?p) = Inl (UndefinedAccess ''strlen'')" using assms(6) by (simp add: c_text_def)
  moreover have "\<exists>v. read_raw h (type_int False 32) (mem, ?p) = Inr v" using r(2) by (simp add: read_raw_def mem_read_def type_int_def num_bytes_def ss)
  moreover have "length (fm_TableName (meta_of ?cols ! length cs)) > 4"
    using assms(3) by (simp add: meta_of_def InitializeDatabaseFieldMetadata_def nth_append)
  ultimately have "GetData h dbl (type_int False 32) \<lparr>fl_value = Some (mem, ?p), fl_length = 4, fl_raw = True, fl_meta = meta_of ?cols ! length cs\<rparr> =
      Some (Inl (UndefinedAccess ''strlen''))"
    by (subst GetData.simps) (auto simp: get_decide_def)
  then show ?thesis using r(1) f(2) by blast
qed

section \<open>Walking through the rows in text form\<close>

definition rs_reads :: "text_result \<Rightarrow> uint8 list option list \<Rightarrow> bool" where
  "rs_reads r row \<longleftrightarrow> list_all2 reads_as row (rs_row r)"

lemma SetStructuredValue_reads:
  "reads_as v (SetStructuredValue (map_option (\<lambda>bs. (bs @ [0], 0)) v) (case v of None \<Rightarrow> 0 | Some bs \<Rightarrow> length bs) f)"
  by (auto simp: reads_as_def SetStructuredValue_def fl_IsNull_def GetDataString_def GetDataBinary_def GetBinarySizeChecked_def mem_read_def split: option.split)

lemma rs_NextRow_reads:
  "rs_open r \<Longrightarrow> rs_rest r = row # rest \<Longrightarrow> length (rs_row r) = length row \<Longrightarrow>
   fst (rs_NextRow r) \<and> rs_reads (snd (rs_NextRow r)) row \<and> rs_open (snd (rs_NextRow r)) \<and> rs_rest (snd (rs_NextRow r)) = rest \<and>
   length (rs_row (snd (rs_NextRow r))) = length row"
  by (auto simp: rs_NextRow_def rs_reads_def list_all2_conv_all_nth SetStructuredValue_reads)

lemma rs_walk:
  "rs_open r \<Longrightarrow> list_all (\<lambda>row. length row = length (rs_row r)) (rs_rest r) \<Longrightarrow> i < length (rs_rest r) \<Longrightarrow>
   fst (rs_NextRow (((snd \<circ> rs_NextRow) ^^ i) r)) \<and> rs_reads (((snd \<circ> rs_NextRow) ^^ Suc i) r) (rs_rest r ! i)"
proof (induction i arbitrary: r)
  case 0
  then show ?case using rs_NextRow_reads [of r] by (cases "rs_rest r") auto
next
  case (Suc i)
  then obtain row rest where rr: "rs_rest r = row # rest" by (cases "rs_rest r") auto
  then have n: "rs_open (snd (rs_NextRow r))" "rs_rest (snd (rs_NextRow r)) = rest" "length (rs_row (snd (rs_NextRow r))) = length (rs_row r)"
    using rs_NextRow_reads [of r row rest] Suc.prems by auto
  have it: "((snd \<circ> rs_NextRow) ^^ Suc k) r = ((snd \<circ> rs_NextRow) ^^ k) (snd (rs_NextRow r))" for k
    by (simp add: funpow_swap1)
  show ?case using Suc.IH [of "snd (rs_NextRow r)"] Suc.prems n rr unfolding it by (simp add: o_def)
qed

text \<open>
  Walking through the result of a query in text form: each of the first calls of \<open>NextRow\<close> is true and makes the fields of the
  next row readable, nulls and values with zeros inside them included.
\<close>

theorem text_rows:
  assumes "list_all (\<lambda>row. length row = length cols) rows" "i < length rows"
  shows "fst (rs_NextRow (((snd \<circ> rs_NextRow) ^^ i) (ResultSet_new cols rows))) \<and>
    rs_reads (((snd \<circ> rs_NextRow) ^^ Suc i) (ResultSet_new cols rows)) (rows ! i)"
  using rs_walk [of "ResultSet_new cols rows" i] assms by (simp add: ResultSet_new_def Let_def)

lemma rs_walk_rest:
  "rs_open r \<Longrightarrow> i \<le> length (rs_rest r) \<Longrightarrow>
   rs_open (((snd \<circ> rs_NextRow) ^^ i) r) \<and> rs_rest (((snd \<circ> rs_NextRow) ^^ i) r) = drop i (rs_rest r) \<and> rs_meta (((snd \<circ> rs_NextRow) ^^ i) r) = rs_meta r"
proof (induction i)
  case (Suc i)
  then have "drop i (rs_rest r) = rs_rest r ! i # drop (Suc i) (rs_rest r)" by (simp add: Cons_nth_drop_Suc)
  then show ?case using Suc by (simp add: rs_NextRow_def)
qed simp

text \<open>
  After the last row \<open>NextRow\<close> is false, from then on for ever, and has freed the current row: a field that is read then, although its
  index is valid, is read from a null pointer.
\<close>

theorem text_rows_end:
  assumes "j < length cols"
  shows "\<not> fst (rs_NextRow (((snd \<circ> rs_NextRow) ^^ (length rows + k)) (ResultSet_new cols rows))) \<and>
    rs_index j (((snd \<circ> rs_NextRow) ^^ (Suc (length rows) + k)) (ResultSet_new cols rows)) = Inl (UndefinedAccess ''_currentRow'')"
proof -
  define r where "r = ((snd \<circ> rs_NextRow) ^^ length rows) (ResultSet_new cols rows)"
  have r: "rs_open r" "rs_rest r = []" "rs_meta r = meta_of cols"
    using rs_walk_rest [of "ResultSet_new cols rows" "length rows"] by (simp_all add: r_def ResultSet_new_def Let_def meta_of_def)
  have step: "rs_NextRow r = (False, rs_CleanUp r)" "rs_NextRow (rs_CleanUp r) = (False, rs_CleanUp r)"
    using r by (simp_all add: rs_NextRow_def rs_CleanUp_def)
  have clean: "((snd \<circ> rs_NextRow) ^^ k) (rs_CleanUp r) = rs_CleanUp r" for k by (induction k) (simp_all add: step)
  have walk: "((snd \<circ> rs_NextRow) ^^ (length rows + k)) (ResultSet_new cols rows) = ((snd \<circ> rs_NextRow) ^^ k) r" for k
    by (simp add: r_def funpow_add add.commute [of "length rows"])
  have more: "((snd \<circ> rs_NextRow) ^^ Suc k) r = rs_CleanUp r" for k using clean [of k] step(1) by (simp add: funpow_swap1)
  have "\<not> fst (rs_NextRow (((snd \<circ> rs_NextRow) ^^ k) r))" using more step by (cases k) auto
  moreover have "((snd \<circ> rs_NextRow) ^^ (Suc (length rows) + k)) (ResultSet_new cols rows) = rs_CleanUp r" using walk [of "Suc k"] more by simp
  ultimately show ?thesis using r(3) assms walk [of k] by (simp add: rs_index_def rs_CleanUp_def)
qed
end
