(* ===== verification/AccountRows.thy ===== *)
theory AccountRows
  imports QueryResults
begin

text \<open>
  The account that a login reads: the structure \<open>AccountInfo\<close> of \<open>server/Server/DiscordSocket.cpp\<close> and its constructor on the fields
  of the row that \<open>DISCORD_SEL_ACCOUNT_INFO_BY_NAME\<close> returns, and the row itself, with the columns of the query and the types that the
  tables \<open>account\<close> and \<open>account_banned\<close> give them.
\<close>

section \<open>Reading the fields\<close>

definition SALT_LENGTH :: nat where "SALT_LENGTH = 32"

definition VERIFIER_LENGTH :: nat where "VERIFIER_LENGTH = 32"

record account_info =
  ai_ID :: uint32
  ai_Salt :: "uint8 list"
  ai_Verifier :: "uint8 list"
  ai_GuildID :: uint64
  ai_RealmName :: string
  ai_LastIP :: string
  ai_CoreName :: string
  ai_ModuleVersion :: uint32
  ai_BanDate :: int
  ai_UnBanDate :: int
  ai_IsBanned :: bool
  ai_IsPermanentlyBanned :: bool

text \<open>A reading that calls itself for ever exhausts the stack.\<close>

definition returned :: "'a res option \<Rightarrow> 'a res" where
  "returned r = (case r of None \<Rightarrow> Inl (UndefinedAccess ''stack'') | Some x \<Rightarrow> x)"

text \<open>The dates of a ban are read with \<open>Get<Seconds>(false)\<close> unless they are null.\<close>

definition read_date :: "endian \<Rightarrow> (field \<Rightarrow> int) \<Rightarrow> field \<Rightarrow> int res" where
  "read_date h dbl f = (if fl_IsNull f then Inr 0 else returned (Get_duration h dbl False f))"

definition AccountInfo_new :: "endian \<Rightarrow> (field \<Rightarrow> int) \<Rightarrow> int \<Rightarrow> field list \<Rightarrow> account_info res" where
  "AccountInfo_new h dbl gameTime fs =
     bindr (returned (GetData h dbl (type_int False 32) (fs ! 0))) (\<lambda>accountID.
     bindr (GetBinarySizeChecked SALT_LENGTH (fs ! 1)) (\<lambda>salt.
     bindr (GetBinarySizeChecked VERIFIER_LENGTH (fs ! 2)) (\<lambda>verifier.
     bindr (returned (GetData h dbl (type_int False 64) (fs ! 3))) (\<lambda>guildID.
     bindr (GetDataString (fs ! 4)) (\<lambda>realmName.
     bindr (GetDataString (fs ! 5)) (\<lambda>lastIP.
     bindr (GetDataString (fs ! 6)) (\<lambda>coreName.
     bindr (returned (GetData h dbl (type_int False 32) (fs ! 7))) (\<lambda>moduleVersion.
     bindr (read_date h dbl (fs ! 8)) (\<lambda>banDate.
     bindr (read_date h dbl (fs ! 9)) (\<lambda>unBanDate.
       Inr \<lparr>ai_ID = word_of_int accountID, ai_Salt = salt, ai_Verifier = verifier, ai_GuildID = word_of_int guildID,
         ai_RealmName = map char_of_byte realmName, ai_LastIP = map char_of_byte lastIP, ai_CoreName = map char_of_byte coreName,
         ai_ModuleVersion = word_of_int moduleVersion, ai_BanDate = banDate, ai_UnBanDate = unBanDate,
         ai_IsBanned = (unBanDate > 0 \<and> unBanDate < gameTime), ai_IsPermanentlyBanned = (banDate > 0 \<and> banDate = unBanDate)\<rparr>))))))))))"

text \<open>The flags follow from the dates that were read; a timed ban counts once its end is over.\<close>

lemma account_flags:
  assumes "AccountInfo_new h dbl gameTime fs = Inr acc"
  shows "(ai_IsPermanentlyBanned acc \<longleftrightarrow> 0 < ai_BanDate acc \<and> ai_BanDate acc = ai_UnBanDate acc) \<and>
    (ai_IsBanned acc \<longleftrightarrow> 0 < ai_UnBanDate acc \<and> ai_UnBanDate acc < gameTime)"
  using assms by (auto simp: AccountInfo_new_def)

section \<open>The row of the query\<close>

text \<open>A row of \<open>DISCORD_SEL_ACCOUNT_INFO_BY_NAME\<close>; \<open>None\<close> is an SQL NULL, which the join gives for an account without a ban.\<close>

record account_row =
  ar_ID :: uint32
  ar_Salt :: "uint8 list"
  ar_Verifier :: "uint8 list"
  ar_GuildID :: uint64
  ar_RealmName :: string
  ar_LastIP :: string
  ar_CoreName :: string
  ar_ModuleVersion :: uint32
  ar_bandate :: "uint32 option"
  ar_unbandate :: "uint32 option"

text \<open>The columns of the query, with the types of the tables; the lengths are the longest of the values.\<close>

definition account_column :: "column_type \<Rightarrow> nat \<Rightarrow> string \<Rightarrow> column" where
  "account_column t m name =
     \<lparr>cl_type = t, cl_max_length = m, cl_org_table = bytes_of ''account'', cl_table = bytes_of ''a'', cl_org_name = bytes_of name, cl_name = bytes_of name\<rparr>"

definition banned_column :: "string \<Rightarrow> column" where
  "banned_column name =
     \<lparr>cl_type = CT_LONG, cl_max_length = 0, cl_org_table = bytes_of ''account_banned'', cl_table = bytes_of ''ab'', cl_org_name = bytes_of name, cl_name = bytes_of name\<rparr>"

definition account_columns :: "nat \<Rightarrow> nat \<Rightarrow> nat \<Rightarrow> column list" where
  "account_columns realm ip core =
     [account_column CT_LONG 0 ''ID'', account_column CT_STRING 32 ''Salt'', account_column CT_STRING 32 ''Verifier'',
      account_column CT_LONGLONG 0 ''GuildID'', account_column CT_VAR_STRING realm ''RealmName'', account_column CT_VAR_STRING ip ''LastIP'',
      account_column CT_VAR_STRING core ''CoreName'', account_column CT_LONG 0 ''ModuleVersion'', banned_column ''bandate'', banned_column ''unbandate'']"

section \<open>The fields of a single row\<close>

lemma single_row_fields:
  assumes "row_fits (sizes_of time_size cols) row"
  shows "\<exists>r fs mem. PreparedResultSet_new time_size cols [row] garbage = Inr r \<and> pr_Fetch r = Inr fs \<and>
    length mem = sum_list (sizes_of time_size cols) \<and>
    (\<forall>j < length cols. fs ! j = \<lparr>fl_value = map_option (\<lambda>_. (mem, offsets 0 (sizes_of time_size cols) ! j)) (row ! j),
        fl_length = (case row ! j of None \<Rightarrow> 0 | Some v \<Rightarrow> length v), fl_raw = True, fl_meta = meta_of cols ! j\<rparr> \<and>
      (\<forall>v. row ! j = Some v \<longrightarrow> place_holds mem (offsets 0 (sizes_of time_size cols) ! j) v))"
proof -
  let ?ss = "sizes_of time_size cols"
  have lr: "length row = length cols" using assms by (auto simp: row_fits_def list_all2_lengthD [symmetric])
  obtain cells mem where c: "store_rows (sum_list ?ss) (map cl_type cols) ?ss [row] (offsets 0 ?ss) (map garbage [0..<sum_list ?ss * 1]) = Inr (cells, mem)"
      "length mem = sum_list ?ss" "list_all2 (list_all2 (cell_holds mem)) [row] cells"
      "PreparedResultSet_new time_size cols [row] garbage =
      Inr \<lparr>pr_rows = map (\<lambda>cs. map2 (\<lambda>(pos, len) m. \<lparr>fl_value = map_option (Pair mem) pos, fl_length = len, fl_raw = True, fl_meta = m\<rparr>) cs (meta_of cols)) cells,
           pr_rowCount = 1, pr_rowPosition = 0, pr_fieldCount = length cols\<rparr>"
    using result_cells_hold [of time_size cols "[row]" garbage] assms by auto
  have cells: "cells = [map2 (\<lambda>v p. case v of None \<Rightarrow> (None, 0) | Some bs \<Rightarrow> (Some p, length bs)) row (offsets 0 ?ss)]"
    using c(1) lr by (auto dest!: store_row_result)
  have "cell_holds mem (row ! j) (cells ! 0 ! j)" if "j < length cols" for j using that c(3) lr by (auto simp: cells list_all2_conv_all_nth)
  then have "place_holds mem (offsets 0 ?ss ! j) v" if "j < length cols" "row ! j = Some v" for j v using that lr by (force simp: cells cell_holds_def)
  then show ?thesis using c(2,4) lr by (intro exI [of _ mem] exI conjI) (auto simp: pr_Fetch_def cells split: option.split)
qed

lemma place_in_rest: "place_holds mem q v \<Longrightarrow> p \<le> q \<Longrightarrow> x \<in> set v \<Longrightarrow> x \<in> set (drop p mem)"
proof -
  assume v: "place_holds mem q v" "p \<le> q" "x \<in> set v"
  then have "x \<in> set (drop q mem)" by (metis in_set_takeD place_holds_def)
  moreover have "drop q mem = drop (q - p) (drop p mem)" using v(2) by simp
  ultimately show ?thesis by (metis in_set_dropD)
qed

lemma uint_types:
  "type_ok (type_int False 32)" "type_ok (type_int False 64)" "num_bytes (type_int False 32) = 4" "num_bytes (type_int False 64) = 8"
  "in_type (type_int False 32) (uint (a :: uint32))" "in_type (type_int False 64) (uint (b :: uint64))"
  using uint_bounded [of a] uint_bounded [of b] by (simp_all add: type_ok_def type_int_def num_bytes_def in_type_def)

lemma account_names: "\<forall>c \<in> set (account_columns rl il cl). GetCleanAliasName (cl_name c) = None"
proof -
  have "list_all (\<lambda>n. GetCleanAliasName (bytes_of n) = None)
      [''ID'', ''Salt'', ''Verifier'', ''GuildID'', ''RealmName'', ''LastIP'', ''CoreName'', ''ModuleVersion'', ''bandate'', ''unbandate'']" by code_simp
  then show ?thesis by (simp add: account_columns_def account_column_def banned_column_def)
qed

lemma account_meta: "j < 10 \<Longrightarrow> GetCleanAliasName (fm_Alias (meta_of (account_columns rl il cl) ! j)) = None"
proof -
  assume "j < 10"
  moreover have "length (account_columns rl il cl) = 10" by (simp add: account_columns_def)
  ultimately have "account_columns rl il cl ! j \<in> set (account_columns rl il cl)"
      "fm_Alias (meta_of (account_columns rl il cl) ! j) = cl_name (account_columns rl il cl ! j)"
    by (simp_all add: meta_of_def InitializeDatabaseFieldMetadata_def)
  then show ?thesis using account_names by fastforce
qed

text \<open>The values of a row as the library stores them, and the fields of a result with this row.\<close>

definition account_values :: "endian \<Rightarrow> account_row \<Rightarrow> uint8 list option list" where
  "account_values h row =
     [Some (int_bytes h 4 (uint (ar_ID row))), Some (ar_Salt row), Some (ar_Verifier row), Some (int_bytes h 8 (uint (ar_GuildID row))),
      Some (bytes_of (ar_RealmName row)), Some (bytes_of (ar_LastIP row)), Some (bytes_of (ar_CoreName row)), Some (int_bytes h 4 (uint (ar_ModuleVersion row))),
      map_option (\<lambda>t. int_bytes h 4 (uint t)) (ar_bandate row), map_option (\<lambda>t. int_bytes h 4 (uint t)) (ar_unbandate row)]"

definition row_columns :: "account_row \<Rightarrow> column list" where
  "row_columns row = account_columns (length (ar_RealmName row)) (length (ar_LastIP row)) (length (ar_CoreName row))"

definition account_result :: "endian \<Rightarrow> nat \<Rightarrow> (nat \<Rightarrow> uint8) \<Rightarrow> account_row \<Rightarrow> field list res" where
  "account_result h time_size garbage row = bindr (PreparedResultSet_new time_size (row_columns row) [account_values h row] garbage) pr_Fetch"

text \<open>
  What the tables guarantee of a row: salt and verifier have 32 bytes, texts are short, and a ban has both dates. The version of a module
  has a byte that is zero, so that the inspection of numbers as text ends in the buffer.
\<close>

definition account_valid :: "endian \<Rightarrow> account_row \<Rightarrow> bool" where
  "account_valid h row \<longleftrightarrow> length (ar_Salt row) = 32 \<and> length (ar_Verifier row) = 32 \<and> length (ar_RealmName row) < 2 ^ 16 \<and>
     length (ar_LastIP row) < 2 ^ 16 \<and> length (ar_CoreName row) < 2 ^ 16 \<and> (ar_bandate row = None \<longleftrightarrow> ar_unbandate row = None) \<and>
     0 \<in> set (int_bytes h 4 (uint (ar_ModuleVersion row)))"

text \<open>The account that is read for a row without a ban.\<close>

definition account_of :: "account_row \<Rightarrow> account_info" where
  "account_of row =
     \<lparr>ai_ID = ar_ID row, ai_Salt = ar_Salt row, ai_Verifier = ar_Verifier row, ai_GuildID = ar_GuildID row, ai_RealmName = ar_RealmName row,
      ai_LastIP = ar_LastIP row, ai_CoreName = ar_CoreName row, ai_ModuleVersion = ar_ModuleVersion row, ai_BanDate = 0, ai_UnBanDate = 0,
      ai_IsBanned = False, ai_IsPermanentlyBanned = False\<rparr>"

lemma row_sizes:
  assumes "account_valid h row"
  shows "sizes_of time_size (row_columns row) =
    [4, 33, 33, 8, length (ar_RealmName row) + 1, length (ar_LastIP row) + 1, length (ar_CoreName row) + 1, 4, 4, 4]"
  using assms by (simp add: sizes_of_def row_columns_def account_columns_def account_column_def banned_column_def account_valid_def)

lemma row_fits_account:
  assumes "account_valid h row"
  shows "row_fits (sizes_of time_size (row_columns row)) (account_values h row)"
  unfolding row_sizes [OF assms] using assms
  by (auto simp: row_fits_def account_values_def account_valid_def bytes_of_def split: option.splits)

text \<open>What is read before the dates; \<open>n\<close> is where they are.\<close>

lemma account_fields:
  assumes "account_valid h row"
  defines "n \<equiv> 85 + length (ar_RealmName row) + length (ar_LastIP row) + length (ar_CoreName row)"
  shows "\<exists>fs mem. account_result h time_size garbage row = Inr fs \<and> length mem = n + 8 \<and>
    AccountInfo_new h dbl gameTime fs = bindr (read_date h dbl (fs ! 8)) (\<lambda>banDate. bindr (read_date h dbl (fs ! 9)) (\<lambda>unBanDate.
       Inr ((account_of row)\<lparr>ai_BanDate := banDate, ai_UnBanDate := unBanDate, ai_IsBanned := (unBanDate > 0 \<and> unBanDate < gameTime),
         ai_IsPermanentlyBanned := (banDate > 0 \<and> banDate = unBanDate)\<rparr>))) \<and>
    fl_value (fs ! 8) = map_option (\<lambda>_. (mem, n)) (ar_bandate row) \<and> fl_value (fs ! 9) = map_option (\<lambda>_. (mem, n + 4)) (ar_unbandate row) \<and>
    (\<forall>j \<in> {8, 9}. fl_raw (fs ! j) \<and> reads_plain (type_int False 64) (fl_meta (fs ! j)))"
proof -
  let ?cols = "row_columns row" and ?row = "account_values h row"
  note ss = row_sizes [OF assms(1), of time_size]
  obtain r fs mem where r: "PreparedResultSet_new time_size ?cols [?row] garbage = Inr r" "pr_Fetch r = Inr fs"
      "length mem = sum_list (sizes_of time_size ?cols)"
    and f: "\<forall>j < length ?cols. fs ! j = \<lparr>fl_value = map_option (\<lambda>_. (mem, offsets 0 (sizes_of time_size ?cols) ! j)) (?row ! j),
        fl_length = (case ?row ! j of None \<Rightarrow> 0 | Some v \<Rightarrow> length v), fl_raw = True, fl_meta = meta_of ?cols ! j\<rparr> \<and>
      (\<forall>v. ?row ! j = Some v \<longrightarrow> place_holds mem (offsets 0 (sizes_of time_size ?cols) ! j) v)"
    using single_row_fields [OF row_fits_account [OF assms(1)], of time_size garbage] by (elim exE conjE) (rule that)
  have len: "length ?cols = 10" by (simp add: row_columns_def account_columns_def)
  have reads: "reads_as (?row ! j) (fs ! j)" if "j < 10" for j
    using f that by (intro field_holds_reads [of _ "meta_of ?cols ! j"]) (auto simp: len field_holds_def split: option.split)
  have plain: "GetCleanAliasName (fm_Alias (fl_meta (fs ! j))) = None" if "j < 10" for j
    using account_meta [OF that] f that by (simp add: len) (simp add: row_columns_def)
  have at: "fl_value (fs ! j) = map_option (\<lambda>_. (mem, offsets 0 [4, 33, 33, 8, length (ar_RealmName row) + 1, length (ar_LastIP row) + 1,
      length (ar_CoreName row) + 1, 4, 4, 4] ! j)) (?row ! j)" "fl_raw (fs ! j)" if "j < 10" for j
    using f that by (simp_all add: len ss)
  have p7: "place_holds mem (n - 4) (int_bytes h 4 (uint (ar_ModuleVersion row)))"
    using f [rule_format, of 7] by (simp add: len ss account_values_def add.assoc n_def)
  have p: "place_holds mem 0 (int_bytes h 4 (uint (ar_ID row)))" "place_holds mem 70 (int_bytes h 8 (uint (ar_GuildID row)))"
    using f [rule_format, of 0] f [rule_format, of 3] by (simp_all add: len ss account_values_def)
  have val: "reads_value T (fl_meta (fs ! j))" if "j < 10" for j T using plain [OF that] by (simp add: reads_value_def)
  have zero: "\<not> text_overrun T (fs ! j)" if "fl_value (fs ! j) = Some (mem, q)" "q \<le> n - 4" for j T q
    using that place_in_rest [OF p7, of q 0] assms(1) by (auto simp: text_overrun_def account_valid_def)
  have number: "GetData h dbl T (fs ! j) = Some (Inr v)"
    if "j < 10" "type_ok T" "in_type T v" "fl_value (fs ! j) = Some (mem, q)" "q \<le> n - 4" "place_holds mem q (int_bytes h (num_bytes T) v)" for j T v q
    using GetData_value [OF at(2) [OF that(1)] that(4) val [OF that(1)] read_raw_place [OF that(2,3,6)]] zero [OF that(4,5)] by simp
  have numbers: "GetData h dbl (type_int False 32) (fs ! 7) = Some (Inr (uint (ar_ModuleVersion row)))"
      "GetData h dbl (type_int False 32) (fs ! 0) = Some (Inr (uint (ar_ID row)))"
      "GetData h dbl (type_int False 64) (fs ! 3) = Some (Inr (uint (ar_GuildID row)))"
    by (rule number [of _ _ _ "n - 4"], use at(1) [of 7] p7 in \<open>simp_all add: uint_types account_values_def n_def add.assoc\<close>)
      (rule number [of _ _ _ 0], use at(1) [of 0] p in \<open>simp_all add: uint_types account_values_def\<close>,
       rule number [of _ _ _ 70], use at(1) [of 3] p in \<open>simp_all add: uint_types account_values_def n_def\<close>)
  have texts: "GetBinarySizeChecked SALT_LENGTH (fs ! 1) = Inr (ar_Salt row)" "GetBinarySizeChecked VERIFIER_LENGTH (fs ! 2) = Inr (ar_Verifier row)"
      "GetDataString (fs ! 4) = Inr (bytes_of (ar_RealmName row))" "GetDataString (fs ! 5) = Inr (bytes_of (ar_LastIP row))"
      "GetDataString (fs ! 6) = Inr (bytes_of (ar_CoreName row))"
    using reads [of 1] reads [of 2] reads [of 4] reads [of 5] reads [of 6] assms(1)
    by (simp_all add: reads_as_def account_values_def SALT_LENGTH_def VERIFIER_LENGTH_def account_valid_def)
  have "map char_of_byte (bytes_of t) = t" for t by (simp add: bytes_of_def o_def)
  then have new: "AccountInfo_new h dbl gameTime fs = bindr (read_date h dbl (fs ! 8)) (\<lambda>banDate. bindr (read_date h dbl (fs ! 9)) (\<lambda>unBanDate.
       Inr ((account_of row)\<lparr>ai_BanDate := banDate, ai_UnBanDate := unBanDate, ai_IsBanned := (unBanDate > 0 \<and> unBanDate < gameTime),
         ai_IsPermanentlyBanned := (banDate > 0 \<and> banDate = unBanDate)\<rparr>)))"
    using numbers texts by (simp add: AccountInfo_new_def returned_def account_of_def)
  have "length mem = n + 8" using r(3) by (simp add: ss n_def)
  moreover have "account_result h time_size garbage row = Inr fs" using r(1,2) by (simp add: account_result_def)
  moreover have "fl_value (fs ! 8) = map_option (\<lambda>_. (mem, n)) (ar_bandate row)" "fl_value (fs ! 9) = map_option (\<lambda>_. (mem, n + 4)) (ar_unbandate row)"
    using at(1) [of 8] at(1) [of 9] by (simp_all add: account_values_def n_def add.assoc option.map_comp o_def)
  moreover have "\<forall>j \<in> {8, 9}. fl_raw (fs ! j) \<and> reads_plain (type_int False 64) (fl_meta (fs ! j))"
    using at(2) plain widths(1) by (simp add: reads_plain_def)
  ultimately show ?thesis using new by blast
qed

text \<open>
  The account of a row: without a ban every field is read as it is stored; with a ban the date of its end is read with 64 bits although
  its column, the last of the buffer, has 32, so that the reading leaves the buffer.
\<close>

theorem AccountInfo_row:
  assumes "account_valid h row"
  shows "\<exists>fs. account_result h time_size garbage row = Inr fs \<and>
    AccountInfo_new h dbl gameTime fs = (if ar_bandate row = None then Inr (account_of row) else Inl (UndefinedAccess ''data.value''))"
proof -
  obtain fs mem n where f: "account_result h time_size garbage row = Inr fs" "length mem = n + 8"
      "AccountInfo_new h dbl gameTime fs = bindr (read_date h dbl (fs ! 8)) (\<lambda>banDate. bindr (read_date h dbl (fs ! 9)) (\<lambda>unBanDate.
         Inr ((account_of row)\<lparr>ai_BanDate := banDate, ai_UnBanDate := unBanDate, ai_IsBanned := (unBanDate > 0 \<and> unBanDate < gameTime),
           ai_IsPermanentlyBanned := (banDate > 0 \<and> banDate = unBanDate)\<rparr>)))"
      "fl_value (fs ! 8) = map_option (\<lambda>_. (mem, n)) (ar_bandate row)" "fl_value (fs ! 9) = map_option (\<lambda>_. (mem, n + 4)) (ar_unbandate row)"
      "\<forall>j \<in> {8, 9}. fl_raw (fs ! j) \<and> reads_plain (type_int False 64) (fl_meta (fs ! j))"
    using account_fields [OF assms, of time_size garbage dbl gameTime] by blast
  have both: "ar_bandate row = None \<longleftrightarrow> ar_unbandate row = None" using assms by (simp add: account_valid_def)
  show ?thesis
  proof (cases "ar_bandate row")
    case None
    then have "read_date h dbl (fs ! 8) = Inr 0" "read_date h dbl (fs ! 9) = Inr 0" using both f(4,5) by (simp_all add: read_date_def fl_IsNull_def)
    then show ?thesis using f(1,3) None by (simp add: account_of_def)
  next
    case (Some b)
    then have "read_date h dbl (fs ! 8) = read_raw h (type_int False 64) (mem, n)" "read_date h dbl (fs ! 9) = read_raw h (type_int False 64) (mem, n + 4)"
      using both f(4-6) by (auto simp: read_date_def fl_IsNull_def Get_duration_uint64 GetData_plain returned_def)
    moreover have "\<exists>v. read_raw h (type_int False 64) (mem, n) = Inr v" "read_raw h (type_int False 64) (mem, n + 4) = Inl (UndefinedAccess ''data.value'')"
      using f(2) by (simp_all add: read_raw_def mem_read_def num_bytes_def type_int_def)
    ultimately show ?thesis using f(1,3) Some by auto
  qed
qed
end
