(* ===== verification/DiscordSocket.thy ===== *)
theory DiscordSocket
  imports Packets Socket SRP6 AccountRows
begin

text \<open>
  One client connection, \<open>src/src/server/Server/DiscordSocket.cpp\<close>: the framing of the byte stream
  into packets, the packets the socket answers itself (ping, authentication), the hand-over of the
  others to the session, the authentication callbacks, and the batching of outgoing packets. The
  record extends the base socket. Calls that leave the socket (to the session, to \<open>BanMgr\<close>, to the
  bot and to \<open>Discord\<close>) are appended to \<open>ds_events\<close> in the order the code makes them; the queue
  \<open>_bufferQueue\<close> is the list of its values (its contract is in \<open>Queues\<close>). Locks are taken and
  released within one operation and are not modelled.
\<close>

section \<open>Data\<close>

record auth_session =
  as_Account :: string
  as_Key :: string
  as_CoreName :: string
  as_CoreVersion :: string
  as_ModuleVersion :: uint32

datatype socket_query = IpInfoQuery | AccountInfoQuery auth_session

datatype socket_event =
    SessionQueuePacket uint32 discord_packet
  | SessionSetLatency uint32 int64
  | BanMgrAddAccount string int int
  | BotCheckBotInGuild uint64
  | BotCheckChannels uint64
  | DiscordAddSession uint32 uint64 string "int64 list"

datatype ReadDataHandlerResult = RdhOk | RdhError | RdhWaitingForQuery

record discord_socket = socket +
  ds_LastPingTime :: int
  ds_OverSpeedPings :: uint32
  ds_discordSession :: "uint32 option"
  ds_authed :: bool
  ds_headerBuffer :: message_buffer
  ds_packetBuffer :: message_buffer
  ds_bufferQueue :: "discord_packet list"
  ds_sendBufferSize :: nat
  ds_queryProcessor :: "socket_query list"
  ds_ipCountry :: string
  ds_events :: "socket_event list"

text \<open>The constructor; times are nanoseconds of the steady clock, \<open>TimePoint()\<close> is 0.\<close>

definition DiscordSocket_new :: discord_socket where
  "DiscordSocket_new =
     \<lparr>sk_readBuffer = mb_Resize READ_BLOCK_SIZE MessageBuffer_default, sk_writeQueue = [],
      sk_closed = False, sk_closing = False, sk_isWritingAsync = False, sk_reading = False, sk_sent = [],
      ds_LastPingTime = 0, ds_OverSpeedPings = 0, ds_discordSession = None, ds_authed = False,
      ds_headerBuffer = mb_Resize header_length MessageBuffer_default,
      ds_packetBuffer = MessageBuffer_default, ds_bufferQueue = [], ds_sendBufferSize = READ_BLOCK_SIZE,
      ds_queryProcessor = [], ds_ipCountry = [], ds_events = []\<rparr>"

definition ds_emit :: "socket_event \<Rightarrow> discord_socket \<Rightarrow> discord_socket" where
  "ds_emit e s = s\<lparr>ds_events := ds_events s @ [e]\<rparr>"

definition ds_OnClose :: "discord_socket \<Rightarrow> discord_socket" where
  "ds_OnClose s = s\<lparr>ds_discordSession := None\<rparr>"

definition ds_Start :: "discord_socket \<Rightarrow> discord_socket" where
  "ds_Start s = s\<lparr>ds_queryProcessor := ds_queryProcessor s @ [IpInfoQuery]\<rparr>"

section \<open>Sending\<close>

definition ds_SendPacket :: "discord_packet \<Rightarrow> discord_socket \<Rightarrow> discord_socket" where
  "ds_SendPacket packet s =
     (if \<not> sk_IsOpen s then s else s\<lparr>ds_bufferQueue := ds_bufferQueue s @ [packet]\<rparr>)"

definition SendAuthResponseError ::
  "endian \<Rightarrow> DiscordAuthResponseCodes \<Rightarrow> discord_socket \<Rightarrow> discord_socket res" where
  "SendAuthResponseError h code s =
     bindr (shl_uint8 h (auth_code_value code) (dp_buf (DiscordPacket_new (code_value SERVER_SEND_AUTH_RESPONSE))))
       (\<lambda>b. Inr (ds_SendPacket \<lparr>dp_opcode = code_value SERVER_SEND_AUTH_RESPONSE, dp_buf = b\<rparr> s))"

text \<open>Header and contents of one packet into a message buffer.\<close>

definition write_packet :: "discord_packet \<Rightarrow> message_buffer \<Rightarrow> message_buffer res" where
  "write_packet queued buffer =
     (let n = bb_size (dp_buf queued);
          header = DiscordServerPktHeader (word_of_nat (n + 2)) (dp_opcode queued)
      in bindr (mb_Write header buffer) (\<lambda>b1.
           if bb_storage (dp_buf queued) \<noteq> [] then
             bindr (bb_contents (dp_buf queued)) (\<lambda>bs. mb_Write bs b1)
           else Inr b1))"

text \<open>One turn of the loop of \<open>Update\<close>. A full buffer is copied to the write queue and resized to
  the size it has; its positions are not reset.\<close>

definition send_one ::
  "discord_packet \<Rightarrow> message_buffer \<Rightarrow> discord_socket \<Rightarrow> (message_buffer \<times> discord_socket) res" where
  "send_one queued buffer s =
     (let need = bb_size (dp_buf queued) + header_length;
          (buffer1, s1) =
            (if mb_GetRemainingSpace buffer < need
             then (mb_Resize (ds_sendBufferSize s) buffer, sk_QueuePacket buffer s)
             else (buffer, s))
      in if mb_GetRemainingSpace buffer1 \<ge> need
         then bindr (write_packet queued buffer1) (\<lambda>b. Inr (b, s1))
         else bindr (write_packet queued (MessageBuffer_sized need))
                (\<lambda>packetBuffer. Inr (buffer1, sk_QueuePacket packetBuffer s1)))"

fun send_loop ::
  "discord_packet list \<Rightarrow> message_buffer \<Rightarrow> discord_socket \<Rightarrow> (message_buffer \<times> discord_socket) res" where
  "send_loop [] buffer s = Inr (buffer, s\<lparr>ds_bufferQueue := []\<rparr>)"
| "send_loop (queued # rest) buffer s =
     bindr (send_one queued buffer s) (\<lambda>(buffer', s'). send_loop rest buffer' s')"

definition send_queued :: "discord_socket \<Rightarrow> discord_socket res" where
  "send_queued s =
     bindr (send_loop (ds_bufferQueue s) (MessageBuffer_sized (ds_sendBufferSize s)) s)
       (\<lambda>(buffer, s'). Inr (if mb_GetActiveSize buffer > 0 then sk_QueuePacket buffer s' else s'))"

section \<open>Handlers of the socket's own packets\<close>

text \<open>A handler that may throw returns what it throws beside the state it leaves.\<close>

definition HandleAuthSession ::
  "endian \<Rightarrow> discord_packet \<Rightarrow> discord_socket \<Rightarrow> unit res \<times> discord_socket" where
  "HandleAuthSession h recvPacket s =
     (case bindr (shr_string h (dp_buf recvPacket)) (\<lambda>(account, b1).
           bindr (shr_string h b1) (\<lambda>(key, b2).
           bindr (shr_string h b2) (\<lambda>(coreName, b3).
           bindr (shr_string h b3) (\<lambda>(coreVersion, b4).
           bindr (shr_uint32 h b4) (\<lambda>(moduleVersion, b5).
             Inr \<lparr>as_Account = account, as_Key = key, as_CoreName = coreName,
                  as_CoreVersion = coreVersion, as_ModuleVersion = moduleVersion\<rparr>))))) of
        Inl e \<Rightarrow> (Inl e, s)
      | Inr authSession \<Rightarrow>
          (Inr (), s\<lparr>ds_queryProcessor := ds_queryProcessor s @ [AccountInfoQuery authSession]\<rparr>))"

text \<open>The over-speed count of \<open>HandlePing\<close>: true when the peer is to be kicked.\<close>

definition ping_speed :: "int \<Rightarrow> discord_socket \<Rightarrow> bool \<times> discord_socket" where
  "ping_speed now s =
     (if ds_LastPingTime s = 0 then (False, s\<lparr>ds_LastPingTime := now\<rparr>)
      else
        (let diff = now - ds_LastPingTime s;
             s1 = s\<lparr>ds_LastPingTime := now\<rparr>
         in if diff < 10000000000 then
              (let s2 = s1\<lparr>ds_OverSpeedPings := ds_OverSpeedPings s1 + 1\<rparr>
               in (ds_OverSpeedPings s2 > 5 \<and> ds_discordSession s2 \<noteq> None, s2))
            else (False, s1\<lparr>ds_OverSpeedPings := 0\<rparr>)))"

definition HandlePing ::
  "endian \<Rightarrow> int \<Rightarrow> discord_packet \<Rightarrow> discord_socket \<Rightarrow> bool res \<times> discord_socket" where
  "HandlePing h now recvPacket s =
     (case bindr (shr_int64 h (dp_buf recvPacket)) (\<lambda>(timePacket, b1).
           bindr (shr_int64 h b1) (\<lambda>(latency, b2). Inr (timePacket, latency))) of
        Inl e \<Rightarrow> (Inl e, s)
      | Inr (timePacket, latency) \<Rightarrow>
          (let (kick, s1) = ping_speed now s in
           if kick then (Inr False, s1)
           else
             (case ds_discordSession s1 of
                None \<Rightarrow> (Inr False, s1)
              | Some session \<Rightarrow>
                  (let s2 = ds_emit (SessionSetLatency session latency) s1 in
                   case shl_int64 h timePacket (dp_buf (DiscordPacket_new (code_value SERVER_SEND_PONG))) of
                     Inl e \<Rightarrow> (Inl e, s2)
                   | Inr b \<Rightarrow>
                       (Inr True, ds_SendPacket \<lparr>dp_opcode = code_value SERVER_SEND_PONG, dp_buf = b\<rparr> s2)))))"

section \<open>Receiving\<close>

text \<open>What the handlers take from outside: the host's byte order, the time and the opcode table.\<close>

record read_env =
  re_host :: endian
  re_now :: int
  re_table :: opcode_table

text \<open>The switch of \<open>ReadDataHandler\<close> on a complete packet. \<open>catch (ByteBufferException)\<close> turns what
  the two handlers throw into an error.\<close>

definition handle_packet ::
  "read_env \<Rightarrow> discord_packet \<Rightarrow> discord_socket \<Rightarrow> ReadDataHandlerResult res \<times> discord_socket" where
  "handle_packet env packet s =
     (let opcode = dp_opcode packet in
      if opcode = code_value CLIENT_SEND_PING then
        (case HandlePing (re_host env) (re_now env) packet s of
           (Inr ok, s') \<Rightarrow> (Inr (if ok then RdhOk else RdhError), s')
         | (Inl e, s') \<Rightarrow> (if is_thrown e then Inr RdhError else Inl e, s'))
      else if opcode = code_value CLIENT_AUTH_SESSION then
        (if ds_authed s then
           (if ds_discordSession s = None then (Inl (UndefinedAccess ''_discordSession->GetRemoteAddress()''), s)
            else (Inr RdhError, s))
         else
           (case HandleAuthSession (re_host env) packet s of
              (Inr _, s') \<Rightarrow> (Inr RdhWaitingForQuery, s')
            | (Inl e, s') \<Rightarrow> (if is_thrown e then Inr RdhError else Inl e, s')))
      else
        (case ds_discordSession s of
           None \<Rightarrow> (Inr RdhError, s)
         | Some session \<Rightarrow>
             (case opcode_lookup (re_table env) opcode of
                Inl e \<Rightarrow> (Inl e, s)
              | Inr None \<Rightarrow> (Inr RdhError, s)
              | Inr (Some handler) \<Rightarrow> (Inr RdhOk, ds_emit (SessionQueuePacket session packet) s))))"

definition ReadDataHandler ::
  "read_env \<Rightarrow> discord_socket \<Rightarrow> (ReadDataHandlerResult \<times> discord_socket) res" where
  "ReadDataHandler env s =
     bindr (mb_peek header_length (ds_headerBuffer s)) (\<lambda>bs.
       let opcode = ch_cmd (header_of_bytes (re_host env) bs);
           (packet, packetBuffer) = DiscordPacket_of_MessageBuffer opcode (ds_packetBuffer s);
           (r, s') = handle_packet env packet (s\<lparr>ds_packetBuffer := packetBuffer\<rparr>)
       in bindr r (\<lambda>result. Inr (result, s')))"

text \<open>The header is converted in place, and the packet buffer is resized to the payload.\<close>

definition set_header :: "endian \<Rightarrow> client_header \<Rightarrow> message_buffer \<Rightarrow> message_buffer res" where
  "set_header h hdr m =
     bindr (mem_write ''DiscordClientPktHeader'' (mb_rpos m) (bytes_of_header h hdr) (mb_storage m))
       (\<lambda>st. Inr (m\<lparr>mb_storage := st\<rparr>))"

definition ReadHeaderHandler :: "endian \<Rightarrow> discord_socket \<Rightarrow> (bool \<times> discord_socket) res" where
  "ReadHeaderHandler h s =
     (if mb_GetActiveSize (ds_headerBuffer s) \<noteq> header_length
      then Inl (AssertFailure ''_headerBuffer.GetActiveSize() == sizeof(DiscordClientPktHeader)'')
      else
        bindr (mb_peek header_length (ds_headerBuffer s)) (\<lambda>bs.
          let raw = header_of_bytes h bs;
              header = \<lparr>ch_size = EndianConvertReverse h (ch_size raw), ch_cmd = EndianConvert h (ch_cmd raw)\<rparr>
          in if \<not> IsValidSize header \<or> \<not> IsValidOpcode header
             then bindr (set_header h header (ds_headerBuffer s)) (\<lambda>m. Inr (False, s\<lparr>ds_headerBuffer := m\<rparr>))
             else
               (let header' = header\<lparr>ch_size := ch_size header - 2\<rparr>
                in bindr (set_header h header' (ds_headerBuffer s)) (\<lambda>m.
                     Inr (True, s\<lparr>ds_headerBuffer := m,
                       ds_packetBuffer := mb_Resize (unat (ch_size header')) (ds_packetBuffer s)\<rparr>)))))"

text \<open>The middle of the loop of \<open>ReadHandler\<close>: as much of the read buffer as fits goes into a buffer.\<close>

definition fill_buffer ::
  "message_buffer \<Rightarrow> message_buffer \<Rightarrow> (message_buffer \<times> message_buffer) res" where
  "fill_buffer packet target =
     (let n = min (mb_GetActiveSize packet) (mb_GetRemainingSpace target)
      in bindr (mb_peek n packet) (\<lambda>bs.
         bindr (mb_Write bs target) (\<lambda>t. Inr (mb_ReadCompleted n packet, t))))"

datatype loop_step = LoopContinue | LoopBreak | LoopReturn

text \<open>After \<open>ReadDataHandler\<close>.\<close>

definition finish_packet :: "ReadDataHandlerResult \<Rightarrow> discord_socket \<Rightarrow> loop_step \<times> discord_socket" where
  "finish_packet result s =
     (let s' = s\<lparr>ds_headerBuffer := mb_Reset (ds_headerBuffer s)\<rparr> in
      if result \<noteq> RdhOk
      then (LoopReturn, if result \<noteq> RdhWaitingForQuery then CloseSocket ds_OnClose s' else s')
      else (LoopContinue, s'))"

text \<open>From the payload on.\<close>

definition read_payload :: "read_env \<Rightarrow> discord_socket \<Rightarrow> (loop_step \<times> discord_socket) res" where
  "read_payload env s =
     bindr (if mb_HasRemainingSpace (ds_packetBuffer s)
            then bindr (fill_buffer (sk_readBuffer s) (ds_packetBuffer s))
                   (\<lambda>(r, p). Inr (s\<lparr>sk_readBuffer := r, ds_packetBuffer := p\<rparr>))
            else Inr s)
       (\<lambda>s1. if mb_HasRemainingSpace (ds_packetBuffer s1)
             then (if mb_HasActiveSize (sk_readBuffer s1) then Inl (AssertFailure ''!packet.HasActiveSize()'')
                   else Inr (LoopBreak, s1))
             else
               bindr (ReadDataHandler env s1) (\<lambda>(result, s2). Inr (finish_packet result s2)))"

definition read_iteration :: "read_env \<Rightarrow> discord_socket \<Rightarrow> (loop_step \<times> discord_socket) res" where
  "read_iteration env s =
     (if mb_HasRemainingSpace (ds_headerBuffer s) then
        bindr (fill_buffer (sk_readBuffer s) (ds_headerBuffer s)) (\<lambda>(r, hb).
          let s1 = s\<lparr>sk_readBuffer := r, ds_headerBuffer := hb\<rparr> in
          if mb_HasRemainingSpace (ds_headerBuffer s1)
          then (if mb_HasActiveSize (sk_readBuffer s1) then Inl (AssertFailure ''!packet.HasActiveSize()'')
                else Inr (LoopBreak, s1))
          else
            bindr (ReadHeaderHandler (re_host env) s1) (\<lambda>(ok, s2).
              if \<not> ok then Inr (LoopReturn, CloseSocket ds_OnClose s2)
              else read_payload env s2))
      else read_payload env s)"

partial_function (option) read_loop ::
  "read_env \<Rightarrow> discord_socket \<Rightarrow> (loop_step \<times> discord_socket) res option" where
  "read_loop env s =
     (if mb_GetActiveSize (sk_readBuffer s) > 0 then
        (case read_iteration env s of
           Inl e \<Rightarrow> Some (Inl e)
         | Inr (LoopContinue, s') \<Rightarrow> read_loop env s'
         | Inr (LoopBreak, s') \<Rightarrow> Some (Inr (LoopBreak, s'))
         | Inr (LoopReturn, s') \<Rightarrow> Some (Inr (LoopReturn, s')))
      else Some (Inr (LoopBreak, s)))"

definition ds_ReadHandler :: "read_env \<Rightarrow> discord_socket \<Rightarrow> discord_socket res option" where
  "ds_ReadHandler env s =
     (if \<not> sk_IsOpen s then Some (Inr s)
      else
        map_option (\<lambda>r. bindr r (\<lambda>(step, s'). if step = LoopReturn then Inr s' else AsyncRead s'))
          (read_loop env s))"

section \<open>Authentication\<close>

text \<open>What the callbacks take from outside: the conversion of a text to a floating-point number (\<open>ae_double\<close>, as in \<open>QueryResults\<close>),
  the time, the state of \<open>Discord\<close>, the hash SHA-1, and the location record of the peer's address.\<close>

record auth_env =
  ae_host :: endian
  ae_double :: "field \<Rightarrow> int"
  ae_gameTime :: int
  ae_discordClosed :: bool
  ae_SHA1 :: "uint8 list \<Rightarrow> uint8 list"
  ae_location :: "string option"

definition toupper :: "uint8 \<Rightarrow> uint8" where
  "toupper c = (if 97 \<le> c \<and> c \<le> 122 then c - 32 else c)"

definition CheckKey :: "auth_env \<Rightarrow> account_info \<Rightarrow> string \<Rightarrow> string \<Rightarrow> bool res" where
  "CheckKey env account accountName key =
     (let safeAccount = snd (Utf8ToUpperOnlyLatin (map toupper (bytes_of accountName)));
          safeKey = map toupper (snd (Utf8ToUpperOnlyLatin (bytes_of key)))
      in CheckLogin (ae_SHA1 env) safeAccount safeKey (ai_Salt account) (ai_Verifier account))"

text \<open>An error answer followed by the delayed close.\<close>

definition reject_client ::
  "endian \<Rightarrow> DiscordAuthResponseCodes \<Rightarrow> discord_socket \<Rightarrow> discord_socket res" where
  "reject_client h code s = bindr (SendAuthResponseError h code s) (\<lambda>s'. Inr (DelayedCloseSocket s'))"

text \<open>The rows are pairs (banned, permanently banned).\<close>

fun check_ip_rows :: "endian \<Rightarrow> (uint64 \<times> uint64) list \<Rightarrow> discord_socket \<Rightarrow> discord_socket res" where
  "check_ip_rows h [] s = AsyncRead s"
| "check_ip_rows h ((isBanned, isPermanentlyBanned) # rows) s =
     (if isPermanentlyBanned \<noteq> 0 then reject_client h BannedPermanentlyIP s
      else if isBanned \<noteq> 0 then reject_client h BannedIP s
      else check_ip_rows h rows s)"

definition CheckIpCallback ::
  "endian \<Rightarrow> (uint64 \<times> uint64) list option \<Rightarrow> discord_socket \<Rightarrow> discord_socket res" where
  "CheckIpCallback h result s =
     (case result of None \<Rightarrow> AsyncRead s | Some rows \<Rightarrow> check_ip_rows h rows s)"

text \<open>The result of the query is the fields of its row, and the account is read from them; a reading that fails ends the callback.\<close>

definition HandleAuthSessionCallback ::
  "auth_env \<Rightarrow> auth_session \<Rightarrow> field list option \<Rightarrow> discord_socket \<Rightarrow> discord_socket res" where
  "HandleAuthSessionCallback env authSession result s =
     (let h = ae_host env in
      case result of
        None \<Rightarrow> reject_client h UnknownAccount s
      | Some fs \<Rightarrow>
          bindr (AccountInfo_new h (ae_double env) (ae_gameTime env) fs) (\<lambda>account.
           if ai_IsPermanentlyBanned account then
             bindr (reject_client h BannedPermanentlyAccount s)
               (\<lambda>s'. Inr (ds_emit (BanMgrAddAccount (as_Account authSession) 0 (ai_BanDate account)) s'))
           else if ai_IsBanned account then
             bindr (reject_client h BannedAccount s)
               (\<lambda>s'. Inr (ds_emit (BanMgrAddAccount (as_Account authSession)
                  (ai_UnBanDate account - ae_gameTime env) (ai_BanDate account)) s'))
           else if ae_discordClosed env then reject_client h ServerOffline s
           else bindr (CheckKey env account (as_Account authSession) (as_Key authSession)) (\<lambda>keyOk.
             if \<not> keyOk then reject_client h IncorrectKey s
             else
               (let s1 = (case ae_location env of None \<Rightarrow> s | Some c \<Rightarrow> s\<lparr>ds_ipCountry := c\<rparr>)
                in Inr (ds_emit (BotCheckBotInGuild (ai_GuildID account)) s1)))))"

text \<open>The two continuations the bot calls, with the account they capture.\<close>

definition auth_bot_callback :: "endian \<Rightarrow> account_info \<Rightarrow> bool \<Rightarrow> discord_socket \<Rightarrow> discord_socket res" where
  "auth_bot_callback h account isExist s =
     (if \<not> isExist then reject_client h BotNotFound s
      else Inr (ds_emit (BotCheckChannels (ai_GuildID account)) s))"

definition auth_channels_callback ::
  "endian \<Rightarrow> auth_session \<Rightarrow> account_info \<Rightarrow> int64 list \<Rightarrow> discord_socket \<Rightarrow> discord_socket res" where
  "auth_channels_callback h authSession account channelList s =
     (if channelList = [] then reject_client h ChannelsNotFound s
      else if length channelList \<noteq> DEFAULT_CHANNELS_COUNT then reject_client h ChannelsIncorrect s
      else
        AsyncRead (ds_emit (DiscordAddSession (ai_ID account) (ai_GuildID account) (as_Account authSession) channelList)
          (s\<lparr>ds_authed := True, ds_discordSession := Some (ai_ID account)\<rparr>)))"

section \<open>Update\<close>

datatype query_answer = IpInfoAnswer "(uint64 \<times> uint64) list option" | AccountInfoAnswer "field list option"

text \<open>\<open>InvokeIfReady\<close> of the two callbacks; \<open>answers\<close> says which results have arrived.\<close>

fun invoke_query :: "auth_env \<Rightarrow> socket_query \<Rightarrow> query_answer \<Rightarrow> discord_socket \<Rightarrow> discord_socket res" where
  "invoke_query env IpInfoQuery (IpInfoAnswer rows) s = CheckIpCallback (ae_host env) rows s"
| "invoke_query env (AccountInfoQuery a) (AccountInfoAnswer row) s = HandleAuthSessionCallback env a row s"
| "invoke_query env _ _ s = Inr s"

fun invoke_ready ::
  "auth_env \<Rightarrow> (socket_query \<Rightarrow> query_answer option) \<Rightarrow> socket_query list \<Rightarrow> discord_socket \<Rightarrow>
   (socket_query list \<times> discord_socket) res" where
  "invoke_ready env answers [] s = Inr ([], s)"
| "invoke_ready env answers (q # qs) s =
     (case answers q of
        None \<Rightarrow> bindr (invoke_ready env answers qs s) (\<lambda>(waiting, s'). Inr (q # waiting, s'))
      | Some a \<Rightarrow> bindr (invoke_query env q a s) (invoke_ready env answers qs))"

definition ds_ProcessReadyCallbacks ::
  "auth_env \<Rightarrow> (socket_query \<Rightarrow> query_answer option) \<Rightarrow> discord_socket \<Rightarrow> discord_socket res" where
  "ds_ProcessReadyCallbacks env answers s =
     (if ds_queryProcessor s = [] then Inr s
      else
        bindr (invoke_ready env answers (ds_queryProcessor s) (s\<lparr>ds_queryProcessor := []\<rparr>))
          (\<lambda>(waiting, s'). Inr (s'\<lparr>ds_queryProcessor := ds_queryProcessor s' @ waiting\<rparr>)))"

definition ds_Update ::
  "auth_env \<Rightarrow> (nat \<Rightarrow> write_result) \<Rightarrow> (socket_query \<Rightarrow> query_answer option) \<Rightarrow> discord_socket \<Rightarrow>
   (bool \<times> discord_socket) res option" where
  "ds_Update env wenv answers s =
     (case Socket_Update ds_OnClose wenv s of
        None \<Rightarrow> None
      | Some (False, s1) \<Rightarrow> Some (Inr (False, s1))
      | Some (True, s1) \<Rightarrow>
          Some (bindr (send_queued s1) (\<lambda>s2.
                bindr (ds_ProcessReadyCallbacks env answers s2) (\<lambda>s3. Inr (True, s3)))))"

section \<open>The socket as a derived class\<close>

interpretation discord_close: close_hook ds_OnClose
  by unfold_locales (simp_all add: ds_OnClose_def)

section \<open>The bytes of outgoing packets\<close>

definition packet_wire :: "discord_packet \<Rightarrow> uint8 list" where
  "packet_wire p = DiscordServerPktHeader (word_of_nat (bb_size (dp_buf p) + 2)) (dp_opcode p) @ bb_storage (dp_buf p)"

lemma length_server_header [simp]: "length (DiscordServerPktHeader sz cmd) = header_length"
  by (simp add: server_header_bytes header_length_def)

lemma length_packet_wire [simp]: "length (packet_wire p) = bb_size (dp_buf p) + header_length"
  by (simp add: packet_wire_def)

lemma write_packet_ok:
  assumes "mb_inv m" "length (packet_wire p) \<le> mb_GetRemainingSpace m"
  shows "\<exists>m'. write_packet p m = Inr m' \<and> mb_inv m' \<and> mb_active m' = mb_active m @ packet_wire p
     \<and> mb_GetRemainingSpace m' = mb_GetRemainingSpace m - length (packet_wire p)
     \<and> length (mb_storage m') = length (mb_storage m)"
proof -
  let ?h = "DiscordServerPktHeader (word_of_nat (bb_size (dp_buf p) + 2)) (dp_opcode p)"
  have h: "length ?h = header_length" by simp
  from mb_Write_ok [OF assms(1), of ?h] assms(2) h obtain m1 where
    m1: "mb_Write ?h m = Inr m1" "mb_inv m1" "mb_active m1 = mb_active m @ ?h" "mb_wpos m1 = mb_wpos m + header_length"
      "length (mb_storage m1) = length (mb_storage m)" by auto
  have r: "mb_GetRemainingSpace m1 = mb_GetRemainingSpace m - header_length" using m1 assms(1) by simp
  show ?thesis
  proof (cases "bb_storage (dp_buf p) = []")
    case True
    with m1 r show ?thesis by (simp add: write_packet_def packet_wire_def Let_def h del: mb_remaining)
  next
    case False
    have "bb_size (dp_buf p) \<le> mb_GetRemainingSpace m1" using assms(2) r by simp
    from mb_Write_ok [OF m1(2) this] obtain m2 where
      m2: "mb_Write (bb_storage (dp_buf p)) m1 = Inr m2" "mb_inv m2" "mb_active m2 = mb_active m1 @ bb_storage (dp_buf p)"
        "mb_wpos m2 = mb_wpos m1 + bb_size (dp_buf p)" "length (mb_storage m2) = length (mb_storage m1)" by auto
    with False m1 assms(1) show ?thesis
      by (simp add: write_packet_def packet_wire_def bb_contents_def Let_def h)
  qed
qed

lemma write_packet_alone:
  assumes "length (packet_wire p) < 2 ^ 60"
  shows "\<exists>m. write_packet p (MessageBuffer_sized (length (packet_wire p))) = Inr m \<and> mb_inv m \<and> mb_active m = packet_wire p"
proof -
  have "mb_inv (MessageBuffer_sized (length (packet_wire p)))" using assms by simp
  moreover from this have "mb_GetRemainingSpace (MessageBuffer_sized (length (packet_wire p))) = length (packet_wire p)"
    by (simp add: MessageBuffer_sized_def)
  ultimately show ?thesis using write_packet_ok [of "MessageBuffer_sized (length (packet_wire p))" p] by auto
qed

lemma send_loop_fits:
  "mb_inv m \<Longrightarrow> length (concat (map packet_wire ps)) \<le> mb_GetRemainingSpace m \<Longrightarrow>
     \<exists>m'. send_loop ps m s = Inr (m', s\<lparr>ds_bufferQueue := []\<rparr>) \<and> mb_inv m' \<and> mb_active m' = mb_active m @ concat (map packet_wire ps)"
proof (induction ps arbitrary: m)
  case (Cons p ps)
  then have "length (packet_wire p) \<le> mb_GetRemainingSpace m" by simp
  from write_packet_ok [OF Cons.prems(1) this] obtain m1 where
    m1: "write_packet p m = Inr m1" "mb_inv m1" "mb_active m1 = mb_active m @ packet_wire p"
      "mb_GetRemainingSpace m1 = mb_GetRemainingSpace m - length (packet_wire p)" by auto
  have "send_one p m s = Inr (m1, s)" using Cons.prems(2) m1(1) by (simp add: send_one_def Let_def)
  moreover have "length (concat (map packet_wire ps)) \<le> mb_GetRemainingSpace m1" using Cons.prems(2) m1(4) by simp
  ultimately show ?case using Cons.IH [OF m1(2)] m1(3) by auto
qed simp

lemma unsent_queue [simp]: "sk_unsent (sk_QueuePacket m s) = sk_unsent s @ mb_active m"
  by (simp add: sk_unsent_def sk_QueuePacket_def)

lemma unsent_update [simp]: "sk_unsent (s\<lparr>ds_bufferQueue := q\<rparr>) = sk_unsent s"
  by (simp add: sk_unsent_def)

section \<open>Properties\<close>

text \<open>
  C32. Outgoing packets that fit into one send buffer: \<open>Update\<close> takes the whole queue and what is then
  to be written grows by exactly the packets, header and contents, in the order they were sent.
\<close>

theorem send_in_order:
  assumes "length (concat (map packet_wire (ds_bufferQueue s))) \<le> ds_sendBufferSize s" "ds_sendBufferSize s < 2 ^ 60"
  shows "\<exists>s'. send_queued s = Inr s' \<and> ds_bufferQueue s' = []
    \<and> sk_unsent s' = sk_unsent s @ concat (map packet_wire (ds_bufferQueue s))"
proof -
  let ?m = "MessageBuffer_sized (ds_sendBufferSize s)"
  have i: "mb_inv ?m" using assms(2) by simp
  have "mb_GetRemainingSpace ?m = ds_sendBufferSize s" using i by (simp add: MessageBuffer_sized_def)
  with send_loop_fits [OF i, of "ds_bufferQueue s" s] assms(1) obtain m' where
    "send_loop (ds_bufferQueue s) ?m s = Inr (m', s\<lparr>ds_bufferQueue := []\<rparr>)" "mb_inv m'"
    "mb_active m' = concat (map packet_wire (ds_bufferQueue s))" by auto
  then show ?thesis by (auto simp: send_queued_def sk_QueuePacket_def sk_unsent_def)
qed

theorem send_in_order_witness:
  "\<exists>s'. send_queued (DiscordSocket_new\<lparr>ds_bufferQueue := [DiscordPacket_new 7, DiscordPacket_new 6]\<rparr>) = Inr s'
     \<and> sk_unsent s' = [0, 0, 0, 2, 7, 0, 0, 0, 0, 2, 6, 0]"
proof -
  let ?s = "DiscordSocket_new\<lparr>ds_bufferQueue := [DiscordPacket_new 7, DiscordPacket_new 6]\<rparr>"
  have "concat (map packet_wire [DiscordPacket_new 7, DiscordPacket_new 6]) = [0, 0, 0, 2, 7, 0, 0, 0, 0, 2, 6, 0]"
    by code_simp
  then have w: "concat (map packet_wire (ds_bufferQueue ?s)) = [0, 0, 0, 2, 7, 0, 0, 0, 0, 2, 6, 0]" by simp
  have "ds_sendBufferSize ?s = 4096" "sk_unsent ?s = []"
    by (simp_all add: DiscordSocket_new_def READ_BLOCK_SIZE_def sk_unsent_def)
  with send_in_order [of ?s] w show ?thesis
    by (auto simp: header_length_def DiscordPacket_new_def ByteBuffer_new_def)
qed

text \<open>
  A second packet that no longer fits into the send buffer: the full buffer is queued, but its
  positions are not reset, so the first packet is put on the wire a second time, behind the second.
\<close>

theorem send_resends:
  assumes "ds_bufferQueue s = [p, q]" "length (packet_wire p) \<le> ds_sendBufferSize s"
    and "ds_sendBufferSize s < length (packet_wire p) + length (packet_wire q)"
    and "ds_sendBufferSize s < 2 ^ 60" "length (packet_wire q) < 2 ^ 60"
  shows "\<exists>s'. send_queued s = Inr s' \<and> sk_unsent s' = sk_unsent s @ packet_wire p @ packet_wire q @ packet_wire p"
proof -
  let ?m = "MessageBuffer_sized (ds_sendBufferSize s)"
  have i: "mb_inv ?m" using assms(4) by simp
  have n: "mb_GetRemainingSpace ?m = ds_sendBufferSize s" using i by (simp add: MessageBuffer_sized_def)
  from write_packet_ok [OF i, of p] assms(2) n obtain m1 where
    m1: "write_packet p ?m = Inr m1" "mb_inv m1" "mb_active m1 = packet_wire p"
      "mb_GetRemainingSpace m1 = ds_sendBufferSize s - length (packet_wire p)"
      "length (mb_storage m1) = length (mb_storage ?m)" by auto
  have sz: "length (mb_storage m1) = ds_sendBufferSize s" using m1(5) by (simp add: MessageBuffer_sized_def)
  have e: "mb_Resize (ds_sendBufferSize s) m1 = m1" using sz by (simp add: mb_Resize_def flip: sz)
  have one: "send_one p ?m s = Inr (m1, s)" using n m1(1) assms(2) by (simp add: send_one_def Let_def)
  have lt: "mb_GetRemainingSpace m1 < bb_size (dp_buf q) + header_length" using m1(4) assms(2,3) by simp
  from write_packet_alone [OF assms(5)] obtain m2 where
    m2: "write_packet q (MessageBuffer_sized (bb_size (dp_buf q) + header_length)) = Inr m2" "mb_active m2 = packet_wire q" by auto
  have two: "send_one q m1 s = Inr (m1, sk_QueuePacket m2 (sk_QueuePacket m1 s))"
    using lt m2(1) by (simp add: send_one_def Let_def e)
  have "0 < length (packet_wire p)" by (simp add: header_length_def)
  then have "mb_GetActiveSize m1 > 0" using m1(2,3) by (simp del: length_packet_wire)
  with one two m1(3) m2(2) show ?thesis by (simp add: send_queued_def assms(1))
qed

theorem send_resends_witness:
  "\<exists>s'. send_queued (DiscordSocket_new\<lparr>ds_sendBufferSize := 8, ds_bufferQueue := [DiscordPacket_new 7, DiscordPacket_new 6]\<rparr>) = Inr s'
     \<and> sk_unsent s' = [0, 0, 0, 2, 7, 0, 0, 0, 0, 2, 6, 0, 0, 0, 0, 2, 7, 0]"
proof -
  let ?s = "DiscordSocket_new\<lparr>ds_sendBufferSize := 8, ds_bufferQueue := [DiscordPacket_new 7, DiscordPacket_new 6]\<rparr>"
  have w: "packet_wire (DiscordPacket_new 7) = [0, 0, 0, 2, 7, 0]" "packet_wire (DiscordPacket_new 6) = [0, 0, 0, 2, 6, 0]"
    by code_simp+
  have "sk_unsent ?s = []" by (simp add: DiscordSocket_new_def sk_unsent_def)
  with send_resends [of ?s "DiscordPacket_new 7" "DiscordPacket_new 6"] w show ?thesis
    by (simp del: length_packet_wire)
qed

text \<open>
  C31. What was queued goes out in order: as long as \<open>write_some\<close> does not fail, the bytes sent
  followed by the bytes still queued are the same before and after any number of partial writes in
  \<open>Update\<close>, and the loop of \<open>Update\<close> returns.
\<close>

theorem update_conserves_bytes:
  assumes "sk_queue_ok s" "\<forall>i. env i \<noteq> WriteError \<and> env i \<noteq> Wrote 0"
  shows "\<exists>b s'. Socket_Update ds_OnClose env s = Some (b, s') \<and> sk_sent s' @ sk_unsent s' = sk_sent s @ sk_unsent s"
proof -
  obtain b s' where u: "Socket_Update ds_OnClose env s = Some (b, s')"
    using discord_close.Socket_Update_returns [of env s] by auto
  with discord_close.Update_conserves [OF u assms] show ?thesis by blast
qed

theorem update_conserves_bytes_witness:
  "\<exists>b s'. Socket_Update ds_OnClose (\<lambda>i. if i = 0 then Wrote 1 else WouldBlock)
       (DiscordSocket_new\<lparr>sk_writeQueue := [\<lparr>mb_wpos = 2, mb_rpos = 0, mb_storage = [8, 9]\<rparr>]\<rparr>) = Some (b, s')
     \<and> sk_sent s' @ sk_unsent s' = [8, 9]"
  using update_conserves_bytes [of "DiscordSocket_new\<lparr>sk_writeQueue := [\<lparr>mb_wpos = 2, mb_rpos = 0, mb_storage = [8, 9]\<rparr>]\<rparr>"
      "\<lambda>i. if i = 0 then Wrote 1 else WouldBlock"]
  by (simp add: sk_queue_ok_def sk_unsent_def mb_inv_def mb_active_def DiscordSocket_new_def)



definition auth_packet :: "DiscordAuthResponseCodes \<Rightarrow> discord_packet" where
  "auth_packet code = \<lparr>dp_opcode = code_value SERVER_SEND_AUTH_RESPONSE,
     dp_buf = \<lparr>bb_rpos = 0, bb_wpos = 1, bb_storage = [auth_code_value code]\<rparr>\<rparr>"

text \<open>Who may log in: an account without a ban, with the right key, while the server is open.\<close>

definition may_enter :: "auth_env \<Rightarrow> auth_session \<Rightarrow> account_row option \<Rightarrow> bool" where
  "may_enter env a result \<longleftrightarrow> (\<exists>row. result = Some row
     \<and> ar_bandate row = None \<and> ar_unbandate row = None \<and> \<not> ae_discordClosed env
     \<and> CheckKey env (account_of row) (as_Account a) (as_Key a) = Inr True)"

text \<open>The two outcomes for the client: it is answered with a code and refused, or the bot is asked about its guild.\<close>

definition refused :: "DiscordAuthResponseCodes \<Rightarrow> socket_event list \<Rightarrow> discord_socket \<Rightarrow> discord_socket" where
  "refused code ban s = s\<lparr>ds_bufferQueue := ds_bufferQueue s @ [auth_packet code], sk_closing := True, ds_events := ds_events s @ ban\<rparr>"

definition goes_on :: "string option \<Rightarrow> uint64 \<Rightarrow> discord_socket \<Rightarrow> discord_socket" where
  "goes_on location g s = s\<lparr>ds_events := ds_events s @ [BotCheckBotInGuild g], ds_ipCountry := (case location of None \<Rightarrow> ds_ipCountry s | Some c \<Rightarrow> c)\<rparr>"

lemma CheckKey_eq: "CheckKey env acc n k = Inr (CheckKey env acc n k = Inr True)"
  by (simp add: CheckKey_def CheckLogin_def CalculateVerifier_eq Let_def)

lemma reject_client_eq:
  "sk_IsOpen s \<Longrightarrow> reject_client h code s = Inr (s\<lparr>ds_bufferQueue := ds_bufferQueue s @ [auth_packet code], sk_closing := True\<rparr>)"
  by (simp add: reject_client_def SendAuthResponseError_def shift_ops DiscordPacket_new_def auth_packet_def
      word_put_extends bb_writing_def ByteBuffer_new_def bb_extend_def ds_SendPacket_def DelayedCloseSocket_def)

text \<open>
  The decision over the account that was read, with the dates of a ban: a permanent ban has one date for both, and a timed ban counts when
  its end lies in the past.
\<close>

lemma auth_callback_account:
  assumes "sk_IsOpen s" "AccountInfo_new (ae_host env) (ae_double env) (ae_gameTime env) fs = Inr acc"
  shows "HandleAuthSessionCallback env a (Some fs) s = Inr (
    if 0 < ai_BanDate acc \<and> ai_BanDate acc = ai_UnBanDate acc
    then refused BannedPermanentlyAccount [BanMgrAddAccount (as_Account a) 0 (ai_BanDate acc)] s
    else if 0 < ai_UnBanDate acc \<and> ai_UnBanDate acc < ae_gameTime env
    then refused BannedAccount [BanMgrAddAccount (as_Account a) (ai_UnBanDate acc - ae_gameTime env) (ai_BanDate acc)] s
    else if ae_discordClosed env then refused ServerOffline [] s
    else if CheckKey env acc (as_Account a) (as_Key a) \<noteq> Inr True then refused IncorrectKey [] s
    else goes_on (ae_location env) (ai_GuildID acc) s)"
proof -
  have flags: "ai_IsPermanentlyBanned acc \<longleftrightarrow> 0 < ai_BanDate acc \<and> ai_BanDate acc = ai_UnBanDate acc"
      "ai_IsBanned acc \<longleftrightarrow> 0 < ai_UnBanDate acc \<and> ai_UnBanDate acc < ae_gameTime env"
    using account_flags [OF assms(2)] by simp_all
  obtain ok where ok: "CheckKey env acc (as_Account a) (as_Key a) = Inr ok" using CheckKey_eq by blast
  show ?thesis unfolding flags [symmetric]
    by (simp add: HandleAuthSessionCallback_def reject_client_eq [OF assms(1)] assms(2) ok refused_def goes_on_def ds_emit_def Let_def split: option.split)
qed

text \<open>The decision over the row that is stored.\<close>

lemma auth_callback_row:
  assumes "sk_IsOpen s" "account_valid (ae_host env) row"
  shows "\<exists>fs. account_result (ae_host env) time_size garbage row = Inr fs \<and> HandleAuthSessionCallback env a (Some fs) s =
    (if ar_bandate row \<noteq> None then Inl (UndefinedAccess ''data.value'')
     else Inr (if may_enter env a (Some row) then goes_on (ae_location env) (ar_GuildID row) s
       else refused (if ae_discordClosed env then ServerOffline else IncorrectKey) [] s))"
proof -
  obtain fs where fs: "account_result (ae_host env) time_size garbage row = Inr fs"
      "AccountInfo_new (ae_host env) (ae_double env) (ae_gameTime env) fs =
        (if ar_bandate row = None then Inr (account_of row) else Inl (UndefinedAccess ''data.value''))"
    using AccountInfo_row [OF assms(2)] by blast
  have both: "ar_bandate row = None \<longleftrightarrow> ar_unbandate row = None" using assms(2) by (simp add: account_valid_def)
  show ?thesis
  proof (cases "ar_bandate row = None")
    case True
    then have "AccountInfo_new (ae_host env) (ae_double env) (ae_gameTime env) fs = Inr (account_of row)" using fs(2) by simp
    from auth_callback_account [OF assms(1) this, of a] show ?thesis using fs(1) True both by (simp add: may_enter_def) (simp add: account_of_def)
  next
    case False
    then have "AccountInfo_new (ae_host env) (ae_double env) (ae_gameTime env) fs = Inl (UndefinedAccess ''data.value'')" using fs(2) by simp
    then show ?thesis using fs(1) False by (intro exI [of _ fs]) (simp add: HandleAuthSessionCallback_def)
  qed
qed

text \<open>A row that may enter passes the callback.\<close>

definition passes_gate :: "auth_env \<Rightarrow> auth_session \<Rightarrow> account_row \<Rightarrow> bool" where
  "passes_gate env a row \<longleftrightarrow> (\<forall>s time_size garbage. sk_IsOpen s \<and> account_valid (ae_host env) row \<longrightarrow>
     (\<exists>fs. account_result (ae_host env) time_size garbage row = Inr fs \<and>
       HandleAuthSessionCallback env a (Some fs) s = Inr (goes_on (ae_location env) (ar_GuildID row) s)))"

lemma may_enter_passes: "may_enter env a (Some row) \<Longrightarrow> passes_gate env a row"
  unfolding passes_gate_def
proof (intro allI impI)
  fix s :: discord_socket and time_size garbage
  assume enter: "may_enter env a (Some row)" and open_s: "sk_IsOpen s \<and> account_valid (ae_host env) row"
  then have "ar_bandate row = None" by (simp add: may_enter_def)
  then show "\<exists>fs. account_result (ae_host env) time_size garbage row = Inr fs \<and>
      HandleAuthSessionCallback env a (Some fs) s = Inr (goes_on (ae_location env) (ar_GuildID row) s)"
    using auth_callback_row [of s env row time_size garbage a] enter open_s by simp
qed


text \<open>Fields with columns as wide as the types that read them, and an account with dates.\<close>

definition wide_field :: "uint8 list \<Rightarrow> field" where
  "wide_field bs = \<lparr>fl_value = Some (bs, 0), fl_length = length bs, fl_raw = True,
     fl_meta = \<lparr>fm_TableName = [], fm_TableAlias = [], fm_Name = [], fm_Alias = [], fm_TypeName = [], fm_Index = 0, fm_Type = FtInt64\<rparr>\<rparr>"

definition wide_account :: "int \<Rightarrow> int \<Rightarrow> field list" where
  "wide_account b u = (let number = (\<lambda>n v. wide_field (int_bytes WARHEAD_LITTLEENDIAN n v)) in
     [number 4 4, wide_field (replicate 32 7), wide_field (nat_bytes 32 1), number 8 9, wide_field [], wide_field [], wide_field [],
      number 4 1, number 8 b, number 8 u])"

lemma wide_number:
  assumes "type_ok T" "in_type T v"
  shows "GetData h dbl T (wide_field (int_bytes h (num_bytes T) v)) = Some (Inr v)"
proof -
  have "GetCleanAliasName [] = None" by code_simp
  then have "GetData h dbl T (wide_field (int_bytes h (num_bytes T) v)) = Some (read_raw h T (int_bytes h (num_bytes T) v, 0))"
    by (intro GetData_plain) (simp_all add: wide_field_def reads_plain_def)
  also have "read_raw h T (int_bytes h (num_bytes T) v, 0) = Inr v"
    by (intro read_raw_place assms) (simp add: place_holds_def)
  finally show ?thesis .
qed

lemma wide_account_read:
  assumes "in_type (type_int False 64) b" "in_type (type_int False 64) u"
  shows "\<exists>acc. AccountInfo_new WARHEAD_LITTLEENDIAN dbl now (wide_account b u) = Inr acc \<and> ai_BanDate acc = b \<and> ai_UnBanDate acc = u \<and>
    ai_GuildID acc = 9 \<and> ai_Verifier acc = nat_bytes 32 1"
proof -
  have t: "in_type (type_int False 32) 4" "in_type (type_int False 32) 1" "in_type (type_int False 64) 9" by code_simp+
  note n = wide_number [where h = WARHEAD_LITTLEENDIAN and T = "type_int False 32", unfolded uint_types, OF uint_types(1)]
    wide_number [where h = WARHEAD_LITTLEENDIAN and T = "type_int False 64", unfolded uint_types, OF uint_types(2)]
  have bin: "GetBinarySizeChecked k (wide_field bs) = Inr bs" if "length bs = k" for k bs
    using that by (simp add: GetBinarySizeChecked_def wide_field_def mem_read_def)
  have str: "GetDataString (wide_field []) = Inr []" by (simp add: GetDataString_def wide_field_def mem_read_def)
  have null: "\<not> fl_IsNull (wide_field bs)" for bs by (simp add: fl_IsNull_def wide_field_def)
  show ?thesis
    by (simp add: AccountInfo_new_def wide_account_def n t assms bin str null read_date_def Get_duration_uint64 returned_def SALT_LENGTH_def VERIFIER_LENGTH_def)
qed

definition gate_env :: "int \<Rightarrow> auth_env" where
  "gate_env now = \<lparr>ae_host = WARHEAD_LITTLEENDIAN, ae_double = (\<lambda>_. 0), ae_gameTime = now, ae_discordClosed = False, ae_SHA1 = (\<lambda>_. []), ae_location = None\<rparr>"

definition gate_auth :: auth_session where
  "gate_auth = \<lparr>as_Account = ''me'', as_Key = ''key'', as_CoreName = [], as_CoreVersion = [], as_ModuleVersion = 1\<rparr>"

definition gate_row :: account_row where
  "gate_row = \<lparr>ar_ID = 4, ar_Salt = replicate 32 7, ar_Verifier = nat_bytes 32 1, ar_GuildID = 9, ar_RealmName = [], ar_LastIP = [],
     ar_CoreName = [], ar_ModuleVersion = 1, ar_bandate = None, ar_unbandate = None\<rparr>"

lemma gate_key: "ai_Verifier acc = nat_bytes 32 1 \<Longrightarrow> CheckKey (gate_env now) acc (as_Account gate_auth) (as_Key gate_auth) = Inr True"
  by (simp add: CheckKey_def CheckLogin_def CalculateVerifier_eq srp6_x_def gate_env_def gate_auth_def srp6_modulus_def Let_def)

lemma gate_row_valid: "account_valid WARHEAD_LITTLEENDIAN gate_row" "account_valid WARHEAD_LITTLEENDIAN (gate_row\<lparr>ar_bandate := Some 100, ar_unbandate := Some 500\<rparr>)"
proof -
  have "0 \<in> set (int_bytes WARHEAD_LITTLEENDIAN 4 1)" by code_simp
  then show "account_valid WARHEAD_LITTLEENDIAN gate_row" "account_valid WARHEAD_LITTLEENDIAN (gate_row\<lparr>ar_bandate := Some 100, ar_unbandate := Some 500\<rparr>)"
    by (simp_all add: account_valid_def gate_row_def)
qed


section \<open>Ping flooding\<close>

fun ping_times :: "int list \<Rightarrow> discord_socket \<Rightarrow> bool list \<times> discord_socket" where
  "ping_times [] s = ([], s)"
| "ping_times (t # ts) s =
     (let (kick, s1) = ping_speed t s; (kicks, s2) = ping_times ts s1 in (kick # kicks, s2))"

fun fast_pings :: "int \<Rightarrow> int list \<Rightarrow> bool" where
  "fast_pings t0 [] \<longleftrightarrow> True"
| "fast_pings t0 (t # ts) \<longleftrightarrow> t0 < t \<and> t < t0 + 10000000000 \<and> fast_pings t ts"

lemma fast_pings_count:
  "ds_discordSession s \<noteq> None \<Longrightarrow> 0 < ds_LastPingTime s \<Longrightarrow> fast_pings (ds_LastPingTime s) ts \<Longrightarrow>
   unat (ds_OverSpeedPings s) + length ts < 2 ^ 32 \<Longrightarrow>
   fst (ping_times ts s) = map (\<lambda>i. 5 < unat (ds_OverSpeedPings s) + Suc i) [0..<length ts]"
proof (induction ts arbitrary: s)
  case (Cons t ts)
  define s1 where "s1 = s\<lparr>ds_LastPingTime := t, ds_OverSpeedPings := ds_OverSpeedPings s + 1\<rparr>"
  have lt: "unat (ds_OverSpeedPings s) + 1 < 2 ^ 32" using Cons.prems(4) by simp
  then have u: "unat (ds_OverSpeedPings s + 1) = Suc (unat (ds_OverSpeedPings s))"
    by (simp add: unat_word_ariths)
  have p: "ping_speed t s = (5 < Suc (unat (ds_OverSpeedPings s)), s1)"
    using Cons.prems(1-3) u by (simp add: ping_speed_def Let_def s1_def word_less_nat_alt)
  have "fst (ping_times ts s1) = map (\<lambda>i. 5 < unat (ds_OverSpeedPings s1) + Suc i) [0..<length ts]"
    using Cons.prems u by (intro Cons.IH) (simp_all add: s1_def)
  moreover have "[0..<length (t # ts)] = 0 # map Suc [0..<length ts]" by (simp add: map_Suc_upt upt_conv_Cons del: upt_Suc)
  ultimately show ?case using p u by (simp add: split_beta Let_def s1_def o_def del: upt_Suc)
qed simp

text \<open>
  Ping flooding: an authenticated client that has sent its first ping and then pings faster than
  every ten seconds is answered five times and refused from the sixth fast ping on; a ping after ten
  quiet seconds is accepted and starts the count again.
\<close>

theorem ping_flood:
  assumes "ds_discordSession s \<noteq> None" "0 < ds_LastPingTime s" "ds_OverSpeedPings s = 0" "length ts < 2 ^ 32"
    and "fast_pings (ds_LastPingTime s) ts" "ds_LastPingTime s + 10000000000 \<le> t"
  shows "fst (ping_times ts s) = map (\<lambda>i. 5 \<le> i) [0..<length ts]
    \<and> ping_speed t s = (False, s\<lparr>ds_LastPingTime := t, ds_OverSpeedPings := 0\<rparr>)"
  using fast_pings_count [of s ts] assms by (auto simp: ping_speed_def)

theorem ping_flood_witness:
  "fst (ping_times [2, 3, 4, 5, 6, 7, 8] (DiscordSocket_new\<lparr>ds_LastPingTime := 1, ds_discordSession := Some 4\<rparr>))
     = [False, False, False, False, False, True, True]"
proof -
  let ?s = "DiscordSocket_new\<lparr>ds_LastPingTime := 1, ds_discordSession := Some 4\<rparr>"
  have "ds_OverSpeedPings ?s = 0" by (simp add: DiscordSocket_new_def)
  with ping_flood [of ?s "[2, 3, 4, 5, 6, 7, 8]" 20000000000] show ?thesis
    by (simp add: upt_rec del: ping_times.simps)
qed

end
