(* ===== verification/Network.thy ===== *)
theory Network
  imports DiscordSocket Config
begin

text \<open>
  Network threads and the acceptor: \<open>NetworkThread.h\<close>, \<open>AsyncAcceptor.h\<close> and \<open>SocketMgr.h\<close> of
  \<open>src/src/shared/Network\<close>, and \<open>src/src/server/Server/DiscordSocketMgr.cpp\<close>. The class template's socket
  type is a record of its operations; a socket's \<open>Update\<close> gets its position, so that each socket
  can meet its own surroundings. The results of Boost's calls are arguments. Locks are held within
  one operation and not modelled; a step is one handler that runs to its end.
\<close>

section \<open>Network threads\<close>

record 's socket_class =
  sc_IsOpen :: "'s \<Rightarrow> bool"
  sc_CloseSocket :: "'s \<Rightarrow> 's"
  sc_Update :: "nat \<Rightarrow> 's \<Rightarrow> (bool \<times> 's) res option"
  sc_SocketRemoved :: "'s \<Rightarrow> 's"

record 's network_thread =
  nt_connections :: int
  nt_stopped :: bool
  nt_thread :: bool
  nt_sockets :: "'s list"
  nt_newSockets :: "'s list"

definition NetworkThread_new :: "'s network_thread" where
  "NetworkThread_new =
     \<lparr>nt_connections = 0, nt_stopped = False, nt_thread = False, nt_sockets = [], nt_newSockets = []\<rparr>"

definition nt_Stop :: "'s network_thread \<Rightarrow> 's network_thread" where
  "nt_Stop t = t\<lparr>nt_stopped := True\<rparr>"

definition nt_Start :: "'s network_thread \<Rightarrow> bool \<times> 's network_thread" where
  "nt_Start t = (if nt_thread t then (False, t) else (True, t\<lparr>nt_thread := True\<rparr>))"

text \<open>Joining the thread waits for the end of \<open>Run\<close>, which clears both lists.\<close>

definition nt_Wait :: "'s network_thread \<Rightarrow> 's network_thread res" where
  "nt_Wait t =
     (if \<not> nt_thread t then Inl (AssertFailure ''_thread'')
      else Inr (t\<lparr>nt_newSockets := [], nt_sockets := [], nt_thread := False\<rparr>))"

definition nt_AddSocket :: "('s \<Rightarrow> 's) \<Rightarrow> 's \<Rightarrow> 's network_thread \<Rightarrow> 's network_thread" where
  "nt_AddSocket SocketAdded sock t =
     t\<lparr>nt_connections := nt_connections t + 1, nt_newSockets := nt_newSockets t @ [SocketAdded sock]\<rparr>"

text \<open>The operations that drop sockets also return them, after what was done to them.\<close>

fun add_new_sockets :: "'s socket_class \<Rightarrow> 's list \<Rightarrow> 's network_thread \<Rightarrow> 's list \<times> 's network_thread" where
  "add_new_sockets cls [] t = ([], t)"
| "add_new_sockets cls (sock # socks) t =
     (if \<not> sc_IsOpen cls sock then
        (let (removed, t') = add_new_sockets cls socks (t\<lparr>nt_connections := nt_connections t - 1\<rparr>)
         in (sc_SocketRemoved cls sock # removed, t'))
      else add_new_sockets cls socks (t\<lparr>nt_sockets := nt_sockets t @ [sock]\<rparr>))"

definition AddNewSockets :: "'s socket_class \<Rightarrow> 's network_thread \<Rightarrow> 's list \<times> 's network_thread" where
  "AddNewSockets cls t =
     (if nt_newSockets t = [] then ([], t)
      else (let (removed, t') = add_new_sockets cls (nt_newSockets t) t in (removed, t'\<lparr>nt_newSockets := []\<rparr>)))"

text \<open>\<open>std::remove_if\<close> calls the predicate once for each socket, in order.\<close>

fun update_sockets :: "'s socket_class \<Rightarrow> nat \<Rightarrow> 's list \<Rightarrow> ('s list \<times> 's list) res option" where
  "update_sockets cls i [] = Some (Inr ([], []))"
| "update_sockets cls i (sock # socks) =
     (case sc_Update cls i sock of
        None \<Rightarrow> None
      | Some (Inl e) \<Rightarrow> Some (Inl e)
      | Some (Inr (ok, sock')) \<Rightarrow>
          (case update_sockets cls (Suc i) socks of
             None \<Rightarrow> None
           | Some (Inl e) \<Rightarrow> Some (Inl e)
           | Some (Inr (kept, removed)) \<Rightarrow>
               Some (Inr
                 (if ok then (sock' # kept, removed)
                  else (kept, sc_SocketRemoved cls (if sc_IsOpen cls sock' then sc_CloseSocket cls sock' else sock') # removed)))))"

definition nt_Update :: "'s socket_class \<Rightarrow> 's network_thread \<Rightarrow> ('s list \<times> 's network_thread) res option" where
  "nt_Update cls t =
     (if nt_stopped t then Some (Inr ([], t))
      else
        (let (removed, t1) = AddNewSockets cls t in
         case update_sockets cls 0 (nt_sockets t1) of
           None \<Rightarrow> None
         | Some (Inl e) \<Rightarrow> Some (Inl e)
         | Some (Inr (kept, removed')) \<Rightarrow>
             Some (Inr (removed @ removed',
               t1\<lparr>nt_sockets := kept, nt_connections := nt_connections t1 - int (length removed')\<rparr>))))"

section \<open>The acceptor\<close>

record acceptor =
  ac_closed :: bool
  ac_pending :: "nat option"

record bind_results =
  br_open :: bool
  br_reuse :: bool
  br_bind :: bool
  br_listen :: bool

definition Bind :: "bind_results \<Rightarrow> bool" where
  "Bind r =
     (if \<not> br_open r then False else if \<not> br_reuse r then False else if \<not> br_bind r then False
      else if \<not> br_listen r then False else True)"

definition ac_Close :: "acceptor \<Rightarrow> acceptor" where
  "ac_Close a = (if ac_closed a then a else a\<lparr>ac_closed := True\<rparr>)"

section \<open>The socket manager\<close>

record 's socket_mgr =
  sm_acceptor :: "acceptor option"
  sm_threads :: "'s network_thread list"
  sm_threadCount :: nat

definition SocketMgr_new :: "'s socket_mgr" where
  "SocketMgr_new = \<lparr>sm_acceptor = None, sm_threads = [], sm_threadCount = 0\<rparr>"

definition destroy_SocketMgr :: "'s socket_mgr \<Rightarrow> unit res" where
  "destroy_SocketMgr m =
     (if sm_threads m = [] \<and> sm_acceptor m = None \<and> sm_threadCount m = 0 then Inr ()
      else Inl (AssertFailure ''StopNetwork must be called prior to SocketMgr destruction''))"

text \<open>\<open>address_ok\<close> says that the acceptor's constructor does not throw.\<close>

definition StartNetwork :: "bool \<Rightarrow> bind_results \<Rightarrow> int \<Rightarrow> 's socket_mgr \<Rightarrow> (bool \<times> 's socket_mgr) res" where
  "StartNetwork address_ok r threadCount m =
     (if \<not> threadCount > 0 then Inl (AssertFailure ''threadCount > 0'')
      else if \<not> address_ok then Inr (False, m)
      else if \<not> Bind r then Inr (False, m)
      else
        Inr (True, \<lparr>sm_acceptor = Some \<lparr>ac_closed = False, ac_pending = None\<rparr>,
          sm_threads = map (\<lambda>t. snd (nt_Start t)) (replicate (nat threadCount) NetworkThread_new),
          sm_threadCount = nat threadCount\<rparr>))"

fun wait_all :: "'s network_thread list \<Rightarrow> 's network_thread list res" where
  "wait_all [] = Inr []"
| "wait_all (t # ts) = bindr (nt_Wait t) (\<lambda>t'. bindr (wait_all ts) (\<lambda>ts'. Inr (t' # ts')))"

definition StopNetwork :: "'s socket_mgr \<Rightarrow> 's socket_mgr res" where
  "StopNetwork m =
     (case sm_acceptor m of
        None \<Rightarrow> Inl (UndefinedAccess ''_acceptor'')
      | Some a \<Rightarrow>
          (let m1 = m\<lparr>sm_acceptor := Some (ac_Close a), sm_threads := map nt_Stop (sm_threads m)\<rparr>
           in bindr (wait_all (sm_threads m1)) (\<lambda>ts'. Inr (m1\<lparr>sm_acceptor := None, sm_threads := [], sm_threadCount := 0\<rparr>))))"

definition SelectThreadWithMinConnections :: "'s socket_mgr \<Rightarrow> nat" where
  "SelectThreadWithMinConnections m =
     foldl (\<lambda>min i. if nt_connections (sm_threads m ! i) < nt_connections (sm_threads m ! min) then i else min)
       0 [1..<sm_threadCount m]"

definition GetSocketForAccept :: "'s socket_mgr \<Rightarrow> nat" where
  "GetSocketForAccept m = SelectThreadWithMinConnections m"

text \<open>\<open>newSocket\<close> is the socket after its \<open>Start\<close>, \<open>None\<close> when Boost throws.\<close>

definition sm_OnSocketOpen :: "('s \<Rightarrow> 's) \<Rightarrow> 's option \<Rightarrow> nat \<Rightarrow> 's socket_mgr \<Rightarrow> 's socket_mgr" where
  "sm_OnSocketOpen SocketAdded newSocket threadIndex m =
     (case newSocket of
        None \<Rightarrow> m
      | Some sock \<Rightarrow> m\<lparr>sm_threads := (sm_threads m)[threadIndex := nt_AddSocket SocketAdded sock (sm_threads m ! threadIndex)]\<rparr>)"

text \<open>
  \<open>AsyncAcceptWithCallback\<close> chooses the thread when it starts to wait; \<open>accept_done\<close> is the handler of the
  next connection, with what \<open>acceptCallback\<close> does as an argument.
\<close>

definition AsyncAcceptWithCallback :: "'s socket_mgr \<Rightarrow> 's socket_mgr" where
  "AsyncAcceptWithCallback m =
     m\<lparr>sm_acceptor := map_option (\<lambda>a. a\<lparr>ac_pending := Some (GetSocketForAccept m)\<rparr>) (sm_acceptor m)\<rparr>"

definition accept_done ::
  "bool \<Rightarrow> bool \<Rightarrow> (nat \<Rightarrow> 's socket_mgr \<Rightarrow> 's socket_mgr) \<Rightarrow> 's socket_mgr \<Rightarrow> 's socket_mgr" where
  "accept_done error non_blocking_ok acceptCallback m =
     (case sm_acceptor m of
        None \<Rightarrow> m
      | Some a \<Rightarrow>
          (case ac_pending a of
             None \<Rightarrow> m
           | Some threadIndex \<Rightarrow>
               (let m1 = m\<lparr>sm_acceptor := Some (a\<lparr>ac_pending := None\<rparr>)\<rparr>;
                    m2 = (if \<not> error \<and> non_blocking_ok then acceptCallback threadIndex m1 else m1)
                in if \<not> ac_closed a then AsyncAcceptWithCallback m2 else m2)))"

section \<open>The manager of the client connections\<close>

text \<open>The fields of \<open>DiscordSocketMgr\<close> beside those of its base class.\<close>

record discord_socket_mgr =
  dm_base :: "discord_socket socket_mgr"
  dm_socketSystemSendBufferSize :: int
  dm_socketApplicationSendBufferSize :: int
  dm_tcpNoDelay :: bool

definition DiscordSocketMgr_new :: discord_socket_mgr where
  "DiscordSocketMgr_new =
     \<lparr>dm_base = SocketMgr_new, dm_socketSystemSendBufferSize = - 1, dm_socketApplicationSendBufferSize = 65536,
      dm_tcpNoDelay = True\<rparr>"

text \<open>What \<open>Update\<close> of the client at position \<open>i\<close> meets.\<close>

type_synonym client_env = "nat \<Rightarrow> auth_env \<times> (nat \<Rightarrow> write_result) \<times> (socket_query \<Rightarrow> query_answer option)"

definition discord_class :: "client_env \<Rightarrow> discord_socket socket_class" where
  "discord_class env =
     \<lparr>sc_IsOpen = sk_IsOpen, sc_CloseSocket = CloseSocket ds_OnClose,
      sc_Update = (\<lambda>i s. case env i of (aenv, wenv, answers) \<Rightarrow> ds_Update aenv wenv answers s),
      sc_SocketRemoved = (\<lambda>s. s)\<rparr>"

definition ds_SocketAdded :: "nat \<Rightarrow> discord_socket \<Rightarrow> discord_socket" where
  "ds_SocketAdded sendBufferSize s = s\<lparr>ds_sendBufferSize := sendBufferSize\<rparr>"

definition int32_type :: int_type where "int32_type = \<lparr>it_signed = True, it_width = 32\<rparr>"

definition StartDiscordNetwork ::
  "config_mgr \<Rightarrow> bool \<Rightarrow> bind_results \<Rightarrow> int \<Rightarrow> discord_socket_mgr \<Rightarrow> (bool \<times> discord_socket_mgr) res" where
  "StartDiscordNetwork config address_ok r threadCount m =
     (let m1 = m\<lparr>dm_tcpNoDelay := cm_GetOption_bool (bytes_of ''Network.TcpNodelay'') True config,
            dm_socketSystemSendBufferSize := cm_GetOption_int int32_type (bytes_of ''Network.OutKBuff'') (- 1) config,
            dm_socketApplicationSendBufferSize := cm_GetOption_int int32_type (bytes_of ''Network.OutUBuff'') 65536 config\<rparr>
      in if dm_socketApplicationSendBufferSize m1 \<le> 0 then Inr (False, m1)
         else
           bindr (StartNetwork address_ok r threadCount (dm_base m1)) (\<lambda>(ok, b).
             if \<not> ok then Inr (False, m1\<lparr>dm_base := b\<rparr>)
             else Inr (True, m1\<lparr>dm_base := AsyncAcceptWithCallback b\<rparr>)))"

datatype option_result = OptionSet | OptionNotSupported | OptionFailed

text \<open>A new connection: the results of the two options, and whether \<open>Start\<close> runs to its end.\<close>

record new_connection =
  nc_send_buffer :: option_result
  nc_no_delay :: option_result
  nc_start_ok :: bool

definition dm_OnSocketOpen :: "new_connection \<Rightarrow> nat \<Rightarrow> discord_socket_mgr \<Rightarrow> discord_socket_mgr" where
  "dm_OnSocketOpen nc threadIndex m =
     (if dm_socketSystemSendBufferSize m \<ge> 0 \<and> nc_send_buffer nc = OptionFailed then m
      else if dm_tcpNoDelay m \<and> nc_no_delay nc \<noteq> OptionSet then m
      else
        m\<lparr>dm_base := sm_OnSocketOpen (ds_SocketAdded (nat (dm_socketApplicationSendBufferSize m)))
            (if nc_start_ok nc then Some (ds_Start DiscordSocket_new) else None) threadIndex (dm_base m)\<rparr>)"

text \<open>The handler of the acceptor with the manager's \<open>OnSocketAccept\<close>.\<close>

definition dm_accept_done :: "bool \<Rightarrow> bool \<Rightarrow> new_connection \<Rightarrow> discord_socket_mgr \<Rightarrow> discord_socket_mgr" where
  "dm_accept_done error non_blocking_ok nc m =
     m\<lparr>dm_base := accept_done error non_blocking_ok
        (\<lambda>i b. dm_base (dm_OnSocketOpen nc i (m\<lparr>dm_base := b\<rparr>))) (dm_base m)\<rparr>"

section \<open>Sockets of a thread\<close>

definition counted :: "'s network_thread \<Rightarrow> bool" where
  "counted t \<longleftrightarrow> nt_connections t = int (length (nt_sockets t) + length (nt_newSockets t))"

text \<open>What a thread relies on of its sockets: closing one closes it, and so does nothing of \<open>SocketRemoved\<close>.\<close>

locale network_socket =
  fixes cls :: "'s socket_class"
  assumes closes: "\<not> sc_IsOpen cls (sc_CloseSocket cls s)"
    and removed_closed: "\<not> sc_IsOpen cls s \<Longrightarrow> \<not> sc_IsOpen cls (sc_SocketRemoved cls s)"
begin

lemma update_removed:
  "update_sockets cls i socks = Some (Inr (kept, removed)) \<Longrightarrow>
     list_all (\<lambda>s. \<not> sc_IsOpen cls s) removed \<and> length kept + length removed = length socks"
  by (induction socks arbitrary: i kept removed)
    (auto simp: closes removed_closed split: option.splits sum.splits if_splits prod.splits)

lemma add_new_removed:
  "add_new_sockets cls socks t = (removed, t') \<Longrightarrow>
     list_all (\<lambda>s. \<not> sc_IsOpen cls s) removed \<and> nt_connections t' = nt_connections t - int (length removed) \<and>
     nt_sockets t' = nt_sockets t @ filter (sc_IsOpen cls) socks \<and> nt_newSockets t' = nt_newSockets t \<and>
     length removed + length (filter (sc_IsOpen cls) socks) = length socks \<and> nt_stopped t' = nt_stopped t"
  by (induction socks arbitrary: t removed t')
    (auto simp: Let_def removed_closed split: if_splits prod.splits)

lemma AddNewSockets_counted:
  assumes "AddNewSockets cls t = (removed, t')" "counted t"
  shows "counted t' \<and> list_all (\<lambda>s. \<not> sc_IsOpen cls s) removed \<and> nt_connections t' = nt_connections t - int (length removed)"
proof (cases "nt_newSockets t = []")
  case False
  obtain rem1 t1 where a: "add_new_sockets cls (nt_newSockets t) t = (rem1, t1)" by fastforce
  then have "removed = rem1" "t' = t1\<lparr>nt_newSockets := []\<rparr>" using assms(1) False by (simp_all add: AddNewSockets_def)
  then show ?thesis using add_new_removed [OF a] assms(2) by (auto simp: counted_def)
qed (use assms in \<open>simp add: AddNewSockets_def\<close>)

lemma Update_counted:
  assumes "nt_Update cls t = Some (Inr (removed, t'))" "counted t"
  shows "counted t' \<and> list_all (\<lambda>s. \<not> sc_IsOpen cls s) removed \<and>
    nt_connections t' = nt_connections t - int (length removed)"
proof (cases "nt_stopped t")
  case True
  then show ?thesis using assms by (simp add: nt_Update_def)
next
  case False
  obtain rem1 t1 where a: "AddNewSockets cls t = (rem1, t1)" by fastforce
  have c1: "counted t1" "list_all (\<lambda>s. \<not> sc_IsOpen cls s) rem1" "nt_connections t1 = nt_connections t - int (length rem1)"
    using AddNewSockets_counted [OF a assms(2)] by auto
  obtain kept rem2 where u: "update_sockets cls 0 (nt_sockets t1) = Some (Inr (kept, rem2))"
      and r: "removed = rem1 @ rem2" "t' = t1\<lparr>nt_sockets := kept, nt_connections := nt_connections t1 - int (length rem2)\<rparr>"
    using assms(1) False a by (auto simp: nt_Update_def split: option.splits sum.splits)
  show ?thesis using update_removed [OF u] c1 by (auto simp: r counted_def)
qed

end

interpretation discord_sockets: network_socket "discord_class env"
  by unfold_locales (auto simp: discord_class_def sk_IsOpen_def CloseSocket_def ds_OnClose_def)

lemma AddSocket_counted [simp]: "counted (nt_AddSocket f sock t) = counted t"
  by (simp add: counted_def nt_AddSocket_def)

section \<open>The thread with the fewest connections\<close>

text \<open>The loop keeps the first position of the least value seen.\<close>

lemma select_least:
  fixes f :: "nat \<Rightarrow> int"
  assumes "0 < n"
  shows "(let k = foldl (\<lambda>min i. if f i < f min then i else min) 0 [1..<n] in
    k < n \<and> (\<forall>i<n. f k \<le> f i) \<and> (\<forall>i<k. f k < f i))"
  using assms
proof (induction n)
  case (Suc n)
  show ?case
  proof (cases "n = 0")
    case False
    let ?k = "foldl (\<lambda>min i. if f i < f min then i else min) 0 [1..<n]"
    have IH: "?k < n" "\<forall>i<n. f ?k \<le> f i" "\<forall>i<?k. f ?k < f i" using Suc.IH False by (auto simp: Let_def)
    have step: "foldl (\<lambda>min i. if f i < f min then i else min) 0 [1..<Suc n] = (if f n < f ?k then n else ?k)"
      using False by (simp add: upt_Suc_append)
    show ?thesis using IH by (auto simp: Let_def step less_Suc_eq)
  qed simp
qed simp

lemma Select_least:
  assumes "0 < sm_threadCount m"
  shows "SelectThreadWithMinConnections m < sm_threadCount m"
    "i < sm_threadCount m \<Longrightarrow> nt_connections (sm_threads m ! SelectThreadWithMinConnections m) \<le> nt_connections (sm_threads m ! i)"
    "i < SelectThreadWithMinConnections m \<Longrightarrow> nt_connections (sm_threads m ! SelectThreadWithMinConnections m) < nt_connections (sm_threads m ! i)"
  using select_least [OF assms, of "\<lambda>i. nt_connections (sm_threads m ! i)"]
  by (simp_all add: SelectThreadWithMinConnections_def Let_def)

section \<open>The life of the network\<close>

definition mgr_ok :: "discord_socket socket_mgr \<Rightarrow> bool" where
  "mgr_ok m \<longleftrightarrow> length (sm_threads m) = sm_threadCount m \<and> list_all (\<lambda>t. counted t \<and> nt_thread t) (sm_threads m) \<and>
     (case sm_acceptor m of
        None \<Rightarrow> sm_threadCount m = 0
      | Some a \<Rightarrow> 0 < sm_threadCount m \<and> (case ac_pending a of None \<Rightarrow> ac_closed a | Some i \<Rightarrow> i < sm_threadCount m))"

inductive net_reach :: "discord_socket_mgr \<Rightarrow> bool" where
  created: "net_reach DiscordSocketMgr_new"
| started: "\<lbrakk>net_reach m; sm_acceptor (dm_base m) = None;
    StartDiscordNetwork config address_ok r threadCount m = Inr (ok, m')\<rbrakk> \<Longrightarrow> net_reach m'"
| accepted: "net_reach m \<Longrightarrow> net_reach (dm_accept_done error non_blocking_ok nc m)"
| updated: "\<lbrakk>net_reach m; i < sm_threadCount (dm_base m);
    nt_Update (discord_class env) (sm_threads (dm_base m) ! i) = Some (Inr (removed, t'))\<rbrakk> \<Longrightarrow>
    net_reach (m\<lparr>dm_base := dm_base m\<lparr>sm_threads := (sm_threads (dm_base m))[i := t']\<rparr>\<rparr>)"
| stopped: "net_reach m \<Longrightarrow> StopNetwork (dm_base m) = Inr b \<Longrightarrow> net_reach (m\<lparr>dm_base := b\<rparr>)"

lemma nt_Update_thread: "nt_Update cls t = Some (Inr (removed, t')) \<Longrightarrow> nt_thread t' = nt_thread t"
proof -
  have "nt_thread (snd (add_new_sockets cls socks t)) = nt_thread t" for socks t
    by (induction socks arbitrary: t) (simp_all add: Let_def split_beta)
  then have "nt_thread (snd (AddNewSockets cls t)) = nt_thread t" by (simp add: AddNewSockets_def Let_def split_beta)
  then show "nt_Update cls t = Some (Inr (removed, t')) \<Longrightarrow> nt_thread t' = nt_thread t"
    by (auto simp: nt_Update_def Let_def split_beta split: if_splits option.splits sum.splits)
qed

lemma wait_all_ok: "list_all nt_thread ts \<Longrightarrow> \<exists>ts'. wait_all (map nt_Stop ts) = Inr ts'"
  by (induction ts) (auto simp: nt_Wait_def nt_Stop_def)

definition threads_ok :: "discord_socket socket_mgr \<Rightarrow> bool" where
  "threads_ok m \<longleftrightarrow> length (sm_threads m) = sm_threadCount m \<and> list_all (\<lambda>t. counted t \<and> nt_thread t) (sm_threads m) \<and>
     0 < sm_threadCount m"

lemma AsyncAccept_ok: "threads_ok m \<Longrightarrow> sm_acceptor m = Some a \<Longrightarrow> mgr_ok (AsyncAcceptWithCallback m)"
  using Select_least(1) [of m] by (simp add: threads_ok_def mgr_ok_def AsyncAcceptWithCallback_def GetSocketForAccept_def)

lemma StartDiscordNetwork_ok:
  assumes "StartDiscordNetwork config address_ok r threadCount m = Inr (ok, m')" "mgr_ok (dm_base m)"
  shows "mgr_ok (dm_base m')"
proof -
  have "mgr_ok (AsyncAcceptWithCallback b)" if "StartNetwork address_ok r threadCount (dm_base m) = Inr (True, b)" for b
  proof (rule AsyncAccept_ok)
    show "threads_ok b" "sm_acceptor b = Some \<lparr>ac_closed = False, ac_pending = None\<rparr>"
      using that by (auto simp: StartNetwork_def threads_ok_def list_all_iff nt_Start_def NetworkThread_new_def counted_def split: if_splits)
  qed
  moreover have "b = dm_base m" if "StartNetwork address_ok r threadCount (dm_base m) = Inr (False, b)" for b
    using that by (auto simp: StartNetwork_def split: if_splits)
  ultimately show ?thesis using assms
    by (auto simp: StartDiscordNetwork_def Let_def split: if_splits)
qed

lemma sm_OnSocketOpen_fields [simp]:
  "sm_acceptor (sm_OnSocketOpen f sock i m) = sm_acceptor m" "sm_threadCount (sm_OnSocketOpen f sock i m) = sm_threadCount m"
  by (simp_all add: sm_OnSocketOpen_def split: option.split)

lemma dm_OnSocketOpen_fields [simp]:
  "sm_acceptor (dm_base (dm_OnSocketOpen nc i m)) = sm_acceptor (dm_base m)"
  "sm_threadCount (dm_base (dm_OnSocketOpen nc i m)) = sm_threadCount (dm_base m)"
  by (simp_all add: dm_OnSocketOpen_def)

lemma sm_OnSocketOpen_ok:
  assumes "threads_ok m" "i < sm_threadCount m"
  shows "threads_ok (sm_OnSocketOpen f sock i m)"
proof -
  have "nt_thread (nt_AddSocket f s t) = nt_thread t" for s and t :: "discord_socket network_thread"
    by (simp add: nt_AddSocket_def)
  then show ?thesis using assms
    by (auto simp: threads_ok_def sm_OnSocketOpen_def list_all_length nth_list_update split: option.split)
qed

lemma dm_OnSocketOpen_ok: "threads_ok (dm_base m) \<Longrightarrow> i < sm_threadCount (dm_base m) \<Longrightarrow> threads_ok (dm_base (dm_OnSocketOpen nc i m))"
  by (simp add: dm_OnSocketOpen_def sm_OnSocketOpen_ok)

lemma accept_done_ok:
  assumes "mgr_ok (dm_base m)"
  shows "mgr_ok (dm_base (dm_accept_done error non_blocking_ok nc m))"
proof (cases "\<exists>a i. sm_acceptor (dm_base m) = Some a \<and> ac_pending a = Some i")
  case True
  then obtain a i where a: "sm_acceptor (dm_base m) = Some a" "ac_pending a = Some i" by blast
  let ?m1 = "dm_base m\<lparr>sm_acceptor := Some (a\<lparr>ac_pending := None\<rparr>)\<rparr>"
  let ?m2 = "if \<not> error \<and> non_blocking_ok then dm_base (dm_OnSocketOpen nc i (m\<lparr>dm_base := ?m1\<rparr>)) else ?m1"
  have t: "threads_ok ?m1" "i < sm_threadCount ?m1" using assms a by (auto simp: mgr_ok_def threads_ok_def)
  have t2: "threads_ok ?m2" "sm_acceptor ?m2 = Some (a\<lparr>ac_pending := None\<rparr>)"
    using t dm_OnSocketOpen_ok [of "m\<lparr>dm_base := ?m1\<rparr>" i nc] by auto
  have "dm_base (dm_accept_done error non_blocking_ok nc m) = (if \<not> ac_closed a then AsyncAcceptWithCallback ?m2 else ?m2)"
    using a by (simp add: dm_accept_done_def accept_done_def Let_def)
  moreover have "mgr_ok ?m2" if "ac_closed a" using t2 that by (simp add: mgr_ok_def threads_ok_def split del: if_split)
  ultimately show ?thesis using AsyncAccept_ok [OF t2] by auto
next
  case False
  then show ?thesis using assms by (auto simp: dm_accept_done_def accept_done_def split: option.split)
qed

lemma net_reach_ok: "net_reach m \<Longrightarrow> mgr_ok (dm_base m)"
proof (induction rule: net_reach.induct)
  case created
  then show ?case by (simp add: DiscordSocketMgr_new_def SocketMgr_new_def mgr_ok_def)
next
  case (started m config address_ok r threadCount ok m')
  then show ?case using StartDiscordNetwork_ok by blast
next
  case (accepted m error non_blocking_ok nc)
  then show ?case by (simp add: accept_done_ok)
next
  case (updated m i env removed t')
  then have "counted (sm_threads (dm_base m) ! i)" "nt_thread (sm_threads (dm_base m) ! i)" by (auto simp: mgr_ok_def list_all_length)
  then have "counted t'" "nt_thread t'" using updated(3) discord_sockets.Update_counted nt_Update_thread by blast+
  then show ?case using updated by (auto simp: mgr_ok_def list_all_length nth_list_update split: option.splits)
next
  case (stopped m b)
  then show ?case by (auto simp: StopNetwork_def Let_def mgr_ok_def split: option.splits)
qed

text \<open>
  C19. The network can always be stopped: in every state of the manager, each thread's counter is the number of
  its sockets, new ones included, and when the network was started, \<open>StopNetwork\<close> fails no assertion
  and leaves a manager whose destructor fails none. Sockets that a thread drops are closed, and its counter falls
  by their number.
\<close>

theorem network_lifecycle:
  assumes "net_reach m"
  shows "list_all (\<lambda>t. nt_connections t = int (length (nt_sockets t) + length (nt_newSockets t))) (sm_threads (dm_base m)) \<and>
    (sm_acceptor (dm_base m) \<noteq> None \<longrightarrow>
      (\<exists>b. StopNetwork (dm_base m) = Inr b \<and> destroy_SocketMgr b = Inr ())) \<and>
    (i < sm_threadCount (dm_base m) \<and> nt_Update (discord_class env) (sm_threads (dm_base m) ! i) = Some (Inr (removed, t')) \<longrightarrow>
      list_all (\<lambda>s. \<not> sk_IsOpen s) removed \<and>
      nt_connections t' = nt_connections (sm_threads (dm_base m) ! i) - int (length removed))"
proof -
  have ok: "mgr_ok (dm_base m)" using net_reach_ok [OF assms] .
  then have "\<exists>ts'. wait_all (map nt_Stop (sm_threads (dm_base m))) = Inr ts'" by (intro wait_all_ok) (simp add: mgr_ok_def list_all_iff)
  then have "sm_acceptor (dm_base m) \<noteq> None \<longrightarrow> (\<exists>b. StopNetwork (dm_base m) = Inr b \<and> destroy_SocketMgr b = Inr ())"
    by (auto simp: StopNetwork_def Let_def destroy_SocketMgr_def)
  moreover have "counted (sm_threads (dm_base m) ! i)" if "i < sm_threadCount (dm_base m)"
    using ok that by (auto simp: mgr_ok_def list_all_length)
  then have "list_all (\<lambda>s. \<not> sk_IsOpen s) removed \<and> nt_connections t' = nt_connections (sm_threads (dm_base m) ! i) - int (length removed)"
    if "i < sm_threadCount (dm_base m)" "nt_Update (discord_class env) (sm_threads (dm_base m) ! i) = Some (Inr (removed, t'))"
    using discord_sockets.Update_counted [OF that(2)] that(1) by (simp add: discord_class_def)
  ultimately show ?thesis using ok by (auto simp: mgr_ok_def counted_def list_all_iff)
qed

section \<open>Balance\<close>

definition conns :: "discord_socket_mgr \<Rightarrow> int list" where
  "conns m = map nt_connections (sm_threads (dm_base m))"

definition connects :: "new_connection \<Rightarrow> bool" where
  "connects nc \<longleftrightarrow> nc_send_buffer nc \<noteq> OptionFailed \<and> nc_no_delay nc = OptionSet \<and> nc_start_ok nc"

text \<open>A manager that waits for the next connection, for the thread that has the fewest.\<close>

definition waits :: "discord_socket_mgr \<Rightarrow> bool" where
  "waits m \<longleftrightarrow> length (sm_threads (dm_base m)) = sm_threadCount (dm_base m) \<and> 0 < sm_threadCount (dm_base m) \<and>
     (\<exists>a. sm_acceptor (dm_base m) = Some a \<and> \<not> ac_closed a \<and>
        ac_pending a = Some (SelectThreadWithMinConnections (dm_base m)))"

lemma Select_conns:
  assumes "waits m" "k = SelectThreadWithMinConnections (dm_base m)"
  shows "k < length (conns m)" "\<forall>x\<in>set (conns m). conns m ! k \<le> x"
  using assms Select_least [of "dm_base m"] by (auto simp: waits_def conns_def in_set_conv_nth)

lemma waits_AsyncAccept:
  assumes "dm_base m = AsyncAcceptWithCallback b" "length (sm_threads b) = sm_threadCount b" "0 < sm_threadCount b"
    "sm_acceptor b = Some a" "\<not> ac_closed a"
  shows "waits m"
proof -
  have "SelectThreadWithMinConnections (AsyncAcceptWithCallback b) = SelectThreadWithMinConnections b"
    by (simp add: SelectThreadWithMinConnections_def AsyncAcceptWithCallback_def)
  moreover have "sm_threads (AsyncAcceptWithCallback b) = sm_threads b" "sm_threadCount (AsyncAcceptWithCallback b) = sm_threadCount b"
      "sm_acceptor (AsyncAcceptWithCallback b) = Some (a\<lparr>ac_pending := Some (SelectThreadWithMinConnections b)\<rparr>)"
    using assms(4) by (simp_all add: AsyncAcceptWithCallback_def GetSocketForAccept_def)
  ultimately show ?thesis using assms by (simp add: waits_def)
qed

lemma accept_step:
  assumes "waits m" "connects nc" "k = SelectThreadWithMinConnections (dm_base m)"
  shows "waits (dm_accept_done False True nc m) \<and>
    conns (dm_accept_done False True nc m) = (conns m)[k := conns m ! k + 1]"
proof -
  obtain a where a: "sm_acceptor (dm_base m) = Some a" "\<not> ac_closed a" "ac_pending a = Some k"
    using assms(1,3) by (auto simp: waits_def)
  let ?t = "(sm_threads (dm_base m))[k := nt_AddSocket (ds_SocketAdded (nat (dm_socketApplicationSendBufferSize m)))
      (ds_Start DiscordSocket_new) (sm_threads (dm_base m) ! k)]"
  let ?b = "dm_base m\<lparr>sm_acceptor := Some (a\<lparr>ac_pending := None\<rparr>), sm_threads := ?t\<rparr>"
  have e: "dm_base (dm_accept_done False True nc m) = AsyncAcceptWithCallback ?b"
    using a assms(2) by (simp add: dm_accept_done_def accept_done_def Let_def dm_OnSocketOpen_def sm_OnSocketOpen_def connects_def)
  have k: "k < length (sm_threads (dm_base m))" using Select_conns(1) [OF assms(1,3)] by (simp add: conns_def)
  have "waits (dm_accept_done False True nc m)"
    by (rule waits_AsyncAccept [OF e, of "a\<lparr>ac_pending := None\<rparr>"]) (use assms(1) a in \<open>simp_all add: waits_def\<close>)
  moreover have "conns (dm_accept_done False True nc m) = (conns m)[k := conns m ! k + 1]"
    using k by (simp add: conns_def e AsyncAcceptWithCallback_def map_update nt_AddSocket_def)
  ultimately show ?thesis ..
qed

lemma balanced_step:
  fixes xs :: "int list"
  assumes "k < length xs" "\<forall>x\<in>set xs. xs ! k \<le> x" "\<forall>x\<in>set xs. \<forall>y\<in>set xs. y \<le> x + 1"
  shows "\<forall>x\<in>set (xs[k := xs ! k + 1]). \<forall>y\<in>set (xs[k := xs ! k + 1]). y \<le> x + 1"
    "sum_list (xs[k := xs ! k + 1]) = sum_list xs + 1"
proof -
  have "set (xs[k := xs ! k + 1]) \<subseteq> insert (xs ! k + 1) (set xs)" by (rule set_update_subset_insert)
  moreover have "xs ! k \<in> set xs" using assms(1) by simp
  ultimately have *: "x = xs ! k + 1 \<or> x \<in> set xs \<and> xs ! k \<le> x \<and> x \<le> xs ! k + 1" if "x \<in> set (xs[k := xs ! k + 1])" for x
    using that assms(2,3) by blast
  show "\<forall>x\<in>set (xs[k := xs ! k + 1]). \<forall>y\<in>set (xs[k := xs ! k + 1]). y \<le> x + 1"
  proof (intro ballI)
    fix x y assume "x \<in> set (xs[k := xs ! k + 1])" "y \<in> set (xs[k := xs ! k + 1])"
    from * [OF this(1)] * [OF this(2)] show "y \<le> x + 1" by auto
  qed
  show "sum_list (xs[k := xs ! k + 1]) = sum_list xs + 1" using assms(1)
    by (induction xs arbitrary: k) (auto split: nat.split)
qed

lemma accepts_balanced_from:
  "waits m \<Longrightarrow> list_all connects ncs \<Longrightarrow> (\<forall>x\<in>set (conns m). \<forall>y\<in>set (conns m). y \<le> x + 1) \<Longrightarrow>
   m' = foldl (\<lambda>m nc. dm_accept_done False True nc m) m ncs \<Longrightarrow>
   (\<forall>x\<in>set (conns m'). \<forall>y\<in>set (conns m'). y \<le> x + 1) \<and> sum_list (conns m') = sum_list (conns m) + int (length ncs)"
proof (induction ncs arbitrary: m)
  case (Cons nc ncs)
  let ?k = "SelectThreadWithMinConnections (dm_base m)"
  note st = accept_step [OF Cons.prems(1) _ refl, of nc]
  note sel = Select_conns [OF Cons.prems(1) refl]
  let ?m1 = "dm_accept_done False True nc m"
  have w: "waits ?m1" and c: "conns ?m1 = (conns m)[?k := conns m ! ?k + 1]" using st Cons.prems(2) by auto
  have "\<forall>x\<in>set (conns ?m1). \<forall>y\<in>set (conns ?m1). y \<le> x + 1" "sum_list (conns ?m1) = sum_list (conns m) + 1"
    unfolding c using balanced_step [OF sel Cons.prems(3)] by blast+
  moreover have "list_all connects ncs" "m' = foldl (\<lambda>m nc. dm_accept_done False True nc m) ?m1 ncs" using Cons.prems(2,4) by auto
  ultimately show ?case using Cons.IH [OF w] by simp
qed simp

text \<open>
  Connections are spread evenly: from the start of the network on, while connections are only accepted, every
  thread gets its share, that is, the numbers of connections of any two threads differ by at most one
  and add up to the number of connections accepted.
\<close>

theorem accepts_balanced:
  assumes "StartDiscordNetwork config address_ok r threadCount m = Inr (True, m0)" "list_all connects ncs"
    "m' = foldl (\<lambda>m nc. dm_accept_done False True nc m) m0 ncs"
  shows "(\<forall>x\<in>set (conns m'). \<forall>y\<in>set (conns m'). y \<le> x + 1) \<and> sum_list (conns m') = int (length ncs)"
proof -
  obtain b where s: "StartNetwork address_ok r threadCount (dm_base m) = Inr (True, b)" "dm_base m0 = AsyncAcceptWithCallback b"
    using assms(1) by (auto simp: StartDiscordNetwork_def Let_def split: if_splits)
  have b: "sm_threads b = map (\<lambda>t. snd (nt_Start t)) (replicate (nat threadCount) NetworkThread_new)" "sm_threadCount b = nat threadCount"
      "sm_acceptor b = Some \<lparr>ac_closed = False, ac_pending = None\<rparr>" "0 < nat threadCount"
    using s(1) by (auto simp: StartNetwork_def split: if_splits)
  have "waits m0" by (rule waits_AsyncAccept [OF s(2) _ _ b(3)]) (use b in simp_all)
  moreover have "conns m0 = replicate (nat threadCount) 0"
    by (simp add: conns_def s(2) b(1) AsyncAcceptWithCallback_def nt_Start_def NetworkThread_new_def)
  ultimately show ?thesis using accepts_balanced_from [OF _ assms(2) _ assms(3)] by (simp add: sum_list_replicate)
qed

definition good_start :: "(bool \<times> discord_socket_mgr) res" where
  "good_start = StartDiscordNetwork \<lparr>cm_filename = [], cm_configOptions = [], cm_usingDistConfig = False\<rparr> True
     \<lparr>br_open = True, br_reuse = True, br_bind = True, br_listen = True\<rparr> 2 DiscordSocketMgr_new"

lemma good_start_ok: "\<exists>m. good_start = Inr (True, m) \<and> sm_acceptor (dm_base m) \<noteq> None"
  by (simp add: good_start_def StartDiscordNetwork_def StartNetwork_def Let_def Bind_def AsyncAcceptWithCallback_def
      cm_GetOption_int_def GetValueDefault_def um_find_def DiscordSocketMgr_new_def SocketMgr_new_def)

theorem network_lifecycle_witness:
  "\<exists>m b. good_start = Inr (True, m) \<and> StopNetwork (dm_base m) = Inr b \<and> destroy_SocketMgr b = Inr ()"
proof -
  obtain m where m: "good_start = Inr (True, m)" "sm_acceptor (dm_base m) \<noteq> None" using good_start_ok by blast
  have "net_reach m"
    using started [OF created _ m(1) [unfolded good_start_def]] by (simp add: DiscordSocketMgr_new_def SocketMgr_new_def)
  then show ?thesis using network_lifecycle [of m] m by blast
qed

theorem accepts_balanced_witness:
  "\<exists>m. good_start = Inr (True, m) \<and>
    sum_list (conns (foldl (\<lambda>m nc. dm_accept_done False True nc m) m
      [\<lparr>nc_send_buffer = OptionSet, nc_no_delay = OptionSet, nc_start_ok = True\<rparr>])) = 1"
proof -
  obtain m where m: "good_start = Inr (True, m)" using good_start_ok by blast
  let ?ncs = "[\<lparr>nc_send_buffer = OptionSet, nc_no_delay = OptionSet, nc_start_ok = True\<rparr>]"
  have "list_all connects ?ncs" by (simp add: connects_def)
  then have "sum_list (conns (foldl (\<lambda>m nc. dm_accept_done False True nc m) m ?ncs)) = int (length ?ncs)"
    using accepts_balanced [OF m [unfolded good_start_def] _ refl] by blast
  then show ?thesis using m by (intro exI [of _ m]) simp
qed
end
