(* ===== verification/Updater.thy ===== *)
theory Updater
  imports Config
begin

text \<open>
  The database updater: \<open>src/src/database/Updater/UpdateFetcher.cpp\<close> with its header. An exception
  ends the update; what the table then holds is not modelled. The table \<open>updates\<close> is a map from names, its primary key, to rows; the
  statements sent to the server are values of a datatype with their text and, by the meaning of SQL, their
  effect on the table. The SHA-1 function, the file system, the runs of \<open>mysql\<close> on a file (which may fail) and their
  times are arguments, and so is the order in which a hash map is visited.
\<close>

section \<open>States and statements\<close>

datatype State = RELEASED | CUSTOM | MODULE | ARCHIVED

definition StateConvert_of :: "uint8 list \<Rightarrow> State" where
  "StateConvert_of state =
     (if state = bytes_of ''RELEASED'' then RELEASED
      else if state = bytes_of ''CUSTOM'' then CUSTOM
      else if state = bytes_of ''MODULE'' then MODULE
      else ARCHIVED)"

fun StateConvert :: "State \<Rightarrow> uint8 list" where
  "StateConvert RELEASED = bytes_of ''RELEASED''"
| "StateConvert CUSTOM = bytes_of ''CUSTOM''"
| "StateConvert MODULE = bytes_of ''MODULE''"
| "StateConvert ARCHIVED = bytes_of ''ARCHIVED''"

record update_row =
  ur_hash :: "uint8 list"
  ur_state :: State
  ur_speed :: uint32

type_synonym update_table = "(uint8 list \<times> update_row) list"

datatype update_stmt =
  ReplaceRow "uint8 list" update_row
  | DeleteRow "uint8 list"
  | RenameRow "uint8 list" "uint8 list"
  | DeleteRows "uint8 list list"
  | SetState "uint8 list" State

definition quoted :: "uint8 list \<Rightarrow> uint8 list" where
  "quoted s = 0x22 # s @ [0x22]"

fun comma_separated :: "uint8 list list \<Rightarrow> uint8 list" where
  "comma_separated [] = []"
| "comma_separated [s] = s"
| "comma_separated (s # ss) = s @ bytes_of '', '' @ comma_separated ss"

text \<open>The texts of the statements; 96 is the backquote and 39 the quote of SQL.\<close>

definition bq :: "string \<Rightarrow> uint8 list" where
  "bq s = 96 # bytes_of s @ [96]"

fun stmt_text :: "update_stmt \<Rightarrow> uint8 list" where
  "stmt_text (ReplaceRow name row) =
     bytes_of ''REPLACE INTO '' @ bq ''updates'' @ bytes_of '' ('' @ bq ''name'' @ bytes_of '', '' @ bq ''hash'' @ bytes_of '', ''
       @ bq ''state'' @ bytes_of '', '' @ bq ''speed'' @ bytes_of '') VALUES ('' @ quoted name @ bytes_of '', '' @ quoted (ur_hash row)
       @ bytes_of '', '' @ [39] @ StateConvert (ur_state row) @ [39] @ bytes_of '', '' @ dec_digits (unat (ur_speed row)) @ bytes_of '')''"
| "stmt_text (DeleteRow to) =
     bytes_of ''DELETE FROM '' @ bq ''updates'' @ bytes_of '' WHERE '' @ bq ''name'' @ bytes_of ''='' @ quoted to"
| "stmt_text (RenameRow from to) =
     bytes_of ''UPDATE '' @ bq ''updates'' @ bytes_of '' SET '' @ bq ''name'' @ bytes_of ''='' @ quoted to @ bytes_of '' WHERE ''
       @ bq ''name'' @ bytes_of ''='' @ quoted from"
| "stmt_text (DeleteRows names) =
     bytes_of ''DELETE FROM '' @ bq ''updates'' @ bytes_of '' WHERE '' @ bq ''name'' @ bytes_of '' IN(''
       @ comma_separated (map quoted names) @ bytes_of '')''"
| "stmt_text (SetState name state) =
     bytes_of ''UPDATE '' @ bq ''updates'' @ bytes_of '' SET '' @ bq ''state'' @ bytes_of ''='' @ [39] @ StateConvert state @ [39]
       @ bytes_of '' WHERE '' @ bq ''name'' @ bytes_of ''='' @ quoted name"

text \<open>What the statements mean. \<open>DELETE\<close> comes before \<open>UPDATE\<close> of the key, so no key is doubled.\<close>

fun exec_stmt :: "update_stmt \<Rightarrow> update_table \<Rightarrow> update_table" where
  "exec_stmt (ReplaceRow name row) tbl = um_emplace name row (um_erase name tbl)"
| "exec_stmt (DeleteRow to) tbl = um_erase to tbl"
| "exec_stmt (RenameRow from to) tbl = map (\<lambda>(k, r). (if k = from then to else k, r)) tbl"
| "exec_stmt (DeleteRows names) tbl = filter (\<lambda>(k, _). k \<notin> set names) tbl"
| "exec_stmt (SetState name state) tbl = um_modify name (\<lambda>r. r\<lparr>ur_state := state\<rparr>) tbl"

section \<open>The files\<close>

datatype fs_entry = FileNode "uint8 list" "uint8 list option" | DirNode "uint8 list" "fs_entry list"

record locale_file =
  lf_name :: "uint8 list"
  lf_content :: "uint8 list option"
  lf_state :: State

datatype update_exception = DuplicateFilename | OpenFailed | ApplyFailed

fun str_less :: "uint8 list \<Rightarrow> uint8 list \<Rightarrow> bool" where
  "str_less _ [] = False"
| "str_less [] (_ # _) = True"
| "str_less (a # as) (b # bs) = (a < b \<or> a = b \<and> str_less as bs)"

text \<open>\<open>extension() == ".sql"\<close>; a name that is only \<open>.sql\<close> has no extension.\<close>

definition is_sql_name :: "uint8 list \<Rightarrow> bool" where
  "is_sql_name name \<longleftrightarrow> length name > 4 \<and> drop (length name - 4) name = bytes_of ''.sql''"

text \<open>The set ordered by \<open>PathCompare\<close>, as the list of its elements in order.\<close>

fun insert_file :: "locale_file \<Rightarrow> locale_file list \<Rightarrow> locale_file list" where
  "insert_file e [] = [e]"
| "insert_file e (x # xs) = (if str_less (lf_name e) (lf_name x) then e # x # xs else x # insert_file e xs)"

definition MAX_DEPTH :: nat where "MAX_DEPTH = 10"

fun FillFileListRecursively ::
  "fs_entry list \<Rightarrow> State \<Rightarrow> nat \<Rightarrow> locale_file list \<Rightarrow> update_exception + locale_file list" where
  "FillFileListRecursively [] state depth storage = Inr storage"
| "FillFileListRecursively (DirNode name entries # rest) state depth storage =
     (if depth < MAX_DEPTH then
        (case FillFileListRecursively entries state (depth + 1) storage of
           Inl e \<Rightarrow> Inl e
         | Inr storage' \<Rightarrow> FillFileListRecursively rest state depth storage')
      else FillFileListRecursively rest state depth storage)"
| "FillFileListRecursively (FileNode name content # rest) state depth storage =
     (if is_sql_name name then
        (if name \<in> lf_name ` set storage then Inl DuplicateFilename
         else FillFileListRecursively rest state depth
           (insert_file \<lparr>lf_name = name, lf_content = content, lf_state = state\<rparr> storage))
      else FillFileListRecursively rest state depth storage)"

record fetcher =
  uf_sourceDirectory :: "uint8 list"
  uf_dbModuleName :: "uint8 list"
  uf_setDirectories :: "uint8 list list option"
  uf_modulesList :: "uint8 list"

type_synonym directories = "uint8 list \<Rightarrow> fs_entry list option"

text \<open>The rows of \<open>updates_include\<close> are \<open>None\<close> when the query has no result.\<close>

definition ReceiveIncludedDirectories ::
  "directories \<Rightarrow> (uint8 list \<times> uint8 list) list option \<Rightarrow> fetcher \<Rightarrow> (fs_entry list \<times> State) list" where
  "ReceiveIncludedDirectories dirs includes uf =
     (case uf_setDirectories uf of
        Some subdirs \<Rightarrow>
          List.map_filter (\<lambda>itr. map_option (\<lambda>es. (es, MODULE)) (dirs (uf_sourceDirectory uf @ itr))) subdirs
      | None \<Rightarrow>
          (case includes of
             None \<Rightarrow> []
           | Some rows \<Rightarrow>
               List.map_filter (\<lambda>(path, state).
                   let path' = (if substr path 0 1 = bytes_of ''$'' then uf_sourceDirectory uf @ drop 1 path else path)
                   in map_option (\<lambda>es. (es, StateConvert_of state)) (dirs path')) rows
               @ List.map_filter (\<lambda>itr.
                   map_option (\<lambda>es. (es, MODULE))
                     (dirs (uf_sourceDirectory uf @ bytes_of ''/modules/'' @ itr @ bytes_of ''/sql/'' @ uf_dbModuleName uf)))
                   (Tokenize (uf_modulesList uf) 0x2c True)))"

fun fill_all :: "(fs_entry list \<times> State) list \<Rightarrow> locale_file list \<Rightarrow> update_exception + locale_file list" where
  "fill_all [] storage = Inr storage"
| "fill_all ((entries, state) # ds) storage =
     (case FillFileListRecursively entries state 1 storage of Inl e \<Rightarrow> Inl e | Inr storage' \<Rightarrow> fill_all ds storage')"

definition GetFileList ::
  "directories \<Rightarrow> (uint8 list \<times> uint8 list) list option \<Rightarrow> fetcher \<Rightarrow> update_exception + locale_file list" where
  "GetFileList dirs includes uf = fill_all (ReceiveIncludedDirectories dirs includes uf) []"

section \<open>Updating\<close>

record update_env =
  ue_sha1 :: "uint8 list \<Rightarrow> uint8 list"
  ue_apply_ok :: "uint8 list \<Rightarrow> bool"
  ue_speed :: "uint8 list \<Rightarrow> uint32"
  ue_order :: "update_table \<Rightarrow> update_table"

record update_flags =
  fl_redundancyChecks :: bool
  fl_allowRehash :: bool
  fl_archivedRedundancy :: bool
  fl_cleanDeadReferencesMaxCount :: int

record update_state =
  us_applied :: update_table
  us_table :: update_table
  us_files :: "uint8 list list"
  us_importedUpdates :: nat

definition exec :: "update_stmt \<Rightarrow> update_state \<Rightarrow> update_state" where
  "exec st s = s\<lparr>us_table := exec_stmt st (us_table s)\<rparr>"

definition UpdateEntry :: "uint8 list \<Rightarrow> update_row \<Rightarrow> update_state \<Rightarrow> update_state" where
  "UpdateEntry name row s = exec (ReplaceRow name row) s"

definition RenameEntry :: "uint8 list \<Rightarrow> uint8 list \<Rightarrow> update_state \<Rightarrow> update_state" where
  "RenameEntry from to s = exec (RenameRow from to) (exec (DeleteRow to) s)"

definition UpdateState :: "uint8 list \<Rightarrow> State \<Rightarrow> update_state \<Rightarrow> update_state" where
  "UpdateState name state s = exec (SetState name state) s"

definition CleanUp :: "uint8 list list \<Rightarrow> update_state \<Rightarrow> update_state" where
  "CleanUp names s = (if names = [] then s else exec (DeleteRows names) s)"

definition forget :: "uint8 list \<Rightarrow> update_state \<Rightarrow> update_state" where
  "forget name s = s\<lparr>us_applied := um_erase name (us_applied s)\<rparr>"

definition file_hash :: "update_env \<Rightarrow> uint8 list \<Rightarrow> uint8 list" where
  "file_hash env content = ByteArrayToHexStr (ue_sha1 env content) False"

text \<open>The end of the lambda: the file is run unless it is only hashed again, and its entry written.\<close>

definition apply_and_record ::
  "update_env \<Rightarrow> locale_file \<Rightarrow> uint8 list \<Rightarrow> bool \<Rightarrow> update_state \<Rightarrow> update_exception + update_state" where
  "apply_and_record env f hash rehash s =
     (if \<not> rehash \<and> \<not> ue_apply_ok env (lf_name f) then Inl ApplyFailed
      else
        (let s1 = (if rehash then s else s\<lparr>us_files := us_files s @ [lf_name f]\<rparr>);
             speed = (if rehash then 0 else ue_speed env (lf_name f));
             s2 = UpdateEntry (lf_name f) \<lparr>ur_hash = hash, ur_state = lf_state f, ur_speed = speed\<rparr> s1;
             s3 = forget (lf_name f) s2
         in Inr (if rehash then s3 else s3\<lparr>us_importedUpdates := us_importedUpdates s3 + 1\<rparr>)))"

definition ApplyUpdateFile ::
  "update_env \<Rightarrow> update_flags \<Rightarrow> uint8 list list \<Rightarrow> (uint8 list \<times> uint8 list) list \<Rightarrow> locale_file \<Rightarrow> update_state \<Rightarrow>
     update_exception + update_state" where
  "ApplyUpdateFile env fl available hashToName f s =
     (let iter = um_find (lf_name f) (us_applied s) in
      if iter \<noteq> None \<and> \<not> fl_redundancyChecks fl then Inr (forget (lf_name f) s)
      else if iter \<noteq> None \<and> \<not> fl_archivedRedundancy fl \<and> ur_state (the iter) = ARCHIVED \<and> lf_state f = ARCHIVED then
        Inr (forget (lf_name f) s)
      else
        (case lf_content f of
           None \<Rightarrow> Inl OpenFailed
         | Some content \<Rightarrow>
             (let hash = file_hash env content in
              case iter of
                None \<Rightarrow>
                  (case um_find hash hashToName of
                     Some old \<Rightarrow>
                       if old \<in> set available then apply_and_record env f hash False s
                       else Inr (forget old (RenameEntry old (lf_name f) s))
                   | None \<Rightarrow> apply_and_record env f hash False s)
              | Some row \<Rightarrow>
                  if fl_allowRehash fl \<and> ur_hash row = [] then apply_and_record env f hash True s
                  else if ur_hash row \<noteq> hash then apply_and_record env f hash False s
                  else
                    (let s1 = (if ur_state row \<noteq> lf_state f then UpdateState (lf_name f) (lf_state f) s else s)
                     in Inr (forget (lf_name f) s1)))))"

fun apply_files ::
  "update_env \<Rightarrow> update_flags \<Rightarrow> uint8 list list \<Rightarrow> (uint8 list \<times> uint8 list) list \<Rightarrow> locale_file list \<Rightarrow> update_state \<Rightarrow>
     update_exception + update_state" where
  "apply_files env fl available hashToName [] s = Inr s"
| "apply_files env fl available hashToName (f # fs) s =
     (case ApplyUpdateFile env fl available hashToName f s of
        Inl e \<Rightarrow> Inl e
      | Inr s' \<Rightarrow> apply_files env fl available hashToName fs s')"

text \<open>The three loops: released and archived files first, then custom ones, then those of modules.\<close>

definition update_order :: "locale_file list \<Rightarrow> locale_file list" where
  "update_order available =
     filter (\<lambda>f. lf_state f = RELEASED \<or> lf_state f = ARCHIVED) available
       @ filter (\<lambda>f. lf_state f = CUSTOM) available @ filter (\<lambda>f. lf_state f = MODULE) available"

definition cleanup_orphans :: "update_env \<Rightarrow> update_flags \<Rightarrow> update_state \<Rightarrow> update_state" where
  "cleanup_orphans env fl s =
     (let doCleanup = (fl_cleanDeadReferencesMaxCount fl < 0 \<or> int (length (us_applied s)) \<le> fl_cleanDeadReferencesMaxCount fl);
          toCleanup = (if doCleanup then filter (\<lambda>(_, r). ur_state r \<noteq> MODULE) (ue_order env (us_applied s)) else [])
      in if toCleanup \<noteq> [] then (if doCleanup then CleanUp (map fst toCleanup) s else s) else s)"

record update_result =
  rs_updated :: nat
  rs_recent :: nat
  rs_archived :: nat

text \<open>\<open>Update\<close> on the files that \<open>GetFileList\<close> found and the table; it also returns the files that it ran, in order.\<close>

definition fill_hashes :: "update_table \<Rightarrow> (uint8 list \<times> uint8 list) list" where
  "fill_hashes applied = foldl (\<lambda>m (name, row). um_emplace (ur_hash row) name m) [] applied"

definition Update ::
  "update_env \<Rightarrow> update_flags \<Rightarrow> bool \<Rightarrow> locale_file list \<Rightarrow> update_table \<Rightarrow>
     update_exception + (update_result \<times> uint8 list list \<times> update_table)" where
  "Update env fl setDirectories available tbl =
     (if setDirectories \<and> available = [] then Inr (\<lparr>rs_updated = 0, rs_recent = 0, rs_archived = 0\<rparr>, [], tbl)
      else
        (let recent = length (filter (\<lambda>(_, r). ur_state r = RELEASED) tbl);
             archived = length (filter (\<lambda>(_, r). ur_state r \<noteq> RELEASED) tbl);
             hashToName = fill_hashes (ue_order env tbl)
         in case apply_files env fl (map lf_name available) hashToName (update_order available)
               \<lparr>us_applied = tbl, us_table = tbl, us_files = [], us_importedUpdates = 0\<rparr> of
              Inl e \<Rightarrow> Inl e
            | Inr s \<Rightarrow>
                (let s' = (if us_applied s \<noteq> [] \<and> \<not> setDirectories then cleanup_orphans env fl s else s)
                 in Inr (\<lparr>rs_updated = us_importedUpdates s', rs_recent = recent, rs_archived = archived\<rparr>,
                      us_files s', us_table s'))))"

section \<open>A second run applies nothing\<close>

text \<open>What counts as done for a file: its row matches its hash, or the flags say that it is not looked at.\<close>

definition settled :: "update_env \<Rightarrow> update_flags \<Rightarrow> update_table \<Rightarrow> locale_file \<Rightarrow> bool" where
  "settled env fl tbl f \<longleftrightarrow>
     (\<exists>row. um_find (lf_name f) tbl = Some row \<and>
        (\<not> fl_redundancyChecks fl \<or> \<not> fl_archivedRedundancy fl \<and> ur_state row = ARCHIVED \<and> lf_state f = ARCHIVED \<or>
         (\<exists>c. lf_content f = Some c \<and> ur_hash row = file_hash env c)))"

definition hash_in :: "update_env \<Rightarrow> locale_file \<Rightarrow> uint8 list" where
  "hash_in env f = (case lf_content f of None \<Rightarrow> [] | Some c \<Rightarrow> file_hash env c)"

text \<open>The row that processing \<open>f\<close> may rename away: that of a file that is gone, with the same hash.\<close>

definition renames :: "update_env \<Rightarrow> uint8 list list \<Rightarrow> (uint8 list \<times> uint8 list) list \<Rightarrow> locale_file \<Rightarrow> uint8 list \<Rightarrow> bool" where
  "renames env available h f old \<longleftrightarrow> lf_content f \<noteq> None \<and> um_find (hash_in env f) h = Some old \<and> old \<notin> set available"

lemma um_find_rename:
  "k \<noteq> to \<Longrightarrow> um_find k (map (\<lambda>(k, r). (if k = from then to else k, r)) tbl) = (if k = from then None else um_find k tbl)"
  by (induction tbl) (auto simp: um_find_def)

lemma um_find_rename_to:
  "um_find to tbl = None \<Longrightarrow> um_find to (map (\<lambda>(k, r). (if k = from then to else k, r)) tbl) = um_find from tbl"
  by (induction tbl) (auto simp: um_find_def split: if_splits)

lemma exec_fields [simp]:
  "us_applied (exec st s) = us_applied s" "us_files (exec st s) = us_files s"
  "us_importedUpdates (exec st s) = us_importedUpdates s" "us_table (exec st s) = exec_stmt st (us_table s)"
  by (simp_all add: exec_def)

lemma forget_fields [simp]:
  "us_table (forget n s) = us_table s" "us_files (forget n s) = us_files s"
  "us_importedUpdates (forget n s) = us_importedUpdates s" "us_applied (forget n s) = um_erase n (us_applied s)"
  by (simp_all add: forget_def)

lemmas update_ops = UpdateEntry_def RenameEntry_def UpdateState_def

lemma apply_and_record_result:
  assumes "apply_and_record env f hash rehash s = Inr s'"
  shows "um_find m (us_table s') = (if m = lf_name f then
      Some \<lparr>ur_hash = hash, ur_state = lf_state f, ur_speed = (if rehash then 0 else ue_speed env (lf_name f))\<rparr> else um_find m (us_table s))"
    "us_applied s' = um_erase (lf_name f) (us_applied s)"
  using assms by (auto simp: apply_and_record_def Let_def update_ops um_find_emplace um_find_erase split: if_splits)

text \<open>Processing a file changes its own row and the row it renames, and nothing else.\<close>

lemma ApplyUpdateFile_frame:
  assumes "ApplyUpdateFile env fl available h f s = Inr s'" "m \<noteq> lf_name f" "\<not> renames env available h f m"
  shows "um_find m (us_table s') = um_find m (us_table s) \<and> um_find m (us_applied s') = um_find m (us_applied s)"
proof -
  have R: "um_find m (us_table s') = um_find m (us_table s) \<and> um_find m (us_applied s') = um_find m (us_applied s)"
    if "apply_and_record env f hash rehash s = Inr s'" for hash rehash
    using apply_and_record_result [OF that] assms(2) by (simp add: um_find_erase)
  show ?thesis
    using assms
    by (auto simp: ApplyUpdateFile_def Let_def update_ops renames_def hash_in_def um_find_erase um_find_modify um_find_rename
        split: if_splits option.splits dest: R)
qed

lemma ApplyUpdateFile_settles:
  assumes "ApplyUpdateFile env fl available h f s = Inr s'" "um_find (lf_name f) (us_applied s) = um_find (lf_name f) (us_table s)"
    "\<And>old. renames env available h f old \<Longrightarrow> old \<noteq> lf_name f \<and> (\<exists>row. um_find old (us_table s) = Some row \<and> ur_hash row = hash_in env f)"
  shows "settled env fl (us_table s') f \<and> um_find (lf_name f) (us_applied s') = None"
proof -
  have R: "settled env fl (us_table s') f \<and> um_find (lf_name f) (us_applied s') = None"
    if "apply_and_record env f hash rehash s = Inr s'" "lf_content f = Some c" "hash = file_hash env c" for hash rehash c
    using apply_and_record_result [OF that(1)] that(2,3) by (simp add: um_find_erase settled_def)
  show ?thesis
    using assms R
    by (auto simp: ApplyUpdateFile_def Let_def update_ops settled_def hash_in_def um_find_erase um_find_modify um_find_rename_to renames_def
        split: if_splits option.splits)
qed

lemma ApplyUpdateFile_noop:
  assumes "settled env fl (us_applied s) f" "\<And>c. file_hash env c \<noteq> []"
  shows "\<exists>s'. ApplyUpdateFile env fl available h f s = Inr s' \<and> us_files s' = us_files s \<and> us_importedUpdates s' = us_importedUpdates s"
  using assms by (auto simp: ApplyUpdateFile_def Let_def update_ops settled_def)

lemma fill_hashes_find:
  "um_find hs (foldl (\<lambda>m (name, row). um_emplace (ur_hash row) name m) acc tbl) = Some n \<Longrightarrow>
     um_find hs acc = Some n \<or> (\<exists>row. (n, row) \<in> set tbl \<and> ur_hash row = hs)"
proof (induction tbl arbitrary: acc)
  case (Cons e tbl)
  obtain name row where e: "e = (name, row)" by (cases e)
  then show ?case using Cons.IH [of "um_emplace (ur_hash row) name acc"] Cons.prems
    by (auto simp: um_find_emplace split: if_splits)
qed simp

text \<open>The cache only names rows with the hash, so it names a row under one hash at most.\<close>

definition hashes_ok :: "(uint8 list \<times> uint8 list) list \<Rightarrow> update_table \<Rightarrow> bool" where
  "hashes_ok h tbl \<longleftrightarrow> (\<forall>hs n. um_find hs h = Some n \<longrightarrow> (\<exists>row. um_find n tbl = Some row \<and> ur_hash row = hs))"

lemma fill_hashes_ok:
  assumes "distinct (map fst tbl)" "set tbl' = set tbl"
  shows "hashes_ok (fill_hashes tbl') tbl"
  unfolding hashes_ok_def
proof (intro allI impI)
  fix hs n assume "um_find hs (fill_hashes tbl') = Some n"
  then obtain row where "(n, row) \<in> set tbl" "ur_hash row = hs"
    using fill_hashes_find [of hs "[]" tbl' n] assms(2) by (auto simp: fill_hashes_def um_find_def)
  then show "\<exists>row. um_find n tbl = Some row \<and> ur_hash row = hs" using assms(1) by (auto simp: um_find_def)
qed

text \<open>No two files that can be read have the same hash.\<close>

definition no_copies :: "update_env \<Rightarrow> locale_file list \<Rightarrow> bool" where
  "no_copies env fs \<longleftrightarrow>
     (\<forall>f\<in>set fs. \<forall>g\<in>set fs. lf_name f \<noteq> lf_name g \<and> lf_content f \<noteq> None \<and> lf_content g \<noteq> None \<longrightarrow> hash_in env f \<noteq> hash_in env g)"

lemma apply_files_frame:
  assumes "apply_files env fl available h fs s = Inr s'" "m \<in> set available" "m \<notin> lf_name ` set fs"
  shows "um_find m (us_table s') = um_find m (us_table s) \<and> um_find m (us_applied s') = um_find m (us_applied s)"
  using assms
proof (induction fs arbitrary: s)
  case (Cons f fs)
  then obtain s1 where s1: "ApplyUpdateFile env fl available h f s = Inr s1" "apply_files env fl available h fs s1 = Inr s'"
    by (auto split: sum.splits)
  then show ?case using Cons.IH [OF s1(2)] ApplyUpdateFile_frame [OF s1(1), of m] Cons.prems by (auto simp: renames_def)
qed simp

definition in_step :: "update_env \<Rightarrow> uint8 list list \<Rightarrow> (uint8 list \<times> uint8 list) list \<Rightarrow> locale_file list \<Rightarrow> update_state \<Rightarrow> bool" where
  "in_step env available h fs s \<longleftrightarrow>
     (\<forall>f\<in>set fs. um_find (lf_name f) (us_applied s) = um_find (lf_name f) (us_table s) \<and>
        (\<forall>old. renames env available h f old \<longrightarrow> (\<exists>row. um_find old (us_table s) = Some row \<and> ur_hash row = hash_in env f)))"

lemma other_file:
  assumes "distinct (map lf_name (f # fs))" "lf_name ` set (f # fs) \<subseteq> set available" "g \<in> set fs"
  shows "lf_name g \<noteq> lf_name f \<and> lf_name g \<in> set available"
  using assms(1,2) imageI [OF assms(3), of lf_name] by auto

lemma in_step_preserved:
  assumes "in_step env available h (f # fs) s" "ApplyUpdateFile env fl available h f s = Inr s1"
    "distinct (map lf_name (f # fs))" "lf_name ` set (f # fs) \<subseteq> set available" "no_copies env (f # fs)" "hashes_ok h tbl"
  shows "in_step env available h fs s1"
  unfolding in_step_def
proof (intro ballI conjI allI impI)
  fix g assume g: "g \<in> set fs"
  then have ne: "lf_name g \<noteq> lf_name f" and av: "lf_name g \<in> set available" using other_file [OF assms(3,4)] by auto
  show "um_find (lf_name g) (us_applied s1) = um_find (lf_name g) (us_table s1)"
    using ApplyUpdateFile_frame [OF assms(2) ne] assms(1) g av by (auto simp: in_step_def renames_def)
  fix old assume r: "renames env available h g old"
  have "\<not> renames env available h f old"
  proof
    assume "renames env available h f old"
    then have f: "um_find (hash_in env f) h = Some old" "lf_content f \<noteq> None" by (auto simp: renames_def)
    have "um_find (hash_in env g) h = Some old" "lf_content g \<noteq> None" using r by (auto simp: renames_def)
    then have "hash_in env f = hash_in env g" "lf_content g \<noteq> None" using f(1) assms(6) unfolding hashes_ok_def by (metis option.inject)+
    moreover have "hash_in env f \<noteq> hash_in env g" if "lf_content g \<noteq> None"
      using assms(5) g ne f(2) that by (simp add: no_copies_def)
    ultimately show False by blast
  qed
  moreover have "old \<noteq> lf_name f" using r assms(4) by (auto simp: renames_def)
  ultimately show "\<exists>row. um_find old (us_table s1) = Some row \<and> ur_hash row = hash_in env g"
    using ApplyUpdateFile_frame [OF assms(2)] assms(1) g r by (simp add: in_step_def)
qed

lemma settled_cong: "um_find (lf_name f) tbl = um_find (lf_name f) tbl' \<Longrightarrow> settled env fl tbl f = settled env fl tbl' f"
  by (simp add: settled_def)

lemma apply_files_settles:
  assumes "apply_files env fl available h fs s = Inr s'" "in_step env available h fs s"
    "distinct (map lf_name fs)" "lf_name ` set fs \<subseteq> set available" "no_copies env fs" "hashes_ok h tbl"
  shows "\<forall>f\<in>set fs. settled env fl (us_table s') f \<and> um_find (lf_name f) (us_applied s') = None"
  using assms(1-5)
proof (induction fs arbitrary: s)
  case (Cons f fs)
  obtain s1 where s1: "ApplyUpdateFile env fl available h f s = Inr s1" "apply_files env fl available h fs s1 = Inr s'"
    using Cons.prems(1) by (auto split: sum.splits)
  have "in_step env available h fs s1" using in_step_preserved [OF Cons.prems(2) s1(1) Cons.prems(3-5) assms(6)] .
  moreover have "no_copies env fs" using Cons.prems(5) by (simp add: no_copies_def)
  ultimately have rest: "\<forall>g\<in>set fs. settled env fl (us_table s') g \<and> um_find (lf_name g) (us_applied s') = None"
    using Cons.IH [OF s1(2)] Cons.prems(3,4) by simp
  have "settled env fl (us_table s1) f \<and> um_find (lf_name f) (us_applied s1) = None"
  proof (rule ApplyUpdateFile_settles [OF s1(1)])
    show "um_find (lf_name f) (us_applied s) = um_find (lf_name f) (us_table s)" using Cons.prems(2) by (simp add: in_step_def)
    show "old \<noteq> lf_name f \<and> (\<exists>row. um_find old (us_table s) = Some row \<and> ur_hash row = hash_in env f)"
      if "renames env available h f old" for old
      using that Cons.prems(2,4) by (auto simp: in_step_def renames_def)
  qed
  moreover have "um_find (lf_name f) (us_table s') = um_find (lf_name f) (us_table s1)"
      "um_find (lf_name f) (us_applied s') = um_find (lf_name f) (us_applied s1)"
    using apply_files_frame [OF s1(2), of "lf_name f"] Cons.prems(3,4) by auto
  ultimately show ?case using rest settled_cong [of f "us_table s'" "us_table s1"] by simp
qed simp

lemma apply_files_noop:
  assumes "\<forall>f\<in>set fs. settled env fl (us_applied s) f" "distinct (map lf_name fs)" "lf_name ` set fs \<subseteq> set available"
    "\<And>c. file_hash env c \<noteq> []"
  shows "\<exists>s'. apply_files env fl available h fs s = Inr s' \<and> us_files s' = us_files s \<and> us_importedUpdates s' = us_importedUpdates s"
  using assms(1-3)
proof (induction fs arbitrary: s)
  case (Cons f fs)
  obtain s1 where s1: "ApplyUpdateFile env fl available h f s = Inr s1" "us_files s1 = us_files s" "us_importedUpdates s1 = us_importedUpdates s"
    using ApplyUpdateFile_noop [of env fl s f available h] Cons.prems(1) assms(4) by auto
  have "um_find (lf_name g) (us_applied s1) = um_find (lf_name g) (us_applied s)" if "g \<in> set fs" for g
  proof -
    have "lf_name g \<noteq> lf_name f" "\<not> renames env available h f (lf_name g)" using other_file [OF Cons.prems(2,3) that] by (auto simp: renames_def)
    then show ?thesis using ApplyUpdateFile_frame [OF s1(1)] by blast
  qed
  then have "\<forall>g\<in>set fs. settled env fl (us_applied s1) g"
    using Cons.prems(1) settled_cong [of _ "us_applied s1" "us_applied s"] by simp
  then show ?case using Cons.IH [of s1] Cons.prems(2,3) s1 by auto
qed simp

section \<open>The order of the files\<close>

lemma str_less_irrefl: "\<not> str_less a a"
  by (induction a) auto

lemma str_less_trans: "str_less a b \<Longrightarrow> str_less b c \<Longrightarrow> str_less a c"
proof (induction a b arbitrary: c rule: str_less.induct)
  case (2 x y)
  then show ?case by (cases c) auto
next
  case (3 a as b bs)
  then show ?case by (cases c) auto
qed simp

lemma str_less_total: "a \<noteq> b \<Longrightarrow> str_less a b \<or> str_less b a"
proof (induction a b rule: str_less.induct)
  case (1 a)
  then show ?case by (cases a) auto
qed auto

abbreviation names_sorted :: "locale_file list \<Rightarrow> bool" where
  "names_sorted \<equiv> sorted_wrt (\<lambda>f g. str_less (lf_name f) (lf_name g))"

lemma insert_file_set [simp]: "set (insert_file e fs) = insert e (set fs)"
  by (induction fs) auto

lemma insert_file_sorted: "names_sorted fs \<Longrightarrow> lf_name e \<notin> lf_name ` set fs \<Longrightarrow> names_sorted (insert_file e fs)"
proof (induction fs)
  case (Cons x xs)
  then show ?case using str_less_total [of "lf_name e" "lf_name x"] str_less_trans by auto
qed simp

lemma FillFileList_sorted:
  "FillFileListRecursively es state depth fs = Inr fs' \<Longrightarrow> names_sorted fs \<Longrightarrow> names_sorted fs'"
  by (induction es state depth fs arbitrary: fs' rule: FillFileListRecursively.induct)
    (auto split: if_splits sum.splits simp: insert_file_sorted)

lemma fill_all_sorted: "fill_all ds fs = Inr fs' \<Longrightarrow> names_sorted fs \<Longrightarrow> names_sorted fs'"
  by (induction ds fs rule: fill_all.induct) (auto split: sum.splits dest: FillFileList_sorted)

lemma GetFileList_sorted: "GetFileList dirs includes uf = Inr available \<Longrightarrow> names_sorted available"
  unfolding GetFileList_def by (erule fill_all_sorted) simp

lemma names_sorted_distinct: "names_sorted fs \<Longrightarrow> distinct (map lf_name fs)"
  by (induction fs) (auto simp: str_less_irrefl)

text \<open>Released and archived files come first, then custom ones, then those of modules.\<close>

fun state_group :: "State \<Rightarrow> nat" where
  "state_group RELEASED = 0"
| "state_group ARCHIVED = 0"
| "state_group CUSTOM = 1"
| "state_group MODULE = 2"

definition runs_before :: "locale_file \<Rightarrow> locale_file \<Rightarrow> bool" where
  "runs_before f g \<longleftrightarrow> state_group (lf_state f) < state_group (lf_state g) \<or>
     state_group (lf_state f) = state_group (lf_state g) \<and> str_less (lf_name f) (lf_name g)"

lemma update_order_set [simp]: "set (update_order fs) = set fs"
proof -
  have "lf_state f = RELEASED \<or> lf_state f = ARCHIVED \<or> lf_state f = CUSTOM \<or> lf_state f = MODULE" for f
    by (cases "lf_state f") auto
  then show ?thesis by (auto simp: update_order_def)
qed

lemma update_order_sorted: "names_sorted fs \<Longrightarrow> sorted_wrt runs_before (update_order fs)"
proof -
  assume s: "names_sorted fs"
  have flt: "sorted_wrt runs_before (filter P fs)" if "\<And>f g. P f \<Longrightarrow> P g \<Longrightarrow> state_group (lf_state f) = state_group (lf_state g)" for P
  proof (rule sorted_wrt_mono_rel [OF _ sorted_wrt_filter [OF s]])
    fix f g assume "f \<in> set (filter P fs)" "g \<in> set (filter P fs)" "str_less (lf_name f) (lf_name g)"
    then show "runs_before f g" using that [of f g] by (simp add: runs_before_def)
  qed
  have "sorted_wrt runs_before (filter (\<lambda>f. lf_state f = RELEASED \<or> lf_state f = ARCHIVED) fs)"
      "sorted_wrt runs_before (filter (\<lambda>f. lf_state f = CUSTOM) fs)" "sorted_wrt runs_before (filter (\<lambda>f. lf_state f = MODULE) fs)"
    by (rule flt; auto)+
  then show ?thesis by (auto simp: update_order_def sorted_wrt_append) (auto simp: runs_before_def)
qed

lemma runs_before_distinct: "sorted_wrt runs_before fs \<Longrightarrow> names_sorted gs \<Longrightarrow> set fs = set gs \<Longrightarrow> distinct (map lf_name fs)"
proof -
  assume s: "sorted_wrt runs_before fs" and g: "names_sorted gs" "set fs = set gs"
  have "inj_on lf_name (set fs)" using names_sorted_distinct [OF g(1)] g(2) by (simp add: distinct_map)
  moreover have "distinct fs" using s by (induction fs) (auto simp: runs_before_def str_less_irrefl)
  ultimately show "distinct (map lf_name fs)" by (simp add: distinct_map)
qed

lemma ApplyUpdateFile_files:
  "ApplyUpdateFile env fl available h f s = Inr s' \<Longrightarrow> us_files s' = us_files s \<or> us_files s' = us_files s @ [lf_name f]"
  by (auto simp: ApplyUpdateFile_def Let_def update_ops apply_and_record_def split: if_splits option.splits)

lemma apply_files_run:
  "apply_files env fl available h fs s = Inr s' \<Longrightarrow>
     \<exists>run. us_files s' = us_files s @ map lf_name run \<and> set run \<subseteq> set fs \<and> (sorted_wrt P fs \<longrightarrow> sorted_wrt P run)"
proof (induction fs arbitrary: s)
  case (Cons f fs)
  obtain s1 where s1: "ApplyUpdateFile env fl available h f s = Inr s1" "apply_files env fl available h fs s1 = Inr s'"
    using Cons.prems by (auto split: sum.splits)
  obtain run where run: "us_files s' = us_files s1 @ map lf_name run" "set run \<subseteq> set fs" "sorted_wrt P fs \<longrightarrow> sorted_wrt P run"
    using Cons.IH [OF s1(2)] by blast
  consider "us_files s1 = us_files s" | "us_files s1 = us_files s @ [lf_name f]" using ApplyUpdateFile_files [OF s1(1)] by blast
  then show ?case
  proof cases
    case 1
    then show ?thesis using run by (intro exI [of _ run]) auto
  next
    case 2
    then show ?thesis using run by (intro exI [of _ "f # run"]) auto
  qed
qed simp

lemma cleanup_files [simp]:
  "us_files (cleanup_orphans env fl s) = us_files s" "us_importedUpdates (cleanup_orphans env fl s) = us_importedUpdates s"
  by (simp_all add: cleanup_orphans_def Let_def CleanUp_def)

text \<open>
  The order of updates: the files that \<open>GetFileList\<close> finds have different names, and those that an update
  runs are run in this order: released and archived ones first, then custom ones, then those of modules, and
  within each group by their names.
\<close>

theorem updates_in_order:
  assumes "GetFileList dirs includes uf = Inr available" "Update env fl setDirs available tbl = Inr (res, files, tbl')"
  shows "\<exists>run. files = map lf_name run \<and> set run \<subseteq> set available \<and> sorted_wrt runs_before run \<and> distinct files"
proof -
  have s: "names_sorted available" using GetFileList_sorted [OF assms(1)] .
  have o: "sorted_wrt runs_before (update_order available)" using update_order_sorted [OF s] .
  have "\<exists>run. files = map lf_name run \<and> set run \<subseteq> set available \<and> sorted_wrt runs_before run"
  proof (cases "setDirs \<and> available = []")
    case True
    then show ?thesis using assms(2) by (intro exI [of _ "[]"]) (simp add: Update_def)
  next
    case False
    then obtain s' where s': "apply_files env fl (map lf_name available) (fill_hashes (ue_order env tbl)) (update_order available)
        \<lparr>us_applied = tbl, us_table = tbl, us_files = [], us_importedUpdates = 0\<rparr> = Inr s'" "files = us_files s'"
      using assms(2) by (auto simp: Update_def Let_def split: sum.splits if_splits)
    then show ?thesis using apply_files_run [OF s'(1), of runs_before] o by auto
  qed
  then obtain run where run: "files = map lf_name run" "set run \<subseteq> set available" "sorted_wrt runs_before run" by blast
  have "inj_on lf_name (set run)"
    using names_sorted_distinct [OF s] inj_on_subset [OF _ run(2), of lf_name] by (simp add: distinct_map)
  moreover have "distinct run" using run(3) by (induction run) (auto simp: runs_before_def str_less_irrefl)
  ultimately have "distinct files" by (simp add: run(1) distinct_map)
  then show ?thesis using run by blast
qed

section \<open>Running twice\<close>

lemma DeleteRows_keeps: "n \<notin> set ns \<Longrightarrow> um_find n (exec_stmt (DeleteRows ns) tbl) = um_find n tbl"
  by (induction tbl) (auto simp: um_find_def)

lemma cleanup_keeps:
  assumes "\<And>t. set (ue_order env t) = set t" "um_find n (us_applied s) = None"
  shows "um_find n (us_table (cleanup_orphans env fl s)) = um_find n (us_table s)"
proof -
  have "n \<notin> set (map fst (filter Q (ue_order env (us_applied s))))" for Q
    using assms um_find_None [of n "us_applied s"] by force
  then have "um_find n (us_table (CleanUp (map fst (filter Q (ue_order env (us_applied s)))) s)) = um_find n (us_table s)" for Q
    using DeleteRows_keeps [of n "map fst (filter Q (ue_order env (us_applied s)))" "us_table s"]
    by (simp add: CleanUp_def del: exec_stmt.simps set_map)
  then show ?thesis unfolding cleanup_orphans_def Let_def by (simp del: set_map)
qed

lemma Update_settles:
  assumes "Update env fl setDirs available tbl = Inr (res, files, tbl')" "names_sorted available" "no_copies env available"
    "distinct (map fst tbl)" "\<And>t. set (ue_order env t) = set t" "f \<in> set available"
  shows "settled env fl tbl' f"
proof -
  let ?h = "fill_hashes (ue_order env tbl)" let ?av = "map lf_name available"
  let ?s = "\<lparr>us_applied = tbl, us_table = tbl, us_files = [], us_importedUpdates = 0\<rparr>"
  obtain s where s: "apply_files env fl ?av ?h (update_order available) ?s = Inr s"
      "tbl' = us_table (if us_applied s \<noteq> [] \<and> \<not> setDirs then cleanup_orphans env fl s else s)"
    using assms(1,6) by (auto simp: Update_def Let_def split: sum.splits if_splits)
  have h: "hashes_ok ?h tbl" using fill_hashes_ok [OF assms(4,5)] .
  have "in_step env ?av ?h (update_order available) ?s" using h by (auto simp: in_step_def renames_def hashes_ok_def)
  moreover have "distinct (map lf_name (update_order available))"
    using runs_before_distinct [OF update_order_sorted [OF assms(2)] assms(2)] by simp
  moreover have "no_copies env (update_order available)" using assms(3) by (simp add: no_copies_def)
  ultimately have "settled env fl (us_table s) f" "um_find (lf_name f) (us_applied s) = None"
    using apply_files_settles [OF s(1) _ _ _ _ h] assms(6) by auto
  moreover have "um_find (lf_name f) tbl' = um_find (lf_name f) (us_table s)"
    using s(2) cleanup_keeps [OF assms(5) calculation(2), of fl] by simp
  ultimately show ?thesis using settled_cong [of f tbl' "us_table s"] by simp
qed

text \<open>
  Updates are run once: after an update that succeeds, a second one with the same files and settings
  succeeds, runs no file and reports that none was updated, provided that no two files have the same
  contents. What counts as the order of the hash map does not matter.
\<close>

theorem update_runs_once:
  assumes "GetFileList dirs includes uf = Inr available" "Update env fl setDirs available tbl = Inr (res, files, tbl')"
    "no_copies env available" "distinct (map fst tbl)" "\<And>t. set (ue_order env t) = set t" "\<And>c. ue_sha1 env c \<noteq> []"
  shows "\<exists>res' tbl''. Update env fl setDirs available tbl' = Inr (res', [], tbl'') \<and> rs_updated res' = 0"
proof (cases "setDirs \<and> available = []")
  case True
  then show ?thesis by (simp add: Update_def)
next
  case False
  have s: "names_sorted available" using GetFileList_sorted [OF assms(1)] .
  have "file_hash env c \<noteq> []" for c
    using assms(6) [of c] by (cases "ue_sha1 env c") (simp_all add: file_hash_def ByteArrayToHexStr_eq sprintf_02X_def)
  moreover have "\<forall>f\<in>set (update_order available). settled env fl tbl' f"
    using Update_settles [OF assms(2) s assms(3-5)] by simp
  moreover have "distinct (map lf_name (update_order available))"
    using runs_before_distinct [OF update_order_sorted [OF s] s] by simp
  ultimately obtain s' where "apply_files env fl (map lf_name available) (fill_hashes (ue_order env tbl')) (update_order available)
      \<lparr>us_applied = tbl', us_table = tbl', us_files = [], us_importedUpdates = 0\<rparr> = Inr s'" "us_files s' = []" "us_importedUpdates s' = 0"
    using apply_files_noop [of "update_order available" env fl "\<lparr>us_applied = tbl', us_table = tbl', us_files = [], us_importedUpdates = 0\<rparr>"
        "map lf_name available" "fill_hashes (ue_order env tbl')"] by auto
  then show ?thesis using False by (auto simp: Update_def Let_def)
qed

section \<open>An example\<close>

definition example_env :: update_env where
  "example_env = \<lparr>ue_sha1 = (\<lambda>c. 0 # c), ue_apply_ok = (\<lambda>_. True), ue_speed = (\<lambda>_. 7), ue_order = (\<lambda>t. t)\<rparr>"

definition example_flags :: update_flags where
  "example_flags = \<lparr>fl_redundancyChecks = True, fl_allowRehash = True, fl_archivedRedundancy = False, fl_cleanDeadReferencesMaxCount = 3\<rparr>"

definition example_fetcher :: fetcher where
  "example_fetcher = \<lparr>uf_sourceDirectory = [], uf_dbModuleName = [], uf_setDirectories = None, uf_modulesList = []\<rparr>"

definition example_dirs :: directories where
  "example_dirs p = (if p = [0x75] then Some [FileNode (bytes_of ''b.sql'') (Some [2]), FileNode (bytes_of ''a.sql'') (Some [1])] else None)"

definition example_files :: "locale_file list" where
  "example_files =
     [\<lparr>lf_name = bytes_of ''a.sql'', lf_content = Some [1], lf_state = RELEASED\<rparr>,
      \<lparr>lf_name = bytes_of ''b.sql'', lf_content = Some [2], lf_state = RELEASED\<rparr>]"

lemma example_GetFileList: "GetFileList example_dirs (Some [([0x75], bytes_of ''RELEASED'')]) example_fetcher = Inr example_files"
  by code_simp

lemma example_Update:
  "\<exists>res tbl'. Update example_env example_flags False example_files [] = Inr (res, [bytes_of ''a.sql'', bytes_of ''b.sql''], tbl')"
proof -
  have "(case Update example_env example_flags False example_files [] of Inl _ \<Rightarrow> False
      | Inr (res, files, tbl') \<Rightarrow> files = [bytes_of ''a.sql'', bytes_of ''b.sql''])" by code_simp
  then show ?thesis by (auto split: sum.splits prod.splits)
qed

theorem updates_in_order_witness:
  "\<exists>res tbl'. Update example_env example_flags False example_files [] = Inr (res, [bytes_of ''a.sql'', bytes_of ''b.sql''], tbl') \<and>
    (\<exists>run. [bytes_of ''a.sql'', bytes_of ''b.sql''] = map lf_name run \<and> sorted_wrt runs_before run)"
proof -
  obtain res tbl' where u: "Update example_env example_flags False example_files [] = Inr (res, [bytes_of ''a.sql'', bytes_of ''b.sql''], tbl')"
    using example_Update by blast
  obtain run where "[bytes_of ''a.sql'', bytes_of ''b.sql''] = map lf_name run" "sorted_wrt runs_before run"
    using updates_in_order [OF example_GetFileList u] by (elim exE conjE)
  with u show ?thesis by (intro exI conjI)
qed

theorem update_runs_once_witness:
  "\<exists>res files tbl' res' tbl''. Update example_env example_flags False example_files [] = Inr (res, files, tbl') \<and>
    Update example_env example_flags False example_files tbl' = Inr (res', [], tbl'')"
proof -
  obtain res tbl' where u: "Update example_env example_flags False example_files [] = Inr (res, [bytes_of ''a.sql'', bytes_of ''b.sql''], tbl')"
    using example_Update by blast
  have "no_copies example_env example_files" by code_simp
  then show ?thesis using update_runs_once [OF example_GetFileList u] u by (auto simp: example_env_def)
qed

text \<open>
  Two copies of an update whose own file is gone: the row is renamed to the first copy, and the second is neither run nor
  recorded, so that the next update runs it.
\<close>

lemma renamed_copy_lost:
  "case Update example_env example_flags False
      [\<lparr>lf_name = bytes_of ''x.sql'', lf_content = Some [1], lf_state = RELEASED\<rparr>,
       \<lparr>lf_name = bytes_of ''y.sql'', lf_content = Some [1], lf_state = RELEASED\<rparr>]
      [(bytes_of ''old.sql'', \<lparr>ur_hash = file_hash example_env [1], ur_state = RELEASED, ur_speed = 0\<rparr>)] of
     Inl _ \<Rightarrow> False
   | Inr (res, files, tbl') \<Rightarrow> files = [] \<and> um_find (bytes_of ''y.sql'') tbl' = None \<and>
       (case Update example_env example_flags False
          [\<lparr>lf_name = bytes_of ''x.sql'', lf_content = Some [1], lf_state = RELEASED\<rparr>,
           \<lparr>lf_name = bytes_of ''y.sql'', lf_content = Some [1], lf_state = RELEASED\<rparr>] tbl' of
          Inl _ \<Rightarrow> False | Inr (_, files', _) \<Rightarrow> files' = [bytes_of ''y.sql''])"
  by code_simp
end
