(* ===== verification/Framing.thy ===== *)
theory Framing
  imports DiscordSocket
begin

text \<open>
  What the receive loop of \<open>DiscordSocket::ReadHandler\<close> computes, stated without its buffers: an
  automaton that takes the stream byte by byte, collects six header bytes, then the announced
  payload, and delivers the packet. The loop works on whatever blocks the operating system
  hands over; the refinement lemma says that it computes the automaton, and it follows that the
  cut of the stream into blocks does not matter.
\<close>

section \<open>The automaton\<close>

datatype rstate = RHeader "uint8 list" | RPayload uint16 nat "uint8 list"

text \<open>The state of the socket without the three receive buffers and the outstanding read.\<close>

definition ds_core :: "discord_socket \<Rightarrow> discord_socket" where
  "ds_core s = s\<lparr>sk_reading := False, sk_readBuffer := MessageBuffer_sized 0, ds_headerBuffer := MessageBuffer_sized 0,
     ds_packetBuffer := MessageBuffer_sized 0\<rparr>"

definition wire_header :: "uint8 list \<Rightarrow> client_header" where
  "wire_header bs = \<lparr>ch_size = le_word (rev (take 4 bs)), ch_cmd = le_word (drop 4 bs)\<rparr>"

definition deliver ::
  "read_env \<Rightarrow> uint16 \<Rightarrow> uint8 list \<Rightarrow> discord_socket \<Rightarrow> (loop_step \<times> discord_socket) res" where
  "deliver env cmd payload w =
     (let (r, w') = handle_packet env
            \<lparr>dp_opcode = cmd, dp_buf = \<lparr>bb_rpos = 0, bb_wpos = 0, bb_storage = payload\<rparr>\<rparr> w
      in bindr r (\<lambda>result.
           Inr (case result of
                  RdhOk \<Rightarrow> (LoopContinue, w')
                | RdhError \<Rightarrow> (LoopReturn, CloseSocket ds_OnClose w')
                | RdhWaitingForQuery \<Rightarrow> (LoopReturn, w'))))"

fun feed_byte ::
  "read_env \<Rightarrow> rstate \<Rightarrow> discord_socket \<Rightarrow> uint8 \<Rightarrow> (loop_step \<times> rstate \<times> discord_socket) res" where
  "feed_byte env (RHeader hb) w b =
     (let hb' = hb @ [b]; hdr = wire_header hb' in
      if length hb' < header_length then Inr (LoopContinue, RHeader hb', w)
      else if \<not> IsValidSize hdr \<or> \<not> IsValidOpcode hdr
      then Inr (LoopReturn, RHeader [], CloseSocket ds_OnClose w)
      else if unat (ch_size hdr) = 2
      then bindr (deliver env (ch_cmd hdr) [] w) (\<lambda>(step, w'). Inr (step, RHeader [], w'))
      else Inr (LoopContinue, RPayload (ch_cmd hdr) (unat (ch_size hdr) - 2) [], w))"
| "feed_byte env (RPayload cmd n pb) w b =
     (if length pb + 1 < n then Inr (LoopContinue, RPayload cmd n (pb @ [b]), w)
      else bindr (deliver env cmd (pb @ [b]) w) (\<lambda>(step, w'). Inr (step, RHeader [], w')))"

text \<open>The automaton on a list of bytes; it may stop early, and then bytes are left over.\<close>

fun feed ::
  "read_env \<Rightarrow> rstate \<Rightarrow> discord_socket \<Rightarrow> uint8 list \<Rightarrow> (loop_step \<times> rstate \<times> discord_socket \<times> uint8 list) res" where
  "feed env st w [] = Inr (LoopBreak, st, w, [])"
| "feed env st w (b # bs) =
     bindr (feed_byte env st w b) (\<lambda>(step, st', w').
       if step = LoopReturn then Inr (LoopReturn, st', w', bs) else feed env st' w' bs)"

lemma feed_append:
  "feed env st w (as @ bs) =
     bindr (feed env st w as) (\<lambda>(step, st', w', left).
       if step = LoopReturn then Inr (LoopReturn, st', w', left @ bs) else feed env st' w' bs)"
  by (induction as arbitrary: st w) (auto simp: bindr_assoc split_beta intro!: bindr_cong)

lemma feed_header_part:
  "length (hb @ bs) < header_length \<Longrightarrow> feed env (RHeader hb) w (bs @ rest) = feed env (RHeader (hb @ bs)) w rest"
  by (induction bs arbitrary: hb) (simp_all add: Let_def)

lemma feed_payload_part:
  "length (pb @ bs) < n \<Longrightarrow> feed env (RPayload cmd n pb) w (bs @ rest) = feed env (RPayload cmd n (pb @ bs)) w rest"
  by (induction bs arbitrary: pb) simp_all

text \<open>The automaton at a complete payload, and before it.\<close>

definition feed_payload ::
  "read_env \<Rightarrow> uint16 \<Rightarrow> nat \<Rightarrow> uint8 list \<Rightarrow> discord_socket \<Rightarrow> uint8 list \<Rightarrow>
   (loop_step \<times> rstate \<times> discord_socket \<times> uint8 list) res" where
  "feed_payload env cmd n pb w bs =
     (if length pb < n then feed env (RPayload cmd n pb) w bs
      else bindr (deliver env cmd pb w) (\<lambda>(step, w').
        if step = LoopReturn then Inr (LoopReturn, RHeader [], w', bs) else feed env (RHeader []) w' bs))"

lemma feed_payload_append:
  assumes "length (pb @ bs) \<le> n" "bs = [] \<or> length pb < n"
  shows "feed_payload env cmd n pb w (bs @ rest) = feed_payload env cmd n (pb @ bs) w rest"
proof (cases bs rule: rev_cases)
  case (snoc cs b)
  with assms have "length (pb @ cs) < n" by simp
  from feed_payload_part [OF this, of env cmd w "b # rest"] snoc assms show ?thesis
    by (auto simp: feed_payload_def bindr_assoc split_beta intro!: bindr_cong)
qed simp

lemma feed_header_full:
  assumes "length (hb @ hs) = header_length" "length hb < header_length"
  shows "feed env (RHeader hb) w (hs @ rest) =
    (let hdr = wire_header (hb @ hs) in
     if \<not> IsValidSize hdr \<or> \<not> IsValidOpcode hdr
     then Inr (LoopReturn, RHeader [], CloseSocket ds_OnClose w, rest)
     else feed_payload env (ch_cmd hdr) (unat (ch_size hdr) - 2) [] w rest)"
proof -
  obtain cs b where hs: "hs = cs @ [b]" using assms by (cases hs rule: rev_cases) auto
  with assms have l: "length (hb @ cs) < header_length" "length (hb @ cs @ [b]) = header_length" by simp_all
  have v: "unat (ch_size hdr) = 2 \<longleftrightarrow> \<not> 0 < unat (ch_size hdr) - 2" if "IsValidSize hdr" for hdr
    using that by (auto simp: IsValidSize_def word_le_nat_alt)
  show ?thesis
  proof (cases "IsValidSize (wire_header (hb @ hs)) \<and> IsValidOpcode (wire_header (hb @ hs))")
    case True
    with v [of "wire_header (hb @ hs)"] feed_header_part [OF l(1), of env w "b # rest"] l hs show ?thesis
      by (simp add: Let_def feed_payload_def bindr_assoc)
        (auto simp: split_beta intro!: bindr_cong)
  next
    case False
    with feed_header_part [OF l(1), of env w "b # rest"] l hs show ?thesis by (simp add: Let_def)
  qed
qed

section \<open>The buffers of the loop\<close>

definition buf_with :: "nat \<Rightarrow> uint8 list \<Rightarrow> message_buffer \<Rightarrow> bool" where
  "buf_with n bs m \<longleftrightarrow> mb_rpos m = 0 \<and> mb_wpos m = length bs \<and> length (mb_storage m) = n
     \<and> take (length bs) (mb_storage m) = bs \<and> n < 2 ^ 60"

fun framed :: "endian \<Rightarrow> rstate \<Rightarrow> discord_socket \<Rightarrow> bool" where
  "framed h (RHeader hb) s \<longleftrightarrow> buf_with header_length hb (ds_headerBuffer s) \<and> length hb < header_length
     \<and> (\<exists>n. buf_with n [] (ds_packetBuffer s))"
| "framed h (RPayload cmd n pb) s \<longleftrightarrow>
     (\<exists>bs. buf_with header_length bs (ds_headerBuffer s) \<and> length bs = header_length \<and> ch_cmd (header_of_bytes h bs) = cmd)
     \<and> buf_with n pb (ds_packetBuffer s) \<and> length pb < n"

lemma buf_with_le: "buf_with n bs m \<Longrightarrow> length bs \<le> n"
  by (metis buf_with_def length_take min.absorb_iff1 min.commute)

lemma buf_with_simps:
  assumes "buf_with n bs m"
  shows "mb_inv m" "mb_active m = bs" "mb_GetRemainingSpace m = n - length bs"
    "mb_HasRemainingSpace m \<longleftrightarrow> length bs < n" "mb_GetActiveSize m = length bs"
proof -
  show i: "mb_inv m" and a: "mb_active m = bs"
    using assms buf_with_le [OF assms] by (auto simp: buf_with_def mb_inv_def mb_active_def)
  then show r: "mb_GetRemainingSpace m = n - length bs" "mb_GetActiveSize m = length bs"
    using assms by (simp_all add: buf_with_def)
  show "mb_HasRemainingSpace m \<longleftrightarrow> length bs < n" by (simp add: mb_HasRemainingSpace_def r)
qed

lemma buf_with_Write:
  assumes "buf_with n bs m" "length bs + length cs \<le> n"
  shows "\<exists>m'. mb_Write cs m = Inr m' \<and> buf_with n (bs @ cs) m'"
proof -
  note b = buf_with_simps [OF assms(1)]
  have "length cs \<le> mb_GetRemainingSpace m" using b(3) assms(2) by simp
  from mb_Write_ok [OF b(1) this] b(2) assms(1) obtain m' where
    m': "mb_Write cs m = Inr m'" "mb_inv m'" "mb_active m' = bs @ cs" "mb_rpos m' = 0"
      "mb_wpos m' = length bs + length cs" "length (mb_storage m') = n"
    by (auto simp: buf_with_def)
  then have "take (length (bs @ cs)) (mb_storage m') = bs @ cs" by (simp add: mb_active_def)
  with m' assms(1) show ?thesis by (auto simp: buf_with_def)
qed

lemma buf_with_Reset: "buf_with n bs m \<Longrightarrow> buf_with n [] (mb_Reset m)"
  by (simp add: buf_with_def mb_Reset_def)

lemma buf_with_Resize: "buf_with n [] m \<Longrightarrow> k < 2 ^ 60 \<Longrightarrow> buf_with k [] (mb_Resize k m)"
  by (simp add: buf_with_def mb_Resize_def)

lemma fill_buffer_ok:
  assumes "mb_inv r" "buf_with n bs t"
  defines "k \<equiv> min (length (mb_active r)) (n - length bs)"
  shows "\<exists>r' t'. fill_buffer r t = Inr (r', t') \<and> mb_inv r' \<and> mb_active r' = drop k (mb_active r)
     \<and> length (mb_storage r') = length (mb_storage r) \<and> buf_with n (bs @ take k (mb_active r)) t'"
proof -
  note b = buf_with_simps [OF assms(2)] and le = buf_with_le [OF assms(2)]
  have k: "k \<le> length (mb_active r)" "length bs + k \<le> n" using le by (auto simp: k_def)
  note c = mb_ReadCompleted_active [OF assms(1) k(1)]
  from buf_with_Write [OF assms(2), of "take k (mb_active r)"] k obtain t' where
    t': "mb_Write (take k (mb_active r)) t = Inr t'" "buf_with n (bs @ take k (mb_active r)) t'" by auto
  have "min (mb_GetActiveSize r) (mb_GetRemainingSpace t) = k" using assms(1) b by (simp add: k_def)
  with t' c mb_peek_ok [OF assms(1) k(1)] show ?thesis by (simp add: fill_buffer_def)
qed

section \<open>Handlers and the buffers\<close>

text \<open>An operation that neither looks at the three receive buffers nor changes them.\<close>

definition buffer_free :: "(discord_socket \<Rightarrow> 'r \<times> discord_socket) \<Rightarrow> bool" where
  "buffer_free f \<longleftrightarrow> (\<forall>s. f (ds_core s) = (fst (f s), ds_core (snd (f s)))
     \<and> sk_readBuffer (snd (f s)) = sk_readBuffer s \<and> ds_headerBuffer (snd (f s)) = ds_headerBuffer s
     \<and> ds_packetBuffer (snd (f s)) = ds_packetBuffer s)"

lemma ping_speed_free: "buffer_free (ping_speed now)"
  by (simp add: buffer_free_def ping_speed_def Let_def ds_core_def)

lemma HandleAuthSession_free: "buffer_free (HandleAuthSession h p)"
  unfolding buffer_free_def HandleAuthSession_def by (auto simp: ds_core_def split: sum.split)

lemma answer_ping_free:
  "buffer_free (\<lambda>s. case ds_discordSession s of
      None \<Rightarrow> (Inr False, s)
    | Some session \<Rightarrow>
        (let s2 = ds_emit (SessionSetLatency session latency) s in
         case pong of
           Inl e \<Rightarrow> (Inl e, s2)
         | Inr b \<Rightarrow> (Inr True, ds_SendPacket \<lparr>dp_opcode = c, dp_buf = b\<rparr> s2)))"
  by (auto simp: buffer_free_def ds_emit_def ds_SendPacket_def sk_IsOpen_def ds_core_def Let_def
      split: sum.split option.split)

lemma HandlePing_free: "buffer_free (HandlePing h now p)"
proof -
  have "buffer_free (\<lambda>s. let (kick, s1) = ping_speed now s in if kick then (Inr False, s1) else f s1)"
    if "buffer_free f" for f
    using that ping_speed_free [of now] by (auto simp: buffer_free_def Let_def split_beta)
  note 1 = this [OF answer_ping_free]
  show ?thesis
  proof (cases "bindr (shr_int64 h (dp_buf p)) (\<lambda>(timePacket, b1).
           bindr (shr_int64 h b1) (\<lambda>(latency, b2). Inr (timePacket, latency)))")
    case (Inl e)
    then show ?thesis by (simp add: HandlePing_def buffer_free_def)
  next
    case (Inr tl)
    obtain t l where tl: "tl = (t, l)" by (cases tl)
    show ?thesis unfolding HandlePing_def [abs_def] Inr tl sum.case prod.case by (rule 1)
  qed
qed

lemma catch_free:
  assumes "buffer_free f"
  shows "buffer_free (\<lambda>s. case f s of (Inr x, s') \<Rightarrow> (Inr (g x), s')
      | (Inl e, s') \<Rightarrow> (if is_thrown e then Inr RdhError else Inl e, s'))"
  using assms by (auto simp: buffer_free_def split_beta split: sum.split)

lemma handle_packet_free: "buffer_free (handle_packet env p)"
proof -
  note ping = catch_free [OF HandlePing_free] and auth = catch_free [OF HandleAuthSession_free, where g = "\<lambda>_. RdhWaitingForQuery"]
  have session: "buffer_free (\<lambda>s. case ds_discordSession s of
           None \<Rightarrow> (Inr RdhError, s)
         | Some session \<Rightarrow>
             (case opcode_lookup tbl opcode of
                Inl e \<Rightarrow> (Inl e, s)
              | Inr None \<Rightarrow> (Inr RdhError, s)
              | Inr (Some handler) \<Rightarrow> (Inr RdhOk, ds_emit (SessionQueuePacket session p) s)))" for tbl opcode
    by (auto simp: buffer_free_def ds_emit_def ds_core_def split: sum.split option.split)
  have authed: "buffer_free (\<lambda>s. if ds_authed s then
           (if ds_discordSession s = None then (Inl e, s) else (Inr RdhError, s)) else f s)"
    if "buffer_free f" for f e
    using that by (auto simp: buffer_free_def ds_core_def)
  show ?thesis
    unfolding handle_packet_def [abs_def] Let_def
    using ping authed [OF auth] session by (simp add: buffer_free_def)
qed

lemmas handle_packet_core = handle_packet_free [unfolded buffer_free_def, rule_format]

lemma close_core:
  "ds_core (CloseSocket ds_OnClose s) = CloseSocket ds_OnClose (ds_core s)"
  "sk_readBuffer (CloseSocket ds_OnClose s) = sk_readBuffer s"
  "ds_headerBuffer (CloseSocket ds_OnClose s) = ds_headerBuffer s"
  "ds_packetBuffer (CloseSocket ds_OnClose s) = ds_packetBuffer s"
  by (simp_all add: CloseSocket_def ds_OnClose_def ds_core_def)

lemma core_update [simp]:
  "ds_core (s\<lparr>sk_readBuffer := r\<rparr>) = ds_core s" "ds_core (s\<lparr>ds_headerBuffer := m\<rparr>) = ds_core s"
  "ds_core (s\<lparr>ds_packetBuffer := m\<rparr>) = ds_core s" "sk_closed (ds_core s) = sk_closed s"
  "ds_core (s\<lparr>sk_reading := b\<rparr>) = ds_core s" "sk_closing (ds_core s) = sk_closing s"
  "ds_authed (ds_core s) = ds_authed s" "ds_discordSession (ds_core s) = ds_discordSession s"
  by (simp_all add: ds_core_def)

section \<open>The loop computes the automaton\<close>

text \<open>How a result of the loop answers a result of the automaton; \<open>n\<close> is the size of the read
  buffer's storage, which the loop keeps.\<close>

definition answers ::
  "endian \<Rightarrow> nat \<Rightarrow> (loop_step \<times> discord_socket) res option \<Rightarrow>
   (loop_step \<times> rstate \<times> discord_socket \<times> uint8 list) res \<Rightarrow> bool" where
  "answers h n impl spec \<longleftrightarrow>
     (case spec of
        Inl e \<Rightarrow> impl = Some (Inl e)
      | Inr (step, st, w, rest) \<Rightarrow>
          (\<exists>s'. impl = Some (Inr (step, s')) \<and> ds_core s' = w \<and> mb_inv (sk_readBuffer s')
             \<and> length (mb_storage (sk_readBuffer s')) = n \<and> mb_active (sk_readBuffer s') = rest
             \<and> (sk_closed s' \<or> framed h st s')))"

lemma ReadDataHandler_deliver:
  assumes "buf_with header_length bs (ds_headerBuffer s)" "length bs = header_length"
    and "buf_with n pb (ds_packetBuffer s)" "length pb = n"
    and cmd: "cmd = ch_cmd (header_of_bytes (re_host env) bs)"
    and r: "r = bindr (ReadDataHandler env s) (\<lambda>(result, s2). Inr (finish_packet result s2))"
  shows "case deliver env cmd pb (ds_core s) of
      Inl e \<Rightarrow> r = Inl e
    | Inr (step, w) \<Rightarrow> step \<noteq> LoopBreak \<and> (\<exists>s'. r = Inr (step, s') \<and> ds_core s' = w
        \<and> sk_readBuffer s' = sk_readBuffer s \<and> framed (re_host env) (RHeader []) s')"
proof -
  have pk: "mb_peek header_length (ds_headerBuffer s) = Inr bs"
    using mb_peek_ok [OF buf_with_simps(1) [OF assms(1)], of header_length] assms(2)
    by (simp add: buf_with_simps(2) [OF assms(1)])
  have st: "mb_storage (ds_packetBuffer s) = pb" using assms(3,4) by (auto simp: buf_with_def)
  let ?p = "\<lparr>dp_opcode = cmd, dp_buf = \<lparr>bb_rpos = 0, bb_wpos = 0, bb_storage = pb\<rparr>\<rparr>"
  let ?s = "s\<lparr>ds_packetBuffer := (ds_packetBuffer s)\<lparr>mb_wpos := 0, mb_rpos := 0, mb_storage := []\<rparr>\<rparr>"
  have rd: "ReadDataHandler env s = bindr (fst (handle_packet env ?p ?s)) (\<lambda>result. Inr (result, snd (handle_packet env ?p ?s)))"
    by (simp add: ReadDataHandler_def pk Let_def split_beta DiscordPacket_of_MessageBuffer_def
        ByteBuffer_of_MessageBuffer_def mb_Move_def st cmd)
  note c = handle_packet_core [of env ?p ?s]
  have d: "deliver env cmd pb (ds_core s) = bindr (fst (handle_packet env ?p ?s)) (\<lambda>result.
      Inr (case result of RdhOk \<Rightarrow> (LoopContinue, ds_core (snd (handle_packet env ?p ?s)))
        | RdhError \<Rightarrow> (LoopReturn, CloseSocket ds_OnClose (ds_core (snd (handle_packet env ?p ?s))))
        | RdhWaitingForQuery \<Rightarrow> (LoopReturn, ds_core (snd (handle_packet env ?p ?s)))))"
    using c by (simp add: deliver_def)
  have e: "buf_with 0 [] ((ds_packetBuffer s)\<lparr>mb_wpos := 0, mb_rpos := 0, mb_storage := []\<rparr>)"
    by (simp add: buf_with_def)
  have h0: "(0 :: nat) < header_length" by (simp add: header_length_def)
  show ?thesis
  proof (cases "fst (handle_packet env ?p ?s)")
    case (Inl e)
    with r show ?thesis by (simp add: rd d)
  next
    case (Inr result)
    with r c e h0 buf_with_Reset [OF assms(1)] show ?thesis
      by (cases result) (auto simp: rd d finish_packet_def Let_def close_core)
  qed
qed

text \<open>The payload part of an iteration. It ends the loop inside a payload, or delivers the packet
  and has then taken the rest of the payload.\<close>

lemma read_payload_step:
  assumes "buf_with header_length bs (ds_headerBuffer s)" "length bs = header_length"
    and cmd: "cmd = ch_cmd (header_of_bytes (re_host env) bs)"
    and pb: "buf_with n pb (ds_packetBuffer s)" and r: "mb_inv (sk_readBuffer s)"
  defines "as \<equiv> mb_active (sk_readBuffer s)"
  shows "if length pb + length as < n
    then \<exists>s'. read_payload env s = Inr (LoopBreak, s') \<and> ds_core s' = ds_core s \<and> mb_inv (sk_readBuffer s')
       \<and> length (mb_storage (sk_readBuffer s')) = length (mb_storage (sk_readBuffer s))
       \<and> mb_active (sk_readBuffer s') = [] \<and> framed (re_host env) (RPayload cmd n (pb @ as)) s'
    else (case deliver env cmd (pb @ take (n - length pb) as) (ds_core s) of
        Inl e \<Rightarrow> read_payload env s = Inl e
      | Inr (step, w) \<Rightarrow> step \<noteq> LoopBreak \<and> (\<exists>s'. read_payload env s = Inr (step, s') \<and> ds_core s' = w
          \<and> mb_inv (sk_readBuffer s') \<and> length (mb_storage (sk_readBuffer s')) = length (mb_storage (sk_readBuffer s))
          \<and> mb_active (sk_readBuffer s') = drop (n - length pb) as \<and> framed (re_host env) (RHeader []) s'))"
proof -
  note le = buf_with_le [OF pb]
  define k where "k = min (length as) (n - length pb)"
  from fill_buffer_ok [OF r pb] obtain r' t' where
    f: "fill_buffer (sk_readBuffer s) (ds_packetBuffer s) = Inr (r', t')" "mb_inv r'" "mb_active r' = drop k as"
      "length (mb_storage r') = length (mb_storage (sk_readBuffer s))" "buf_with n (pb @ take k as) t'"
    by (auto simp: k_def as_def)
  define s1 where "s1 = (if length pb < n then s\<lparr>sk_readBuffer := r', ds_packetBuffer := t'\<rparr> else s)"
  have s1: "mb_inv (sk_readBuffer s1)" "mb_active (sk_readBuffer s1) = drop k as"
    "length (mb_storage (sk_readBuffer s1)) = length (mb_storage (sk_readBuffer s))"
    "buf_with n (pb @ take k as) (ds_packetBuffer s1)" "ds_core s1 = ds_core s"
    "ds_headerBuffer s1 = ds_headerBuffer s"
    using f r pb le by (auto simp: s1_def k_def as_def)
  have e: "read_payload env s =
      (if length (pb @ take k as) < n
       then (if mb_HasActiveSize (sk_readBuffer s1) then Inl (AssertFailure ''!packet.HasActiveSize()'')
             else Inr (LoopBreak, s1))
       else bindr (ReadDataHandler env s1) (\<lambda>(result, s2). Inr (finish_packet result s2)))"
  proof -
    have "(if mb_HasRemainingSpace (ds_packetBuffer s)
        then bindr (fill_buffer (sk_readBuffer s) (ds_packetBuffer s))
               (\<lambda>(r, p). Inr (s\<lparr>sk_readBuffer := r, ds_packetBuffer := p\<rparr>))
        else Inr s) = Inr s1"
      using f(1) buf_with_simps(4) [OF pb] by (simp add: s1_def)
    then show ?thesis
      unfolding read_payload_def using buf_with_simps(4) [OF s1(4)] by simp
  qed
  show ?thesis
  proof (cases "length pb + length as < n")
    case True
    then have k: "k = length as" by (simp add: k_def)
    with True e s1 have "read_payload env s = Inr (LoopBreak, s1)" by (simp add: mb_HasActiveSize_def)
    with True k s1 assms(1-3) show ?thesis by auto
  next
    case False
    then have k: "k = n - length pb" "length (pb @ take k as) = n" using le by (simp_all add: k_def)
    have "read_payload env s = bindr (ReadDataHandler env s1) (\<lambda>(result, s2). Inr (finish_packet result s2))"
      using e k(2) by simp
    from ReadDataHandler_deliver [OF _ assms(2) s1(4) k(2) cmd this] s1 assms(1) False k(1) show ?thesis
      by (auto split: sum.splits)
  qed
qed

lemma header_bytes_of [simp]: "header_of_bytes h (bytes_of_header h hdr) = hdr"
  by (simp add: header_of_bytes_def bytes_of_header_def)

lemma length_bytes_of_header [simp]: "length (bytes_of_header h hdr) = header_length"
  by (simp add: bytes_of_header_def header_length_def)

lemma raw_header:
  assumes "length bs = header_length"
  shows "\<lparr>ch_size = EndianConvertReverse h (ch_size (header_of_bytes h bs)),
      ch_cmd = EndianConvert h (ch_cmd (header_of_bytes h bs))\<rparr> = wire_header bs"
  using assms by (simp add: header_of_bytes_def wire_header_def header_length_def
      EndianConvertReverse_from_wire EndianConvert_from_wire)

lemma set_header_ok:
  assumes "buf_with header_length bs m" "length bs = header_length"
  shows "\<exists>m'. set_header h hdr m = Inr m' \<and> buf_with header_length (bytes_of_header h hdr) m'"
  using assms by (auto simp: set_header_def buf_with_def storage)

lemma ReadHeaderHandler_ok:
  assumes b: "buf_with header_length bs (ds_headerBuffer s)" "length bs = header_length"
    and p: "buf_with n [] (ds_packetBuffer s)"
  defines "hdr \<equiv> wire_header bs"
  shows "\<exists>s'. ReadHeaderHandler h s = Inr (IsValidSize hdr \<and> IsValidOpcode hdr, s') \<and> ds_core s' = ds_core s
    \<and> sk_readBuffer s' = sk_readBuffer s \<and> (IsValidSize hdr \<and> IsValidOpcode hdr \<longrightarrow>
      (\<exists>bs'. buf_with header_length bs' (ds_headerBuffer s') \<and> length bs' = header_length
         \<and> ch_cmd hdr = ch_cmd (header_of_bytes h bs') \<and> buf_with (unat (ch_size hdr) - 2) [] (ds_packetBuffer s')))"
proof -
  note x = buf_with_simps [OF b(1)]
  have pk: "mb_peek header_length (ds_headerBuffer s) = Inr bs" using mb_peek_ok [OF x(1)] x(2) b(2) by simp
  let ?hdr' = "hdr\<lparr>ch_size := ch_size hdr - 2\<rparr>"
  obtain m m' where m: "set_header h hdr (ds_headerBuffer s) = Inr m"
    "set_header h ?hdr' (ds_headerBuffer s) = Inr m'" "buf_with header_length (bytes_of_header h ?hdr') m'"
    using set_header_ok [OF b] by metis
  show ?thesis
  proof (cases "IsValidSize hdr \<and> IsValidOpcode hdr")
    case False
    with m(1) x(5) b(2) pk show ?thesis
      by (auto simp: ReadHeaderHandler_def raw_header [OF b(2)] hdr_def [symmetric] Let_def)
  next
    case True
    then have "ch_size hdr \<ge> 2" by (simp add: IsValidSize_def)
    then have u: "unat (ch_size hdr - 2) = unat (ch_size hdr) - 2" by (simp add: unat_sub)
    have "unat (ch_size hdr) - 2 < 2 ^ 60" using unsigned_less [of "ch_size hdr", where 'a = nat] by simp
    from buf_with_Resize [OF p this] have "buf_with (unat (ch_size hdr) - 2) [] (mb_Resize (unat (ch_size hdr) - 2) (ds_packetBuffer s))" .
    with True m(2,3) x(5) b(2) pk u show ?thesis
      by (auto simp: ReadHeaderHandler_def raw_header [OF b(2)] hdr_def [symmetric] Let_def
          intro!: exI [of _ "bytes_of_header h ?hdr'"])
  qed
qed

definition loop_on :: "read_env \<Rightarrow> (loop_step \<times> discord_socket) res \<Rightarrow> (loop_step \<times> discord_socket) res option" where
  "loop_on env r =
     (case r of
        Inl e \<Rightarrow> Some (Inl e)
      | Inr (LoopContinue, s') \<Rightarrow> read_loop env s'
      | Inr (LoopBreak, s') \<Rightarrow> Some (Inr (LoopBreak, s'))
      | Inr (LoopReturn, s') \<Rightarrow> Some (Inr (LoopReturn, s')))"

lemma read_loop_unfold:
  "mb_inv (sk_readBuffer s) \<Longrightarrow> read_loop env s =
     (if mb_active (sk_readBuffer s) \<noteq> [] then loop_on env (read_iteration env s) else Some (Inr (LoopBreak, s)))"
  by (subst read_loop.simps) (simp add: loop_on_def)

lemma payload_answers:
  assumes "buf_with header_length bs (ds_headerBuffer s)" "length bs = header_length"
    and cmd: "cmd = ch_cmd (header_of_bytes (re_host env) bs)"
    and pb: "buf_with n pb (ds_packetBuffer s)" and r: "mb_inv (sk_readBuffer s)"
    and N: "length (mb_storage (sk_readBuffer s)) = N"
    and IH: "\<And>s'. mb_inv (sk_readBuffer s') \<Longrightarrow> framed (re_host env) (RHeader []) s' \<Longrightarrow>
      length (mb_storage (sk_readBuffer s')) = N \<Longrightarrow>
      mb_active (sk_readBuffer s') = drop (n - length pb) (mb_active (sk_readBuffer s)) \<Longrightarrow>
      answers (re_host env) N (read_loop env s') (feed env (RHeader []) (ds_core s') (mb_active (sk_readBuffer s')))"
  shows "answers (re_host env) N (loop_on env (read_payload env s))
    (feed_payload env cmd n pb (ds_core s) (mb_active (sk_readBuffer s)))"
proof -
  let ?as = "mb_active (sk_readBuffer s)"
  note step = read_payload_step [OF assms(1,2) cmd pb r] and le = buf_with_le [OF pb]
  show ?thesis
  proof (cases "length pb + length ?as < n")
    case True
    have "feed_payload env cmd n pb (ds_core s) ?as = Inr (LoopBreak, RPayload cmd n (pb @ ?as), ds_core s, [])"
      using True feed_payload_part [of pb ?as n env cmd "ds_core s" "[]"] by (simp add: feed_payload_def)
    with True step N show ?thesis by (auto simp: answers_def loop_on_def simp del: framed.simps)
  next
    case False
    let ?k = "n - length pb"
    have l: "length (pb @ take ?k ?as) = n" using False le by simp
    have "feed_payload env cmd n pb (ds_core s) (take ?k ?as @ drop ?k ?as)
        = feed_payload env cmd n (pb @ take ?k ?as) (ds_core s) (drop ?k ?as)"
      using l le by (intro feed_payload_append) auto
    then have fp: "feed_payload env cmd n pb (ds_core s) ?as =
        bindr (deliver env cmd (pb @ take ?k ?as) (ds_core s)) (\<lambda>(step, w').
          if step = LoopReturn then Inr (LoopReturn, RHeader [], w', drop ?k ?as)
          else feed env (RHeader []) w' (drop ?k ?as))"
      using l by (simp add: feed_payload_def)
    show ?thesis
    proof (cases "deliver env cmd (pb @ take ?k ?as) (ds_core s)")
      case (Inl e)
      with False step show ?thesis by (simp add: fp answers_def loop_on_def)
    next
      case (Inr q)
      obtain st w where q: "q = (st, w)" by (cases q)
      with Inr False step N obtain s' where s': "read_payload env s = Inr (st, s')" "ds_core s' = w"
        "mb_inv (sk_readBuffer s')" "length (mb_storage (sk_readBuffer s')) = N"
        "mb_active (sk_readBuffer s') = drop ?k ?as" "framed (re_host env) (RHeader []) s'" "st \<noteq> LoopBreak"
        by (auto simp del: framed.simps)
      show ?thesis
      proof (cases st)
        case LoopContinue
        with IH [OF s'(3,6,4,5)] s' Inr q show ?thesis by (simp add: fp loop_on_def)
      next
        case LoopReturn
        with s' Inr q show ?thesis by (simp add: fp loop_on_def answers_def)
      qed (use s'(7) in simp)
    qed
  qed
qed

lemma read_header_step:
  assumes r: "mb_inv (sk_readBuffer s)" and hb: "buf_with header_length hb (ds_headerBuffer s)" "length hb < header_length"
    and pb: "buf_with n [] (ds_packetBuffer s)"
  defines "as \<equiv> mb_active (sk_readBuffer s)" and "k \<equiv> header_length - length hb"
  defines "hdr \<equiv> wire_header (hb @ take k as)"
  shows "if length as < k
    then \<exists>s'. read_iteration env s = Inr (LoopBreak, s') \<and> ds_core s' = ds_core s \<and> mb_inv (sk_readBuffer s')
       \<and> length (mb_storage (sk_readBuffer s')) = length (mb_storage (sk_readBuffer s))
       \<and> mb_active (sk_readBuffer s') = [] \<and> framed (re_host env) (RHeader (hb @ as)) s'
    else \<exists>s' bs. ds_core s' = ds_core s \<and> mb_inv (sk_readBuffer s')
       \<and> length (mb_storage (sk_readBuffer s')) = length (mb_storage (sk_readBuffer s))
       \<and> mb_active (sk_readBuffer s') = drop k as
       \<and> (if IsValidSize hdr \<and> IsValidOpcode hdr
          then read_iteration env s = read_payload env s' \<and> buf_with header_length bs (ds_headerBuffer s')
             \<and> length bs = header_length \<and> ch_cmd hdr = ch_cmd (header_of_bytes (re_host env) bs)
             \<and> buf_with (unat (ch_size hdr) - 2) [] (ds_packetBuffer s')
          else read_iteration env s = Inr (LoopReturn, CloseSocket ds_OnClose s'))"
proof -
  define j where "j = min (length as) k"
  from fill_buffer_ok [OF r hb(1)] obtain r' t' where
    f: "fill_buffer (sk_readBuffer s) (ds_headerBuffer s) = Inr (r', t')" "mb_inv r'" "mb_active r' = drop j as"
      "length (mb_storage r') = length (mb_storage (sk_readBuffer s))" "buf_with header_length (hb @ take j as) t'"
    by (auto simp: j_def k_def as_def)
  define s1 where "s1 = s\<lparr>sk_readBuffer := r', ds_headerBuffer := t'\<rparr>"
  have it: "read_iteration env s =
     (if length (hb @ take j as) < header_length
      then (if mb_HasActiveSize (sk_readBuffer s1) then Inl (AssertFailure ''!packet.HasActiveSize()'')
            else Inr (LoopBreak, s1))
      else bindr (ReadHeaderHandler (re_host env) s1) (\<lambda>(ok, s2).
          if \<not> ok then Inr (LoopReturn, CloseSocket ds_OnClose s2) else read_payload env s2))"
    using f(1) buf_with_simps(4) [OF hb(1)] buf_with_simps(4) [OF f(5)] hb(2)
    by (simp add: read_iteration_def s1_def Let_def)
  show ?thesis
  proof (cases "length as < k")
    case True
    then have j: "j = length as" "length hb + length as < header_length" by (simp_all add: j_def k_def)
    then have "read_iteration env s = Inr (LoopBreak, s1)" using it f(2,3) by (simp add: mb_HasActiveSize_def s1_def)
    with True j f pb show ?thesis by (auto simp: s1_def)
  next
    case False
    then have j: "j = k" "length (hb @ take k as) = header_length" using hb(2) by (simp_all add: j_def k_def)
    have "buf_with header_length (hb @ take k as) (ds_headerBuffer s1)" "buf_with n [] (ds_packetBuffer s1)"
      using f(5) j(1) pb by (simp_all add: s1_def)
    from ReadHeaderHandler_ok [OF this(1) j(2) this(2), of "re_host env"] obtain s2 bs where
      s2: "ReadHeaderHandler (re_host env) s1 = Inr (IsValidSize hdr \<and> IsValidOpcode hdr, s2)" "ds_core s2 = ds_core s"
        "sk_readBuffer s2 = r'" "IsValidSize hdr \<and> IsValidOpcode hdr \<longrightarrow>
           buf_with header_length bs (ds_headerBuffer s2) \<and> length bs = header_length
           \<and> ch_cmd hdr = ch_cmd (header_of_bytes (re_host env) bs) \<and> buf_with (unat (ch_size hdr) - 2) [] (ds_packetBuffer s2)"
      by (auto simp: hdr_def s1_def)
    with False f j it show ?thesis by (auto intro!: exI [of _ s2] exI [of _ bs])
  qed
qed

lemma header_answers:
  assumes r: "mb_inv (sk_readBuffer s)" and fr: "framed (re_host env) (RHeader hb) s"
    and N: "length (mb_storage (sk_readBuffer s)) = N"
    and IH: "\<And>s'. mb_inv (sk_readBuffer s') \<Longrightarrow> framed (re_host env) (RHeader []) s' \<Longrightarrow>
      length (mb_storage (sk_readBuffer s')) = N \<Longrightarrow>
      length (mb_active (sk_readBuffer s')) < length (mb_active (sk_readBuffer s)) \<Longrightarrow>
      answers (re_host env) N (read_loop env s') (feed env (RHeader []) (ds_core s') (mb_active (sk_readBuffer s')))"
  shows "answers (re_host env) N (loop_on env (read_iteration env s))
    (feed env (RHeader hb) (ds_core s) (mb_active (sk_readBuffer s)))"
proof -
  let ?as = "mb_active (sk_readBuffer s)"
  define k where "k = header_length - length hb"
  define hdr where "hdr = wire_header (hb @ take k ?as)"
  from fr obtain n where hb: "buf_with header_length hb (ds_headerBuffer s)" "length hb < header_length"
    "buf_with n [] (ds_packetBuffer s)" by auto
  note step = read_header_step [OF r hb, of env, folded k_def, folded hdr_def]
  show ?thesis
  proof (cases "length ?as < k")
    case True
    have "feed env (RHeader hb) (ds_core s) ?as = Inr (LoopBreak, RHeader (hb @ ?as), ds_core s, [])"
      using feed_header_part [of hb ?as env "ds_core s" "[]"] True by (simp add: k_def)
    with True step N show ?thesis by (auto simp: answers_def loop_on_def simp del: framed.simps)
  next
    case False
    with hb(2) have l: "length (hb @ take k ?as) = header_length" by (simp add: k_def)
    note feed = feed_header_full [OF l hb(2), of env "ds_core s" "drop k ?as", folded hdr_def, simplified]
    from False step obtain s' bs where s': "ds_core s' = ds_core s" "mb_inv (sk_readBuffer s')"
      "length (mb_storage (sk_readBuffer s')) = N" "mb_active (sk_readBuffer s') = drop k ?as"
      "if IsValidSize hdr \<and> IsValidOpcode hdr
       then read_iteration env s = read_payload env s' \<and> buf_with header_length bs (ds_headerBuffer s')
         \<and> length bs = header_length \<and> ch_cmd hdr = ch_cmd (header_of_bytes (re_host env) bs)
         \<and> buf_with (unat (ch_size hdr) - 2) [] (ds_packetBuffer s')
       else read_iteration env s = Inr (LoopReturn, CloseSocket ds_OnClose s')"
      using N by auto
    have lt: "length (drop k' (drop k ?as)) < length ?as" for k'
      using False hb(2) by (simp add: k_def)
    show ?thesis
    proof (cases "IsValidSize hdr \<and> IsValidOpcode hdr")
      case True
      with s'(5) have b: "buf_with header_length bs (ds_headerBuffer s')" "length bs = header_length"
        "ch_cmd hdr = ch_cmd (header_of_bytes (re_host env) bs)" "buf_with (unat (ch_size hdr) - 2) [] (ds_packetBuffer s')"
        and it: "read_iteration env s = read_payload env s'" by auto
      have "answers (re_host env) N (loop_on env (read_payload env s'))
          (feed_payload env (ch_cmd hdr) (unat (ch_size hdr) - 2) [] (ds_core s') (mb_active (sk_readBuffer s')))"
        by (rule payload_answers [OF b s'(2,3)], rule IH) (use s'(4) lt in auto)
      with True it s' feed show ?thesis by simp
    next
      case inv: False
      with s' feed show ?thesis by (auto simp: answers_def loop_on_def close_core)
    qed
  qed
qed

lemma read_loop_answers:
  assumes "mb_inv (sk_readBuffer s)" "framed (re_host env) st s"
  shows "answers (re_host env) (length (mb_storage (sk_readBuffer s))) (read_loop env s)
    (feed env st (ds_core s) (mb_active (sk_readBuffer s)))"
  using assms
proof (induction "length (mb_active (sk_readBuffer s))" arbitrary: s st rule: less_induct)
  case less
  let ?as = "mb_active (sk_readBuffer s)" and ?N = "length (mb_storage (sk_readBuffer s))"
  have IH: "answers (re_host env) ?N (read_loop env s') (feed env (RHeader []) (ds_core s') (mb_active (sk_readBuffer s')))"
    if "mb_inv (sk_readBuffer s')" "framed (re_host env) (RHeader []) s'" "length (mb_storage (sk_readBuffer s')) = ?N"
      "length (mb_active (sk_readBuffer s')) < length ?as" for s'
    using less.hyps [OF that(4,1,2)] that(3) by simp
  show ?case
  proof (cases "?as = []")
    case True
    with less.prems read_loop_unfold [of s env] show ?thesis by (simp add: answers_def)
  next
    case ne: False
    note u = read_loop_unfold [OF less.prems(1), of env]
    show ?thesis
    proof (cases st)
      case (RPayload cmd n pb)
      from less.prems(2) RPayload obtain bs where
        b: "buf_with header_length bs (ds_headerBuffer s)" "length bs = header_length"
          "cmd = ch_cmd (header_of_bytes (re_host env) bs)" "buf_with n pb (ds_packetBuffer s)" "length pb < n"
        by auto
      have it: "read_iteration env s = read_payload env s"
        using buf_with_simps(4) [OF b(1)] b(2) by (simp add: read_iteration_def)
      have lt: "length (drop (n - length pb) ?as) < length ?as" using b(5) ne by (cases ?as) auto
      have "answers (re_host env) ?N (loop_on env (read_payload env s)) (feed_payload env cmd n pb (ds_core s) ?as)"
      proof (rule payload_answers [OF b(1-4) less.prems(1) refl])
        fix s'
        assume "mb_inv (sk_readBuffer s')" "framed (re_host env) (RHeader []) s'"
          "length (mb_storage (sk_readBuffer s')) = ?N" "mb_active (sk_readBuffer s') = drop (n - length pb) ?as"
        with lt show "answers (re_host env) ?N (read_loop env s')
            (feed env (RHeader []) (ds_core s') (mb_active (sk_readBuffer s')))"
          by (intro IH) (simp_all only:)
      qed
      with u it ne b(5) RPayload show ?thesis by (simp add: feed_payload_def)
    next
      case (RHeader hb)
      have "answers (re_host env) ?N (loop_on env (read_iteration env s)) (feed env (RHeader hb) (ds_core s) ?as)"
        by (rule header_answers [OF less.prems(1) _ refl IH]) (use less.prems(2) RHeader in \<open>simp_all only:\<close>)
      with u ne RHeader show ?thesis by simp
    qed
  qed
qed

section \<open>The handlers return\<close>

definition conn_ok :: "discord_socket \<Rightarrow> bool" where
  "conn_ok s \<longleftrightarrow> (ds_authed s \<longrightarrow> ds_discordSession s \<noteq> None)"

fun only_throws :: "'a res \<Rightarrow> bool" where
  "only_throws (Inl e) = is_thrown e"
| "only_throws (Inr x) = True"

lemma only_throws_read:
  assumes "safe_read r" "\<And>v b. bb_ok b \<Longrightarrow> only_throws (g v b)"
  shows "only_throws (bindr r (\<lambda>(v, b). g v b))"
  using assms by (cases r) auto

lemma HandlePing_total:
  assumes "bb_ok (dp_buf p)"
  shows "only_throws (fst (HandlePing h now p s))"
proof -
  let ?reads = "bindr (shr_int64 h (dp_buf p)) (\<lambda>(timePacket, b1).
      bindr (shr_int64 h b1) (\<lambda>(latency, b2). Inr (timePacket, latency)))"
  have "only_throws ?reads"
    unfolding shift_ops by (intro only_throws_read safe_bb_read) (simp_all add: assms)
  moreover have "shl_int64 h t (dp_buf (DiscordPacket_new c)) \<noteq> Inl e" for t c e
    using word_put_extends [of ByteBuffer_new h t]
    by (simp add: shift_ops DiscordPacket_new_def bb_writing_def ByteBuffer_new_def)
  ultimately show ?thesis
    by (cases ?reads) (auto simp: HandlePing_def split_beta Let_def split: option.split sum.splits)
qed

lemma HandleAuthSession_total:
  assumes "bb_ok (dp_buf p)"
  shows "only_throws (fst (HandleAuthSession h p s))"
proof -
  have "only_throws (bindr (shr_string h (dp_buf p)) (\<lambda>(account, b1).
           bindr (shr_string h b1) (\<lambda>(key, b2).
           bindr (shr_string h b2) (\<lambda>(coreName, b3).
           bindr (shr_string h b3) (\<lambda>(coreVersion, b4).
           bindr (shr_uint32 h b4) (\<lambda>(moduleVersion, b5).
             Inr \<lparr>as_Account = account, as_Key = key, as_CoreName = coreName,
                  as_CoreVersion = coreVersion, as_ModuleVersion = moduleVersion\<rparr>))))))"
    unfolding shr_uint32_def shr_string_def
    by (intro only_throws_read safe_ReadCString safe_bb_read) (simp_all add: assms)
  then show ?thesis unfolding HandleAuthSession_def by (auto split: sum.split)
qed

lemma handlers_keep:
  "ds_authed (snd (HandlePing h now p s)) = ds_authed s"
  "ds_discordSession (snd (HandlePing h now p s)) = ds_discordSession s"
  "sk_closed (snd (HandlePing h now p s)) = sk_closed s"
  "sk_closing (snd (HandlePing h now p s)) = sk_closing s"
  "ds_authed (snd (HandleAuthSession h p s)) = ds_authed s"
  "ds_discordSession (snd (HandleAuthSession h p s)) = ds_discordSession s"
  "sk_closed (snd (HandleAuthSession h p s)) = sk_closed s"
  "sk_closing (snd (HandleAuthSession h p s)) = sk_closing s"
  by (auto simp: HandlePing_def ping_speed_def HandleAuthSession_def ds_emit_def ds_SendPacket_def Let_def
      split: sum.split option.split)

lemma handle_packet_total:
  assumes "conn_ok s" "bb_ok (dp_buf p)" "unat (dp_opcode p) < length (re_table env)"
  shows "\<exists>r s'. handle_packet env p s = (Inr r, s') \<and> conn_ok s' \<and> sk_closed s' = sk_closed s \<and> sk_closing s' = sk_closing s"
proof -
  note ping = HandlePing_total [OF assms(2), of "re_host env" "re_now env" s]
    and auth = HandleAuthSession_total [OF assms(2), of "re_host env" s]
    and keep = handlers_keep(1-4) [of "re_host env" "re_now env" p s] handlers_keep(5-8) [of "re_host env" p s]
  consider "dp_opcode p = code_value CLIENT_SEND_PING" | "dp_opcode p = code_value CLIENT_AUTH_SESSION"
    | "dp_opcode p \<noteq> code_value CLIENT_SEND_PING" "dp_opcode p \<noteq> code_value CLIENT_AUTH_SESSION" by blast
  then show ?thesis
  proof cases
    case 1
    then show ?thesis using ping keep(1-4) assms(1)
      by (cases "HandlePing (re_host env) (re_now env) p s"; cases "fst (HandlePing (re_host env) (re_now env) p s)")
        (auto simp: handle_packet_def conn_ok_def)
  next
    case 2
    then show ?thesis using auth keep(5-8) assms(1)
      by (cases "HandleAuthSession (re_host env) p s"; cases "fst (HandleAuthSession (re_host env) p s)")
        (auto simp: handle_packet_def conn_ok_def)
  next
    case 3
    then show ?thesis using assms
      by (auto simp: handle_packet_def conn_ok_def opcode_lookup_def ds_emit_def Let_def split: option.split)
  qed
qed

lemma deliver_total:
  assumes "conn_ok w" "length pb < 2 ^ 63" "unat cmd < length (re_table env)"
  shows "\<exists>step w'. deliver env cmd pb w = Inr (step, w') \<and>
    (step \<noteq> LoopReturn \<longrightarrow> conn_ok w' \<and> sk_closed w' = sk_closed w \<and> sk_closing w' = sk_closing w)"
proof -
  have "bb_ok \<lparr>bb_rpos = 0, bb_wpos = 0, bb_storage = pb\<rparr>" using assms(2) by (simp add: bb_ok_def)
  with handle_packet_total [OF assms(1), of "\<lparr>dp_opcode = cmd, dp_buf = \<lparr>bb_rpos = 0, bb_wpos = 0, bb_storage = pb\<rparr>\<rparr>" env] assms(3)
  show ?thesis by (auto simp: deliver_def split: ReadDataHandlerResult.split)
qed

text \<open>The states of the automaton in which a code is in the table and a payload has the announced size.\<close>

fun rstate_ok :: "rstate \<Rightarrow> bool" where
  "rstate_ok (RHeader hb) \<longleftrightarrow> True"
| "rstate_ok (RPayload cmd n pb) \<longleftrightarrow> unat cmd < NUM_DISCORD_CODE_HANDLERS \<and> length pb < n \<and> n < 2 ^ 63"

lemma feed_byte_total:
  assumes "conn_ok w" "rstate_ok st" "length (re_table env) = NUM_DISCORD_CODE_HANDLERS"
  shows "\<exists>step st' w'. feed_byte env st w b = Inr (step, st', w') \<and> (step \<noteq> LoopReturn \<longrightarrow>
    rstate_ok st' \<and> conn_ok w' \<and> sk_closed w' = sk_closed w \<and> sk_closing w' = sk_closing w)"
proof (cases st)
  case (RHeader hb)
  let ?hdr = "wire_header (hb @ [b])"
  have "unat (ch_size ?hdr) < 2 ^ 63" using unsigned_less [of "ch_size ?hdr", where 'a = nat] by simp
  moreover have "IsValidSize ?hdr \<Longrightarrow> 2 \<le> unat (ch_size ?hdr)" by (simp add: IsValidSize_def word_le_nat_alt)
  moreover have "IsValidOpcode ?hdr \<Longrightarrow> unat (ch_cmd ?hdr) < length (re_table env)"
    using assms(3) by (simp add: IsValidOpcode_def)
  ultimately show ?thesis
    using RHeader assms deliver_total [OF assms(1), of "[]" "ch_cmd ?hdr" env] by (auto simp: Let_def)
next
  case (RPayload cmd n pb)
  with assms deliver_total [OF assms(1), of "pb @ [b]" cmd env] show ?thesis by auto
qed

lemma feed_total:
  "conn_ok w \<Longrightarrow> rstate_ok st \<Longrightarrow> length (re_table env) = NUM_DISCORD_CODE_HANDLERS \<Longrightarrow>
   \<exists>step st' w' rest. feed env st w bs = Inr (step, st', w', rest) \<and> (step = LoopBreak \<or> step = LoopReturn) \<and>
     (step \<noteq> LoopReturn \<longrightarrow> rest = [] \<and> rstate_ok st' \<and> conn_ok w' \<and> sk_closed w' = sk_closed w \<and> sk_closing w' = sk_closing w)"
proof (induction bs arbitrary: st w)
  case (Cons b bs)
  from feed_byte_total [OF Cons.prems] obtain step st' w' where
    f: "feed_byte env st w b = Inr (step, st', w')" "step \<noteq> LoopReturn \<longrightarrow>
      rstate_ok st' \<and> conn_ok w' \<and> sk_closed w' = sk_closed w \<and> sk_closing w' = sk_closing w" by blast
  then show ?case using Cons.IH [of w' st'] Cons.prems(3) by (cases "step = LoopReturn") auto
qed simp

section \<open>Blocks from the operating system\<close>

text \<open>A read buffer with nothing unread, as \<open>AsyncRead\<close> leaves it.\<close>

definition ready :: "nat \<Rightarrow> endian \<Rightarrow> rstate \<Rightarrow> discord_socket \<Rightarrow> bool" where
  "ready N h st s \<longleftrightarrow> buf_with N [] (sk_readBuffer s) \<and> 0 < N \<and> framed h st s \<and> rstate_ok st
     \<and> conn_ok s \<and> sk_IsOpen s \<and> sk_reading s"

text \<open>The blocks arrive one after another as long as a read is outstanding.\<close>

fun receive_blocks :: "read_env \<Rightarrow> uint8 list list \<Rightarrow> discord_socket \<Rightarrow> discord_socket res option" where
  "receive_blocks env [] s = Some (Inr s)"
| "receive_blocks env (block # blocks) s =
     (if \<not> sk_reading s then Some (Inr s)
      else
        (case ReadHandlerInternal ds_OnClose (ds_ReadHandler env) (Some block) s of
           Some (Inr s') \<Rightarrow> receive_blocks env blocks s'
         | r \<Rightarrow> r))"

lemma AsyncRead_empty:
  assumes "mb_inv (sk_readBuffer s)" "mb_active (sk_readBuffer s) = []" "sk_IsOpen s"
    "length (mb_storage (sk_readBuffer s)) = N" "0 < N"
  shows "\<exists>s'. AsyncRead s = Inr s' \<and> ds_core s' = ds_core s \<and> buf_with N [] (sk_readBuffer s') \<and> sk_reading s'
     \<and> ds_headerBuffer s' = ds_headerBuffer s \<and> ds_packetBuffer s' = ds_packetBuffer s"
proof -
  have w: "mb_wpos (sk_readBuffer s) = mb_rpos (sk_readBuffer s)"
    using assms(1,2) by (auto simp: mb_inv_def mb_active_def)
  let ?m = "(sk_readBuffer s)\<lparr>mb_wpos := 0, mb_rpos := 0\<rparr>"
  have n: "mb_Normalize (sk_readBuffer s) = Inr ?m"
    using w by (auto simp: mb_Normalize_def sub64_def)
  have m: "buf_with N [] ?m" using assms by (simp add: buf_with_def mb_inv_def)
  have "mb_EnsureFreeSpace ?m = ?m"
    using buf_with_simps(3) [OF m] assms(5) by (simp add: mb_EnsureFreeSpace_def)
  with n m assms(3) show ?thesis by (simp add: AsyncRead_def)
qed

lemma mb_wpos_same: "mb_wpos m = n \<Longrightarrow> m\<lparr>mb_wpos := n\<rparr> = m"
  by (cases m) simp

lemma handle_packet_reading: "sk_reading (snd (handle_packet env p s)) = sk_reading s"
proof -
  have "sk_reading (snd (HandlePing h now p s)) = sk_reading s" for h now
    by (auto simp: HandlePing_def ping_speed_def ds_emit_def ds_SendPacket_def Let_def split: sum.split option.split)
  moreover have "sk_reading (snd (HandleAuthSession h p s)) = sk_reading s" for h
    by (auto simp: HandleAuthSession_def split: sum.split)
  ultimately show ?thesis
    by (auto simp: handle_packet_def ds_emit_def Let_def split_beta split: sum.split option.split)
qed

lemma read_payload_reading: "read_payload env s = Inr (step, s') \<Longrightarrow> sk_reading s' = sk_reading s"
  using handle_packet_reading
  by (fastforce simp: read_payload_def ReadDataHandler_def finish_packet_def Let_def split_beta CloseSocket_def
      ds_OnClose_def split: if_splits)

lemma ReadHeaderHandler_reading: "ReadHeaderHandler h s = Inr (ok, s') \<Longrightarrow> sk_reading s' = sk_reading s"
  by (auto simp: ReadHeaderHandler_def Let_def split: if_splits)

lemma read_iteration_reading:
  assumes "read_iteration env s = Inr (step, s')"
  shows "sk_reading s' = sk_reading s"
proof (cases "mb_HasRemainingSpace (ds_headerBuffer s)")
  case False
  with assms show ?thesis by (simp add: read_iteration_def read_payload_reading)
next
  case True
  with assms obtain r hb where f: "fill_buffer (sk_readBuffer s) (ds_headerBuffer s) = Inr (r, hb)"
    by (auto simp: read_iteration_def)
  let ?s1 = "s\<lparr>sk_readBuffer := r, ds_headerBuffer := hb\<rparr>"
  show ?thesis
  proof (cases "mb_HasRemainingSpace hb")
    case True
    with \<open>mb_HasRemainingSpace (ds_headerBuffer s)\<close> f assms show ?thesis
      by (auto simp: read_iteration_def Let_def split: if_splits)
  next
    case False
    with True f assms obtain ok s2 where h: "ReadHeaderHandler (re_host env) ?s1 = Inr (ok, s2)"
      and r: "(if \<not> ok then Inr (LoopReturn, CloseSocket ds_OnClose s2) else read_payload env s2) = Inr (step, s')"
      by (auto simp: read_iteration_def Let_def)
    from ReadHeaderHandler_reading [OF h] r show ?thesis
      by (cases ok) (auto simp: CloseSocket_def ds_OnClose_def split: if_splits dest!: read_payload_reading)
  qed
qed

lemma read_loop_reading:
  assumes "read_loop env s = Some r"
  shows "\<forall>step s'. r = Inr (step, s') \<longrightarrow> sk_reading s' = sk_reading s"
proof (rule read_loop.raw_induct [OF _ assms])
  fix loop env s r
  assume 1: "\<And>env s r. loop env s = Some r \<Longrightarrow> \<forall>step s'. r = Inr (step, s') \<longrightarrow> sk_reading s' = sk_reading s"
    "(if mb_GetActiveSize (sk_readBuffer s) > 0 then
        (case read_iteration env s of
           Inl e \<Rightarrow> Some (Inl e)
         | Inr (LoopContinue, s') \<Rightarrow> loop env s'
         | Inr (LoopBreak, s') \<Rightarrow> Some (Inr (LoopBreak, s'))
         | Inr (LoopReturn, s') \<Rightarrow> Some (Inr (LoopReturn, s')))
      else Some (Inr (LoopBreak, s))) = Some r"
  show "\<forall>step s'. r = Inr (step, s') \<longrightarrow> sk_reading s' = sk_reading s"
  proof (cases "mb_GetActiveSize (sk_readBuffer s) > 0")
    case False
    with 1(2) show ?thesis by auto
  next
    case True
    show ?thesis
    proof (cases "read_iteration env s")
      case (Inl e)
      with 1(2) True show ?thesis by auto
    next
      case (Inr p)
      obtain st t where p: "p = (st, t)" by (cases p)
      with Inr have t: "sk_reading t = sk_reading s" by (simp add: read_iteration_reading)
      from 1 True Inr p t show ?thesis by (cases st) auto
    qed
  qed
qed

lemma receive_block:
  assumes "ready N (re_host env) st s" "length block \<le> N" "length (re_table env) = NUM_DISCORD_CODE_HANDLERS"
  shows "\<exists>step st' w' rest s'. feed env st (ds_core s) block = Inr (step, st', w', rest) \<and> (step = LoopBreak \<or> step = LoopReturn)
    \<and> ReadHandlerInternal ds_OnClose (ds_ReadHandler env) (Some block) s = Some (Inr s') \<and> ds_core s' = w'
    \<and> (if step = LoopReturn then \<not> sk_reading s' else ready N (re_host env) st' s')"
proof -
  let ?m = "sk_readBuffer s"
  from assms(1) have m: "buf_with N [] ?m" "0 < N" "framed (re_host env) st s" "rstate_ok st" "conn_ok (ds_core s)"
      "sk_IsOpen s" by (auto simp: ready_def conn_ok_def)
  from buf_with_Write [OF m(1), of block] assms(2) obtain m' where
    m': "mb_Write block ?m = Inr m'" "buf_with N block m'" by auto
  define s1 where "s1 = s\<lparr>sk_reading := False, sk_readBuffer := m'\<rparr>"
  have rh: "ReadHandlerInternal ds_OnClose (ds_ReadHandler env) (Some block) s = ds_ReadHandler env s1"
  proof (cases "block = []")
    case True
    with m' m(1) show ?thesis
      by (auto simp: ReadHandlerInternal_def storage buf_with_def s1_def mb_Write_def mb_WriteCompleted_def wrap64_def mb_wpos_same)
  next
    case False
    with m' m(1) assms(2) show ?thesis
      by (auto simp: ReadHandlerInternal_def s1_def mb_Write_def bindr_eq_Inl storage buf_with_def)
  qed
  have "framed (re_host env) st s1" using m(3) by (cases st) (auto simp: s1_def)
  then have a: "answers (re_host env) N (read_loop env s1) (feed env st (ds_core s) block)"
    using read_loop_answers [of s1 env st] buf_with_simps(1,2) [OF m'(2)] m'(2)
    by (simp add: s1_def buf_with_def)
  from feed_total [OF m(5,4) assms(3), of block] obtain step st' w' rest where
    f: "feed env st (ds_core s) block = Inr (step, st', w', rest)" "step = LoopBreak \<or> step = LoopReturn"
      "step \<noteq> LoopReturn \<longrightarrow> rest = [] \<and> rstate_ok st' \<and> conn_ok w' \<and> sk_closed w' = sk_closed (ds_core s) \<and> sk_closing w' = sk_closing (ds_core s)"
    by blast
  from a f(1) obtain s2 where s2: "read_loop env s1 = Some (Inr (step, s2))" "ds_core s2 = w'" "mb_inv (sk_readBuffer s2)"
    "length (mb_storage (sk_readBuffer s2)) = N" "mb_active (sk_readBuffer s2) = rest" "sk_closed s2 \<or> framed (re_host env) st' s2"
    by (auto simp: answers_def)
  have o: "sk_IsOpen s1" using m(6) by (simp add: s1_def sk_IsOpen_def)
  show ?thesis
  proof (cases "step = LoopReturn")
    case True
    have "\<not> sk_reading s2" using s1_def s2(1) read_loop_reading [of env s1] by simp
    with True f s2 rh o show ?thesis by (simp add: ds_ReadHandler_def)
  next
    case False
    with f(3) s2(2) m(6) have op: "sk_IsOpen s2" "conn_ok s2" by (auto simp: sk_IsOpen_def conn_ok_def)
    from AsyncRead_empty [OF s2(3) _ op(1) s2(4) m(2)] s2(5) f(3) False obtain s3 where
      s3: "AsyncRead s2 = Inr s3" "ds_core s3 = ds_core s2" "buf_with N [] (sk_readBuffer s3)" "sk_reading s3"
        "ds_headerBuffer s3 = ds_headerBuffer s2" "ds_packetBuffer s3 = ds_packetBuffer s2" by auto
    have "framed (re_host env) st' s3" using s2(6) op(1) s3(5,6) by (cases st') (auto simp: sk_IsOpen_def)
    moreover have "sk_IsOpen s3" "conn_ok s3"
      using op s3(2) by (metis core_update(4,6,7,8) sk_IsOpen_def conn_ok_def)+
    ultimately have "ready N (re_host env) st' s3" using s3(3,4) m(2) f(3) False by (simp add: ready_def)
    with False f s2 s3 rh o show ?thesis by (simp add: ds_ReadHandler_def)
  qed
qed

lemma receive_stopped: "\<not> sk_reading s \<Longrightarrow> receive_blocks env blocks s = Some (Inr s)"
  by (cases blocks) simp_all

lemma receive_feed:
  "ready N (re_host env) st s \<Longrightarrow> \<forall>block \<in> set blocks. length block \<le> N \<Longrightarrow>
   length (re_table env) = NUM_DISCORD_CODE_HANDLERS \<Longrightarrow>
   \<exists>step st' w' rest s'. feed env st (ds_core s) (concat blocks) = Inr (step, st', w', rest)
     \<and> receive_blocks env blocks s = Some (Inr s') \<and> ds_core s' = w'
     \<and> (if step = LoopReturn then \<not> sk_reading s' else step = LoopBreak \<and> ready N (re_host env) st' s')"
proof (induction blocks arbitrary: s st)
  case Nil
  then show ?case by simp
next
  case (Cons block blocks)
  from receive_block [OF Cons.prems(1) _ Cons.prems(3), of block] Cons.prems(2) obtain step st' rest s' where
    b: "feed env st (ds_core s) block = Inr (step, st', ds_core s', rest)" "step = LoopBreak \<or> step = LoopReturn"
      "ReadHandlerInternal ds_OnClose (ds_ReadHandler env) (Some block) s = Some (Inr s')"
      "if step = LoopReturn then \<not> sk_reading s' else ready N (re_host env) st' s'"
    by auto
  have rd: "sk_reading s" using Cons.prems(1) by (simp add: ready_def)
  show ?case
  proof (cases "step = LoopReturn")
    case True
    with b rd receive_stopped [of s' env blocks] show ?thesis by (simp add: feed_append)
  next
    case False
    with b(4) have "ready N (re_host env) st' s'" by simp
    from Cons.IH [OF this _ Cons.prems(3)] Cons.prems(2) b rd False show ?thesis by (auto simp: feed_append)
  qed
qed

section \<open>Packets on the stream\<close>

definition frame_bytes :: "uint16 \<Rightarrow> uint8 list \<Rightarrow> uint8 list" where
  "frame_bytes cmd payload = DiscordServerPktHeader (word_of_nat (length payload + 2)) cmd @ payload"

lemma feed_frame:
  assumes "length payload + 2 < 10000" "unat cmd < NUM_DISCORD_CODE_HANDLERS"
  shows "feed env (RHeader []) w (frame_bytes cmd payload @ rest) =
    bindr (deliver env cmd payload w) (\<lambda>(step, w').
      if step = LoopReturn then Inr (LoopReturn, RHeader [], w', rest) else feed env (RHeader []) w' rest)"
proof -
  let ?sz = "word_of_nat (length payload + 2) :: uint32"
  have u: "unat ?sz = length payload + 2" by (subst unat_of_nat) (use assms(1) in simp)
  have hb: "DiscordServerPktHeader ?sz cmd = rev (le_bytes ?sz) @ le_bytes cmd" by (rule server_header_bytes)
  have hdr: "wire_header (DiscordServerPktHeader ?sz cmd) = \<lparr>ch_size = ?sz, ch_cmd = cmd\<rparr>"
    unfolding hb by (simp add: wire_header_def le_word_bytes)
  have l: "length ([] @ DiscordServerPktHeader ?sz cmd) = header_length" unfolding hb by (simp add: header_length_def)
  have "IsValidSize \<lparr>ch_size = ?sz, ch_cmd = cmd\<rparr>" "IsValidOpcode \<lparr>ch_size = ?sz, ch_cmd = cmd\<rparr>"
    using assms u by (simp_all add: IsValidSize_def IsValidOpcode_def word_le_nat_alt word_less_nat_alt del: of_nat_add)
  with feed_header_full [OF l, of env w "payload @ rest"] hdr u
  have "feed env (RHeader []) w (frame_bytes cmd payload @ rest) = feed_payload env cmd (length payload) [] w (payload @ rest)"
    by (simp add: frame_bytes_def header_length_def Let_def del: of_nat_add)
  also have "\<dots> = feed_payload env cmd (length payload) payload w rest"
    using feed_payload_append [of "[]" payload "length payload" env cmd w rest] by auto
  finally show ?thesis by (simp add: feed_payload_def)
qed

definition session_code :: "uint16 \<Rightarrow> bool" where
  "session_code cmd \<longleftrightarrow> cmd \<in> code_value ` {CLIENT_SEND_HELLO, CLIENT_SEND_MESSAGE, CLIENT_SEND_MESSAGE_EMBED}"

lemma deliver_session:
  assumes "session_code cmd" "ds_discordSession w = Some session" "re_table env = OpcodeTable_Initialize OpcodeTable_new"
  shows "deliver env cmd payload w = Inr (LoopContinue, ds_emit (SessionQueuePacket session
    \<lparr>dp_opcode = cmd, dp_buf = \<lparr>bb_rpos = 0, bb_wpos = 0, bb_storage = payload\<rparr>\<rparr>) w)"
  using assms by (auto simp: session_code_def deliver_def handle_packet_def opcode_lookup_def initialized_table)

lemma feed_frames:
  "\<forall>(cmd, payload) \<in> set ps. session_code cmd \<and> length payload + 2 < 10000 \<Longrightarrow>
   ds_discordSession w = Some session \<Longrightarrow> re_table env = OpcodeTable_Initialize OpcodeTable_new \<Longrightarrow>
   feed env (RHeader []) w (concat (map (\<lambda>(cmd, payload). frame_bytes cmd payload) ps)) =
     Inr (LoopBreak, RHeader [], w\<lparr>ds_events := ds_events w @ map (\<lambda>(cmd, payload). SessionQueuePacket session
       \<lparr>dp_opcode = cmd, dp_buf = \<lparr>bb_rpos = 0, bb_wpos = 0, bb_storage = payload\<rparr>\<rparr>) ps\<rparr>, [])"
proof (induction ps arbitrary: w)
  case (Cons p ps)
  obtain cmd payload where p: "p = (cmd, payload)" by (cases p)
  with Cons.prems have c: "session_code cmd" "length payload + 2 < 10000" by auto
  then have u: "unat cmd < NUM_DISCORD_CODE_HANDLERS"
    by (auto simp: session_code_def NUM_DISCORD_CODE_HANDLERS_def)
  let ?w = "ds_emit (SessionQueuePacket session \<lparr>dp_opcode = cmd, dp_buf = \<lparr>bb_rpos = 0, bb_wpos = 0, bb_storage = payload\<rparr>\<rparr>) w"
  have "ds_discordSession ?w = Some session" using Cons.prems(2) by (simp add: ds_emit_def)
  with Cons feed_frame [OF c(2) u] deliver_session [OF c(1) Cons.prems(2,3)] p show ?case
    by (simp add: ds_emit_def)
qed simp

lemma ready_new:
  "ready READ_BLOCK_SIZE h (RHeader []) (DiscordSocket_new\<lparr>sk_reading := True, ds_authed := a, ds_discordSession := Some i\<rparr>)"
  by (auto simp: ready_def DiscordSocket_new_def buf_with_def conn_ok_def sk_IsOpen_def mb_Resize_def
      MessageBuffer_default_def MessageBuffer_sized_def READ_BLOCK_SIZE_def header_length_def)

lemma receive_frames:
  assumes "ready N (re_host env) (RHeader []) s" "\<forall>block \<in> set blocks. length block \<le> N"
    and "re_table env = OpcodeTable_Initialize OpcodeTable_new" "ds_discordSession s = Some session"
    and "\<forall>(cmd, payload) \<in> set ps. session_code cmd \<and> length payload + 2 < 10000"
    and "concat blocks = concat (map (\<lambda>(cmd, payload). frame_bytes cmd payload) ps)"
  shows "\<exists>s'. receive_blocks env blocks s = Some (Inr s') \<and> ready N (re_host env) (RHeader []) s'
    \<and> ds_core s' = ds_core (s\<lparr>ds_events := ds_events s @ map (\<lambda>(cmd, payload). SessionQueuePacket session
        \<lparr>dp_opcode = cmd, dp_buf = \<lparr>bb_rpos = 0, bb_wpos = 0, bb_storage = payload\<rparr>\<rparr>) ps\<rparr>)"
proof -
  have "length (re_table env) = NUM_DISCORD_CODE_HANDLERS"
    by (simp add: assms(3) initialized_table NUM_DISCORD_CODE_HANDLERS_def)
  from receive_feed [OF assms(1,2) this] feed_frames [OF assms(5) _ assms(3), of "ds_core s" session] assms(4,6)
  show ?thesis by (auto simp: ds_core_def)
qed

section \<open>Properties\<close>

text \<open>
  C3. Framing refines the byte automaton: whatever blocks the operating system hands to a ready
  socket, the receive loop terminates without a failed assertion or an access outside a buffer, and
  the socket ends in the state the automaton reaches on the concatenated bytes, ready for the next
  block unless the automaton stopped.
\<close>

theorem framing_refines:
  assumes "ready N (re_host env) st s" "\<forall>block \<in> set blocks. length block \<le> N"
    and "length (re_table env) = NUM_DISCORD_CODE_HANDLERS"
  shows "\<exists>step st' rest s'. feed env st (ds_core s) (concat blocks) = Inr (step, st', ds_core s', rest)
     \<and> receive_blocks env blocks s = Some (Inr s')
     \<and> (if step = LoopReturn then \<not> sk_reading s' else ready N (re_host env) st' s')"
  using receive_feed [OF assms] by force

theorem framing_refines_witness:
  "\<exists>step st' rest s'. let env = \<lparr>re_host = WARHEAD_LITTLEENDIAN, re_now = 5, re_table = OpcodeTable_new\<rparr>;
       s = DiscordSocket_new\<lparr>sk_reading := True, ds_authed := True, ds_discordSession := Some 7\<rparr>
     in feed env (RHeader []) (ds_core s) [0, 0, 0, 2, 1, 0] = Inr (step, st', ds_core s', rest)
        \<and> receive_blocks env [[0, 0], [0, 2, 1, 0]] s = Some (Inr s')"
proof -
  let ?env = "\<lparr>re_host = WARHEAD_LITTLEENDIAN, re_now = 5, re_table = OpcodeTable_new\<rparr>"
  let ?s = "DiscordSocket_new\<lparr>sk_reading := True, ds_authed := True, ds_discordSession := Some 7\<rparr>"
  have "ready READ_BLOCK_SIZE (re_host ?env) (RHeader []) ?s" by (rule ready_new)
  moreover have "\<forall>block \<in> set [[0, 0], [0, 2, 1, 0 :: uint8]]. length block \<le> READ_BLOCK_SIZE"
    by (simp add: READ_BLOCK_SIZE_def)
  moreover have "length (re_table ?env) = NUM_DISCORD_CODE_HANDLERS" by (simp add: OpcodeTable_new_def)
  ultimately have "\<exists>step st' rest s'. feed ?env (RHeader []) (ds_core ?s) (concat [[0, 0], [0, 2, 1, 0]]) = Inr (step, st', ds_core s', rest)
     \<and> receive_blocks ?env [[0, 0], [0, 2, 1, 0]] ?s = Some (Inr s')
     \<and> (if step = LoopReturn then \<not> sk_reading s' else ready READ_BLOCK_SIZE (re_host ?env) st' s')"
    by (rule framing_refines)
  then show ?thesis unfolding Let_def concat.simps append.simps by blast
qed

text \<open>
  The cut of the stream into blocks does not matter: two ways to hand over the same bytes leave
  the socket in the same state (sessions served, answers queued, connection open or closed), the
  receive buffers apart.
\<close>

theorem blocks_irrelevant:
  assumes "ready N (re_host env) st s" "concat xs = concat ys"
    and "\<forall>block \<in> set xs \<union> set ys. length block \<le> N" "length (re_table env) = NUM_DISCORD_CODE_HANDLERS"
  shows "\<exists>s1 s2. receive_blocks env xs s = Some (Inr s1) \<and> receive_blocks env ys s = Some (Inr s2) \<and> ds_core s1 = ds_core s2"
  using receive_feed [OF assms(1) _ assms(4), of xs] receive_feed [OF assms(1) _ assms(4), of ys] assms(2,3)
  by fastforce

theorem blocks_irrelevant_witness:
  "\<exists>s1 s2. let env = \<lparr>re_host = WARHEAD_BIGENDIAN, re_now = 5, re_table = OpcodeTable_new\<rparr>;
       s = DiscordSocket_new\<lparr>sk_reading := True, ds_authed := True, ds_discordSession := Some 7\<rparr>
     in receive_blocks env [[0, 0, 0, 4], [1, 0, 65, 66]] s = Some (Inr s1)
        \<and> receive_blocks env [[0], [0, 0, 4, 1, 0, 65, 66]] s = Some (Inr s2) \<and> ds_core s1 = ds_core s2"
proof -
  let ?env = "\<lparr>re_host = WARHEAD_BIGENDIAN, re_now = 5, re_table = OpcodeTable_new\<rparr>"
  have "ready READ_BLOCK_SIZE (re_host ?env) (RHeader [])
      (DiscordSocket_new\<lparr>sk_reading := True, ds_authed := True, ds_discordSession := Some 7\<rparr>)" by (rule ready_new)
  from blocks_irrelevant [OF this, of "[[0, 0, 0, 4], [1, 0, 65, 66]]" "[[0], [0, 0, 4, 1, 0, 65, 66]]"]
  show ?thesis unfolding Let_def by (simp add: READ_BLOCK_SIZE_def OpcodeTable_new_def del: receive_blocks.simps)
qed

text \<open>
  C4. Delivery: packets for the session, framed one behind the other and handed over in any blocks
  to an authenticated connection, are queued on the session, all of them, in order and with their
  payloads unchanged, and nothing else happens to the connection.
\<close>

theorem packets_reach_session:
  assumes "ready N (re_host env) (RHeader []) s" "\<forall>block \<in> set blocks. length block \<le> N"
    and "re_table env = OpcodeTable_Initialize OpcodeTable_new" "ds_discordSession s = Some session"
    and "\<forall>(cmd, payload) \<in> set ps. session_code cmd \<and> length payload + 2 < 10000"
    and "concat blocks = concat (map (\<lambda>(cmd, payload). frame_bytes cmd payload) ps)"
  shows "\<exists>s'. receive_blocks env blocks s = Some (Inr s') \<and> ready N (re_host env) (RHeader []) s'
    \<and> ds_core s' = ds_core (s\<lparr>ds_events := ds_events s @ map (\<lambda>(cmd, payload). SessionQueuePacket session
        \<lparr>dp_opcode = cmd, dp_buf = \<lparr>bb_rpos = 0, bb_wpos = 0, bb_storage = payload\<rparr>\<rparr>) ps\<rparr>)"
  using assms by (rule receive_frames)

theorem packets_reach_session_witness:
  "\<exists>s'. let env = \<lparr>re_host = WARHEAD_LITTLEENDIAN, re_now = 5, re_table = OpcodeTable_Initialize OpcodeTable_new\<rparr>;
       s = DiscordSocket_new\<lparr>sk_reading := True, ds_authed := True, ds_discordSession := Some 7\<rparr>
     in receive_blocks env [[0, 0, 0], [4, 1, 0, 65], [0]] s = Some (Inr s') \<and> ds_events s' =
        [SessionQueuePacket 7 \<lparr>dp_opcode = 1, dp_buf = \<lparr>bb_rpos = 0, bb_wpos = 0, bb_storage = [65, 0]\<rparr>\<rparr>]"
proof -
  let ?env = "\<lparr>re_host = WARHEAD_LITTLEENDIAN, re_now = 5, re_table = OpcodeTable_Initialize OpcodeTable_new\<rparr>"
  let ?s = "DiscordSocket_new\<lparr>sk_reading := True, ds_authed := True, ds_discordSession := Some 7\<rparr>"
  have r: "ready READ_BLOCK_SIZE (re_host ?env) (RHeader []) ?s" by (rule ready_new)
  have f: "frame_bytes 1 [65, 0] = [0, 0, 0, 4, 1, 0, 65, 0]" by code_simp
  from packets_reach_session [OF r, of "[[0, 0, 0], [4, 1, 0, 65], [0]]" 7 "[(1, [65, 0])]"] f obtain s' where
    s': "receive_blocks ?env [[0, 0, 0], [4, 1, 0, 65], [0]] ?s = Some (Inr s')"
      "ds_core s' = ds_core (?s\<lparr>ds_events := ds_events ?s @ [SessionQueuePacket 7
        \<lparr>dp_opcode = 1, dp_buf = \<lparr>bb_rpos = 0, bb_wpos = 0, bb_storage = [65, 0]\<rparr>\<rparr>]\<rparr>)"
    by (auto simp: READ_BLOCK_SIZE_def session_code_def)
  have "ds_events s' = ds_events (ds_core s')" by (simp add: ds_core_def)
  also have "\<dots> = [SessionQueuePacket 7 \<lparr>dp_opcode = 1, dp_buf = \<lparr>bb_rpos = 0, bb_wpos = 0, bb_storage = [65, 0]\<rparr>\<rparr>]"
    unfolding s'(2) by (simp add: ds_core_def DiscordSocket_new_def)
  finally show ?thesis using s'(1) by (auto simp: Let_def)
qed

end
