(* ===== verification/Queues.thy ===== *)
theory Queues
  imports Prelude
begin

text \<open>
  The queues packets and jobs travel through, \<open>src/src/common/Threading\<close>: \<open>DefaultPacketQueue\<close> and
  \<open>CheckPacketQueue\<close> (\<open>PacketQueue.h\<close>), \<open>ProducerConsumerQueue\<close> (\<open>PCQueue.h\<close>) and the lock-free
  \<open>MPSCQueue.h\<close>. The locked queues are sequential: every operation holds the mutex from its first
  line to its last. The lock-free queue is modelled on its heap nodes; its producers are
  interleaved step by step (\<open>_head.exchange\<close>, then the store to \<open>Next\<close>) with the one consumer,
  under sequentially consistent atomics. What all of them promise is the locale \<open>fifo\<close>.
\<close>

section \<open>PacketQueue\<close>

record 'a packet_queue =
  pq_queue :: "'a list"
  pq_canceled :: bool

definition PacketQueue_new :: "'a packet_queue" where
  "PacketQueue_new = \<lparr>pq_queue = [], pq_canceled = False\<rparr>"

definition pq_AddPacket :: "'a \<Rightarrow> 'a packet_queue \<Rightarrow> 'a packet_queue" where
  "pq_AddPacket packet q = q\<lparr>pq_queue := pq_queue q @ [packet]\<rparr>"

definition pq_ReadContainer :: "'a list \<Rightarrow> 'a packet_queue \<Rightarrow> 'a packet_queue" where
  "pq_ReadContainer container q = q\<lparr>pq_queue := container @ pq_queue q\<rparr>"

definition pq_GetNextPacket :: "'a packet_queue \<Rightarrow> ('a \<times> 'a packet_queue) option" where
  "pq_GetNextPacket q =
     (case pq_queue q of
        [] \<Rightarrow> None
      | result # rest \<Rightarrow> Some (result, q\<lparr>pq_queue := rest\<rparr>))"

text \<open>The overload with a check stores the front in \<open>result\<close> before it asks; when the check says
  no, the packet stays queued although \<open>result\<close> is set. The first component is the return value,
  the second what \<open>result\<close> was set to.\<close>

definition pq_GetNextPacket_check ::
  "('a \<Rightarrow> bool) \<Rightarrow> 'a packet_queue \<Rightarrow> bool \<times> 'a option \<times> 'a packet_queue" where
  "pq_GetNextPacket_check check q =
     (case pq_queue q of
        [] \<Rightarrow> (False, None, q)
      | result # rest \<Rightarrow>
          if \<not> check result then (False, Some result, q)
          else (True, Some result, q\<lparr>pq_queue := rest\<rparr>))"

definition pq_Cancel :: "'a packet_queue \<Rightarrow> 'a packet_queue" where
  "pq_Cancel q = q\<lparr>pq_canceled := True\<rparr>"

definition pq_Cancelled :: "'a packet_queue \<Rightarrow> bool" where
  "pq_Cancelled q = pq_canceled q"

definition pq_IsEmpty :: "'a packet_queue \<Rightarrow> bool" where
  "pq_IsEmpty q \<longleftrightarrow> pq_queue q = []"

text \<open>\<open>CheckPacketQueue\<close> keeps a node id beside each packet.\<close>

definition cq_AddPacket :: "'a \<Rightarrow> 'n \<Rightarrow> ('a \<times> 'n) packet_queue \<Rightarrow> ('a \<times> 'n) packet_queue" where
  "cq_AddPacket packet nodeID q = q\<lparr>pq_queue := pq_queue q @ [(packet, nodeID)]\<rparr>"

definition cq_GetNextPacket :: "('a \<times> 'n) packet_queue \<Rightarrow> (('a \<times> 'n) \<times> ('a \<times> 'n) packet_queue) option" where
  "cq_GetNextPacket q =
     (case pq_queue q of
        [] \<Rightarrow> None
      | (packet, nodeID) # rest \<Rightarrow> Some ((packet, nodeID), q\<lparr>pq_queue := rest\<rparr>))"

section \<open>ProducerConsumerQueue\<close>

record 'a pc_queue =
  pcq_queue :: "'a list"
  pcq_shutdown :: bool

definition PCQueue_new :: "'a pc_queue" where
  "PCQueue_new = \<lparr>pcq_queue = [], pcq_shutdown = False\<rparr>"

definition pcq_Push :: "'a \<Rightarrow> 'a pc_queue \<Rightarrow> 'a pc_queue" where
  "pcq_Push value q = q\<lparr>pcq_queue := pcq_queue q @ [value]\<rparr>"

definition pcq_Empty :: "'a pc_queue \<Rightarrow> bool" where
  "pcq_Empty q \<longleftrightarrow> pcq_queue q = []"

definition pcq_Size :: "'a pc_queue \<Rightarrow> nat" where
  "pcq_Size q = length (pcq_queue q)"

definition pcq_Pop :: "'a pc_queue \<Rightarrow> ('a \<times> 'a pc_queue) option" where
  "pcq_Pop q =
     (if pcq_queue q = [] \<or> pcq_shutdown q then None
      else Some (hd (pcq_queue q), q\<lparr>pcq_queue := tl (pcq_queue q)\<rparr>))"

text \<open>What \<open>WaitAndPop\<close> does each time its thread holds the lock: wait on the condition, or return,
  with or without a value.\<close>

datatype 'a wait_result = Waiting | Returned "'a option"

definition pcq_WaitAndPop :: "'a pc_queue \<Rightarrow> 'a wait_result \<times> 'a pc_queue" where
  "pcq_WaitAndPop q =
     (if pcq_queue q = [] \<and> \<not> pcq_shutdown q then (Waiting, q)
      else if pcq_queue q = [] \<or> pcq_shutdown q then (Returned None, q)
      else (Returned (Some (hd (pcq_queue q))), q\<lparr>pcq_queue := tl (pcq_queue q)\<rparr>))"

text \<open>\<open>Cancel\<close> pops and deletes what is queued; the deleted values are the first component.\<close>

fun pcq_cancel_loop :: "'a list \<Rightarrow> 'a list \<Rightarrow> 'a list \<times> 'a list" where
  "pcq_cancel_loop deleted [] = (deleted, [])"
| "pcq_cancel_loop deleted (value # rest) = pcq_cancel_loop (deleted @ [value]) rest"

definition pcq_Cancel :: "'a pc_queue \<Rightarrow> 'a list \<times> 'a pc_queue" where
  "pcq_Cancel q =
     (let (deleted, rest) = pcq_cancel_loop [] (pcq_queue q)
      in (deleted, q\<lparr>pcq_queue := rest, pcq_shutdown := True\<rparr>))"

section \<open>MPSCQueue, non-intrusive\<close>

text \<open>Nodes live on a heap; deleting a node removes its cell and touching a cell that is not there
  is an undefined access. A default-constructed node has no data.\<close>

record 'a mpsc_node =
  nd_Data :: "'a option"
  nd_Next :: "nat option"

record 'a mpsc =
  mq_head :: nat
  mq_tail :: nat
  mq_heap :: "nat \<rightharpoonup> 'a mpsc_node"
  mq_brk :: nat

definition MPSC_new :: "'a mpsc" where
  "MPSC_new = \<lparr>mq_head = 0, mq_tail = 0, mq_heap = [0 \<mapsto> \<lparr>nd_Data = None, nd_Next = None\<rparr>], mq_brk = 1\<rparr>"

text \<open>The two atomic steps of \<open>Enqueue\<close>.\<close>

definition mpsc_exchange :: "'a \<Rightarrow> 'a mpsc \<Rightarrow> (nat \<times> nat) \<times> 'a mpsc" where
  "mpsc_exchange input q =
     (let node = mq_brk q; prevHead = mq_head q
      in ((prevHead, node),
          q\<lparr>mq_head := node, mq_brk := Suc node,
            mq_heap := (mq_heap q)(node \<mapsto> \<lparr>nd_Data = Some input, nd_Next = None\<rparr>)\<rparr>))"

definition mpsc_link :: "nat \<times> nat \<Rightarrow> 'a mpsc \<Rightarrow> 'a mpsc res" where
  "mpsc_link l q =
     (case mq_heap q (fst l) of
        None \<Rightarrow> Inl (UndefinedAccess ''prevHead->Next'')
      | Some nd \<Rightarrow> Inr (q\<lparr>mq_heap := (mq_heap q)(fst l \<mapsto> nd\<lparr>nd_Next := Some (snd l)\<rparr>)\<rparr>))"

definition mpsc_Enqueue :: "'a \<Rightarrow> 'a mpsc \<Rightarrow> 'a mpsc res" where
  "mpsc_Enqueue input q = (let (l, q') = mpsc_exchange input q in mpsc_link l q')"

definition mpsc_Dequeue :: "'a mpsc \<Rightarrow> ('a option \<times> 'a mpsc) res" where
  "mpsc_Dequeue q =
     (case mq_heap q (mq_tail q) of
        None \<Rightarrow> Inl (UndefinedAccess ''tail->Next'')
      | Some t \<Rightarrow>
          (case nd_Next t of
             None \<Rightarrow> Inr (None, q)
           | Some nxt \<Rightarrow>
               (case mq_heap q nxt of
                  None \<Rightarrow> Inl (UndefinedAccess ''next->Data'')
                | Some nd \<Rightarrow>
                    (case nd_Data nd of
                       None \<Rightarrow> Inl (UndefinedAccess ''next->Data'')
                     | Some result \<Rightarrow>
                         Inr (Some result, q\<lparr>mq_tail := nxt, mq_heap := (mq_heap q)(mq_tail q := None)\<rparr>)))))"

text \<open>The destructor: dequeue until empty, then delete the node at the head. The values deleted on
  the way are the first component.\<close>

partial_function (option) mpsc_drain :: "'a list \<Rightarrow> 'a mpsc \<Rightarrow> ('a list \<times> 'a mpsc) res option" where
  "mpsc_drain deleted q =
     (case mpsc_Dequeue q of
        Inl e \<Rightarrow> Some (Inl e)
      | Inr (None, q') \<Rightarrow> Some (Inr (deleted, q'))
      | Inr (Some output, q') \<Rightarrow> mpsc_drain (deleted @ [output]) q')"

definition mpsc_destroy :: "'a mpsc \<Rightarrow> ('a list \<times> (nat \<rightharpoonup> 'a mpsc_node)) res option" where
  "mpsc_destroy q =
     (case mpsc_drain [] q of
        None \<Rightarrow> None
      | Some r \<Rightarrow> Some (bindr r (\<lambda>(out, q').
          if mq_heap q' (mq_head q') = None then Inl (UndefinedAccess ''delete front'')
          else Inr (out, (mq_heap q')(mq_head q' := None)))))"

section \<open>MPSCQueue, intrusive\<close>

text \<open>The link is a member of the queued objects themselves; \<open>None\<close> is the address of the queue's
  own dummy, \<open>Some a\<close> the object \<open>a\<close>. The model is sequential.\<close>

record 'a mpsci =
  mi_head :: "'a option"
  mi_tail :: "'a option"
  mi_link :: "'a option \<Rightarrow> 'a option option"

definition MPSCI_new :: "'a mpsci" where
  "MPSCI_new = \<lparr>mi_head = None, mi_tail = None, mi_link = (\<lambda>_. None)\<rparr>"

definition mpsci_Enqueue :: "'a option \<Rightarrow> 'a mpsci \<Rightarrow> 'a mpsci" where
  "mpsci_Enqueue input q =
     (let l1 = (mi_link q)(input := None);
          prevHead = mi_head q
      in q\<lparr>mi_head := input, mi_link := l1(prevHead := Some input)\<rparr>)"

definition mpsci_Dequeue :: "'a mpsci \<Rightarrow> ('a option) option \<times> 'a mpsci" where
  "mpsci_Dequeue q0 =
     (let tail0 = mi_tail q0; next0 = mi_link q0 tail0 in
      if tail0 = None \<and> next0 = None then (None, q0)
      else
        (let (tail, nxt, q) =
           (if tail0 = None
            then (the next0, mi_link q0 (the next0), q0\<lparr>mi_tail := the next0\<rparr>)
            else (tail0, next0, q0)) in
         case nxt of
           Some n \<Rightarrow> (Some tail, q\<lparr>mi_tail := n\<rparr>)
         | None \<Rightarrow>
             if tail \<noteq> mi_head q then (None, q)
             else
               (let q1 = mpsci_Enqueue None q in
                case mi_link q1 tail of
                  Some n \<Rightarrow> (Some tail, q1\<lparr>mi_tail := n\<rparr>)
                | None \<Rightarrow> (None, q1))))"

section \<open>The contract of a queue\<close>

fun get_upto :: "nat \<Rightarrow> ('q \<Rightarrow> ('a \<times> 'q) option) \<Rightarrow> 'q \<Rightarrow> 'a list \<times> 'q" where
  "get_upto 0 get q = ([], q)"
| "get_upto (Suc n) get q =
     (case get q of
        None \<Rightarrow> ([], q)
      | Some (x, q') \<Rightarrow> (let (xs, q'') = get_upto n get q' in (x # xs, q'')))"

locale fifo_once =
  fixes elems :: "'q \<Rightarrow> 'a list"
    and ok :: "'q \<Rightarrow> bool"
    and put :: "'a \<Rightarrow> 'q \<Rightarrow> 'q"
    and get :: "'q \<Rightarrow> ('a \<times> 'q) option"
  assumes put_new: "ok q \<Longrightarrow> x \<notin> set (elems q) \<Longrightarrow> ok (put x q) \<and> elems (put x q) = elems q @ [x]"
    and get_none: "ok q \<Longrightarrow> get q = None \<longleftrightarrow> elems q = []"
    and get_front: "ok q \<Longrightarrow> get q = Some (x, q') \<Longrightarrow> ok q' \<and> elems q = x # elems q'"
begin

lemma put_all_new:
  "ok q \<Longrightarrow> distinct (elems q @ xs) \<Longrightarrow> ok (fold put xs q) \<and> elems (fold put xs q) = elems q @ xs"
proof (induction xs arbitrary: q)
  case (Cons x xs)
  then have "ok (put x q)" "elems (put x q) = elems q @ [x]" using put_new [of q x] by auto
  with Cons show ?case by auto
qed simp

lemma get_many:
  "ok q \<Longrightarrow> fst (get_upto n get q) = take n (elems q)
     \<and> ok (snd (get_upto n get q)) \<and> elems (snd (get_upto n get q)) = drop n (elems q)"
proof (induction n arbitrary: q)
  case (Suc n)
  show ?case
  proof (cases "get q")
    case None
    with Suc.prems get_none [of q] show ?thesis by simp
  next
    case (Some p)
    obtain x q' where p: "p = (x, q')" by (cases p)
    with Some get_front [OF Suc.prems] have q': "ok q'" "elems q = x # elems q'" by auto
    with Suc.IH [OF q'(1)] Some p show ?thesis by (simp add: split_beta)
  qed
qed simp

lemma in_order_new:
  assumes "ok q" "distinct (elems q @ xs)"
  shows "fst (get_upto n get (fold put xs q)) = take n (elems q @ xs)"
  using put_all_new [OF assms] get_many [of "fold put xs q" n] by simp

end

locale fifo = fifo_once elems ok put get
  for elems :: "'q \<Rightarrow> 'a list" and ok :: "'q \<Rightarrow> bool"
    and put :: "'a \<Rightarrow> 'q \<Rightarrow> 'q" and get :: "'q \<Rightarrow> ('a \<times> 'q) option" +
  assumes put_back: "ok q \<Longrightarrow> ok (put x q) \<and> elems (put x q) = elems q @ [x]"
begin

lemma put_all: "ok q \<Longrightarrow> ok (fold put xs q) \<and> elems (fold put xs q) = elems q @ xs"
  by (induction xs arbitrary: q) (simp_all add: put_back)

lemma in_order: "ok q \<Longrightarrow> fst (get_upto n get (fold put xs q)) = take n (elems q @ xs)"
  using put_all [of q xs] get_many [of "fold put xs q" n] by simp

end

interpretation packet_fifo: fifo pq_queue "\<lambda>_. True" pq_AddPacket pq_GetNextPacket
  by unfold_locales (auto simp: pq_AddPacket_def pq_GetNextPacket_def split: list.splits)

interpretation check_fifo: fifo pq_queue "\<lambda>_. True" "\<lambda>(p, n). cq_AddPacket p n" cq_GetNextPacket
  by unfold_locales (auto simp: cq_AddPacket_def cq_GetNextPacket_def split: list.splits)

interpretation pc_fifo: fifo pcq_queue "\<lambda>q. \<not> pcq_shutdown q" pcq_Push pcq_Pop
  by unfold_locales (auto simp: pcq_Push_def pcq_Pop_def split: if_splits)

lemma pcq_cancel_loop_eq: "pcq_cancel_loop d xs = (d @ xs, [])"
  by (induction xs arbitrary: d) simp_all

section \<open>The heap of the lock-free queue\<close>

text \<open>The nodes from the tail to the head. Between two neighbours the link is stored, or the producer
  that is to store it is still between its two steps (\<open>P\<close>).\<close>

fun linked :: "(nat \<rightharpoonup> 'a mpsc_node) \<Rightarrow> (nat \<times> nat) set \<Rightarrow> nat list \<Rightarrow> bool" where
  "linked h P [] \<longleftrightarrow> False"
| "linked h P [a] \<longleftrightarrow> map_option nd_Next (h a) = Some None"
| "linked h P (a # b # ns) \<longleftrightarrow>
     map_option nd_Next (h a) = Some (if (a, b) \<in> P then None else Some b) \<and> linked h P (b # ns)"

definition mpsc_shape :: "(nat \<times> nat) set \<Rightarrow> nat list \<Rightarrow> 'a list \<Rightarrow> 'a mpsc \<Rightarrow> bool" where
  "mpsc_shape P ns xs q \<longleftrightarrow> ns \<noteq> [] \<and> hd ns = mq_tail q \<and> last ns = mq_head q \<and> distinct ns
     \<and> set ns = dom (mq_heap q) \<and> (\<forall>n \<in> set ns. n < mq_brk q) \<and> linked (mq_heap q) P ns
     \<and> P \<subseteq> set (zip ns (tl ns))
     \<and> map (\<lambda>n. map_option nd_Data (mq_heap q n)) (tl ns) = map (\<lambda>x. Some (Some x)) xs"

lemma in_tlD: "x \<in> set (tl xs) \<Longrightarrow> x \<in> set xs"
  by (cases xs) auto

lemma linked_cong:
  "(\<And>n. n \<in> set ns \<Longrightarrow> map_option nd_Next (h n) = map_option nd_Next (h' n)) \<Longrightarrow>
   (\<And>a b. a \<in> set ns \<Longrightarrow> b \<in> set ns \<Longrightarrow> (a, b) \<in> P \<longleftrightarrow> (a, b) \<in> P') \<Longrightarrow> linked h P ns = linked h' P' ns"
  by (induction h P ns rule: linked.induct) auto

lemma linked_snoc:
  "linked h P (ns @ [a]) \<Longrightarrow> distinct (ns @ [a, n]) \<Longrightarrow>
   linked (h(n \<mapsto> \<lparr>nd_Data = d, nd_Next = None\<rparr>)) (insert (a, n) P) (ns @ [a, n])"
proof (induction ns)
  case (Cons c ns)
  then show ?case by (cases ns) auto
qed auto

lemma zip_tl_snoc: "set (zip (ns @ [a, n]) (tl (ns @ [a, n]))) = insert (a, n) (set (zip (ns @ [a]) (tl (ns @ [a]))))"
proof (induction ns)
  case (Cons c ns)
  then show ?case by (cases ns) auto
qed auto

lemma shape_exchange:
  assumes "mpsc_shape P ns xs q" "mpsc_exchange x q = (l, q')"
  shows "l \<notin> P \<and> mpsc_shape (insert l P) (ns @ [mq_brk q]) (xs @ [x]) q'"
proof -
  let ?n = "mq_brk q"
  from assms(1) obtain ms where ns: "ns = ms @ [mq_head q]"
    by (metis append_butlast_last_id mpsc_shape_def)
  from assms(2) have l: "l = (mq_head q, ?n)" and q': "q' = q\<lparr>mq_head := ?n, mq_brk := Suc ?n,
      mq_heap := (mq_heap q)(?n \<mapsto> \<lparr>nd_Data = Some x, nd_Next = None\<rparr>)\<rparr>"
    by (auto simp: mpsc_exchange_def Let_def)
  have new: "?n \<notin> set ns" using assms(1) by (auto simp: mpsc_shape_def)
  then have "l \<notin> P" using assms(1) l by (auto simp: mpsc_shape_def dest!: set_zip_rightD in_tlD)
  moreover have "linked (mq_heap q') (insert l P) (ns @ [?n])"
    using linked_snoc [of "mq_heap q" P ms "mq_head q" ?n "Some x"] assms(1) new
    by (auto simp: mpsc_shape_def ns l q')
  moreover have "insert l P \<subseteq> set (zip (ns @ [?n]) (tl (ns @ [?n])))"
    using assms(1) zip_tl_snoc [of ms "mq_head q" ?n] by (auto simp: mpsc_shape_def ns l)
  moreover have "map (\<lambda>n. map_option nd_Data (mq_heap q' n)) (tl (ns @ [?n])) = map (\<lambda>x. Some (Some x)) (xs @ [x])"
  proof -
    have "map (\<lambda>n. map_option nd_Data (mq_heap q' n)) (tl ns) = map (\<lambda>n. map_option nd_Data (mq_heap q n)) (tl ns)"
      using new by (auto simp: q' dest: in_tlD)
    with assms(1) show ?thesis by (simp add: mpsc_shape_def q')
  qed
  moreover have "hd (ns @ [?n]) = mq_tail q" using assms(1) by (simp add: mpsc_shape_def)
  ultimately show ?thesis using assms(1) new by (auto simp: mpsc_shape_def q' ns)
qed

lemma linked_link:
  "linked h P ns \<Longrightarrow> distinct ns \<Longrightarrow> (p, n) \<in> set (zip ns (tl ns)) \<Longrightarrow> h p = Some nd \<Longrightarrow>
     linked (h(p \<mapsto> nd\<lparr>nd_Next := Some n\<rparr>)) (P - {(p, n)}) ns"
proof (induction h P ns rule: linked.induct)
  case (3 h P a b ns)
  show ?case
  proof (cases "(p, n) = (a, b)")
    case True
    with 3 have "linked (h(a \<mapsto> nd\<lparr>nd_Next := Some b\<rparr>)) (P - {(a, b)}) (b # ns) = linked h P (b # ns)"
      by (intro linked_cong) auto
    with 3 True show ?thesis by (simp add: fun_upd_def)
  next
    case False
    with 3 have "(p, n) \<in> set (zip (b # ns) (tl (b # ns)))" "p \<noteq> a" by (auto dest: set_zip_leftD)
    with 3 False show ?thesis by auto
  qed
qed auto

lemma shape_link:
  assumes "mpsc_shape P ns xs q" "l \<in> P"
  shows "\<exists>q'. mpsc_link l q = Inr q' \<and> mpsc_shape (P - {l}) ns xs q'"
proof -
  have l: "(fst l, snd l) \<in> set (zip ns (tl ns))" using assms by (auto simp: mpsc_shape_def)
  then have "fst l \<in> set ns" by (rule set_zip_leftD)
  then obtain nd where nd: "mq_heap q (fst l) = Some nd" using assms(1) by (auto simp: mpsc_shape_def)
  let ?q = "q\<lparr>mq_heap := (mq_heap q)(fst l \<mapsto> nd\<lparr>nd_Next := Some (snd l)\<rparr>)\<rparr>"
  have "linked (mq_heap ?q) (P - {l}) ns"
    using linked_link [where h = "mq_heap q" and p = "fst l" and n = "snd l", OF _ _ l nd, of P] assms(1)
    by (simp add: mpsc_shape_def)
  moreover have "map (\<lambda>n. map_option nd_Data (mq_heap ?q n)) (tl ns) = map (\<lambda>x. Some (Some x)) xs"
  proof -
    have "map_option nd_Data (mq_heap ?q n) = map_option nd_Data (mq_heap q n)" for n using nd by simp
    with assms(1) show ?thesis by (simp add: mpsc_shape_def del: map_eq_conv fun_upd_apply)
  qed
  ultimately show ?thesis
    using assms(1) nd by (auto simp: mpsc_shape_def mpsc_link_def)
qed

lemma shape_new: "mpsc_shape {} [0] [] MPSC_new"
  by (simp add: mpsc_shape_def MPSC_new_def)

lemma shape_dequeue:
  assumes "mpsc_shape P (a # ns) xs q"
  shows "case xs of
      [] \<Rightarrow> ns = [] \<and> mpsc_Dequeue q = Inr (None, q)
    | x # xs' \<Rightarrow> (\<exists>b ms. ns = b # ms \<and>
        (if (a, b) \<in> P then mpsc_Dequeue q = Inr (None, q)
         else \<exists>q'. mpsc_Dequeue q = Inr (Some x, q') \<and> mpsc_shape P ns xs' q'))"
proof (cases ns)
  case Nil
  with assms show ?thesis by (auto simp: mpsc_shape_def mpsc_Dequeue_def split: list.split)
next
  case (Cons b ms)
  from assms Cons have m: "map (\<lambda>n. map_option nd_Data (mq_heap q n)) (b # ms) = map (\<lambda>x. Some (Some x)) xs"
    by (simp add: mpsc_shape_def)
  then obtain x xs' where xs: "xs = x # xs'" by (cases xs) simp_all
  with m obtain nd where nd: "mq_heap q b = Some nd" "nd_Data nd = Some x" by auto
  from assms Cons have "linked (mq_heap q) P (a # b # ms)" unfolding mpsc_shape_def by blast
  then obtain t where t: "mq_heap q a = Some t" "nd_Next t = (if (a, b) \<in> P then None else Some b)"
    by (cases "mq_heap q a") simp_all
  have a: "mq_tail q = a" using assms by (simp add: mpsc_shape_def)
  show ?thesis
  proof (cases "(a, b) \<in> P")
    case True
    with t a xs Cons show ?thesis by (simp add: mpsc_Dequeue_def)
  next
    case False
    let ?q = "q\<lparr>mq_tail := b, mq_heap := (mq_heap q)(a := None)\<rparr>"
    have d: "a \<notin> set (b # ms)" "distinct (b # ms)" using assms Cons by (auto simp: mpsc_shape_def)
    have "linked (mq_heap ?q) P ns = linked (mq_heap q) P ns"
      using d Cons by (intro linked_cong) auto
    moreover have "map (\<lambda>n. map_option nd_Data (mq_heap ?q n)) (tl ns) = map (\<lambda>x. Some (Some x)) xs'"
    proof -
      have "map (\<lambda>n. map_option nd_Data (mq_heap ?q n)) ms = map (\<lambda>n. map_option nd_Data (mq_heap q n)) ms"
        using d by auto
      with m xs Cons show ?thesis by simp
    qed
    moreover have "P \<subseteq> set (zip ns (tl ns))" using assms Cons False by (auto simp: mpsc_shape_def)
    ultimately have "mpsc_shape P ns xs' ?q"
      using assms Cons xs d by (auto simp: mpsc_shape_def)
    with t a nd False xs Cons show ?thesis by (simp add: mpsc_Dequeue_def)
  qed
qed

subsection \<open>Interleaved producers\<close>

text \<open>A run of the queue: \<open>pending\<close> are the links that producers between their two steps still have to
  store; the two logs are the values in the order of their exchanges and of their dequeues.\<close>

record 'a mpsc_run =
  run_queue :: "'a mpsc"
  run_pending :: "(nat \<times> nat) set"
  run_enqueued :: "'a list"
  run_dequeued :: "'a list"

definition mpsc_start :: "'a mpsc_run" where
  "mpsc_start = \<lparr>run_queue = MPSC_new, run_pending = {}, run_enqueued = [], run_dequeued = []\<rparr>"

inductive mpsc_step :: "'a mpsc_run \<Rightarrow> 'a mpsc_run \<Rightarrow> bool" where
  exchange: "mpsc_exchange x (run_queue s) = (l, q') \<Longrightarrow>
    mpsc_step s (s\<lparr>run_queue := q', run_pending := insert l (run_pending s), run_enqueued := run_enqueued s @ [x]\<rparr>)"
| link: "l \<in> run_pending s \<Longrightarrow> mpsc_link l (run_queue s) = Inr q' \<Longrightarrow>
    mpsc_step s (s\<lparr>run_queue := q', run_pending := run_pending s - {l}\<rparr>)"
| dequeue: "mpsc_Dequeue (run_queue s) = Inr (Some x, q') \<Longrightarrow>
    mpsc_step s (s\<lparr>run_queue := q', run_dequeued := run_dequeued s @ [x]\<rparr>)"
| dequeue_empty: "mpsc_Dequeue (run_queue s) = Inr (None, q') \<Longrightarrow>
    mpsc_step s (s\<lparr>run_queue := q'\<rparr>)"

definition mpsc_reachable :: "'a mpsc_run \<Rightarrow> bool" where
  "mpsc_reachable s \<longleftrightarrow> mpsc_step\<^sup>*\<^sup>* mpsc_start s"

definition mpsc_run_inv :: "'a mpsc_run \<Rightarrow> bool" where
  "mpsc_run_inv s \<longleftrightarrow> (\<exists>a ns xs. mpsc_shape (run_pending s) (a # ns) xs (run_queue s)
     \<and> run_enqueued s = run_dequeued s @ xs)"

lemma mpsc_run_inv_step: "mpsc_step s t \<Longrightarrow> mpsc_run_inv s \<Longrightarrow> mpsc_run_inv t"
proof (induction rule: mpsc_step.induct)
  case (exchange x s l q')
  then obtain a ns xs where s: "mpsc_shape (run_pending s) (a # ns) xs (run_queue s)"
    "run_enqueued s = run_dequeued s @ xs" by (auto simp: mpsc_run_inv_def)
  from shape_exchange [OF s(1) exchange(1)] s(2) show ?case by (auto simp: mpsc_run_inv_def)
next
  case (link l s q')
  then obtain a ns xs where s: "mpsc_shape (run_pending s) (a # ns) xs (run_queue s)"
    "run_enqueued s = run_dequeued s @ xs" by (auto simp: mpsc_run_inv_def)
  from shape_link [OF s(1) link(1)] link(2) s(2) show ?case by (auto simp: mpsc_run_inv_def)
next
  case (dequeue s x q')
  then obtain a ns xs where s: "mpsc_shape (run_pending s) (a # ns) xs (run_queue s)"
    "run_enqueued s = run_dequeued s @ xs" by (auto simp: mpsc_run_inv_def)
  from shape_dequeue [OF s(1)] dequeue s(2) show ?case
    by (auto simp: mpsc_run_inv_def split: list.splits if_splits) blast?
next
  case (dequeue_empty s q')
  then obtain a ns xs where s: "mpsc_shape (run_pending s) (a # ns) xs (run_queue s)"
    "run_enqueued s = run_dequeued s @ xs" by (auto simp: mpsc_run_inv_def)
  from shape_dequeue [OF s(1)] dequeue_empty s show ?case
    by (auto simp: mpsc_run_inv_def split: list.splits if_splits) blast?
qed

lemma mpsc_reachable_inv: "mpsc_reachable s \<Longrightarrow> mpsc_run_inv s"
  unfolding mpsc_reachable_def
proof (induction rule: rtranclp_induct)
  case base
  from shape_new show ?case by (auto simp: mpsc_run_inv_def mpsc_start_def)
qed (rule mpsc_run_inv_step)

subsection \<open>Sequential use\<close>

text \<open>The values from the tail on. There are fewer nodes than addresses handed out, so \<open>mq_brk\<close>
  bounds the walk.\<close>

fun mpsc_walk :: "nat \<Rightarrow> (nat \<rightharpoonup> 'a mpsc_node) \<Rightarrow> nat \<Rightarrow> 'a list" where
  "mpsc_walk 0 h a = []"
| "mpsc_walk (Suc k) h a =
     (case h a of
        None \<Rightarrow> []
      | Some nd \<Rightarrow>
          (case nd_Next nd of
             None \<Rightarrow> []
           | Some b \<Rightarrow> (case h b of None \<Rightarrow> [] | Some nb \<Rightarrow> the (nd_Data nb) # mpsc_walk k h b)))"

definition mpsc_elems :: "'a mpsc \<Rightarrow> 'a list" where
  "mpsc_elems q = mpsc_walk (mq_brk q) (mq_heap q) (mq_tail q)"

definition mpsc_ok :: "'a mpsc \<Rightarrow> bool" where
  "mpsc_ok q \<longleftrightarrow> (\<exists>a ns xs. mpsc_shape {} (a # ns) xs q)"

definition mpsc_put :: "'a \<Rightarrow> 'a mpsc \<Rightarrow> 'a mpsc" where
  "mpsc_put x q = (case mpsc_Enqueue x q of Inl e \<Rightarrow> q | Inr q' \<Rightarrow> q')"

definition mpsc_get :: "'a mpsc \<Rightarrow> ('a \<times> 'a mpsc) option" where
  "mpsc_get q = (case mpsc_Dequeue q of Inr (Some x, q') \<Rightarrow> Some (x, q') | _ \<Rightarrow> None)"

lemma mpsc_okI: "mpsc_shape {} (a # ns) xs q \<Longrightarrow> mpsc_ok q"
  by (auto simp: mpsc_ok_def)

lemma mpsc_walk_shape:
  "linked h {} (a # ns) \<Longrightarrow> length ns \<le> k \<Longrightarrow>
     map (\<lambda>n. map_option nd_Data (h n)) ns = map (\<lambda>x. Some (Some x)) xs \<Longrightarrow> mpsc_walk k h a = xs"
proof (induction ns arbitrary: a k xs)
  case Nil
  then show ?case by (cases k) auto
next
  case (Cons b ns)
  then obtain x xs' where "xs = x # xs'" by (cases xs) auto
  moreover obtain j where "k = Suc j" using Cons.prems by (cases k) auto
  ultimately show ?case using Cons by auto
qed

lemma shape_elems:
  assumes "mpsc_shape {} (a # ns) xs q"
  shows "mpsc_elems q = xs"
proof -
  have "card (set (a # ns)) \<le> card {..<mq_brk q}"
    using assms by (intro card_mono) (auto simp: mpsc_shape_def)
  moreover have "distinct (a # ns)" using assms unfolding mpsc_shape_def by blast
  ultimately have "length (a # ns) \<le> mq_brk q" using distinct_card [of "a # ns"] by simp
  with assms mpsc_walk_shape [of "mq_heap q" a ns "mq_brk q" xs] show ?thesis
    by (auto simp: mpsc_shape_def mpsc_elems_def)
qed

lemma shape_enqueue:
  assumes "mpsc_shape {} (a # ns) xs q"
  shows "\<exists>q'. mpsc_Enqueue x q = Inr q' \<and> mpsc_shape {} (a # ns @ [mq_brk q]) (xs @ [x]) q'"
proof -
  obtain l q1 where e: "mpsc_exchange x q = (l, q1)" by fastforce
  from shape_exchange [OF assms e] have "mpsc_shape {l} (a # ns @ [mq_brk q]) (xs @ [x]) q1" by simp
  from shape_link [OF this, of l] e show ?thesis by (simp add: mpsc_Enqueue_def)
qed

interpretation mpsc_fifo: fifo mpsc_elems mpsc_ok mpsc_put mpsc_get
proof unfold_locales
  fix q :: "'a mpsc" and x
  assume "mpsc_ok q"
  then obtain a ns xs where s: "mpsc_shape {} (a # ns) xs q" by (auto simp: mpsc_ok_def)
  from shape_enqueue [OF s, of x] shape_elems [OF s] show put: "mpsc_ok (mpsc_put x q) \<and> mpsc_elems (mpsc_put x q) = mpsc_elems q @ [x]"
    by (auto simp: mpsc_put_def dest: shape_elems mpsc_okI)
  then show "mpsc_ok (mpsc_put x q) \<and> mpsc_elems (mpsc_put x q) = mpsc_elems q @ [x]" .
  from shape_dequeue [OF s] shape_elems [OF s] show "mpsc_get q = None \<longleftrightarrow> mpsc_elems q = []"
    by (auto simp: mpsc_get_def split: list.splits)
  fix q'
  assume "mpsc_get q = Some (x, q')"
  with shape_dequeue [OF s] shape_elems [OF s] show "mpsc_ok q' \<and> mpsc_elems q = x # mpsc_elems q'"
    by (auto simp: mpsc_get_def split: list.splits dest: shape_elems mpsc_okI)
qed

lemma mpsc_drain_shape:
  "mpsc_shape {} (a # ns) xs q \<Longrightarrow>
     \<exists>n q'. mpsc_drain d q = Some (Inr (d @ xs, q')) \<and> mpsc_shape {} [n] [] q'"
proof (induction xs arbitrary: a ns d q)
  case Nil
  with shape_dequeue [OF Nil] show ?case by (subst mpsc_drain.simps) auto
next
  case (Cons x xs)
  from shape_dequeue [OF Cons.prems] obtain b ms q' where
    q': "mpsc_Dequeue q = Inr (Some x, q')" "mpsc_shape {} (b # ms) xs q'" by auto
  from Cons.IH [OF q'(2), of "d @ [x]"] q'(1) show ?case by (subst mpsc_drain.simps) auto
qed

subsection \<open>The intrusive queue\<close>

text \<open>The objects from the tail to the head; the dummy is among them at most once.\<close>

fun ilinked :: "('a option \<Rightarrow> 'a option option) \<Rightarrow> 'a option list \<Rightarrow> bool" where
  "ilinked l [] \<longleftrightarrow> False"
| "ilinked l [a] \<longleftrightarrow> l a = None"
| "ilinked l (a # b # ns) \<longleftrightarrow> l a = Some b \<and> ilinked l (b # ns)"

definition mpsci_shape :: "'a option list \<Rightarrow> 'a mpsci \<Rightarrow> bool" where
  "mpsci_shape ns q \<longleftrightarrow> ns \<noteq> [] \<and> hd ns = mi_tail q \<and> last ns = mi_head q \<and> distinct ns \<and> ilinked (mi_link q) ns"

lemma ilinked_cong: "(\<And>n. n \<in> set ns \<Longrightarrow> l n = l' n) \<Longrightarrow> ilinked l ns = ilinked l' ns"
  by (induction l ns rule: ilinked.induct) auto

lemma ilinked_functional: "ilinked l ns \<Longrightarrow> ilinked l ms \<Longrightarrow> hd ns = hd ms \<Longrightarrow> ns = ms"
proof (induction l ns arbitrary: ms rule: ilinked.induct)
  case (2 l a)
  then show ?case by (cases "(l, ms)" rule: ilinked.cases) auto
next
  case (3 l a b ns)
  from 3(3,4) 3(2) obtain ms' where "ms = a # b # ms'" "ilinked l (b # ms')"
    by (cases "(l, ms)" rule: ilinked.cases) auto
  with 3(1) [of "b # ms'"] 3(2) show ?case by simp
qed simp

lemma ilinked_snoc:
  "ilinked l (ns @ [a]) \<Longrightarrow> distinct (ns @ [a, n]) \<Longrightarrow> ilinked (l(n := None, a := Some n)) (ns @ [a, n])"
proof (induction ns)
  case (Cons c ns)
  then show ?case by (cases ns) auto
qed auto

lemma ishape_enqueue:
  assumes "mpsci_shape ns q" "n \<notin> set ns"
  shows "mpsci_shape (ns @ [n]) (mpsci_Enqueue n q)"
proof -
  from assms obtain ms where ns: "ns = ms @ [mi_head q]"
    by (metis append_butlast_last_id mpsci_shape_def)
  with assms have "ilinked (mi_link (mpsci_Enqueue n q)) (ms @ [mi_head q, n])"
    by (auto simp: mpsci_shape_def mpsci_Enqueue_def Let_def intro!: ilinked_snoc)
  moreover have "hd (ns @ [n]) = mi_tail q" using assms by (simp add: mpsci_shape_def)
  ultimately show ?thesis using assms ns by (auto simp: mpsci_shape_def mpsci_Enqueue_def Let_def)
qed


text \<open>The abstraction: the objects of the chain without the dummy.\<close>

definition mpsci_nodes :: "'a mpsci \<Rightarrow> 'a option list" where
  "mpsci_nodes q = (THE ns. mpsci_shape ns q)"

definition mpsci_elems :: "'a mpsci \<Rightarrow> 'a list" where
  "mpsci_elems q = List.map_filter id (mpsci_nodes q)"

definition mpsci_ok :: "'a mpsci \<Rightarrow> bool" where
  "mpsci_ok q \<longleftrightarrow> (\<exists>ns. mpsci_shape ns q)"

definition mpsci_get :: "'a mpsci \<Rightarrow> ('a \<times> 'a mpsci) option" where
  "mpsci_get q = (case mpsci_Dequeue q of (Some (Some x), q') \<Rightarrow> Some (x, q') | _ \<Rightarrow> None)"

lemma ishape_nodes: "mpsci_shape ns q \<Longrightarrow> mpsci_nodes q = ns"
  unfolding mpsci_nodes_def by (rule the_equality) (auto simp: mpsci_shape_def intro: ilinked_functional)

lemma ishape_drop: "mpsci_shape (a # b # ns) q \<Longrightarrow> mpsci_shape (b # ns) (q\<lparr>mi_tail := b\<rparr>)"
  by (auto simp: mpsci_shape_def)

lemma map_filter_in: "Some x \<in> set ns \<longleftrightarrow> x \<in> set (List.map_filter id ns)"
  by (induction ns) (auto simp: List.map_filter_simps split: option.splits)

lemma ishape_take:
  assumes "mpsci_shape (Some x # ns) q"
  shows "\<exists>ns' q'. (case mi_link q (Some x) of
        Some n \<Rightarrow> (Some (Some x), q\<lparr>mi_tail := n\<rparr>)
      | None \<Rightarrow>
          if Some x \<noteq> mi_head q then (None, q)
          else (let q1 = mpsci_Enqueue None q in
                case mi_link q1 (Some x) of
                  Some n \<Rightarrow> (Some (Some x), q1\<lparr>mi_tail := n\<rparr>)
                | None \<Rightarrow> (None, q1))) = (Some (Some x), q')
      \<and> mpsci_shape ns' q' \<and> List.map_filter id ns' = List.map_filter id ns"
proof (cases ns)
  case Nil
  with assms have h: "mi_link q (Some x) = None" "mi_head q = Some x" by (auto simp: mpsci_shape_def)
  let ?q1 = "mpsci_Enqueue None q"
  have s: "mpsci_shape [Some x, None] ?q1" using ishape_enqueue [OF assms, of None] Nil by simp
  then have "mi_link ?q1 (Some x) = Some None" by (auto simp: mpsci_shape_def)
  with h ishape_drop [OF s] Nil show ?thesis
    by (auto simp: Let_def List.map_filter_simps intro!: exI [of _ "[None]"])
next
  case (Cons b ms)
  with assms have "mi_link q (Some x) = Some b" by (auto simp: mpsci_shape_def)
  with ishape_drop [of "Some x" b ms q] assms Cons show ?thesis by auto
qed

lemma ishape_dequeue:
  assumes "mpsci_shape ns q"
  shows "if List.map_filter id ns = [] then mpsci_Dequeue q = (None, q)
    else \<exists>ns' q'. mpsci_Dequeue q = (Some (Some (hd (List.map_filter id ns))), q') \<and> mpsci_shape ns' q'
      \<and> List.map_filter id ns' = tl (List.map_filter id ns)"
proof -
  consider "ns = [None]" | x ms where "ns = Some x # ms" | x ms where "ns = None # Some x # ms"
  proof (cases ns)
    case Nil
    with assms show ?thesis by (simp add: mpsci_shape_def)
  next
    case c: (Cons a ms)
    show ?thesis
    proof (cases a)
      case None
      show ?thesis
      proof (cases ms)
        case Nil
        with None c that(1) show ?thesis by simp
      next
        case (Cons b ks)
        with None c assms obtain x where "b = Some x" by (cases b) (auto simp: mpsci_shape_def)
        with None c Cons that(3) show ?thesis by simp
      qed
    qed (use c that(2) in simp)
  qed
  then show ?thesis
  proof cases
    case 1
    with assms show ?thesis by (auto simp: mpsci_shape_def mpsci_Dequeue_def Let_def List.map_filter_simps)
  next
    case 2
    with assms have "mi_tail q = Some x" by (simp add: mpsci_shape_def)
    with ishape_take [of x ms q] assms 2 show ?thesis
      by (auto simp: mpsci_Dequeue_def Let_def List.map_filter_simps)
  next
    case 3
    with assms have "mi_tail q = None" "mi_link q None = Some (Some x)" by (auto simp: mpsci_shape_def)
    with ishape_take [of x ms "q\<lparr>mi_tail := Some x\<rparr>"] ishape_drop [of None "Some x" ms q] assms 3 show ?thesis
      by (auto simp: mpsci_Dequeue_def Let_def List.map_filter_simps)
  qed
qed

interpretation mpsci_fifo: fifo_once mpsci_elems mpsci_ok "\<lambda>x. mpsci_Enqueue (Some x)" mpsci_get
proof unfold_locales
  fix q :: "'a mpsci" and x
  assume "mpsci_ok q"
  then obtain ns where s: "mpsci_shape ns q" by (auto simp: mpsci_ok_def)
  then have e: "mpsci_elems q = List.map_filter id ns" by (simp add: mpsci_elems_def ishape_nodes)
  show "mpsci_get q = None \<longleftrightarrow> mpsci_elems q = []"
    using ishape_dequeue [OF s] e by (auto simp: mpsci_get_def split: if_splits)
  {
    assume "x \<notin> set (mpsci_elems q)"
    then have "mpsci_shape (ns @ [Some x]) (mpsci_Enqueue (Some x) q)"
      using s e by (intro ishape_enqueue) (auto simp: map_filter_in)
    with e show "mpsci_ok (mpsci_Enqueue (Some x) q) \<and>
        mpsci_elems (mpsci_Enqueue (Some x) q) = mpsci_elems q @ [x]"
      by (auto simp: mpsci_ok_def mpsci_elems_def ishape_nodes List.map_filter_def)
  }
  fix q'
  assume g: "mpsci_get q = Some (x, q')"
  with ishape_dequeue [OF s] obtain ns' where "mpsci_shape ns' q'" "List.map_filter id ns' = tl (List.map_filter id ns)"
    "List.map_filter id ns \<noteq> []" "x = hd (List.map_filter id ns)"
    by (auto simp: mpsci_get_def split: if_splits)
  with e show "mpsci_ok q' \<and> mpsci_elems q = x # mpsci_elems q'"
    by (auto simp: mpsci_ok_def mpsci_elems_def ishape_nodes)
qed

section \<open>Properties\<close>

text \<open>
  C5. The lock-free queue under any interleaving of its producers with the consumer: values leave in
  the order of the producers' exchanges and none is lost or duplicated; no step touches a deleted
  node; the consumer sees an empty queue exactly when everything was dequeued, unless the producer of
  the next value has not stored its link yet.
\<close>

theorem mpsc_interleaved_fifo:
  assumes "mpsc_reachable s"
  shows "\<exists>left. run_enqueued s = run_dequeued s @ left
    \<and> (\<forall>l \<in> run_pending s. \<exists>q'. mpsc_link l (run_queue s) = Inr q')
    \<and> (\<exists>r q'. mpsc_Dequeue (run_queue s) = Inr (r, q') \<and> (r \<noteq> None \<longrightarrow> left \<noteq> [] \<and> r = Some (hd left))
         \<and> (r = None \<longrightarrow> left = [] \<or> (\<exists>n. (mq_tail (run_queue s), n) \<in> run_pending s)))"
proof -
  from mpsc_reachable_inv [OF assms] obtain a ns xs where
    s: "mpsc_shape (run_pending s) (a # ns) xs (run_queue s)" "run_enqueued s = run_dequeued s @ xs"
    by (auto simp: mpsc_run_inv_def)
  have "\<forall>l \<in> run_pending s. \<exists>q'. mpsc_link l (run_queue s) = Inr q'" using shape_link [OF s(1)] by blast
  moreover have "a = mq_tail (run_queue s)" using s(1) by (simp add: mpsc_shape_def)
  then have "\<exists>r q'. mpsc_Dequeue (run_queue s) = Inr (r, q') \<and> (r \<noteq> None \<longrightarrow> xs \<noteq> [] \<and> r = Some (hd xs))
      \<and> (r = None \<longrightarrow> xs = [] \<or> (\<exists>n. (mq_tail (run_queue s), n) \<in> run_pending s))"
    using shape_dequeue [OF s(1)] by (auto split: list.splits if_splits)
  ultimately show ?thesis using s(2) by blast
qed

theorem mpsc_interleaved_fifo_witness:
  "\<exists>s :: nat mpsc_run. mpsc_reachable s \<and> run_enqueued s = [5] \<and> run_pending s = {(0, 1)}
     \<and> (\<exists>left. run_enqueued s = run_dequeued s @ left
        \<and> (\<exists>r q'. mpsc_Dequeue (run_queue s) = Inr (r, q') \<and> (r \<noteq> None \<longrightarrow> r = Some (hd left))))"
proof -
  let ?s = "mpsc_start\<lparr>run_queue := snd (mpsc_exchange (5 :: nat) MPSC_new), run_pending := {(0, 1)}, run_enqueued := [5]\<rparr>"
  have "mpsc_exchange (5 :: nat) (run_queue mpsc_start) = ((0, 1), snd (mpsc_exchange 5 MPSC_new))"
    by (simp add: mpsc_start_def mpsc_exchange_def MPSC_new_def)
  from mpsc_step.exchange [OF this] have "mpsc_step mpsc_start ?s" by (simp add: mpsc_start_def)
  then have r: "mpsc_reachable ?s" by (simp add: mpsc_reachable_def)
  from mpsc_interleaved_fifo [OF r] r show ?thesis by (intro exI [of _ ?s]) auto
qed

text \<open>
  The destructor of the lock-free queue terminates, deletes the values still queued in order, and
  leaves no node on the heap.
\<close>

theorem mpsc_destroy_complete:
  assumes "mpsc_ok q"
  shows "mpsc_destroy q = Some (Inr (mpsc_elems q, Map.empty))"
proof -
  from assms obtain a ns xs where s: "mpsc_shape {} (a # ns) xs q" by (auto simp: mpsc_ok_def)
  from mpsc_drain_shape [OF s, of "[]"] obtain n q' where
    d: "mpsc_drain [] q = Some (Inr (xs, q'))" "mpsc_shape {} [n] [] q'" by auto
  then have "mq_head q' = n" "dom (mq_heap q') = {n}" by (auto simp: mpsc_shape_def)
  then have "mq_heap q' n \<noteq> None" "(mq_heap q')(n := None) = Map.empty" by (auto simp: dom_def fun_eq_iff)
  with d \<open>mq_head q' = n\<close> shape_elems [OF s] show ?thesis by (simp add: mpsc_destroy_def)
qed

theorem mpsc_destroy_complete_witness:
  "mpsc_destroy (mpsc_put 2 (mpsc_put (1 :: nat) MPSC_new)) = Some (Inr ([1, 2], Map.empty))"
proof -
  have "mpsc_ok (MPSC_new :: nat mpsc)" using shape_new by (rule mpsc_okI)
  then have "mpsc_ok (mpsc_put 2 (mpsc_put (1 :: nat) MPSC_new))" by (simp add: mpsc_fifo.put_back)
  from mpsc_destroy_complete [OF this] \<open>mpsc_ok MPSC_new\<close> shape_elems [OF shape_new] show ?thesis
    by (simp add: mpsc_fifo.put_back)
qed

text \<open>
  The intrusive queue returns distinct objects in the order they were enqueued, across the
  re-insertions of its dummy; enqueueing and dequeueing may be mixed.
\<close>

theorem mpsci_in_order:
  fixes xs ys :: "'a list"
  assumes "distinct (xs @ ys)"
  shows "let (out, q) = get_upto m mpsci_get (fold (\<lambda>x. mpsci_Enqueue (Some x)) xs MPSCI_new)
     in out @ fst (get_upto n mpsci_get (fold (\<lambda>x. mpsci_Enqueue (Some x)) ys q))
        = take m xs @ take n (drop m xs @ ys)"
proof -
  have "mpsci_shape [None] (MPSCI_new :: 'a mpsci)" by (simp add: mpsci_shape_def MPSCI_new_def)
  from ishape_nodes [OF this] this have new: "mpsci_ok (MPSCI_new :: 'a mpsci)" "mpsci_elems (MPSCI_new :: 'a mpsci) = []"
    by (auto simp: mpsci_ok_def mpsci_elems_def List.map_filter_simps)
  let ?q = "fold (\<lambda>x. mpsci_Enqueue (Some x)) xs MPSCI_new"
  have q: "mpsci_ok ?q" "mpsci_elems ?q = xs" using mpsci_fifo.put_all_new [of MPSCI_new xs] new assms by auto
  note g = mpsci_fifo.get_many [OF q(1), of m]
  have "set (drop m xs) \<subseteq> set xs" by (rule set_drop_subset)
  then have "distinct (drop m xs @ ys)" using assms by auto
  with g q mpsci_fifo.in_order_new [of "snd (get_upto m mpsci_get ?q)" ys n] show ?thesis
    by (simp add: split_beta)
qed

theorem mpsci_in_order_witness:
  "let (out, q) = get_upto 2 mpsci_get (fold (\<lambda>x. mpsci_Enqueue (Some x)) [1, 2 :: nat] MPSCI_new)
   in out @ fst (get_upto 2 mpsci_get (fold (\<lambda>x. mpsci_Enqueue (Some x)) [3] q)) = [1, 2, 3]"
  using mpsci_in_order [of "[1, 2 :: nat]" "[3]" 2 2] by (simp add: split_beta)

text \<open>
  A packet queue returns packets in the order they were added, and packets taken out and handed
  back with \<open>ReadContainer\<close> leave the queue as it was; the checked read removes a packet exactly when
  the check accepts the front one.
\<close>

theorem packet_queue_order:
  "fst (get_upto n pq_GetNextPacket (fold pq_AddPacket xs q)) = take n (pq_queue q @ xs)
   \<and> (let (out, q') = get_upto n pq_GetNextPacket q in pq_ReadContainer out q' = q)
   \<and> pq_GetNextPacket_check check q =
       (case pq_GetNextPacket q of
          None \<Rightarrow> (False, None, q)
        | Some (p, q') \<Rightarrow> (check p, Some p, if check p then q' else q))"
proof -
  have "pq_canceled (snd (get_upto n pq_GetNextPacket q)) = pq_canceled q" for q :: "'a packet_queue"
    by (induction n arbitrary: q)
      (auto simp: pq_GetNextPacket_def split_beta split: list.splits option.splits)
  then have "(let (out, q') = get_upto n pq_GetNextPacket q in pq_ReadContainer out q' = q)"
    using packet_fifo.get_many [where q = q and n = n] by (simp add: split_beta pq_ReadContainer_def)
  moreover have "pq_GetNextPacket_check check q =
       (case pq_GetNextPacket q of
          None \<Rightarrow> (False, None, q)
        | Some (p, q') \<Rightarrow> (check p, Some p, if check p then q' else q))"
    by (simp add: pq_GetNextPacket_check_def pq_GetNextPacket_def split: list.split)
  ultimately show ?thesis using packet_fifo.in_order [where q = q and n = n and xs = xs] by simp
qed

text \<open>
  \<open>ProducerConsumerQueue::Cancel\<close> deletes every queued value once, in order, and ends the queue
  for good: whatever is pushed later, \<open>Pop\<close> fails and every \<open>WaitAndPop\<close> returns without a value
  instead of waiting; before that, a waiter waits exactly while the queue is empty.
\<close>

theorem pc_queue_cancel:
  "fst (pcq_Cancel q) = pcq_queue q
   \<and> (let q' = fold pcq_Push xs (snd (pcq_Cancel q))
      in pcq_Pop q' = None \<and> pcq_WaitAndPop q' = (Returned None, q'))
   \<and> (fst (pcq_WaitAndPop q) = Waiting \<longleftrightarrow> pcq_Empty q \<and> \<not> pcq_shutdown q)"
proof -
  have "pcq_shutdown (fold pcq_Push xs q) = pcq_shutdown q" for q :: "'a pc_queue"
    by (induction xs arbitrary: q) (simp_all add: pcq_Push_def)
  then have "pcq_shutdown (fold pcq_Push xs (snd (pcq_Cancel q)))"
    by (simp add: pcq_Cancel_def split_beta)
  then show ?thesis
    by (auto simp: pcq_Cancel_def pcq_cancel_loop_eq Let_def pcq_Pop_def pcq_WaitAndPop_def pcq_Empty_def)
qed

end
