(* ===== verification/DiscordSession.thy ===== *)
theory DiscordSession
  imports Framing Queues
begin

text \<open>
  The session of an authenticated client, \<open>src/src/server/Server/DiscordSession.h\<close> and
  \<open>DiscordSession.cpp\<close> with the opcode handlers of \<open>src/src/server/Handlers\<close>, and the two calls
  the handlers make on the bot (\<open>src/src/server/Bot/DiscordBot.cpp\<close>). The session holds its socket
  until \<open>Update\<close> finds it closed. The bot is the switch \<open>_isEnable\<close> and the messages handed to
  the Discord library. Logging is left out, and so are the three callback processors of the
  session, to which no code of the program adds a callback.
\<close>

section \<open>The bot as the handlers see it\<close>

text \<open>What the handlers set on an embed before it is sent.\<close>

record embed_message =
  em_color :: uint32
  em_title :: string
  em_description :: string
  em_fields :: "(string \<times> string \<times> bool) list"
  em_timestamp :: int64

datatype bot_message = BotText int64 string | BotEmbed int64 embed_message

record bot =
  db_isEnable :: bool
  db_created :: "bot_message list"

definition SendDefaultMessage :: "int64 \<Rightarrow> string \<Rightarrow> bot \<Rightarrow> bot" where
  "SendDefaultMessage channelID message b =
     (if \<not> db_isEnable b then b else b\<lparr>db_created := db_created b @ [BotText channelID message]\<rparr>)"

definition SendEmbedMessage :: "int64 \<Rightarrow> embed_message option \<Rightarrow> bot \<Rightarrow> bot" where
  "SendEmbedMessage channelID emb b =
     (case emb of
        None \<Rightarrow> b
      | Some e \<Rightarrow> if \<not> db_isEnable b then b else b\<lparr>db_created := db_created b @ [BotEmbed channelID e]\<rparr>)"

section \<open>State\<close>

record discord_session =
  ss_socket :: "discord_socket option"
  ss_address :: string
  ss_accountId :: uint32
  ss_guildID :: int64
  ss_accountName :: string
  ss_latency :: int64
  ss_kicked :: bool
  ss_channels :: "int64 list"
  ss_recvQueue :: "discord_packet packet_queue"

definition MAX_PROCESSED_PACKETS_IN_SAME_WORLDSESSION_UPDATE :: nat where
  "MAX_PROCESSED_PACKETS_IN_SAME_WORLDSESSION_UPDATE = 100"

text \<open>The constructor; \<open>remote\<close> is the remote address of the socket.\<close>

definition DiscordSession_new ::
  "uint32 \<Rightarrow> int64 \<Rightarrow> string \<Rightarrow> int64 list \<Rightarrow> discord_socket option \<Rightarrow> string \<Rightarrow> discord_session" where
  "DiscordSession_new sid guildID name channels sock remote =
     \<lparr>ss_socket = sock, ss_address = (if sock = None then [] else remote), ss_accountId = sid,
      ss_guildID = guildID, ss_accountName = name, ss_latency = 0, ss_kicked = False,
      ss_channels = channels, ss_recvQueue = PacketQueue_new\<rparr>"

text \<open>The destructor; what becomes of the socket is the result.\<close>

definition DiscordSession_delete :: "discord_session \<Rightarrow> discord_socket option" where
  "DiscordSession_delete s = map_option (CloseSocket ds_OnClose) (ss_socket s)"

definition ss_SetKicked :: "bool \<Rightarrow> discord_session \<Rightarrow> discord_session" where
  "ss_SetKicked val s = s\<lparr>ss_kicked := val\<rparr>"

definition ss_SetLatency :: "int64 \<Rightarrow> discord_session \<Rightarrow> discord_session" where
  "ss_SetLatency latency s = s\<lparr>ss_latency := latency\<rparr>"

section \<open>Packets out and in\<close>

definition ss_SendPacket :: "discord_packet \<Rightarrow> discord_session \<Rightarrow> discord_session" where
  "ss_SendPacket packet s =
     (if dp_opcode packet = NULL_DISCORD_CODE then s
      else case ss_socket s of
             None \<Rightarrow> s
           | Some sock \<Rightarrow> s\<lparr>ss_socket := Some (ds_SendPacket packet sock)\<rparr>)"

definition ss_QueuePacket :: "discord_packet \<Rightarrow> discord_session \<Rightarrow> discord_session" where
  "ss_QueuePacket packet s = s\<lparr>ss_recvQueue := pq_AddPacket packet (ss_recvQueue s)\<rparr>"

definition ss_SendAuthResponse ::
  "endian \<Rightarrow> DiscordAuthResponseCodes \<Rightarrow> discord_session \<Rightarrow> discord_session res" where
  "ss_SendAuthResponse h code s = bindr (AuthResponse_Write h code) (\<lambda>packet. Inr (ss_SendPacket packet s))"

section \<open>Handlers\<close>

text \<open>\<open>DiscordChannelType::MaxType\<close> is the number of channels; \<open>at\<close> throws past the end.\<close>

definition GetChannelID :: "uint8 \<Rightarrow> discord_session \<Rightarrow> int64 res" where
  "GetChannelID channelType s =
     (if ss_channels s = [] \<or> unat channelType \<ge> DEFAULT_CHANNELS_COUNT then Inr 0
      else if unat channelType < length (ss_channels s) then Inr (ss_channels s ! unat channelType)
      else Inl (UndefinedAccess ''DiscordChannelsList::at''))"

definition ss_HandleSendDiscordMessageOpcode :: "message_packet \<Rightarrow> discord_session \<Rightarrow> bot \<Rightarrow> bot res" where
  "ss_HandleSendDiscordMessageOpcode packet s b =
     bindr (GetChannelID (mp_ChannelType packet) s) (\<lambda>channelID.
       if channelID = 0 then Inr b else Inr (SendDefaultMessage channelID (mp_Context packet) b))"

definition build_embed :: "embed_packet \<Rightarrow> embed_message" where
  "build_embed packet =
     \<lparr>em_color = ep_Color packet, em_title = ep_Title packet, em_description = ep_Description packet,
      em_fields = map (\<lambda>f. (ef_Name f, ef_Value f, ef_IsInline f)) (ep_EmbedFields packet),
      em_timestamp = ep_Timestamp packet\<rparr>"

definition ss_HandleSendDiscordEmbedMessageOpcode :: "embed_packet \<Rightarrow> discord_session \<Rightarrow> bot \<Rightarrow> bot res" where
  "ss_HandleSendDiscordEmbedMessageOpcode packet s b =
     bindr (GetChannelID (ep_ChannelType packet) s) (\<lambda>channelID.
       if channelID = 0 then Inr b else Inr (SendEmbedMessage channelID (Some (build_embed packet)) b))"

text \<open>The hello handler and the three plain handlers only log.\<close>

definition ss_HandleHelloOpcode :: "hello_packet \<Rightarrow> discord_session \<Rightarrow> bot \<Rightarrow> bot res" where
  "ss_HandleHelloOpcode packet s b = Inr b"

definition ss_Handle_EarlyProccess :: "discord_packet \<Rightarrow> discord_session \<Rightarrow> bot \<Rightarrow> bot res" where
  "ss_Handle_EarlyProccess recvPacket s b = Inr b"

definition ss_Handle_ServerSide :: "discord_packet \<Rightarrow> discord_session \<Rightarrow> bot \<Rightarrow> bot res" where
  "ss_Handle_ServerSide recvPacket s b = Inr b"

definition ss_Handle_NULL :: "discord_packet \<Rightarrow> discord_session \<Rightarrow> bot \<Rightarrow> bot res" where
  "ss_Handle_NULL null s b = Inr b"

text \<open>\<open>PacketHandler::Call\<close>: the typed handlers build their packet class, read it and pass it on.\<close>

definition call_typed ::
  "DiscordCode \<Rightarrow> (byte_buffer \<Rightarrow> ('p \<times> byte_buffer) res) \<Rightarrow> ('p \<Rightarrow> discord_session \<Rightarrow> bot \<Rightarrow> bot res) \<Rightarrow>
   discord_packet \<Rightarrow> discord_session \<Rightarrow> bot \<Rightarrow> bot res" where
  "call_typed code read handler packet s b =
     bindr (ClientPacket code packet) (\<lambda>buf.
     bindr (read buf) (\<lambda>(nicePacket, _). handler nicePacket s b))"

fun call_handler ::
  "endian \<Rightarrow> opcode_function \<Rightarrow> discord_packet \<Rightarrow> discord_session \<Rightarrow> bot \<Rightarrow> bot res" where
  "call_handler h HandleHelloOpcode packet s b =
     call_typed CLIENT_SEND_HELLO (HelloClient_Read h) ss_HandleHelloOpcode packet s b"
| "call_handler h HandleSendDiscordMessageOpcode packet s b =
     call_typed CLIENT_SEND_MESSAGE (SendDiscordMessage_Read h) ss_HandleSendDiscordMessageOpcode packet s b"
| "call_handler h HandleSendDiscordEmbedMessageOpcode packet s b =
     call_typed CLIENT_SEND_MESSAGE_EMBED (SendDiscordEmbedMessage_Read h)
       ss_HandleSendDiscordEmbedMessageOpcode packet s b"
| "call_handler h Handle_EarlyProccess packet s b = ss_Handle_EarlyProccess packet s b"
| "call_handler h Handle_ServerSide packet s b = ss_Handle_ServerSide packet s b"

section \<open>Update\<close>

text \<open>One packet: a missing handler is a null pointer; what a handler throws is caught, the packet
  skipped.\<close>

definition process_packet ::
  "endian \<Rightarrow> opcode_table \<Rightarrow> discord_packet \<Rightarrow> discord_session \<Rightarrow> bot \<Rightarrow> bot res" where
  "process_packet h tbl packet s b =
     bindr (opcode_lookup tbl (dp_opcode packet)) (\<lambda>opHandle.
       case opHandle of
         None \<Rightarrow> Inl (UndefinedAccess ''opHandle->Call'')
       | Some handler \<Rightarrow>
           (case call_handler h (oh_Function handler) packet s b of
              Inl e \<Rightarrow> if is_thrown e then Inr b else Inl e
            | Inr b' \<Rightarrow> Inr b'))"

function session_loop ::
  "endian \<Rightarrow> opcode_table \<Rightarrow> nat \<Rightarrow> discord_session \<Rightarrow> bot \<Rightarrow> (discord_session \<times> bot) res" where
  "session_loop h tbl processedPackets s b =
     (if ss_socket s = None then Inr (s, b)
      else case pq_GetNextPacket (ss_recvQueue s) of
             None \<Rightarrow> Inr (s, b)
           | Some (packet, q) \<Rightarrow>
               (let s' = s\<lparr>ss_recvQueue := q\<rparr> in
                bindr (process_packet h tbl packet s' b) (\<lambda>b'.
                  if processedPackets + 1 > MAX_PROCESSED_PACKETS_IN_SAME_WORLDSESSION_UPDATE
                  then Inr (s', b')
                  else session_loop h tbl (processedPackets + 1) s' b')))"
  by pat_completeness auto
termination
  by (relation "measure (\<lambda>(h, tbl, n, s, b). MAX_PROCESSED_PACKETS_IN_SAME_WORLDSESSION_UPDATE - n)")
     (auto simp: MAX_PROCESSED_PACKETS_IN_SAME_WORLDSESSION_UPDATE_def)

declare session_loop.simps [simp del]

definition ss_Update ::
  "endian \<Rightarrow> opcode_table \<Rightarrow> discord_session \<Rightarrow> bot \<Rightarrow> (bool \<times> discord_session \<times> bot) res" where
  "ss_Update h tbl s b =
     bindr (session_loop h tbl 0 s b) (\<lambda>(s1, b1).
       let s2 = (case ss_socket s1 of
                   None \<Rightarrow> s1
                 | Some sock \<Rightarrow> if \<not> sk_IsOpen sock then s1\<lparr>ss_socket := None\<rparr> else s1)
       in Inr (ss_socket s2 \<noteq> None, s2, b1))"

definition ss_HandleSocketClosed :: "bool \<Rightarrow> discord_session \<Rightarrow> bool \<times> discord_session" where
  "ss_HandleSocketClosed stopped s =
     (case ss_socket s of
        None \<Rightarrow> (False, s)
      | Some sock \<Rightarrow>
          if \<not> sk_IsOpen sock \<and> \<not> stopped then (True, s\<lparr>ss_socket := None\<rparr>) else (False, s))"

definition ss_IsSocketClosed :: "discord_session \<Rightarrow> bool" where
  "ss_IsSocketClosed s = (case ss_socket s of None \<Rightarrow> True | Some sock \<Rightarrow> \<not> sk_IsOpen sock)"

definition ss_KickSession :: "bool \<Rightarrow> discord_session \<Rightarrow> discord_session" where
  "ss_KickSession setKicked s =
     (let s1 = (case ss_socket s of
                  None \<Rightarrow> s
                | Some sock \<Rightarrow> s\<lparr>ss_socket := Some (CloseSocket ds_OnClose sock)\<rparr>)
      in if setKicked then ss_SetKicked True s1 else s1)"

section \<open>What an update does\<close>

text \<open>The messages a packet asks the bot to post, and posting them.\<close>

definition channel_messages :: "int64 list \<Rightarrow> uint8 \<Rightarrow> (int64 \<Rightarrow> bot_message) \<Rightarrow> bot_message list" where
  "channel_messages channels t f =
     (if unat t < DEFAULT_CHANNELS_COUNT \<and> channels ! unat t \<noteq> 0 then [f (channels ! unat t)] else [])"

definition packet_messages :: "endian \<Rightarrow> int64 list \<Rightarrow> discord_packet \<Rightarrow> bot_message list" where
  "packet_messages h channels packet =
     (if dp_opcode packet = code_value CLIENT_SEND_MESSAGE then
        (case SendDiscordMessage_Read h (dp_buf packet) of
           Inl _ \<Rightarrow> []
         | Inr (m, _) \<Rightarrow> channel_messages channels (mp_ChannelType m) (\<lambda>c. BotText c (mp_Context m)))
      else if dp_opcode packet = code_value CLIENT_SEND_MESSAGE_EMBED then
        (case SendDiscordEmbedMessage_Read h (dp_buf packet) of
           Inl _ \<Rightarrow> []
         | Inr (m, _) \<Rightarrow> channel_messages channels (ep_ChannelType m) (\<lambda>c. BotEmbed c (build_embed m)))
      else [])"

definition post :: "bot_message list \<Rightarrow> bot \<Rightarrow> bot" where
  "post ms b = (if db_isEnable b then b\<lparr>db_created := db_created b @ ms\<rparr> else b)"

text \<open>The packets the socket hands over: the code has an entry in the table, and the buffer is one
  a packet buffer is moved into.\<close>

definition queued_ok :: "discord_packet \<Rightarrow> bool" where
  "queued_ok packet \<longleftrightarrow> dp_opcode packet \<in> range code_value \<and> bb_ok (dp_buf packet)"

lemma post_simps [simp]:
  "post [] b = b" "post ms (post ms' b) = post (ms' @ ms) b" "db_isEnable (post ms b) = db_isEnable b"
  by (auto simp: post_def)

lemma GetChannelID_eq:
  assumes "length (ss_channels s) = DEFAULT_CHANNELS_COUNT"
  shows "GetChannelID t s = Inr (if unat t < DEFAULT_CHANNELS_COUNT then ss_channels s ! unat t else 0)"
  using assms by (auto simp: GetChannelID_def DEFAULT_CHANNELS_COUNT_def)

lemma HandleMessage_post:
  assumes "length (ss_channels s) = DEFAULT_CHANNELS_COUNT"
  shows "ss_HandleSendDiscordMessageOpcode m s b =
           Inr (post (channel_messages (ss_channels s) (mp_ChannelType m) (\<lambda>c. BotText c (mp_Context m))) b)"
    and "ss_HandleSendDiscordEmbedMessageOpcode e s b =
           Inr (post (channel_messages (ss_channels s) (ep_ChannelType e) (\<lambda>c. BotEmbed c (build_embed e))) b)"
  using assms
  by (auto simp: ss_HandleSendDiscordMessageOpcode_def ss_HandleSendDiscordEmbedMessageOpcode_def
        GetChannelID_eq channel_messages_def SendDefaultMessage_def SendEmbedMessage_def post_def)

lemma message_read_safe: "bb_ok b \<Longrightarrow> safe_read (SendDiscordMessage_Read h b)"
  unfolding SendDiscordMessage_Read_def shift_ops
  by (intro safe_read_bind [OF safe_bb_read])
     (auto intro!: safe_read_bind [OF safe_ReadCString] simp: shr_string_def)

lemma hello_read_safe: "bb_ok b \<Longrightarrow> safe_read (HelloClient_Read h b)"
  unfolding HelloClient_Read_def
  by (auto intro!: safe_read_bind [OF safe_ReadCString] simp: shr_string_def)

lemma embed_read_safe: "bb_ok b \<Longrightarrow> safe_read (SendDiscordEmbedMessage_Read h b)"
  using consumes_embed by (auto simp: consumes_def)

lemmas session_reads_safe = message_read_safe hello_read_safe embed_read_safe

lemma call_typed_safe:
  assumes "dp_opcode packet = code_value code" "safe_read (read (dp_buf packet))"
    and "\<And>p b'. read (dp_buf packet) = Inr (p, b') \<Longrightarrow> handler p s b = Inr (g p)"
  shows "(case call_typed code read handler packet s b of
            Inl e \<Rightarrow> if is_thrown e then Inr b else Inl e | Inr b' \<Rightarrow> Inr b') =
         Inr (case read (dp_buf packet) of Inl _ \<Rightarrow> b | Inr (p, _) \<Rightarrow> g p)"
  using assms by (cases "read (dp_buf packet)") (auto simp: call_typed_def ClientPacket_def)

lemma process_packet_post:
  assumes "queued_ok packet" "length (ss_channels s) = DEFAULT_CHANNELS_COUNT"
  shows "process_packet h (OpcodeTable_Initialize OpcodeTable_new) packet s b =
    Inr (post (packet_messages h (ss_channels s) packet) b)"
proof -
  obtain code where code: "dp_opcode packet = code_value code" and buf: "bb_ok (dp_buf packet)"
    using assms(1) by (auto simp: queued_ok_def)
  note safe = session_reads_safe [OF buf, of h]
  show ?thesis
  proof (cases code)
    case CLIENT_SEND_HELLO
    then show ?thesis
      using call_typed_safe [OF code, of "HelloClient_Read h" ss_HandleHelloOpcode s b "\<lambda>_. b"] safe(2) code
      by (simp add: process_packet_def opcode_lookup_def initialized_table packet_messages_def
            ss_HandleHelloOpcode_def split: sum.splits prod.splits)
  next
    case CLIENT_SEND_MESSAGE
    then show ?thesis
      using call_typed_safe [OF code, where read = "SendDiscordMessage_Read h" and s = s and b = b
          and handler = ss_HandleSendDiscordMessageOpcode
          and g = "\<lambda>m. post (channel_messages (ss_channels s) (mp_ChannelType m) (\<lambda>c. BotText c (mp_Context m))) b"]
        safe(1) code
      by (simp add: HandleMessage_post [OF assms(2)] process_packet_def opcode_lookup_def initialized_table packet_messages_def
            split: sum.splits prod.splits)
  next
    case CLIENT_SEND_MESSAGE_EMBED
    then show ?thesis
      using call_typed_safe [OF code, where read = "SendDiscordEmbedMessage_Read h" and s = s and b = b
          and handler = ss_HandleSendDiscordEmbedMessageOpcode
          and g = "\<lambda>e. post (channel_messages (ss_channels s) (ep_ChannelType e) (\<lambda>c. BotEmbed c (build_embed e))) b"]
        safe(3) code
      by (simp add: HandleMessage_post [OF assms(2)] process_packet_def opcode_lookup_def initialized_table packet_messages_def
            split: sum.splits prod.splits)
  qed (use code in \<open>simp_all add: process_packet_def opcode_lookup_def initialized_table packet_messages_def
         ss_Handle_EarlyProccess_def ss_Handle_ServerSide_def\<close>)
qed

lemma session_loop_eq:
  assumes "ss_socket s \<noteq> None" "n \<le> 100" "length (ss_channels s) = DEFAULT_CHANNELS_COUNT"
    and "\<forall>packet\<in>set (pq_queue (ss_recvQueue s)). queued_ok packet"
  shows "session_loop h (OpcodeTable_Initialize OpcodeTable_new) n s b =
    Inr (s\<lparr>ss_recvQueue := (ss_recvQueue s)\<lparr>pq_queue := drop (101 - n) (pq_queue (ss_recvQueue s))\<rparr>\<rparr>,
         post (concat (map (packet_messages h (ss_channels s)) (take (101 - n) (pq_queue (ss_recvQueue s))))) b)"
  using assms
proof (induction "101 - n" arbitrary: n s b)
  case 0
  then show ?case by simp
next
  case (Suc k)
  let ?tbl = "OpcodeTable_Initialize OpcodeTable_new"
  show ?case
  proof (cases "pq_queue (ss_recvQueue s)")
    case Nil
    then show ?thesis using Suc.prems
      by (simp add: session_loop.simps [of h ?tbl n s b] pq_GetNextPacket_def)
  next
    case (Cons packet rest)
    let ?s = "s\<lparr>ss_recvQueue := (ss_recvQueue s)\<lparr>pq_queue := rest\<rparr>\<rparr>"
    let ?b = "post (packet_messages h (ss_channels s) packet) b"
    have ok: "queued_ok packet" using Suc.prems(4) Cons by simp
    have step: "process_packet h ?tbl packet ?s b = Inr ?b"
      using process_packet_post [OF ok, of ?s h b] Suc.prems(3) by simp
    have k: "101 - n = Suc (100 - n)" using Suc.prems(2) by simp
    have unfold: "session_loop h ?tbl n s b = (if n + 1 > 100 then Inr (?s, ?b) else session_loop h ?tbl (n + 1) ?s ?b)"
      using Suc.prems(1) Cons step
      by (auto simp: session_loop.simps [of h ?tbl n s b] pq_GetNextPacket_def
            MAX_PROCESSED_PACKETS_IN_SAME_WORLDSESSION_UPDATE_def)
    show ?thesis
    proof (cases "n + 1 > 100")
      case True
      then show ?thesis using unfold Cons k by simp
    next
      case False
      have "session_loop h ?tbl (n + 1) ?s ?b =
        Inr (?s\<lparr>ss_recvQueue := (ss_recvQueue ?s)\<lparr>pq_queue := drop (101 - (n + 1)) (pq_queue (ss_recvQueue ?s))\<rparr>\<rparr>,
          post (concat (map (packet_messages h (ss_channels ?s)) (take (101 - (n + 1)) (pq_queue (ss_recvQueue ?s))))) ?b)"
        by (rule Suc.hyps(1)) (use Suc.hyps(2) Suc.prems False Cons in auto)
      then show ?thesis using unfold False Cons k by simp
    qed
  qed
qed

text \<open>
  C36. An update of a session with a socket handles the queued packets in the order they came, at
  most 101 of them, posts exactly the messages they ask for on the channels of the session, skips
  malformed packets, never calls through a missing handler nor aborts on a failed assertion, and
  leaves the rest of the queue for the next update. It reports the session alive exactly when its
  socket is open, and drops the socket otherwise.
\<close>

theorem session_update_posts:
  assumes "ss_socket s = Some sock" "length (ss_channels s) = DEFAULT_CHANNELS_COUNT"
    and "\<forall>packet\<in>set (pq_queue (ss_recvQueue s)). queued_ok packet"
  shows "ss_Update h (OpcodeTable_Initialize OpcodeTable_new) s b =
    Inr (sk_IsOpen sock,
         s\<lparr>ss_socket := if sk_IsOpen sock then Some sock else None,
           ss_recvQueue := (ss_recvQueue s)\<lparr>pq_queue := drop 101 (pq_queue (ss_recvQueue s))\<rparr>\<rparr>,
         post (concat (map (packet_messages h (ss_channels s)) (take 101 (pq_queue (ss_recvQueue s))))) b)"
  using assms session_loop_eq [of s 0 h b] by (simp add: ss_Update_def)

text \<open>A chat message on the wire.\<close>

definition message_bytes :: "message_packet \<Rightarrow> uint8 list" where
  "message_bytes m = le_bytes (mp_ChannelType m) @ string_bytes (mp_Context m)"

definition wire_message :: "message_packet \<Rightarrow> bool" where
  "wire_message m \<longleftrightarrow> wire_string (mp_Context m)"

interpretation messages: wire_codec message_bytes "SendDiscordMessage_Read h" wire_message for h
proof unfold_locales
  fix b v rest
  assume b: "bb_ok b" and v: "wire_message v" and u: "bb_unread b = message_bytes v @ rest"
  note w = u [unfolded message_bytes_def append_assoc]
  note 1 = u8.decode_continue [OF b TrueI w]
  note 2 = strings.decode_continue [OF 1(2) v [unfolded wire_message_def] 1(3)]
  show "SendDiscordMessage_Read h b = Inr (v, bb_advance (length (message_bytes v)) b)"
    unfolding SendDiscordMessage_Read_def shift_ops 1(1) prod.case 2(1) by (simp add: message_bytes_def)
qed

definition packet_of :: "DiscordCode \<Rightarrow> uint8 list \<Rightarrow> discord_packet" where
  "packet_of code payload =
     \<lparr>dp_opcode = code_value code, dp_buf = \<lparr>bb_rpos = 0, bb_wpos = 0, bb_storage = payload\<rparr>\<rparr>"

lemma packet_messages_text:
  assumes "wire_message m" "length (message_bytes m) < 10000"
  shows "packet_messages h channels (packet_of CLIENT_SEND_MESSAGE (message_bytes m)) =
    channel_messages channels (mp_ChannelType m) (\<lambda>c. BotText c (mp_Context m))"
    and "queued_ok (packet_of CLIENT_SEND_MESSAGE (message_bytes m))"
proof -
  let ?b = "\<lparr>bb_rpos = 0, bb_wpos = 0, bb_storage = message_bytes m\<rparr>"
  have ok: "bb_ok ?b" using assms(2) by (simp add: bb_ok_def)
  have "bb_unread ?b = message_bytes m @ []" by (simp add: bb_unread_def)
  from messages.decode [OF ok assms(1) this, of h]
  show "packet_messages h channels (packet_of CLIENT_SEND_MESSAGE (message_bytes m)) =
    channel_messages channels (mp_ChannelType m) (\<lambda>c. BotText c (mp_Context m))"
    by (simp add: packet_messages_def packet_of_def)
  have "code_value CLIENT_SEND_MESSAGE \<in> range code_value" by blast
  then show "queued_ok (packet_of CLIENT_SEND_MESSAGE (message_bytes m))"
    using ok by (simp add: queued_ok_def packet_of_def)
qed

definition hi_message :: message_packet where
  "hi_message = \<lparr>mp_ChannelType = 2, mp_Context = ''Hi''\<rparr>"

lemma hi_message_wire: "wire_message hi_message" "length (message_bytes hi_message) < 10000"
  by code_simp+

definition sample_session :: discord_session where
  "sample_session = DiscordSession_new 7 9 ''acc'' [10, 11, 12, 13, 14, 15, 16] (Some DiscordSocket_new) ''1.2.3.4''"

lemma sample_session_fields:
  "ss_socket sample_session = Some DiscordSocket_new" "ss_recvQueue sample_session = PacketQueue_new"
  "ss_channels sample_session = [10, 11, 12, 13, 14, 15, 16]"
  by (simp_all add: sample_session_def DiscordSession_new_def)

theorem session_update_posts_witness:
  "let packet = packet_of CLIENT_SEND_MESSAGE (message_bytes hi_message)
   in ss_Update WARHEAD_LITTLEENDIAN (OpcodeTable_Initialize OpcodeTable_new) (ss_QueuePacket packet sample_session)
        \<lparr>db_isEnable = True, db_created = []\<rparr> =
      Inr (True, sample_session, \<lparr>db_isEnable = True, db_created = [BotText 12 ''Hi'']\<rparr>)"
proof -
  let ?p = "packet_of CLIENT_SEND_MESSAGE (message_bytes hi_message)"
  let ?s = "ss_QueuePacket ?p sample_session"
  have q: "ss_recvQueue ?s = \<lparr>pq_queue = [?p], pq_canceled = False\<rparr>"
    by (simp add: ss_QueuePacket_def pq_AddPacket_def sample_session_fields PacketQueue_new_def)
  have f: "ss_socket ?s = Some DiscordSocket_new" "ss_channels ?s = [10, 11, 12, 13, 14, 15, 16]"
    by (simp_all add: ss_QueuePacket_def sample_session_fields)
  have "ss_recvQueue sample_session = \<lparr>pq_queue = [], pq_canceled = False\<rparr>"
    by (simp add: sample_session_fields PacketQueue_new_def)
  then have same: "?s\<lparr>ss_socket := Some DiscordSocket_new, ss_recvQueue := \<lparr>pq_queue = [], pq_canceled = False\<rparr>\<rparr> = sample_session"
    by (simp add: ss_QueuePacket_def sample_session_def DiscordSession_new_def PacketQueue_new_def)
  have "sk_IsOpen DiscordSocket_new" by (simp add: sk_IsOpen_def DiscordSocket_new_def)
  with session_update_posts [OF f(1), of WARHEAD_LITTLEENDIAN "\<lparr>db_isEnable = True, db_created = []\<rparr>"]
    q f(2) packet_messages_text [OF hi_message_wire] same
  show ?thesis
    by (simp add: Let_def DEFAULT_CHANNELS_COUNT_def post_def channel_messages_def hi_message_def)
qed

end
