(* ===== verification/Discord.thy ===== *)
theory Discord
  imports DiscordSession KeyedStore
begin

text \<open>
  The server object, \<open>src/src/server/Discord/Discord.h\<close> and \<open>Discord.cpp\<close>: the sessions by
  account, their update, and the shutdown timer; with the clocks of \<open>src/src/server/Time\<close>. The hash
  map of sessions is the list of its entries in iteration order. Sessions that are deleted close
  their sockets, which are collected in \<open>dc_released\<close>; sessions that are dropped from the map
  without being deleted are collected in \<open>dc_leaked\<close>. Times are seconds.
\<close>

section \<open>Clocks\<close>

record game_time =
  gt_StartTime :: int
  gt_GameTime :: int
  gt_GameMSTime :: int
  gt_SystemPoint :: int
  gt_SteadyPoint :: int

text \<open>What the clocks show: seconds since the epoch, milliseconds since the start of the process,
  and the points of the two clocks.\<close>

record clock_reading =
  cr_epoch :: int
  cr_ms :: int
  cr_system :: int
  cr_steady :: int

definition UpdateGameTimers :: "clock_reading \<Rightarrow> game_time \<Rightarrow> game_time" where
  "UpdateGameTimers clk g =
     g\<lparr>gt_GameTime := cr_epoch clk, gt_GameMSTime := cr_ms clk, gt_SystemPoint := cr_system clk,
       gt_SteadyPoint := cr_steady clk\<rparr>"

definition GetUptime :: "game_time \<Rightarrow> int" where
  "GetUptime g = gt_GameTime g - gt_StartTime g"

section \<open>Update time statistics\<close>

definition AVG_DIFF_COUNT :: nat where
  "AVG_DIFF_COUNT = 1000"

record update_time =
  ut_table :: "int list"
  ut_index :: nat
  ut_last :: int
  ut_average :: int

definition UpdateTime_new :: update_time where
  "UpdateTime_new = \<lparr>ut_table = replicate AVG_DIFF_COUNT 0, ut_index = 0, ut_last = 0, ut_average = 0\<rparr>"

definition ut_at :: "nat \<Rightarrow> int list \<Rightarrow> int res" where
  "ut_at i xs = (if i < length xs then Inr (xs ! i) else Inl (UndefinedAccess ''_updateTimeDataTable''))"

definition ut_Update :: "int \<Rightarrow> update_time \<Rightarrow> update_time res" where
  "ut_Update diff u =
     (let u1 = u\<lparr>ut_last := diff, ut_table := (ut_table u)[ut_index u := diff]\<rparr>;
          total = sum_list (ut_table u1)
      in bindr (ut_at (length (ut_table u1)) (ut_table u1)) (\<lambda>last_entry.
           bindr (if last_entry > 0 then Inr (u1\<lparr>ut_average := total div int (length (ut_table u1))\<rparr>)
                  else bindr (ut_at (ut_index u1) (ut_table u1)) (\<lambda>entry.
                    if entry > 0 then Inr (u1\<lparr>ut_average := total div (int (ut_index u1) + 1)\<rparr>) else Inr u1))
             (\<lambda>u2. Inr (u2\<lparr>ut_index :=
                if ut_index u2 + 1 \<ge> length (ut_table u2) then 0 else ut_index u2 + 1\<rparr>))))"

section \<open>The server object\<close>

definition SHUTDOWN_EXIT_CODE :: uint8 where "SHUTDOWN_EXIT_CODE = 0"
definition ERROR_EXIT_CODE :: uint8 where "ERROR_EXIT_CODE = 1"
definition RESTART_EXIT_CODE :: uint8 where "RESTART_EXIT_CODE = 2"

record discord =
  dc_stopEvent :: bool
  dc_exitCode :: uint8
  dc_shutdownTimer :: int
  dc_isClosed :: bool
  dc_sessions :: "(uint32 \<times> discord_session) list"
  dc_maxActiveSessionCount :: nat
  dc_sessionCount :: uint32
  dc_maxSessionCount :: uint32
  dc_released :: "discord_socket list"
  dc_leaked :: "discord_session list"

definition Discord_new :: discord where
  "Discord_new =
     \<lparr>dc_stopEvent = False, dc_exitCode = SHUTDOWN_EXIT_CODE, dc_shutdownTimer = 0, dc_isClosed = False,
      dc_sessions = [], dc_maxActiveSessionCount = 0, dc_sessionCount = 0, dc_maxSessionCount = 0,
      dc_released = [], dc_leaked = []\<rparr>"

definition dc_IsClosed :: "discord \<Rightarrow> bool" where
  "dc_IsClosed d = dc_isClosed d"

definition dc_SetClosed :: "bool \<Rightarrow> discord \<Rightarrow> discord" where
  "dc_SetClosed val d = d\<lparr>dc_isClosed := val\<rparr>"

definition dc_delete_session :: "discord_session \<Rightarrow> discord \<Rightarrow> discord" where
  "dc_delete_session s d =
     d\<lparr>dc_released := dc_released d @ (case DiscordSession_delete s of None \<Rightarrow> [] | Some sock \<Rightarrow> [sock])\<rparr>"

definition Discord_delete :: "discord \<Rightarrow> discord" where
  "Discord_delete d = (foldl (\<lambda>d (_, s). dc_delete_session s d) d (dc_sessions d))\<lparr>dc_sessions := []\<rparr>"

definition FindSession :: "uint32 \<Rightarrow> discord \<Rightarrow> discord_session option" where
  "FindSession sid d = um_find sid (dc_sessions d)"

definition dc_KickSession :: "uint32 \<Rightarrow> discord \<Rightarrow> discord" where
  "dc_KickSession sid d =
     (if um_find sid (dc_sessions d) \<noteq> None
      then d\<lparr>dc_sessions := um_modify sid (ss_KickSession False) (dc_sessions d)\<rparr> else d)"

definition dc_UpdateMaxSessionCounters :: "discord \<Rightarrow> discord" where
  "dc_UpdateMaxSessionCounters d =
     d\<lparr>dc_maxActiveSessionCount := max (dc_maxActiveSessionCount d) (length (dc_sessions d))\<rparr>"

definition GetActiveSessionCount :: "discord \<Rightarrow> uint32" where
  "GetActiveSessionCount d = word_of_nat (length (dc_sessions d))"

definition IncreaseSessionCount :: "discord \<Rightarrow> discord" where
  "IncreaseSessionCount d =
     (let n = dc_sessionCount d + 1
      in d\<lparr>dc_sessionCount := n, dc_maxSessionCount := max (dc_maxSessionCount d) n\<rparr>)"

definition DecreaseSessionCount :: "discord \<Rightarrow> discord" where
  "DecreaseSessionCount d = d\<lparr>dc_sessionCount := dc_sessionCount d - 1\<rparr>"

text \<open>\<open>AddSession\<close>; the session is a pointer, asserted not to be null.\<close>

definition AddSession :: "endian \<Rightarrow> discord_session option \<Rightarrow> discord \<Rightarrow> discord res" where
  "AddSession h session d =
     (case session of
        None \<Rightarrow> Inl (AssertFailure ''session'')
      | Some s \<Rightarrow>
          (let sid = ss_accountId s;
               d1 = dc_KickSession sid d;
               d2 = (case um_find sid (dc_sessions d1) of
                       None \<Rightarrow> d1
                     | Some old \<Rightarrow> (dc_delete_session old d1)\<lparr>dc_sessions := um_erase sid (dc_sessions d1)\<rparr>);
               d3 = dc_UpdateMaxSessionCounters (d2\<lparr>dc_sessions := um_emplace sid s (dc_sessions d2)\<rparr>)
           in bindr (ss_SendAuthResponse h AuthOk s) (\<lambda>s'.
                Inr (d3\<lparr>dc_sessions := um_modify sid (\<lambda>_. s') (dc_sessions d3)\<rparr>))))"

definition KickAll :: "discord \<Rightarrow> discord" where
  "KickAll d = d\<lparr>dc_sessions := [], dc_leaked := dc_leaked d @ map (ss_KickSession True \<circ> snd) (dc_sessions d)\<rparr>"

text \<open>The loop of \<open>UpdateSessions\<close>: the entries that stay, the sessions that are deleted and the bot.\<close>

fun update_sessions ::
  "endian \<Rightarrow> opcode_table \<Rightarrow> (uint32 \<times> discord_session) list \<Rightarrow> bot \<Rightarrow>
   ((uint32 \<times> discord_session) list \<times> discord_session list \<times> bot) res" where
  "update_sessions h tbl [] b = Inr ([], [], b)"
| "update_sessions h tbl ((sid, s) # rest) b =
     bindr (ss_Update h tbl s b) (\<lambda>(alive, s', b').
     bindr (update_sessions h tbl rest b') (\<lambda>(keep, gone, b'').
       Inr (if alive then ((sid, s') # keep, gone, b'') else (keep, s' # gone, b''))))"

definition dc_UpdateSessions :: "endian \<Rightarrow> opcode_table \<Rightarrow> discord \<Rightarrow> bot \<Rightarrow> (discord \<times> bot) res" where
  "dc_UpdateSessions h tbl d b =
     bindr (update_sessions h tbl (dc_sessions d) b) (\<lambda>(keep, gone, b').
       Inr (foldl (\<lambda>d s. dc_delete_session s d) (d\<lparr>dc_sessions := keep\<rparr>) gone, b'))"

section \<open>Shutdown\<close>

definition dc_IsStopped :: "discord \<Rightarrow> bool" where
  "dc_IsStopped d = dc_stopEvent d"

definition IsShuttingDown :: "discord \<Rightarrow> bool" where
  "IsShuttingDown d \<longleftrightarrow> dc_shutdownTimer d > 0"

definition StopNow :: "uint8 \<Rightarrow> discord \<Rightarrow> discord" where
  "StopNow exitcode d = d\<lparr>dc_stopEvent := True, dc_exitCode := exitcode\<rparr>"

text \<open>Whether \<open>ShutdownMsg\<close> logs its message.\<close>

definition ShutdownMsg :: "bool \<Rightarrow> discord \<Rightarrow> bool" where
  "ShutdownMsg sho d \<longleftrightarrow>
     (let t = dc_shutdownTimer d in
      sho \<or> (t < 5 * 60 \<and> t mod 15 = 0) \<or> (t < 15 * 60 \<and> t mod 60 = 0) \<or>
      (t < 30 * 60 \<and> t mod (5 * 60) = 0) \<or> (t < 12 * 3600 \<and> t mod 3600 = 0) \<or>
      (t > 12 * 3600 \<and> t mod (12 * 3600) = 0))"

definition ShutdownServ :: "int \<Rightarrow> uint8 \<Rightarrow> discord \<Rightarrow> discord" where
  "ShutdownServ time exitcode d =
     (if dc_IsStopped d then d
      else
        (let d1 = d\<lparr>dc_exitCode := exitcode\<rparr>;
             t = (if time < 2 \<and> GetActiveSessionCount d1 \<noteq> 0 then 2 else time)
         in if t = 0 then d1\<lparr>dc_stopEvent := True\<rparr> else d1\<lparr>dc_shutdownTimer := t\<rparr>))"

definition ShutdownCancel :: "discord \<Rightarrow> discord" where
  "ShutdownCancel d =
     (if dc_shutdownTimer d = 0 \<or> dc_stopEvent d then d
      else d\<lparr>dc_shutdownTimer := 0, dc_exitCode := SHUTDOWN_EXIT_CODE\<rparr>)"

text \<open>\<open>_UpdateGameTime\<close>; the third component says whether a countdown message was logged.\<close>

definition dc_UpdateGameTime :: "clock_reading \<Rightarrow> game_time \<Rightarrow> discord \<Rightarrow> game_time \<times> discord \<times> bool" where
  "dc_UpdateGameTime clk g d =
     (let g' = UpdateGameTimers clk g;
          elapsed = gt_GameTime g' - gt_GameTime g
      in if \<not> dc_IsStopped d \<and> dc_shutdownTimer d > 0 \<and> elapsed > 0 then
           (if dc_shutdownTimer d \<le> elapsed then (g', d\<lparr>dc_stopEvent := True\<rparr>, False)
            else let d' = d\<lparr>dc_shutdownTimer := dc_shutdownTimer d - elapsed\<rparr> in (g', d', ShutdownMsg False d'))
         else (g', d, False))"

section \<open>Sessions by account\<close>

definition sessions_ok :: "discord \<Rightarrow> bool" where
  "sessions_ok d \<longleftrightarrow> distinct (map fst (dc_sessions d)) \<and> (\<forall>(sid, s)\<in>set (dc_sessions d). ss_accountId s = sid)"

lemma AuthResponse_Write_eq: "AuthResponse_Write h code = Inr (auth_packet code)"
  by (simp add: AuthResponse_Write_def auth_packet_def shift_ops word_put_extends bb_writing_def ByteBuffer_new_def
        bb_extend_def)

lemma KickSession_fields [simp]:
  "ss_accountId (ss_KickSession k s) = ss_accountId s"
  "ss_socket (ss_KickSession k s) = map_option (CloseSocket ds_OnClose) (ss_socket s)"
  by (simp_all add: ss_KickSession_def ss_SetKicked_def split: option.splits)

lemma ss_SendPacket_fields [simp]:
  "ss_accountId (ss_SendPacket p s) = ss_accountId s"
  "ss_socket (ss_SendPacket p s) = (if dp_opcode p = NULL_DISCORD_CODE then ss_socket s else map_option (ds_SendPacket p) (ss_socket s))"
  by (simp_all add: ss_SendPacket_def split: option.splits)

lemma sessions_ok_KickSession: "sessions_ok d \<Longrightarrow> sessions_ok (dc_KickSession sid d)"
  by (fastforce simp: sessions_ok_def dc_KickSession_def um_modify_set)

lemma sessions_ok_erase:
  "sessions_ok d \<Longrightarrow> sessions_ok (d\<lparr>dc_sessions := um_erase sid (dc_sessions d)\<rparr>)"
  by (auto simp: sessions_ok_def um_erase_set)

lemma sessions_ok_emplace:
  "sessions_ok d \<Longrightarrow> ss_accountId s = sid \<Longrightarrow> sessions_ok (d\<lparr>dc_sessions := um_emplace sid s (dc_sessions d)\<rparr>)"
  by (auto simp: sessions_ok_def um_emplace_def um_find_None)

lemma sessions_ok_modify:
  "sessions_ok d \<Longrightarrow> (\<And>s. ss_accountId s = sid \<Longrightarrow> ss_accountId (f s) = sid) \<Longrightarrow>
     sessions_ok (d\<lparr>dc_sessions := um_modify sid f (dc_sessions d)\<rparr>)"
  by (fastforce simp: sessions_ok_def um_modify_set)

lemma sessions_ok_fields [simp]:
  "sessions_ok (d\<lparr>dc_released := r\<rparr>) = sessions_ok d" "sessions_ok (d\<lparr>dc_maxActiveSessionCount := n\<rparr>) = sessions_ok d"
  by (simp_all add: sessions_ok_def)

text \<open>What adding a session comes to: the account's entry is replaced, and the socket of a session
  it replaces is closed.\<close>

definition replaced_sockets :: "uint32 \<Rightarrow> discord \<Rightarrow> discord_socket list" where
  "replaced_sockets sid d =
     (case FindSession sid d of
        None \<Rightarrow> []
      | Some old \<Rightarrow> map (CloseSocket ds_OnClose \<circ> CloseSocket ds_OnClose) (case ss_socket old of None \<Rightarrow> [] | Some k \<Rightarrow> [k]))"

lemma AddSession_eq:
  fixes s d
  defines "sid \<equiv> ss_accountId s"
  defines "m \<equiv> um.replace_entry sid s (dc_sessions d)"
  shows "AddSession h (Some s) d =
    Inr (d\<lparr>dc_sessions := um_modify sid (\<lambda>_. ss_SendPacket (auth_packet AuthOk) s) m,
           dc_maxActiveSessionCount := max (dc_maxActiveSessionCount d) (length m),
           dc_released := dc_released d @ replaced_sockets sid d\<rparr>)"
proof (cases "FindSession sid d")
  case None
  then show ?thesis
    by (simp add: AddSession_def Let_def dc_KickSession_def FindSession_def sid_def [symmetric] m_def
          um.replace_entry_def um_erase_absent ss_SendAuthResponse_def AuthResponse_Write_eq
          dc_UpdateMaxSessionCounters_def replaced_sockets_def)
next
  case (Some old)
  then show ?thesis
    by (simp add: AddSession_def Let_def dc_KickSession_def FindSession_def sid_def [symmetric] m_def
          um.replace_entry_def um_find_modify ss_SendAuthResponse_def AuthResponse_Write_eq
          dc_UpdateMaxSessionCounters_def replaced_sockets_def dc_delete_session_def DiscordSession_delete_def
          split: option.splits)
qed

text \<open>
  One session per account: adding a session succeeds, replaces the session the account had and
  no other, keeps every session filed under its own account, closes the socket of the replaced
  session and, unless it was closed before, detaches it from that session, and answers the new client with the code \<open>Ok\<close>.
\<close>

theorem add_session_replaces:
  assumes "sessions_ok d"
  shows "\<exists>d'. AddSession h (Some s) d = Inr d' \<and> sessions_ok d' \<and>
    FindSession (ss_accountId s) d' = Some (ss_SendPacket (auth_packet AuthOk) s) \<and>
    (\<forall>sid. sid \<noteq> ss_accountId s \<longrightarrow> FindSession sid d' = FindSession sid d) \<and>
    length (dc_sessions d') \<le> dc_maxActiveSessionCount d' \<and>
    (\<forall>old sock. FindSession (ss_accountId s) d = Some old \<and> ss_socket old = Some sock \<longrightarrow>
       (\<exists>sock'. dc_released d' = dc_released d @ [sock'] \<and> sk_closed sock' \<and>
         (sk_closed sock \<or> ds_discordSession sock' = None)))"
proof -
  let ?sid = "ss_accountId s" and ?s = "ss_SendPacket (auth_packet AuthOk) s"
  let ?m = "um.replace_entry ?sid s (dc_sessions d)"
  let ?d = "d\<lparr>dc_sessions := um_modify ?sid (\<lambda>_. ?s) ?m,
           dc_maxActiveSessionCount := max (dc_maxActiveSessionCount d) (length ?m),
           dc_released := dc_released d @ replaced_sockets ?sid d\<rparr>"
  have "sessions_ok (d\<lparr>dc_sessions := ?m\<rparr>)"
    using sessions_ok_emplace [OF sessions_ok_erase [OF assms], of s ?sid ?sid] by (simp add: um.replace_entry_def)
  from sessions_ok_modify [OF this, of ?sid "\<lambda>_. ?s"] have ok: "sessions_ok ?d"
    by (simp add: sessions_ok_def)
  have find: "FindSession sid ?d = (if sid = ?sid then Some ?s else FindSession sid d)" for sid
    by (simp add: FindSession_def um_find_modify um_find_replace)
  have closed: "\<exists>sock'. replaced_sockets ?sid d = [sock'] \<and> sk_closed sock' \<and>
         (sk_closed sock \<or> ds_discordSession sock' = None)"
    if "FindSession ?sid d = Some old" "ss_socket old = Some sock" for old sock
    using that by (simp add: replaced_sockets_def CloseSocket_def ds_OnClose_def)
  show ?thesis
    using AddSession_eq [of h s d] ok find closed by (auto simp: um_modify_def)
qed

text \<open>An account that connects a second time.\<close>

theorem add_session_replaces_witness:
  "\<exists>d'. AddSession WARHEAD_LITTLEENDIAN (Some (sample_session\<lparr>ss_guildID := 1\<rparr>))
           (Discord_new\<lparr>dc_sessions := [(3, sample_session\<lparr>ss_accountId := 3\<rparr>), (7, sample_session)]\<rparr>) = Inr d' \<and>
        sessions_ok d' \<and> FindSession 3 d' = Some (sample_session\<lparr>ss_accountId := 3\<rparr>) \<and>
        (\<exists>sock'. dc_released d' = [sock'] \<and> sk_closed sock')"
proof -
  let ?d = "Discord_new\<lparr>dc_sessions := [(3, sample_session\<lparr>ss_accountId := 3\<rparr>), (7, sample_session)]\<rparr>"
  have sid: "ss_accountId sample_session = 7" by (simp add: sample_session_def DiscordSession_new_def)
  have "sessions_ok ?d" by (simp add: sessions_ok_def sid)
  from add_session_replaces [OF this, of WARHEAD_LITTLEENDIAN "sample_session\<lparr>ss_guildID := 1\<rparr>"]
  show ?thesis
    using sid by (fastforce simp: FindSession_def um_find_def sample_session_fields Discord_new_def)
qed

section \<open>Updating the sessions\<close>

definition serviced :: "discord_session \<Rightarrow> bool" where
  "serviced s \<longleftrightarrow> length (ss_channels s) = DEFAULT_CHANNELS_COUNT \<and>
     (\<forall>packet\<in>set (pq_queue (ss_recvQueue s)). queued_ok packet)"

text \<open>An update of one session, as a value: what is posted and what the session is afterwards.\<close>

definition posted :: "endian \<Rightarrow> discord_session \<Rightarrow> bot_message list" where
  "posted h s = (if ss_socket s = None then []
     else concat (map (packet_messages h (ss_channels s)) (take 101 (pq_queue (ss_recvQueue s)))))"

definition after_update :: "discord_session \<Rightarrow> discord_session" where
  "after_update s = s\<lparr>ss_recvQueue := (ss_recvQueue s)\<lparr>pq_queue := drop 101 (pq_queue (ss_recvQueue s))\<rparr>\<rparr>"

lemma session_loop_no_socket: "ss_socket s = None \<Longrightarrow> session_loop h tbl n s b = Inr (s, b)"
  by (subst session_loop.simps) simp

lemma session_loop_serviced:
  "serviced s \<Longrightarrow> ss_socket s = Some sock \<Longrightarrow>
     session_loop h (OpcodeTable_Initialize OpcodeTable_new) 0 s b = Inr (after_update s, post (posted h s) b)"
  using session_loop_eq [of s 0 h b] by (simp add: serviced_def after_update_def posted_def)

lemma session_update_closed:
  assumes "serviced s" "ss_IsSocketClosed s"
  shows "\<exists>s'. ss_Update h (OpcodeTable_Initialize OpcodeTable_new) s b = Inr (False, s', post (posted h s) b) \<and> ss_socket s' = None"
proof (cases "ss_socket s")
  case None
  then show ?thesis by (simp add: ss_Update_def posted_def session_loop_no_socket)
next
  case (Some sock)
  then show ?thesis using session_loop_serviced [OF assms(1)] assms(2)
    by (simp add: ss_Update_def ss_IsSocketClosed_def after_update_def)
qed

lemma session_update_open:
  assumes "serviced s" "\<not> ss_IsSocketClosed s"
  shows "ss_Update h (OpcodeTable_Initialize OpcodeTable_new) s b = Inr (True, after_update s, post (posted h s) b)"
proof (cases "ss_socket s")
  case None
  then show ?thesis using assms(2) by (simp add: ss_IsSocketClosed_def)
next
  case (Some sock)
  then show ?thesis using session_loop_serviced [OF assms(1)] assms(2)
    by (simp add: ss_Update_def ss_IsSocketClosed_def after_update_def)
qed

lemma update_sessions_eq:
  assumes "\<forall>(sid, s)\<in>set m. serviced s"
  shows "\<exists>gone. update_sessions h (OpcodeTable_Initialize OpcodeTable_new) m b =
     Inr (map (map_prod id after_update) (filter (\<lambda>(_, s). \<not> ss_IsSocketClosed s) m), gone,
          post (concat (map (posted h \<circ> snd) m)) b) \<and> (\<forall>s\<in>set gone. ss_socket s = None)"
  using assms
proof (induction m arbitrary: b)
  case (Cons x m)
  obtain sid s where x: "x = (sid, s)" by (rule prod.exhaust)
  have s: "serviced s" and m: "\<forall>(sid, s)\<in>set m. serviced s" using Cons.prems x by auto
  obtain gone where gone: "update_sessions h (OpcodeTable_Initialize OpcodeTable_new) m (post (posted h s) b) =
     Inr (map (map_prod id after_update) (filter (\<lambda>(_, s). \<not> ss_IsSocketClosed s) m), gone,
          post (concat (map (posted h \<circ> snd) m)) (post (posted h s) b))" "\<forall>s\<in>set gone. ss_socket s = None"
    using Cons.IH [OF m] by blast
  show ?case
  proof (cases "ss_IsSocketClosed s")
    case True
    then obtain s' where "ss_Update h (OpcodeTable_Initialize OpcodeTable_new) s b = Inr (False, s', post (posted h s) b)"
        "ss_socket s' = None"
      using session_update_closed [OF s] by blast
    then show ?thesis using gone True x by (simp add: comp_def)
  next
    case False
    then show ?thesis using session_update_open [OF s False] gone x by (simp add: comp_def)
  qed
qed simp

lemma delete_closed: "\<forall>s\<in>set gone. ss_socket s = None \<Longrightarrow> foldl (\<lambda>d s. dc_delete_session s d) d gone = d"
  by (induction gone arbitrary: d) (simp_all add: dc_delete_session_def DiscordSession_delete_def)

text \<open>
  A round of the server over its sessions never fails: it updates every session once, posts
  their messages in the order of the sessions and, within a session, of its packets, keeps exactly
  the sessions whose socket is open, each with what is left of its queue, and files none under
  another account.
\<close>

theorem sessions_round:
  assumes "sessions_ok d" "\<forall>(sid, s)\<in>set (dc_sessions d). serviced s"
  shows "\<exists>d'. dc_UpdateSessions h (OpcodeTable_Initialize OpcodeTable_new) d b =
       Inr (d', post (concat (map (posted h \<circ> snd) (dc_sessions d))) b) \<and> sessions_ok d' \<and>
    (\<forall>sid. FindSession sid d' =
       (case FindSession sid d of
          None \<Rightarrow> None
        | Some s \<Rightarrow> if ss_IsSocketClosed s then None else Some (after_update s)))"
proof -
  let ?keep = "map (map_prod id after_update) (filter (\<lambda>(_, s). \<not> ss_IsSocketClosed s) (dc_sessions d))"
  obtain gone where gone: "update_sessions h (OpcodeTable_Initialize OpcodeTable_new) (dc_sessions d) b =
      Inr (?keep, gone, post (concat (map (posted h \<circ> snd) (dc_sessions d))) b)" "\<forall>s\<in>set gone. ss_socket s = None"
    using update_sessions_eq [OF assms(2)] by blast
  have "distinct (map fst (filter (\<lambda>(_, s). \<not> ss_IsSocketClosed s) (dc_sessions d)))"
    using assms(1) by (simp add: sessions_ok_def distinct_map_filter)
  then have ok: "sessions_ok (d\<lparr>dc_sessions := ?keep\<rparr>)"
    using assms(1) by (auto simp: sessions_ok_def after_update_def comp_def)
  show ?thesis
    using gone delete_closed [OF gone(2)] ok assms(1)
    by (auto simp: dc_UpdateSessions_def FindSession_def um_find_filter_map sessions_ok_def split: option.splits)
qed

theorem sessions_round_witness:
  "\<exists>d'. dc_UpdateSessions WARHEAD_LITTLEENDIAN (OpcodeTable_Initialize OpcodeTable_new)
      (Discord_new\<lparr>dc_sessions := [(7, ss_QueuePacket (packet_of CLIENT_SEND_MESSAGE (message_bytes hi_message)) sample_session)]\<rparr>)
      \<lparr>db_isEnable = True, db_created = []\<rparr> = Inr (d', \<lparr>db_isEnable = True, db_created = [BotText 12 ''Hi'']\<rparr>)"
proof -
  let ?p = "packet_of CLIENT_SEND_MESSAGE (message_bytes hi_message)"
  let ?s = "ss_QueuePacket ?p sample_session"
  let ?d = "Discord_new\<lparr>dc_sessions := [(7, ?s)]\<rparr>"
  note fields = ss_QueuePacket_def pq_AddPacket_def sample_session_fields PacketQueue_new_def
  have "sessions_ok ?d" by (simp add: sessions_ok_def sample_session_def DiscordSession_new_def ss_QueuePacket_def)
  moreover have "\<forall>(sid, s)\<in>set (dc_sessions ?d). serviced s"
    using packet_messages_text(2) [OF hi_message_wire]
    by (simp add: serviced_def fields DEFAULT_CHANNELS_COUNT_def)
  moreover have "posted WARHEAD_LITTLEENDIAN ?s = [BotText 12 ''Hi'']"
    using packet_messages_text(1) [OF hi_message_wire]
    by (simp add: posted_def fields channel_messages_def hi_message_def DEFAULT_CHANNELS_COUNT_def)
  ultimately show ?thesis
    using sessions_round [of ?d WARHEAD_LITTLEENDIAN "\<lparr>db_isEnable = True, db_created = []\<rparr>"]
    by (auto simp: post_def)
qed

section \<open>The countdown\<close>

text \<open>Ticks of the server at the given clock readings, and the countdown the messages belong to.\<close>

fun dc_ticks :: "clock_reading list \<Rightarrow> game_time \<Rightarrow> discord \<Rightarrow> game_time \<times> discord" where
  "dc_ticks [] g d = (g, d)"
| "dc_ticks (c # cs) g d = (let (g', d', _) = dc_UpdateGameTime c g d in dc_ticks cs g' d')"

lemma UpdateGameTimers_GameTime [simp]: "gt_GameTime (UpdateGameTimers c g) = cr_epoch c"
  by (simp add: UpdateGameTimers_def)

lemma dc_ticks_stopped: "dc_stopEvent d \<Longrightarrow> snd (dc_ticks cs g d) = d"
  by (induction cs arbitrary: g) (simp_all add: dc_UpdateGameTime_def dc_IsStopped_def Let_def)

lemma dc_ticks_countdown:
  assumes "\<not> dc_stopEvent d" "0 < dc_shutdownTimer d" "sorted (gt_GameTime g # map cr_epoch cs)"
  defines "passed \<equiv> last (gt_GameTime g # map cr_epoch cs) - gt_GameTime g"
  shows "if passed < dc_shutdownTimer d
         then snd (dc_ticks cs g d) = d\<lparr>dc_shutdownTimer := dc_shutdownTimer d - passed\<rparr>
         else dc_stopEvent (snd (dc_ticks cs g d)) \<and> dc_exitCode (snd (dc_ticks cs g d)) = dc_exitCode d"
  using assms(1-3) unfolding passed_def
proof (induction cs arbitrary: g d)
  case (Cons c cs)
  let ?e = "cr_epoch c - gt_GameTime g"
  let ?g = "UpdateGameTimers c g"
  have e: "0 \<le> ?e" using Cons.prems(3) by simp
  have last: "last (gt_GameTime g # map cr_epoch (c # cs)) = last (gt_GameTime ?g # map cr_epoch cs)" by simp
  have mono: "cr_epoch c \<le> last (gt_GameTime ?g # map cr_epoch cs)"
    using Cons.prems(3) by (cases cs rule: rev_cases) (auto simp: sorted_append)
  show ?case
  proof (cases "dc_shutdownTimer d \<le> ?e")
    case True
    then have "dc_ticks (c # cs) g d = dc_ticks cs ?g (d\<lparr>dc_stopEvent := True\<rparr>)"
      using Cons.prems e by (simp add: dc_UpdateGameTime_def dc_IsStopped_def Let_def)
    then show ?thesis using True mono last by (simp add: dc_ticks_stopped)
  next
    case False
    let ?d = "d\<lparr>dc_shutdownTimer := dc_shutdownTimer d - ?e\<rparr>"
    have "dc_ticks (c # cs) g d = dc_ticks cs ?g ?d"
      using Cons.prems e False by (auto simp: dc_UpdateGameTime_def dc_IsStopped_def Let_def)
    then have tick: "snd (dc_ticks (c # cs) g d) = snd (dc_ticks cs ?g ?d)" by simp
    have "\<not> dc_stopEvent ?d" "0 < dc_shutdownTimer ?d" "sorted (gt_GameTime ?g # map cr_epoch cs)"
      using Cons.prems False by simp_all
    note IH = Cons.IH [OF this]
    let ?L = "last (gt_GameTime ?g # map cr_epoch cs)"
    have arith: "?L - gt_GameTime ?g < dc_shutdownTimer ?d \<longleftrightarrow> ?L - gt_GameTime g < dc_shutdownTimer d"
        "dc_shutdownTimer ?d - (?L - gt_GameTime ?g) = dc_shutdownTimer d - (?L - gt_GameTime g)"
      by (auto simp del: last.simps)
    show ?thesis using IH unfolding tick last arith by simp
  qed
qed simp

text \<open>
  C37. The shutdown: a request for \<open>time\<close> seconds with nobody connected, or for at least two seconds,
  stops the server with the requested code as soon as the clock has advanced by that time, in however
  many ticks, and not before; until then the remaining time is what is left, and a cancel clears
  the timer and restores the default code.
\<close>

theorem shutdown_countdown:
  assumes "\<not> dc_stopEvent d" "0 < time" "GetActiveSessionCount d = 0 \<or> 2 \<le> time"
    and "sorted (gt_GameTime g # map cr_epoch cs)"
  shows "let passed = last (gt_GameTime g # map cr_epoch cs) - gt_GameTime g;
             d' = snd (dc_ticks cs g (ShutdownServ time code d))
         in dc_exitCode d' = code \<and> (dc_stopEvent d' \<longleftrightarrow> time \<le> passed) \<and>
            (passed < time \<longrightarrow> dc_shutdownTimer d' = time - passed \<and>
               ShutdownCancel d' = d\<lparr>dc_shutdownTimer := 0, dc_exitCode := SHUTDOWN_EXIT_CODE\<rparr>)"
proof -
  let ?d = "d\<lparr>dc_exitCode := code, dc_shutdownTimer := time\<rparr>"
  have s: "ShutdownServ time code d = ?d"
    using assms(1-3) by (auto simp: ShutdownServ_def dc_IsStopped_def Let_def GetActiveSessionCount_def)
  from dc_ticks_countdown [of ?d g cs] assms
  show ?thesis unfolding s by (auto simp: Let_def ShutdownCancel_def split: if_splits)
qed

theorem shutdown_countdown_witness:
  "let g = \<lparr>gt_StartTime = 0, gt_GameTime = 100, gt_GameMSTime = 0, gt_SystemPoint = 0, gt_SteadyPoint = 0\<rparr>;
       tick = (\<lambda>t. \<lparr>cr_epoch = t, cr_ms = 0, cr_system = 0, cr_steady = 0\<rparr>)
   in dc_stopEvent (snd (dc_ticks [tick 103, tick 103, tick 110] g (ShutdownServ 10 RESTART_EXIT_CODE Discord_new)))
      \<and> \<not> dc_stopEvent (snd (dc_ticks [tick 109] g (ShutdownServ 10 RESTART_EXIT_CODE Discord_new)))"
proof -
  let ?g = "\<lparr>gt_StartTime = 0, gt_GameTime = 100, gt_GameMSTime = 0, gt_SystemPoint = 0, gt_SteadyPoint = 0\<rparr>"
  let ?t = "\<lambda>t. \<lparr>cr_epoch = t, cr_ms = 0, cr_system = 0, cr_steady = 0\<rparr>"
  have "\<not> dc_stopEvent Discord_new" "GetActiveSessionCount Discord_new = 0 \<or> 2 \<le> (10 :: int)"
    by (simp_all add: Discord_new_def)
  from shutdown_countdown [OF this(1) _ this(2), of ?g "[?t 103, ?t 103, ?t 110]" RESTART_EXIT_CODE]
    shutdown_countdown [OF this(1) _ this(2), of ?g "[?t 109]" RESTART_EXIT_CODE]
  show ?thesis by (simp add: Let_def)
qed

text \<open>The average of the update times is never computed: the table is read one entry past its end
  first.\<close>

lemma update_time_past_end: "ut_Update diff u = Inl (UndefinedAccess ''_updateTimeDataTable'')"
  by (simp add: ut_Update_def ut_at_def Let_def)

end
