(* ===== verification/Account.thy ===== *)
theory Account
  imports Discord "HOL-Library.Multiset"
begin

text \<open>
  Accounts and bans, \<open>AccountMgr\<close> and \<open>BanMgr\<close> of \<open>src/src/server/Account\<close>. Strings are lists of
  bytes. The database is the list of the statements executed on it, and a query that is under way is
  a pending callback. The unordered maps are the keyed stores of \<open>Discord\<close>.
\<close>

section \<open>AccountMgr\<close>

datatype AccountResponceResult = AccOk | LongName | LongKey | NameAlreadyExist | NameNotExist | DBError

datatype db_statement =
    DISCORD_INS_ACCOUNT "uint8 list" "uint8 list" "uint8 list" int64 "uint8 list"
  | DISCORD_UPD_LOGON "uint8 list" "uint8 list" uint32
  | DISCORD_UPD_ACCOUNT_BAN_EXPIRED
  | DISCORD_UPD_IP_BAN_EXPIRED
  | DISCORD_INS_ACCOUNT_BAN uint32 int "uint8 list" "uint8 list"
  | DISCORD_INS_IP_BAN "uint8 list" int "uint8 list" "uint8 list"
  | DISCORD_DEL_BAN_ACCOUNT uint32
  | DISCORD_DEL_BAN_IP "uint8 list"

record account =
  ac_ID :: uint32
  ac_GuildID :: int64
  ac_Name :: "uint8 list"
  ac_RealmName :: "uint8 list"

text \<open>A pending callback of \<open>CheckAccount\<close> carries what \<open>CreateAccount\<close> captured.\<close>

record pending_account =
  pa_username :: "uint8 list"
  pa_guildID :: int64
  pa_realmName :: "uint8 list"

record account_mgr =
  am_accounts :: "(uint32 \<times> account) list"
  am_queryProcessor :: "pending_account list"
  am_database :: "db_statement list"

definition MAX_ACCOUNT_STR :: nat where "MAX_ACCOUNT_STR = 50"
definition MAX_PASS_STR :: nat where "MAX_PASS_STR = 50"

definition GetAccountInfo :: "uint32 \<Rightarrow> account_mgr \<Rightarrow> account option" where
  "GetAccountInfo aid m = um_find aid (am_accounts m)"

definition AddAccountInfo :: "account \<Rightarrow> account_mgr \<Rightarrow> account_mgr" where
  "AddAccountInfo info m =
     (if GetAccountInfo (ac_ID info) m \<noteq> None then m
      else m\<lparr>am_accounts := um_emplace (ac_ID info) info (am_accounts m)\<rparr>)"

text \<open>\<open>Initialize\<close> loads the rows of the account table.\<close>

definition am_Initialize :: "account list option \<Rightarrow> account_mgr \<Rightarrow> account_mgr" where
  "am_Initialize result m =
     (let m1 = m\<lparr>am_accounts := []\<rparr> in
      case result of None \<Rightarrow> m1 | Some rows \<Rightarrow> foldl (\<lambda>m row. AddAccountInfo row m) m1 rows)"

fun find_id :: "uint8 list \<Rightarrow> (uint32 \<times> account) list \<Rightarrow> uint32" where
  "find_id accountName [] = 0"
| "find_id accountName ((aid, info) # rest) =
     (if StringEqualI (ac_Name info) accountName then aid else find_id accountName rest)"

definition am_GetID :: "uint8 list \<Rightarrow> account_mgr \<Rightarrow> uint32" where
  "am_GetID accountName m = find_id accountName (am_accounts m)"

definition am_GetName :: "uint32 \<Rightarrow> account_mgr \<Rightarrow> uint8 list" where
  "am_GetName aid m = (case um_find aid (am_accounts m) of None \<Rightarrow> [] | Some info \<Rightarrow> ac_Name info)"

definition am_GetRealmName :: "uint32 \<Rightarrow> account_mgr \<Rightarrow> uint8 list" where
  "am_GetRealmName aid m = (case um_find aid (am_accounts m) of None \<Rightarrow> [] | Some info \<Rightarrow> ac_RealmName info)"

definition CreateAccount ::
  "(uint8 list \<Rightarrow> uint8 list) \<Rightarrow> uint8 list \<Rightarrow> uint8 list \<Rightarrow> uint8 list \<Rightarrow> int64 \<Rightarrow> uint8 list \<Rightarrow> account_mgr \<Rightarrow>
   (AccountResponceResult \<times> account_mgr) res" where
  "CreateAccount H random username key guildID realmName m =
     (let (nameLen, username1) = utf8length username in
      if nameLen > MAX_ACCOUNT_STR then Inr (LongName, m)
      else
        (let (keyLen, key1) = utf8length key in
         if keyLen > MAX_PASS_STR then Inr (LongKey, m)
         else
           (let username2 = snd (Utf8ToUpperOnlyLatin username1);
                key2 = snd (Utf8ToUpperOnlyLatin key1)
            in if am_GetID username2 m \<noteq> 0 then Inr (NameAlreadyExist, m)
               else
                 (let realm = (if realmName = [] then bytes_of ''WarheadCore'' else realmName) in
                  bindr (MakeRegistrationData H random username2 key2) (\<lambda>(salt, verifier).
                    Inr (AccOk, m\<lparr>
                      am_database := am_database m @ [DISCORD_INS_ACCOUNT username2 salt verifier guildID realm],
                      am_queryProcessor := am_queryProcessor m @
                        [\<lparr>pa_username = username2, pa_guildID = guildID, pa_realmName = realm\<rparr>]\<rparr>))))))"

text \<open>A callback that is ready has the id the database found, or none, which counts as 0.\<close>

definition account_callback :: "pending_account \<Rightarrow> uint32 option \<Rightarrow> account_mgr \<Rightarrow> account_mgr" where
  "account_callback p result m =
     (let accountID = (case result of None \<Rightarrow> 0 | Some i \<Rightarrow> i) in
      if accountID = 0 then m
      else AddAccountInfo \<lparr>ac_ID = accountID, ac_GuildID = pa_guildID p, ac_Name = pa_username p,
                            ac_RealmName = pa_realmName p\<rparr> m)"

fun process_accounts ::
  "(pending_account \<Rightarrow> uint32 option option) \<Rightarrow> pending_account list \<Rightarrow> account_mgr \<Rightarrow>
   pending_account list \<times> account_mgr" where
  "process_accounts reply [] m = ([], m)"
| "process_accounts reply (p # ps) m =
     (case reply p of
        None \<Rightarrow> (let (waiting, m') = process_accounts reply ps m in (p # waiting, m'))
      | Some result \<Rightarrow> process_accounts reply ps (account_callback p result m))"

definition am_Update :: "(pending_account \<Rightarrow> uint32 option option) \<Rightarrow> account_mgr \<Rightarrow> account_mgr" where
  "am_Update reply m =
     (if am_queryProcessor m = [] then m
      else let (waiting, m') = process_accounts reply (am_queryProcessor m) (m\<lparr>am_queryProcessor := []\<rparr>)
           in m'\<lparr>am_queryProcessor := am_queryProcessor m' @ waiting\<rparr>)"

definition ChangeKey ::
  "(uint8 list \<Rightarrow> uint8 list) \<Rightarrow> uint8 list \<Rightarrow> uint8 list \<Rightarrow> uint8 list \<Rightarrow> account_mgr \<Rightarrow>
   (AccountResponceResult \<times> account_mgr) res" where
  "ChangeKey H random name newPassword m =
     (let safeUser = snd (Utf8ToUpperOnlyLatin name);
          newPassword1 = snd (Utf8ToUpperOnlyLatin newPassword);
          accountID = am_GetID safeUser m
      in if accountID = 0 then Inr (NameNotExist, m)
         else
           (let (len, newPassword2) = utf8length newPassword1 in
            if len > MAX_PASS_STR then Inr (LongKey, m)
            else bindr (MakeRegistrationData H random safeUser newPassword2) (\<lambda>(salt, verifier).
              Inr (AccOk, m\<lparr>am_database := am_database m @ [DISCORD_UPD_LOGON salt verifier accountID]\<rparr>))))"

text \<open>\<open>urand\<close> of \<open>Random.cpp\<close> asserts its bounds; \<open>draw\<close> is what the generator yields.\<close>

definition urand :: "(uint32 \<Rightarrow> uint32 \<Rightarrow> uint32) \<Rightarrow> uint32 \<Rightarrow> uint32 \<Rightarrow> uint32 res" where
  "urand draw mn mx = guard_or (mx \<ge> mn) (AssertFailure ''max >= min'') (Inr (draw mn mx))"

text \<open>\<open>GetRandomKey\<close>: \<open>roll i\<close> is the value of \<open>rand()\<close> for the place \<open>i\<close>, \<open>shuffle\<close> the final
  permutation.\<close>

definition GetRandomKey ::
  "(uint32 \<Rightarrow> uint32 \<Rightarrow> uint32) \<Rightarrow> (uint32 \<Rightarrow> uint32 \<Rightarrow> uint32) \<Rightarrow> (nat \<Rightarrow> nat) \<Rightarrow>
   (uint8 list \<Rightarrow> uint8 list) \<Rightarrow> uint8 list res" where
  "GetRandomKey draw1 draw2 roll shuffle =
     bindr (urand draw1 1 (word_of_nat MAX_PASS_STR)) (\<lambda>smallChars.
     bindr (urand draw2 1 (word_of_nat MAX_PASS_STR - smallChars)) (\<lambda>bigChars.
       let numbers = word_of_nat MAX_PASS_STR - smallChars - bigChars
       in Inr (shuffle (map (\<lambda>i. word_of_nat
            (if i < unat numbers then roll i mod 10 + 48
             else if i < unat (numbers + bigChars) then roll i mod 26 + 65
             else roll i mod 26 + 97)) [0..<MAX_PASS_STR]))))"

section \<open>BanMgr\<close>

datatype BanResponceCode = BanOk | BanError | BanNotFound | BanExist

record ban_info =
  bi_Duration :: int
  bi_BanDate :: int
  bi_UnabanDate :: int

definition BanInfo_new :: "int \<Rightarrow> int \<Rightarrow> int \<Rightarrow> ban_info" where
  "BanInfo_new gameTime duration banDate =
     \<lparr>bi_Duration = duration, bi_BanDate = (if banDate = 0 then gameTime else banDate),
      bi_UnabanDate = banDate + duration\<rparr>"

definition IsPermanently :: "ban_info \<Rightarrow> bool" where
  "IsPermanently b \<longleftrightarrow> bi_Duration b = 0 \<or> bi_BanDate b = bi_UnabanDate b"

record ban_mgr =
  bm_storeAccount :: "(uint8 list \<times> ban_info) list"
  bm_storeIp :: "(uint8 list \<times> ban_info) list"
  bm_database :: "db_statement list"

definition bm_Initialize :: "ban_mgr \<Rightarrow> ban_mgr" where
  "bm_Initialize m =
     m\<lparr>bm_database := bm_database m @ [DISCORD_UPD_ACCOUNT_BAN_EXPIRED, DISCORD_UPD_IP_BAN_EXPIRED]\<rparr>"

definition GetBanInfoAccount :: "uint8 list \<Rightarrow> ban_mgr \<Rightarrow> ban_info option" where
  "GetBanInfoAccount accountName m = um_find accountName (bm_storeAccount m)"

definition GetBanInfoIp :: "uint8 list \<Rightarrow> ban_mgr \<Rightarrow> ban_info option" where
  "GetBanInfoIp ip m = um_find ip (bm_storeIp m)"

definition bm_AddAccount :: "uint8 list \<Rightarrow> ban_info \<Rightarrow> ban_mgr \<Rightarrow> ban_mgr" where
  "bm_AddAccount accountName banType m =
     (let store = (if um_find accountName (bm_storeAccount m) \<noteq> None
                   then um_erase accountName (bm_storeAccount m) else bm_storeAccount m)
      in m\<lparr>bm_storeAccount := um_emplace accountName banType store\<rparr>)"

definition bm_AddIp :: "uint8 list \<Rightarrow> ban_info \<Rightarrow> ban_mgr \<Rightarrow> ban_mgr" where
  "bm_AddIp ip banType m =
     (let store = (if um_find ip (bm_storeIp m) \<noteq> None then um_erase ip (bm_storeIp m) else bm_storeIp m)
      in m\<lparr>bm_storeIp := um_emplace ip banType store\<rparr>)"

definition bm_DeleteAccount :: "account_mgr \<Rightarrow> uint8 list \<Rightarrow> ban_mgr \<Rightarrow> ban_mgr" where
  "bm_DeleteAccount am accountName m =
     (if GetBanInfoAccount accountName m = None then m
      else
        (let accountID = am_GetID accountName am in
         if accountID = 0 then m
         else m\<lparr>bm_database := bm_database m @ [DISCORD_DEL_BAN_ACCOUNT accountID],
                bm_storeAccount := um_erase accountName (bm_storeAccount m)\<rparr>))"

definition bm_DeleteIp :: "uint8 list \<Rightarrow> ban_mgr \<Rightarrow> ban_mgr" where
  "bm_DeleteIp ip m =
     (if GetBanInfoIp ip m = None then m
      else m\<lparr>bm_database := bm_database m @ [DISCORD_DEL_BAN_IP ip], bm_storeIp := um_erase ip (bm_storeIp m)\<rparr>)"

definition ban_active :: "int \<Rightarrow> ban_info option \<Rightarrow> bool" where
  "ban_active gameTime banInfo =
     (case banInfo of None \<Rightarrow> False | Some b \<Rightarrow> IsPermanently b \<or> bi_UnabanDate b > gameTime)"

definition BanAccount ::
  "int \<Rightarrow> account_mgr \<Rightarrow> uint8 list \<Rightarrow> int \<Rightarrow> uint8 list \<Rightarrow> ban_mgr \<times> discord \<Rightarrow>
   BanResponceCode \<times> ban_mgr \<times> discord" where
  "BanAccount gameTime am accountName duration reason = (\<lambda>(m, d).
     (if accountName = [] then (BanError, m, d)
      else
        (let accountID = am_GetID accountName am in
         if accountID = 0 then (BanNotFound, m, d)
         else if ban_active gameTime (GetBanInfoAccount accountName m) then (BanExist, m, d)
         else
           (let m1 = bm_DeleteAccount am accountName m;
                m2 = m1\<lparr>bm_database := bm_database m1 @ [DISCORD_INS_ACCOUNT_BAN accountID duration (bytes_of ''Console'') reason]\<rparr>;
                d1 = d\<lparr>dc_sessions := um_modify accountID (ss_KickSession True) (dc_sessions d)\<rparr>
            in (BanOk, bm_AddAccount accountName (BanInfo_new gameTime duration 0) m2, d1)))))"

definition BanIp ::
  "int \<Rightarrow> uint8 list \<Rightarrow> int \<Rightarrow> uint8 list \<Rightarrow> ban_mgr \<times> discord \<Rightarrow> BanResponceCode \<times> ban_mgr \<times> discord" where
  "BanIp gameTime ip duration reason = (\<lambda>(m, d).
     (if ip = [] then (BanError, m, d)
      else if ban_active gameTime (GetBanInfoIp ip m) then (BanExist, m, d)
      else
        (let m1 = bm_DeleteIp ip m;
             m2 = m1\<lparr>bm_database := bm_database m1 @ [DISCORD_INS_IP_BAN ip duration (bytes_of ''Console'') reason]\<rparr>;
             d1 = d\<lparr>dc_sessions := map (\<lambda>(sid, s).
                      (sid, if bytes_of (ss_address s) = ip then ss_KickSession True s else s)) (dc_sessions d)\<rparr>
         in (BanOk, bm_AddIp ip (BanInfo_new gameTime duration 0) m2, d1))))"

section \<open>Registration and login\<close>

lemma toupper_latin: "toupper = latin_upper"
  by (rule ext) (simp add: toupper_def latin_upper_def)

lemma upper_of_toupper: "snd (Utf8ToUpperOnlyLatin (map latin_upper bs)) = map latin_upper bs"
  by (simp add: Utf8ToUpperOnlyLatin_eq comp_def)

lemma toupper_of_upper: "map latin_upper (snd (Utf8ToUpperOnlyLatin bs)) = map latin_upper bs"
  by (simp add: Utf8ToUpperOnlyLatin_eq comp_def)

text \<open>The name and the key \<open>CreateAccount\<close> registers: upper-cased, and empty when not valid UTF-8.\<close>

definition registered :: "uint8 list \<Rightarrow> uint8 list" where
  "registered bs = (if utf8_is_valid bs then map latin_upper bs else [])"

definition realm_or_default :: "uint8 list \<Rightarrow> uint8 list" where
  "realm_or_default realmName = (if realmName = [] then bytes_of ''WarheadCore'' else realmName)"

lemma registered_upper: "snd (Utf8ToUpperOnlyLatin (snd (utf8length bs))) = registered bs"
  by (subst utf8length_eq) (simp add: registered_def Utf8ToUpperOnlyLatin_eq)

lemma CreateAccount_eq:
  "CreateAccount H random username key guildID realmName m =
     (if fst (utf8length username) > MAX_ACCOUNT_STR then Inr (LongName, m)
      else if fst (utf8length key) > MAX_PASS_STR then Inr (LongKey, m)
      else if am_GetID (registered username) m \<noteq> 0 then Inr (NameAlreadyExist, m)
      else Inr (AccOk, m\<lparr>
        am_database := am_database m @ [DISCORD_INS_ACCOUNT (registered username) random
          (nat_bytes 32 (7 ^ srp6_x H (registered username) (registered key) random mod srp6_modulus))
          guildID (realm_or_default realmName)],
        am_queryProcessor := am_queryProcessor m @
          [\<lparr>pa_username = registered username, pa_guildID = guildID, pa_realmName = realm_or_default realmName\<rparr>]\<rparr>))"
  by (simp add: CreateAccount_def split_beta registered_upper MakeRegistrationData_def CalculateVerifier_eq
      realm_or_default_def Let_def)

lemma CheckKey_registered:
  assumes "utf8_is_valid name" "utf8_is_valid key"
    and "map latin_upper (bytes_of account) = map latin_upper name" "map latin_upper (bytes_of word) = map latin_upper key"
  shows "CheckKey env acc account word =
     Inr (ai_Verifier acc = nat_bytes 32 (7 ^ srp6_x (ae_SHA1 env) (registered name) (registered key) (ai_Salt acc) mod srp6_modulus))"
  using assms
  by (simp add: CheckKey_def toupper_latin upper_of_toupper toupper_of_upper CheckLogin_def CalculateVerifier_eq
      registered_def)

text \<open>
  A key that was registered opens the account: when \<open>CreateAccount\<close> accepts a valid UTF-8 name and
  key, it executes one statement that inserts a row with a salt and a verifier, and for a row with that
  salt and verifier and no ban the connection lets in, on an open server, every client that sends the
  same name and key up to the case of Latin letters.
\<close>

theorem registered_key_accepted:
  assumes created: "CreateAccount (ae_SHA1 env) random username key guildID realmName m = Inr (AccOk, m')"
    and valid: "utf8_is_valid username" "utf8_is_valid key"
  shows "\<exists>name salt verifier realm.
     am_database m' = am_database m @ [DISCORD_INS_ACCOUNT name salt verifier guildID realm] \<and>
     (\<forall>row auth. ar_Salt row = salt \<and> ar_Verifier row = verifier \<and> ar_bandate row = None \<and> ar_unbandate row = None \<and>
        map latin_upper (bytes_of (as_Account auth)) = map latin_upper username \<and>
        map latin_upper (bytes_of (as_Key auth)) = map latin_upper key \<and> \<not> ae_discordClosed env \<longrightarrow>
        may_enter env auth (Some row))"
proof -
  let ?v = "nat_bytes 32 (7 ^ srp6_x (ae_SHA1 env) (registered username) (registered key) random mod srp6_modulus)"
  have "am_database m' = am_database m @ [DISCORD_INS_ACCOUNT (registered username) random ?v guildID (realm_or_default realmName)]"
    using created by (auto simp: CreateAccount_eq split: if_splits)
  moreover have "may_enter env auth (Some row)"
    if "ar_Salt row = random" "ar_Verifier row = ?v" "ar_bandate row = None" "ar_unbandate row = None"
      "map latin_upper (bytes_of (as_Account auth)) = map latin_upper username"
      "map latin_upper (bytes_of (as_Key auth)) = map latin_upper key" "\<not> ae_discordClosed env" for row auth
    using that by (simp add: may_enter_def CheckKey_registered [OF valid] account_of_def)
  ultimately show ?thesis by blast
qed

definition no_accounts :: account_mgr where
  "no_accounts = \<lparr>am_accounts = [], am_queryProcessor = [], am_database = []\<rparr>"

theorem registered_key_accepted_witness:
  "\<exists>m'. CreateAccount (\<lambda>_. [1]) [7] (bytes_of ''Bot'') (bytes_of ''k3y'') 5 [] no_accounts = Inr (AccOk, m') \<and>
     (\<exists>salt verifier. \<forall>row. ar_Salt row = salt \<and> ar_Verifier row = verifier \<and> ar_bandate row = None \<and> ar_unbandate row = None \<longrightarrow>
       may_enter \<lparr>ae_host = WARHEAD_LITTLEENDIAN, ae_double = (\<lambda>_. 0), ae_gameTime = 100, ae_discordClosed = False, ae_SHA1 = (\<lambda>_. [1]), ae_location = None\<rparr>
         \<lparr>as_Account = ''bOT'', as_Key = ''K3y'', as_CoreName = [], as_CoreVersion = [], as_ModuleVersion = 1\<rparr> (Some row))"
proof -
  let ?env = "\<lparr>ae_host = WARHEAD_LITTLEENDIAN, ae_double = (\<lambda>_. 0), ae_gameTime = 100, ae_discordClosed = False, ae_SHA1 = (\<lambda>_. [1]), ae_location = None\<rparr>"
  have valid: "utf8_is_valid (bytes_of ''Bot'')" "utf8_is_valid (bytes_of ''k3y'')" by code_simp+
  have len: "fst (utf8length (bytes_of ''Bot'')) = 3" "fst (utf8length (bytes_of ''k3y'')) = 3" by code_simp+
  have same: "map latin_upper (bytes_of ''bOT'') = map latin_upper (bytes_of ''Bot'')"
      "map latin_upper (bytes_of ''K3y'') = map latin_upper (bytes_of ''k3y'')" by code_simp+
  obtain m' where c: "CreateAccount (ae_SHA1 ?env) [7] (bytes_of ''Bot'') (bytes_of ''k3y'') 5 [] no_accounts = Inr (AccOk, m')"
    using len by (simp add: CreateAccount_eq MAX_ACCOUNT_STR_def MAX_PASS_STR_def am_GetID_def no_accounts_def)
  from registered_key_accepted [OF c valid] obtain salt verifier where
    "\<forall>row auth. ar_Salt row = salt \<and> ar_Verifier row = verifier \<and> ar_bandate row = None \<and> ar_unbandate row = None \<and>
        map latin_upper (bytes_of (as_Account auth)) = map latin_upper (bytes_of ''Bot'') \<and>
        map latin_upper (bytes_of (as_Key auth)) = map latin_upper (bytes_of ''k3y'') \<and> \<not> ae_discordClosed ?env \<longrightarrow>
        may_enter ?env auth (Some row)" by blast
  with same have "\<forall>row. ar_Salt row = salt \<and> ar_Verifier row = verifier \<and> ar_bandate row = None \<and> ar_unbandate row = None \<longrightarrow>
      may_enter ?env \<lparr>as_Account = ''bOT'', as_Key = ''K3y'', as_CoreName = [], as_CoreVersion = [], as_ModuleVersion = 1\<rparr> (Some row)"
    by simp
  with c show ?thesis by (intro exI conjI) (simp_all only: auth_env.simps)
qed

section \<open>Bans\<close>

lemma GetBanInfo_add [simp]:
  "GetBanInfoAccount accountName (bm_AddAccount accountName b m) = Some b"
  "GetBanInfoIp ip (bm_AddIp ip b m) = Some b"
  by (auto simp: GetBanInfoAccount_def GetBanInfoIp_def bm_AddAccount_def bm_AddIp_def Let_def um_find_emplace um_find_erase)

lemma ban_active_new: "ban_active later (Some (BanInfo_new now dur 0)) \<longleftrightarrow> dur = 0 \<or> now = dur \<or> dur > later"
  by (auto simp: ban_active_def BanInfo_new_def IsPermanently_def)

text \<open>
  C27. What a ban does: banning a known account that has no ban in force executes the insert statement,
  kicks the session of that account and no other, and answers \<open>Ok\<close>; and the store remembers a
  permanent ban, so that a later request answers \<open>Exist\<close>. A timed ban is not remembered: the entry
  counts as running only while the clock (seconds since the epoch) is below the duration itself,
  because the end of the ban is computed from the date 0 and not from the time of the ban.
\<close>

theorem ban_account_remembered:
  assumes "accountName \<noteq> []" "am_GetID accountName am \<noteq> 0" "\<not> ban_active now (GetBanInfoAccount accountName m)"
  shows "\<exists>m' d'. BanAccount now am accountName dur reason (m, d) = (BanOk, m', d') \<and>
    last (bm_database m') = DISCORD_INS_ACCOUNT_BAN (am_GetID accountName am) dur (bytes_of ''Console'') reason \<and>
    (\<forall>sid. FindSession sid d' =
       (if sid = am_GetID accountName am then map_option (ss_KickSession True) (FindSession sid d) else FindSession sid d)) \<and>
    (fst (BanAccount later am accountName dur2 reason2 (m', d2)) =
       (if dur = 0 \<or> now = dur \<or> dur > later then BanExist else BanOk))"
  using assms
  by (simp add: BanAccount_def Let_def ban_active_new FindSession_def um_find_modify)
    (simp add: bm_AddAccount_def Let_def)

theorem ban_account_remembered_witness:
  "\<exists>m' d'. BanAccount 1700000000 \<lparr>am_accounts = [(3, \<lparr>ac_ID = 3, ac_GuildID = 1, ac_Name = bytes_of ''BOB'', ac_RealmName = []\<rparr>)],
        am_queryProcessor = [], am_database = []\<rparr> (bytes_of ''bob'') 3600 [] (\<lparr>bm_storeAccount = [], bm_storeIp = [], bm_database = []\<rparr>, Discord_new)
      = (BanOk, m', d') \<and>
     fst (BanAccount 1700000001 \<lparr>am_accounts = [(3, \<lparr>ac_ID = 3, ac_GuildID = 1, ac_Name = bytes_of ''BOB'', ac_RealmName = []\<rparr>)],
        am_queryProcessor = [], am_database = []\<rparr> (bytes_of ''bob'') 0 [] (m', Discord_new)) = BanOk"
proof -
  let ?am = "\<lparr>am_accounts = [(3, \<lparr>ac_ID = 3, ac_GuildID = 1, ac_Name = bytes_of ''BOB'', ac_RealmName = []\<rparr>)],
        am_queryProcessor = [], am_database = []\<rparr>"
  have "bytes_of ''bob'' \<noteq> []" "am_GetID (bytes_of ''bob'') ?am \<noteq> 0"
     "\<not> ban_active 1700000000 (GetBanInfoAccount (bytes_of ''bob'') \<lparr>bm_storeAccount = [], bm_storeIp = [], bm_database = []\<rparr>)"
    by code_simp+
  from ban_account_remembered [OF this, where dur = 3600 and later = 1700000001 and reason = "[]" and d = Discord_new
      and ?dur2.0 = 0 and ?reason2.0 = "[]" and ?d2.0 = Discord_new] show ?thesis by fastforce
qed

section \<open>Random keys\<close>

definition key_chars :: "(nat \<Rightarrow> nat) \<Rightarrow> nat \<Rightarrow> nat \<Rightarrow> nat \<Rightarrow> uint8 list" where
  "key_chars roll n b s =
     map (\<lambda>i. word_of_nat (roll i mod 10 + 48)) [0..<n] @ map (\<lambda>i. word_of_nat (roll i mod 26 + 65)) [n..<n + b] @
     map (\<lambda>i. word_of_nat (roll i mod 26 + 97)) [n + b..<n + b + s]"

lemma key_chars_eq:
  "map (\<lambda>i. word_of_nat (if i < n then roll i mod 10 + 48 else if i < n + b then roll i mod 26 + 65
       else roll i mod 26 + 97)) [0..<n + b + s] = key_chars roll n b s"
proof -
  have "[0..<n + b + s] = [0..<n] @ [n..<n + b] @ [n + b..<n + b + s]"
    by (metis add.assoc le_add1 upt_add_eq_append zero_le)
  then show ?thesis by (simp add: key_chars_def del: of_nat_add)
qed

lemma digit_class: "\<not> (97 \<le> (word_of_nat (k mod 10 + 48) :: uint8))" "\<not> (65 \<le> (word_of_nat (k mod 10 + 48) :: uint8))"
    "48 \<le> (word_of_nat (k mod 10 + 48) :: uint8)" "(word_of_nat (k mod 10 + 48) :: uint8) \<le> 57"
  and big_class: "\<not> (97 \<le> (word_of_nat (k mod 26 + 65) :: uint8))" 
    "65 \<le> (word_of_nat (k mod 26 + 65) :: uint8)" "(word_of_nat (k mod 26 + 65) :: uint8) \<le> 90"
  and small_class: "\<not> (word_of_nat (k mod 26 + 97) :: uint8) \<le> 90" 
    "97 \<le> (word_of_nat (k mod 26 + 97) :: uint8)" "(word_of_nat (k mod 26 + 97) :: uint8) \<le> 122"
proof -
  have "k mod 10 < 10" "k mod 26 < 26" by simp_all
  then show "\<not> (97 \<le> (word_of_nat (k mod 10 + 48) :: uint8))" "\<not> (65 \<le> (word_of_nat (k mod 10 + 48) :: uint8))"
    "48 \<le> (word_of_nat (k mod 10 + 48) :: uint8)" "(word_of_nat (k mod 10 + 48) :: uint8) \<le> 57"
    "\<not> (97 \<le> (word_of_nat (k mod 26 + 65) :: uint8))" 
    "65 \<le> (word_of_nat (k mod 26 + 65) :: uint8)" "(word_of_nat (k mod 26 + 65) :: uint8) \<le> 90"
    "\<not> (word_of_nat (k mod 26 + 97) :: uint8) \<le> 90" 
    "97 \<le> (word_of_nat (k mod 26 + 97) :: uint8)" "(word_of_nat (k mod 26 + 97) :: uint8) \<le> 122"
    by (simp_all add: word_le_nat_alt unat_of_nat take_bit_nat_def del: of_nat_add)
qed

lemmas char_classes = digit_class big_class small_class

lemma key_chars_classes:
  "length (key_chars roll n b s) = n + b + s"
  "length (filter (\<lambda>c. 97 \<le> c \<and> c \<le> 122) (key_chars roll n b s)) = s"
  "length (filter (\<lambda>c. 65 \<le> c \<and> c \<le> 90) (key_chars roll n b s)) = b"
  "\<forall>c\<in>set (key_chars roll n b s). 48 \<le> c \<and> c \<le> 57 \<or> 65 \<le> c \<and> c \<le> 90 \<or> 97 \<le> c \<and> c \<le> 122"
  by (auto simp: key_chars_def filter_map comp_def char_classes simp del: of_nat_add)

text \<open>
  Random keys: with a generator that stays within its bounds and a shuffle that permutes, a key has
  50 characters, of which the drawn numbers are lower-case and upper-case letters and the rest are
  digits; but when the first draw is 50, which leaves no room for the others, the second call of
  \<open>urand\<close> has an empty range and its assertion aborts the server.
\<close>

theorem random_key_shape:
  assumes draw1: "1 \<le> draw1 1 50" "draw1 1 50 \<le> 50"
    and draw2: "\<And>mx. 1 \<le> mx \<Longrightarrow> 1 \<le> draw2 1 mx \<and> draw2 1 mx \<le> mx"
    and shuffle: "\<And>xs. mset (shuffle xs) = mset xs"
  shows "if draw1 1 50 = 50 then GetRandomKey draw1 draw2 roll shuffle = Inl (AssertFailure ''max >= min'')
    else \<exists>key. GetRandomKey draw1 draw2 roll shuffle = Inr key \<and> length key = 50 \<and>
      length (filter (\<lambda>c. 97 \<le> c \<and> c \<le> 122) key) = unat (draw1 1 50) \<and>
      length (filter (\<lambda>c. 65 \<le> c \<and> c \<le> 90) key) = unat (draw2 1 (50 - draw1 1 50)) \<and>
      list_all (\<lambda>c. 48 \<le> c \<and> c \<le> 57 \<or> 65 \<le> c \<and> c \<le> 90 \<or> 97 \<le> c \<and> c \<le> 122) key"
proof (cases "draw1 1 50 = 50")
  case True
  then show ?thesis by (simp add: GetRandomKey_def urand_def guard_or_def MAX_PASS_STR_def)
next
  case False
  define s where "s = draw1 1 50"
  define b where "b = draw2 1 (50 - s)"
  have s: "1 \<le> unat s" "unat s < 50"
    using draw1 False word_unat_eq_iff [of s 50] by (auto simp: s_def word_le_nat_alt order_less_le)
  then have u: "unat (50 - s) = 50 - unat s" by (subst unat_sub) (auto simp: word_le_nat_alt)
  then have "1 \<le> 50 - s" using s by (simp add: word_le_nat_alt)
  then have b: "1 \<le> unat b" "unat b \<le> 50 - unat s" using draw2 [of "50 - s"] u by (auto simp: b_def word_le_nat_alt)
  then have n: "unat (50 - s - b) = 50 - unat s - unat b" using u by (subst unat_sub) (auto simp: word_le_nat_alt)
  have nb: "unat (50 - s - b + b) = 50 - unat s" using u by (simp only: diff_add_cancel)
  define xs where "xs = key_chars roll (50 - unat s - unat b) (unat b) (unat s)"
  have sums: "50 - unat s - unat b + unat b = 50 - unat s" "50 - unat s + unat s = 50" using s b by simp_all
  have xs: "xs = map (\<lambda>i. word_of_nat (if i < unat (50 - s - b) then roll i mod 10 + 48
      else if i < unat (50 - s - b + b) then roll i mod 26 + 65 else roll i mod 26 + 97)) [0..<50]"
    unfolding n nb xs_def key_chars_eq [symmetric] sums ..
  have "GetRandomKey draw1 draw2 roll shuffle = Inr (shuffle xs)"
    using draw1 draw2 [of "50 - s"] \<open>1 \<le> 50 - s\<close> s b
    by (simp add: GetRandomKey_def urand_def guard_or_def MAX_PASS_STR_def s_def [symmetric] b_def [symmetric] xs Let_def)
  moreover have "length (filter P (shuffle xs)) = length (filter P xs)" for P
    using shuffle [of xs] by (metis mset_filter size_mset)
  moreover have "set (shuffle xs) = set xs" "length (shuffle xs) = length xs"
    using shuffle [of xs] by (metis set_mset_mset) (metis size_mset shuffle)
  ultimately show ?thesis using False s b key_chars_classes [of roll "50 - unat s - unat b" "unat b" "unat s"]
    by (simp add: s_def [symmetric] b_def [symmetric] xs_def list_all_iff)
qed

theorem random_key_shape_witness:
  "GetRandomKey (\<lambda>mn mx. mx) (\<lambda>mn mx. mn) (\<lambda>i. i) rev = Inl (AssertFailure ''max >= min'') \<and>
   (\<exists>key. GetRandomKey (\<lambda>mn mx. mn) (\<lambda>mn mx. mx) (\<lambda>i. i) rev = Inr key \<and> length key = 50)"
  using random_key_shape [of "\<lambda>mn mx. mx" "\<lambda>mn mx. mn" rev "\<lambda>i. i"]
    random_key_shape [of "\<lambda>mn mx. mn" "\<lambda>mn mx. mx" rev "\<lambda>i. i"] by auto

section \<open>The account directory\<close>

text \<open>The directory maps ids, none of them 0, to the one account with that id.\<close>

definition accounts_ok :: "account_mgr \<Rightarrow> bool" where
  "accounts_ok m \<longleftrightarrow> distinct (map fst (am_accounts m)) \<and> list_all (\<lambda>(aid, info). ac_ID info = aid \<and> aid \<noteq> 0) (am_accounts m)"

lemma accounts_ok_cong: "am_accounts m' = am_accounts m \<Longrightarrow> accounts_ok m' = accounts_ok m"
  by (simp add: accounts_ok_def)

lemma accounts_ok_add: "accounts_ok m \<Longrightarrow> ac_ID info \<noteq> 0 \<Longrightarrow> accounts_ok (AddAccountInfo info m)"
  by (auto simp: accounts_ok_def AddAccountInfo_def GetAccountInfo_def um_emplace_def um_find_None)

lemma accounts_ok_rows:
  "accounts_ok m \<Longrightarrow> list_all (\<lambda>row. ac_ID row \<noteq> 0) rows \<Longrightarrow> accounts_ok (foldl (\<lambda>m row. AddAccountInfo row m) m rows)"
  by (induction rows arbitrary: m) (auto intro: accounts_ok_add)

lemma accounts_ok_process:
  "accounts_ok m \<Longrightarrow> accounts_ok (snd (process_accounts reply ps m))"
  by (induction reply ps m rule: process_accounts.induct)
    (auto simp: account_callback_def Let_def split_beta accounts_ok_add split: option.splits)

lemma find_id_entry:
  "find_id n xs \<noteq> 0 \<Longrightarrow> \<exists>info. (find_id n xs, info) \<in> set xs \<and> StringEqualI (ac_Name info) n"
  by (induction n xs rule: find_id.induct) auto

lemma find_id_none:
  "find_id n xs = 0 \<Longrightarrow> list_all (\<lambda>(aid, _). aid \<noteq> 0) xs \<Longrightarrow> (aid, info) \<in> set xs \<Longrightarrow> \<not> StringEqualI (ac_Name info) n"
  by (induction n xs rule: find_id.induct) (auto split: if_splits)

lemma account_directory_ok:
  assumes ok: "accounts_ok m"
  shows "list_all (\<lambda>row. ac_ID row \<noteq> 0) rows \<Longrightarrow> accounts_ok (am_Initialize (Some rows) m)" "accounts_ok (am_Update reply m)"
    "CreateAccount H random username key guildID realmName m = Inr (code, m1) \<Longrightarrow> accounts_ok m1"
    "ChangeKey H random2 name2 key2 m = Inr (code2, m2) \<Longrightarrow> accounts_ok m2"
    "if am_GetID n m = 0 then \<forall>aid info. GetAccountInfo aid m = Some info \<longrightarrow> \<not> StringEqualI (ac_Name info) n
     else StringEqualI (am_GetName (am_GetID n m) m) n"
proof -
  have "accounts_ok (m\<lparr>am_accounts := []\<rparr>)" by (simp add: accounts_ok_def)
  then show "accounts_ok (am_Initialize (Some rows) m)" if "list_all (\<lambda>row. ac_ID row \<noteq> 0) rows"
    using that by (simp add: am_Initialize_def Let_def accounts_ok_rows)
  have "accounts_ok (m\<lparr>am_queryProcessor := []\<rparr>)" using ok by (simp add: accounts_ok_def)
  from accounts_ok_process [OF this, of reply "am_queryProcessor m"] show "accounts_ok (am_Update reply m)"
    using ok by (simp add: am_Update_def split_beta accounts_ok_def)
  show "accounts_ok m1" if "CreateAccount H random username key guildID realmName m = Inr (code, m1)"
    using that ok by (auto simp: CreateAccount_eq accounts_ok_def split: if_splits)
  show "accounts_ok m2" if "ChangeKey H random2 name2 key2 m = Inr (code2, m2)"
    using that ok
    by (auto simp: ChangeKey_def Let_def split_beta MakeRegistrationData_def CalculateVerifier_eq accounts_ok_def
        split: if_splits)
  show "if am_GetID n m = 0 then \<forall>aid info. GetAccountInfo aid m = Some info \<longrightarrow> \<not> StringEqualI (ac_Name info) n
     else StringEqualI (am_GetName (am_GetID n m) m) n"
  proof (cases "am_GetID n m = 0")
    case True
    have "list_all (\<lambda>(aid, _). aid \<noteq> 0) (am_accounts m)" using ok by (auto simp: accounts_ok_def list_all_iff)
    then show ?thesis using True find_id_none [of n "am_accounts m"]
      by (auto simp: am_GetID_def GetAccountInfo_def um_find_def dest: map_of_SomeD)
  next
    case False
    then obtain info where "(am_GetID n m, info) \<in> set (am_accounts m)" "StringEqualI (ac_Name info) n"
      using find_id_entry by (auto simp: am_GetID_def)
    then show ?thesis using False ok by (simp add: am_GetName_def um_find_def accounts_ok_def)
  qed
qed

text \<open>
  C26. The account directory is well formed and its two lookups agree: loading the table, whose ids
  are not 0, establishes that ids are unique and every entry is stored under its own id; creating an account, changing a key
  and running the callbacks keep it; and then the id found for a name belongs to an account of that
  name, up to case, while no account has the name when nothing is found.
\<close>

theorem account_directory:
  assumes "accounts_ok m"
  shows "(list_all (\<lambda>row. ac_ID row \<noteq> 0) rows \<longrightarrow> accounts_ok (am_Initialize (Some rows) m)) \<and>
    accounts_ok (am_Update reply m) \<and>
    (CreateAccount H random username key guildID realmName m = Inr (code, m1) \<longrightarrow> accounts_ok m1) \<and>
    (ChangeKey H random2 name2 key2 m = Inr (code2, m2) \<longrightarrow> accounts_ok m2) \<and>
    (if am_GetID n m = 0 then \<forall>aid info. GetAccountInfo aid m = Some info \<longrightarrow> \<not> StringEqualI (ac_Name info) n
     else StringEqualI (am_GetName (am_GetID n m) m) n)"
  using account_directory_ok [OF assms] by blast

theorem account_directory_witness:
  "accounts_ok (am_Update (\<lambda>p. Some (Some 3)) no_accounts) \<and>
   (let m = am_Initialize (Some [\<lparr>ac_ID = 3, ac_GuildID = 1, ac_Name = bytes_of ''BOB'', ac_RealmName = []\<rparr>]) no_accounts
    in accounts_ok m \<and> StringEqualI (am_GetName (am_GetID (bytes_of ''bob'') m) m) (bytes_of ''bob''))"
proof -
  let ?m = "am_Initialize (Some [\<lparr>ac_ID = 3, ac_GuildID = 1, ac_Name = bytes_of ''BOB'', ac_RealmName = []\<rparr>]) no_accounts"
  have ok: "accounts_ok no_accounts" by (simp add: accounts_ok_def no_accounts_def)
  then have m: "accounts_ok ?m" using account_directory [OF ok, of "[\<lparr>ac_ID = 3, ac_GuildID = 1, ac_Name = bytes_of ''BOB'', ac_RealmName = []\<rparr>]"] by simp
  have "am_GetID (bytes_of ''bob'') ?m \<noteq> 0" by code_simp
  then show ?thesis using account_directory [OF m, where n = "bytes_of ''bob''"] account_directory [OF ok] m
    by (simp add: Let_def)
qed

end
