(* ===== verification/Bot.thy ===== *)
theory Bot
  imports Account
begin

text \<open>
  The bot, \<open>src/src/server/Bot/DiscordBot.cpp\<close>, with the slash commands of
  \<open>src/src/server/ChatCommands\<close>: the channels of a guild, the cache of the guilds the bot is in, and the
  two account commands. The Discord library (\<open>dpp\<close>) is a parameter: its answers are arguments and the
  requests made to it are recorded in order. A call that throws \<open>dpp::rest_exception\<close> is the answer
  \<open>None\<close>. The wording of replies and of log embeds is left out; what they report is kept.
\<close>

section \<open>Channels\<close>

datatype DiscordChannelType =
  ServerStatus | Commands | ChatSay | ChatChannel | LoginPlayer | LoginGM | LoginAdmin | MaxType

definition channel_types :: "DiscordChannelType list" where
  "channel_types = [ServerStatus, Commands, ChatSay, ChatChannel, LoginPlayer, LoginGM, LoginAdmin]"

fun channel_index :: "DiscordChannelType \<Rightarrow> nat" where
  "channel_index ServerStatus = 0"
| "channel_index Commands = 1"
| "channel_index ChatSay = 2"
| "channel_index ChatChannel = 3"
| "channel_index LoginPlayer = 4"
| "channel_index LoginGM = 5"
| "channel_index LoginAdmin = 6"
| "channel_index MaxType = 7"

definition DEFAULT_CATEGORY_NAME :: string where "DEFAULT_CATEGORY_NAME = ''core-logs''"
definition CHANNEL_NAME_SERVER_STATUS :: string where "CHANNEL_NAME_SERVER_STATUS = ''server-status''"
definition CHANNEL_NAME_COMMANDS :: string where "CHANNEL_NAME_COMMANDS = ''commands''"
definition CHANNEL_NAME_CHAT_SAY :: string where "CHANNEL_NAME_CHAT_SAY = ''chat-say''"
definition CHANNEL_NAME_CHAT_CHANNEL :: string where "CHANNEL_NAME_CHAT_CHANNEL = ''chat-channel''"
definition CHANNEL_NAME_LOGIN_PLAYER :: string where "CHANNEL_NAME_LOGIN_PLAYER = ''login-player''"
definition CHANNEL_NAME_LOGIN_GM :: string where "CHANNEL_NAME_LOGIN_GM = ''login-gm''"
definition CHANNEL_NAME_LOGIN_ADMIN :: string where "CHANNEL_NAME_LOGIN_ADMIN = ''login-admin''"

lemmas channel_names = DEFAULT_CATEGORY_NAME_def CHANNEL_NAME_SERVER_STATUS_def CHANNEL_NAME_COMMANDS_def
  CHANNEL_NAME_CHAT_SAY_def CHANNEL_NAME_CHAT_CHANNEL_def CHANNEL_NAME_LOGIN_PLAYER_def CHANNEL_NAME_LOGIN_GM_def
  CHANNEL_NAME_LOGIN_ADMIN_def

definition GetDiscordChannelType :: "string \<Rightarrow> DiscordChannelType" where
  "GetDiscordChannelType channelName =
     (if channelName = CHANNEL_NAME_SERVER_STATUS then ServerStatus
      else if channelName = CHANNEL_NAME_COMMANDS then Commands
      else if channelName = CHANNEL_NAME_CHAT_SAY then ChatSay
      else if channelName = CHANNEL_NAME_CHAT_CHANNEL then ChatChannel
      else if channelName = CHANNEL_NAME_LOGIN_PLAYER then LoginPlayer
      else if channelName = CHANNEL_NAME_LOGIN_GM then LoginGM
      else if channelName = CHANNEL_NAME_LOGIN_ADMIN then LoginAdmin
      else MaxType)"

fun GetChannelName :: "DiscordChannelType \<Rightarrow> string" where
  "GetChannelName ServerStatus = CHANNEL_NAME_SERVER_STATUS"
| "GetChannelName Commands = CHANNEL_NAME_COMMANDS"
| "GetChannelName ChatSay = CHANNEL_NAME_CHAT_SAY"
| "GetChannelName ChatChannel = CHANNEL_NAME_CHAT_CHANNEL"
| "GetChannelName LoginPlayer = CHANNEL_NAME_LOGIN_PLAYER"
| "GetChannelName LoginGM = CHANNEL_NAME_LOGIN_GM"
| "GetChannelName LoginAdmin = CHANNEL_NAME_LOGIN_ADMIN"
| "GetChannelName MaxType = []"

text \<open>A channel as the library reports it, and a request to create one. \<open>answer i\<close> is the answer to
  request number \<open>i\<close>: the id of the new channel.\<close>

record channel =
  cn_id :: int64
  cn_is_category :: bool
  cn_is_text :: bool
  cn_parent :: int64
  cn_name :: string

datatype channel_request = CreateCategoryRequest int64 string | CreateTextRequest int64 string int64

type_synonym answers_to = "nat \<Rightarrow> int64 option"

fun GetCategory :: "channel list \<Rightarrow> int64" where
  "GetCategory [] = 0"
| "GetCategory (c # cs) =
     (if \<not> cn_is_category c then GetCategory cs
      else if cn_name c = DEFAULT_CATEGORY_NAME then cn_id c else GetCategory cs)"

definition CreateCategory :: "answers_to \<Rightarrow> int64 \<Rightarrow> channel_request list \<Rightarrow> int64 \<times> channel_request list" where
  "CreateCategory answer guildID reqs =
     (case answer (length reqs) of None \<Rightarrow> 0 | Some i \<Rightarrow> i, reqs @ [CreateCategoryRequest guildID DEFAULT_CATEGORY_NAME])"

fun GetTextChannels :: "channel list \<Rightarrow> int64 \<Rightarrow> int64 list \<Rightarrow> int64 list" where
  "GetTextChannels [] findCategoryID channelList = channelList"
| "GetTextChannels (c # cs) findCategoryID channelList =
     (if \<not> cn_is_text c \<or> cn_parent c \<noteq> findCategoryID then GetTextChannels cs findCategoryID channelList
      else
        (let channelType = GetDiscordChannelType (cn_name c) in
         if channelType = MaxType then GetTextChannels cs findCategoryID channelList
         else GetTextChannels cs findCategoryID (channelList[channel_index channelType := cn_id c])))"

text \<open>One pass of the loop of \<open>CreateTextChannel\<close> over the places of the array.\<close>

fun CreateTextChannel ::
  "answers_to \<Rightarrow> int64 \<Rightarrow> int64 \<Rightarrow> DiscordChannelType list \<Rightarrow> int64 list \<times> channel_request list \<Rightarrow>
   int64 list \<times> channel_request list" where
  "CreateTextChannel answer guildID findCategoryID [] st = st"
| "CreateTextChannel answer guildID findCategoryID (t # ts) (channelList, reqs) =
     (if channelList ! channel_index t \<noteq> 0 \<or> GetChannelName t = []
      then CreateTextChannel answer guildID findCategoryID ts (channelList, reqs)
      else
        (let reqs' = reqs @ [CreateTextRequest guildID (GetChannelName t) findCategoryID] in
         case answer (length reqs) of
           None \<Rightarrow> CreateTextChannel answer guildID findCategoryID ts (channelList, reqs')
         | Some i \<Rightarrow> CreateTextChannel answer guildID findCategoryID ts (channelList[channel_index t := i], reqs')))"

text \<open>\<open>CheckChannels\<close> returns the list it hands to the callback and the requests it made. The local
  array is not initialised: \<open>junk\<close> is what it holds.\<close>

definition CheckChannels ::
  "answers_to \<Rightarrow> int64 list \<Rightarrow> channel list option \<Rightarrow> int64 \<Rightarrow> int64 list \<times> channel_request list" where
  "CheckChannels answer junk got guildID =
     (case got of
        None \<Rightarrow> (junk, [])
      | Some channels \<Rightarrow>
          (let (cat1, reqs1) = (if channels = [] then CreateCategory answer guildID [] else (0, []));
               cat2 = (if cat1 = 0 then GetCategory channels else cat1)
           in if cat2 = 0
              then (let (cat3, reqs2) = CreateCategory answer guildID reqs1
                    in if cat3 = 0 then (junk, reqs2)
                       else CreateTextChannel answer guildID cat3 channel_types (GetTextChannels channels cat3 junk, reqs2))
              else CreateTextChannel answer guildID cat2 channel_types (GetTextChannels channels cat2 junk, reqs1)))"

text \<open>
  The list of the bot's guilds is \<open>None\<close> when the request throws; the exception then ends in the future of the asynchronous callback, which
  nobody reads, and the callback is not called.
\<close>

definition CheckBotInGuild :: "int64 list option \<Rightarrow> int64 \<Rightarrow> bool option" where
  "CheckBotInGuild got guildID =
     (case got of
        None \<Rightarrow> None
      | Some guilds \<Rightarrow> Some (if guilds = [] then False else guildID \<in> set guilds))"

section \<open>The cache of guilds\<close>

record discord_client =
  cl_GuildID :: int64
  cl_GuildName :: string
  cl_MembersCount :: uint32
  cl_InviteDate :: int

datatype client_statement =
    DISCORD_INS_CLIENT int64 string uint32 int bool
  | DeleteFromClients int64
  | TruncateClients

text \<open>What a log embed reports: colour, icon, guild, name, and for a new guild the number of its
  members and its date of creation.\<close>

datatype guild_log =
    LogGuildAdded uint32 string int64 string uint32 uint32
  | LogGuildDeleted uint32 string int64 string

record guild_info =
  gi_id :: int64
  gi_name :: string
  gi_member_count :: uint32
  gi_icon_url :: string
  gi_creation_time :: uint32

record guild_bot =
  gb_isEnable :: bool
  gb_guilds :: "(int64 \<times> discord_client) list"
  gb_database :: "client_statement list"
  gb_commands :: "int64 list"
  gb_logs :: "guild_log list"
  gb_hooks :: bool

definition Indigo :: uint32 where "Indigo = 0x6610f2"
definition Orange :: uint32 where "Orange = 0xfd7e14"

definition HasClient :: "int64 \<Rightarrow> guild_bot \<Rightarrow> bool" where
  "HasClient guildID b \<longleftrightarrow> um_find guildID (gb_guilds b) \<noteq> None"

definition GetClient :: "int64 \<Rightarrow> guild_bot \<Rightarrow> discord_client option" where
  "GetClient guildID b = um_find guildID (gb_guilds b)"

definition CreateCommands :: "int64 \<Rightarrow> guild_bot \<Rightarrow> guild_bot" where
  "CreateCommands guildID b = b\<lparr>gb_commands := gb_commands b @ [guildID]\<rparr>"

definition AddClient :: "int64 \<Rightarrow> string \<Rightarrow> uint32 \<Rightarrow> int \<Rightarrow> bool \<Rightarrow> guild_bot \<Rightarrow> guild_bot" where
  "AddClient guildID guildName membersCount inviteDate atStartup b =
     (if HasClient guildID b then b
      else
        (let b1 = CreateCommands guildID b in
         b1\<lparr>gb_guilds := um_emplace guildID
                \<lparr>cl_GuildID = guildID, cl_GuildName = guildName, cl_MembersCount = membersCount, cl_InviteDate = inviteDate\<rparr>
                (gb_guilds b1),
            gb_database := gb_database b1 @ [DISCORD_INS_CLIENT guildID guildName membersCount inviteDate atStartup]\<rparr>))"

definition DeleteClient :: "int64 \<Rightarrow> guild_bot \<Rightarrow> guild_bot" where
  "DeleteClient guildID b =
     (if \<not> HasClient guildID b then b
      else b\<lparr>gb_guilds := um_erase guildID (gb_guilds b), gb_database := gb_database b @ [DeleteFromClients guildID]\<rparr>)"

definition DeleteAllClients :: "guild_bot \<Rightarrow> guild_bot" where
  "DeleteAllClients b = b\<lparr>gb_guilds := [], gb_database := gb_database b @ [TruncateClients]\<rparr>"

definition LogAddClient :: "int64 \<Rightarrow> uint32 \<Rightarrow> string \<Rightarrow> string \<Rightarrow> uint32 \<Rightarrow> uint32 \<Rightarrow> guild_bot \<Rightarrow> guild_bot" where
  "LogAddClient guildID color icon guildName membersCount creationDate b =
     (if \<not> gb_isEnable b then b
      else b\<lparr>gb_logs := gb_logs b @ [LogGuildAdded color icon guildID guildName membersCount creationDate]\<rparr>)"

definition LogDeleteClient :: "int64 \<Rightarrow> uint32 \<Rightarrow> string \<Rightarrow> string \<Rightarrow> guild_bot \<Rightarrow> guild_bot" where
  "LogDeleteClient guildID color icon guildName b =
     (if \<not> gb_isEnable b then b
      else b\<lparr>gb_logs := gb_logs b @ [LogGuildDeleted color icon guildID guildName]\<rparr>)"

definition LoadClients :: "discord_client list option \<Rightarrow> guild_bot \<Rightarrow> guild_bot" where
  "LoadClients result b =
     (let b1 = b\<lparr>gb_guilds := []\<rparr> in
      case result of
        None \<Rightarrow> b1
      | Some rows \<Rightarrow> foldl (\<lambda>b row. b\<lparr>gb_guilds := um_emplace (cl_GuildID row) row (gb_guilds b)\<rparr>) b1 rows)"

text \<open>\<open>CheckClients\<close>: the loop over the guilds of the bot, then the loop over the clients left over.\<close>

fun check_guilds :: "int \<Rightarrow> guild_info list \<Rightarrow> int64 list \<times> guild_bot \<Rightarrow> int64 list \<times> guild_bot" where
  "check_guilds now [] st = st"
| "check_guilds now (g # gs) (saved, b) =
     (if HasClient (gi_id g) b
      then check_guilds now gs (filter (\<lambda>i. i \<noteq> gi_id g) saved, CreateCommands (gi_id g) b)
      else check_guilds now gs
        (saved, LogAddClient (gi_id g) Orange (gi_icon_url g) (gi_name g) (gi_member_count g) (gi_creation_time g)
           (AddClient (gi_id g) (gi_name g) (gi_member_count g) now True b)))"

fun drop_clients :: "int64 list \<Rightarrow> guild_bot \<Rightarrow> guild_bot" where
  "drop_clients [] b = b"
| "drop_clients (i # is) b =
     (case GetClient i b of
        None \<Rightarrow> drop_clients is b
      | Some info \<Rightarrow> drop_clients is (DeleteClient i (LogDeleteClient i Orange [] (cl_GuildName info) b)))"

definition CheckClients :: "int \<Rightarrow> guild_info list \<Rightarrow> guild_bot \<Rightarrow> guild_bot" where
  "CheckClients now guilds b =
     (if guilds = [] then DeleteAllClients b
      else
        (let (saved, b1) = check_guilds now guilds (map fst (gb_guilds b), b);
             b2 = (if saved \<noteq> [] then drop_clients saved b1 else b1)
         in b2\<lparr>gb_hooks := True\<rparr>))"

definition on_guild_create :: "int \<Rightarrow> bool \<Rightarrow> guild_info \<Rightarrow> guild_bot \<Rightarrow> guild_bot" where
  "on_guild_create now cancelled g b =
     (if HasClient (gi_id g) b \<or> cancelled then b
      else LogAddClient (gi_id g) Indigo (gi_icon_url g) (gi_name g) (gi_member_count g) (gi_creation_time g)
             (AddClient (gi_id g) (gi_name g) (gi_member_count g) now False b))"

definition on_guild_delete :: "bool \<Rightarrow> guild_info \<Rightarrow> guild_bot \<Rightarrow> guild_bot" where
  "on_guild_delete cancelled g b =
     (if \<not> HasClient (gi_id g) b \<or> cancelled then b
      else LogDeleteClient (gi_id g) Indigo (gi_icon_url g) (gi_name g) (DeleteClient (gi_id g) b))"

section \<open>Slash commands\<close>

record slash_command =
  sc_name :: string
  sc_description :: string
  sc_options :: "(string \<times> string list) list"
  sc_application_id :: int64

record slash_event =
  ev_guild_id :: int64
  ev_user_id :: int64
  ev_command :: string
  ev_options :: "uint8 list list"

record 'f command_handler =
  ch_commands :: "slash_command list"
  ch_commandInvoke :: "(string \<times> 'f) list"

definition AddCommand ::
  "string \<Rightarrow> string \<Rightarrow> (string \<times> string list) list \<Rightarrow> 'f \<Rightarrow> 'f command_handler \<Rightarrow> 'f command_handler res" where
  "AddCommand commandName description params invoke h =
     guard_or (um_find commandName (ch_commandInvoke h) = None) (AssertFailure ''Command is exist'')
       (Inr (h\<lparr>ch_commandInvoke := um_emplace commandName invoke (ch_commandInvoke h),
               ch_commands := ch_commands h @ [\<lparr>sc_name = commandName, sc_description = description,
                 sc_options = params, sc_application_id = 0\<rparr>]\<rparr>))"

definition SetApplicaionID :: "int64 \<Rightarrow> 'f command_handler \<Rightarrow> 'f command_handler" where
  "SetApplicaionID me h =
     h\<lparr>ch_commands := map (\<lambda>c. if sc_application_id c = 0 then c\<lparr>sc_application_id := me\<rparr> else c) (ch_commands h)\<rparr>"

definition TryExecuteCommand ::
  "('f \<Rightarrow> slash_event \<Rightarrow> 's \<Rightarrow> 's res) \<Rightarrow> slash_event \<Rightarrow> 'f command_handler \<Rightarrow> 's \<Rightarrow> 's res" where
  "TryExecuteCommand run ev h s =
     (case um_find (ev_command ev) (ch_commandInvoke h) of None \<Rightarrow> Inr s | Some f \<Rightarrow> run f ev s)"

text \<open>The two commands of the bot and their replies.\<close>

datatype bot_command = AccountCreate | AccountKeyGenerate

datatype command_reply =
    NotInThisGuild | GuildHasAccount | CreateFailed AccountResponceResult | Created "uint8 list" "uint8 list"
  | NotTheOwner | ChangeFailed AccountResponceResult | KeyChanged "uint8 list" "uint8 list"

definition OWNER_ID :: int64 where "OWNER_ID = 365169287926906883"
definition WARHEAD_GUILD_ID :: int64 where "WARHEAD_GUILD_ID = 572275951879192588"

text \<open>What the commands act on: the guilds, the accounts and the replies sent. The environment has the
  hash, the bytes of the salt and the key \<open>GetRandomKey\<close> returns.\<close>

record command_env =
  ce_SHA1 :: "uint8 list \<Rightarrow> uint8 list"
  ce_salt :: "uint8 list"
  ce_key :: "uint8 list res"

record command_state =
  cs_bot :: guild_bot
  cs_accounts :: account_mgr
  cs_replies :: "command_reply list"

definition reply_with :: "command_reply \<Rightarrow> command_state \<Rightarrow> command_state" where
  "reply_with r s = s\<lparr>cs_replies := cs_replies s @ [r]\<rparr>"

definition account_create :: "command_env \<Rightarrow> slash_event \<Rightarrow> command_state \<Rightarrow> command_state res" where
  "account_create env ev s =
     (case ev_options ev of
        [] \<Rightarrow> Inr s
      | [_] \<Rightarrow> Inl (UndefinedAccess ''cmdData.options[1]'')
      | accountName # _ \<Rightarrow>
          if ev_guild_id ev = WARHEAD_GUILD_ID \<and> ev_user_id ev \<noteq> OWNER_ID then Inr (reply_with NotInThisGuild s)
          else if HasClient (ev_guild_id ev) (cs_bot s) \<and> ev_user_id ev \<noteq> OWNER_ID
          then Inr (reply_with GuildHasAccount s)
          else
            bindr (ce_key env) (\<lambda>key.
            bindr (CreateAccount (ce_SHA1 env) (ce_salt env) accountName key (ev_guild_id ev) [] (cs_accounts s))
              (\<lambda>(result, am).
                 let s' = s\<lparr>cs_accounts := am\<rparr>
                 in Inr (reply_with (if result \<noteq> AccOk then CreateFailed result else Created accountName key) s'))))"

definition account_key_generate :: "command_env \<Rightarrow> slash_event \<Rightarrow> command_state \<Rightarrow> command_state res" where
  "account_key_generate env ev s =
     (case ev_options ev of
        [] \<Rightarrow> Inr s
      | accountName # _ \<Rightarrow>
          if ev_user_id ev \<noteq> OWNER_ID then Inr (reply_with NotTheOwner s)
          else
            bindr (ce_key env) (\<lambda>newKey.
            bindr (ChangeKey (ce_SHA1 env) (ce_salt env) accountName newKey (cs_accounts s)) (\<lambda>(result, am).
              let s' = s\<lparr>cs_accounts := am\<rparr>
              in Inr (reply_with (if result \<noteq> AccOk then ChangeFailed result else KeyChanged accountName newKey) s'))))"

fun run_command :: "command_env \<Rightarrow> bot_command \<Rightarrow> slash_event \<Rightarrow> command_state \<Rightarrow> command_state res" where
  "run_command env AccountCreate ev s = account_create env ev s"
| "run_command env AccountKeyGenerate ev s = account_key_generate env ev s"

text \<open>\<open>ConfigureCommands\<close>; the texts of the descriptions are arguments.\<close>

definition ConfigureCommands ::
  "(nat \<Rightarrow> string) \<Rightarrow> bot_command command_handler \<Rightarrow> bot_command command_handler res" where
  "ConfigureCommands texts h =
     bindr (AddCommand ''account-create'' (texts 0) [(texts 1, []), (texts 2, [''WarheadCore'', ''AzerothCore''])] AccountCreate h)
       (AddCommand ''account-key-generate'' (texts 3) [(texts 1, [])] AccountKeyGenerate)"

section \<open>The channels of a guild\<close>

lemma channel_types_index [simp]:
  "length channel_types = 7" "distinct channel_types" "MaxType \<notin> set channel_types"
  "t \<noteq> MaxType \<Longrightarrow> t \<in> set channel_types" "t \<noteq> MaxType \<Longrightarrow> channel_types ! channel_index t = t"
  "t \<noteq> MaxType \<Longrightarrow> channel_index t < 7"
  by (cases t; simp add: channel_types_def)+

lemma channel_index_inj [simp]: "channel_index t = channel_index t' \<longleftrightarrow> t = t'"
  by (cases t; cases t') simp_all

lemma GetChannelName_type:
  "t \<noteq> MaxType \<Longrightarrow> GetDiscordChannelType (GetChannelName t) = t"
  by (cases t) (simp_all add: GetDiscordChannelType_def channel_names)

lemma GetDiscordChannelType_name:
  "GetDiscordChannelType n \<noteq> MaxType \<Longrightarrow> GetChannelName (GetDiscordChannelType n) = n"
  by (auto simp: GetDiscordChannelType_def)

lemma GetChannelName_Nil [simp]: "GetChannelName t = [] \<longleftrightarrow> t = MaxType"
  by (cases t) (simp_all add: channel_names)

text \<open>The channel a type already has: the last text channel of the category with its name.\<close>

definition serves :: "int64 \<Rightarrow> DiscordChannelType \<Rightarrow> channel \<Rightarrow> bool" where
  "serves cat t c \<longleftrightarrow> cn_is_text c \<and> cn_parent c = cat \<and> cn_name c = GetChannelName t"

definition existing :: "channel list \<Rightarrow> int64 \<Rightarrow> DiscordChannelType \<Rightarrow> int64 option" where
  "existing channels cat t =
     (let cs = filter (serves cat t) channels in if cs = [] then None else Some (cn_id (last cs)))"

lemma GetTextChannels_length [simp]: "length (GetTextChannels cs cat l) = length l"
  by (induction cs cat l rule: GetTextChannels.induct) (simp_all add: Let_def)

lemma serves_type: "t \<noteq> MaxType \<Longrightarrow> serves cat t c \<longleftrightarrow> cn_is_text c \<and> cn_parent c = cat \<and> GetDiscordChannelType (cn_name c) = t"
  using GetChannelName_type [of t] GetDiscordChannelType_name [of "cn_name c"] by (auto simp: serves_def)

lemma GetTextChannels_nth:
  assumes "t \<noteq> MaxType" "length l = 7"
  shows "GetTextChannels cs cat l ! channel_index t =
     (case existing cs cat t of None \<Rightarrow> l ! channel_index t | Some i \<Rightarrow> i)"
  using assms(2)
proof (induction cs cat l rule: GetTextChannels.induct)
  case (2 c cs cat l)
  then show ?case using assms(1)
    by (auto simp: existing_def Let_def serves_type nth_list_update)
qed (simp add: existing_def)

definition missing :: "int64 list \<Rightarrow> DiscordChannelType list \<Rightarrow> DiscordChannelType list" where
  "missing l ts = filter (\<lambda>t. l ! channel_index t = 0) ts"

lemma CreateTextChannel_spec:
  assumes "distinct ts" "MaxType \<notin> set ts" "length l = 7"
  shows "\<exists>l'. CreateTextChannel answer g cat ts (l, reqs) =
       (l', reqs @ map (\<lambda>t. CreateTextRequest g (GetChannelName t) cat) (missing l ts)) \<and> length l' = 7 \<and>
     (\<forall>k<length (missing l ts). l' ! channel_index (missing l ts ! k) =
        (case answer (length reqs + k) of None \<Rightarrow> 0 | Some i \<Rightarrow> i)) \<and>
     (\<forall>t. t \<notin> set (missing l ts) \<longrightarrow> l' ! channel_index t = l ! channel_index t)"
  using assms
proof (induction ts arbitrary: l reqs)
  case (Cons t ts)
  show ?case
  proof (cases "l ! channel_index t = 0")
    case False
    then have "missing l (t # ts) = missing l ts" by (simp add: missing_def)
    then show ?thesis using Cons.IH [of l reqs] Cons.prems False by simp
  next
    case True
    define reqs' where "reqs' = reqs @ [CreateTextRequest g (GetChannelName t) cat]"
    define l1 where "l1 = (case answer (length reqs) of None \<Rightarrow> l | Some i \<Rightarrow> l[channel_index t := i])"
    have idx: "channel_index t < 7" using Cons.prems by auto
    have l1: "length l1 = 7" "l1 ! channel_index t = (case answer (length reqs) of None \<Rightarrow> 0 | Some i \<Rightarrow> i)"
        "t' \<noteq> t \<Longrightarrow> l1 ! channel_index t' = l ! channel_index t'" for t'
      using Cons.prems True idx by (auto simp: l1_def split: option.splits)
    have "\<forall>x\<in>set ts. l1 ! channel_index x = l ! channel_index x" using l1(3) Cons.prems(1) by (metis distinct.simps(2))
    then have m: "missing l (t # ts) = t # missing l1 ts" "t \<notin> set (missing l1 ts)"
      using True Cons.prems by (auto simp: missing_def intro!: filter_cong)
    have step: "CreateTextChannel answer g cat (t # ts) (l, reqs) = CreateTextChannel answer g cat ts (l1, reqs')"
      using True Cons.prems by (auto simp: reqs'_def l1_def Let_def split: option.splits)
    from Cons.IH [of l1 reqs'] Cons.prems l1(1) obtain l' where l':
      "CreateTextChannel answer g cat ts (l1, reqs') =
         (l', reqs' @ map (\<lambda>t. CreateTextRequest g (GetChannelName t) cat) (missing l1 ts))" "length l' = 7"
      "\<forall>k<length (missing l1 ts). l' ! channel_index (missing l1 ts ! k) =
         (case answer (length reqs' + k) of None \<Rightarrow> 0 | Some i \<Rightarrow> i)"
      "\<forall>t. t \<notin> set (missing l1 ts) \<longrightarrow> l' ! channel_index t = l1 ! channel_index t" by auto
    have "l' ! channel_index t = (case answer (length reqs) of None \<Rightarrow> 0 | Some i \<Rightarrow> i)"
      using l'(4) m(2) l1(2) by simp
    then have "\<forall>k<length (missing l (t # ts)). l' ! channel_index (missing l (t # ts) ! k) =
        (case answer (length reqs + k) of None \<Rightarrow> 0 | Some i \<Rightarrow> i)"
      using l'(3) by (auto simp: m(1) reqs'_def less_Suc_eq_0_disj)
    then show ?thesis using l' step l1(3) by (intro exI [of _ l']) (auto simp: m(1) reqs'_def)
  qed
qed (simp add: missing_def)

text \<open>The category the check works with: the existing one, or the one it creates; \<open>None\<close> when neither.\<close>

definition find_category :: "answers_to \<Rightarrow> channel list \<Rightarrow> (int64 \<times> nat) option" where
  "find_category answer channels =
     (if channels = [] then
        (case answer 0 of
           Some i \<Rightarrow> if i \<noteq> 0 then Some (i, 1) else (case answer 1 of Some j \<Rightarrow> if j \<noteq> 0 then Some (j, 2) else None | None \<Rightarrow> None)
         | None \<Rightarrow> (case answer 1 of Some j \<Rightarrow> if j \<noteq> 0 then Some (j, 2) else None | None \<Rightarrow> None))
      else if GetCategory channels \<noteq> 0 then Some (GetCategory channels, 0)
      else (case answer 0 of Some i \<Rightarrow> if i \<noteq> 0 then Some (i, 1) else None | None \<Rightarrow> None))"

lemma CheckChannels_cases:
  "CheckChannels answer junk (Some channels) g =
     (case find_category answer channels of
        None \<Rightarrow> (junk, replicate (if channels = [] then 2 else 1) (CreateCategoryRequest g DEFAULT_CATEGORY_NAME))
      | Some (cat, n) \<Rightarrow> CreateTextChannel answer g cat channel_types
          (GetTextChannels channels cat junk, replicate n (CreateCategoryRequest g DEFAULT_CATEGORY_NAME)))"
  by (auto simp: CheckChannels_def find_category_def CreateCategory_def numeral_2_eq_2 Let_def split: option.splits)

text \<open>What the place of a type holds after the existing channels are entered, and the types still to do.\<close>

definition channel_base :: "int64 list \<Rightarrow> channel list \<Rightarrow> int64 \<Rightarrow> DiscordChannelType \<Rightarrow> int64" where
  "channel_base junk channels cat t = (case existing channels cat t of None \<Rightarrow> junk ! channel_index t | Some i \<Rightarrow> i)"

definition channels_todo :: "int64 list \<Rightarrow> channel list \<Rightarrow> int64 \<Rightarrow> DiscordChannelType list" where
  "channels_todo junk channels cat = filter (\<lambda>t. channel_base junk channels cat t = 0) channel_types"

text \<open>
  C21. The channels of a guild: with the category found or created, the list handed to the connection has
  the id of the existing channel of every type that has one; for the types whose place in the array is
  0 a channel is requested, once each and in order, and its id stored. A type without a channel whose
  place in the array, which the code does not initialise, is not 0 gets no channel and keeps that value.
\<close>

theorem channels_checked:
  assumes "length junk = 7" "find_category answer channels = Some (cat, n)"
  shows "\<exists>l. CheckChannels answer junk (Some channels) g =
       (l, replicate n (CreateCategoryRequest g DEFAULT_CATEGORY_NAME)
          @ map (\<lambda>t. CreateTextRequest g (GetChannelName t) cat) (channels_todo junk channels cat)) \<and>
     length l = DEFAULT_CHANNELS_COUNT \<and>
     (\<forall>t\<in>set channel_types. channel_base junk channels cat t \<noteq> 0 \<longrightarrow> l ! channel_index t = channel_base junk channels cat t) \<and>
     (\<forall>k<length (channels_todo junk channels cat). l ! channel_index (channels_todo junk channels cat ! k) =
        (case answer (n + k) of None \<Rightarrow> 0 | Some i \<Rightarrow> i))"
proof -
  let ?l = "GetTextChannels channels cat junk"
  let ?todo = "channels_todo junk channels cat"
  have base: "\<forall>t\<in>set channel_types. ?l ! channel_index t = channel_base junk channels cat t"
    using GetTextChannels_nth [OF _ assms(1)] by (metis channel_base_def channel_types_index(3))
  then have todo: "missing ?l channel_types = ?todo"
    unfolding missing_def channels_todo_def by (intro filter_cong) auto
  from CreateTextChannel_spec [of channel_types ?l answer g cat "replicate n (CreateCategoryRequest g DEFAULT_CATEGORY_NAME)"]
  obtain l where "CheckChannels answer junk (Some channels) g =
       (l, replicate n (CreateCategoryRequest g DEFAULT_CATEGORY_NAME)
          @ map (\<lambda>t. CreateTextRequest g (GetChannelName t) cat) ?todo)"
     "length l = 7" "\<forall>k<length ?todo. l ! channel_index (?todo ! k) = (case answer (n + k) of None \<Rightarrow> 0 | Some i \<Rightarrow> i)"
     "\<forall>t. t \<notin> set ?todo \<longrightarrow> l ! channel_index t = ?l ! channel_index t"
    using assms by (auto simp: CheckChannels_cases todo)
  then show ?thesis using base by (intro exI [of _ l]) (auto simp: DEFAULT_CHANNELS_COUNT_def channels_todo_def)
qed

definition sample_channels :: "channel list" where
  "sample_channels =
     [\<lparr>cn_id = 50, cn_is_category = True, cn_is_text = False, cn_parent = 0, cn_name = ''core-logs''\<rparr>,
      \<lparr>cn_id = 51, cn_is_category = False, cn_is_text = True, cn_parent = 50, cn_name = ''chat-say''\<rparr>]"

theorem channels_checked_witness:
  "\<exists>l. CheckChannels (\<lambda>i. Some (100 + word_of_nat i)) (replicate 7 0) (Some sample_channels) 9 =
       (l, map (\<lambda>t. CreateTextRequest 9 (GetChannelName t) 50)
             [ServerStatus, Commands, ChatChannel, LoginPlayer, LoginGM, LoginAdmin]) \<and> l ! 2 = 51 \<and> l ! 3 = 102"
proof -
  have cat: "find_category (\<lambda>i. Some (100 + word_of_nat i)) sample_channels = Some (50, 0)" by code_simp
  have todo: "channels_todo (replicate 7 0) sample_channels 50 = [ServerStatus, Commands, ChatChannel, LoginPlayer, LoginGM, LoginAdmin]"
    by code_simp
  have base: "channel_base (replicate 7 0) sample_channels 50 ChatSay = 51" by code_simp
  from channels_checked [OF _ cat, of "replicate 7 0" 9] obtain l where l:
    "CheckChannels (\<lambda>i. Some (100 + word_of_nat i)) (replicate 7 0) (Some sample_channels) 9 =
       (l, map (\<lambda>t. CreateTextRequest 9 (GetChannelName t) 50)
             [ServerStatus, Commands, ChatChannel, LoginPlayer, LoginGM, LoginAdmin])"
    "\<forall>t\<in>set channel_types. channel_base (replicate 7 0) sample_channels 50 t \<noteq> 0 \<longrightarrow>
       l ! channel_index t = channel_base (replicate 7 0) sample_channels 50 t"
    "\<forall>k<6. l ! channel_index ([ServerStatus, Commands, ChatChannel, LoginPlayer, LoginGM, LoginAdmin] ! k) = 100 + word_of_nat k"
    by (auto simp: todo)
  have "l ! 2 = 51" using l(2) [rule_format, of ChatSay] by (simp add: base)
  moreover have "l ! 3 = 102" using l(3) [rule_format, of 2] by simp
  ultimately show ?thesis using l(1) by blast
qed

section \<open>The cache and the table of guilds\<close>

text \<open>What the statements make of the table \<open>clients\<close>, whose key is the guild.\<close>

fun run_statement :: "client_statement \<Rightarrow> (int64 \<rightharpoonup> discord_client) \<Rightarrow> (int64 \<rightharpoonup> discord_client)" where
  "run_statement (DISCORD_INS_CLIENT g n m d atStartup) t =
     t(g \<mapsto> \<lparr>cl_GuildID = g, cl_GuildName = n, cl_MembersCount = m, cl_InviteDate = d\<rparr>)"
| "run_statement (DeleteFromClients g) t = t(g := None)"
| "run_statement TruncateClients t = Map.empty"

definition clients_table :: "(int64 \<rightharpoonup> discord_client) \<Rightarrow> guild_bot \<Rightarrow> (int64 \<rightharpoonup> discord_client)" where
  "clients_table t0 b = foldl (\<lambda>t stmt. run_statement stmt t) t0 (gb_database b)"

definition mirrors :: "(int64 \<rightharpoonup> discord_client) \<Rightarrow> guild_bot \<Rightarrow> bool" where
  "mirrors t0 b \<longleftrightarrow> (\<lambda>g. GetClient g b) = clients_table t0 b"

text \<open>The operations of the bot on its guilds.\<close>

inductive guild_step :: "guild_bot \<Rightarrow> guild_bot \<Rightarrow> bool" where
  step_check: "guild_step b (CheckClients now guilds b)"
| step_create: "guild_step b (on_guild_create now cancelled g b)"
| step_delete: "guild_step b (on_guild_delete cancelled g b)"

lemma GetClient_AddClient:
  "GetClient i (AddClient g n m d atStartup b) =
     (if i = g \<and> \<not> HasClient g b then Some \<lparr>cl_GuildID = g, cl_GuildName = n, cl_MembersCount = m, cl_InviteDate = d\<rparr>
      else GetClient i b)"
  by (auto simp: AddClient_def Let_def GetClient_def HasClient_def CreateCommands_def um_find_emplace)

lemma GetClient_DeleteClient: "GetClient i (DeleteClient g b) = (if i = g then None else GetClient i b)"
  by (auto simp: DeleteClient_def GetClient_def HasClient_def um_find_erase)

lemma GetClient_log [simp]:
  "GetClient i (LogAddClient g c u n m t b) = GetClient i b" "GetClient i (LogDeleteClient g c u n b) = GetClient i b"
  "GetClient i (CreateCommands g b) = GetClient i b" "GetClient i (b\<lparr>gb_hooks := h\<rparr>) = GetClient i b"
  by (simp_all add: GetClient_def LogAddClient_def LogDeleteClient_def CreateCommands_def)

lemma clients_table_log [simp]:
  "clients_table t0 (LogAddClient g c u n m t b) = clients_table t0 b" "clients_table t0 (LogDeleteClient g c u n b) = clients_table t0 b"
  "clients_table t0 (CreateCommands g b) = clients_table t0 b" "clients_table t0 (b\<lparr>gb_hooks := h\<rparr>) = clients_table t0 b"
  by (simp_all add: clients_table_def LogAddClient_def LogDeleteClient_def CreateCommands_def)

lemma mirrors_log [simp]:
  "mirrors t0 (LogAddClient g c u n m t b) = mirrors t0 b" "mirrors t0 (LogDeleteClient g c u n b) = mirrors t0 b"
  "mirrors t0 (CreateCommands g b) = mirrors t0 b" "mirrors t0 (b\<lparr>gb_hooks := h\<rparr>) = mirrors t0 b"
  by (simp_all add: mirrors_def)

lemma mirrors_AddClient: "mirrors t0 b \<Longrightarrow> mirrors t0 (AddClient g n m d atStartup b)"
  by (auto simp: mirrors_def fun_eq_iff GetClient_AddClient)
    (auto simp: AddClient_def clients_table_def CreateCommands_def Let_def)

lemma mirrors_DeleteClient: "mirrors t0 b \<Longrightarrow> mirrors t0 (DeleteClient g b)"
  by (auto simp: mirrors_def fun_eq_iff GetClient_DeleteClient)
    (auto simp: DeleteClient_def clients_table_def HasClient_def GetClient_def)

lemma mirrors_DeleteAll: "mirrors t0 (DeleteAllClients b)"
  by (simp add: mirrors_def DeleteAllClients_def clients_table_def GetClient_def um_find_def)

lemma mirrors_check: "mirrors t0 (snd st) \<Longrightarrow> mirrors t0 (snd (check_guilds now gs st))"
  by (induction now gs st rule: check_guilds.induct) (simp_all add: mirrors_AddClient)

lemma mirrors_drop: "mirrors t0 b \<Longrightarrow> mirrors t0 (drop_clients is b)"
  by (induction "is" b rule: drop_clients.induct) (auto simp: mirrors_DeleteClient split: option.splits)

lemma mirrors_step: "guild_step b b' \<Longrightarrow> mirrors t0 b \<Longrightarrow> mirrors t0 b'"
proof (induction rule: guild_step.induct)
  case (step_check b now guilds)
  then have "mirrors t0 (snd (check_guilds now guilds (map fst (gb_guilds b), b)))" by (simp add: mirrors_check)
  then show ?case by (auto simp: CheckClients_def mirrors_DeleteAll Let_def split_beta mirrors_drop)
qed (auto simp: on_guild_create_def on_guild_delete_def mirrors_AddClient mirrors_DeleteClient)

lemma HasClient_GetClient: "HasClient g b \<longleftrightarrow> GetClient g b \<noteq> None"
  by (simp add: HasClient_def GetClient_def)

lemma check_guilds_clients:
  "\<forall>i\<in>set (fst st). HasClient i (snd st) \<Longrightarrow>
     fst (check_guilds now gs st) = filter (\<lambda>i. i \<notin> gi_id ` set gs) (fst st) \<and>
     (\<forall>i. HasClient i (snd (check_guilds now gs st)) \<longleftrightarrow> HasClient i (snd st) \<or> i \<in> gi_id ` set gs)"
proof (induction now gs st rule: check_guilds.induct)
  case (2 now g gs saved b)
  show ?case
  proof (cases "HasClient (gi_id g) b")
    case True
    then show ?thesis using "2.IH"(1) [OF True] "2.prems"
      by (auto simp: HasClient_GetClient intro!: filter_cong)
  next
    case False
    then have "gi_id g \<notin> set saved" using "2.prems" by auto
    then have "filter (\<lambda>i. i \<notin> gi_id ` set (g # gs)) saved = filter (\<lambda>i. i \<notin> gi_id ` set gs) saved"
      by (auto intro!: filter_cong)
    then show ?thesis using "2.IH"(2) [OF False] "2.prems" False
      by (auto simp: HasClient_GetClient GetClient_AddClient)
  qed
qed simp

lemma drop_clients_has: "HasClient j (drop_clients is b) \<longleftrightarrow> HasClient j b \<and> j \<notin> set is"
  by (induction "is" b rule: drop_clients.induct)
    (auto simp: HasClient_GetClient GetClient_DeleteClient split: option.splits if_splits)

lemma CheckClients_has: "HasClient i (CheckClients now guilds b) \<longleftrightarrow> i \<in> gi_id ` set guilds"
proof (cases "guilds = []")
  case True
  then show ?thesis by (simp add: CheckClients_def DeleteAllClients_def HasClient_def um_find_def)
next
  case False
  let ?r = "check_guilds now guilds (map fst (gb_guilds b), b)"
  have keys: "i \<in> set (map fst (gb_guilds b)) \<longleftrightarrow> HasClient i b" for i
    by (simp add: HasClient_def um_find_None)
  then have "fst ?r = filter (\<lambda>i. i \<notin> gi_id ` set guilds) (map fst (gb_guilds b))"
      "HasClient i (snd ?r) \<longleftrightarrow> HasClient i b \<or> i \<in> gi_id ` set guilds" for i
    using check_guilds_clients [of "(map fst (gb_guilds b), b)" now guilds] by auto
  moreover have "CheckClients now guilds b = (drop_clients (fst ?r) (snd ?r))\<lparr>gb_hooks := True\<rparr>"
    using False by (simp add: CheckClients_def Let_def split_beta)
  moreover have "HasClient i (b'\<lparr>gb_hooks := True\<rparr>) = HasClient i b'" for b' by (simp add: HasClient_GetClient)
  ultimately show ?thesis using keys by (auto simp: drop_clients_has)
qed

text \<open>
  C24. The cache of guilds mirrors the table of clients: if it does so at first, it does after any
  sequence of checks of the guild list, of guilds that invite the bot and of guilds that remove it; and a
  check leaves exactly the guilds of the list, whatever was cached before.
\<close>

theorem client_cache_mirrors_table:
  assumes "guild_step\<^sup>*\<^sup>* b b'" "mirrors t0 b"
  shows "mirrors t0 b' \<and> (\<forall>now guilds i. HasClient i (CheckClients now guilds b') \<longleftrightarrow> i \<in> gi_id ` set guilds)"
proof
  show "mirrors t0 b'" using assms by (induction rule: rtranclp_induct) (auto intro: mirrors_step)
qed (simp add: CheckClients_has)

definition sample_bot :: guild_bot where
  "sample_bot = \<lparr>gb_isEnable = True, gb_guilds = [(4, \<lparr>cl_GuildID = 4, cl_GuildName = ''old'', cl_MembersCount = 2, cl_InviteDate = 0\<rparr>)],
     gb_database = [], gb_commands = [], gb_logs = [], gb_hooks = False\<rparr>"

theorem client_cache_mirrors_table_witness:
  "let g = \<lparr>gi_id = 5, gi_name = ''new'', gi_member_count = 3, gi_icon_url = [], gi_creation_time = 0\<rparr>;
       b = CheckClients 100 [g] sample_bot; t0 = (\<lambda>i. GetClient i sample_bot)
   in mirrors t0 b \<and> HasClient 5 (CheckClients 100 [g] b) \<and> \<not> HasClient 4 (CheckClients 100 [g] b)"
proof -
  let ?g = "\<lparr>gi_id = 5, gi_name = ''new'', gi_member_count = 3, gi_icon_url = [], gi_creation_time = 0\<rparr>"
  have "guild_step\<^sup>*\<^sup>* sample_bot (CheckClients 100 [?g] sample_bot)" by (intro r_into_rtranclp step_check)
  moreover have "mirrors (\<lambda>i. GetClient i sample_bot) sample_bot"
    by (simp add: mirrors_def clients_table_def sample_bot_def)
  ultimately show ?thesis
    using client_cache_mirrors_table [of sample_bot "CheckClients 100 [?g] sample_bot" "\<lambda>i. GetClient i sample_bot"]
    by (simp add: Let_def)
qed

section \<open>The account commands\<close>

definition no_commands :: "bot_command command_handler" where
  "no_commands = \<lparr>ch_commands = [], ch_commandInvoke = []\<rparr>"

lemma configured:
  "\<exists>h. ConfigureCommands texts no_commands = Inr h \<and>
     um_find ''account-create'' (ch_commandInvoke h) = Some AccountCreate \<and>
     um_find ''account-key-generate'' (ch_commandInvoke h) = Some AccountKeyGenerate"
  by (simp add: ConfigureCommands_def AddCommand_def guard_or_def no_commands_def um_find_def um_emplace_def)

lemma row_enters:
  assumes "utf8_is_valid name" "utf8_is_valid key"
    and "ar_Verifier row = nat_bytes 32 (7 ^ srp6_x (ae_SHA1 aenv) (registered name) (registered key) (ar_Salt row) mod srp6_modulus)"
    and "ar_bandate row = None" "ar_unbandate row = None" "\<not> ae_discordClosed aenv"
    and "map latin_upper (bytes_of (as_Account auth)) = map latin_upper name" "map latin_upper (bytes_of (as_Key auth)) = map latin_upper key"
  shows "may_enter aenv auth (Some row)"
  using assms(3-) CheckKey_registered [OF assms(1,2,7,8)] by (simp add: may_enter_def account_of_def)

text \<open>
  C7. An account created by the slash command can log in with the key of the reply: a run of the command
  \<open>account-create\<close> either leaves the accounts alone and does not report success, or the user is the
  owner or the guild is not known yet, one row is inserted, the reply has the generated key, and a
  client that sends the name of the command and that key, up to Latin case, passes the gate of an open
  server that has the row without a ban: when the row is one of the tables, the callback reads it and goes
  on to the bot.
\<close>

theorem command_account_can_log_in:
  assumes "ConfigureCommands texts no_commands = Inr h" "ev_command ev = ''account-create''"
    and "TryExecuteCommand (run_command env) ev h s = Inr s'"
    and "ce_key env = Inr key" "utf8_is_valid (hd (ev_options ev))" "utf8_is_valid key"
  shows "(am_database (cs_accounts s') = am_database (cs_accounts s) \<and> (\<forall>n k. cs_replies s' \<noteq> cs_replies s @ [Created n k])) \<or>
    ((ev_user_id ev = OWNER_ID \<or> \<not> HasClient (ev_guild_id ev) (cs_bot s)) \<and>
     cs_replies s' = cs_replies s @ [Created (hd (ev_options ev)) key] \<and>
     (\<exists>name salt verifier realm.
        am_database (cs_accounts s') = am_database (cs_accounts s) @ [DISCORD_INS_ACCOUNT name salt verifier (ev_guild_id ev) realm] \<and>
        (\<forall>aenv row auth. ae_SHA1 aenv = ce_SHA1 env \<and> \<not> ae_discordClosed aenv \<and> ar_Salt row = salt \<and> ar_Verifier row = verifier \<and>
           ar_bandate row = None \<and> ar_unbandate row = None \<and>
           map latin_upper (bytes_of (as_Account auth)) = map latin_upper (hd (ev_options ev)) \<and>
           map latin_upper (bytes_of (as_Key auth)) = map latin_upper key \<longrightarrow> may_enter aenv auth (Some row) \<and> passes_gate aenv auth row)))"
proof -
  have run: "account_create env ev s = Inr s'"
    using assms(1-3) configured [of texts] by (auto simp: TryExecuteCommand_def)
  show ?thesis
  proof (cases "ev_options ev = [] \<or> (ev_guild_id ev = WARHEAD_GUILD_ID \<and> ev_user_id ev \<noteq> OWNER_ID) \<or>
      (HasClient (ev_guild_id ev) (cs_bot s) \<and> ev_user_id ev \<noteq> OWNER_ID)")
    case True
    then have "s' = s \<or> s' = reply_with NotInThisGuild s \<or> s' = reply_with GuildHasAccount s"
      using run by (auto simp: account_create_def split: list.splits if_splits)
    then show ?thesis by (auto simp: reply_with_def)
  next
    case False
    with run obtain name rest where opts: "ev_options ev = name # rest" "rest \<noteq> []"
      by (auto simp: account_create_def split: list.splits)
    then obtain result am where
      c: "CreateAccount (ce_SHA1 env) (ce_salt env) name key (ev_guild_id ev) [] (cs_accounts s) = Inr (result, am)" and
      s': "s' = reply_with (if result \<noteq> AccOk then CreateFailed result else Created name key) (s\<lparr>cs_accounts := am\<rparr>)"
      using run False assms(4) by (auto simp: account_create_def Let_def split: list.splits)
    show ?thesis
    proof (cases "result = AccOk")
      case True
      let ?v = "nat_bytes 32 (7 ^ srp6_x (ce_SHA1 env) (registered name) (registered key) (ce_salt env) mod srp6_modulus)"
      have enters: "may_enter aenv auth (Some row) \<and> passes_gate aenv auth row"
        if "ae_SHA1 aenv = ce_SHA1 env" "\<not> ae_discordClosed aenv" "ar_Salt row = ce_salt env"
          "ar_Verifier row = ?v" "ar_bandate row = None" "ar_unbandate row = None" "map latin_upper (bytes_of (as_Account auth)) = map latin_upper name"
          "map latin_upper (bytes_of (as_Key auth)) = map latin_upper key" for aenv row auth
        using that assms(5,6) opts row_enters [of name key row aenv auth] may_enter_passes by simp
      have "am_database (cs_accounts s') = am_database (cs_accounts s) @
          [DISCORD_INS_ACCOUNT (registered name) (ce_salt env) ?v (ev_guild_id ev) (realm_or_default [])]"
        "cs_replies s' = cs_replies s @ [Created (hd (ev_options ev)) key]"
        using True c s' opts by (auto simp: CreateAccount_eq reply_with_def split: if_splits)
      moreover have "ev_user_id ev = OWNER_ID \<or> \<not> HasClient (ev_guild_id ev) (cs_bot s)" using False by blast
      ultimately show ?thesis using enters unfolding opts(1) list.sel by blast
    next
      case False
      then show ?thesis using c s' by (auto simp: CreateAccount_eq reply_with_def split: if_splits)
    qed
  qed
qed

theorem command_account_can_log_in_witness:
  "\<exists>s'. TryExecuteCommand (run_command \<lparr>ce_SHA1 = (\<lambda>_. [1]), ce_salt = [7], ce_key = Inr (bytes_of ''k3y'')\<rparr>)
       \<lparr>ev_guild_id = 5, ev_user_id = 8, ev_command = ''account-create'', ev_options = [bytes_of ''Bot'', bytes_of ''WarheadCore'']\<rparr>
       (projr (ConfigureCommands (\<lambda>_. []) no_commands))
       \<lparr>cs_bot = sample_bot, cs_accounts = no_accounts, cs_replies = []\<rparr> = Inr s' \<and>
     cs_replies s' = [Created (bytes_of ''Bot'') (bytes_of ''k3y'')] \<and> length (am_database (cs_accounts s')) = 1"
proof -
  let ?env = "\<lparr>ce_SHA1 = (\<lambda>_. [1]), ce_salt = [7], ce_key = Inr (bytes_of ''k3y'')\<rparr>"
  let ?ev = "\<lparr>ev_guild_id = 5, ev_user_id = 8, ev_command = ''account-create'', ev_options = [bytes_of ''Bot'', bytes_of ''WarheadCore'']\<rparr>"
  let ?s = "\<lparr>cs_bot = sample_bot, cs_accounts = no_accounts, cs_replies = []\<rparr>"
  obtain h where h: "ConfigureCommands (\<lambda>_. []) no_commands = Inr h" "um_find ''account-create'' (ch_commandInvoke h) = Some AccountCreate"
    using configured by blast
  have valid: "utf8_is_valid (bytes_of ''Bot'')" "utf8_is_valid (bytes_of ''k3y'')" by code_simp+
  have len: "fst (utf8length (bytes_of ''Bot'')) = 3" "fst (utf8length (bytes_of ''k3y'')) = 3" by code_simp+
  have "\<not> HasClient 5 sample_bot" by code_simp
  then obtain s' where s': "TryExecuteCommand (run_command ?env) ?ev h ?s = Inr s'"
      "cs_replies s' = [Created (bytes_of ''Bot'') (bytes_of ''k3y'')]"
    using h(2) len
    by (simp add: TryExecuteCommand_def account_create_def WARHEAD_GUILD_ID_def CreateAccount_eq MAX_ACCOUNT_STR_def
        MAX_PASS_STR_def am_GetID_def no_accounts_def reply_with_def)
  have "length (am_database (cs_accounts s')) = 1"
    using command_account_can_log_in [OF h(1) _ s'(1)] s'(2) valid by (auto simp: no_accounts_def)
  then show ?thesis using s' h(1) by auto
qed

end
