(* ===== verification/Statements.thy ===== *)
theory Statements
  imports Bot Convert
begin

text \<open>
  Prepared statements: \<open>PreparedStatement.cpp\<close>, \<open>MySQLPreparedStatement.cpp\<close> and the table of statements
  \<open>Implementation/DiscordDatabase.cpp\<close> of \<open>src/src/database/Database\<close>, with the calls of the server that use them.
  A buffer of the client library's \<open>MYSQL_BIND\<close> is a list of bytes; that buffers are freed once is not modelled. The texts
  of numbers that \<open>fmt\<close> prints are an argument.
\<close>

section \<open>Statements of the program\<close>

text \<open>The alternatives of the variant in \<open>PreparedStatementData\<close>; floating-point numbers are their bit patterns.\<close>

datatype stmt_data =
    SBool bool | SU8 uint8 | SU16 uint16 | SU32 uint32 | SU64 uint64
  | SI8 int8 | SI16 int16 | SI32 int32 | SI64 int64
  | SFloat uint32 | SDouble uint64 | SString "uint8 list" | SBinary "uint8 list" | SNull

record prepared_statement =
  ps_index :: nat
  ps_data :: "stmt_data list"

text \<open>The parameters start as the first alternative of the variant, \<open>false\<close>.\<close>

definition PreparedStatement_new :: "nat \<Rightarrow> uint8 \<Rightarrow> prepared_statement" where
  "PreparedStatement_new index capacity = \<lparr>ps_index = index, ps_data = replicate (unat capacity) (SBool False)\<rparr>"

definition SetValidData :: "uint8 \<Rightarrow> stmt_data \<Rightarrow> prepared_statement \<Rightarrow> prepared_statement res" where
  "SetValidData index value s =
     (if unat index < length (ps_data s) then Inr (s\<lparr>ps_data := (ps_data s)[unat index := value]\<rparr>)
      else Inl (AssertFailure ''index < statement_data.size()''))"

text \<open>\<open>SetDataTuple\<close>: the position is a byte.\<close>

fun SetDataTuple :: "uint8 \<Rightarrow> stmt_data list \<Rightarrow> prepared_statement \<Rightarrow> prepared_statement res" where
  "SetDataTuple index [] s = Inr s"
| "SetDataTuple index (a # args) s = bindr (SetValidData index a s) (SetDataTuple (index + 1) args)"

definition SetArguments :: "stmt_data list \<Rightarrow> prepared_statement \<Rightarrow> prepared_statement res" where
  "SetArguments args s = SetDataTuple 0 args s"

section \<open>Statements of a connection\<close>

datatype field_type =
    MYSQL_TYPE_DECIMAL | MYSQL_TYPE_TINY | MYSQL_TYPE_SHORT | MYSQL_TYPE_LONG | MYSQL_TYPE_LONGLONG | MYSQL_TYPE_FLOAT
  | MYSQL_TYPE_DOUBLE | MYSQL_TYPE_NULL | MYSQL_TYPE_VAR_STRING | MYSQL_TYPE_BLOB

record mysql_bind =
  bd_buffer_type :: field_type
  bd_buffer :: "uint8 list option"
  bd_buffer_length :: nat
  bd_is_null_value :: bool
  bd_length :: "nat option"
  bd_is_unsigned :: bool

definition bind_zero :: mysql_bind where
  "bind_zero = \<lparr>bd_buffer_type = MYSQL_TYPE_DECIMAL, bd_buffer = None, bd_buffer_length = 0, bd_is_null_value = False,
     bd_length = None, bd_is_unsigned = False\<rparr>"

record mysql_statement =
  ms_paramCount :: nat
  ms_paramsSet :: "bool list"
  ms_bind :: "mysql_bind list"
  ms_queryString :: "uint8 list"

definition MySQLPreparedStatement_new :: "nat \<Rightarrow> uint8 list \<Rightarrow> mysql_statement" where
  "MySQLPreparedStatement_new paramCount queryString =
     \<lparr>ms_paramCount = paramCount, ms_paramsSet = replicate paramCount False, ms_bind = replicate paramCount bind_zero,
      ms_queryString = queryString\<rparr>"

definition ClearParameters :: "mysql_statement \<Rightarrow> mysql_statement" where
  "ClearParameters m =
     m\<lparr>ms_bind := map (\<lambda>b. b\<lparr>bd_length := None, bd_buffer := None\<rparr>) (ms_bind m), ms_paramsSet := map (\<lambda>_. False) (ms_paramsSet m)\<rparr>"

text \<open>\<open>len\<close> is a \<open>uint32\<close> made of the size of the value.\<close>

definition len32 :: "uint8 list \<Rightarrow> nat" where
  "len32 v = length v mod 2 ^ 32"

definition bind_number :: "field_type \<Rightarrow> bool \<Rightarrow> uint8 list \<Rightarrow> mysql_bind \<Rightarrow> mysql_bind" where
  "bind_number ty uns bytes b =
     b\<lparr>bd_buffer_type := ty, bd_buffer := Some bytes, bd_buffer_length := 0, bd_is_null_value := False, bd_length := None,
       bd_is_unsigned := uns\<rparr>"

definition bind_bytes :: "field_type \<Rightarrow> uint8 list \<Rightarrow> mysql_bind \<Rightarrow> mysql_bind" where
  "bind_bytes ty v b =
     b\<lparr>bd_buffer_type := ty, bd_buffer := Some (take (len32 v) v), bd_buffer_length := len32 v, bd_is_null_value := False,
       bd_length := Some (len32 v)\<rparr>"

text \<open>What the overloads of \<open>SetParameter\<close> write; \<open>std::is_unsigned\<close> is false of floating-point types.\<close>

fun bind_data :: "endian \<Rightarrow> stmt_data \<Rightarrow> mysql_bind \<Rightarrow> mysql_bind" where
  "bind_data h (SBool v) = bind_number MYSQL_TYPE_TINY True (mem_bytes h (if v then 1 else 0 :: uint8))"
| "bind_data h (SU8 v) = bind_number MYSQL_TYPE_TINY True (mem_bytes h v)"
| "bind_data h (SU16 v) = bind_number MYSQL_TYPE_SHORT True (mem_bytes h v)"
| "bind_data h (SU32 v) = bind_number MYSQL_TYPE_LONG True (mem_bytes h v)"
| "bind_data h (SU64 v) = bind_number MYSQL_TYPE_LONGLONG True (mem_bytes h v)"
| "bind_data h (SI8 v) = bind_number MYSQL_TYPE_TINY False (mem_bytes h v)"
| "bind_data h (SI16 v) = bind_number MYSQL_TYPE_SHORT False (mem_bytes h v)"
| "bind_data h (SI32 v) = bind_number MYSQL_TYPE_LONG False (mem_bytes h v)"
| "bind_data h (SI64 v) = bind_number MYSQL_TYPE_LONGLONG False (mem_bytes h v)"
| "bind_data h (SFloat v) = bind_number MYSQL_TYPE_FLOAT False (mem_bytes h v)"
| "bind_data h (SDouble v) = bind_number MYSQL_TYPE_DOUBLE False (mem_bytes h v)"
| "bind_data h (SString v) = bind_bytes MYSQL_TYPE_VAR_STRING v"
| "bind_data h (SBinary v) = bind_bytes MYSQL_TYPE_BLOB v"
| "bind_data h SNull = (\<lambda>b. b\<lparr>bd_buffer_type := MYSQL_TYPE_NULL, bd_buffer := None, bd_buffer_length := 0, bd_is_null_value := True,
     bd_length := None\<rparr>)"

definition SetParameter :: "endian \<Rightarrow> uint8 \<Rightarrow> stmt_data \<Rightarrow> mysql_statement \<Rightarrow> mysql_statement res" where
  "SetParameter h index value m =
     (if unat index < ms_paramCount m
      then Inr (m\<lparr>ms_paramsSet := (ms_paramsSet m)[unat index := True],
        ms_bind := (ms_bind m)[unat index := bind_data h value (ms_bind m ! unat index)]\<rparr>)
      else Inl (AssertFailure ''index < m_paramCount''))"

fun bind_loop :: "endian \<Rightarrow> uint8 \<Rightarrow> stmt_data list \<Rightarrow> mysql_statement \<Rightarrow> mysql_statement res" where
  "bind_loop h pos [] m = Inr m"
| "bind_loop h pos (d # ds) m = bindr (SetParameter h pos d m) (bind_loop h (pos + 1) ds)"

definition BindParameters :: "endian \<Rightarrow> prepared_statement \<Rightarrow> mysql_statement \<Rightarrow> mysql_statement res" where
  "BindParameters h s m = bind_loop h 0 (ps_data s) m"

text \<open>
  \<open>getQueryString\<close> puts the texts of the parameters into the query, each for the next question mark; \<open>None\<close> is the
  exception \<open>std::out_of_range\<close> of \<open>replace\<close> when there is none. \<open>fmt\<close> is the text of a number.
\<close>

fun data_ToString :: "(stmt_data \<Rightarrow> uint8 list) \<Rightarrow> stmt_data \<Rightarrow> uint8 list" where
  "data_ToString fmt (SBinary v) = bytes_of ''BINARY''"
| "data_ToString fmt SNull = bytes_of ''NULL''"
| "data_ToString fmt (SString v) = v"
| "data_ToString fmt d = fmt d"

definition question_mark :: uint8 where "question_mark = byte_of_char CHR ''?''"

fun query_string_loop :: "(stmt_data \<Rightarrow> uint8 list) \<Rightarrow> stmt_data list \<Rightarrow> nat \<Rightarrow> uint8 list \<Rightarrow> uint8 list option" where
  "query_string_loop fmt [] pos q = Some q"
| "query_string_loop fmt (d # ds) pos q =
     (case find_from question_mark q pos of
        None \<Rightarrow> None
      | Some p \<Rightarrow> (let r = data_ToString fmt d
                  in query_string_loop fmt ds (p + length r) (take p q @ r @ drop (p + 1) q)))"

definition getQueryString :: "(stmt_data \<Rightarrow> uint8 list) \<Rightarrow> prepared_statement \<Rightarrow> mysql_statement \<Rightarrow> uint8 list option" where
  "getQueryString fmt s m = query_string_loop fmt (ps_data s) 0 (ms_queryString m)"

section \<open>The table of statements\<close>

definition CONNECTION_ASYNC :: uint32 where "CONNECTION_ASYNC = 1"
definition CONNECTION_SYNCH :: uint32 where "CONNECTION_SYNCH = 2"

datatype DiscordDatabaseStatements =
    Sel_Account_Info_By_Name | Ins_Account | Sel_Ip_Info | Sel_Account_Id_By_Username | Sel_Accounts | Upd_Logon
  | Del_Ban_Account | Del_Ban_Ip | Ins_Account_Ban | Ins_Ip_Ban | Upd_Account_Ban_Expired | Upd_Ip_Ban_Expired | Ins_Client

fun statement_index :: "DiscordDatabaseStatements \<Rightarrow> nat" where
  "statement_index Sel_Account_Info_By_Name = 0"
| "statement_index Ins_Account = 1"
| "statement_index Sel_Ip_Info = 2"
| "statement_index Sel_Account_Id_By_Username = 3"
| "statement_index Sel_Accounts = 4"
| "statement_index Upd_Logon = 5"
| "statement_index Del_Ban_Account = 6"
| "statement_index Del_Ban_Ip = 7"
| "statement_index Ins_Account_Ban = 8"
| "statement_index Ins_Ip_Ban = 9"
| "statement_index Upd_Account_Ban_Expired = 10"
| "statement_index Upd_Ip_Ban_Expired = 11"
| "statement_index Ins_Client = 12"

definition MAX_DISCORD_DATABASE_STATEMENTS :: nat where "MAX_DISCORD_DATABASE_STATEMENTS = 13"

text \<open>The calls of \<open>PrepareStatement\<close> in \<open>DoPrepareStatements\<close>, in their order.\<close>

definition discord_statements :: "(DiscordDatabaseStatements \<times> string \<times> uint32) list" where
  "discord_statements =
    [(Sel_Account_Info_By_Name, ''SELECT `a`.`ID`, `a`.`Salt`, `a`.`Verifier`, `a`.`GuildID`, `a`.`RealmName`, `a`.`LastIP`, `a`.`CoreName`, `a`.`ModuleVersion`, `ab`.`bandate`, `ab`.`unbandate` FROM `account` a LEFT JOIN `account_banned` ab ON `a`.`id` = `ab`.`id` AND `ab`.`active` = 1 WHERE `a`.`Name` = ? LIMIT 1'', CONNECTION_ASYNC),
     (Ins_Account, ''INSERT INTO account (`Name`, `Salt`, `Verifier`, `GuildID`, `RealmName`, `JoinDate`) VALUES (?, ?, ?, ?, ?, NOW())'', CONNECTION_ASYNC),
     (Sel_Ip_Info, ''SELECT unbandate > UNIX_TIMESTAMP() OR unbandate = bandate, unbandate = bandate FROM ip_banned WHERE ip = ?'', CONNECTION_ASYNC),
     (Sel_Account_Id_By_Username, ''SELECT `ID` FROM `account` WHERE `Name` = ?'', CONNECTION_ASYNC),
     (Sel_Accounts, ''SELECT `ID`, `Name`, `GuildID`, `RealmName` FROM account'', CONNECTION_SYNCH),
     (Upd_Logon, ''UPDATE `account` SET `Salt` = ?, `Verifier` = ? WHERE `ID` = ?'', CONNECTION_ASYNC),
     (Del_Ban_Account, ''DELETE FROM `account_banned` WHERE `id` = ?'', CONNECTION_ASYNC),
     (Del_Ban_Ip, ''DELETE FROM `ip_banned` WHERE `ip` = ?'', CONNECTION_ASYNC),
     (Ins_Account_Ban, ''INSERT INTO `account_banned` (`id`, `bandate`, `unbandate`, `bannedby`, `banreason`, `active`) VALUES (?, UNIX_TIMESTAMP(), UNIX_TIMESTAMP() + ?, ?, ?, 1)'', CONNECTION_ASYNC),
     (Ins_Ip_Ban, ''INSERT INTO `ip_banned` (`ip`, `bandate`, `unbandate`, `bannedby`, `banreason`, `active`) VALUES (?, UNIX_TIMESTAMP(), UNIX_TIMESTAMP() + ?, ?, ?, 1)'', CONNECTION_ASYNC),
     (Upd_Account_Ban_Expired, ''UPDATE `account_banned` SET `active` = 0 WHERE `unbandate` <= UNIX_TIMESTAMP() AND `unbandate` <> `bandate`'', CONNECTION_ASYNC),
     (Upd_Account_Ban_Expired, ''UPDATE `ip_banned` SET `active` = 0 WHERE `unbandate` <= UNIX_TIMESTAMP() AND `unbandate` <> `bandate`'', CONNECTION_ASYNC),
     (Ins_Client, ''INSERT INTO `clients` (`GuildID`, `GuildName`, `MembersCount`, `InviteDate`, `AddedAtStartup`) VALUES (?, ?, ?, FROM_UNIXTIME(?), ?)'', CONNECTION_ASYNC)]"

section \<open>The statements the server runs\<close>

text \<open>
  The statement, the arguments and the kind of connection of each call: the statements recorded by \<open>AccountMgr\<close>, \<open>BanMgr\<close>
  and \<open>DiscordBot\<close> and the queries of the managers and of \<open>DiscordSocket\<close>.
\<close>

datatype server_statement =
    ExecuteDb db_statement
  | ExecuteInsertClient int64 string uint32 int bool
  | QueryIpInfo "uint8 list"
  | QueryAccountInfo "uint8 list"
  | QueryAccountId "uint8 list"
  | QueryAccounts

text \<open>
  \<open>SetData\<close> for a duration: the count is cut to \<open>uint32\<close>, but the conditional expression has the common type of its two arms, which
  is \<open>int64\<close>, so that this is what is stored and bound.
\<close>

definition duration_data :: "int \<Rightarrow> int64" where
  "duration_data duration = ucast (word_of_int duration :: uint32)"

fun db_statement_args :: "db_statement \<Rightarrow> DiscordDatabaseStatements \<times> stmt_data list" where
  "db_statement_args (DISCORD_INS_ACCOUNT username salt verifier guildID realmName) =
     (Ins_Account, [SString username, SBinary salt, SBinary verifier, SI64 guildID, SString realmName])"
| "db_statement_args (DISCORD_UPD_LOGON salt verifier accountID) = (Upd_Logon, [SBinary salt, SBinary verifier, SU32 accountID])"
| "db_statement_args DISCORD_UPD_ACCOUNT_BAN_EXPIRED = (Upd_Account_Ban_Expired, [])"
| "db_statement_args DISCORD_UPD_IP_BAN_EXPIRED = (Upd_Ip_Ban_Expired, [])"
| "db_statement_args (DISCORD_INS_ACCOUNT_BAN accountID duration author reason) =
     (Ins_Account_Ban, [SU32 accountID, SI64 (duration_data duration), SString author, SString reason])"
| "db_statement_args (DISCORD_INS_IP_BAN ip duration author reason) =
     (Ins_Ip_Ban, [SString ip, SI64 (duration_data duration), SString author, SString reason])"
| "db_statement_args (DISCORD_DEL_BAN_ACCOUNT accountID) = (Del_Ban_Account, [SU32 accountID])"
| "db_statement_args (DISCORD_DEL_BAN_IP ip) = (Del_Ban_Ip, [SString ip])"

fun statement_call :: "server_statement \<Rightarrow> DiscordDatabaseStatements \<times> stmt_data list \<times> uint32" where
  "statement_call (ExecuteDb d) = (let (st, args) = db_statement_args d in (st, args, CONNECTION_ASYNC))"
| "statement_call (ExecuteInsertClient guildID guildName membersCount inviteDate atStartup) =
     (Ins_Client, [SI64 guildID, SString (bytes_of guildName), SU32 membersCount, SI64 (word_of_int inviteDate),
        SI32 (if atStartup then 1 else 0)], CONNECTION_ASYNC)"
| "statement_call (QueryIpInfo ip) = (Sel_Ip_Info, [SString ip], CONNECTION_ASYNC)"
| "statement_call (QueryAccountInfo name) = (Sel_Account_Info_By_Name, [SString name], CONNECTION_ASYNC)"
| "statement_call (QueryAccountId name) = (Sel_Account_Id_By_Username, [SString name], CONNECTION_ASYNC)"
| "statement_call QueryAccounts = (Sel_Accounts, [], CONNECTION_SYNCH)"

section \<open>What the server receives\<close>

text \<open>
  A specification of the client library's reading of a parameter: numbers of the width of their type, signed unless the
  flag says otherwise, and \<open>*length\<close> bytes of a text or a blob.
\<close>

definition bind_value :: "endian \<Rightarrow> mysql_bind \<Rightarrow> stmt_data option" where
  "bind_value h b =
     (if bd_is_null_value b then Some SNull
      else case bd_buffer b of
        None \<Rightarrow> None
      | Some bs \<Rightarrow>
         (case bd_buffer_type b of
            MYSQL_TYPE_TINY \<Rightarrow> if length bs = 1 then Some (if bd_is_unsigned b then SU8 (mem_value h bs) else SI8 (mem_value h bs)) else None
          | MYSQL_TYPE_SHORT \<Rightarrow> if length bs = 2 then Some (if bd_is_unsigned b then SU16 (mem_value h bs) else SI16 (mem_value h bs)) else None
          | MYSQL_TYPE_LONG \<Rightarrow> if length bs = 4 then Some (if bd_is_unsigned b then SU32 (mem_value h bs) else SI32 (mem_value h bs)) else None
          | MYSQL_TYPE_LONGLONG \<Rightarrow> if length bs = 8 then Some (if bd_is_unsigned b then SU64 (mem_value h bs) else SI64 (mem_value h bs)) else None
          | MYSQL_TYPE_FLOAT \<Rightarrow> if length bs = 4 then Some (SFloat (mem_value h bs)) else None
          | MYSQL_TYPE_DOUBLE \<Rightarrow> if length bs = 8 then Some (SDouble (mem_value h bs)) else None
          | MYSQL_TYPE_VAR_STRING \<Rightarrow> (case bd_length b of Some n \<Rightarrow> if n \<le> length bs then Some (SString (take n bs)) else None | None \<Rightarrow> None)
          | MYSQL_TYPE_BLOB \<Rightarrow> (case bd_length b of Some n \<Rightarrow> if n \<le> length bs then Some (SBinary (take n bs)) else None | None \<Rightarrow> None)
          | _ \<Rightarrow> None))"

text \<open>A boolean is sent as a byte.\<close>

fun sent_data :: "stmt_data \<Rightarrow> stmt_data" where
  "sent_data (SBool v) = SU8 (if v then 1 else 0)"
| "sent_data d = d"

fun data_fits :: "stmt_data \<Rightarrow> bool" where
  "data_fits (SString v) = (length v < 2 ^ 32)"
| "data_fits (SBinary v) = (length v < 2 ^ 32)"
| "data_fits d = True"

lemma bind_data_value: "data_fits d \<Longrightarrow> bind_value h (bind_data h d b) = Some (sent_data d)"
  by (cases d) (auto simp: bind_value_def bind_number_def bind_bytes_def len32_def)

section \<open>Setting and binding all parameters\<close>

lemma unat_suc8: "n < 255 \<Longrightarrow> (word_of_nat n + 1 :: uint8) = word_of_nat (Suc n)"
  by (simp add: add.commute)

lemma unat_word8 [simp]: "n < 256 \<Longrightarrow> unat (word_of_nat n :: uint8) = n"
  by (simp add: unat_of_nat take_bit_eq_mod)

lemma SetDataTuple_eq:
  assumes "n + length args \<le> 255"
  shows "SetDataTuple (word_of_nat n) args s =
    (if args = [] \<or> n + length args \<le> length (ps_data s)
     then Inr (s\<lparr>ps_data := take n (ps_data s) @ args @ drop (n + length args) (ps_data s)\<rparr>)
     else Inl (AssertFailure ''index < statement_data.size()''))"
  using assms
proof (induction args arbitrary: n s)
  case (Cons a args)
  show ?case
  proof (cases "n < length (ps_data s)")
    case True
    then show ?thesis using Cons.prems Cons.IH [of "Suc n" "s\<lparr>ps_data := (ps_data s)[n := a]\<rparr>"]
      by (auto simp: SetValidData_def unat_suc8 upd_conv_take_nth_drop min_def take_Suc_conv_app_nth add.commute)
  next
    case False
    then show ?thesis using Cons.prems by (simp add: SetValidData_def)
  qed
qed simp

lemma SetArguments_eq:
  assumes "length args \<le> 255"
  shows "SetArguments args s =
    (if length args \<le> length (ps_data s) then Inr (s\<lparr>ps_data := args @ drop (length args) (ps_data s)\<rparr>)
     else Inl (AssertFailure ''index < statement_data.size()''))"
  using SetDataTuple_eq [of 0 args s] assms by (simp add: SetArguments_def)

definition ms_ok :: "mysql_statement \<Rightarrow> bool" where
  "ms_ok m \<longleftrightarrow> length (ms_bind m) = ms_paramCount m \<and> length (ms_paramsSet m) = ms_paramCount m"

lemma ms_ok_ops [simp]:
  "ms_ok (MySQLPreparedStatement_new n q)"
  "ms_ok m \<Longrightarrow> ms_ok (ClearParameters m)"
  "ms_ok m \<Longrightarrow> SetParameter h i d m = Inr m' \<Longrightarrow> ms_ok m'"
  by (auto simp: ms_ok_def MySQLPreparedStatement_new_def ClearParameters_def SetParameter_def split: if_splits)

lemma bind_loop_eq:
  assumes "n + length ds \<le> 255" "ms_ok m"
  shows "bind_loop h (word_of_nat n) ds m =
    (if ds = [] \<or> n + length ds \<le> ms_paramCount m
     then Inr (m\<lparr>ms_paramsSet := take n (ms_paramsSet m) @ map (\<lambda>_. True) ds @ drop (n + length ds) (ms_paramsSet m),
        ms_bind := take n (ms_bind m) @ map2 (bind_data h) ds (drop n (ms_bind m)) @ drop (n + length ds) (ms_bind m)\<rparr>)
     else Inl (AssertFailure ''index < m_paramCount''))"
  using assms
proof (induction ds arbitrary: n m)
  case (Cons d ds)
  show ?case
  proof (cases "n < ms_paramCount m")
    case True
    define m1 where "m1 = m\<lparr>ms_paramsSet := (ms_paramsSet m)[n := True], ms_bind := (ms_bind m)[n := bind_data h d (ms_bind m ! n)]\<rparr>"
    have set: "SetParameter h (word_of_nat n) d m = Inr m1"
      using True Cons.prems by (simp add: SetParameter_def m1_def)
    have d1: "drop n (ms_bind m) = ms_bind m ! n # drop (Suc n) (ms_bind m)" "take (Suc n) (ms_bind m1) = take n (ms_bind m) @ [bind_data h d (ms_bind m ! n)]"
      "take (Suc n) (ms_paramsSet m1) = take n (ms_paramsSet m) @ [True]"
      using True Cons.prems by (simp_all add: ms_ok_def m1_def Cons_nth_drop_Suc take_Suc_conv_app_nth)
    have d2: "drop k (ms_bind m1) = drop k (ms_bind m)" "drop k (ms_paramsSet m1) = drop k (ms_paramsSet m)" if "n < k" for k
      using that by (simp_all add: m1_def)
    have "ms_ok m1" "ms_paramCount m1 = ms_paramCount m" using Cons.prems by (simp_all add: ms_ok_def m1_def)
    then show ?thesis using Cons.prems Cons.IH [of "Suc n" m1] True
      by (auto simp: set unat_suc8 d1 d2) (simp_all add: m1_def)
  next
    case False
    then show ?thesis using Cons.prems by (simp add: SetParameter_def)
  qed
qed simp

lemma BindParameters_eq:
  assumes "length (ps_data s) \<le> 255" "ms_ok m"
  shows "BindParameters h s m =
    (if length (ps_data s) \<le> ms_paramCount m
     then Inr (m\<lparr>ms_paramsSet := map (\<lambda>_. True) (ps_data s) @ drop (length (ps_data s)) (ms_paramsSet m),
        ms_bind := map2 (bind_data h) (ps_data s) (ms_bind m) @ drop (length (ps_data s)) (ms_bind m)\<rparr>)
     else Inl (AssertFailure ''index < m_paramCount''))"
  using bind_loop_eq [of 0 "ps_data s" m h] assms by (auto simp: BindParameters_def)

text \<open>
  C14. Parameters survive the way to the database: a statement made for \<open>n\<close> parameters takes at most \<open>n\<close> arguments, and
  binding it to a connection's statement with \<open>n\<close> parameters succeeds, whatever was bound before; the client library then reads
  the arguments in order, and zero for each that was not given.
\<close>

theorem parameters_roundtrip:
  assumes "ms_ok m" "ms_paramCount m = n" "n < 256" "length args \<le> 255" "list_all data_fits args"
  shows "(if length args \<le> n then
      \<exists>s m'. SetArguments args (PreparedStatement_new i (word_of_nat n)) = Inr s \<and> BindParameters h s m = Inr m' \<and> ms_ok m' \<and>
        map (bind_value h) (ms_bind m') = map (Some \<circ> sent_data) args @ replicate (n - length args) (Some (SU8 0)) \<and>
        list_all id (ms_paramsSet m') \<and> \<not> list_ex id (ms_paramsSet (ClearParameters m'))
    else SetArguments args (PreparedStatement_new i (word_of_nat n)) = Inl (AssertFailure ''index < statement_data.size()''))"
proof (cases "length args \<le> n")
  case True
  define ds where "ds = args @ replicate (n - length args) (SBool False)"
  have set: "SetArguments args (PreparedStatement_new i (word_of_nat n)) = Inr \<lparr>ps_index = i, ps_data = ds\<rparr>"
    using True assms by (simp add: SetArguments_eq PreparedStatement_new_def ds_def)
  have l: "length ds = n" "length (ms_bind m) = n" using True assms by (simp_all add: ds_def ms_ok_def)
  have fits: "\<forall>d \<in> set ds. data_fits d" using assms(5) by (auto simp: ds_def list_all_iff)
  let ?m = "m\<lparr>ms_paramsSet := map (\<lambda>_. True) ds, ms_bind := map2 (bind_data h) ds (ms_bind m)\<rparr>"
  have bind: "BindParameters h \<lparr>ps_index = i, ps_data = ds\<rparr> m = Inr ?m"
    using l assms by (simp add: BindParameters_eq ms_ok_def)
  have "map (bind_value h) (map2 (bind_data h) ds bs) = map (Some \<circ> sent_data) ds" if "length bs = length ds" for bs
    using that fits by (auto simp: list_eq_iff_nth_eq bind_data_value)
  then have "map (bind_value h) (ms_bind ?m) = map (Some \<circ> sent_data) args @ replicate (n - length args) (Some (SU8 0))"
    using l by (simp add: ds_def)
  moreover have "ms_ok ?m" using l assms by (simp add: ms_ok_def)
  ultimately show ?thesis using True set bind by (auto simp: list_all_iff list_ex_iff ClearParameters_def)
qed (use assms in \<open>simp add: SetArguments_eq PreparedStatement_new_def\<close>)

theorem parameters_roundtrip_witness:
  "\<exists>s m'. SetArguments [SString [104, 105], SI32 (- 2)] (PreparedStatement_new 3 (word_of_nat 3)) = Inr s \<and>
    BindParameters WARHEAD_LITTLEENDIAN s (MySQLPreparedStatement_new 3 []) = Inr m' \<and>
    map (bind_value WARHEAD_LITTLEENDIAN) (ms_bind m') = [Some (SString [104, 105]), Some (SI32 (- 2)), Some (SU8 0)]"
  using parameters_roundtrip [of "MySQLPreparedStatement_new 3 []" 3 "[SString [104, 105], SI32 (- 2)]" 3 WARHEAD_LITTLEENDIAN]
  by (auto simp: MySQLPreparedStatement_new_def ms_ok_def)

section \<open>The text of a statement\<close>

text \<open>What \<open>getQueryString\<close> should give: the question marks replaced in order, the rest left as it is.\<close>

fun fill_marks :: "uint8 list \<Rightarrow> uint8 list list \<Rightarrow> uint8 list option" where
  "fill_marks q [] = Some q"
| "fill_marks [] (t # ts) = None"
| "fill_marks (c # q) (t # ts) =
     (if c = question_mark then map_option ((@) t) (fill_marks q ts) else map_option ((#) c) (fill_marks q (t # ts)))"

lemma map_option_append_Nil [simp]: "map_option ((@) []) x = x"
  by (cases x) auto

lemma fill_marks_prefix: "question_mark \<notin> set p \<Longrightarrow> fill_marks (p @ q) ts = map_option ((@) p) (fill_marks q ts)"
proof (induction p)
  case (Cons c p)
  then show ?case by (cases ts) (auto simp: option.map_comp o_def)
qed simp

lemma fill_marks_none: "question_mark \<notin> set q \<Longrightarrow> fill_marks q (t # ts) = None"
  by (induction q) auto

lemma query_string_loop_eq:
  "query_string_loop fmt ds (length done) (done @ q) = map_option ((@) done) (fill_marks q (map (data_ToString fmt) ds))"
proof (induction ds arbitrary: "done" q)
  case (Cons d ds)
  let ?p = "takeWhile (\<lambda>c. c \<noteq> question_mark) q" and ?r = "data_ToString fmt d"
  show ?case
  proof (cases "question_mark \<in> set q")
    case True
    then obtain q' where q: "q = ?p @ question_mark # q'"
      by (metis (mono_tags, lifting) dropWhile_eq_Nil_conv hd_Cons_tl hd_dropWhile takeWhile_dropWhile_id)
    have p: "question_mark \<notin> set ?p" using set_takeWhileD by fastforce
    have "find_from question_mark (done @ q) (length done) = Some (length done + length ?p)"
    proof -
      have "length q = length ?p + Suc (length q')" using arg_cong [OF q, of length] by simp
      then show ?thesis by (simp add: find_from_def Let_def)
    qed
    moreover have "take (length done + length ?p) (done @ q) = done @ ?p" "drop (length done + length ?p + 1) (done @ q) = q'"
      by (subst q, simp)+
    moreover have "fill_marks q (?r # map (data_ToString fmt) ds) = map_option (\<lambda>x. ?p @ ?r @ x) (fill_marks q' (map (data_ToString fmt) ds))"
      by (subst q) (simp add: fill_marks_prefix [OF p] option.map_comp o_def)
    ultimately show ?thesis using Cons.IH [of "done @ ?p @ ?r" q']
      by (simp add: Let_def option.map_comp o_def add.assoc)
  next
    case False
    then have "length (takeWhile (\<lambda>c. c \<noteq> question_mark) q) = length q" by (metis (mono_tags, lifting) takeWhile_eq_all_conv)
    then have "find_from question_mark (done @ q) (length done) = None" by (simp add: find_from_def Let_def)
    then show ?thesis using False by (simp add: fill_marks_none)
  qed
qed simp

text \<open>
  The text of a statement is its query with the question marks replaced by the texts of the parameters, in order and whatever
  these contain; it exists when there is a mark for each parameter.
\<close>

theorem query_text:
  "getQueryString fmt s m = fill_marks (ms_queryString m) (map (data_ToString fmt) (ps_data s)) \<and>
   (getQueryString fmt s m = None \<longleftrightarrow> count_list (ms_queryString m) question_mark < length (ps_data s))"
proof -
  have "fill_marks q ts = None \<longleftrightarrow> count_list q question_mark < length ts" for q ts
    by (induction q ts rule: fill_marks.induct) auto
  then show ?thesis using query_string_loop_eq [of fmt "ps_data s" "[]" "ms_queryString m"]
    by (simp add: getQueryString_def)
qed

section \<open>Statements and their calls\<close>

definition marks :: "string \<Rightarrow> nat" where
  "marks sql = count_list sql CHR ''?''"

lemma discord_statements_marks:
  "map (\<lambda>(st, sql, flags). (statement_index st, marks sql, flags)) discord_statements =
     [(0, 1, 1), (1, 5, 1), (2, 1, 1), (3, 1, 1), (4, 0, 2), (5, 3, 1), (6, 1, 1), (7, 1, 1), (8, 4, 1), (9, 4, 1),
      (10, 0, 1), (10, 0, 1), (12, 5, 1)]"
  by (simp add: discord_statements_def marks_def CONNECTION_ASYNC_def CONNECTION_SYNCH_def)
end
