(* ===== verification/TimeText.thy ===== *)
theory TimeText
  imports Convert
begin

text \<open>
  Times as text and the timers: \<open>Timer.h\<close> and \<open>Timer.cpp\<close> of \<open>src/src/common/Utilities\<close>. A duration
  is the number of its microseconds, a \<open>time_t\<close> an integer; the 32-bit timers are words. The calendar
  functions, which call the C library, are left out.
\<close>

section \<open>ToTimeString\<close>

datatype TimeFormat = FullText | ShortText | Numeric

definition TimeDiff_MILLISECONDS :: uint64 where "TimeDiff_MILLISECONDS = 1000"
definition TimeDiff_SECONDS :: uint64 where "TimeDiff_SECONDS = 1000 * TimeDiff_MILLISECONDS"
definition TimeDiff_MINUTES :: uint64 where "TimeDiff_MINUTES = 60 * TimeDiff_SECONDS"
definition TimeDiff_HOURS :: uint64 where "TimeDiff_HOURS = 60 * TimeDiff_MINUTES"
definition TimeDiff_DAYS :: uint64 where "TimeDiff_DAYS = 24 * TimeDiff_HOURS"
definition TimeDiff_YEARS :: uint64 where "TimeDiff_YEARS = 365 * TimeDiff_DAYS"

lemmas TimeDiff_defs = TimeDiff_MILLISECONDS_def TimeDiff_SECONDS_def TimeDiff_MINUTES_def TimeDiff_HOURS_def
  TimeDiff_DAYS_def TimeDiff_YEARS_def

text \<open>The seven units, from years to microseconds. The remainder by 1000 is taken on the signed count;
  in the quotients the count is converted to unsigned.\<close>

definition time_units :: "int \<Rightarrow> uint64 list" where
  "time_units count =
     (let u = (word_of_int count :: uint64);
          microsecs = word_of_int (if count < 0 then - ((- count) mod 1000) else count mod 1000)
      in [u div TimeDiff_YEARS, u div TimeDiff_DAYS mod 365, u div TimeDiff_HOURS mod 24, u div TimeDiff_MINUTES mod 60,
          u div TimeDiff_SECONDS mod 60, u div TimeDiff_MILLISECONDS mod 1000, microsecs])"

definition format_02 :: "uint64 \<Rightarrow> uint8 list" where
  "format_02 t = (if unat t < 10 then 0x30 # dec_digits (unat t) else dec_digits (unat t))"

text \<open>The lambda \<open>AddOutNumerlic\<close> on (\<open>isFirst\<close>, \<open>out\<close>, \<open>count\<close>), called for units that are not 0.\<close>

definition AddOutNumerlic :: "nat \<Rightarrow> uint64 \<Rightarrow> bool \<times> uint8 list \<times> nat \<Rightarrow> bool \<times> uint8 list \<times> nat" where
  "AddOutNumerlic outCount t = (\<lambda>(isFirst, out, count).
     if count \<ge> outCount then (isFirst, out, count)
     else if \<not> isFirst then (True, out @ dec_digits (unat t) @ bytes_of '':'', count + 1)
     else (isFirst, out @ format_02 t @ bytes_of '':'', count + 1))"

definition numeric_time :: "nat \<Rightarrow> uint64 list \<Rightarrow> uint8 list" where
  "numeric_time outCount units =
     (let (_, out, _) = foldl (\<lambda>st t. if t \<noteq> 0 then AddOutNumerlic outCount t st else st) (False, [], 0) units
      in if out \<noteq> [] then butlast out else out)"

text \<open>The lambda \<open>AddOut\<close>; the count of a unit is cut to 32 bits.\<close>

definition AddOut ::
  "TimeFormat \<Rightarrow> nat \<Rightarrow> uint32 \<Rightarrow> string \<times> string \<times> string \<Rightarrow> uint8 list \<times> nat \<Rightarrow> (uint8 list \<times> nat) res" where
  "AddOut timeFormat outCount timeCount = (\<lambda>(shortText, fullText1, fullText) (out, count).
     if count \<ge> outCount then Inr (out, count)
     else
       bindr (ToString_int (uint timeCount)) (\<lambda>s.
         Inr (out @ s @ bytes_of
           (case timeFormat of
              ShortText \<Rightarrow> shortText
            | FullText \<Rightarrow> if timeCount = 1 then fullText1 else fullText
            | _ \<Rightarrow> ''<Unknown time format>''), count + 1)))"

definition unit_texts :: "(string \<times> string \<times> string) list" where
  "unit_texts =
     [(''y '', '' Year '', '' Years ''), (''d '', '' Day '', '' Days ''), (''h '', '' Hour '', '' Hours ''),
      (''m '', '' Minute '', '' Minutes ''), (''s '', '' Second '', '' Seconds ''),
      (''ms '', '' Millisecond '', '' Milliseconds ''), (''us '', '' Microsecond '', '' Microseconds '')]"

fun add_units ::
  "TimeFormat \<Rightarrow> nat \<Rightarrow> (uint64 \<times> string \<times> string \<times> string) list \<Rightarrow> uint8 list \<times> nat \<Rightarrow> (uint8 list \<times> nat) res" where
  "add_units timeFormat outCount [] st = Inr st"
| "add_units timeFormat outCount ((t, txts) # us) st =
     (if t \<noteq> 0 then bindr (AddOut timeFormat outCount (ucast t) txts st) (add_units timeFormat outCount us)
      else add_units timeFormat outCount us st)"

definition ToTimeString :: "int \<Rightarrow> nat \<Rightarrow> TimeFormat \<Rightarrow> uint8 list res" where
  "ToTimeString durationTime outCount timeFormat =
     (if timeFormat = Numeric then Inr (numeric_time outCount (time_units durationTime))
      else bindr (add_units timeFormat outCount (zip (time_units durationTime) unit_texts) ([], 0)) (\<lambda>(out, _).
        Inr (TrimRightInPlace out)))"

section \<open>Differences of the millisecond counter\<close>

definition GetMSTimeDiff :: "int \<Rightarrow> int \<Rightarrow> int" where
  "GetMSTimeDiff oldMSTime newMSTime =
     (if oldMSTime > newMSTime then oldMSTime - newMSTime else newMSTime - oldMSTime)"

definition getMSTimeDiff :: "uint32 \<Rightarrow> uint32 \<Rightarrow> uint32" where
  "getMSTimeDiff oldMSTime newMSTime =
     (if oldMSTime > newMSTime then (0xFFFFFFFF - oldMSTime) + newMSTime else newMSTime - oldMSTime)"

section \<open>Timers\<close>

record IntervalTimer =
  itm_interval :: int
  itm_current :: int

definition IntervalTimer_new :: IntervalTimer where
  "IntervalTimer_new = \<lparr>itm_interval = 0, itm_current = 0\<rparr>"

definition itm_Update :: "int \<Rightarrow> IntervalTimer \<Rightarrow> IntervalTimer" where
  "itm_Update diff t = (let c = itm_current t + diff in t\<lparr>itm_current := if c < 0 then 0 else c\<rparr>)"

definition itm_Passed :: "IntervalTimer \<Rightarrow> bool" where
  "itm_Passed t \<longleftrightarrow> itm_current t \<ge> itm_interval t"

text \<open>The remainder by an interval of 0 is undefined.\<close>

definition itm_Reset :: "IntervalTimer \<Rightarrow> IntervalTimer res" where
  "itm_Reset t =
     (if itm_current t \<ge> itm_interval t then
        guard_or (itm_interval t \<noteq> 0) (UndefinedAccess ''_current %= _interval'')
          (Inr (t\<lparr>itm_current := itm_current t mod itm_interval t\<rparr>))
      else Inr t)"

definition itm_SetCurrent :: "int \<Rightarrow> IntervalTimer \<Rightarrow> IntervalTimer" where
  "itm_SetCurrent c t = t\<lparr>itm_current := c\<rparr>"

definition itm_SetInterval :: "int \<Rightarrow> IntervalTimer \<Rightarrow> IntervalTimer" where
  "itm_SetInterval i t = t\<lparr>itm_interval := i\<rparr>"

record TimeTracker =
  tt_expiryTime :: int

definition tt_Update :: "int \<Rightarrow> TimeTracker \<Rightarrow> TimeTracker" where
  "tt_Update diff t = t\<lparr>tt_expiryTime := tt_expiryTime t - diff\<rparr>"

definition tt_Passed :: "TimeTracker \<Rightarrow> bool" where
  "tt_Passed t \<longleftrightarrow> tt_expiryTime t \<le> 0"

definition tt_Reset :: "int \<Rightarrow> TimeTracker \<Rightarrow> TimeTracker" where
  "tt_Reset interval t = t\<lparr>tt_expiryTime := interval\<rparr>"

record TimeTrackerSmall =
  ts_expiryTime :: uint32

definition tts_Update :: "uint32 \<Rightarrow> TimeTrackerSmall \<Rightarrow> TimeTrackerSmall" where
  "tts_Update diff t = t\<lparr>ts_expiryTime := ts_expiryTime t - diff\<rparr>"

definition tts_Passed :: "TimeTrackerSmall \<Rightarrow> bool" where
  "tts_Passed t \<longleftrightarrow> sint (ts_expiryTime t) \<le> 0"

definition tts_Reset :: "uint32 \<Rightarrow> TimeTrackerSmall \<Rightarrow> TimeTrackerSmall" where
  "tts_Reset interval t = t\<lparr>ts_expiryTime := interval\<rparr>"

record PeriodicTimer =
  pt_period :: uint32
  pt_expireTime :: uint32

definition pt_Update :: "uint32 \<Rightarrow> PeriodicTimer \<Rightarrow> bool \<times> PeriodicTimer" where
  "pt_Update diff t =
     (let e = pt_expireTime t - diff in
      if sint e > 0 then (False, t\<lparr>pt_expireTime := e\<rparr>)
      else (True, t\<lparr>pt_expireTime := e + (if sint (pt_period t) > sint diff then pt_period t else diff)\<rparr>))"

definition pt_SetPeriodic :: "uint32 \<Rightarrow> uint32 \<Rightarrow> PeriodicTimer \<Rightarrow> PeriodicTimer" where
  "pt_SetPeriodic period start_time t = t\<lparr>pt_expireTime := start_time, pt_period := period\<rparr>"

definition pt_TUpdate :: "uint32 \<Rightarrow> PeriodicTimer \<Rightarrow> PeriodicTimer" where
  "pt_TUpdate diff t = t\<lparr>pt_expireTime := pt_expireTime t - diff\<rparr>"

definition pt_TPassed :: "PeriodicTimer \<Rightarrow> bool" where
  "pt_TPassed t \<longleftrightarrow> sint (pt_expireTime t) \<le> 0"

definition pt_TReset :: "uint32 \<Rightarrow> uint32 \<Rightarrow> PeriodicTimer \<Rightarrow> PeriodicTimer" where
  "pt_TReset diff period t =
     t\<lparr>pt_expireTime := pt_expireTime t + (if sint period > sint diff then period else diff)\<rparr>"

section \<open>Time text can be read back\<close>

lemma getMSTimeDiff_eq:
  "getMSTimeDiff old new = (if old > new then new - old - 1 else new - old)"
  by (simp add: getMSTimeDiff_def)

text \<open>
  The interval timer does not drift: a timer with a positive interval that is reset whenever it has
  passed holds, after any sequence of updates, the remainder of the time that has gone by; no
  reset fails.
\<close>

fun run_interval :: "int list \<Rightarrow> IntervalTimer \<Rightarrow> IntervalTimer res" where
  "run_interval [] t = Inr t"
| "run_interval (d # ds) t =
     (let t1 = itm_Update d t in bindr (if itm_Passed t1 then itm_Reset t1 else Inr t1) (run_interval ds))"

theorem interval_timer_no_drift:
  assumes "0 < itm_interval t" "0 \<le> itm_current t" "itm_current t < itm_interval t" "list_all (\<lambda>d. 0 \<le> d) ds"
  shows "run_interval ds t = Inr (t\<lparr>itm_current := (itm_current t + sum_list ds) mod itm_interval t\<rparr>)"
  using assms
proof (induction ds arbitrary: t)
  case (Cons d ds)
  define t1 where "t1 = t\<lparr>itm_current := (itm_current t + d) mod itm_interval t\<rparr>"
  have "run_interval (d # ds) t = run_interval ds t1"
    using Cons.prems by (auto simp: itm_Update_def itm_Passed_def itm_Reset_def guard_or_def Let_def t1_def)
  moreover have "run_interval ds t1 = Inr (t1\<lparr>itm_current := (itm_current t1 + sum_list ds) mod itm_interval t1\<rparr>)"
    using Cons.prems by (intro Cons.IH) (simp_all add: t1_def)
  ultimately show ?case by (simp add: t1_def mod_add_left_eq add.assoc)
qed simp

theorem interval_timer_no_drift_witness:
  "run_interval [7, 3, 25] \<lparr>itm_interval = 10, itm_current = 4\<rparr> = Inr \<lparr>itm_interval = 10, itm_current = 9\<rparr>"
  using interval_timer_no_drift [of "\<lparr>itm_interval = 10, itm_current = 4\<rparr>" "[7, 3, 25]"] by simp

text \<open>A reader for the short text: tokens of digits and a unit.\<close>

definition unit_micros :: "(uint8 list \<times> nat) list" where
  "unit_micros = [(bytes_of ''y'', 31536000000000), (bytes_of ''d'', 86400000000), (bytes_of ''h'', 3600000000),
     (bytes_of ''m'', 60000000), (bytes_of ''s'', 1000000), (bytes_of ''ms'', 1000), (bytes_of ''us'', 1)]"

definition read_token :: "uint8 list \<Rightarrow> nat" where
  "read_token tok =
     digits_value 10 (takeWhile (is_digit 10) tok) *
       (case map_of unit_micros (dropWhile (is_digit 10) tok) of None \<Rightarrow> 0 | Some w \<Rightarrow> w)"

definition read_time :: "uint8 list \<Rightarrow> nat" where
  "read_time s = sum_list (map read_token (Tokenize s 0x20 False))"

definition unit_token :: "nat \<Rightarrow> uint8 list \<Rightarrow> uint8 list" where
  "unit_token n suffix = dec_digits n @ suffix"

lemma unit_suffixes:
  assumes "(suffix, w) \<in> set unit_micros"
  shows "suffix \<noteq> []" "\<not> is_digit 10 (hd suffix)" "\<not> c_isspace (last suffix)" "0x20 \<notin> set suffix" "map_of unit_micros suffix = Some w"
proof -
  let ?sufs = "map bytes_of [''y'', ''d'', ''h'', ''m'', ''s'', ''ms'', ''us'']"
  have sufs: "map fst unit_micros = ?sufs" by (simp add: unit_micros_def)
  have "list_all (\<lambda>x. x \<noteq> [] \<and> \<not> is_digit 10 (hd x) \<and> \<not> c_isspace (last x) \<and> 0x20 \<notin> set x) ?sufs" by code_simp
  moreover have "suffix \<in> set ?sufs" unfolding sufs [symmetric] using assms by force
  ultimately show "suffix \<noteq> []" "\<not> is_digit 10 (hd suffix)" "\<not> c_isspace (last suffix)" "0x20 \<notin> set suffix"
    unfolding list_all_iff by blast+
  have "distinct ?sufs" by code_simp
  then show "map_of unit_micros suffix = Some w" using assms by (simp only: map_of_eq_Some_iff sufs)
qed

lemma digit_not_space: "is_digit 10 c \<Longrightarrow> c \<noteq> 0x20"
  by (auto simp: is_digit_def char_digit_def word_le_nat_alt)

lemma unit_token_facts:
  assumes "(suffix, w) \<in> set unit_micros"
  shows "unit_token n suffix \<noteq> []" "0x20 \<notin> set (unit_token n suffix)" "\<not> c_isspace (last (unit_token n suffix))"
    "read_token (unit_token n suffix) = n * w"
proof -
  note u = unit_suffixes [OF assms]
  note d = dec_digits_facts [of n]
  show "unit_token n suffix \<noteq> []" "\<not> c_isspace (last (unit_token n suffix))" using u by (auto simp: unit_token_def)
  show "0x20 \<notin> set (unit_token n suffix)"
    using u d digit_not_space by (auto simp: unit_token_def list_all_iff)
  have "takeWhile (is_digit 10) (dec_digits n @ suffix) = dec_digits n" "dropWhile (is_digit 10) (dec_digits n @ suffix) = suffix"
    using u d by (cases suffix; auto simp: list_all_iff takeWhile_append dropWhile_append takeWhile_eq_all_conv)+
  then show "read_token (unit_token n suffix) = n * w" using u d by (simp add: read_token_def unit_token_def)
qed

lemma split_spaced:
  "list_all (\<lambda>t. sep \<notin> set t) (ts @ [t]) \<Longrightarrow> split_at_sep sep (concat (map (\<lambda>t. t @ [sep]) ts) @ t) = ts @ [t]"
  by (induction ts) (simp_all add: split_at_sep_append split_at_sep_whole)

lemma Tokenize_trimmed:
  assumes "list_all (\<lambda>t. 0x20 \<notin> set t \<and> t \<noteq> [] \<and> \<not> c_isspace (last t)) ts"
  shows "Tokenize (TrimRightInPlace (concat (map (\<lambda>t. t @ [0x20]) ts))) 0x20 False = ts"
proof (cases ts rule: rev_cases)
  case Nil
  then show ?thesis by (simp add: TrimRightInPlace_eq Tokenize_def tokenize_from_split)
next
  case (snoc us t)
  have t: "t \<noteq> []" "\<not> c_isspace (last t)" using assms snoc by simp_all
  have sp: "c_isspace 0x20" by (simp add: c_isspace_def)
  obtain t' c where c: "t = t' @ [c]" using t(1) by (cases t rule: rev_cases) auto
  have "TrimRightInPlace (concat (map (\<lambda>t. t @ [0x20]) ts)) = concat (map (\<lambda>t. t @ [0x20]) us) @ t"
    using t(2) sp by (simp add: snoc c TrimRightInPlace_eq)
  moreover have "list_all (\<lambda>t. (0x20 :: uint8) \<notin> set t) (us @ [t])" using assms by (auto simp: snoc list_all_iff)
  ultimately show ?thesis using assms
    by (simp add: Tokenize_def tokenize_from_split split_spaced) (auto simp: snoc list_all_iff filter_id_conv)
qed

lemma ToString_uint32: "ToString_int (uint (t :: uint32)) = Inr (dec_digits (unat t))"
proof -
  have "unat t < 10 ^ 20" using unsigned_less [of t, where 'a = nat] by simp
  then have "length (dec_digits (unat t)) \<le> 20" by (intro dec_digits_length) simp_all
  then show ?thesis by (simp add: ToString_int_def to_chars_def Let_def unat_eq_nat_uint [symmetric])
qed

lemma add_units_short:
  assumes "count + length us \<le> outCount" "list_all (\<lambda>(t, _). unat t < 2 ^ 32) us"
  shows "\<exists>count'. add_units ShortText outCount us (out, count) =
     Inr (out @ concat (map (\<lambda>(t, sh, _). dec_digits (unat t) @ bytes_of sh) (filter (\<lambda>(t, _). t \<noteq> 0) us)), count')"
  using assms
proof (induction us arbitrary: out count)
  case (Cons u us)
  obtain t sh f1 f where u: "u = (t, sh, f1, f)" by (cases u)
  have "unat (ucast t :: uint32) = unat t" using Cons.prems(2) by (simp add: u unsigned_ucast_eq take_bit_nat_eq_self)
  then show ?case using Cons.IH [of "count + 1" "out @ dec_digits (unat t) @ bytes_of sh"] Cons.IH [of count out] Cons.prems
    by (auto simp: u AddOut_def ToString_uint32)
qed simp

definition unit_values :: "nat \<Rightarrow> nat list" where
  "unit_values n = [n div 31536000000000, n div 86400000000 mod 365, n div 3600000000 mod 24, n div 60000000 mod 60,
     n div 1000000 mod 60, n div 1000 mod 1000, n mod 1000]"

lemma time_units_values:
  assumes "0 \<le> d" "d < 2 ^ 63"
  shows "map unat (time_units d) = unit_values (nat d)"
proof -
  obtain n where d: "d = int n" using assms(1) by (rule nonneg_int_cases)
  then have n: "d = int n" "n < 2 ^ 64" using assms(2) by simp_all
  have "unat (word_of_nat n :: uint64) = n" using n(2) by (simp add: unat_of_nat)
  moreover have "int n mod 1000 = int (n mod 1000)" by (simp add: zmod_int)
  then have "unat (word_of_int (int n mod 1000) :: uint64) = n mod 1000" by (simp only: of_int_of_nat_eq) (simp add: unat_of_nat)
  ultimately show ?thesis
    by (simp add: time_units_def unit_values_def n(1) Let_def unat_div_distrib unat_mod_distrib TimeDiff_defs)
qed

lemma unit_values_sum: "sum_list (map2 (\<lambda>n (_, w). n * w) (unit_values n) unit_micros) = n"
proof -
  have "n = 1000 * (n div 1000) + n mod 1000" by simp
  also have "n div 1000 = 1000 * (n div 1000000) + n div 1000 mod 1000" by (simp add: div_mult2_eq [of n 1000 1000, simplified])
  also have "n div 1000000 = 60 * (n div 60000000) + n div 1000000 mod 60" by (simp add: div_mult2_eq [of n 1000000 60, simplified])
  also have "n div 60000000 = 60 * (n div 3600000000) + n div 60000000 mod 60" by (simp add: div_mult2_eq [of n 60000000 60, simplified])
  also have "n div 3600000000 = 24 * (n div 86400000000) + n div 3600000000 mod 24" by (simp add: div_mult2_eq [of n 3600000000 24, simplified])
  also have "n div 86400000000 = 365 * (n div 31536000000000) + n div 86400000000 mod 365"
    by (simp add: div_mult2_eq [of n 86400000000 365, simplified])
  finally show ?thesis by (simp add: unit_values_def unit_micros_def algebra_simps)
qed

lemma unit_texts_micros:
  "map (\<lambda>(sh, _). bytes_of sh) unit_texts = map (\<lambda>(suffix, _). suffix @ [0x20]) unit_micros"
  by (simp add: unit_texts_def unit_micros_def bytes_of_def byte_of_char_def)

lemma short_pieces:
  assumes "map unat ts = ns" "length ts = 7"
  shows "concat (map (\<lambda>(t, sh, _). dec_digits (unat t) @ bytes_of sh) (filter (\<lambda>(t, _). t \<noteq> 0) (zip ts unit_texts))) =
     concat (map (\<lambda>tok. tok @ [0x20]) (map (\<lambda>(n, suffix, _). unit_token n suffix) (filter (\<lambda>(n, _). n \<noteq> 0) (zip ns unit_micros))))"
proof -
  obtain a b c d e f g where ts: "ts = [a, b, c, d, e, f, g]"
    using assms(2) by (auto simp: eval_nat_numeral length_Suc_conv)
  show ?thesis using assms(1)
    by (auto simp: ts unit_texts_def unit_micros_def unit_token_def bytes_of_def byte_of_char_def unat_eq_0)
qed

lemma read_filtered: "sum_list (map (\<lambda>(n, _, w). n * w) (filter (\<lambda>(n, _). n \<noteq> 0) us)) = sum_list (map (\<lambda>(n, _, w). n * (w :: nat)) us)"
  by (induction us) auto

lemma units_32:
  assumes "0 \<le> d" "d < 2 ^ 63"
  shows "list_all (\<lambda>(t, _). unat t < 2 ^ 32) (zip (time_units d) unit_texts)"
proof -
  have "nat d < 2 ^ 63" using assms by (simp add: nat_less_iff)
  then have "nat d div 31536000000000 < 2 ^ 32" by (simp add: less_mult_imp_div_less)
  then have "list_all (\<lambda>n. n < 2 ^ 32) (unit_values (nat d))"
    by (simp add: unit_values_def) (intro conjI; rule order.strict_trans2 [OF mod_less_divisor]; simp)
  then have "list_all (\<lambda>t. unat t < 2 ^ 32) (time_units d)"
    unfolding time_units_values [OF assms, symmetric] by (simp add: list_all_iff)
  then show ?thesis by (auto simp: list_all_iff dest: set_zip_leftD)
qed

lemma numeric_examples:
  "time_units 3605000000 = [0, 0, 1, 0, 5, 0, 0]" "time_units 65000000 = [0, 0, 0, 1, 5, 0, 0]"
  by (simp_all add: time_units_def TimeDiff_defs Let_def)

text \<open>
  Durations as text: the short form with all its units can be read back, digit by digit, to the
  duration it was made from, for every duration that is not negative; no assertion fails on the way.
  The numeric form cannot: units that are 0 are left out, so that one hour and five seconds and one
  minute and five seconds have the same text.
\<close>

theorem time_text_roundtrip:
  assumes "0 \<le> d" "d < 2 ^ 63" "7 \<le> outCount"
  shows "(\<exists>s. ToTimeString d outCount ShortText = Inr s \<and> int (read_time s) = d) \<and>
    ToTimeString 3605000000 3 Numeric = ToTimeString 65000000 3 Numeric"
proof
  let ?us = "filter (\<lambda>(n, _). n \<noteq> 0) (zip (unit_values (nat d)) unit_micros)"
  let ?toks = "map (\<lambda>(n, suffix, _). unit_token n suffix) ?us"
  have len: "length (zip (time_units d) unit_texts) = 7" "length (time_units d) = 7"
    by (simp_all add: time_units_def unit_texts_def Let_def)
  have "\<exists>c. add_units ShortText outCount (zip (time_units d) unit_texts) ([], 0) = Inr (concat (map (\<lambda>tok. tok @ [0x20]) ?toks), c)"
    using add_units_short [of 0 "zip (time_units d) unit_texts" outCount "[]"] units_32 [OF assms(1,2)] assms(3) len
      short_pieces [OF time_units_values [OF assms(1,2)] len(2)] by auto
  then have out: "ToTimeString d outCount ShortText = Inr (TrimRightInPlace (concat (map (\<lambda>tok. tok @ [0x20]) ?toks)))"
    by (auto simp: ToTimeString_def)
  have units: "\<forall>(n, suffix, w)\<in>set ?us. (suffix, w) \<in> set unit_micros" by (auto dest: set_zip_rightD)
  then have "list_all (\<lambda>t. 0x20 \<notin> set t \<and> t \<noteq> [] \<and> \<not> c_isspace (last t)) ?toks"
    using unit_token_facts(1-3) by (fastforce simp: list_all_iff)
  then have "read_time (TrimRightInPlace (concat (map (\<lambda>tok. tok @ [0x20]) ?toks))) = sum_list (map read_token ?toks)"
    by (simp add: read_time_def Tokenize_trimmed del: map_map)
  also have "map read_token ?toks = map (\<lambda>(n, _, w). n * w) ?us"
    unfolding map_map by (rule map_cong [OF refl]) (use units unit_token_facts(4) in fastforce)
  also have "sum_list \<dots> = nat d" unfolding read_filtered using unit_values_sum [of "nat d"] by (simp add: case_prod_unfold)
  finally show "\<exists>s. ToTimeString d outCount ShortText = Inr s \<and> int (read_time s) = d" using out assms(1) by auto
  show "ToTimeString 3605000000 3 Numeric = ToTimeString 65000000 3 Numeric"
    by (simp add: ToTimeString_def numeric_time_def numeric_examples AddOutNumerlic_def format_02_def)
qed

theorem time_text_roundtrip_witness:
  "\<exists>s. ToTimeString 90061001002 7 ShortText = Inr s \<and> read_time s = 90061001002"
  using time_text_roundtrip [of 90061001002 7] by auto
end
