(* ===== verification/QueryAsync.thy ===== *)
theory QueryAsync
  imports TimeText
begin

text \<open>
  Transactions and the callbacks of asynchronous queries: \<open>Transaction.cpp\<close>, \<open>QueryCallback.cpp\<close> and
  \<open>QueryHolder.cpp\<close> of \<open>src/src/database/Database\<close>. The results of the connection's attempts, the
  clock and the answers of queries are arguments. A future is a name, \<open>None\<close> when it is not valid; what is
  deleted, and the calls of callbacks, are recorded in order.
\<close>

section \<open>Transactions\<close>

datatype 's sql_element = SqlRaw "uint8 list" | SqlPrepared "'s option"

record 's transaction =
  tr_queries :: "'s sql_element list"
  tr_cleanedUp :: bool
  tr_deleted :: "'s list"

definition Transaction_new :: "'s transaction" where
  "Transaction_new = \<lparr>tr_queries = [], tr_cleanedUp = False, tr_deleted = []\<rparr>"

definition Append :: "uint8 list \<Rightarrow> 's transaction \<Rightarrow> 's transaction" where
  "Append sql t = t\<lparr>tr_queries := tr_queries t @ [SqlRaw sql]\<rparr>"

definition AppendPreparedStatement :: "'s option \<Rightarrow> 's transaction \<Rightarrow> 's transaction" where
  "AppendPreparedStatement stmt t = t\<lparr>tr_queries := tr_queries t @ [SqlPrepared stmt]\<rparr>"

fun delete_all :: "'s sql_element list \<Rightarrow> 's list res" where
  "delete_all [] = Inr []"
| "delete_all (SqlRaw sql # es) = delete_all es"
| "delete_all (SqlPrepared None # es) = Inl (AssertFailure ''stmt'')"
| "delete_all (SqlPrepared (Some s) # es) = bindr (delete_all es) (\<lambda>ds. Inr (s # ds))"

definition Cleanup :: "'s transaction \<Rightarrow> 's transaction res" where
  "Cleanup t =
     (if tr_cleanedUp t then Inr t
      else bindr (delete_all (tr_queries t))
        (\<lambda>ds. Inr (t\<lparr>tr_queries := [], tr_cleanedUp := True, tr_deleted := tr_deleted t @ ds\<rparr>)))"

definition DEADLOCK_MAX_RETRY_TIME_MS :: int where "DEADLOCK_MAX_RETRY_TIME_MS = 60000"

definition ER_LOCK_DEADLOCK :: int where "ER_LOCK_DEADLOCK = 1213"

text \<open>
  The loop of retries. \<open>attempt i\<close> is the error code of the \<open>i\<close>-th attempt and \<open>clock i\<close> the time when the
  loop reads it after \<open>i\<close> attempts; \<open>retry\<close> also returns the number of attempts made.
\<close>

partial_function (option) retry :: "(nat \<Rightarrow> int) \<Rightarrow> (nat \<Rightarrow> int) \<Rightarrow> int \<Rightarrow> nat \<Rightarrow> int \<Rightarrow> (bool \<times> nat) option" where
  "retry attempt clock startMSTime i loopDuration =
     (if loopDuration \<le> DEADLOCK_MAX_RETRY_TIME_MS then
        (if attempt i = 0 then Some (True, Suc i)
         else retry attempt clock startMSTime (Suc i) (GetMSTimeDiff startMSTime (clock (Suc i))))
      else Some (False, i))"

definition Execute :: "(nat \<Rightarrow> int) \<Rightarrow> (nat \<Rightarrow> int) \<Rightarrow> 's transaction \<Rightarrow> (bool \<times> 's transaction) res option" where
  "Execute attempt clock t =
     (let errorCode = attempt 0 in
      if errorCode = 0 then Some (Inr (True, t))
      else if errorCode = ER_LOCK_DEADLOCK then
        (case retry attempt clock (clock 1) 1 0 of
           None \<Rightarrow> None
         | Some (True, n) \<Rightarrow> Some (Inr (True, t))
         | Some (False, n) \<Rightarrow> Some (bindr (Cleanup t) (\<lambda>t'. Inr (False, t'))))
      else Some (bindr (Cleanup t) (\<lambda>t'. Inr (False, t'))))"

text \<open>The task with a result sets its promise once, to what it returns.\<close>

definition Execute_with_result ::
  "(nat \<Rightarrow> int) \<Rightarrow> (nat \<Rightarrow> int) \<Rightarrow> 's transaction \<Rightarrow> (bool \<times> bool list \<times> 's transaction) res option" where
  "Execute_with_result attempt clock t =
     (let errorCode = attempt 0 in
      if errorCode = 0 then Some (Inr (True, [True], t))
      else if errorCode = ER_LOCK_DEADLOCK then
        (case retry attempt clock (clock 1) 1 0 of
           None \<Rightarrow> None
         | Some (True, n) \<Rightarrow> Some (Inr (True, [True], t))
         | Some (False, n) \<Rightarrow> Some (bindr (Cleanup t) (\<lambda>t'. Inr (False, [False], t'))))
      else Some (bindr (Cleanup t) (\<lambda>t'. Inr (False, [False], t'))))"

text \<open>\<open>TransactionCallback::InvokeIfReady\<close>: the value the callback is called with, if any.\<close>

definition tc_InvokeIfReady :: "('f \<Rightarrow> bool option) \<Rightarrow> 'f option \<Rightarrow> bool option" where
  "tc_InvokeIfReady ready fut = (case fut of None \<Rightarrow> None | Some f \<Rightarrow> ready f)"

section \<open>Query callbacks\<close>

record ('f, 'k) query_callback =
  qc_isPrepared :: bool
  qc_future :: "'f option"
  qc_callbacks :: "(bool \<times> 'k) list"

definition QueryCallback_new :: "bool \<Rightarrow> 'f \<Rightarrow> ('f, 'k) query_callback" where
  "QueryCallback_new isPrepared f = \<lparr>qc_isPrepared = isPrepared, qc_future = Some f, qc_callbacks = []\<rparr>"

definition WithChainingCallback :: "'k \<Rightarrow> ('f, 'k) query_callback \<Rightarrow> ('f, 'k) query_callback res" where
  "WithChainingCallback k q =
     (if qc_callbacks q \<noteq> [] \<or> \<not> qc_isPrepared q then Inr (q\<lparr>qc_callbacks := qc_callbacks q @ [(False, k)]\<rparr>)
      else Inl (AssertFailure ''Attempted to set callback function for string query on a prepared async query''))"

definition WithChainingPreparedCallback :: "'k \<Rightarrow> ('f, 'k) query_callback \<Rightarrow> ('f, 'k) query_callback res" where
  "WithChainingPreparedCallback k q =
     (if qc_callbacks q \<noteq> [] \<or> qc_isPrepared q then Inr (q\<lparr>qc_callbacks := qc_callbacks q @ [(True, k)]\<rparr>)
      else Inl (AssertFailure ''Attempted to set callback function for prepared query on a string async query''))"

text \<open>\<open>MoveFrom\<close> between two queries, of which the kinds must agree.\<close>

definition SetNextQuery :: "('f, 'k) query_callback \<Rightarrow> ('f, 'k) query_callback \<Rightarrow> ('f, 'k) query_callback res" where
  "SetNextQuery next_query q =
     (if qc_isPrepared q = qc_isPrepared next_query then Inr (q\<lparr>qc_future := qc_future next_query\<rparr>)
      else Inl (AssertFailure ''to->_isPrepared == from._isPrepared''))"

definition checkStateAndReturnCompletion :: "('f, 'k) query_callback \<Rightarrow> (bool \<times> ('f, 'k) query_callback) res" where
  "checkStateAndReturnCompletion q =
     (let q1 = q\<lparr>qc_callbacks := tl (qc_callbacks q)\<rparr>; hasNext = (qc_future q1 \<noteq> None) in
      if qc_callbacks q1 = [] then (if hasNext then Inl (AssertFailure ''!hasNext'') else Inr (True, q1))
      else if \<not> hasNext then Inr (True, q1)
      else if qc_isPrepared q1 = fst (hd (qc_callbacks q1)) then Inr (False, q1)
      else Inl (AssertFailure ''_isPrepared == _callbacks.front()._isPrepared''))"

text \<open>
  \<open>run\<close> is what a callback does to the query it is given. A callback of the other kind than the query would read the
  inactive member of a union. The call that was made is returned, if any.
\<close>

definition InvokeIfReady ::
  "('k \<Rightarrow> 'r \<Rightarrow> ('f, 'k) query_callback \<Rightarrow> ('f, 'k) query_callback res) \<Rightarrow> ('f \<Rightarrow> 'r option) \<Rightarrow> ('f, 'k) query_callback \<Rightarrow>
     (bool \<times> ('k \<times> 'r) list \<times> ('f, 'k) query_callback) res" where
  "InvokeIfReady run ready q =
     (case qc_callbacks q of
        [] \<Rightarrow> Inl (UndefinedAccess ''_callbacks.front()'')
      | (prepared, k) # _ \<Rightarrow>
          (case qc_future q of
             None \<Rightarrow> Inr (False, [], q)
           | Some f \<Rightarrow>
               (case ready f of
                  None \<Rightarrow> Inr (False, [], q)
                | Some r \<Rightarrow>
                    if prepared \<noteq> qc_isPrepared q then Inl (UndefinedAccess ''callback'')
                    else
                      bindr (run k r (q\<lparr>qc_future := None\<rparr>)) (\<lambda>q1.
                        bindr (checkStateAndReturnCompletion q1) (\<lambda>(b, q2). Inr (b, [(k, r)], q2))))))"

section \<open>Query holders\<close>

record ('s, 'r) query_holder =
  qh_queries :: "('s option \<times> 'r option) list"

definition SetSize :: "nat \<Rightarrow> ('s, 'r) query_holder \<Rightarrow> ('s, 'r) query_holder" where
  "SetSize n h = h\<lparr>qh_queries := take n (qh_queries h) @ replicate (n - length (qh_queries h)) (None, None)\<rparr>"

definition SetPreparedQueryImpl :: "nat \<Rightarrow> 's option \<Rightarrow> ('s, 'r) query_holder \<Rightarrow> bool \<times> ('s, 'r) query_holder" where
  "SetPreparedQueryImpl i stmt h =
     (if length (qh_queries h) \<le> i then (False, h)
      else (True, h\<lparr>qh_queries := (qh_queries h)[i := (stmt, snd (qh_queries h ! i))]\<rparr>))"

definition GetPreparedResult :: "nat \<Rightarrow> ('s, 'r) query_holder \<Rightarrow> 'r option res" where
  "GetPreparedResult i h =
     (if i < length (qh_queries h) then Inr (snd (qh_queries h ! i))
      else Inl (AssertFailure ''Query holder result index out of range''))"

text \<open>A result without rows counts as none.\<close>

definition SetPreparedResult :: "('r \<Rightarrow> nat) \<Rightarrow> nat \<Rightarrow> 'r option \<Rightarrow> ('s, 'r) query_holder \<Rightarrow> ('s, 'r) query_holder" where
  "SetPreparedResult rowCount i result h =
     (let result' = (case result of None \<Rightarrow> None | Some r \<Rightarrow> if rowCount r = 0 then None else Some r)
      in if i < length (qh_queries h) then h\<lparr>qh_queries := (qh_queries h)[i := (fst (qh_queries h ! i), result')]\<rparr> else h)"

definition holder_Execute :: "('r \<Rightarrow> nat) \<Rightarrow> ('s \<Rightarrow> 'r option) \<Rightarrow> ('s, 'r) query_holder \<Rightarrow> ('s, 'r) query_holder" where
  "holder_Execute rowCount query h =
     foldl (\<lambda>h i. case fst (qh_queries h ! i) of None \<Rightarrow> h | Some stmt \<Rightarrow> SetPreparedResult rowCount i (query stmt) h)
       h [0..<length (qh_queries h)]"

section \<open>The retries of a transaction\<close>

lemma GetMSTimeDiff_mono: "a \<le> b \<Longrightarrow> GetMSTimeDiff a b = b - a"
  by (simp add: GetMSTimeDiff_def)

lemma retry_result:
  assumes mono: "\<And>i j. i \<le> j \<Longrightarrow> clock i \<le> clock j" and late: "clock N - clock 1 > DEADLOCK_MAX_RETRY_TIME_MS" and "1 \<le> i"
  shows "\<exists>n. retry attempt clock (clock 1) i (clock i - clock 1) =
    Some (\<exists>j\<ge>i. attempt j = 0 \<and> clock j - clock 1 \<le> DEADLOCK_MAX_RETRY_TIME_MS, n)"
  using assms(3)
proof (induction "N - i" arbitrary: i rule: less_induct)
  case less
  show ?case
  proof (cases "clock i - clock 1 \<le> DEADLOCK_MAX_RETRY_TIME_MS")
    case False
    then have "\<not> (\<exists>j\<ge>i. attempt j = 0 \<and> clock j - clock 1 \<le> DEADLOCK_MAX_RETRY_TIME_MS)" using mono by force
    then show ?thesis using False by (simp add: retry.simps)
  next
    case True
    then have iN: "i < N" using mono [of N i] late by (cases "i < N") auto
    show ?thesis
    proof (cases "attempt i = 0")
      case z: True
      then have "\<exists>j\<ge>i. attempt j = 0 \<and> clock j - clock 1 \<le> DEADLOCK_MAX_RETRY_TIME_MS" using True by blast
      then show ?thesis using True z by (subst retry.simps) simp
    next
      case nz: False
      have "(\<exists>j\<ge>i. attempt j = 0 \<and> clock j - clock 1 \<le> DEADLOCK_MAX_RETRY_TIME_MS) \<longleftrightarrow>
          (\<exists>j\<ge>Suc i. attempt j = 0 \<and> clock j - clock 1 \<le> DEADLOCK_MAX_RETRY_TIME_MS)"
        using nz by (metis Suc_leD Suc_leI le_neq_implies_less)
      moreover have "GetMSTimeDiff (clock 1) (clock (Suc i)) = clock (Suc i) - clock 1"
        using less.prems mono [of 1 "Suc i"] by (intro GetMSTimeDiff_mono) simp
      ultimately show ?thesis
        using less.hyps [of "Suc i"] iN True nz by (subst retry.simps) simp
    qed
  qed
qed

definition prepared_of :: "'s sql_element list \<Rightarrow> 's list" where
  "prepared_of es = concat (map (\<lambda>e. case e of SqlPrepared (Some s) \<Rightarrow> [s] | _ \<Rightarrow> []) es)"

lemma delete_all_ok: "SqlPrepared None \<notin> set es \<Longrightarrow> delete_all es = Inr (prepared_of es)"
  by (induction es rule: delete_all.induct) (auto simp: prepared_of_def)

lemma Cleanup_ok:
  assumes "SqlPrepared None \<notin> set (tr_queries t)" "\<not> tr_cleanedUp t"
  shows "Cleanup t = Inr (t\<lparr>tr_queries := [], tr_cleanedUp := True, tr_deleted := tr_deleted t @ prepared_of (tr_queries t)\<rparr>)"
  using assms by (simp add: Cleanup_def delete_all_ok)

text \<open>
  C29. A transaction is retried for a minute: with a clock that goes on, \<open>Execute\<close> always returns. It succeeds exactly
  when the first attempt does, or fails with a deadlock and one of the later attempts that start within the time succeeds;
  the transaction is then left as it is. Otherwise every prepared statement is deleted, once each, and a second
  cleanup deletes nothing.
\<close>

theorem transaction_retry:
  assumes "\<And>i j. i \<le> j \<Longrightarrow> clock i \<le> clock j" "clock N - clock 1 > DEADLOCK_MAX_RETRY_TIME_MS"
    "SqlPrepared None \<notin> set (tr_queries t)" "\<not> tr_cleanedUp t"
  shows "\<exists>ok t'. Execute attempt clock t = Some (Inr (ok, t')) \<and>
    (ok \<longleftrightarrow> attempt 0 = 0 \<or> attempt 0 = ER_LOCK_DEADLOCK \<and>
      (\<exists>i\<ge>1. attempt i = 0 \<and> clock i - clock 1 \<le> DEADLOCK_MAX_RETRY_TIME_MS)) \<and>
    (ok \<longrightarrow> t' = t) \<and>
    (\<not> ok \<longrightarrow> tr_queries t' = [] \<and> tr_deleted t' = tr_deleted t @ prepared_of (tr_queries t) \<and> Cleanup t' = Inr t')"
proof -
  define late where "late \<longleftrightarrow> (\<exists>j\<ge>1. attempt j = 0 \<and> clock j - clock 1 \<le> DEADLOCK_MAX_RETRY_TIME_MS)"
  obtain n where r: "retry attempt clock (clock 1) 1 0 = Some (late, n)"
    using retry_result [OF assms(1,2), of 1 attempt] unfolding late_def by auto
  let ?t = "t\<lparr>tr_queries := [], tr_cleanedUp := True, tr_deleted := tr_deleted t @ prepared_of (tr_queries t)\<rparr>"
  have "Execute attempt clock t = Some (Inr (if attempt 0 = 0 \<or> attempt 0 = ER_LOCK_DEADLOCK \<and> late then (True, t) else (False, ?t)))"
    unfolding Execute_def Let_def r Cleanup_ok [OF assms(3,4)] by (cases late) simp_all
  moreover have "Cleanup ?t = Inr ?t" by (simp add: Cleanup_def)
  ultimately show ?thesis unfolding late_def [symmetric] by auto
qed

theorem transaction_retry_witness:
  "\<exists>t'. Execute (\<lambda>i. if i = 0 then 1213 else 1) (\<lambda>i. int i * 30001) (AppendPreparedStatement (Some 7) Transaction_new) =
     Some (Inr (False, t')) \<and> tr_deleted t' = [7 :: nat]"
  using transaction_retry [of "\<lambda>i. int i * 30001" 4 "AppendPreparedStatement (Some (7 :: nat)) Transaction_new" "\<lambda>i. if i = 0 then 1213 else 1"]
  by (auto simp: DEADLOCK_MAX_RETRY_TIME_MS_def AppendPreparedStatement_def Transaction_new_def prepared_of_def)

section \<open>Chains of callbacks\<close>

text \<open>
  Callbacks that only set the next query: \<open>nxt k r\<close> is its kind and future, if any. \<open>drive\<close> asks the query again until it
  completes, at most \<open>n\<close> times.
\<close>

definition chain_run ::
  "('k \<Rightarrow> 'r \<Rightarrow> (bool \<times> 'f) option) \<Rightarrow> 'k \<Rightarrow> 'r \<Rightarrow> ('f, 'k) query_callback \<Rightarrow> ('f, 'k) query_callback res" where
  "chain_run nxt k r q = (case nxt k r of None \<Rightarrow> Inr q | Some (p, f) \<Rightarrow> SetNextQuery (QueryCallback_new p f) q)"

fun drive ::
  "('k \<Rightarrow> 'r \<Rightarrow> ('f, 'k) query_callback \<Rightarrow> ('f, 'k) query_callback res) \<Rightarrow> ('f \<Rightarrow> 'r option) \<Rightarrow> nat \<Rightarrow> ('f, 'k) query_callback \<Rightarrow>
     (bool \<times> ('k \<times> 'r) list \<times> ('f, 'k) query_callback) res" where
  "drive run ready 0 q = Inr (False, [], q)"
| "drive run ready (Suc n) q =
     bindr (InvokeIfReady run ready q) (\<lambda>(b, tr, q').
       if b then Inr (True, tr, q')
       else bindr (drive run ready n q') (\<lambda>(b', tr', q''). Inr (b', tr @ tr', q'')))"

text \<open>What the chain should do: each callback gets the answer of the query that the one before it set.\<close>

fun chain :: "('k \<Rightarrow> 'r \<Rightarrow> (bool \<times> 'f) option) \<Rightarrow> ('f \<Rightarrow> 'r) \<Rightarrow> 'k list \<Rightarrow> 'f \<Rightarrow> ('k \<times> 'r) list" where
  "chain nxt answer [] f = []"
| "chain nxt answer (k # ks) f =
     (k, answer f) # (case nxt k (answer f) of None \<Rightarrow> [] | Some (p, f') \<Rightarrow> chain nxt answer ks f')"

text \<open>The queries have the kind of the chain, and the last callback sets none.\<close>

fun chain_ok :: "('k \<Rightarrow> 'r \<Rightarrow> (bool \<times> 'f) option) \<Rightarrow> ('f \<Rightarrow> 'r) \<Rightarrow> bool \<Rightarrow> 'k list \<Rightarrow> 'f \<Rightarrow> bool" where
  "chain_ok nxt answer kind [] f = True"
| "chain_ok nxt answer kind (k # ks) f =
     (case nxt k (answer f) of None \<Rightarrow> True | Some (p, f') \<Rightarrow> p = kind \<and> ks \<noteq> [] \<and> chain_ok nxt answer kind ks f')"

lemma drive_chain:
  assumes "chain_ok nxt answer kind ks f" "ks \<noteq> []"
  shows "\<exists>q'. drive (chain_run nxt) (\<lambda>f. Some (answer f)) (length ks)
      \<lparr>qc_isPrepared = kind, qc_future = Some f, qc_callbacks = map (Pair kind) ks\<rparr> = Inr (True, chain nxt answer ks f, q')"
  using assms
proof (induction ks arbitrary: f)
  case (Cons k ks)
  show ?case
  proof (cases "nxt k (answer f)")
    case None
    then show ?thesis by (auto simp: InvokeIfReady_def chain_run_def checkStateAndReturnCompletion_def Let_def)
  next
    case (Some n)
    obtain p f' where n: "n = (p, f')" by (cases n)
    have ok: "p = kind" "ks \<noteq> []" "chain_ok nxt answer kind ks f'" using Cons.prems(1) by (simp_all add: Some n)
    then have "InvokeIfReady (chain_run nxt) (\<lambda>f. Some (answer f)) \<lparr>qc_isPrepared = kind, qc_future = Some f, qc_callbacks = map (Pair kind) (k # ks)\<rparr> =
        Inr (False, [(k, answer f)], \<lparr>qc_isPrepared = kind, qc_future = Some f', qc_callbacks = map (Pair kind) ks\<rparr>)"
      by (simp add: InvokeIfReady_def chain_run_def checkStateAndReturnCompletion_def Let_def SetNextQuery_def QueryCallback_new_def Some n hd_map)
    moreover obtain q' where "drive (chain_run nxt) (\<lambda>f. Some (answer f)) (length ks)
      \<lparr>qc_isPrepared = kind, qc_future = Some f', qc_callbacks = map (Pair kind) ks\<rparr> = Inr (True, chain nxt answer ks f', q')"
      using Cons.IH [OF ok(3,2)] by blast
    ultimately show ?thesis unfolding length_Cons drive.simps chain.simps by (simp add: Some n)
  qed
qed simp

text \<open>A query of either kind with its callbacks, each added in turn.\<close>

fun with_callbacks :: "'k list \<Rightarrow> ('f, 'k) query_callback \<Rightarrow> ('f, 'k) query_callback res" where
  "with_callbacks [] q = Inr q"
| "with_callbacks (k # ks) q =
     bindr (if qc_isPrepared q then WithChainingPreparedCallback k q else WithChainingCallback k q) (with_callbacks ks)"

lemma with_callbacks_built:
  "with_callbacks ks q = Inr (q\<lparr>qc_callbacks := qc_callbacks q @ map (Pair (qc_isPrepared q)) ks\<rparr>)"
  by (induction ks arbitrary: q) (simp_all add: WithChainingCallback_def WithChainingPreparedCallback_def)



section \<open>The results of a holder\<close>

lemma holder_Execute_upto:
  assumes "n \<le> length (qh_queries h)"
  shows "qh_queries (foldl (\<lambda>h i. case fst (qh_queries h ! i) of None \<Rightarrow> h | Some stmt \<Rightarrow> SetPreparedResult rowCount i (query stmt) h) h [0..<n]) =
    map (\<lambda>(s, r). (s, case s of None \<Rightarrow> r | Some stmt \<Rightarrow> (case query stmt of None \<Rightarrow> None | Some x \<Rightarrow> if rowCount x = 0 then None else Some x)))
      (take n (qh_queries h)) @ drop n (qh_queries h)"
  using assms
proof (induction n)
  case (Suc n)
  obtain s r where e: "qh_queries h ! n = (s, r)" by fastforce
  have "take (Suc n) (qh_queries h) = take n (qh_queries h) @ [(s, r)]" "drop n (qh_queries h) = (s, r) # drop (Suc n) (qh_queries h)"
    using Suc.prems e by (simp_all add: take_Suc_conv_app_nth Cons_nth_drop_Suc [symmetric])
  moreover have l: "length (take n (qh_queries h)) = n" using Suc.prems by simp
  ultimately show ?case using Suc
    by (auto simp: SetPreparedResult_def Let_def nth_append list_update_append split: option.split)
qed simp

text \<open>
  After a holder was executed, each of its slots with a statement has the answer of the statement, or nothing when the
  answer has no rows; slots without a statement are left alone, and a slot that does not exist is refused.
\<close>

theorem holder_results:
  "GetPreparedResult i (holder_Execute rowCount query h) =
     (if i < length (qh_queries h) then
        Inr (case fst (qh_queries h ! i) of
               None \<Rightarrow> snd (qh_queries h ! i)
             | Some stmt \<Rightarrow> (case query stmt of None \<Rightarrow> None | Some x \<Rightarrow> if rowCount x = 0 then None else Some x))
      else Inl (AssertFailure ''Query holder result index out of range''))"
  using holder_Execute_upto [of "length (qh_queries h)" h rowCount query]
  by (simp add: GetPreparedResult_def holder_Execute_def split_beta)
end
