(* ===== verification/MySQLConnection.thy ===== *)
theory MySQLConnection
  imports Statements QueryAsync
begin

text \<open>
  A connection to the database, \<open>MySQLConnection.cpp\<close> of \<open>src/src/database/Database\<close>. The client library and the
  database behind it are an argument: a world and, for each call of the library, a function that gives its answer and the world
  after it. A connection records the calls it made. A call that retries for ever has no result.
\<close>

section \<open>The client library\<close>

text \<open>What \<open>mysql_real_connect\<close> is given: host, user, password, database, port, socket, and whether SSL is required.\<close>

record connect_args =
  ca_host :: "uint8 list"
  ca_user :: "uint8 list"
  ca_password :: "uint8 list"
  ca_database :: "uint8 list"
  ca_port :: int
  ca_socket :: "uint8 list option"
  ca_ssl :: "bool option"

text \<open>
  Errors are the codes of \<open>mysql_errno\<close> after the call, \<open>None\<close> being success. \<open>api_stmt_prepare\<close> stands for
  \<open>mysql_stmt_init\<close> and \<open>mysql_stmt_prepare\<close> and gives the number of parameters; \<open>api_store\<close> is the result of the last
  query with its number of rows, and \<open>api_errno_null\<close> what \<open>mysql_errno\<close> gives without a connection.
\<close>

record ('w, 'r) mysql_api =
  api_host :: endian
  api_init :: "'w \<Rightarrow> bool \<times> 'w"
  api_connect :: "connect_args \<Rightarrow> 'w \<Rightarrow> int option \<times> 'w"
  api_query :: "uint8 list \<Rightarrow> 'w \<Rightarrow> int option \<times> 'w"
  api_store :: "'w \<Rightarrow> ('r option \<times> nat) \<times> 'w"
  api_stmt_prepare :: "uint8 list \<Rightarrow> 'w \<Rightarrow> nat option \<times> 'w"
  api_stmt_bind :: "mysql_bind list \<Rightarrow> 'w \<Rightarrow> int option \<times> 'w"
  api_stmt_execute :: "uint8 list \<Rightarrow> mysql_bind list \<Rightarrow> 'w \<Rightarrow> int option \<times> 'w"
  api_stmt_result :: "'w \<Rightarrow> ('r option \<times> nat) \<times> 'w"
  api_errno_null :: "'w \<Rightarrow> int"
  api_server_version :: "'w \<Rightarrow> nat"

definition CR_UNKNOWN_ERROR :: int where "CR_UNKNOWN_ERROR = 2000"
definition CR_CONNECTION_ERROR :: int where "CR_CONNECTION_ERROR = 2002"
definition CR_CONN_HOST_ERROR :: int where "CR_CONN_HOST_ERROR = 2003"
definition CR_SERVER_GONE_ERROR :: int where "CR_SERVER_GONE_ERROR = 2006"
definition CR_SERVER_LOST :: int where "CR_SERVER_LOST = 2013"
definition CR_SERVER_LOST_EXTENDED :: int where "CR_SERVER_LOST_EXTENDED = 2055"
definition ER_BAD_DB_ERROR :: int where "ER_BAD_DB_ERROR = 1049"
definition ER_BAD_FIELD_ERROR :: int where "ER_BAD_FIELD_ERROR = 1054"
definition ER_WRONG_VALUE_COUNT :: int where "ER_WRONG_VALUE_COUNT = 1058"
definition ER_DUP_ENTRY :: int where "ER_DUP_ENTRY = 1062"
definition ER_PARSE_ERROR :: int where "ER_PARSE_ERROR = 1064"
definition ER_NO_SUCH_TABLE :: int where "ER_NO_SUCH_TABLE = 1146"

lemmas error_codes = CR_UNKNOWN_ERROR_def CR_CONNECTION_ERROR_def CR_CONN_HOST_ERROR_def CR_SERVER_GONE_ERROR_def
  CR_SERVER_LOST_def CR_SERVER_LOST_EXTENDED_def ER_BAD_DB_ERROR_def ER_BAD_FIELD_ERROR_def ER_WRONG_VALUE_COUNT_def
  ER_DUP_ENTRY_def ER_PARSE_ERROR_def ER_NO_SUCH_TABLE_def ER_LOCK_DEADLOCK_def

section \<open>Connection information\<close>

record connection_info =
  ci_user :: "uint8 list"
  ci_password :: "uint8 list"
  ci_database :: "uint8 list"
  ci_host :: "uint8 list"
  ci_port_or_socket :: "uint8 list"
  ci_ssl :: "uint8 list"

definition no_info :: connection_info where
  "no_info = \<lparr>ci_user = [], ci_password = [], ci_database = [], ci_host = [], ci_port_or_socket = [], ci_ssl = []\<rparr>"

definition MySQLConnectionInfo_new :: "uint8 list \<Rightarrow> connection_info" where
  "MySQLConnectionInfo_new infoString =
     (let tokens = Tokenize infoString (byte_of_char CHR '';'') True in
      if length tokens \<noteq> 5 \<and> length tokens \<noteq> 6 then no_info
      else \<lparr>ci_user = tokens ! 2, ci_password = tokens ! 3, ci_database = tokens ! 4, ci_host = tokens ! 0,
        ci_port_or_socket = tokens ! 1, ci_ssl = (if length tokens = 6 then tokens ! 5 else [])\<rparr>)"

section \<open>Opening\<close>

datatype conn_event = ConnectTried bool | HandleClosed | Ran "uint8 list" bool | RanStmt nat "mysql_bind list" bool

record 'w mysql_connection =
  cn_flags :: uint32
  cn_connected :: bool
  cn_stmts :: "mysql_statement option list"
  cn_reconnecting :: bool
  cn_prepareError :: bool
  cn_errno :: int
  cn_info :: connection_info
  cn_world :: 'w
  cn_trace :: "conn_event list"

definition MySQLConnection_new :: "uint32 \<Rightarrow> connection_info \<Rightarrow> 'w \<Rightarrow> 'w mysql_connection" where
  "MySQLConnection_new flags info w =
     \<lparr>cn_flags = flags, cn_connected = False, cn_stmts = [], cn_reconnecting = False, cn_prepareError = False, cn_errno = 0,
      cn_info = info, cn_world = w, cn_trace = []\<rparr>"

definition uint32_type :: int_type where "uint32_type = \<lparr>it_signed = False, it_width = 32\<rparr>"

text \<open>
  \<open>Open\<close> changes a host that names a socket to \<open>localhost\<close>, in the information all connections of the pool share. The port
  is read without a test whether it is a number.
\<close>

definition cn_Open :: "('w, 'r) mysql_api \<Rightarrow> 'w mysql_connection \<Rightarrow> (int \<times> 'w mysql_connection) res" where
  "cn_Open api c =
     (let (ok, w1) = api_init api (cn_world c); info = cn_info c in
      if \<not> ok then Inr (CR_UNKNOWN_ERROR, c\<lparr>cn_world := w1\<rparr>)
      else
        bindr
          (if ci_host info = bytes_of ''.'' then Inr (info\<lparr>ci_host := bytes_of ''localhost''\<rparr>, 0, Some (ci_port_or_socket info))
           else case FromString_int uint32_type 10 (ci_port_or_socket info) of
                  None \<Rightarrow> Inl (UndefinedAccess ''StringTo'')
                | Some port \<Rightarrow> Inr (info, port, None))
          (\<lambda>(info', port, unix_socket).
            let args = \<lparr>ca_host = ci_host info', ca_user = ci_user info', ca_password = ci_password info',
                         ca_database = ci_database info', ca_port = port, ca_socket = unix_socket,
                         ca_ssl = (if ci_ssl info' \<noteq> [] then Some (ci_ssl info' = bytes_of ''ssl'') else None)\<rparr>
            in case api_connect api args w1 of
                 (None, w2) \<Rightarrow> Inr (0, c\<lparr>cn_info := info', cn_connected := True, cn_errno := 0, cn_world := w2,
                    cn_trace := cn_trace c @ [ConnectTried True]\<rparr>)
               | (Some e, w2) \<Rightarrow> Inr (e, c\<lparr>cn_info := info', cn_connected := False, cn_world := w2,
                    cn_trace := cn_trace c @ [ConnectTried False]\<rparr>)))"

definition cn_close_handle :: "'w mysql_connection \<Rightarrow> 'w mysql_connection" where
  "cn_close_handle c = (if cn_connected c then c\<lparr>cn_connected := False, cn_trace := cn_trace c @ [HandleClosed]\<rparr> else c)"

definition cn_Close :: "'w mysql_connection \<Rightarrow> 'w mysql_connection" where
  "cn_Close c = cn_close_handle (c\<lparr>cn_stmts := []\<rparr>)"

section \<open>Preparing statements\<close>

definition PrepareStatement ::
  "('w, 'r) mysql_api \<Rightarrow> nat \<Rightarrow> uint8 list \<Rightarrow> uint32 \<Rightarrow> 'w mysql_connection \<Rightarrow> 'w mysql_connection res" where
  "PrepareStatement api index sql flags c =
     (if cn_flags c AND flags = 0 then
        (if index < length (cn_stmts c) then Inr (c\<lparr>cn_stmts := (cn_stmts c)[index := None]\<rparr>) else Inl (UndefinedAccess ''m_stmts''))
      else case api_stmt_prepare api sql (cn_world c) of
             (None, w) \<Rightarrow> Inr (c\<lparr>cn_world := w, cn_prepareError := True\<rparr>)
           | (Some paramCount, w) \<Rightarrow>
               if index < length (cn_stmts c)
               then Inr (c\<lparr>cn_world := w, cn_stmts := (cn_stmts c)[index := Some (MySQLPreparedStatement_new paramCount sql)]\<rparr>)
               else Inl (UndefinedAccess ''m_stmts''))"

fun prepare_all ::
  "('w, 'r) mysql_api \<Rightarrow> (DiscordDatabaseStatements \<times> string \<times> uint32) list \<Rightarrow> 'w mysql_connection \<Rightarrow> 'w mysql_connection res" where
  "prepare_all api [] c = Inr c"
| "prepare_all api ((st, sql, flags) # rest) c =
     bindr (PrepareStatement api (statement_index st) (bytes_of sql) flags c) (prepare_all api rest)"

definition stmts_resize :: "nat \<Rightarrow> 'a option list \<Rightarrow> 'a option list" where
  "stmts_resize n xs = take n xs @ replicate (n - length xs) None"

definition DoPrepareStatements :: "('w, 'r) mysql_api \<Rightarrow> 'w mysql_connection \<Rightarrow> 'w mysql_connection res" where
  "DoPrepareStatements api c =
     prepare_all api discord_statements
       (if cn_reconnecting c then c else c\<lparr>cn_stmts := stmts_resize MAX_DISCORD_DATABASE_STATEMENTS (cn_stmts c)\<rparr>)"

definition cn_PrepareStatements :: "('w, 'r) mysql_api \<Rightarrow> 'w mysql_connection \<Rightarrow> (bool \<times> 'w mysql_connection) res" where
  "cn_PrepareStatements api c = bindr (DoPrepareStatements api c) (\<lambda>c'. Inr (\<not> cn_prepareError c', c'))"

section \<open>Errors\<close>

definition is_lost :: "int \<Rightarrow> bool" where
  "is_lost e \<longleftrightarrow> e \<in> {CR_SERVER_GONE_ERROR, CR_SERVER_LOST, CR_SERVER_LOST_EXTENDED}"

text \<open>How often a byte that is counted down can be decremented before it is zero.\<close>

definition attempts_left :: "uint8 \<Rightarrow> nat" where
  "attempts_left a = (if a = 0 then 256 else unat a)"

lemma attempts_left_less: "a - 1 \<noteq> 0 \<Longrightarrow> attempts_left (a - 1) < attempts_left a"
proof (cases "a = 0")
  case False
  then have "unat (a - 1) < unat a" by (metis measure_unat)
  then show "a - 1 \<noteq> 0 \<Longrightarrow> ?thesis" using False by (simp add: attempts_left_def)
qed (use unsigned_less [of "- 1 :: uint8"] in \<open>simp add: attempts_left_def\<close>)

text \<open>\<open>_HandleMySQLErrno\<close>; the number of attempts is a byte, and \<open>std::abort\<close> is a failure of the process.\<close>

function HandleMySQLErrno ::
  "('w, 'r) mysql_api \<Rightarrow> int \<Rightarrow> uint8 \<Rightarrow> 'w mysql_connection \<Rightarrow> (bool \<times> 'w mysql_connection) res" where
  "HandleMySQLErrno api errNo attempts c =
     (if is_lost errNo \<or> errNo = CR_CONN_HOST_ERROR then
        let c1 = (if is_lost errNo then cn_close_handle c else c); c2 = c1\<lparr>cn_reconnecting := True\<rparr> in
        bindr (cn_Open api c2) (\<lambda>(lErrno, c3).
          if lErrno = 0 then
            bindr (cn_PrepareStatements api c3) (\<lambda>(prepared, c4).
              if \<not> prepared then Inl (AssertFailure ''Could not re-prepare statements'')
              else Inr (True, c4\<lparr>cn_reconnecting := False\<rparr>))
          else if attempts - 1 = 0 then Inl (AssertFailure ''Failed to reconnect to the MySQL server'')
          else HandleMySQLErrno api lErrno (attempts - 1) c3)
      else if errNo = ER_LOCK_DEADLOCK then Inr (False, c)
      else if errNo = ER_WRONG_VALUE_COUNT \<or> errNo = ER_DUP_ENTRY then Inr (False, c)
      else if errNo = ER_BAD_FIELD_ERROR \<or> errNo = ER_NO_SUCH_TABLE then Inl (AssertFailure ''Your database structure is not up to date'')
      else if errNo = ER_PARSE_ERROR then Inl (AssertFailure ''Error while parsing SQL'')
      else Inr (False, c))"
  by pat_completeness auto
termination
  by (relation "measure (\<lambda>(api, errNo, attempts, c). attempts_left attempts)") (auto intro: attempts_left_less)

declare HandleMySQLErrno.simps [simp del]

section \<open>Running statements\<close>

text \<open>The library reads a query up to its first zero byte.\<close>

definition c_str :: "uint8 list \<Rightarrow> uint8 list" where
  "c_str s = takeWhile (\<lambda>b. b \<noteq> 0) s"

partial_function (option) cn_Execute ::
  "('w, 'r) mysql_api \<Rightarrow> uint8 list \<Rightarrow> 'w mysql_connection \<Rightarrow> (bool \<times> 'w mysql_connection) res option" where
  "cn_Execute api sql c =
     (if \<not> cn_connected c then Some (Inr (False, c))
      else case api_query api (c_str sql) (cn_world c) of
        (None, w) \<Rightarrow> Some (Inr (True, c\<lparr>cn_world := w, cn_errno := 0, cn_trace := cn_trace c @ [Ran sql True]\<rparr>))
      | (Some e, w) \<Rightarrow>
          (case HandleMySQLErrno api e 5 (c\<lparr>cn_world := w, cn_errno := e, cn_trace := cn_trace c @ [Ran sql False]\<rparr>) of
             Inl x \<Rightarrow> Some (Inl x)
           | Inr (handled, c') \<Rightarrow> if handled then cn_Execute api sql c' else Some (Inr (False, c'))))"

definition cn_GetPreparedStatement :: "nat \<Rightarrow> 'w mysql_connection \<Rightarrow> mysql_statement option res" where
  "cn_GetPreparedStatement index c =
     (if index < length (cn_stmts c) then Inr (cn_stmts c ! index) else Inl (AssertFailure ''Tried to access invalid prepared statement index''))"

definition cn_set_stmt :: "nat \<Rightarrow> mysql_statement \<Rightarrow> 'w mysql_connection \<Rightarrow> 'w mysql_connection" where
  "cn_set_stmt index m c = c\<lparr>cn_stmts := (cn_stmts c)[index := Some m]\<rparr>"

text \<open>The statement of the connection with the parameters bound.\<close>

definition cn_bound :: "('w, 'r) mysql_api \<Rightarrow> prepared_statement \<Rightarrow> 'w mysql_connection \<Rightarrow> mysql_statement res" where
  "cn_bound api stmt c =
     bindr (cn_GetPreparedStatement (ps_index stmt) c) (\<lambda>m.
       case m of None \<Rightarrow> Inl (AssertFailure ''m_mStmt'') | Some m \<Rightarrow> BindParameters (api_host api) stmt m)"

text \<open>The answer of the library to the bound statement: an error of binding or of executing.\<close>

definition cn_stmt_call :: "('w, 'r) mysql_api \<Rightarrow> mysql_statement \<Rightarrow> 'w \<Rightarrow> int option \<times> 'w" where
  "cn_stmt_call api m w =
     (case api_stmt_bind api (ms_bind m) w of
        (Some e, w1) \<Rightarrow> (Some e, w1)
      | (None, w1) \<Rightarrow> api_stmt_execute api (ms_queryString m) (ms_bind m) w1)"

partial_function (option) cn_Execute_stmt ::
  "('w, 'r) mysql_api \<Rightarrow> prepared_statement \<Rightarrow> 'w mysql_connection \<Rightarrow> (bool \<times> 'w mysql_connection) res option" where
  "cn_Execute_stmt api stmt c =
     (if \<not> cn_connected c then Some (Inr (False, c))
      else case cn_bound api stmt c of
        Inl x \<Rightarrow> Some (Inl x)
      | Inr m \<Rightarrow>
          (case cn_stmt_call api m (cn_world c) of
             (None, w) \<Rightarrow> Some (Inr (True, cn_set_stmt (ps_index stmt) (ClearParameters m)
                (c\<lparr>cn_world := w, cn_errno := 0, cn_trace := cn_trace c @ [RanStmt (ps_index stmt) (ms_bind m) True]\<rparr>)))
           | (Some e, w) \<Rightarrow>
               (case HandleMySQLErrno api e 5 (cn_set_stmt (ps_index stmt) m
                  (c\<lparr>cn_world := w, cn_errno := e, cn_trace := cn_trace c @ [RanStmt (ps_index stmt) (ms_bind m) False]\<rparr>)) of
                  Inl x \<Rightarrow> Some (Inl x)
                | Inr (handled, c') \<Rightarrow>
                    if handled then cn_Execute_stmt api stmt c'
                    else Some (Inr (False, cn_set_stmt (ps_index stmt) (ClearParameters m) c')))))"

text \<open>Sequencing of steps that may fail or never return.\<close>

definition bindo :: "'a res option \<Rightarrow> ('a \<Rightarrow> 'b res option) \<Rightarrow> 'b res option" where
  "bindo r f = (case r of None \<Rightarrow> None | Some (Inl e) \<Rightarrow> Some (Inl e) | Some (Inr x) \<Rightarrow> f x)"

text \<open>
  The two overloads of \<open>_Query\<close> run a statement in the same way as \<open>Execute\<close> and then fetch the result; without rows
  a query in text form has none.
\<close>

definition cn_Query ::
  "('w, 'r) mysql_api \<Rightarrow> uint8 list \<Rightarrow> 'w mysql_connection \<Rightarrow> (('r \<times> nat) option \<times> 'w mysql_connection) res option" where
  "cn_Query api sql c =
     (if sql = [] then Some (Inr (None, c))
      else bindo (cn_Execute api sql c) (\<lambda>(ok, c1).
        if \<not> ok then Some (Inr (None, c1))
        else let ((r, rows), w) = api_store api (cn_world c1); c2 = c1\<lparr>cn_world := w\<rparr>
             in Some (Inr (case r of None \<Rightarrow> None | Some x \<Rightarrow> if rows = 0 then None else Some (x, rows), c2))))"

definition cn_Query_stmt ::
  "('w, 'r) mysql_api \<Rightarrow> prepared_statement \<Rightarrow> 'w mysql_connection \<Rightarrow> (('r option \<times> nat) option \<times> 'w mysql_connection) res option" where
  "cn_Query_stmt api stmt c =
     bindo (cn_Execute_stmt api stmt c) (\<lambda>(ok, c1).
       if \<not> ok then Some (Inr (None, c1))
       else let (r, w) = api_stmt_result api (cn_world c1) in Some (Inr (Some r, c1\<lparr>cn_world := w\<rparr>)))"

definition GetLastError :: "('w, 'r) mysql_api \<Rightarrow> 'w mysql_connection \<Rightarrow> int" where
  "GetLastError api c = (if cn_connected c then cn_errno c else api_errno_null api (cn_world c))"

section \<open>Transactions of a connection\<close>

definition START_TRANSACTION :: "uint8 list" where "START_TRANSACTION = bytes_of ''START TRANSACTION''"
definition ROLLBACK :: "uint8 list" where "ROLLBACK = bytes_of ''ROLLBACK''"
definition COMMIT :: "uint8 list" where "COMMIT = bytes_of ''COMMIT''"

text \<open>One element; the loop over the elements returns the error code of the first that fails, after the rollback.\<close>

fun run_element ::
  "('w, 'r) mysql_api \<Rightarrow> prepared_statement sql_element \<Rightarrow> 'w mysql_connection \<Rightarrow> (bool \<times> 'w mysql_connection) res option" where
  "run_element api (SqlPrepared None) c = Some (Inl (AssertFailure ''stmt''))"
| "run_element api (SqlPrepared (Some stmt)) c = cn_Execute_stmt api stmt c"
| "run_element api (SqlRaw sql) c = (if sql = [] then Some (Inl (AssertFailure ''!sql.empty()'')) else cn_Execute api sql c)"

fun run_elements ::
  "('w, 'r) mysql_api \<Rightarrow> prepared_statement sql_element list \<Rightarrow> 'w mysql_connection \<Rightarrow>
     (int option \<times> 'w mysql_connection) res option" where
  "run_elements api [] c = Some (Inr (None, c))"
| "run_elements api (q # qs) c =
     bindo (run_element api q c) (\<lambda>(ok, c1).
       if ok then run_elements api qs c1
       else let errorCode = GetLastError api c1
            in bindo (cn_Execute api ROLLBACK c1) (\<lambda>(_, c2). Some (Inr (Some errorCode, c2))))"

definition ExecuteTransaction ::
  "('w, 'r) mysql_api \<Rightarrow> prepared_statement transaction \<Rightarrow> 'w mysql_connection \<Rightarrow> (int \<times> 'w mysql_connection) res option" where
  "ExecuteTransaction api t c =
     (if tr_queries t = [] then Some (Inr (- 1, c))
      else bindo (cn_Execute api START_TRANSACTION c) (\<lambda>(_, c1).
        bindo (run_elements api (tr_queries t) c1) (\<lambda>(err, c2).
          case err of
            Some errorCode \<Rightarrow> Some (Inr (errorCode, c2))
          | None \<Rightarrow> bindo (cn_Execute api COMMIT c2) (\<lambda>(_, c3). Some (Inr (0, c3))))))"

section \<open>Runs on a connection that is not lost\<close>

lemma bindo_simps [simp]:
  "bindo None f = None" "bindo (Some (Inl e)) f = Some (Inl e)" "bindo (Some (Inr x)) f = f x"
  by (simp_all add: bindo_def)

text \<open>Errors that are neither a lost connection nor a reason to abort.\<close>

definition harmless :: "int \<Rightarrow> bool" where
  "harmless e \<longleftrightarrow> e \<noteq> 0 \<and> \<not> is_lost e \<and> e \<notin> {CR_CONN_HOST_ERROR, ER_BAD_FIELD_ERROR, ER_NO_SUCH_TABLE, ER_PARSE_ERROR}"

lemma HandleMySQLErrno_harmless: "harmless e \<Longrightarrow> HandleMySQLErrno api e a c = Inr (False, c)"
  by (subst HandleMySQLErrno.simps) (auto simp: harmless_def)

text \<open>The errors at which the process aborts: the structure of the database is outdated, or the statement is wrong.\<close>

definition fatal :: "int \<Rightarrow> bool" where
  "fatal e \<longleftrightarrow> e \<in> {ER_BAD_FIELD_ERROR, ER_NO_SUCH_TABLE, ER_PARSE_ERROR}"

definition fatal_failure :: "exn \<Rightarrow> bool" where
  "fatal_failure x \<longleftrightarrow> x \<in> {AssertFailure ''Your database structure is not up to date'', AssertFailure ''Error while parsing SQL''}"

lemma HandleMySQLErrno_fatal: "fatal e \<Longrightarrow> \<exists>x. HandleMySQLErrno api e a c = Inl x \<and> fatal_failure x"
  by (subst HandleMySQLErrno.simps) (auto simp: fatal_def fatal_failure_def is_lost_def error_codes)

text \<open>
  A connection that is not lost: every other error may occur. The statements that start, commit and roll back a transaction name no table
  and are right, so that they do not fail with an error of this kind.
\<close>

definition stays_connected :: "('w, 'r) mysql_api \<Rightarrow> bool" where
  "stays_connected api \<longleftrightarrow>
     (\<forall>sql w e. fst (api_query api sql w) = Some e \<longrightarrow> harmless e \<or> fatal e \<and> sql \<notin> {START_TRANSACTION, ROLLBACK, COMMIT}) \<and>
     (\<forall>m w e. fst (cn_stmt_call api m w) = Some e \<longrightarrow> harmless e \<or> fatal e)"

lemma control_c_str [simp]: "c_str START_TRANSACTION = START_TRANSACTION" "c_str ROLLBACK = ROLLBACK" "c_str COMMIT = COMMIT"
  by code_simp+

text \<open>What of the statements of a connection does not change when they are bound and cleared.\<close>

definition stmt_shape :: "'w mysql_connection \<Rightarrow> (bool \<times> nat \<times> uint8 list) option list" where
  "stmt_shape c = map (map_option (\<lambda>m. (ms_ok m, ms_paramCount m, ms_queryString m))) (cn_stmts c)"

definition stmt_fits :: "'w mysql_connection \<Rightarrow> prepared_statement \<Rightarrow> bool" where
  "stmt_fits c s \<longleftrightarrow> ps_index s < length (stmt_shape c) \<and> length (ps_data s) \<le> 255 \<and> list_all data_fits (ps_data s) \<and>
     (\<exists>n q. stmt_shape c ! ps_index s = Some (True, n, q) \<and> length (ps_data s) \<le> n)"

lemma stmt_fits_cong: "stmt_shape c = stmt_shape c' \<Longrightarrow> stmt_fits c s = stmt_fits c' s"
  by (simp add: stmt_fits_def)

lemma stmt_shape_updates [simp]:
  "stmt_shape (c\<lparr>cn_world := w, cn_errno := e, cn_trace := tr\<rparr>) = stmt_shape c"
  "cn_trace (cn_set_stmt i m c) = cn_trace c" "cn_connected (cn_set_stmt i m c) = cn_connected c"
  "cn_errno (cn_set_stmt i m c) = cn_errno c" "length (cn_stmts (cn_set_stmt i m c)) = length (cn_stmts c)"
  by (simp_all add: stmt_shape_def cn_set_stmt_def)

text \<open>A statement in text form ends with or without success, or aborts the process.\<close>

lemma cn_Execute_ends:
  assumes "stays_connected api" "cn_connected c"
  shows "(\<exists>ok c'. cn_Execute api sql c = Some (Inr (ok, c')) \<and> cn_connected c' \<and> cn_trace c' = cn_trace c @ [Ran sql ok] \<and>
      stmt_shape c' = stmt_shape c \<and> (\<not> ok \<longrightarrow> cn_errno c' \<noteq> 0)) \<or>
    (\<exists>x. cn_Execute api sql c = Some (Inl x) \<and> fatal_failure x \<and> c_str sql \<notin> {START_TRANSACTION, ROLLBACK, COMMIT})"
proof -
  obtain r w where q: "api_query api (c_str sql) (cn_world c) = (r, w)" by fastforce
  show ?thesis
  proof (cases r)
    case (Some e)
    then consider "harmless e" | "fatal e" "c_str sql \<notin> {START_TRANSACTION, ROLLBACK, COMMIT}"
      using q assms(1) unfolding stays_connected_def by (metis fst_conv)
    then show ?thesis
    proof cases
      case 1
      then show ?thesis using assms(2) Some q
        by (intro disjI1, subst cn_Execute.simps) (simp add: HandleMySQLErrno_harmless ex_bool_eq, simp add: harmless_def)
    next
      case 2
      then obtain x where "HandleMySQLErrno api e 5 (c\<lparr>cn_world := w, cn_errno := e, cn_trace := cn_trace c @ [Ran sql False]\<rparr>) = Inl x" "fatal_failure x"
        using HandleMySQLErrno_fatal by blast
      then show ?thesis using assms(2) Some q 2(2) by (intro disjI2 exI [of _ x], subst cn_Execute.simps) simp
    qed
  qed (use assms(2) q in \<open>simp add: cn_Execute.simps ex_bool_eq\<close>)
qed

lemma cn_Execute_run:
  assumes "stays_connected api" "cn_connected c" "sql \<in> {START_TRANSACTION, ROLLBACK, COMMIT}"
  shows "\<exists>ok c'. cn_Execute api sql c = Some (Inr (ok, c')) \<and> cn_connected c' \<and> cn_trace c' = cn_trace c @ [Ran sql ok] \<and>
    stmt_shape c' = stmt_shape c \<and> (\<not> ok \<longrightarrow> cn_errno c' \<noteq> 0)"
proof -
  have "c_str sql \<in> {START_TRANSACTION, ROLLBACK, COMMIT}" using assms(3) by auto
  then show ?thesis using cn_Execute_ends [OF assms(1,2), of sql] by blast
qed

text \<open>The values a connection sends for a statement are those of its parameters.\<close>

definition sends :: "endian \<Rightarrow> prepared_statement \<Rightarrow> mysql_bind list \<Rightarrow> bool" where
  "sends h s bs \<longleftrightarrow> map (bind_value h) (take (length (ps_data s)) bs) = map (Some \<circ> sent_data) (ps_data s)"

lemma BindParameters_sends:
  assumes "ms_ok m" "length (ps_data s) \<le> ms_paramCount m" "length (ps_data s) \<le> 255" "list_all data_fits (ps_data s)"
  shows "\<exists>m'. BindParameters h s m = Inr m' \<and> sends h s (ms_bind m') \<and> ms_ok m' \<and> ms_paramCount m' = ms_paramCount m \<and>
    ms_queryString m' = ms_queryString m"
proof -
  have l: "length (ps_data s) \<le> length (ms_bind m)" using assms(1,2) by (simp add: ms_ok_def)
  have "map (bind_value h) (map2 (bind_data h) (ps_data s) (ms_bind m)) = map (Some \<circ> sent_data) (ps_data s)"
    using l assms(4) by (auto simp: list_eq_iff_nth_eq bind_data_value list_all_length)
  then show ?thesis using assms l by (auto simp: BindParameters_eq sends_def ms_ok_def)
qed

lemma cn_bound_ok:
  assumes "stmt_fits c s"
  shows "\<exists>m. cn_bound api s c = Inr m \<and> sends (api_host api) s (ms_bind m) \<and>
    stmt_shape c ! ps_index s = Some (ms_ok m, ms_paramCount m, ms_queryString m) \<and> ps_index s < length (cn_stmts c) \<and> ms_ok m"
proof -
  from assms obtain m where "cn_stmts c ! ps_index s = Some m" "ps_index s < length (cn_stmts c)" "ms_ok m"
      "length (ps_data s) \<le> ms_paramCount m" "length (ps_data s) \<le> 255" "list_all data_fits (ps_data s)"
    by (auto simp: stmt_fits_def stmt_shape_def)
  then show ?thesis using BindParameters_sends [of m s "api_host api"]
    by (auto simp: cn_bound_def cn_GetPreparedStatement_def stmt_shape_def)
qed

lemma stmt_shape_set:
  assumes "stmt_shape c ! i = Some (ms_ok m, ms_paramCount m, ms_queryString m)" "i < length (cn_stmts c)"
  shows "stmt_shape (cn_set_stmt i m c) = stmt_shape c"
  using assms by (simp add: stmt_shape_def cn_set_stmt_def map_update list_update_same_conv [THEN iffD2])

lemma ClearParameters_keeps [simp]:
  "ms_paramCount (ClearParameters m) = ms_paramCount m" "ms_queryString (ClearParameters m) = ms_queryString m"
  "ms_ok (ClearParameters m) = ms_ok m"
  by (simp_all add: ClearParameters_def ms_ok_def)

lemma cn_Execute_stmt_ends:
  assumes "stays_connected api" "cn_connected c" "stmt_fits c s"
  shows "(\<exists>ok bs c'. cn_Execute_stmt api s c = Some (Inr (ok, c')) \<and> cn_connected c' \<and>
      cn_trace c' = cn_trace c @ [RanStmt (ps_index s) bs ok] \<and> sends (api_host api) s bs \<and>
      stmt_shape c' = stmt_shape c \<and> (\<not> ok \<longrightarrow> cn_errno c' \<noteq> 0)) \<or>
    (\<exists>x. cn_Execute_stmt api s c = Some (Inl x) \<and> fatal_failure x)"
proof -
  obtain m where m: "cn_bound api s c = Inr m" "sends (api_host api) s (ms_bind m)"
      "stmt_shape c ! ps_index s = Some (ms_ok m, ms_paramCount m, ms_queryString m)" "ps_index s < length (cn_stmts c)"
    using cn_bound_ok [OF assms(3)] by metis
  obtain r w where q: "cn_stmt_call api m (cn_world c) = (r, w)" by fastforce
  show ?thesis
  proof (cases r)
    case None
    then show ?thesis using assms(2) q m by (subst cn_Execute_stmt.simps) (simp add: stmt_shape_set ex_bool_eq)
  next
    case (Some e)
    then consider "harmless e" | "fatal e" using q assms(1) unfolding stays_connected_def by (metis fst_conv)
    then show ?thesis
    proof cases
      case 1
      then have "e \<noteq> 0" by (simp add: harmless_def)
      then show ?thesis using assms(2) Some q m 1
        by (intro disjI1, subst cn_Execute_stmt.simps) (simp add: HandleMySQLErrno_harmless stmt_shape_set ex_bool_eq)
    next
      case 2
      then obtain x where "HandleMySQLErrno api e 5 (cn_set_stmt (ps_index s) m
          (c\<lparr>cn_world := w, cn_errno := e, cn_trace := cn_trace c @ [RanStmt (ps_index s) (ms_bind m) False]\<rparr>)) = Inl x" "fatal_failure x"
        using HandleMySQLErrno_fatal by blast
      then show ?thesis using assms(2) Some q m by (intro disjI2 exI [of _ x], subst cn_Execute_stmt.simps) simp
    qed
  qed
qed

section \<open>Transactions that are not interrupted\<close>

fun element_ok :: "'w mysql_connection \<Rightarrow> prepared_statement sql_element \<Rightarrow> bool" where
  "element_ok c (SqlRaw sql) = (sql \<noteq> [])"
| "element_ok c (SqlPrepared None) = False"
| "element_ok c (SqlPrepared (Some s)) = stmt_fits c s"

fun event_of :: "endian \<Rightarrow> bool \<Rightarrow> prepared_statement sql_element \<Rightarrow> conn_event \<Rightarrow> bool" where
  "event_of h ok (SqlRaw sql) e = (e = Ran sql ok)"
| "event_of h ok (SqlPrepared None) e = False"
| "event_of h ok (SqlPrepared (Some s)) e = (\<exists>bs. e = RanStmt (ps_index s) bs ok \<and> sends h s bs)"

lemma element_ok_cong: "stmt_shape c = stmt_shape c' \<Longrightarrow> element_ok c q = element_ok c' q"
  by (cases "(c, q)" rule: element_ok.cases) (auto simp: stmt_fits_cong [of c c'])

lemma run_element_ends:
  assumes "stays_connected api" "cn_connected c" "element_ok c q"
  shows "(\<exists>ok e c'. run_element api q c = Some (Inr (ok, c')) \<and> cn_connected c' \<and> cn_trace c' = cn_trace c @ [e] \<and>
      event_of (api_host api) ok q e \<and> stmt_shape c' = stmt_shape c \<and> (\<not> ok \<longrightarrow> cn_errno c' \<noteq> 0)) \<or>
    (\<exists>x. run_element api q c = Some (Inl x) \<and> fatal_failure x)"
proof (cases q)
  case (SqlRaw sql)
  then show ?thesis using assms cn_Execute_ends [OF assms(1,2), of sql] by auto
next
  case (SqlPrepared os)
  then obtain s where "os = Some s" using assms(3) by (cases os) auto
  then show ?thesis using SqlPrepared assms cn_Execute_stmt_ends [OF assms(1,2), of s] by auto
qed

definition transaction_events ::
  "endian \<Rightarrow> prepared_statement sql_element list \<Rightarrow> int option \<Rightarrow> conn_event list \<Rightarrow> bool" where
  "transaction_events h qs err es \<longleftrightarrow>
     (case err of
        None \<Rightarrow> list_all2 (event_of h True) qs es
      | Some code \<Rightarrow> code \<noteq> 0 \<and> (\<exists>k es' e b. k < length qs \<and> es = es' @ [e, Ran ROLLBACK b] \<and>
          list_all2 (event_of h True) (take k qs) es' \<and> event_of h False (qs ! k) e))"

lemma transaction_events_Cons:
  assumes "event_of h True q e" "transaction_events h qs err es"
  shows "transaction_events h (q # qs) err (e # es)"
proof (cases err)
  case (Some code)
  with assms(2) obtain k es' e' b where "code \<noteq> 0" "k < length qs" "es = es' @ [e', Ran ROLLBACK b]"
      "list_all2 (event_of h True) (take k qs) es'" "event_of h False (qs ! k) e'"
    by (auto simp: transaction_events_def)
  then show ?thesis using assms(1) Some unfolding transaction_events_def
    by (auto intro!: exI [of _ "Suc k"] exI [of _ "e # es'"])
qed (use assms in \<open>simp add: transaction_events_def\<close>)

text \<open>The process aborts in the element \<open>k\<close>, after those before it have run.\<close>

definition aborts_at ::
  "('w, 'r) mysql_api \<Rightarrow> prepared_statement sql_element list \<Rightarrow> 'w mysql_connection \<Rightarrow> nat \<Rightarrow> exn \<Rightarrow> bool" where
  "aborts_at api qs c k x \<longleftrightarrow> k < length qs \<and> fatal_failure x \<and>
     (\<exists>ck es. run_elements api (take k qs) c = Some (Inr (None, ck)) \<and> cn_trace ck = cn_trace c @ es \<and>
        list_all2 (event_of (api_host api) True) (take k qs) es \<and> run_element api (qs ! k) ck = Some (Inl x))"

lemma aborts_at_Cons:
  assumes "run_element api q c = Some (Inr (True, c1))" "cn_trace c1 = cn_trace c @ [e]" "event_of (api_host api) True q e" "aborts_at api qs c1 k x"
  shows "aborts_at api (q # qs) c (Suc k) x"
proof -
  obtain ck es where "run_elements api (take k qs) c1 = Some (Inr (None, ck))" "cn_trace ck = cn_trace c1 @ es"
      "list_all2 (event_of (api_host api) True) (take k qs) es" "run_element api (qs ! k) ck = Some (Inl x)"
    using assms(4) by (auto simp: aborts_at_def)
  then show ?thesis using assms by (auto simp: aborts_at_def intro!: exI [of _ "e # es"])
qed

lemma run_elements_ends:
  assumes "stays_connected api" "cn_connected c" "list_all (element_ok c) qs"
  shows "(\<exists>err es c'. run_elements api qs c = Some (Inr (err, c')) \<and> cn_connected c' \<and> cn_trace c' = cn_trace c @ es \<and>
      transaction_events (api_host api) qs err es) \<or>
    (\<exists>k x. run_elements api qs c = Some (Inl x) \<and> aborts_at api qs c k x)"
  using assms(2,3)
proof (induction qs arbitrary: c)
  case Nil
  then show ?case by (simp add: transaction_events_def)
next
  case (Cons q qs)
  consider ok e c1 where "run_element api q c = Some (Inr (ok, c1))" "cn_connected c1" "cn_trace c1 = cn_trace c @ [e]"
      "event_of (api_host api) ok q e" "stmt_shape c1 = stmt_shape c" "\<not> ok \<longrightarrow> cn_errno c1 \<noteq> 0"
    | x where "run_element api q c = Some (Inl x)" "fatal_failure x"
    using run_element_ends [OF assms(1) Cons.prems(1), of q] Cons.prems(2) by auto
  then show ?case
  proof cases
    case (1 ok e c1)
    show ?thesis
    proof (cases ok)
      case True
      have "list_all (element_ok c1) qs" using Cons.prems(2) by (simp add: element_ok_cong [OF 1(5)] cong: list.pred_cong)
      from Cons.IH [OF 1(2) this] show ?thesis
      proof (elim disjE exE conjE)
        fix err es c'
        assume "run_elements api qs c1 = Some (Inr (err, c'))" "cn_connected c'" "cn_trace c' = cn_trace c1 @ es"
          "transaction_events (api_host api) qs err es"
        then show ?thesis using 1 True by (auto intro!: disjI1 transaction_events_Cons)
      next
        fix k x
        assume "run_elements api qs c1 = Some (Inl x)" "aborts_at api qs c1 k x"
        then show ?thesis using 1 True aborts_at_Cons [of api q c c1 e qs k x] by (intro disjI2 exI [of _ "Suc k"] exI [of _ x]) simp
      qed
    next
      case False
      obtain ok' c2 where "cn_Execute api ROLLBACK c1 = Some (Inr (ok', c2))" "cn_connected c2" "cn_trace c2 = cn_trace c1 @ [Ran ROLLBACK ok']"
        using cn_Execute_run [OF assms(1) 1(2)] by blast
      then show ?thesis using 1 False by (intro disjI1) (auto simp: GetLastError_def transaction_events_def intro!: exI [of _ 0])
    qed
  next
    case (2 x)
    then show ?thesis by (intro disjI2 exI [of _ 0] exI [of _ x]) (simp add: aborts_at_def)
  qed
qed


section \<open>Preparing all statements\<close>

text \<open>A library that can prepare every statement of the table and counts its question marks.\<close>

definition prepares :: "('w, 'r) mysql_api \<Rightarrow> bool" where
  "prepares api \<longleftrightarrow> (\<forall>(st, sql, flags) \<in> set discord_statements. \<forall>w. fst (api_stmt_prepare api (bytes_of sql) w) = Some (marks sql))"

definition prepare_step ::
  "uint32 \<Rightarrow> mysql_statement option list \<Rightarrow> DiscordDatabaseStatements \<times> string \<times> uint32 \<Rightarrow> mysql_statement option list" where
  "prepare_step flags ss = (\<lambda>(st, sql, fl).
     ss[statement_index st := (if flags AND fl = 0 then None else Some (MySQLPreparedStatement_new (marks sql) (bytes_of sql)))])"

lemma length_prepare_steps [simp]: "length (foldl (prepare_step flags) ss L) = length ss"
  by (induction L arbitrary: ss) (auto simp: prepare_step_def)

lemma prepare_all_ok:
  assumes "prepares api" "set L \<subseteq> set discord_statements" "\<forall>(st, sql, fl) \<in> set L. statement_index st < length (cn_stmts c)"
  shows "\<exists>w. prepare_all api L c = Inr (c\<lparr>cn_world := w, cn_stmts := foldl (prepare_step (cn_flags c)) (cn_stmts c) L\<rparr>)"
  using assms(2,3)
proof (induction L arbitrary: c)
  case Nil
  have "c = c\<lparr>cn_world := cn_world c, cn_stmts := cn_stmts c\<rparr>" by simp
  then show ?case by (metis foldl_Nil prepare_all.simps(1))
next
  case (Cons a L)
  obtain st sql fl where a: "a = (st, sql, fl)" by (metis prod_cases3)
  obtain w1 where w1: "api_stmt_prepare api (bytes_of sql) (cn_world c) = (Some (marks sql), w1)"
    using assms(1) Cons.prems(1) a unfolding prepares_def by (fastforce intro: prod.expand)
  define w where "w = (if cn_flags c AND fl = 0 then cn_world c else w1)"
  define c1 where "c1 = c\<lparr>cn_world := w, cn_stmts := prepare_step (cn_flags c) (cn_stmts c) a\<rparr>"
  have step: "PrepareStatement api (statement_index st) (bytes_of sql) fl c = Inr c1"
    using Cons.prems(2) w1 by (auto simp: PrepareStatement_def c1_def w_def prepare_step_def a)
  have "\<forall>(st, sql, fl) \<in> set L. statement_index st < length (cn_stmts c1)"
    using Cons.prems(2) by (auto simp: c1_def prepare_step_def a)
  from Cons.IH [OF _ this] Cons.prems(1) show ?case by (auto simp: a step) (auto simp: c1_def a)
qed

lemma statement_index_less: "statement_index st < MAX_DISCORD_DATABASE_STATEMENTS"
  by (cases st) (simp_all add: MAX_DISCORD_DATABASE_STATEMENTS_def)

lemma PrepareStatements_ok:
  assumes "prepares api" "\<not> cn_prepareError c" "cn_reconnecting c \<Longrightarrow> length (cn_stmts c) = MAX_DISCORD_DATABASE_STATEMENTS"
  shows "\<exists>w ss. cn_PrepareStatements api c = Inr (True, c\<lparr>cn_world := w, cn_stmts := ss\<rparr>) \<and>
    length ss = MAX_DISCORD_DATABASE_STATEMENTS"
proof -
  define c1 where "c1 = (if cn_reconnecting c then c else c\<lparr>cn_stmts := stmts_resize MAX_DISCORD_DATABASE_STATEMENTS (cn_stmts c)\<rparr>)"
  have l: "length (cn_stmts c1) = MAX_DISCORD_DATABASE_STATEMENTS" using assms(3) by (simp add: c1_def stmts_resize_def min_def)
  define ss where "ss = foldl (prepare_step (cn_flags c1)) (cn_stmts c1) discord_statements"
  have "c1\<lparr>cn_world := w, cn_stmts := ss\<rparr> = c\<lparr>cn_world := w, cn_stmts := ss\<rparr>" for w by (simp add: c1_def)
  moreover have "\<forall>(st, sql, fl) \<in> set discord_statements. statement_index st < length (cn_stmts c1)"
    by (simp add: l statement_index_less split: prod.split)
  ultimately obtain w where "prepare_all api discord_statements c1 = Inr (c\<lparr>cn_world := w, cn_stmts := ss\<rparr>)"
    using prepare_all_ok [OF assms(1) subset_refl, of c1] unfolding ss_def [symmetric] by auto
  then have "cn_PrepareStatements api c = Inr (True, c\<lparr>cn_world := w, cn_stmts := ss\<rparr>)"
    using assms(2) by (simp add: cn_PrepareStatements_def DoPrepareStatements_def c1_def [symmetric])
  moreover have "length ss = MAX_DISCORD_DATABASE_STATEMENTS" using l by (simp add: ss_def)
  ultimately show ?thesis by blast
qed

section \<open>A lost connection\<close>

text \<open>A connection that can be opened again: its statements have their place, and the port is a number.\<close>

definition reconnectable :: "'w mysql_connection \<Rightarrow> bool" where
  "reconnectable c \<longleftrightarrow> length (cn_stmts c) = MAX_DISCORD_DATABASE_STATEMENTS \<and> \<not> cn_prepareError c \<and>
     ci_host (cn_info c) \<noteq> bytes_of ''.'' \<and> FromString_int uint32_type 10 (ci_port_or_socket (cn_info c)) \<noteq> None"

definition accepts :: "('w, 'r) mysql_api \<Rightarrow> bool" where
  "accepts api \<longleftrightarrow> prepares api \<and> (\<forall>w. fst (api_init api w)) \<and> (\<forall>args w. fst (api_connect api args w) = None)"

lemma cn_Open_accepts:
  assumes "accepts api" "reconnectable c"
  shows "\<exists>w. cn_Open api c = Inr (0, c\<lparr>cn_connected := True, cn_errno := 0, cn_world := w, cn_trace := cn_trace c @ [ConnectTried True]\<rparr>)"
proof -
  obtain port where port: "FromString_int uint32_type 10 (ci_port_or_socket (cn_info c)) = Some port" and h: "ci_host (cn_info c) \<noteq> bytes_of ''.''"
    using assms(2) by (auto simp: reconnectable_def)
  obtain w1 where w1: "api_init api (cn_world c) = (True, w1)" using assms(1) unfolding accepts_def by (metis prod.collapse)
  have con: "fst (api_connect api args w) = None" for args w using assms(1) by (simp add: accepts_def)
  have "c\<lparr>cn_info := cn_info c\<rparr> = c" by simp
  then show ?thesis unfolding cn_Open_def w1 Let_def using con
    by (auto simp: port h split: prod.split option.split) (metis fst_conv option.distinct(1))+
qed

lemma HandleMySQLErrno_reconnects:
  assumes "accepts api" "reconnectable c" "is_lost e" "cn_connected c"
  shows "\<exists>w ss. HandleMySQLErrno api e a c =
      Inr (True, c\<lparr>cn_world := w, cn_errno := 0, cn_stmts := ss, cn_reconnecting := False,
        cn_trace := cn_trace c @ [HandleClosed, ConnectTried True]\<rparr>) \<and> length ss = MAX_DISCORD_DATABASE_STATEMENTS"
proof -
  define c2 where "c2 = (cn_close_handle c)\<lparr>cn_reconnecting := True\<rparr>"
  have "reconnectable c2" using assms(2) by (simp add: reconnectable_def c2_def cn_close_handle_def)
  then obtain w where op: "cn_Open api c2 = Inr (0, c2\<lparr>cn_connected := True, cn_errno := 0, cn_world := w, cn_trace := cn_trace c2 @ [ConnectTried True]\<rparr>)"
    using cn_Open_accepts [OF assms(1)] by blast
  define c3 where "c3 = c2\<lparr>cn_connected := True, cn_errno := 0, cn_world := w, cn_trace := cn_trace c2 @ [ConnectTried True]\<rparr>"
  have "\<exists>w ss. cn_PrepareStatements api c3 = Inr (True, c3\<lparr>cn_world := w, cn_stmts := ss\<rparr>) \<and> length ss = MAX_DISCORD_DATABASE_STATEMENTS"
    using assms(1,2) by (intro PrepareStatements_ok) (simp_all add: accepts_def c3_def c2_def cn_close_handle_def reconnectable_def)
  then obtain w' ss where pr: "cn_PrepareStatements api c3 = Inr (True, c3\<lparr>cn_world := w', cn_stmts := ss\<rparr>)"
    and l: "length ss = MAX_DISCORD_DATABASE_STATEMENTS" by blast
  have "HandleMySQLErrno api e a c = Inr (True, c3\<lparr>cn_world := w', cn_stmts := ss, cn_reconnecting := False\<rparr>)"
    using assms(3) op pr by (subst HandleMySQLErrno.simps) (simp add: c2_def [symmetric] c3_def [symmetric])
  moreover have "c3\<lparr>cn_world := w', cn_stmts := ss, cn_reconnecting := False\<rparr> =
      c\<lparr>cn_world := w', cn_errno := 0, cn_stmts := ss, cn_reconnecting := False, cn_trace := cn_trace c @ [HandleClosed, ConnectTried True]\<rparr>"
    using assms(4) by (cases c) (simp add: c3_def c2_def cn_close_handle_def)
  ultimately show ?thesis using l by metis
qed

lemma lost_step:
  assumes "accepts api" "reconnectable c" "cn_connected c" "is_lost e" "fst (api_query api (c_str sql) (cn_world c)) = Some e"
  shows "\<exists>w c'. api_query api (c_str sql) (cn_world c) = (Some e, w) \<and>
    HandleMySQLErrno api e 5 (c\<lparr>cn_world := w, cn_errno := e, cn_trace := cn_trace c @ [Ran sql False]\<rparr>) = Inr (True, c') \<and>
    reconnectable c' \<and> cn_connected c' \<and> cn_trace c' = cn_trace c @ [Ran sql False, HandleClosed, ConnectTried True]"
proof -
  obtain w where q: "api_query api (c_str sql) (cn_world c) = (Some e, w)" using assms(5) by (metis prod.collapse)
  define c1 where "c1 = c\<lparr>cn_world := w, cn_errno := e, cn_trace := cn_trace c @ [Ran sql False]\<rparr>"
  obtain w' ss where "HandleMySQLErrno api e 5 c1 = Inr (True, c1\<lparr>cn_world := w', cn_errno := 0, cn_stmts := ss, cn_reconnecting := False,
        cn_trace := cn_trace c1 @ [HandleClosed, ConnectTried True]\<rparr>)" "length ss = MAX_DISCORD_DATABASE_STATEMENTS"
    using HandleMySQLErrno_reconnects [OF assms(1), of c1 e 5] assms(2-4) by (auto simp: c1_def reconnectable_def)
  then show ?thesis using assms(2,3) q by (auto simp: c1_def reconnectable_def)
qed

text \<open>
  A statement that loses the connection each time is retried for ever: \<open>Execute\<close> does not return when the server takes every new
  connection and drops it at the statement.
\<close>

theorem execute_retries_forever:
  assumes "accepts api" "reconnectable c" "cn_connected c" "\<forall>w. \<exists>e. fst (api_query api (c_str sql) w) = Some e \<and> is_lost e"
  shows "cn_Execute api sql c = None"
proof -
  have "api' = api \<longrightarrow> sql' = sql \<longrightarrow> reconnectable c' \<longrightarrow> cn_connected c' \<longrightarrow> False" if "cn_Execute api' sql' c' = Some y" for api' sql' c' y
    using that
  proof (rule cn_Execute.raw_induct [rotated], intro impI)
    fix self :: "('a, 'b) mysql_api \<Rightarrow> uint8 list \<Rightarrow> 'a mysql_connection \<Rightarrow> (bool \<times> 'a mysql_connection) res option"
      and api' sql' c' y
    assume IH: "\<And>api' sql' c' y. self api' sql' c' = Some y \<Longrightarrow>
        api' = api \<longrightarrow> sql' = sql \<longrightarrow> reconnectable c' \<longrightarrow> cn_connected c' \<longrightarrow> False"
      and body: "(if \<not> cn_connected c' then Some (Inr (False, c'))
        else case api_query api' (c_str sql') (cn_world c') of
          (None, w) \<Rightarrow> Some (Inr (True, c'\<lparr>cn_world := w, cn_errno := 0, cn_trace := cn_trace c' @ [Ran sql' True]\<rparr>))
        | (Some e, w) \<Rightarrow>
            (case HandleMySQLErrno api' e 5 (c'\<lparr>cn_world := w, cn_errno := e, cn_trace := cn_trace c' @ [Ran sql' False]\<rparr>) of
               Inl x \<Rightarrow> Some (Inl x)
             | Inr (handled, c'') \<Rightarrow> if handled then self api' sql' c'' else Some (Inr (False, c'')))) = Some y"
      and c': "api' = api" "sql' = sql" "reconnectable c'" "cn_connected c'"
    obtain e where "fst (api_query api (c_str sql) (cn_world c')) = Some e" "is_lost e" using assms(4) by blast
    with lost_step [OF assms(1) c'(3,4)] obtain w c2 where "api_query api (c_str sql) (cn_world c') = (Some e, w)"
        "HandleMySQLErrno api e 5 (c'\<lparr>cn_world := w, cn_errno := e, cn_trace := cn_trace c' @ [Ran sql False]\<rparr>) = Inr (True, c2)"
        "reconnectable c2" "cn_connected c2" by blast
    then show False using body c' IH [of api sql c2 y] by simp
  qed
  then show ?thesis using assms(2,3) by (cases "cn_Execute api sql c") auto
qed

section \<open>A transaction that loses its connection\<close>

text \<open>A library that takes the answers of its queries from a list, and succeeds where the list ends.\<close>

definition script_api :: "(int option list, unit) mysql_api" where
  "script_api = \<lparr>api_host = WARHEAD_LITTLEENDIAN, api_init = (\<lambda>w. (True, w)), api_connect = (\<lambda>args w. (None, w)),
     api_query = (\<lambda>sql w. case w of [] \<Rightarrow> (None, []) | a # w' \<Rightarrow> (a, w')), api_store = (\<lambda>w. ((None, 0), w)),
     api_stmt_prepare = (\<lambda>sql w. (Some (marks (map char_of_byte sql)), w)), api_stmt_bind = (\<lambda>bs w. (None, w)),
     api_stmt_execute = (\<lambda>sql bs w. (None, w)), api_stmt_result = (\<lambda>w. ((None, 0), w)), api_errno_null = (\<lambda>w. 0),
     api_server_version = (\<lambda>w. 80000)\<rparr>"

lemma script_api_accepts: "accepts script_api"
  by (simp add: accepts_def prepares_def script_api_def bytes_of_def o_def)

lemma script_Execute:
  assumes "cn_connected c" "cn_world c = [] \<or> hd (cn_world c) = None"
  shows "cn_Execute script_api sql c = Some (Inr (True, c\<lparr>cn_world := tl (cn_world c), cn_errno := 0, cn_trace := cn_trace c @ [Ran sql True]\<rparr>))"
  using assms by (subst cn_Execute.simps) (auto simp: script_api_def split: list.split)

lemma script_Open: "cn_Open script_api c = Inr (e, c') \<Longrightarrow> cn_world c' = cn_world c \<and> e = 0"
  by (auto simp: cn_Open_def script_api_def Let_def split: if_splits option.splits)

lemma script_prepare_all: "prepare_all script_api L c = Inr c' \<Longrightarrow> cn_world c' = cn_world c"
proof (induction L arbitrary: c)
  case (Cons a L)
  then show ?case by (cases a) (force simp: PrepareStatement_def script_api_def split: if_splits)
qed simp

lemma script_Handle:
  assumes "HandleMySQLErrno script_api e a c = Inr (b, c')"
  shows "cn_world c' = cn_world c"
  using assms
  by (subst (asm) HandleMySQLErrno.simps)
    (auto simp: cn_PrepareStatements_def DoPrepareStatements_def Let_def cn_close_handle_def split: if_splits
      dest!: script_Open script_prepare_all)

lemma script_run_elements:
  assumes "cn_connected c" "cn_world c = replicate (length sqls) None @ w" "[] \<notin> set sqls"
  shows "run_elements script_api (map SqlRaw sqls @ qs) c =
    run_elements script_api qs (if sqls = [] then c else c\<lparr>cn_world := w, cn_errno := 0, cn_trace := cn_trace c @ map (\<lambda>s. Ran s True) sqls\<rparr>)"
  using assms by (induction sqls arbitrary: c) (auto simp: script_Execute)

lemma script_run_elements_end:
  assumes "cn_connected c" "cn_world c = []" "[] \<notin> set sqls"
  shows "run_elements script_api (map SqlRaw sqls) c =
    Some (Inr (None, if sqls = [] then c else c\<lparr>cn_world := [], cn_errno := 0, cn_trace := cn_trace c @ map (\<lambda>s. Ran s True) sqls\<rparr>))"
  using assms by (induction sqls arbitrary: c) (auto simp: script_Execute)

text \<open>
  C10. A connection that is lost in the middle of a transaction breaks it: when statement \<open>q\<close> loses the connection, a new one
  is opened on which no transaction is started, \<open>q\<close> and the statements after it run there, each by itself, and the result is that of
  a success, although those before \<open>q\<close> were lost with the first connection.
\<close>

theorem transaction_broken_by_reconnect:
  assumes "reconnectable c" "cn_connected c" "[] \<notin> set (sqls1 @ q # sqls2)" "is_lost e"
    "cn_world c = None # replicate (length sqls1) None @ [Some e]" "tr_queries t = map SqlRaw (sqls1 @ q # sqls2)"
  shows "\<exists>c'. ExecuteTransaction script_api t c = Some (Inr (0, c')) \<and>
    cn_trace c' = cn_trace c @ Ran START_TRANSACTION True # map (\<lambda>s. Ran s True) sqls1 @
      [Ran q False, HandleClosed, ConnectTried True] @ map (\<lambda>s. Ran s True) (q # sqls2) @ [Ran COMMIT True]"
proof -
  define c1 where "c1 = c\<lparr>cn_world := tl (cn_world c), cn_errno := 0, cn_trace := cn_trace c @ [Ran START_TRANSACTION True]\<rparr>"
  define c2 where "c2 = (if sqls1 = [] then c1 else c1\<lparr>cn_world := [Some e], cn_errno := 0, cn_trace := cn_trace c1 @ map (\<lambda>s. Ran s True) sqls1\<rparr>)"
  have start: "cn_Execute script_api START_TRANSACTION c = Some (Inr (True, c1))"
    using assms(2,5) by (simp add: script_Execute c1_def)
  have run1: "run_elements script_api (tr_queries t) c1 = run_elements script_api (map SqlRaw (q # sqls2)) c2"
    using script_run_elements [of c1 sqls1 "[Some e]" "map SqlRaw (q # sqls2)"] assms by (simp add: c1_def c2_def)
  have c2: "cn_connected c2" "reconnectable c2" "cn_world c2 = [Some e]" "cn_trace c2 = cn_trace c1 @ map (\<lambda>s. Ran s True) sqls1"
    using assms(1,2,5) by (auto simp: c2_def c1_def reconnectable_def)
  then obtain c3 where c3: "cn_Execute script_api q c2 = cn_Execute script_api q c3" "cn_connected c3" "cn_world c3 = []"
      "cn_trace c3 = cn_trace c2 @ [Ran q False, HandleClosed, ConnectTried True]"
  proof -
    obtain w c3 where "api_query script_api (c_str q) (cn_world c2) = (Some e, w)"
        "HandleMySQLErrno script_api e 5 (c2\<lparr>cn_world := w, cn_errno := e, cn_trace := cn_trace c2 @ [Ran q False]\<rparr>) = Inr (True, c3)"
        "cn_connected c3" "cn_trace c3 = cn_trace c2 @ [Ran q False, HandleClosed, ConnectTried True]" "cn_world c3 = []"
      using lost_step [OF script_api_accepts c2(2,1) assms(4), of q] c2(3) script_Handle by (fastforce simp: script_api_def)
    then show ?thesis using that c2(1) by (subst (asm) cn_Execute.simps) simp
  qed
  define c4 where "c4 = c3\<lparr>cn_world := [], cn_errno := 0, cn_trace := cn_trace c3 @ [Ran q True]\<rparr>"
  have q: "cn_Execute script_api q c2 = Some (Inr (True, c4))" using c3 by (simp add: script_Execute c4_def)
  define c5 where "c5 = (if sqls2 = [] then c4 else c4\<lparr>cn_world := [], cn_errno := 0, cn_trace := cn_trace c4 @ map (\<lambda>s. Ran s True) sqls2\<rparr>)"
  have "run_elements script_api (map SqlRaw sqls2) c4 = Some (Inr (None, c5))" if "cn_world c4 = []"
    using script_run_elements_end [of c4 sqls2] c3 assms(3) by (simp add: c4_def c5_def)
  then have "run_elements script_api (tr_queries t) c1 = Some (Inr (None, c5))"
    using run1 q assms(3) by (auto simp: c4_def)
  moreover have "cn_Execute script_api COMMIT c5 = Some (Inr (True, c5\<lparr>cn_world := [], cn_errno := 0, cn_trace := cn_trace c5 @ [Ran COMMIT True]\<rparr>))"
    using c3(2) by (subst script_Execute) (auto simp: c5_def c4_def)
  ultimately show ?thesis using start assms(6) c2(4) c3(4) by (auto simp: ExecuteTransaction_def c5_def c4_def c1_def)
qed

definition test_connection :: "'w \<Rightarrow> 'w mysql_connection" where
  "test_connection w = (MySQLConnection_new CONNECTION_ASYNC (no_info\<lparr>ci_port_or_socket := [0x33]\<rparr>) w)
     \<lparr>cn_connected := True, cn_stmts := replicate MAX_DISCORD_DATABASE_STATEMENTS None\<rparr>"

lemma test_connection_reconnectable: "reconnectable (test_connection w)" "cn_connected (test_connection w)"
  "cn_trace (test_connection w) = []" "cn_world (test_connection w) = w"
proof -
  have "FromString_int uint32_type 10 [0x33] \<noteq> None" by code_simp
  then show "reconnectable (test_connection w)"
    by (simp add: reconnectable_def test_connection_def MySQLConnection_new_def no_info_def bytes_of_def)
qed (simp_all add: test_connection_def MySQLConnection_new_def)

theorem transaction_broken_by_reconnect_witness:
  "\<exists>c'. ExecuteTransaction script_api (Append [3] (Append [2] (Append [1] Transaction_new))) (test_connection [None, None, Some 2006]) = Some (Inr (0, c')) \<and>
    cn_trace c' = [Ran START_TRANSACTION True, Ran [1] True, Ran [2] False, HandleClosed, ConnectTried True, Ran [2] True, Ran [3] True, Ran COMMIT True]"
  using transaction_broken_by_reconnect [of "test_connection [None, None, Some 2006]" "[[1]]" "[2]" "[[3]]" 2006 "Append [3] (Append [2] (Append [1] Transaction_new))"]
  by (simp add: test_connection_reconnectable is_lost_def error_codes Append_def Transaction_new_def)

text \<open>A library at which the statement \<open>[2]\<close> fails with a duplicate entry and the statement \<open>[3]\<close> with a table that is missing.\<close>

definition failing_api :: "(int option list, unit) mysql_api" where
  "failing_api = script_api\<lparr>api_query := \<lambda>sql w. (if sql = [2] then Some ER_DUP_ENTRY else if sql = [3] then Some ER_NO_SUCH_TABLE else None, w)\<rparr>"

lemma failing_api_stays: "stays_connected failing_api"
proof -
  have "[3] \<notin> {START_TRANSACTION, ROLLBACK, COMMIT}" by code_simp
  then show ?thesis
    by (auto simp: stays_connected_def failing_api_def cn_stmt_call_def script_api_def harmless_def fatal_def is_lost_def error_codes split: if_splits)
qed

lemma failing_Execute:
  assumes "cn_connected c" "c_str sql \<noteq> [3]"
  shows "cn_Execute failing_api sql c = Some (Inr (c_str sql \<noteq> [2], c\<lparr>cn_world := cn_world c, cn_errno := (if c_str sql = [2] then ER_DUP_ENTRY else 0),
    cn_trace := cn_trace c @ [Ran sql (c_str sql \<noteq> [2])]\<rparr>))"
proof -
  have "harmless ER_DUP_ENTRY" by (simp add: harmless_def is_lost_def error_codes)
  then show ?thesis using assms by (subst cn_Execute.simps) (simp add: failing_api_def HandleMySQLErrno_harmless)
qed


section \<open>Attempts to connect\<close>

fun is_attempt :: "conn_event \<Rightarrow> bool" where
  "is_attempt (ConnectTried b) = True"
| "is_attempt e = False"

definition attempts_made :: "'w mysql_connection \<Rightarrow> nat" where
  "attempts_made c = length (filter is_attempt (cn_trace c))"

lemma prepare_all_keeps: "prepare_all api L c = Inr c' \<Longrightarrow> cn_trace c' = cn_trace c \<and> cn_connected c' = cn_connected c"
proof (induction L arbitrary: c)
  case (Cons a L)
  then show ?case by (cases a) (force simp: PrepareStatement_def split: if_splits option.splits prod.splits)
qed simp

lemma PrepareStatements_keeps:
  "cn_PrepareStatements api c = Inr (b, c') \<Longrightarrow> cn_trace c' = cn_trace c \<and> cn_connected c' = cn_connected c"
  by (auto simp: cn_PrepareStatements_def DoPrepareStatements_def dest!: prepare_all_keeps split: if_splits)

lemma Open_attempt:
  assumes "cn_Open api c = Inr (e, c')" "\<forall>args w. fst (api_connect api args w) \<noteq> Some 0"
  shows "attempts_made c' \<le> Suc (attempts_made c)" "e = 0 \<Longrightarrow> cn_connected c'"
  using assms
  by (auto simp: cn_Open_def Let_def attempts_made_def CR_UNKNOWN_ERROR_def split: if_splits option.splits prod.splits)
    (metis fst_conv)+

text \<open>
  A lost connection is opened again after at most as many attempts as are allowed; the statement is repeated only on an open
  connection.
\<close>

theorem reconnect_bounded:
  assumes "\<forall>args w. fst (api_connect api args w) \<noteq> Some 0" "HandleMySQLErrno api e a c = Inr (ok, c')"
  shows "attempts_made c' \<le> attempts_made c + attempts_left a \<and> (ok \<longrightarrow> cn_connected c' \<and> \<not> cn_reconnecting c')"
  using assms
proof (induction api e a c rule: HandleMySQLErrno.induct)
  case (1 api errNo attempts c)
  define c2 where "c2 = (if is_lost errNo then cn_close_handle c else c)\<lparr>cn_reconnecting := True\<rparr>"
  have made: "attempts_made c2 = attempts_made c" by (simp add: c2_def attempts_made_def cn_close_handle_def)
  have left: "1 \<le> attempts_left attempts" by (simp add: attempts_left_def Suc_le_eq unat_gt_0)
  show ?case
  proof (cases "is_lost errNo \<or> errNo = CR_CONN_HOST_ERROR")
    case True
    obtain l c3 where open3: "cn_Open api c2 = Inr (l, c3)"
      using 1(3) True by (subst (asm) HandleMySQLErrno.simps) (auto simp: c2_def [symmetric])
    note op = Open_attempt [OF open3 1(2)]
    show ?thesis
    proof (cases "l = 0")
      case l: True
      obtain c4 where "cn_PrepareStatements api c3 = Inr (True, c4)" "ok" "c' = c4\<lparr>cn_reconnecting := False\<rparr>"
        using 1(3) True open3 l by (subst (asm) HandleMySQLErrno.simps) (auto simp: c2_def [symmetric] split: if_splits)
      then show ?thesis using PrepareStatements_keeps [of api c3 True c4] op l made left by (auto simp: attempts_made_def)
    next
      case l: False
      then have "HandleMySQLErrno api errNo attempts c =
          (if attempts - 1 = 0 then Inl (AssertFailure ''Failed to reconnect to the MySQL server'') else HandleMySQLErrno api l (attempts - 1) c3)"
        using True open3 by (subst HandleMySQLErrno.simps) (simp add: c2_def [symmetric])
      then have a: "attempts - 1 \<noteq> 0" "HandleMySQLErrno api l (attempts - 1) c3 = Inr (ok, c')"
        using 1(3) by (auto split: if_splits)
      have "attempts_made c' \<le> attempts_made c3 + attempts_left (attempts - 1) \<and> (ok \<longrightarrow> cn_connected c' \<and> \<not> cn_reconnecting c')"
        using 1(1) [OF True _ _ open3 _ l a(1) 1(2) a(2)] by (auto simp: c2_def)
      then show ?thesis using attempts_left_less [OF a(1)] op(1) made by linarith
    qed
  next
    case False
    then have "c' = c \<and> \<not> ok" using 1(3) by (subst (asm) HandleMySQLErrno.simps) (auto split: if_splits)
    then show ?thesis by simp
  qed
qed

section \<open>The statements of a new connection\<close>

definition stmt_params :: "mysql_statement option list \<Rightarrow> nat option list" where
  "stmt_params = map (map_option ms_paramCount)"

lemma prepare_steps_params:
  "stmt_params (foldl (prepare_step flags) ss L) =
     foldl (\<lambda>ps (i, n, fl). ps[i := if flags AND fl = 0 then None else Some n]) (stmt_params ss)
       (map (\<lambda>(st, sql, fl). (statement_index st, marks sql, fl)) L)"
  by (induction L arbitrary: ss) (auto simp: prepare_step_def stmt_params_def map_update MySQLPreparedStatement_new_def)

lemma prepare_steps_ok:
  "\<forall>m. Some m \<in> set ss \<longrightarrow> ms_ok m \<Longrightarrow> Some m \<in> set (foldl (prepare_step flags) ss L) \<Longrightarrow> ms_ok m"
proof (induction L arbitrary: ss)
  case (Cons a L)
  have "\<forall>m. Some m \<in> set (prepare_step flags ss a) \<longrightarrow> ms_ok m"
    using Cons.prems(1) by (auto simp: prepare_step_def split: prod.splits dest!: set_update_subset_insert [THEN subsetD])
  then show ?case using Cons.IH [of "prepare_step flags ss a"] Cons.prems(2) by simp
qed simp

definition params_of :: "uint32 \<Rightarrow> nat option list" where
  "params_of flags =
     (if flags = CONNECTION_ASYNC then [Some 1, Some 5, Some 1, Some 1, None, Some 3, Some 1, Some 1, Some 4, Some 4, Some 0, None, Some 5]
      else [None, None, None, None, Some 0, None, None, None, None, None, None, None, None])"

lemma PrepareStatements_fresh:
  assumes "prepares api" "flags = CONNECTION_ASYNC \<or> flags = CONNECTION_SYNCH" "cn_flags c = flags" "cn_stmts c = []"
    "\<not> cn_prepareError c" "\<not> cn_reconnecting c"
  shows "\<exists>c'. cn_PrepareStatements api c = Inr (True, c') \<and> stmt_params (cn_stmts c') = params_of flags \<and>
    (\<forall>m. Some m \<in> set (cn_stmts c') \<longrightarrow> ms_ok m) \<and> length (cn_stmts c') = MAX_DISCORD_DATABASE_STATEMENTS \<and>
    cn_connected c' = cn_connected c"
proof -
  define c1 where "c1 = c\<lparr>cn_stmts := replicate MAX_DISCORD_DATABASE_STATEMENTS None\<rparr>"
  define ss where "ss = foldl (prepare_step flags) (cn_stmts c1) discord_statements"
  have "\<forall>(st, sql, fl) \<in> set discord_statements. statement_index st < length (cn_stmts c1)"
    by (simp add: c1_def statement_index_less split: prod.split)
  from prepare_all_ok [OF assms(1) subset_refl this] obtain w where "prepare_all api discord_statements c1 = Inr (c1\<lparr>cn_world := w, cn_stmts := ss\<rparr>)"
    using assms(3) by (auto simp: ss_def c1_def)
  then have "cn_PrepareStatements api c = Inr (True, c1\<lparr>cn_world := w, cn_stmts := ss\<rparr>)"
    using assms(4-6) by (simp add: cn_PrepareStatements_def DoPrepareStatements_def stmts_resize_def c1_def)
  moreover have "stmt_params ss = params_of flags"
    using assms(2) unfolding ss_def prepare_steps_params discord_statements_marks
    by (auto simp: c1_def stmt_params_def params_of_def MAX_DISCORD_DATABASE_STATEMENTS_def CONNECTION_ASYNC_def CONNECTION_SYNCH_def
        numeral_eq_Suc)
  moreover have "\<forall>m. Some m \<in> set ss \<longrightarrow> ms_ok m"
    using prepare_steps_ok [of "cn_stmts c1"] by (auto simp: ss_def c1_def)
  ultimately show ?thesis by (auto simp: ss_def c1_def)
qed
end
