(* ===== verification/DBUpdater.thy ===== *)
theory DBUpdater
  imports Updater MySQLConnection
begin

text \<open>
  The front end of the database updater: \<open>src/src/database/Updater/DBUpdater.cpp\<close>. It creates, populates and updates a
  database by running the command-line client on files. The file system, the client and the database are arguments over a world
  of any type; what the fetcher of \<open>Updater\<close> does to the world is an argument too.
\<close>

section \<open>The environment\<close>

record 'w dbu_env =
  de_mysql :: "uint8 list"
  de_source :: "uint8 list"
  de_regular :: "uint8 list \<Rightarrow> bool"
  de_search :: "uint8 list"
  de_absolute :: "uint8 list \<Rightarrow> uint8 list"
  de_dirs :: directories
  de_run :: "uint8 list \<Rightarrow> uint8 list list \<Rightarrow> uint8 list \<Rightarrow> 'w \<Rightarrow> bool \<times> 'w"
  de_table_exists :: "uint8 list \<Rightarrow> 'w \<Rightarrow> bool"
  de_table_count :: "'w \<Rightarrow> nat option"
  de_includes :: "'w \<Rightarrow> (uint8 list \<times> uint8 list) list option"
  de_updates :: "'w \<Rightarrow> update_table"
  de_fetched :: "uint8 list list \<Rightarrow> update_table \<Rightarrow> 'w \<Rightarrow> 'w"
  de_failed :: "'w \<Rightarrow> 'w"
  de_fetch :: update_env
  de_flags :: update_flags
  de_write_temp :: "uint8 list \<Rightarrow> 'w \<Rightarrow> 'w option"
  de_remove_temp :: "'w \<Rightarrow> 'w"

text \<open>The static path of the client, and the world.\<close>

record 'w dbu_state =
  du_corrected :: "uint8 list"
  du_world :: 'w

definition GetCorrectedMySQLExecutable :: "'w dbu_env \<Rightarrow> 'w dbu_state \<Rightarrow> uint8 list" where
  "GetCorrectedMySQLExecutable env s = (if du_corrected s \<noteq> [] then du_corrected s else de_mysql env)"

definition CheckExecutable :: "'w dbu_env \<Rightarrow> 'w dbu_state \<Rightarrow> bool \<times> 'w dbu_state" where
  "CheckExecutable env s =
     (if \<not> de_regular env (GetCorrectedMySQLExecutable env s) then
        (let exe = de_search env in
         if exe \<noteq> [] \<and> de_regular env exe then (True, s\<lparr>du_corrected := de_absolute env exe\<rparr>) else (False, s))
      else (True, s))"

definition dbu_GetTableName :: "uint8 list" where
  "dbu_GetTableName = bytes_of ''Discord''"

definition GetBaseFilesDirectory :: "'w dbu_env \<Rightarrow> uint8 list" where
  "GetBaseFilesDirectory env = de_source env @ bytes_of ''/sql/base/db_'' @ GetLowerString dbu_GetTableName @ bytes_of ''/''"

definition dbu_IsEnabled :: "uint32 \<Rightarrow> bool" where
  "dbu_IsEnabled updateMask \<longleftrightarrow> and updateMask 1 \<noteq> 0"

section \<open>Running a file\<close>

text \<open>The arguments of the client, for the platforms other than Windows and a MySQL client of version 8.\<close>

definition client_args :: "connection_info \<Rightarrow> uint8 list \<Rightarrow> uint8 list list" where
  "client_args info database =
     [bytes_of ''-h'' @ ci_host info, bytes_of ''-u'' @ ci_user info]
     @ (if ci_password info \<noteq> [] then [bytes_of ''-p'' @ ci_password info] else [])
     @ (if ci_port_or_socket info = [] \<or> \<not> (0x30 \<le> hd (ci_port_or_socket info) \<and> hd (ci_port_or_socket info) \<le> 0x39)
        then [bytes_of ''-P0'', bytes_of ''--protocol=SOCKET'', bytes_of ''-S'' @ ci_port_or_socket info]
        else [bytes_of ''-P'' @ ci_port_or_socket info])
     @ [bytes_of ''--default-character-set=utf8'', bytes_of ''--max-allowed-packet=1GB'']
     @ (if ci_ssl info = bytes_of ''ssl'' then [bytes_of ''--ssl-mode=REQUIRED''] else [])
     @ (if database \<noteq> [] then [database] else [])"

text \<open>False stands for the exception.\<close>

definition ApplyFile_to :: "'w dbu_env \<Rightarrow> connection_info \<Rightarrow> uint8 list \<Rightarrow> uint8 list \<Rightarrow> 'w dbu_state \<Rightarrow> bool \<times> 'w dbu_state" where
  "ApplyFile_to env info database path s =
     (let (ok, w) = de_run env (GetCorrectedMySQLExecutable env s) (client_args info database) path (du_world s) in (ok, s\<lparr>du_world := w\<rparr>))"

definition ApplyFile :: "'w dbu_env \<Rightarrow> connection_info \<Rightarrow> uint8 list \<Rightarrow> 'w dbu_state \<Rightarrow> bool \<times> 'w dbu_state" where
  "ApplyFile env info path s = ApplyFile_to env info (ci_database info) path s"

section \<open>Creating, updating and populating\<close>

definition create_text :: "connection_info \<Rightarrow> uint8 list" where
  "create_text info =
     bytes_of ''CREATE DATABASE '' @ [96] @ ci_database info @ [96] @ bytes_of '' DEFAULT CHARACTER SET UTF8MB4 COLLATE utf8mb4_general_ci;'' @ [10, 10]"

definition dbu_Create :: "'w dbu_env \<Rightarrow> connection_info \<Rightarrow> uint8 list \<Rightarrow> 'w dbu_state \<Rightarrow> bool \<times> 'w dbu_state" where
  "dbu_Create env info answer s =
     (if answer \<noteq> [] \<and> substr answer 0 1 \<noteq> bytes_of ''y'' then (False, s)
      else case de_write_temp env (create_text info) (du_world s) of
        None \<Rightarrow> (False, s)
      | Some w \<Rightarrow>
          (let (ok, s1) = ApplyFile_to env info [] (bytes_of ''create_table.sql'') (s\<lparr>du_world := w\<rparr>)
           in (ok, s1\<lparr>du_world := de_remove_temp env (du_world s1)\<rparr>)))"

definition CheckUpdateTable :: "'w dbu_env \<Rightarrow> connection_info \<Rightarrow> uint8 list \<Rightarrow> 'w dbu_state \<Rightarrow> bool \<times> 'w dbu_state" where
  "CheckUpdateTable env info tableName s =
     (if de_table_exists env tableName (du_world s) then (True, s)
      else ApplyFile env info (GetBaseFilesDirectory env @ tableName @ bytes_of ''.sql'') s)"

text \<open>The fetcher on the world: its files and its table are read, and the files it ran and the new table written back.\<close>

definition run_fetcher :: "'w dbu_env \<Rightarrow> fetcher \<Rightarrow> 'w dbu_state \<Rightarrow> bool \<times> 'w dbu_state" where
  "run_fetcher env uf s =
     (case GetFileList (de_dirs env) (de_includes env (du_world s)) uf of
        Inl _ \<Rightarrow> (False, s\<lparr>du_world := de_failed env (du_world s)\<rparr>)
      | Inr available \<Rightarrow>
          (case Update (de_fetch env) (de_flags env) (uf_setDirectories uf \<noteq> None) available (de_updates env (du_world s)) of
             Inl _ \<Rightarrow> (False, s\<lparr>du_world := de_failed env (du_world s)\<rparr>)
           | Inr (res, files, tbl) \<Rightarrow> (True, s\<lparr>du_world := de_fetched env files tbl (du_world s)\<rparr>)))"

definition dbu_update :: "'w dbu_env \<Rightarrow> connection_info \<Rightarrow> fetcher \<Rightarrow> 'w dbu_state \<Rightarrow> bool \<times> 'w dbu_state" where
  "dbu_update env info uf s =
     (let (found, s1) = CheckExecutable env s in
      if \<not> found then (False, s1)
      else if de_dirs env (de_source env) = None then (False, s1)
      else let (ok2, s2) = CheckUpdateTable env info (bytes_of ''updates'') s1 in
      if \<not> ok2 then (False, s2)
      else let (ok3, s3) = CheckUpdateTable env info (bytes_of ''updates_include'') s2 in
      if \<not> ok3 then (False, s3)
      else run_fetcher env uf s3)"

definition dbu_Update_modules :: "'w dbu_env \<Rightarrow> connection_info \<Rightarrow> uint8 list \<Rightarrow> 'w dbu_state \<Rightarrow> bool \<times> 'w dbu_state" where
  "dbu_Update_modules env info modulesList =
     dbu_update env info \<lparr>uf_sourceDirectory = de_source env, uf_dbModuleName = bytes_of ''db_discord'', uf_setDirectories = None, uf_modulesList = modulesList\<rparr>"

definition dbu_Update_dirs :: "'w dbu_env \<Rightarrow> connection_info \<Rightarrow> uint8 list list option \<Rightarrow> 'w dbu_state \<Rightarrow> bool \<times> 'w dbu_state" where
  "dbu_Update_dirs env info setDirectories =
     dbu_update env info \<lparr>uf_sourceDirectory = de_source env, uf_dbModuleName = bytes_of ''db_discord'', uf_setDirectories = setDirectories, uf_modulesList = []\<rparr>"

fun entry_name :: "fs_entry \<Rightarrow> uint8 list" where
  "entry_name (FileNode name _) = name"
| "entry_name (DirNode name _) = name"

fun populate_loop :: "'w dbu_env \<Rightarrow> connection_info \<Rightarrow> uint8 list \<Rightarrow> fs_entry list \<Rightarrow> 'w dbu_state \<Rightarrow> bool \<times> 'w dbu_state" where
  "populate_loop env info dir [] s = (True, s)"
| "populate_loop env info dir (e # es) s =
     (if \<not> is_sql_name (entry_name e) then populate_loop env info dir es s
      else let (ok, s1) = ApplyFile env info (dir @ entry_name e) s in if ok then populate_loop env info dir es s1 else (False, s1))"

definition Populate :: "'w dbu_env \<Rightarrow> connection_info \<Rightarrow> 'w dbu_state \<Rightarrow> bool \<times> 'w dbu_state" where
  "Populate env info s =
     (case de_table_count env (du_world s) of
        Some (Suc n) \<Rightarrow> (True, s)
      | _ \<Rightarrow>
          (let (found, s1) = CheckExecutable env s; dir = GetBaseFilesDirectory env in
           if \<not> found then (False, s1)
           else case de_dirs env dir of
             None \<Rightarrow> (False, s1)
           | Some entries \<Rightarrow>
               if filter (\<lambda>e. is_sql_name (entry_name e)) entries = [] then (False, s1)
               else populate_loop env info dir entries s1))"

section \<open>What an update promises\<close>

text \<open>
  What is relied on of the file system, the client and the database: the path of a program can be made absolute, running the file of
  one of the two tables creates it, no run removes a table, the names of the table \<open>updates\<close> are a key, and the fetcher only
  writes that table.
\<close>

definition update_tables :: "uint8 list set" where
  "update_tables = {bytes_of ''updates'', bytes_of ''updates_include''}"

definition world_laws :: "'w dbu_env \<Rightarrow> bool" where
  "world_laws env \<longleftrightarrow>
     (\<forall>exe. de_regular env exe \<longrightarrow> de_regular env (de_absolute env exe) \<and> de_absolute env exe \<noteq> []) \<and>
     (\<forall>t \<in> update_tables. \<forall>exe args w w'. de_run env exe args (GetBaseFilesDirectory env @ t @ bytes_of ''.sql'') w = (True, w') \<longrightarrow> de_table_exists env t w') \<and>
     (\<forall>t \<in> update_tables. \<forall>exe args p w. de_table_exists env t w \<longrightarrow> de_table_exists env t (snd (de_run env exe args p w))) \<and>
     (\<forall>exe args p w. distinct (map fst (de_updates env (snd (de_run env exe args p w))))) \<and>
     (\<forall>files tbl w. de_updates env (de_fetched env files tbl w) = tbl \<and> de_includes env (de_fetched env files tbl w) = de_includes env w \<and>
        (\<forall>t \<in> update_tables. de_table_exists env t w \<longrightarrow> de_table_exists env t (de_fetched env files tbl w)))"

lemma CheckExecutable_found:
  assumes "world_laws env" "CheckExecutable env s = (True, s')"
  shows "de_regular env (GetCorrectedMySQLExecutable env s')" "du_world s' = du_world s"
  using assms by (auto simp: world_laws_def CheckExecutable_def GetCorrectedMySQLExecutable_def Let_def split: if_splits)

lemma CheckUpdateTable_made:
  assumes "world_laws env" "CheckUpdateTable env info t s = (True, s')" "t \<in> update_tables"
  shows "de_table_exists env t (du_world s')" "du_corrected s' = du_corrected s"
    "\<And>t'. t' \<in> update_tables \<Longrightarrow> de_table_exists env t' (du_world s) \<Longrightarrow> de_table_exists env t' (du_world s')"
    "distinct (map fst (de_updates env (du_world s))) \<Longrightarrow> distinct (map fst (de_updates env (du_world s')))"
proof -
  let ?p = "GetBaseFilesDirectory env @ t @ bytes_of ''.sql''"
  let ?r = "de_run env (GetCorrectedMySQLExecutable env s) (client_args info (ci_database info)) ?p (du_world s)"
  have s': "de_table_exists env t (du_world s) \<and> s' = s \<or> fst ?r \<and> s' = s\<lparr>du_world := snd ?r\<rparr>"
    using assms(2) by (auto simp: CheckUpdateTable_def ApplyFile_def ApplyFile_to_def Let_def split: if_splits prod.splits)
  have made: "fst ?r \<Longrightarrow> de_table_exists env t (snd ?r)" using assms(1,3) unfolding world_laws_def by (metis prod.collapse)
  show "de_table_exists env t (du_world s')" using s' made by auto
  show "du_corrected s' = du_corrected s" using s' by auto
  show "de_table_exists env t' (du_world s')" if "t' \<in> update_tables" "de_table_exists env t' (du_world s)" for t'
    using s' that assms(1) by (auto simp: world_laws_def)
  show "distinct (map fst (de_updates env (du_world s')))" if "distinct (map fst (de_updates env (du_world s)))"
    using s' that assms(1) by (auto simp: world_laws_def)
qed

lemma dbu_update_true:
  assumes "world_laws env" "dbu_update env info uf s = (True, s')" "distinct (map fst (de_updates env (du_world s)))"
  obtains s1 where "run_fetcher env uf s1 = (True, s')" "de_regular env (GetCorrectedMySQLExecutable env s1)" "de_dirs env (de_source env) \<noteq> None"
    "distinct (map fst (de_updates env (du_world s1)))" "\<forall>t \<in> update_tables. de_table_exists env t (du_world s1)"
proof -
  obtain a b c where c: "CheckExecutable env s = (True, a)" "de_dirs env (de_source env) \<noteq> None"
      "CheckUpdateTable env info (bytes_of ''updates'') a = (True, b)" "CheckUpdateTable env info (bytes_of ''updates_include'') b = (True, c)"
      "run_fetcher env uf c = (True, s')"
    using assms(2) by (auto simp: dbu_update_def split: prod.splits if_splits)
  have t: "bytes_of ''updates'' \<in> update_tables" "bytes_of ''updates_include'' \<in> update_tables" by (simp_all add: update_tables_def)
  note a = CheckExecutable_found [OF assms(1) c(1)] and b = CheckUpdateTable_made [OF assms(1) c(3) t(1)] and c' = CheckUpdateTable_made [OF assms(1) c(4) t(2)]
  have "GetCorrectedMySQLExecutable env c = GetCorrectedMySQLExecutable env a" using b(2) c'(2) by (simp add: GetCorrectedMySQLExecutable_def)
  moreover have "distinct (map fst (de_updates env (du_world c)))" using assms(3) a(2) b(4) c'(4) by simp
  moreover have "\<forall>t \<in> update_tables. de_table_exists env t (du_world c)" using b(1) c'(1) c'(3) [OF t(1)] by (simp add: update_tables_def)
  ultimately show ?thesis using that [OF c(5)] a(1) c(2) by simp
qed

lemma run_fetcher_true:
  assumes "run_fetcher env uf s = (True, s')"
  obtains available res files tbl where "GetFileList (de_dirs env) (de_includes env (du_world s)) uf = Inr available"
    "Update (de_fetch env) (de_flags env) (uf_setDirectories uf \<noteq> None) available (de_updates env (du_world s)) = Inr (res, files, tbl)"
    "s' = s\<lparr>du_world := de_fetched env files tbl (du_world s)\<rparr>"
  using assms by (auto simp: run_fetcher_def split: sum.splits prod.splits)

text \<open>
  C18. The update of a database through the command-line client: after one that succeeds, the two tables of the updater exist, and a
  second update with the same files and settings succeeds without running any file, neither one that creates a table nor an update,
  provided that no two of the files found have the same contents.
\<close>

theorem database_updated_once:
  assumes "world_laws env" "distinct (map fst (de_updates env (du_world s)))" "dbu_update env info uf s = (True, s')"
    and "\<forall>available. GetFileList (de_dirs env) (de_includes env (du_world s')) uf = Inr available \<longrightarrow> no_copies (de_fetch env) available"
    and "\<forall>t. set (ue_order (de_fetch env) t) = set t" "\<forall>c. ue_sha1 (de_fetch env) c \<noteq> []"
  shows "(\<forall>t \<in> update_tables. de_table_exists env t (du_world s')) \<and>
    (\<exists>tbl. dbu_update env info uf s' = (True, s'\<lparr>du_world := de_fetched env [] tbl (du_world s')\<rparr>))"
proof -
  obtain s1 where s1: "run_fetcher env uf s1 = (True, s')" "de_regular env (GetCorrectedMySQLExecutable env s1)" "de_dirs env (de_source env) \<noteq> None"
      "distinct (map fst (de_updates env (du_world s1)))" "\<forall>t \<in> update_tables. de_table_exists env t (du_world s1)"
    using dbu_update_true [OF assms(1,3,2)] by blast
  obtain available res files tbl where f: "GetFileList (de_dirs env) (de_includes env (du_world s1)) uf = Inr available"
      "Update (de_fetch env) (de_flags env) (uf_setDirectories uf \<noteq> None) available (de_updates env (du_world s1)) = Inr (res, files, tbl)"
      "s' = s1\<lparr>du_world := de_fetched env files tbl (du_world s1)\<rparr>"
    using run_fetcher_true [OF s1(1)] by blast
  have w: "de_updates env (du_world s') = tbl" "de_includes env (du_world s') = de_includes env (du_world s1)"
      "\<forall>t \<in> update_tables. de_table_exists env t (du_world s')"
    using assms(1) f(3) s1(5) by (simp_all add: world_laws_def)
  have "no_copies (de_fetch env) available" using assms(4) f(1) w(2) by simp
  then obtain res' tbl' where "Update (de_fetch env) (de_flags env) (uf_setDirectories uf \<noteq> None) available tbl = Inr (res', [], tbl')"
    using update_runs_once [OF f(1,2) _ s1(4)] assms(5,6) by blast
  then have "run_fetcher env uf s' = (True, s'\<lparr>du_world := de_fetched env [] tbl' (du_world s')\<rparr>)" using f(1) w(1,2) by (simp add: run_fetcher_def)
  moreover have "CheckExecutable env s' = (True, s')"
    using s1(2) f(3) by (auto simp: CheckExecutable_def GetCorrectedMySQLExecutable_def split: if_splits)
  moreover have "CheckUpdateTable env info t s' = (True, s')" if "t \<in> update_tables" for t using that w(3) by (simp add: CheckUpdateTable_def)
  ultimately have "dbu_update env info uf s' = (True, s'\<lparr>du_world := de_fetched env [] tbl' (du_world s')\<rparr>)"
    using s1(3) by (simp add: dbu_update_def update_tables_def)
  then show ?thesis using w(3) by blast
qed

section \<open>What populating runs\<close>

text \<open>The files that a run over some paths takes when it stops at the first that fails, for a client that notes what it ran.\<close>

lemma populate_loop_runs:
  assumes "de_run env = (\<lambda>exe args path w. (ok path, w @ [path]))"
  shows "populate_loop env info dir es s =
    (let paths = map ((@) dir) (filter is_sql_name (map entry_name es))
     in (list_all ok paths, s\<lparr>du_world := du_world s @ takeWhile ok paths @ take 1 (dropWhile ok paths)\<rparr>))"
  by (induction es arbitrary: s) (auto simp: ApplyFile_def ApplyFile_to_def assms Let_def)

text \<open>
  Populating a database that has tables does nothing. For an empty one every file of the base directory with the extension
  \<open>.sql\<close> is run, in the order of the directory, up to the first that fails, and the result says whether all succeeded.
\<close>

theorem populate_runs:
  assumes "de_run env = (\<lambda>exe args path w. (ok path, w @ [path]))" "de_table_count env (du_world s) \<in> {None, Some 0}"
    "CheckExecutable env s = (True, s1)" "de_dirs env (GetBaseFilesDirectory env) = Some es"
    "paths = map ((@) (GetBaseFilesDirectory env)) (filter is_sql_name (map entry_name es))"
  shows "Populate env info s =
    (if paths = [] then (False, s1)
     else (list_all ok paths, s1\<lparr>du_world := du_world s1 @ takeWhile ok paths @ take 1 (dropWhile ok paths)\<rparr>))"
  using assms populate_loop_runs [OF assms(1), of info "GetBaseFilesDirectory env" es s1]
  by (auto simp: Populate_def Let_def filter_empty_conv split: option.splits nat.splits)

section \<open>An example\<close>

definition example_dbu :: "(bool \<times> update_table) dbu_env" where
  "example_dbu =
     \<lparr>de_mysql = [0x6d], de_source = [0x75], de_regular = (\<lambda>p. p = [0x6d]), de_search = [], de_absolute = (\<lambda>p. p), de_dirs = example_dirs,
      de_run = (\<lambda>_ _ _ _. (True, (True, []))), de_table_exists = (\<lambda>_ w. fst w), de_table_count = (\<lambda>_. None),
      de_includes = (\<lambda>_. Some [([0x75], bytes_of ''RELEASED'')]), de_updates = snd, de_fetched = (\<lambda>_ tbl w. (fst w, tbl)), de_failed = (\<lambda>w. w),
      de_fetch = example_env, de_flags = example_flags, de_write_temp = (\<lambda>_. Some), de_remove_temp = (\<lambda>w. w)\<rparr>"

lemma example_dbu_update:
  "\<exists>s'. dbu_update example_dbu no_info example_fetcher \<lparr>du_corrected = [], du_world = (False, [])\<rparr> = (True, s') \<and> snd (du_world s') \<noteq> []"
proof -
  have "case dbu_update example_dbu no_info example_fetcher \<lparr>du_corrected = [], du_world = (False, [])\<rparr> of (ok, s') \<Rightarrow> ok \<and> snd (du_world s') \<noteq> []"
    by code_simp
  then show ?thesis by (auto split: prod.splits)
qed

theorem database_updated_once_witness:
  "\<exists>s' tbl. dbu_update example_dbu no_info example_fetcher \<lparr>du_corrected = [], du_world = (False, [])\<rparr> = (True, s') \<and> snd (du_world s') \<noteq> [] \<and>
    dbu_update example_dbu no_info example_fetcher s' = (True, s'\<lparr>du_world := de_fetched example_dbu [] tbl (du_world s')\<rparr>)"
proof -
  obtain s' where s': "dbu_update example_dbu no_info example_fetcher \<lparr>du_corrected = [], du_world = (False, [])\<rparr> = (True, s')" "snd (du_world s') \<noteq> []"
    using example_dbu_update by blast
  have "world_laws example_dbu" by (simp add: world_laws_def example_dbu_def)
  moreover have "no_copies example_env example_files" by code_simp
  ultimately show ?thesis
    using database_updated_once [OF _ _ s'(1)] s' example_GetFileList by (simp add: example_dbu_def example_env_def)
qed
end
