(* ===== verification/DatabasePool.thy ===== *)
theory DatabasePool
  imports MySQLConnection
begin

text \<open>
  The pool of connections with its worker threads and the loader of databases: \<open>DatabaseWorkerPool.cpp\<close>,
  \<open>DatabaseWorker.cpp\<close>, \<open>AdhocStatement.cpp\<close> and \<open>DatabaseLoader.cpp\<close> of \<open>src/src/database/Database\<close>. Each
  asynchronous connection has a worker thread that takes operations from the queue of the pool; the queue is the
  \<open>ProducerConsumerQueue\<close> of \<open>Queues\<close>. The information on the database and the world of the client library
  are shared: a connection that works gets them from the pool and gives them back. The operations that the workers call and
  those that are deleted are recorded.
\<close>

section \<open>The pool\<close>

datatype sql_operation =
    BasicStatementTask "uint8 list" bool
  | PreparedStatementTask prepared_statement bool
  | TransactionTask "prepared_statement transaction"
  | TransactionWithResultTask "prepared_statement transaction"
  | SQLQueryHolderTask "(prepared_statement, unit) query_holder"
  | PingOperation

record 'w worker =
  wk_conn :: "'w mysql_connection"
  wk_running :: bool

record 'w db_pool =
  po_queue :: "sql_operation pc_queue"
  po_async :: "'w worker list"
  po_synch :: "'w mysql_connection list"
  po_info :: "connection_info option"
  po_sizes :: "uint8 list"
  po_async_threads :: uint8
  po_synch_threads :: uint8
  po_world :: 'w
  po_called :: "(nat \<times> sql_operation) list"
  po_deleted :: "sql_operation list"

definition DatabaseWorkerPool_new :: "'w \<Rightarrow> 'w db_pool" where
  "DatabaseWorkerPool_new w =
     \<lparr>po_queue = PCQueue_new, po_async = [], po_synch = [], po_info = None, po_sizes = [], po_async_threads = 0,
      po_synch_threads = 0, po_world = w, po_called = [], po_deleted = []\<rparr>"

definition SetConnectionInfo :: "uint8 list \<Rightarrow> uint8 \<Rightarrow> uint8 \<Rightarrow> 'w db_pool \<Rightarrow> 'w db_pool" where
  "SetConnectionInfo infoString asyncThreads synchThreads p =
     p\<lparr>po_info := Some (MySQLConnectionInfo_new infoString), po_async_threads := asyncThreads, po_synch_threads := synchThreads\<rparr>"

section \<open>Workers\<close>

text \<open>One round of \<open>WorkerThread\<close>: wait, end, or call the operation that was taken.\<close>

definition worker_round :: "nat \<Rightarrow> 'w db_pool \<Rightarrow> 'w db_pool" where
  "worker_round i p =
     (if i < length (po_async p) \<and> wk_running (po_async p ! i) then
        (case pcq_WaitAndPop (po_queue p) of
           (Waiting, q) \<Rightarrow> p
         | (Returned None, q) \<Rightarrow> p\<lparr>po_queue := q, po_async := (po_async p)[i := (po_async p ! i)\<lparr>wk_running := False\<rparr>]\<rparr>
         | (Returned (Some op), q) \<Rightarrow> p\<lparr>po_queue := q, po_called := po_called p @ [(i, op)]\<rparr>)
      else p)"

text \<open>The destructor of a worker, which every asynchronous connection runs when it is destroyed, cancels the queue of the pool.\<close>

definition destroy_worker :: "'w worker \<Rightarrow> 'w db_pool \<Rightarrow> 'w db_pool" where
  "destroy_worker k p =
     (let (deleted, q) = pcq_Cancel (po_queue p) in p\<lparr>po_queue := q, po_deleted := po_deleted p @ deleted\<rparr>)"

definition clear_async :: "'w db_pool \<Rightarrow> 'w db_pool" where
  "clear_async p = (fold destroy_worker (po_async p) p)\<lparr>po_async := []\<rparr>"

definition clear_synch :: "'w db_pool \<Rightarrow> 'w db_pool" where
  "clear_synch p = p\<lparr>po_synch := []\<rparr>"

section \<open>Opening and closing\<close>

definition MIN_MYSQL_SERVER_VERSION :: nat where "MIN_MYSQL_SERVER_VERSION = 50700"

text \<open>The loop of \<open>OpenConnections\<close> for asynchronous connections, with the number that is left to open.\<close>

fun open_async :: "('w, 'r) mysql_api \<Rightarrow> connection_info \<Rightarrow> nat \<Rightarrow> 'w db_pool \<Rightarrow> (int \<times> 'w db_pool) res" where
  "open_async api info 0 p = Inr (0, p)"
| "open_async api info (Suc n) p =
     bindr (cn_Open api (MySQLConnection_new CONNECTION_ASYNC info (po_world p))) (\<lambda>(error, c).
       let k = \<lparr>wk_conn = c, wk_running = True\<rparr>; p1 = p\<lparr>po_info := Some (cn_info c), po_world := cn_world c\<rparr> in
       if error \<noteq> 0 then Inr (error, destroy_worker k (clear_async p1))
       else if api_server_version api (cn_world c) < MIN_MYSQL_SERVER_VERSION then Inr (1, destroy_worker k p1)
       else open_async api (cn_info c) n (p1\<lparr>po_async := po_async p1 @ [k]\<rparr>))"

fun open_synch :: "('w, 'r) mysql_api \<Rightarrow> connection_info \<Rightarrow> nat \<Rightarrow> 'w db_pool \<Rightarrow> (int \<times> 'w db_pool) res" where
  "open_synch api info 0 p = Inr (0, p)"
| "open_synch api info (Suc n) p =
     bindr (cn_Open api (MySQLConnection_new CONNECTION_SYNCH info (po_world p))) (\<lambda>(error, c).
       let p1 = p\<lparr>po_info := Some (cn_info c), po_world := cn_world c\<rparr> in
       if error \<noteq> 0 then Inr (error, clear_synch p1)
       else if api_server_version api (cn_world c) < MIN_MYSQL_SERVER_VERSION then Inr (1, p1)
       else open_synch api (cn_info c) n (p1\<lparr>po_synch := po_synch p1 @ [c]\<rparr>))"

definition po_Open :: "('w, 'r) mysql_api \<Rightarrow> 'w db_pool \<Rightarrow> (int \<times> 'w db_pool) res" where
  "po_Open api p =
     (case po_info p of
        None \<Rightarrow> Inl (AssertFailure ''Connection info was not set!'')
      | Some info \<Rightarrow>
          bindr (open_async api info (unat (po_async_threads p)) p) (\<lambda>(error, p1).
            if error \<noteq> 0 then Inr (error, p1)
            else open_synch api (the (po_info p1)) (unat (po_synch_threads p1)) p1))"

definition po_Close :: "'w db_pool \<Rightarrow> 'w db_pool" where
  "po_Close p = clear_synch (clear_async p)"

definition DatabaseWorkerPool_delete :: "'w db_pool \<Rightarrow> 'w db_pool" where
  "DatabaseWorkerPool_delete p =
     (let (deleted, q) = pcq_Cancel (po_queue p) in p\<lparr>po_queue := q, po_deleted := po_deleted p @ deleted\<rparr>)"

section \<open>Preparing statements\<close>

text \<open>The numbers of parameters a connection knows, where none is known yet.\<close>

fun fill_sizes :: "mysql_statement option list \<Rightarrow> uint8 list \<Rightarrow> uint8 list res" where
  "fill_sizes [] sizes = Inr sizes"
| "fill_sizes (m # ms) [] = Inr []"
| "fill_sizes (m # ms) (s # sizes) =
     bindr (if s > 0 then Inr s
            else case m of
                   None \<Rightarrow> Inr s
                 | Some stmt \<Rightarrow> if ms_paramCount stmt < 255 then Inr (word_of_nat (ms_paramCount stmt)) else Inl (AssertFailure ''paramCount''))
       (\<lambda>s'. bindr (fill_sizes ms sizes) (\<lambda>sizes'. Inr (s' # sizes')))"

definition grow_sizes :: "nat \<Rightarrow> uint8 list \<Rightarrow> uint8 list" where
  "grow_sizes n sizes = (if length sizes < n then sizes @ replicate (n - length sizes) 0 else sizes)"

text \<open>One connection: prepared with the shared state of the pool.\<close>

definition prepare_connection ::
  "('w, 'r) mysql_api \<Rightarrow> 'w mysql_connection \<Rightarrow> 'w db_pool \<Rightarrow> (bool \<times> 'w mysql_connection \<times> 'w db_pool) res" where
  "prepare_connection api c p =
     bindr (cn_PrepareStatements api (c\<lparr>cn_world := po_world p\<rparr>)) (\<lambda>(ok, c1).
       let p1 = p\<lparr>po_world := cn_world c1\<rparr> in
       if \<not> ok then Inr (False, c1, p1)
       else bindr (fill_sizes (cn_stmts c1) (grow_sizes (length (cn_stmts c1)) (po_sizes p1)))
              (\<lambda>sizes. Inr (True, c1, p1\<lparr>po_sizes := sizes\<rparr>)))"

fun prepare_from_async :: "('w, 'r) mysql_api \<Rightarrow> nat \<Rightarrow> nat \<Rightarrow> 'w db_pool \<Rightarrow> (bool \<times> 'w db_pool) res" where
  "prepare_from_async api i 0 p = Inr (True, p)"
| "prepare_from_async api i (Suc n) p =
     bindr (prepare_connection api (wk_conn (po_async p ! i)) p) (\<lambda>(ok, c, p1).
       let p2 = p1\<lparr>po_async := (po_async p1)[i := (po_async p1 ! i)\<lparr>wk_conn := c\<rparr>]\<rparr> in
       if ok then prepare_from_async api (Suc i) n p2 else Inr (False, po_Close p2))"

fun prepare_from_synch :: "('w, 'r) mysql_api \<Rightarrow> nat \<Rightarrow> nat \<Rightarrow> 'w db_pool \<Rightarrow> (bool \<times> 'w db_pool) res" where
  "prepare_from_synch api i 0 p = Inr (True, p)"
| "prepare_from_synch api i (Suc n) p =
     bindr (prepare_connection api (po_synch p ! i) p) (\<lambda>(ok, c, p1).
       let p2 = p1\<lparr>po_synch := (po_synch p1)[i := c]\<rparr> in
       if ok then prepare_from_synch api (Suc i) n p2 else Inr (False, po_Close p2))"

definition po_PrepareStatements :: "('w, 'r) mysql_api \<Rightarrow> 'w db_pool \<Rightarrow> (bool \<times> 'w db_pool) res" where
  "po_PrepareStatements api p =
     bindr (prepare_from_async api 0 (length (po_async p)) p) (\<lambda>(ok, p1).
       if ok then prepare_from_synch api 0 (length (po_synch p1)) p1 else Inr (False, p1))"

definition po_GetPreparedStatement :: "nat \<Rightarrow> 'w db_pool \<Rightarrow> prepared_statement res" where
  "po_GetPreparedStatement index p =
     (if index < length (po_sizes p) then Inr (PreparedStatement_new index (po_sizes p ! index)) else Inl (UndefinedAccess ''_preparedStatementSize''))"

section \<open>Operations\<close>

definition Enqueue :: "sql_operation \<Rightarrow> 'w db_pool \<Rightarrow> 'w db_pool" where
  "Enqueue op p = p\<lparr>po_queue := pcq_Push op (po_queue p)\<rparr>"

definition QueueSize :: "'w db_pool \<Rightarrow> nat" where
  "QueueSize p = pcq_Size (po_queue p)"

definition po_Execute :: "uint8 list \<Rightarrow> 'w db_pool \<Rightarrow> 'w db_pool" where
  "po_Execute sql p = (if sql = [] then p else Enqueue (BasicStatementTask sql False) p)"

definition po_Execute_stmt :: "prepared_statement \<Rightarrow> 'w db_pool \<Rightarrow> 'w db_pool" where
  "po_Execute_stmt stmt p = Enqueue (PreparedStatementTask stmt False) p"

definition po_AsyncQuery :: "uint8 list \<Rightarrow> 'w db_pool \<Rightarrow> 'w db_pool" where
  "po_AsyncQuery sql p = Enqueue (BasicStatementTask sql True) p"

definition po_AsyncQuery_stmt :: "prepared_statement \<Rightarrow> 'w db_pool \<Rightarrow> 'w db_pool" where
  "po_AsyncQuery_stmt stmt p = Enqueue (PreparedStatementTask stmt True) p"

definition DelayQueryHolder :: "(prepared_statement, unit) query_holder \<Rightarrow> 'w db_pool \<Rightarrow> 'w db_pool" where
  "DelayQueryHolder holder p = Enqueue (SQLQueryHolderTask holder) p"

text \<open>The two commits, in a build without \<open>WARHEAD_DEBUG\<close>.\<close>

definition po_CommitTransaction :: "prepared_statement transaction \<Rightarrow> 'w db_pool \<Rightarrow> 'w db_pool" where
  "po_CommitTransaction t p = Enqueue (TransactionTask t) p"

definition AsyncCommitTransaction :: "prepared_statement transaction \<Rightarrow> 'w db_pool \<Rightarrow> 'w db_pool" where
  "AsyncCommitTransaction t p = Enqueue (TransactionWithResultTask t) p"

definition ExecuteOrAppend ::
  "prepared_statement transaction option \<Rightarrow> uint8 list \<Rightarrow> 'w db_pool \<Rightarrow> prepared_statement transaction option \<times> 'w db_pool" where
  "ExecuteOrAppend tr sql p = (case tr of None \<Rightarrow> (None, po_Execute sql p) | Some t \<Rightarrow> (Some (Append sql t), p))"

definition ExecuteOrAppend_stmt ::
  "prepared_statement transaction option \<Rightarrow> prepared_statement \<Rightarrow> 'w db_pool \<Rightarrow> prepared_statement transaction option \<times> 'w db_pool" where
  "ExecuteOrAppend_stmt tr stmt p =
     (case tr of None \<Rightarrow> (None, po_Execute_stmt stmt p) | Some t \<Rightarrow> (Some (AppendPreparedStatement (Some stmt) t), p))"

text \<open>
  \<open>GetFreeConnection\<close>: \<open>unlocked k j\<close> says whether the \<open>k\<close>-th attempt finds the \<open>j\<close>-th connection unlocked; the
  index is a byte. The loop starts at 0 and increments first.
\<close>

partial_function (option) free_loop :: "(nat \<Rightarrow> nat \<Rightarrow> bool) \<Rightarrow> nat \<Rightarrow> uint8 \<Rightarrow> nat \<Rightarrow> nat option" where
  "free_loop unlocked num_cons i k =
     (let j = unat (i + 1) mod num_cons in if unlocked k j then Some j else free_loop unlocked num_cons (i + 1) (Suc k))"

definition GetFreeConnection :: "(nat \<Rightarrow> nat \<Rightarrow> bool) \<Rightarrow> 'w db_pool \<Rightarrow> nat res option" where
  "GetFreeConnection unlocked p =
     (if length (po_synch p) = 0 then Some (Inl (UndefinedAccess ''% num_cons''))
      else map_option Inr (free_loop unlocked (length (po_synch p)) 0 0))"

text \<open>An operation on a free connection, which shares the world of the pool.\<close>

definition on_free ::
  "(nat \<Rightarrow> nat \<Rightarrow> bool) \<Rightarrow> ('w mysql_connection \<Rightarrow> ('a \<times> 'w mysql_connection) res option) \<Rightarrow> 'w db_pool \<Rightarrow> ('a \<times> 'w db_pool) res option" where
  "on_free unlocked f p =
     bindo (GetFreeConnection unlocked p) (\<lambda>j.
       bindo (f ((po_synch p ! j)\<lparr>cn_world := po_world p, cn_info := the (po_info p)\<rparr>)) (\<lambda>(x, c).
         Some (Inr (x, p\<lparr>po_synch := (po_synch p)[j := c], po_world := cn_world c, po_info := Some (cn_info c)\<rparr>))))"

definition po_Query ::
  "('w, 'r) mysql_api \<Rightarrow> ('r \<Rightarrow> bool) \<Rightarrow> (nat \<Rightarrow> nat \<Rightarrow> bool) \<Rightarrow> uint8 list \<Rightarrow> 'w db_pool \<Rightarrow>
     (('r \<times> nat) option \<times> 'w db_pool) res option" where
  "po_Query api nextRow unlocked sql p =
     bindo (on_free unlocked (cn_Query api sql) p) (\<lambda>(r, p1).
       Some (Inr (case r of None \<Rightarrow> None | Some (x, rows) \<Rightarrow> if rows = 0 \<or> \<not> nextRow x then None else Some (x, rows), p1)))"

definition po_Query_stmt ::
  "('w, 'r) mysql_api \<Rightarrow> (nat \<Rightarrow> nat \<Rightarrow> bool) \<Rightarrow> prepared_statement \<Rightarrow> 'w db_pool \<Rightarrow> (('r option \<times> nat) option \<times> 'w db_pool) res option" where
  "po_Query_stmt api unlocked stmt p =
     bindo (on_free unlocked (cn_Query_stmt api stmt) p) (\<lambda>(r, p1).
       Some (Inr (case r of None \<Rightarrow> None | Some (x, rows) \<Rightarrow> if rows = 0 then None else Some (x, rows), p1)))"

definition DirectExecute ::
  "('w, 'r) mysql_api \<Rightarrow> (nat \<Rightarrow> nat \<Rightarrow> bool) \<Rightarrow> uint8 list \<Rightarrow> 'w db_pool \<Rightarrow> (bool \<times> 'w db_pool) res option" where
  "DirectExecute api unlocked sql p = (if sql = [] then Some (Inr (False, p)) else on_free unlocked (cn_Execute api sql) p)"

definition DirectExecute_stmt ::
  "('w, 'r) mysql_api \<Rightarrow> (nat \<Rightarrow> nat \<Rightarrow> bool) \<Rightarrow> prepared_statement \<Rightarrow> 'w db_pool \<Rightarrow> (bool \<times> 'w db_pool) res option" where
  "DirectExecute_stmt api unlocked stmt p = on_free unlocked (cn_Execute_stmt api stmt) p"

text \<open>The further attempts of \<open>DirectCommitTransaction\<close> after a deadlock.\<close>

fun direct_retry ::
  "('w, 'r) mysql_api \<Rightarrow> prepared_statement transaction \<Rightarrow> nat \<Rightarrow> 'w mysql_connection \<Rightarrow> (unit \<times> 'w mysql_connection) res option" where
  "direct_retry api t 0 c = Some (Inr ((), c))"
| "direct_retry api t (Suc n) c =
     bindo (ExecuteTransaction api t c) (\<lambda>(code, c1). if code = 0 then Some (Inr ((), c1)) else direct_retry api t n c1)"

definition direct_commit ::
  "('w, 'r) mysql_api \<Rightarrow> prepared_statement transaction \<Rightarrow> 'w mysql_connection \<Rightarrow> (prepared_statement transaction \<times> 'w mysql_connection) res option" where
  "direct_commit api t c =
     bindo (ExecuteTransaction api t c) (\<lambda>(errorCode, c1).
       if errorCode = 0 then Some (Inr (t, c1))
       else bindo (if errorCode = ER_LOCK_DEADLOCK then direct_retry api t 5 c1 else Some (Inr ((), c1))) (\<lambda>(_, c2).
         bindo (Some (Cleanup t)) (\<lambda>t'. Some (Inr (t', c2)))))"

definition DirectCommitTransaction ::
  "('w, 'r) mysql_api \<Rightarrow> (nat \<Rightarrow> nat \<Rightarrow> bool) \<Rightarrow> prepared_statement transaction \<Rightarrow> 'w db_pool \<Rightarrow> (prepared_statement transaction \<times> 'w db_pool) res option" where
  "DirectCommitTransaction api unlocked t p = on_free unlocked (direct_commit api t) p"

text \<open>\<open>KeepAlive\<close> puts a ping for each asynchronous connection on the queue; the counter is a byte. The pings of the synchronous
  connections are calls of the library without an effect here.\<close>

partial_function (option) ping_loop :: "nat \<Rightarrow> uint8 \<Rightarrow> 'w db_pool \<Rightarrow> 'w db_pool option" where
  "ping_loop cnt i p = (if unat i < cnt then ping_loop cnt (i + 1) (Enqueue PingOperation p) else Some p)"

definition KeepAlive :: "'w db_pool \<Rightarrow> 'w db_pool option" where
  "KeepAlive p = ping_loop (length (po_async p)) 0 p"

section \<open>Tasks\<close>

text \<open>\<open>Execute\<close> of the statement tasks on the connection of a worker: the value of the promise, if any, and the result.\<close>

definition basic_task ::
  "('w, 'r) mysql_api \<Rightarrow> ('r \<Rightarrow> bool) \<Rightarrow> uint8 list \<Rightarrow> bool \<Rightarrow> 'w mysql_connection \<Rightarrow>
     (('r \<times> nat) option option \<times> bool \<times> 'w mysql_connection) res option" where
  "basic_task api nextRow sql hasResult c =
     (if hasResult then
        bindo (cn_Query api sql c) (\<lambda>(r, c1).
          case r of
            None \<Rightarrow> Some (Inr (Some None, False, c1))
          | Some (x, rows) \<Rightarrow>
              if rows = 0 \<or> \<not> nextRow x then Some (Inr (Some None, False, c1)) else Some (Inr (Some (Some (x, rows)), True, c1)))
      else bindo (cn_Execute api sql c) (\<lambda>(ok, c1). Some (Inr (None, ok, c1))))"

definition stmt_task ::
  "('w, 'r) mysql_api \<Rightarrow> prepared_statement \<Rightarrow> bool \<Rightarrow> 'w mysql_connection \<Rightarrow>
     (('r option \<times> nat) option option \<times> bool \<times> 'w mysql_connection) res option" where
  "stmt_task api stmt hasResult c =
     (if hasResult then
        bindo (cn_Query_stmt api stmt c) (\<lambda>(r, c1).
          case r of
            None \<Rightarrow> Some (Inr (Some None, False, c1))
          | Some (x, rows) \<Rightarrow> if rows = 0 then Some (Inr (Some None, False, c1)) else Some (Inr (Some (Some (x, rows)), True, c1)))
      else bindo (cn_Execute_stmt api stmt c) (\<lambda>(ok, c1). Some (Inr (None, ok, c1))))"

section \<open>The loader\<close>

text \<open>
  The options that the loader reads, for each database; \<open>ld_create\<close> is the outcome of \<open>DBUpdater::Create\<close>, and what it does
  to the world. The steps of a database work on its pool; a loader has a pool for each database, by its number.
\<close>

record 'w database_config =
  ld_dbString :: "uint8 list"
  ld_asyncThreads :: uint8
  ld_synchThreads :: uint8
  ld_attempts :: uint8
  ld_autoSetup :: bool
  ld_updatesEnabled :: bool
  ld_create :: "'w \<Rightarrow> bool \<times> 'w"

text \<open>The loop that tries to connect again; the first argument is the number of attempts that are left.\<close>

fun reconnect_loop :: "('w, 'r) mysql_api \<Rightarrow> nat \<Rightarrow> int \<Rightarrow> 'w db_pool \<Rightarrow> (int \<times> 'w db_pool) res" where
  "reconnect_loop api 0 error p = Inr (error, p)"
| "reconnect_loop api (Suc n) error p =
     bindr (po_Open api p) (\<lambda>(error', p1).
       if error' = CR_CONNECTION_ERROR then reconnect_loop api n error' p1 else Inr (error', p1))"

definition open_database :: "('w, 'r) mysql_api \<Rightarrow> 'w database_config \<Rightarrow> 'w db_pool \<Rightarrow> (bool \<times> 'w db_pool) res" where
  "open_database api cfg p =
     (if ld_dbString cfg = [] then Inr (False, p)
      else if ld_asyncThreads cfg < 1 \<or> ld_asyncThreads cfg > 32 then Inr (False, p)
      else
        bindr (po_Open api (SetConnectionInfo (ld_dbString cfg) (ld_asyncThreads cfg) (ld_synchThreads cfg) p)) (\<lambda>(error, p1).
          if error = 0 then Inr (True, p1)
          else
            bindr (if error = CR_CONNECTION_ERROR then reconnect_loop api (unat (ld_attempts cfg)) error p1 else Inr (error, p1)) (\<lambda>(error2, p2).
              if error2 = ER_BAD_DB_ERROR \<and> ld_updatesEnabled cfg \<and> ld_autoSetup cfg then
                (let (created, w) = ld_create cfg (po_world p2); p3 = p2\<lparr>po_world := w\<rparr> in
                 if created then bindr (po_Open api p3) (\<lambda>(error3, p4). Inr (error3 = 0, p4))
                 else Inr (False, p3))
              else Inr (error2 = 0, p2))))"

text \<open>
  The loader: queues of steps and a stack of databases to close. A step works on the state \<open>'s\<close>; a step of the first queue
  puts its database on the stack when it succeeds.
\<close>

record 's loader =
  lo_open :: "(nat \<times> ('s \<Rightarrow> bool \<times> 's)) list"
  lo_populate :: "('s \<Rightarrow> bool \<times> 's) list"
  lo_update :: "('s \<Rightarrow> bool \<times> 's) list"
  lo_prepare :: "('s \<Rightarrow> bool \<times> 's) list"
  lo_close :: "nat list"
  lo_state :: 's

definition AddDatabase ::
  "nat \<Rightarrow> bool \<Rightarrow> ('s \<Rightarrow> bool \<times> 's) \<Rightarrow> ('s \<Rightarrow> bool \<times> 's) \<Rightarrow> ('s \<Rightarrow> bool \<times> 's) \<Rightarrow> ('s \<Rightarrow> bool \<times> 's) \<Rightarrow> 's loader \<Rightarrow> 's loader" where
  "AddDatabase db updatesEnabled opn populate update prepare l =
     (let l1 = l\<lparr>lo_open := lo_open l @ [(db, opn)]\<rparr>;
          l2 = (if updatesEnabled then l1\<lparr>lo_populate := lo_populate l1 @ [populate], lo_update := lo_update l1 @ [update]\<rparr> else l1)
      in l2\<lparr>lo_prepare := lo_prepare l2 @ [prepare]\<rparr>)"

definition close_all :: "(nat \<Rightarrow> 's \<Rightarrow> 's) \<Rightarrow> 's loader \<Rightarrow> 's loader" where
  "close_all close l = l\<lparr>lo_state := fold close (lo_close l) (lo_state l), lo_close := []\<rparr>"

text \<open>\<open>Process\<close> on the queue of open operations, and on one of the other queues; what is left in a queue is not used again.\<close>

fun process_open :: "(nat \<Rightarrow> 's \<Rightarrow> 's) \<Rightarrow> (nat \<times> ('s \<Rightarrow> bool \<times> 's)) list \<Rightarrow> 's loader \<Rightarrow> bool \<times> 's loader" where
  "process_open close [] l = (True, l)"
| "process_open close ((db, f) # fs) l =
     (case f (lo_state l) of
        (True, s) \<Rightarrow> process_open close fs (l\<lparr>lo_state := s, lo_close := db # lo_close l\<rparr>)
      | (False, s) \<Rightarrow> (False, close_all close (l\<lparr>lo_state := s\<rparr>)))"

fun process_steps :: "(nat \<Rightarrow> 's \<Rightarrow> 's) \<Rightarrow> ('s \<Rightarrow> bool \<times> 's) list \<Rightarrow> 's loader \<Rightarrow> bool \<times> 's loader" where
  "process_steps close [] l = (True, l)"
| "process_steps close (f # fs) l =
     (case f (lo_state l) of
        (True, s) \<Rightarrow> process_steps close fs (l\<lparr>lo_state := s\<rparr>)
      | (False, s) \<Rightarrow> (False, close_all close (l\<lparr>lo_state := s\<rparr>)))"

definition loader_Load :: "(nat \<Rightarrow> 's \<Rightarrow> 's) \<Rightarrow> 's loader \<Rightarrow> bool \<times> 's loader" where
  "loader_Load close l =
     (let (ok1, l1) = process_open close (lo_open l) l in
      if \<not> ok1 then (False, l1)
      else let (ok2, l2) = process_steps close (lo_populate l1) l1 in
      if \<not> ok2 then (False, l2)
      else let (ok3, l3) = process_steps close (lo_update l2) l2 in
      if \<not> ok3 then (False, l3)
      else process_steps close (lo_prepare l3) l3)"

section \<open>The queue of the pool\<close>

datatype pool_action = DoEnqueue sql_operation | DoRound nat | DoOpen

fun pool_do :: "('w, 'r) mysql_api \<Rightarrow> pool_action \<Rightarrow> 'w db_pool \<Rightarrow> 'w db_pool" where
  "pool_do api (DoEnqueue op) p = Enqueue op p"
| "pool_do api (DoRound i) p = worker_round i p"
| "pool_do api DoOpen p = (case po_Open api p of Inl e \<Rightarrow> p | Inr (error, p') \<Rightarrow> p')"

abbreviation shut :: "'w db_pool \<Rightarrow> bool" where
  "shut p \<equiv> pcq_shutdown (po_queue p)"

lemma destroy_worker_simps [simp]:
  "shut (destroy_worker k p)" "po_called (destroy_worker k p) = po_called p" "po_async (destroy_worker k p) = po_async p"
  by (simp_all add: destroy_worker_def pcq_Cancel_def split_beta)

lemma clear_async_simps [simp]:
  "po_called (clear_async p) = po_called p" "shut p \<Longrightarrow> shut (clear_async p)" "po_async (clear_async p) = []"
proof -
  have "po_called (fold destroy_worker ks p) = po_called p \<and> (shut p \<longrightarrow> shut (fold destroy_worker ks p))" for ks
    by (induction ks arbitrary: p) simp_all
  then show "po_called (clear_async p) = po_called p" "shut p \<Longrightarrow> shut (clear_async p)" "po_async (clear_async p) = []"
    by (simp_all add: clear_async_def)
qed

lemma open_async_result:
  "open_async api info n p = Inr (e, p') \<Longrightarrow>
    po_called p' = po_called p \<and> (shut p \<longrightarrow> shut p') \<and>
    (if e = 0 then po_queue p' = po_queue p \<and> length (po_async p') = length (po_async p) + n \<and> po_synch p' = po_synch p \<and>
       po_async_threads p' = po_async_threads p \<and> po_synch_threads p' = po_synch_threads p
     else shut p')"
proof (induction n arbitrary: info p)
  case (Suc n)
  obtain error c where op: "cn_Open api (MySQLConnection_new CONNECTION_ASYNC info (po_world p)) = Inr (error, c)"
    using Suc.prems by auto
  define p1 where "p1 = p\<lparr>po_info := Some (cn_info c), po_world := cn_world c, po_async := po_async p @ [\<lparr>wk_conn = c, wk_running = True\<rparr>]\<rparr>"
  show ?case
  proof (cases "error \<noteq> 0 \<or> api_server_version api (cn_world c) < MIN_MYSQL_SERVER_VERSION")
    case True
    then show ?thesis using Suc.prems op by (auto simp: Let_def split: if_splits)
  next
    case False
    then have "open_async api (cn_info c) n p1 = Inr (e, p')" using Suc.prems op by (simp add: Let_def p1_def)
    from Suc.IH [OF this] show ?thesis by (auto simp: p1_def split: if_splits)
  qed
qed simp

lemma open_synch_result:
  "open_synch api info n p = Inr (e, p') \<Longrightarrow>
    po_called p' = po_called p \<and> po_queue p' = po_queue p \<and> po_async p' = po_async p \<and>
    (e = 0 \<longrightarrow> length (po_synch p') = length (po_synch p) + n)"
proof (induction n arbitrary: info p)
  case (Suc n)
  obtain error c where op: "cn_Open api (MySQLConnection_new CONNECTION_SYNCH info (po_world p)) = Inr (error, c)"
    using Suc.prems by auto
  define p1 where "p1 = p\<lparr>po_info := Some (cn_info c), po_world := cn_world c, po_synch := po_synch p @ [c]\<rparr>"
  show ?case
  proof (cases "error \<noteq> 0 \<or> api_server_version api (cn_world c) < MIN_MYSQL_SERVER_VERSION")
    case True
    then show ?thesis using Suc.prems op by (auto simp: Let_def clear_synch_def split: if_splits)
  next
    case False
    then have "open_synch api (cn_info c) n p1 = Inr (e, p')" using Suc.prems op by (simp add: Let_def p1_def)
    from Suc.IH [OF this] show ?thesis by (auto simp: p1_def)
  qed
qed simp

lemma po_Open_keeps:
  assumes "po_Open api p = Inr (e, p')"
  shows "po_called p' = po_called p" "shut p \<Longrightarrow> shut p'"
  using assms
  by (auto simp: po_Open_def split: option.splits if_splits dest!: open_async_result open_synch_result)

lemma pool_do_shut:
  assumes "shut p"
  shows "shut (pool_do api a p) \<and> po_called (pool_do api a p) = po_called p"
proof (cases a)
  case DoOpen
  then show ?thesis using assms po_Open_keeps [of api p] by (auto split: sum.split)
qed (use assms in \<open>auto simp: Enqueue_def pcq_Push_def worker_round_def pcq_WaitAndPop_def\<close>)

lemma pool_dos_shut: "shut p \<Longrightarrow> shut (fold (pool_do api) acts p) \<and> po_called (fold (pool_do api) acts p) = po_called p"
proof (induction acts arbitrary: p)
  case (Cons a acts)
  then show ?case using pool_do_shut [of p api a] by auto
qed simp

text \<open>Whether an asynchronous connection fails to open.\<close>

definition async_fails :: "('w, 'r) mysql_api \<Rightarrow> 'w db_pool \<Rightarrow> bool" where
  "async_fails api p \<longleftrightarrow>
     (\<exists>info e p'. po_info p = Some info \<and> open_async api info (unat (po_async_threads p)) p = Inr (e, p') \<and> e \<noteq> 0)"

lemma async_fails_shut: "async_fails api p \<Longrightarrow> \<exists>e p'. po_Open api p = Inr (e, p') \<and> shut p' \<and> e \<noteq> 0"
  unfolding async_fails_def po_Open_def by (fastforce dest: open_async_result)

lemma reconnect_loop_shut: "shut p \<Longrightarrow> reconnect_loop api n e p = Inr (e', p') \<Longrightarrow> shut p'"
  by (induction n arbitrary: e p) (auto split: if_splits dest: po_Open_keeps(2))

text \<open>
  C11. A failed first attempt leaves the pool without workers: when an asynchronous connection could not be opened at the first
  attempt, then, however the loader goes on and whether or not it reports success, no operation that is put on the queue later is
  ever called, and every worker thread ends in its first round. The destructor of the connection's worker has cancelled the queue of
  the pool.
\<close>

theorem retried_pool_is_dead:
  assumes "async_fails api (SetConnectionInfo (ld_dbString cfg) (ld_asyncThreads cfg) (ld_synchThreads cfg) p)"
    "open_database api cfg p = Inr (ok, p')" "ld_dbString cfg \<noteq> []" "1 \<le> ld_asyncThreads cfg" "ld_asyncThreads cfg \<le> 32"
    "p2 = fold (pool_do api) acts p'"
  shows "po_called p2 = po_called p' \<and> (\<forall>i < length (po_async p2). \<not> wk_running (po_async (worker_round i p2) ! i))"
proof -
  let ?p0 = "SetConnectionInfo (ld_dbString cfg) (ld_asyncThreads cfg) (ld_synchThreads cfg) p"
  obtain e p1 where p1: "po_Open api ?p0 = Inr (e, p1)" "shut p1" "e \<noteq> 0" using async_fails_shut [OF assms(1)] by blast
  have "\<not> (ld_asyncThreads cfg < 1 \<or> ld_asyncThreads cfg > 32)" using assms(4,5) by auto
  then have "\<exists>e2 p3. (if e = CR_CONNECTION_ERROR then reconnect_loop api (unat (ld_attempts cfg)) e p1 else Inr (e, p1)) = Inr (e2, p3) \<and>
      (if e2 = ER_BAD_DB_ERROR \<and> ld_updatesEnabled cfg \<and> ld_autoSetup cfg then
         (let (created, w) = ld_create cfg (po_world p3); p4 = p3\<lparr>po_world := w\<rparr> in
          if created then bindr (po_Open api p4) (\<lambda>(error3, p4). Inr (error3 = 0, p4)) else Inr (False, p4))
       else Inr (e2 = 0, p3)) = Inr (ok, p')"
    using assms(2,3) p1(1,3) unfolding open_database_def by auto
  then obtain e2 p3 where p3: "(if e = CR_CONNECTION_ERROR then reconnect_loop api (unat (ld_attempts cfg)) e p1 else Inr (e, p1)) = Inr (e2, p3)"
      "(if e2 = ER_BAD_DB_ERROR \<and> ld_updatesEnabled cfg \<and> ld_autoSetup cfg then
         (let (created, w) = ld_create cfg (po_world p3); p4 = p3\<lparr>po_world := w\<rparr> in
          if created then bindr (po_Open api p4) (\<lambda>(error3, p4). Inr (error3 = 0, p4)) else Inr (False, p4))
       else Inr (e2 = 0, p3)) = Inr (ok, p')"
    by blast
  have "shut p3" using p3(1) p1(2) by (auto split: if_splits dest: reconnect_loop_shut)
  then have s: "shut p'" using p3(2) po_Open_keeps(2) [of api "p3\<lparr>po_world := snd (ld_create cfg (po_world p3))\<rparr>"]
    by (auto simp: split_beta Let_def split: if_splits)
  then have s2: "shut p2 \<and> po_called p2 = po_called p'" using pool_dos_shut assms(6) by blast
  then have "\<not> wk_running (po_async (worker_round i p2) ! i)" if "i < length (po_async p2)" for i
    using that by (auto simp: worker_round_def pcq_WaitAndPop_def)
  then show ?thesis using s2 by blast
qed

text \<open>A library that takes the answers of attempts to connect from a list.\<close>

definition dial_api :: "(int option list, unit) mysql_api" where
  "dial_api = script_api\<lparr>api_query := \<lambda>sql w. (None, w), api_connect := \<lambda>args w. (case w of [] \<Rightarrow> (None, []) | a # w' \<Rightarrow> (a, w'))\<rparr>"

definition test_config :: "int option list database_config" where
  "test_config = \<lparr>ld_dbString = bytes_of ''h;33;u;p;d'', ld_asyncThreads = 1, ld_synchThreads = 1, ld_attempts = 1, ld_autoSetup = False,
     ld_updatesEnabled = False, ld_create = (\<lambda>w. (False, w))\<rparr>"

lemma test_config_info: "MySQLConnectionInfo_new (bytes_of ''h;33;u;p;d'') =
    \<lparr>ci_user = [0x75], ci_password = [0x70], ci_database = [0x64], ci_host = [0x68], ci_port_or_socket = [0x33, 0x33], ci_ssl = []\<rparr>"
  by code_simp

lemma test_port: "FromString_int uint32_type 10 [0x33, 0x33] = Some 33" "bytes_of ''.'' = [0x2e]" "bytes_of ''h;33;u;p;d'' \<noteq> []"
  by code_simp+

lemma test_opens:
  "\<exists>p'. open_database dial_api test_config (DatabaseWorkerPool_new [Some 2002]) = Inr (True, p') \<and> length (po_async p') = 1"
  "async_fails dial_api (SetConnectionInfo (bytes_of ''h;33;u;p;d'') 1 1 (DatabaseWorkerPool_new [Some 2002]))"
  by (simp_all add: open_database_def test_config_def SetConnectionInfo_def test_config_info po_Open_def DatabaseWorkerPool_new_def
      cn_Open_def MySQLConnection_new_def dial_api_def script_api_def test_port Let_def clear_async_def destroy_worker_def split_beta
      CR_CONNECTION_ERROR_def MIN_MYSQL_SERVER_VERSION_def async_fails_def)

theorem retried_pool_is_dead_witness:
  "\<exists>p'. open_database dial_api test_config (DatabaseWorkerPool_new [Some 2002]) = Inr (True, p') \<and> length (po_async p') = 1 \<and>
    po_called (fold (pool_do dial_api) [DoEnqueue PingOperation, DoRound 0] p') = po_called p'"
proof -
  obtain p' where p': "open_database dial_api test_config (DatabaseWorkerPool_new [Some 2002]) = Inr (True, p')" "length (po_async p') = 1"
    using test_opens(1) by blast
  have "async_fails dial_api (SetConnectionInfo (ld_dbString test_config) (ld_asyncThreads test_config) (ld_synchThreads test_config) (DatabaseWorkerPool_new [Some 2002]))"
    using test_opens(2) by (simp add: test_config_def)
  from retried_pool_is_dead [OF this p'(1) _ _ _ refl, of "[DoEnqueue PingOperation, DoRound 0]"]
  show ?thesis using p' by (auto simp: test_config_def bytes_of_def)
qed

section \<open>The operations of a live pool\<close>

fun enqueued :: "pool_action list \<Rightarrow> sql_operation list" where
  "enqueued [] = []"
| "enqueued (DoEnqueue op # acts) = op # enqueued acts"
| "enqueued (a # acts) = enqueued acts"



section \<open>A free connection\<close>

lemma free_loop_finds:
  assumes "unat (i + 1 + word_of_nat d) mod n = j0" "unlocked (k + d) j0" "0 < n"
  shows "\<exists>j k'. free_loop unlocked n i k = Some j \<and> j < n \<and> unlocked k' j"
  using assms
proof (induction d arbitrary: i k)
  case 0
  then show ?case by (subst free_loop.simps) (auto simp: Let_def)
next
  case (Suc d)
  show ?case
  proof (cases "unlocked k (unat (i + 1) mod n)")
    case True
    then show ?thesis using assms(3) by (subst free_loop.simps) (auto simp: Let_def)
  next
    case False
    have "i + 1 + 1 + word_of_nat d = i + 1 + word_of_nat (Suc d)" by simp
    then have "\<exists>j k'. free_loop unlocked n (i + 1) (Suc k) = Some j \<and> j < n \<and> unlocked k' j"
      using Suc.prems by (intro Suc.IH) (simp_all add: add.assoc)
    then show ?thesis using False by (subst free_loop.simps) (simp add: Let_def)
  qed
qed

text \<open>
  C13. A synchronous operation gets a connection: when one of the synchronous connections is free from some moment on, the
  search returns, and with a connection that it found unlocked. There must be a connection: without one the index is taken modulo zero.
\<close>

theorem free_connection:
  assumes "length (po_synch p) \<le> 256" "j0 < length (po_synch p)" "\<And>k. T \<le> k \<Longrightarrow> unlocked k j0"
  shows "\<exists>j k. GetFreeConnection unlocked p = Some (Inr j) \<and> j < length (po_synch p) \<and> unlocked k j"
proof -
  define d where "d = T + unat (word_of_nat j0 - 1 - word_of_nat T :: uint8)"
  have "(0 + 1 + word_of_nat d :: uint8) = word_of_nat j0" by (simp add: d_def)
  then have "unat (0 + 1 + word_of_nat d :: uint8) mod length (po_synch p) = j0" using assms(1,2) by simp
  then show ?thesis using free_loop_finds [of 0 d "length (po_synch p)" j0 unlocked 0] assms(2,3) by (auto simp: GetFreeConnection_def d_def)
qed

theorem free_connection_witness:
  "\<exists>j k. GetFreeConnection (\<lambda>k j. 10 \<le> k \<and> j = 1) ((DatabaseWorkerPool_new ())\<lparr>po_synch := replicate 3 (test_connection ())\<rparr>) = Some (Inr j) \<and>
    j < 3 \<and> (10 \<le> (k :: nat) \<and> j = 1)"
  using free_connection [of "(DatabaseWorkerPool_new ())\<lparr>po_synch := replicate 3 (test_connection ())\<rparr>" 1 10 "\<lambda>k j. 10 \<le> k \<and> j = 1"]
  by simp

section \<open>Keeping connections alive\<close>

text \<open>
  The pings of \<open>KeepAlive\<close>: one for each asynchronous connection as long as there are at most 255 of them. Its counter
  is a byte, so with more connections it never returns.
\<close>

theorem keep_alive:
  "KeepAlive p = (if length (po_async p) \<le> 255 then Some ((Enqueue PingOperation ^^ length (po_async p)) p) else None)"
proof (cases "length (po_async p) \<le> 255")
  case True
  have "ping_loop n (word_of_nat i) p = Some ((Enqueue PingOperation ^^ (n - i)) p)" if "i \<le> n" "n \<le> 255" for i n and p :: "'a db_pool"
    using that
  proof (induction "n - i" arbitrary: i p)
    case 0
    then show ?case by (subst ping_loop.simps) simp
  next
    case (Suc m)
    then have "i < n" "n - i = Suc (n - Suc i)" "word_of_nat i + 1 = (word_of_nat (Suc i) :: uint8)" by (simp_all add: add.commute)
    moreover have "ping_loop n (word_of_nat (Suc i)) (Enqueue PingOperation p) = Some ((Enqueue PingOperation ^^ (n - Suc i)) (Enqueue PingOperation p))"
      using Suc by (intro Suc.hyps) simp_all
    ultimately show ?case using Suc.prems by (subst ping_loop.simps) (simp add: funpow_swap1 del: of_nat_Suc)
  qed
  from this [of 0] show ?thesis using True by (simp add: KeepAlive_def)
next
  case False
  have "n \<le> 255" if "ping_loop n i p = Some p'" for n i and p p' :: "'a db_pool"
    using that
  proof (rule ping_loop.raw_induct [rotated])
    fix self :: "nat \<Rightarrow> uint8 \<Rightarrow> 'a db_pool \<Rightarrow> 'a db_pool option" and n i p p'
    assume "\<And>n i p p'. self n i p = Some p' \<Longrightarrow> n \<le> 255"
      and "(if unat i < n then self n (i + 1) (Enqueue PingOperation p) else Some p) = Some p'"
    moreover have "unat i < 2 ^ LENGTH(8)" by (rule unsigned_less)
    ultimately show "n \<le> 255" by (auto split: if_splits)
  qed
  then have "ping_loop (length (po_async p)) 0 p = None" using False by (metis not_Some_eq)
  then show ?thesis using False by (simp add: KeepAlive_def)
qed

section \<open>The statements of the server on the pool\<close>

fun fill_params :: "nat option list \<Rightarrow> uint8 list \<Rightarrow> uint8 list" where
  "fill_params [] sizes = sizes"
| "fill_params (m # ms) [] = []"
| "fill_params (m # ms) (s # sizes) = (if s > 0 then s else case m of None \<Rightarrow> s | Some n \<Rightarrow> word_of_nat n) # fill_params ms sizes"

lemma fill_sizes_params:
  "\<forall>n. Some n \<in> set (stmt_params ms) \<longrightarrow> n < 255 \<Longrightarrow> fill_sizes ms sizes = Inr (fill_params (stmt_params ms) sizes)"
  by (induction ms sizes rule: fill_sizes.induct) (auto simp: stmt_params_def split: option.split)

definition discord_sizes :: "uint8 list" where
  "discord_sizes = [1, 5, 1, 1, 0, 3, 1, 1, 4, 4, 0, 0, 5]"

lemma sizes_filled:
  "fill_params (params_of CONNECTION_ASYNC) (grow_sizes 13 []) = discord_sizes"
  "flags = CONNECTION_ASYNC \<or> flags = CONNECTION_SYNCH \<Longrightarrow> fill_params (params_of flags) (grow_sizes 13 discord_sizes) = discord_sizes"
  "Some n \<in> set (params_of flags) \<Longrightarrow> n < 255"
  by (auto simp: params_of_def grow_sizes_def discord_sizes_def CONNECTION_ASYNC_def CONNECTION_SYNCH_def numeral_eq_Suc split: if_splits)

definition conn_fresh :: "uint32 \<Rightarrow> 'w mysql_connection \<Rightarrow> bool" where
  "conn_fresh flags c \<longleftrightarrow> cn_flags c = flags \<and> cn_stmts c = [] \<and> \<not> cn_prepareError c \<and> \<not> cn_reconnecting c"

definition conn_prepared :: "uint32 \<Rightarrow> 'w mysql_connection \<Rightarrow> bool" where
  "conn_prepared flags c \<longleftrightarrow> stmt_params (cn_stmts c) = params_of flags \<and> (\<forall>m. Some m \<in> set (cn_stmts c) \<longrightarrow> ms_ok m)"

lemma prepare_connection_ok:
  assumes "prepares api" "flags = CONNECTION_ASYNC \<or> flags = CONNECTION_SYNCH" "conn_fresh flags c"
    "po_sizes p = discord_sizes \<or> po_sizes p = [] \<and> flags = CONNECTION_ASYNC"
  shows "\<exists>c' w. prepare_connection api c p = Inr (True, c', p\<lparr>po_world := w, po_sizes := discord_sizes\<rparr>) \<and> conn_prepared flags c'"
proof -
  let ?c = "c\<lparr>cn_world := po_world p\<rparr>"
  obtain c' where c': "cn_PrepareStatements api ?c = Inr (True, c')" "conn_prepared flags c'" "length (cn_stmts c') = 13"
    using PrepareStatements_fresh [OF assms(1,2), of ?c] assms(3)
    by (auto simp: conn_fresh_def conn_prepared_def MAX_DISCORD_DATABASE_STATEMENTS_def)
  have "fill_sizes (cn_stmts c') (grow_sizes 13 (po_sizes p)) = Inr discord_sizes"
    using c'(2) sizes_filled assms(2,4) by (auto simp: fill_sizes_params conn_prepared_def)
  then show ?thesis using c' by (auto simp: prepare_connection_def)
qed

lemma prepare_from_async_ok:
  assumes "prepares api" "i + n = length (po_async p)" "\<forall>k \<in> set (drop i (po_async p)). conn_fresh CONNECTION_ASYNC (wk_conn k)"
    "\<forall>k \<in> set (take i (po_async p)). conn_prepared CONNECTION_ASYNC (wk_conn k)"
    "po_sizes p = (if i = 0 then [] else discord_sizes)"
  shows "\<exists>p'. prepare_from_async api i n p = Inr (True, p') \<and> (\<forall>k \<in> set (po_async p'). conn_prepared CONNECTION_ASYNC (wk_conn k)) \<and>
    po_sizes p' = (if i + n = 0 then [] else discord_sizes) \<and> po_synch p' = po_synch p \<and> length (po_async p') = length (po_async p)"
  using assms(2-)
proof (induction n arbitrary: i p)
  case (Suc n)
  have i: "i < length (po_async p)" using Suc.prems(1) by simp
  then have dr: "drop i (po_async p) = po_async p ! i # drop (Suc i) (po_async p)" by (simp add: Cons_nth_drop_Suc)
  then have "conn_fresh CONNECTION_ASYNC (wk_conn (po_async p ! i))" using Suc.prems(2) by simp
  then obtain c w where c: "prepare_connection api (wk_conn (po_async p ! i)) p = Inr (True, c, p\<lparr>po_world := w, po_sizes := discord_sizes\<rparr>)"
      "conn_prepared CONNECTION_ASYNC c"
    using prepare_connection_ok [OF assms(1), of CONNECTION_ASYNC "wk_conn (po_async p ! i)" p] Suc.prems(4) by (auto split: if_splits)
  define p2 where "p2 = p\<lparr>po_world := w, po_sizes := discord_sizes, po_async := (po_async p)[i := (po_async p ! i)\<lparr>wk_conn := c\<rparr>]\<rparr>"
  have "take (Suc i) (po_async p2) = take i (po_async p) @ [(po_async p ! i)\<lparr>wk_conn := c\<rparr>]" "drop (Suc i) (po_async p2) = drop (Suc i) (po_async p)"
    using i by (simp_all add: p2_def take_Suc_conv_app_nth)
  then have "\<exists>p'. prepare_from_async api (Suc i) n p2 = Inr (True, p') \<and> (\<forall>k \<in> set (po_async p'). conn_prepared CONNECTION_ASYNC (wk_conn k)) \<and>
    po_sizes p' = (if Suc i + n = 0 then [] else discord_sizes) \<and> po_synch p' = po_synch p2 \<and> length (po_async p') = length (po_async p2)"
    using Suc.prems dr c(2) by (intro Suc.IH) (auto simp: p2_def)
  then show ?case using c(1) by (simp add: p2_def)
qed auto

lemma prepare_from_synch_ok:
  assumes "prepares api" "i + n = length (po_synch p)" "\<forall>c \<in> set (drop i (po_synch p)). conn_fresh CONNECTION_SYNCH c"
    "\<forall>c \<in> set (take i (po_synch p)). conn_prepared CONNECTION_SYNCH c" "po_sizes p = discord_sizes"
  shows "\<exists>p'. prepare_from_synch api i n p = Inr (True, p') \<and> (\<forall>c \<in> set (po_synch p'). conn_prepared CONNECTION_SYNCH c) \<and>
    po_sizes p' = discord_sizes \<and> po_async p' = po_async p \<and> length (po_synch p') = length (po_synch p)"
  using assms(2-)
proof (induction n arbitrary: i p)
  case (Suc n)
  have i: "i < length (po_synch p)" using Suc.prems(1) by simp
  then have dr: "drop i (po_synch p) = po_synch p ! i # drop (Suc i) (po_synch p)" by (simp add: Cons_nth_drop_Suc)
  then have "conn_fresh CONNECTION_SYNCH (po_synch p ! i)" using Suc.prems(2) by simp
  then obtain c w where c: "prepare_connection api (po_synch p ! i) p = Inr (True, c, p\<lparr>po_world := w, po_sizes := discord_sizes\<rparr>)"
      "conn_prepared CONNECTION_SYNCH c"
    using prepare_connection_ok [OF assms(1), of CONNECTION_SYNCH "po_synch p ! i" p] Suc.prems(4) by auto
  define p2 where "p2 = p\<lparr>po_world := w, po_sizes := discord_sizes, po_synch := (po_synch p)[i := c]\<rparr>"
  have "take (Suc i) (po_synch p2) = take i (po_synch p) @ [c]" "drop (Suc i) (po_synch p2) = drop (Suc i) (po_synch p)"
    using i by (simp_all add: p2_def take_Suc_conv_app_nth)
  then have "\<exists>p'. prepare_from_synch api (Suc i) n p2 = Inr (True, p') \<and> (\<forall>c \<in> set (po_synch p'). conn_prepared CONNECTION_SYNCH c) \<and>
    po_sizes p' = discord_sizes \<and> po_async p' = po_async p2 \<and> length (po_synch p') = length (po_synch p2)"
    using Suc.prems dr c(2) by (intro Suc.IH) (auto simp: p2_def)
  then show ?case using c(1) by (simp add: p2_def)
qed auto

definition conns_of :: "uint32 \<Rightarrow> 'w db_pool \<Rightarrow> 'w mysql_connection list" where
  "conns_of flags p = (if flags = CONNECTION_ASYNC then map wk_conn (po_async p) else po_synch p)"

lemma statement_call_params:
  assumes "statement_call s = (st, args, fl)"
  shows "(fl = CONNECTION_ASYNC \<or> fl = CONNECTION_SYNCH) \<and> statement_index st < length discord_sizes \<and>
    unat (discord_sizes ! statement_index st) = length args \<and>
    params_of fl ! statement_index st = (if s = ExecuteDb DISCORD_UPD_IP_BAN_EXPIRED then None else Some (length args))"
  using assms
proof (cases s)
  case (ExecuteDb d)
  then show ?thesis using assms
    by (cases d) (auto simp: discord_sizes_def params_of_def)
qed (auto simp: discord_sizes_def params_of_def CONNECTION_ASYNC_def CONNECTION_SYNCH_def)

lemma cn_bound_prepared:
  assumes "conn_prepared fl c" "i < length (params_of fl)" "params_of fl ! i = Some (length args)" "length args \<le> 255" "list_all data_fits args"
  shows "\<exists>m. cn_bound api \<lparr>ps_index = i, ps_data = args\<rparr> c = Inr m \<and>
    map (bind_value (api_host api)) (ms_bind m) = map (Some \<circ> sent_data) args"
proof -
  have l: "i < length (cn_stmts c)" using assms(1,2) by (metis conn_prepared_def length_map stmt_params_def)
  then obtain m where m: "cn_stmts c ! i = Some m" "ms_paramCount m = length args"
    using assms(1,3) by (auto simp: conn_prepared_def stmt_params_def dest!: arg_cong [of _ _ "\<lambda>xs. xs ! i"])
  moreover have "ms_ok m" using assms(1) m(1) l by (metis conn_prepared_def nth_mem)
  ultimately show ?thesis using BindParameters_sends [of m "\<lparr>ps_index = i, ps_data = args\<rparr>" "api_host api"] assms(4,5) l
    by (auto simp: cn_bound_def cn_GetPreparedStatement_def sends_def ms_ok_def)
qed

lemma cn_bound_missing:
  assumes "conn_prepared fl c" "i < length (params_of fl)" "params_of fl ! i = None"
  shows "cn_bound api \<lparr>ps_index = i, ps_data = args\<rparr> c = Inl (AssertFailure ''m_mStmt'')"
proof -
  have l: "i < length (cn_stmts c)" using assms(1,2) by (metis conn_prepared_def length_map stmt_params_def)
  then have "cn_stmts c ! i = None"
    using assms(1,3) by (auto simp: conn_prepared_def stmt_params_def dest!: arg_cong [of _ _ "\<lambda>xs. xs ! i"])
  then show ?thesis using l by (simp add: cn_bound_def cn_GetPreparedStatement_def)
qed

text \<open>
  C8. The statements of the server and the table of statements agree, with one exception: on a pool whose connections
  are open, all statements can be prepared; every statement that a manager, the bot or a socket runs has a place for each of its
  arguments, and on a connection of its kind the client library reads exactly these arguments. The exception is the statement that lets
  bans of addresses expire, which \<open>BanMgr\<close> runs at the start: it is never prepared, and running it fails an assertion.
\<close>

theorem statements_run:
  assumes "prepares api" "po_async p \<noteq> []" "\<forall>k \<in> set (po_async p). conn_fresh CONNECTION_ASYNC (wk_conn k)"
    "\<forall>c \<in> set (po_synch p). conn_fresh CONNECTION_SYNCH c" "po_sizes p = []"
    "statement_call s = (st, args, fl)" "list_all data_fits args"
  shows "\<exists>p' stmt. po_PrepareStatements api p = Inr (True, p') \<and> length (conns_of fl p') = length (conns_of fl p) \<and>
    bindr (po_GetPreparedStatement (statement_index st) p') (SetArguments args) = Inr stmt \<and>
    (\<forall>c \<in> set (conns_of fl p').
       if s = ExecuteDb DISCORD_UPD_IP_BAN_EXPIRED then cn_bound api stmt c = Inl (AssertFailure ''m_mStmt'')
       else \<exists>m. cn_bound api stmt c = Inr m \<and> map (bind_value (api_host api)) (ms_bind m) = map (Some \<circ> sent_data) args)"
proof -
  obtain p1 where p1: "prepare_from_async api 0 (length (po_async p)) p = Inr (True, p1)"
      "\<forall>k \<in> set (po_async p1). conn_prepared CONNECTION_ASYNC (wk_conn k)" "po_sizes p1 = discord_sizes" "po_synch p1 = po_synch p"
      "length (po_async p1) = length (po_async p)"
    using prepare_from_async_ok [OF assms(1), of 0 "length (po_async p)" p] assms(2-5) by auto
  obtain p' where p': "prepare_from_synch api 0 (length (po_synch p1)) p1 = Inr (True, p')"
      "\<forall>c \<in> set (po_synch p'). conn_prepared CONNECTION_SYNCH c" "po_sizes p' = discord_sizes" "po_async p' = po_async p1"
      "length (po_synch p') = length (po_synch p1)"
    using prepare_from_synch_ok [OF assms(1), of 0 "length (po_synch p1)" p1] p1(3,4) assms(4) by auto
  note call = statement_call_params [OF assms(6)]
  let ?stmt = "\<lparr>ps_index = statement_index st, ps_data = args\<rparr>"
  have "unat (discord_sizes ! statement_index st) < 2 ^ LENGTH(8)" by (rule unsigned_less)
  then have args: "length args \<le> 255" using call by simp
  have prep: "\<forall>c \<in> set (conns_of fl p'). conn_prepared fl c" using p1(2) p'(2,4) call by (auto simp: conns_of_def)
  have "bindr (po_GetPreparedStatement (statement_index st) p') (SetArguments args) = Inr ?stmt"
    using call p'(3) args by (simp add: po_GetPreparedStatement_def SetArguments_eq PreparedStatement_new_def)
  moreover have "statement_index st < length (params_of fl)" using call by (simp add: params_of_def discord_sizes_def)
  moreover have "length (conns_of fl p') = length (conns_of fl p)" using p1(4,5) p'(4,5) by (simp add: conns_of_def)
  moreover have "po_PrepareStatements api p = Inr (True, p')" using p1(1) p'(1) by (simp add: po_PrepareStatements_def)
  ultimately show ?thesis
    using call prep cn_bound_missing [of fl _ "statement_index st" api args] cn_bound_prepared [of fl _ "statement_index st" args api] args assms(7)
    by auto
qed

definition test_pool :: "int option list db_pool" where
  "test_pool = (DatabaseWorkerPool_new [])\<lparr>
     po_async := [\<lparr>wk_conn = MySQLConnection_new CONNECTION_ASYNC no_info [], wk_running = True\<rparr>],
     po_synch := [MySQLConnection_new CONNECTION_SYNCH no_info []]\<rparr>"

theorem statements_run_witness:
  "\<exists>p' stmt. po_PrepareStatements script_api test_pool = Inr (True, p') \<and>
    bindr (po_GetPreparedStatement 11 p') (SetArguments []) = Inr stmt \<and>
    (\<forall>c \<in> set (map wk_conn (po_async p')). cn_bound script_api stmt c = Inl (AssertFailure ''m_mStmt'')) \<and> length (po_async p') = 1"
  using statements_run [of script_api test_pool "ExecuteDb DISCORD_UPD_IP_BAN_EXPIRED" Upd_Ip_Ban_Expired "[]" CONNECTION_ASYNC] script_api_accepts
  by (auto simp: test_pool_def DatabaseWorkerPool_new_def conn_fresh_def MySQLConnection_new_def accepts_def conns_of_def)

section \<open>Loading databases\<close>

text \<open>The steps in their order, up to the first that fails: how many succeeded, whether all did, and the state.\<close>

fun run_until :: "('s \<Rightarrow> bool \<times> 's) list \<Rightarrow> 's \<Rightarrow> nat \<times> bool \<times> 's" where
  "run_until [] s = (0, True, s)"
| "run_until (f # fs) s =
     (case f s of
        (True, s') \<Rightarrow> (let (n, b, s'') = run_until fs s' in (Suc n, b, s''))
      | (False, s') \<Rightarrow> (0, False, s'))"

lemma run_until_append:
  "run_until (fs @ gs) s =
     (let (n, b, s') = run_until fs s in if b then (let (m, b', s'') = run_until gs s' in (n + m, b', s'')) else (n, b, s'))"
  by (induction fs arbitrary: s) (auto simp: Let_def split_beta split: bool.split prod.split)

lemma run_until_all: "run_until fs s = (n, True, s') \<Longrightarrow> n = length fs"
  by (induction fs arbitrary: s n) (auto split: bool.splits prod.splits)

lemma process_open_run:
  assumes "run_until (map snd fs) (lo_state l) = (n, b, s)"
  shows "process_open close fs l =
    (if b then (True, l\<lparr>lo_state := s, lo_close := rev (map fst fs) @ lo_close l\<rparr>)
     else (False, close_all close (l\<lparr>lo_state := s, lo_close := rev (map fst (take n fs)) @ lo_close l\<rparr>)))"
  using assms
proof (induction fs arbitrary: l n)
  case (Cons a fs)
  obtain db f where a: "a = (db, f)" by fastforce
  obtain ok s1 where f: "f (lo_state l) = (ok, s1)" by fastforce
  show ?case
  proof (cases ok)
    case True
    obtain m b' s' where m: "run_until (map snd fs) s1 = (m, b', s')" by (metis prod_cases3)
    then show ?thesis using Cons.IH [of "l\<lparr>lo_state := s1, lo_close := db # lo_close l\<rparr>" m] Cons.prems f True
      by (auto simp: a)
  qed (use Cons.prems f a in auto)
qed simp

lemma process_steps_run:
  assumes "run_until fs (lo_state l) = (n, b, s)"
  shows "process_steps close fs l = (if b then (True, l\<lparr>lo_state := s\<rparr>) else (False, close_all close (l\<lparr>lo_state := s\<rparr>)))"
  using assms
proof (induction fs arbitrary: l n)
  case (Cons f fs)
  obtain ok s1 where f: "f (lo_state l) = (ok, s1)" by fastforce
  show ?case
  proof (cases ok)
    case True
    obtain m b' s' where m: "run_until fs s1 = (m, b', s')" by (metis prod_cases3)
    then show ?thesis using Cons.IH [of "l\<lparr>lo_state := s1\<rparr>" m] Cons.prems f True by auto
  qed (use Cons.prems f in auto)
qed simp

definition all_steps :: "'s loader \<Rightarrow> ('s \<Rightarrow> bool \<times> 's) list" where
  "all_steps l = map snd (lo_open l) @ lo_populate l @ lo_update l @ lo_prepare l"

text \<open>
  Loading opens, populates, updates and prepares the databases in this order, and within each in the order they were added, up to
  the first step that fails; then the databases that were opened are closed, each once and in the reverse order.
\<close>

theorem load_closes_on_failure:
  assumes "lo_close l = []" "run_until (all_steps l) (lo_state l) = (n, ok, s)"
  shows "\<exists>l'. loader_Load close l = (ok, l') \<and>
    lo_state l' = (if ok then s else fold close (rev (map fst (take n (lo_open l)))) s) \<and>
    lo_close l' = (if ok then rev (map fst (lo_open l)) else [])"
proof -
  obtain n1 b1 s1 where r1: "run_until (map snd (lo_open l)) (lo_state l) = (n1, b1, s1)" by (metis prod_cases3)
  obtain n2 b2 s2 where r2: "run_until (lo_populate l) s1 = (n2, b2, s2)" by (metis prod_cases3)
  obtain n3 b3 s3 where r3: "run_until (lo_update l) s2 = (n3, b3, s3)" by (metis prod_cases3)
  obtain n4 b4 s4 where r4: "run_until (lo_prepare l) s3 = (n4, b4, s4)" by (metis prod_cases3)
  note run = assms(2) [unfolded all_steps_def run_until_append, simplified r1 r2 r3 r4 Let_def prod.case]
  note procs = process_open_run [OF r1, of close] process_steps_run [of _ _ _ _ _ close]
  show ?thesis
  proof (cases b1)
    case False
    then show ?thesis using run procs(1) assms(1) by (auto simp: loader_Load_def close_all_def)
  next
    case True
    then have n1: "n1 = length (lo_open l)" using run_until_all [of "map snd (lo_open l)"] r1 by auto
    define l1 where "l1 = l\<lparr>lo_state := s1, lo_close := rev (map fst (lo_open l))\<rparr>"
    have p1: "process_open close (lo_open l) l = (True, l1)" using procs(1) True assms(1) by (simp add: l1_def)
    have p2: "process_steps close (lo_populate l) l1 = (if b2 then (True, l1\<lparr>lo_state := s2\<rparr>) else (False, close_all close (l1\<lparr>lo_state := s2\<rparr>)))"
      using process_steps_run [of "lo_populate l" l1 n2 b2 s2 close] r2 by (simp add: l1_def)
    have p3: "process_steps close (lo_update l) (l1\<lparr>lo_state := s2\<rparr>) = (if b3 then (True, l1\<lparr>lo_state := s3\<rparr>) else (False, close_all close (l1\<lparr>lo_state := s3\<rparr>)))"
      using process_steps_run [of "lo_update l" "l1\<lparr>lo_state := s2\<rparr>" n3 b3 s3 close] r3 by simp
    have p4: "process_steps close (lo_prepare l) (l1\<lparr>lo_state := s3\<rparr>) = (if b4 then (True, l1\<lparr>lo_state := s4\<rparr>) else (False, close_all close (l1\<lparr>lo_state := s4\<rparr>)))"
      using process_steps_run [of "lo_prepare l" "l1\<lparr>lo_state := s3\<rparr>" n4 b4 s4 close] r4 by simp
    have q: "lo_populate l1 = lo_populate l" "lo_update l1 = lo_update l" "lo_prepare l1 = lo_prepare l" "lo_close l1 = rev (map fst (lo_open l))"
      by (simp_all add: l1_def)
    show ?thesis using run True n1
      by (cases b2; cases b3; cases b4) (auto simp: loader_Load_def p1 p2 p3 p4 q close_all_def)
  qed
qed
end
