(* ===== verification/Containers.thy ===== *)
theory Containers
  imports Account "HOL-Library.Sublist"
begin

text \<open>
  Algorithms on containers and small generators: \<open>Utilities/Containers.h\<close>, \<open>EnumUtil/EnumFlag.h\<close>,
  \<open>Cryptography/SessionKeyGenerator.h\<close>, \<open>Cryptography/TOTP.cpp\<close> and the rest of \<open>Utilities/Random.cpp\<close> that needs no
  floating-point numbers. A container is a list and an iterator into it an index; the engine's draws, the hash and the
  authentication code are arguments.
\<close>

section \<open>Random selections\<close>

definition irand :: "(int \<Rightarrow> int \<Rightarrow> int) \<Rightarrow> int \<Rightarrow> int \<Rightarrow> int res" where
  "irand draw mn mx = guard_or (mx \<ge> mn) (AssertFailure ''max >= min'') (Inr (draw mn mx))"

definition urandms :: "(uint32 \<Rightarrow> uint32 \<Rightarrow> uint32) \<Rightarrow> uint32 \<Rightarrow> uint32 \<Rightarrow> uint32 res" where
  "urandms draw mn mx = guard_or ((- 1 :: uint32) div 1000 \<ge> mx) (AssertFailure ''max / den >= max'') (urand draw (mn * 1000) (mx * 1000))"

definition randtime :: "(uint32 \<Rightarrow> uint32 \<Rightarrow> uint32) \<Rightarrow> int \<Rightarrow> int \<Rightarrow> int res" where
  "randtime draw mn mx =
     (let diff = mx - mn in
      guard_or (diff \<ge> 0) (AssertFailure ''diff >= 0'')
        (guard_or (diff \<le> 2 ^ 32 - 1) (AssertFailure ''diff <= (uint32) -1'')
          (bindr (urand draw 0 (word_of_int diff)) (\<lambda>d. Inr (mn + uint d)))))"

definition roll_chance_i :: "(int \<Rightarrow> int \<Rightarrow> int) \<Rightarrow> int \<Rightarrow> bool res" where
  "roll_chance_i draw chance = bindr (irand draw 0 99) (\<lambda>r. Inr (chance > r))"

text \<open>
  The loop of \<open>RandomResize\<close>; \<open>draws\<close> gives the engine's draw for each position. The two counters have 32 bits. The assignment
  leaves the source of the move behind, which is overwritten or erased later.
\<close>

function resize_loop ::
  "(nat \<Rightarrow> uint32 \<Rightarrow> uint32 \<Rightarrow> uint32) \<Rightarrow> nat \<Rightarrow> nat \<Rightarrow> uint32 \<Rightarrow> uint32 \<Rightarrow> 'a list \<Rightarrow> (nat \<times> 'a list) res" where
  "resize_loop draws keepIt curIt toKeep toProcess xs =
     (if toProcess = 0 then Inr (keepIt, xs)
      else bindr (urand (draws curIt) 1 toProcess) (\<lambda>r.
        if r \<le> toKeep
        then resize_loop draws (keepIt + 1) (curIt + 1) (toKeep - 1) (toProcess - 1) (if keepIt \<noteq> curIt then xs[keepIt := xs ! curIt] else xs)
        else resize_loop draws keepIt (curIt + 1) toKeep (toProcess - 1) xs))"
  by pat_completeness auto
termination by (relation "measure (\<lambda>(_, _, _, _, toProcess, _). unat toProcess)") (auto simp: unat_gt_0 unat_minus_one)

definition RandomResize :: "(nat \<Rightarrow> uint32 \<Rightarrow> uint32 \<Rightarrow> uint32) \<Rightarrow> nat \<Rightarrow> 'a list \<Rightarrow> 'a list res" where
  "RandomResize draws requestedSize container =
     (if length container \<le> requestedSize then Inr container
      else bindr (resize_loop draws 0 0 (word_of_nat requestedSize) (word_of_nat (length container)) container)
             (\<lambda>(keepIt, xs). Inr (take keepIt xs)))"

definition RandomResize_if :: "(nat \<Rightarrow> uint32 \<Rightarrow> uint32 \<Rightarrow> uint32) \<Rightarrow> ('a \<Rightarrow> bool) \<Rightarrow> nat \<Rightarrow> 'a list \<Rightarrow> 'a list res" where
  "RandomResize_if draws predicate requestedSize container =
     (let containerCopy = filter predicate container
      in if requestedSize \<noteq> 0 then RandomResize draws requestedSize containerCopy else Inr containerCopy)"

definition SelectRandomContainerElement :: "(uint32 \<Rightarrow> uint32 \<Rightarrow> uint32) \<Rightarrow> 'a list \<Rightarrow> 'a res" where
  "SelectRandomContainerElement draw container =
     bindr (urand draw 0 (word_of_nat (length container) - 1)) (\<lambda>i.
       if unat i < length container then Inr (container ! unat i) else Inl (UndefinedAccess ''advance''))"

section \<open>Searching and erasing\<close>

fun Intersects :: "'a::linorder list \<Rightarrow> 'a list \<Rightarrow> bool" where
  "Intersects (x # xs) (y # ys) = (if x < y then Intersects xs (y # ys) else if y < x then Intersects (x # xs) ys else True)"
| "Intersects _ _ = False"

text \<open>A multimap lists its entries in the order of their keys; the loop goes through the entries of the key.\<close>

fun erase_range :: "'v \<Rightarrow> ('k \<times> 'v) list \<Rightarrow> ('k \<times> 'v) list" where
  "erase_range v [] = []"
| "erase_range v (e # es) = (if snd e = v then erase_range v es else e # erase_range v es)"

definition MultimapErasePair :: "'k::linorder \<Rightarrow> 'v \<Rightarrow> ('k \<times> 'v) list \<Rightarrow> ('k \<times> 'v) list" where
  "MultimapErasePair key val m =
     (let before = takeWhile (\<lambda>e. fst e < key) m; rest = dropWhile (\<lambda>e. fst e < key) m
      in before @ erase_range val (takeWhile (\<lambda>e. fst e = key) rest) @ dropWhile (\<lambda>e. fst e = key) rest)"

text \<open>\<open>EraseIf\<close> for elements that can be assigned: kept elements are swapped to the front, then the tail is erased.\<close>

function erase_if_loop :: "('a \<Rightarrow> bool) \<Rightarrow> nat \<Rightarrow> nat \<Rightarrow> 'a list \<Rightarrow> nat \<times> 'a list" where
  "erase_if_loop p rpos wpos c =
     (if rpos < length c then
        (if \<not> p (c ! rpos)
         then erase_if_loop p (rpos + 1) (wpos + 1) (if rpos \<noteq> wpos then c[rpos := c ! wpos, wpos := c ! rpos] else c)
         else erase_if_loop p (rpos + 1) wpos c)
      else (wpos, c))"
  by pat_completeness auto
termination by (relation "measure (\<lambda>(_, rpos, _, c). length c - rpos)") auto

definition EraseIf :: "('a \<Rightarrow> bool) \<Rightarrow> 'a list \<Rightarrow> 'a list" where
  "EraseIf p c = (let (wpos, c') = erase_if_loop p 0 0 c in take wpos c')"

text \<open>\<open>EraseIf\<close> for elements that cannot be assigned.\<close>

fun EraseIf_nodes :: "('a \<Rightarrow> bool) \<Rightarrow> 'a list \<Rightarrow> 'a list" where
  "EraseIf_nodes p [] = []"
| "EraseIf_nodes p (x # xs) = (if p x then EraseIf_nodes p xs else x # EraseIf_nodes p xs)"

text \<open>An output iterator that checks its bounds.\<close>

record checked_out =
  co_pos :: nat
  co_end :: nat

datatype out_exception = OutOfRange

definition co_new :: "nat \<Rightarrow> checked_out" where
  "co_new n = \<lparr>co_pos = 0, co_end = n\<rparr>"

definition co_remaining :: "checked_out \<Rightarrow> nat" where
  "co_remaining o' = co_end o' - co_pos o'"

definition co_write :: "'a \<Rightarrow> checked_out \<times> 'a list \<Rightarrow> out_exception + checked_out \<times> 'a list" where
  "co_write v = (\<lambda>(o', mem). if co_pos o' < co_end o' then Inr (o', mem[co_pos o' := v]) else Inl OutOfRange)"

definition co_next :: "checked_out \<times> 'a list \<Rightarrow> out_exception + checked_out \<times> 'a list" where
  "co_next = (\<lambda>(o', mem). if co_pos o' < co_end o' then Inr (o'\<lparr>co_pos := co_pos o' + 1\<rparr>, mem) else Inl OutOfRange)"

section \<open>Properties of the algorithms\<close>

declare resize_loop.simps [simp del] erase_if_loop.simps [simp del]

text \<open>What the engine's distribution promises.\<close>

definition draws_in_range :: "(nat \<Rightarrow> uint32 \<Rightarrow> uint32 \<Rightarrow> uint32) \<Rightarrow> bool" where
  "draws_in_range draws \<longleftrightarrow> (\<forall>i mn mx. mn \<le> mx \<longrightarrow> mn \<le> draws i mn mx \<and> draws i mn mx \<le> mx)"

lemma move_down:
  assumes "k \<le> c" "c < length xs"
  defines "ys \<equiv> (if k \<noteq> c then xs[k := xs ! c] else xs)"
  shows "length ys = length xs" "take (Suc k) ys = take k xs @ [xs ! c]" "drop (Suc c) ys = drop (Suc c) xs"
  using assms by (auto simp: take_Suc_conv_app_nth)

lemma word_pos: "0 < (w :: uint32) \<longleftrightarrow> 1 \<le> w"
  by (simp add: word_le_nat_alt word_less_nat_alt Suc_le_eq)

lemma resize_loop_keeps:
  "draws_in_range draws \<Longrightarrow> keepIt \<le> curIt \<Longrightarrow> curIt + unat toProcess = length xs \<Longrightarrow> toKeep \<le> toProcess \<Longrightarrow>
   \<exists>ys zs. resize_loop draws keepIt curIt toKeep toProcess xs = Inr (keepIt + unat toKeep, ys) \<and>
     take (keepIt + unat toKeep) ys = take keepIt xs @ zs \<and> subseq zs (drop curIt xs) \<and> length zs = unat toKeep"
proof (induction draws keepIt curIt toKeep toProcess xs rule: resize_loop.induct)
  case (1 draws keepIt curIt toKeep toProcess xs)
  show ?case
  proof (cases "toProcess = 0")
    case True
    then show ?thesis using "1.prems"(4) by (simp add: resize_loop.simps [of _ _ _ _ 0])
  next
    case False
    define r where "r = draws curIt 1 toProcess"
    have pos: "1 \<le> toProcess" using False by (simp add: word_pos [symmetric] word_gt_0)
    then have u: "urand (draws curIt) 1 toProcess = Inr r" by (simp add: urand_def guard_or_def r_def)
    have r: "1 \<le> r" "r \<le> toProcess" using "1.prems"(1) pos by (auto simp: draws_in_range_def r_def)
    have n: "unat (toProcess - 1) = unat toProcess - 1" "0 < unat toProcess" using False by (simp_all add: unat_minus_one unat_gt_0)
    have c: "curIt < length xs" using "1.prems"(3) n(2) by simp
    have d: "drop curIt xs = xs ! curIt # drop (Suc curIt) xs" using c by (simp add: Cons_nth_drop_Suc)
    show ?thesis
    proof (cases "r \<le> toKeep")
      case True
      let ?xs = "if keepIt \<noteq> curIt then xs[keepIt := xs ! curIt] else xs"
      have k: "toKeep \<noteq> 0" "unat (toKeep - 1) = unat toKeep - 1" "0 < unat toKeep"
      proof -
        show k0: "toKeep \<noteq> 0" using r(1) True by auto
        then show "unat (toKeep - 1) = unat toKeep - 1" "0 < unat toKeep" by (simp_all add: unat_minus_one unat_gt_0)
      qed
      have "toKeep - 1 \<le> toProcess - 1" using "1.prems"(4) k(2) n(1) by (simp add: word_le_nat_alt diff_le_mono)
      moreover have "(curIt + 1) + unat (toProcess - 1) = length ?xs" using "1.prems"(3) n c by auto
      ultimately obtain ys zs where "resize_loop draws (keepIt + 1) (curIt + 1) (toKeep - 1) (toProcess - 1) ?xs = Inr (keepIt + 1 + unat (toKeep - 1), ys)"
          "take (keepIt + 1 + unat (toKeep - 1)) ys = take (keepIt + 1) ?xs @ zs" "subseq zs (drop (curIt + 1) ?xs)" "length zs = unat (toKeep - 1)"
        using "1.IH"(1) [OF False u True] "1.prems"(1,2) by auto
      moreover have "keepIt + 1 + unat (toKeep - 1) = keepIt + unat toKeep" using k by simp
      ultimately show ?thesis
        using False u True k move_down [OF "1.prems"(2) c] d
        by (subst resize_loop.simps) (auto intro!: exI [of _ "xs ! curIt # zs"])
    next
      case nokeep: False
      then have "toKeep < toProcess" using r(2) by simp
      then have "toKeep \<le> toProcess - 1" using n by (simp add: word_le_nat_alt word_less_nat_alt)
      moreover have "(curIt + 1) + unat (toProcess - 1) = length xs" using "1.prems"(3) n by simp
      ultimately obtain ys zs where "resize_loop draws keepIt (curIt + 1) toKeep (toProcess - 1) xs = Inr (keepIt + unat toKeep, ys)"
          "take (keepIt + unat toKeep) ys = take keepIt xs @ zs" "subseq zs (drop (curIt + 1) xs)" "length zs = unat toKeep"
        using "1.IH"(2) [OF False u nokeep] "1.prems"(1,2) by auto
      then show ?thesis using False u nokeep d by (subst resize_loop.simps) auto
    qed
  qed
qed

text \<open>
  \<open>RandomResize\<close> terminates without a failed assertion, whatever is drawn, and leaves exactly as many elements as requested, or
  all of them, in their order.
\<close>

theorem random_resize:
  assumes "draws_in_range draws" "length xs < 2 ^ 32"
  shows "\<exists>ys. RandomResize draws n xs = Inr ys \<and> subseq ys xs \<and> length ys = min n (length xs)"
proof (cases "length xs \<le> n")
  case False
  then have u: "unat (word_of_nat n :: uint32) = n" "unat (word_of_nat (length xs) :: uint32) = length xs"
    using assms(2) by (simp_all add: unat_of_nat)
  then have "(word_of_nat n :: uint32) \<le> word_of_nat (length xs)" using False by (simp add: word_le_nat_alt)
  then obtain ys zs where "resize_loop draws 0 0 (word_of_nat n) (word_of_nat (length xs)) xs = Inr (n, ys)" "take n ys = zs" "subseq zs xs" "length zs = n"
    using resize_loop_keeps [of draws 0 0 "word_of_nat (length xs)" xs "word_of_nat n"] assms(1) u by auto
  then show ?thesis using False by (simp add: RandomResize_def)
qed (simp add: RandomResize_def)

theorem random_resize_witness:
  "\<exists>ys. RandomResize (\<lambda>_ mn _. mn) 2 ''abc'' = Inr ys \<and> subseq ys ''abc'' \<and> length ys = 2"
  using random_resize [of "\<lambda>_ mn _. mn" "''abc''" 2] by (simp add: draws_in_range_def) (metis numeral_2_eq_2)

text \<open>
  Draws stay in their ranges: an element that is selected is one of the container, unless it is empty, and a random time lies between
  its limits; it needs limits less than \<open>2 ^ 32\<close> milliseconds apart.
\<close>

theorem random_choice:
  assumes "draws_in_range (\<lambda>_. draw)" "length xs < 2 ^ 32"
  shows "if xs = [] then SelectRandomContainerElement draw xs = Inl (UndefinedAccess ''advance'')
    else \<exists>x \<in> set xs. SelectRandomContainerElement draw xs = Inr x"
proof (cases "xs = []")
  case False
  have l: "unat (word_of_nat (length xs) :: uint32) = length xs" using assms(2) by (simp add: unat_of_nat)
  then have "(word_of_nat (length xs) :: uint32) \<noteq> 0" using False by (metis length_0_conv unat_0)
  then have n: "unat (word_of_nat (length xs) - 1 :: uint32) = length xs - 1" using l by (simp add: unat_minus_one)
  have "draw 0 (word_of_nat (length xs) - 1) \<le> word_of_nat (length xs) - 1" using assms(1) by (simp add: draws_in_range_def)
  then have "unat (draw 0 (word_of_nat (length xs) - 1)) < length xs" using False n by (simp add: word_le_nat_alt) (metis Suc_pred length_greater_0_conv less_Suc_eq_le)
  then show ?thesis using False by (simp add: SelectRandomContainerElement_def urand_def guard_or_def)
qed (simp add: SelectRandomContainerElement_def urand_def guard_or_def)

theorem random_time:
  assumes "draws_in_range (\<lambda>_. draw)" "mn \<le> mx" "mx - mn < 2 ^ 32"
  shows "\<exists>t. randtime draw mn mx = Inr t \<and> mn \<le> t \<and> t \<le> mx"
proof -
  define d where "d = mx - mn"
  have d: "0 \<le> d" "d < 2 ^ 32" using assms(2,3) by (simp_all add: d_def)
  have "draw 0 (word_of_int d) \<le> word_of_int d" using assms(1) by (simp add: draws_in_range_def)
  then have "uint (draw 0 (word_of_int d)) \<le> d" using d by (simp add: word_le_def uint_word_of_int)
  then show ?thesis using d unfolding randtime_def Let_def d_def [symmetric]
    by (simp add: urand_def guard_or_def) (simp add: d_def)
qed

lemma erase_if_loop_filter:
  "wpos \<le> rpos \<Longrightarrow> rpos \<le> length c \<Longrightarrow> erase_if_loop p rpos wpos c = (w, c') \<Longrightarrow>
   take w c' = take wpos c @ filter (\<lambda>x. \<not> p x) (drop rpos c)"
proof (induction p rpos wpos c rule: erase_if_loop.induct)
  case (1 p rpos wpos c)
  show ?case
  proof (cases "rpos < length c")
    case True
    then have d: "drop rpos c = c ! rpos # drop (Suc rpos) c" by (simp add: Cons_nth_drop_Suc)
    let ?c = "if rpos \<noteq> wpos then c[rpos := c ! wpos, wpos := c ! rpos] else c"
    have "take (Suc wpos) ?c = take wpos c @ [c ! rpos]" "drop (Suc rpos) ?c = drop (Suc rpos) c" "length ?c = length c"
      using True "1.prems"(1) by (auto simp: take_Suc_conv_app_nth)
    then show ?thesis using True "1.IH" "1.prems" d by (auto simp: erase_if_loop.simps [of p rpos wpos c] split: if_splits)
  qed (use "1.prems" erase_if_loop.simps [of p rpos wpos c] in auto)
qed

text \<open>
  Both forms of \<open>EraseIf\<close> remove exactly the elements that the predicate holds for and keep the order of the others, and
  \<open>MultimapErasePair\<close> removes exactly the entries with the given key and value.
\<close>

theorem erase_if:
  "EraseIf p xs = filter (\<lambda>x. \<not> p x) xs" "EraseIf_nodes p xs = filter (\<lambda>x. \<not> p x) xs"
  by (simp add: EraseIf_def erase_if_loop_filter [of 0 0] split: prod.split) (induction xs; simp)

lemma erase_range_filter: "\<forall>e \<in> set es. fst e = key \<Longrightarrow> erase_range val es = filter (\<lambda>e. e \<noteq> (key, val)) es"
  by (induction es) auto

lemma dropWhile_less: "sorted (map fst m) \<Longrightarrow> \<forall>e \<in> set (dropWhile (\<lambda>e. fst e < key) m). key \<le> (fst e :: 'k::linorder)"
  by (induction m) auto

lemma dropWhile_equal:
  "sorted (map fst m) \<Longrightarrow> \<forall>e \<in> set m. key \<le> fst e \<Longrightarrow> \<forall>e \<in> set (dropWhile (\<lambda>e. fst e = key) m). fst e \<noteq> (key :: 'k::linorder)"
proof (induction m)
  case (Cons e m)
  have IH: "\<forall>e \<in> set (dropWhile (\<lambda>e. fst e = key) m). fst e \<noteq> key" by (rule Cons.IH) (use Cons.prems in simp_all)
  show ?case
  proof (cases "fst e = key")
    case True
    then have "dropWhile (\<lambda>e. fst e = key) (e # m) = dropWhile (\<lambda>e. fst e = key) m" by simp
    then show ?thesis using IH by (simp only:)
  next
    case False
    then have "key < fst e" using Cons.prems(2) by (simp add: order_less_le)
    then show ?thesis using False Cons.prems(1) by fastforce
  qed
qed simp

lemma sorted_key_split:
  assumes "sorted (map fst m)"
  shows "\<forall>e \<in> set (dropWhile (\<lambda>e. fst e = key) (dropWhile (\<lambda>e. fst e < key) m)). fst e \<noteq> (key :: 'k::linorder)"
  using dropWhile_equal [OF _ dropWhile_less [OF assms]] assms by (metis dropWhile_eq_drop drop_map sorted_wrt_drop)

theorem multimap_erase:
  assumes "sorted (map fst m)"
  shows "MultimapErasePair key val m = filter (\<lambda>e. e \<noteq> (key, val)) m"
proof -
  let ?rest = "dropWhile (\<lambda>e. fst e < key) m"
  have "filter (\<lambda>e. e \<noteq> (key, val)) (takeWhile (\<lambda>e. fst e < key) m) = takeWhile (\<lambda>e. fst e < key) m"
    unfolding filter_id_conv by (auto dest: set_takeWhileD)
  moreover have "filter (\<lambda>e. e \<noteq> (key, val)) (dropWhile (\<lambda>e. fst e = key) ?rest) = dropWhile (\<lambda>e. fst e = key) ?rest"
    using sorted_key_split [OF assms, of key] unfolding filter_id_conv by (metis fst_conv)
  moreover have "erase_range val (takeWhile (\<lambda>e. fst e = key) ?rest) = filter (\<lambda>e. e \<noteq> (key, val)) (takeWhile (\<lambda>e. fst e = key) ?rest)"
    by (rule erase_range_filter) (metis set_takeWhileD)
  ultimately show ?thesis unfolding MultimapErasePair_def Let_def
    by (metis filter_append takeWhile_dropWhile_id)
qed

text \<open>On sorted containers \<open>Intersects\<close> decides whether they have a common element.\<close>

theorem intersects:
  "sorted xs \<Longrightarrow> sorted ys \<Longrightarrow> Intersects xs ys \<longleftrightarrow> set xs \<inter> set ys \<noteq> {}"
proof (induction xs ys rule: Intersects.induct)
  case (1 x xs y ys)
  consider "x < y" | "y < x" | "x = y" by fastforce
  then show ?case
  proof cases
    case 1
    then have "x \<notin> set (y # ys)" using "1.prems"(2) by fastforce
    then show ?thesis using 1 "1.IH"(1) "1.prems" by simp
  next
    case 2
    then have "y \<notin> set (x # xs)" using "1.prems"(1) by fastforce
    then show ?thesis using 2 less_not_sym [OF 2] "1.IH"(2) "1.prems" by simp
  qed simp
qed simp_all

text \<open>
  The checked iterator writes inside its buffer, and exactly as many elements as there is room for, before it throws.
\<close>

fun co_copy :: "'a list \<Rightarrow> checked_out \<times> 'a list \<Rightarrow> out_exception + checked_out \<times> 'a list" where
  "co_copy [] s = Inr s"
| "co_copy (v # vs) s = (case co_write v s of Inl e \<Rightarrow> Inl e | Inr s' \<Rightarrow> (case co_next s' of Inl e \<Rightarrow> Inl e | Inr s'' \<Rightarrow> co_copy vs s''))"

lemma co_copy_from:
  "p + n \<le> length mem \<Longrightarrow> co_copy vs (\<lparr>co_pos = p, co_end = p + n\<rparr>, mem) =
     (if length vs \<le> n then Inr (\<lparr>co_pos = p + length vs, co_end = p + n\<rparr>, take p mem @ vs @ drop (p + length vs) mem) else Inl OutOfRange)"
proof (induction vs arbitrary: p n mem)
  case (Cons v vs)
  show ?case
  proof (cases n)
    case (Suc k)
    have "take (Suc p) (mem[p := v]) = take p mem @ [v]" "drop (Suc p + length vs) (mem[p := v]) = drop (p + length (v # vs)) mem"
      using Cons.prems Suc by (simp_all add: take_Suc_conv_app_nth)
    then show ?thesis using Cons.IH [of "Suc p" k "mem[p := v]"] Cons.prems Suc by (simp add: co_write_def co_next_def)
  qed (simp add: co_write_def)
qed simp

theorem checked_output:
  assumes "n \<le> length mem"
  shows "co_copy vs (co_new n, mem) =
    (if length vs \<le> n then Inr (\<lparr>co_pos = length vs, co_end = n\<rparr>, vs @ drop (length vs) mem) else Inl OutOfRange)"
  using co_copy_from [of 0 n mem vs] assms by (simp add: co_new_def)

section \<open>Flags\<close>

text \<open>\<open>EnumFlag\<close> over an enumeration with an underlying type of any width; the operators are those of the words.\<close>

definition RemoveFlag :: "'a::len word \<Rightarrow> 'a word \<Rightarrow> 'a word" where
  "RemoveFlag flag v = and v (not flag)"

definition HasFlag :: "'a::len word \<Rightarrow> 'a word \<Rightarrow> bool" where
  "HasFlag flag v \<longleftrightarrow> and v flag \<noteq> 0"

definition HasAllFlags :: "'a::len word \<Rightarrow> 'a word \<Rightarrow> bool" where
  "HasAllFlags flags v \<longleftrightarrow> and v flags = flags"

text \<open>
  Flags behave as the set of their bits: \<open>HasFlag\<close> says that there is a common flag, \<open>HasAllFlags\<close> that all are there, setting
  and removing flags adds and takes away exactly these.
\<close>

definition flags_of :: "'a::len word \<Rightarrow> nat set" where
  "flags_of v = {n. bit v n}"

theorem flags_are_sets:
  "HasFlag f v \<longleftrightarrow> flags_of v \<inter> flags_of f \<noteq> {}"
  "HasAllFlags f v \<longleftrightarrow> flags_of f \<subseteq> flags_of v"
  "flags_of (or v f) = flags_of v \<union> flags_of f"
  "flags_of (and v f) = flags_of v \<inter> flags_of f"
  "flags_of (RemoveFlag f v) = flags_of v - flags_of f"
  by (auto simp: HasFlag_def HasAllFlags_def RemoveFlag_def flags_of_def bit_simps bit_eq_iff dest: bit_imp_le_length)

section \<open>Session keys\<close>

text \<open>The generator with its three digests and the position in the first; \<open>H\<close> is the hash.\<close>

record session_key_generator =
  sk_o0 :: "uint8 list"
  sk_o1 :: "uint8 list"
  sk_o2 :: "uint8 list"
  sk_o0it :: nat

definition SessionKeyGenerator_new :: "(uint8 list \<Rightarrow> uint8 list) \<Rightarrow> nat \<Rightarrow> uint8 list \<Rightarrow> session_key_generator" where
  "SessionKeyGenerator_new H digest_length buf =
     (let halflen = length buf div 2;
          o1 = H (take halflen buf);
          o2 = H (drop halflen buf);
          o0 = replicate digest_length 0
      in \<lparr>sk_o0 = H (o1 @ o0 @ o2), sk_o1 = o1, sk_o2 = o2, sk_o0it = 0\<rparr>)"

fun Generate :: "(uint8 list \<Rightarrow> uint8 list) \<Rightarrow> nat \<Rightarrow> session_key_generator \<Rightarrow> uint8 list res \<times> session_key_generator" where
  "Generate H 0 g = (Inr [], g)"
| "Generate H (Suc n) g =
     (let g1 = (if sk_o0it g = length (sk_o0 g) then g\<lparr>sk_o0 := H (sk_o1 g @ sk_o0 g @ sk_o2 g), sk_o0it := 0\<rparr> else g)
      in if sk_o0it g1 < length (sk_o0 g1)
         then (let (r, g2) = Generate H n (g1\<lparr>sk_o0it := sk_o0it g1 + 1\<rparr>) in (bindr r (\<lambda>bs. Inr (sk_o0 g1 ! sk_o0it g1 # bs)), g2))
         else (Inl (UndefinedAccess ''o0it''), g1))"

text \<open>The sequence of digests that the generator goes through.\<close>

definition next_digest :: "(uint8 list \<Rightarrow> uint8 list) \<Rightarrow> session_key_generator \<Rightarrow> session_key_generator" where
  "next_digest H g = g\<lparr>sk_o0 := H (sk_o1 g @ sk_o0 g @ sk_o2 g), sk_o0it := 0\<rparr>"

definition key_stream :: "(uint8 list \<Rightarrow> uint8 list) \<Rightarrow> nat \<Rightarrow> session_key_generator \<Rightarrow> nat \<Rightarrow> uint8" where
  "key_stream H d g i = sk_o0 ((next_digest H ^^ ((sk_o0it g + i) div d)) g) ! ((sk_o0it g + i) mod d)"

definition sk_ok :: "nat \<Rightarrow> session_key_generator \<Rightarrow> bool" where
  "sk_ok d g \<longleftrightarrow> length (sk_o0 g) = d \<and> sk_o0it g \<le> d"

lemma key_stream_next: "0 < d \<Longrightarrow> sk_o0it g = d \<Longrightarrow> key_stream H d (next_digest H g) = key_stream H d g"
proof
  fix i assume d: "0 < d" "sk_o0it g = d"
  then have "(sk_o0it g + i) div d = Suc (i div d)" "(sk_o0it g + i) mod d = i mod d" by (simp_all add: div_add_self1)
  moreover have "sk_o0it (next_digest H g) = 0" by (simp add: next_digest_def)
  ultimately show "key_stream H d (next_digest H g) i = key_stream H d g i" by (simp add: key_stream_def funpow_swap1)
qed

lemma key_stream_step:
  assumes "0 < d" "sk_o0it g < d"
  shows "key_stream H d g 0 = sk_o0 g ! sk_o0it g" "key_stream H d (g\<lparr>sk_o0it := sk_o0it g + 1\<rparr>) i = key_stream H d g (Suc i)"
proof -
  show "key_stream H d g 0 = sk_o0 g ! sk_o0it g" using assms by (simp add: key_stream_def)
  have "sk_o0 ((next_digest H ^^ k) (g\<lparr>sk_o0it := m\<rparr>)) = sk_o0 ((next_digest H ^^ k) g) \<and>
      sk_o1 ((next_digest H ^^ k) (g\<lparr>sk_o0it := m\<rparr>)) = sk_o1 ((next_digest H ^^ k) g) \<and>
      sk_o2 ((next_digest H ^^ k) (g\<lparr>sk_o0it := m\<rparr>)) = sk_o2 ((next_digest H ^^ k) g)" for k m
    by (induction k) (simp_all add: next_digest_def)
  then show "key_stream H d (g\<lparr>sk_o0it := sk_o0it g + 1\<rparr>) i = key_stream H d g (Suc i)" by (simp add: key_stream_def)
qed

lemma Generate_from:
  assumes "0 < d" "\<forall>bs. length (H bs) = d"
  shows "sk_ok d g \<Longrightarrow> \<exists>g'. Generate H n g = (Inr (map (key_stream H d g) [0..<n]), g') \<and> sk_ok d g' \<and>
    (\<forall>i. key_stream H d g' i = key_stream H d g (n + i))"
proof (induction n arbitrary: g)
  case (Suc n)
  define g1 where "g1 = (if sk_o0it g = length (sk_o0 g) then next_digest H g else g)"
  have ok: "sk_ok d g1" "sk_o0it g1 < d" and s: "key_stream H d g1 = key_stream H d g"
    using Suc.prems assms key_stream_next [of d g H] by (auto simp: g1_def sk_ok_def next_digest_def)
  then obtain g' where "Generate H n (g1\<lparr>sk_o0it := sk_o0it g1 + 1\<rparr>) = (Inr (map (key_stream H d (g1\<lparr>sk_o0it := sk_o0it g1 + 1\<rparr>)) [0..<n]), g')"
      "sk_ok d g'" "\<forall>i. key_stream H d g' i = key_stream H d (g1\<lparr>sk_o0it := sk_o0it g1 + 1\<rparr>) (n + i)"
    using Suc.IH [of "g1\<lparr>sk_o0it := sk_o0it g1 + 1\<rparr>"] by (auto simp: sk_ok_def)
  moreover have "map (key_stream H d g) [0..<Suc n] = sk_o0 g1 ! sk_o0it g1 # map (\<lambda>i. key_stream H d g (Suc i)) [0..<n]"
    using key_stream_step(1) [OF assms(1) ok(2), of H] s by (simp add: map_upt_Suc del: upt_Suc)
  ultimately show ?case using ok s key_stream_step(2) [OF assms(1) ok(2), of H]
    by (simp add: g1_def [unfolded next_digest_def, symmetric] sk_ok_def del: upt_Suc)
qed simp

text \<open>
  Two calls of \<open>Generate\<close> on a new generator yield the first bytes of one stream, cut where the first call ended: however the
  bytes are requested, the session key is the same, and no byte is read outside a digest.
\<close>

theorem session_key_stream:
  assumes "0 < d" "\<forall>bs. length (H bs) = d"
  shows "\<exists>g g'. Generate H m (SessionKeyGenerator_new H d buf) = (Inr (map (key_stream H d (SessionKeyGenerator_new H d buf)) [0..<m]), g) \<and>
    Generate H n g = (Inr (map (key_stream H d (SessionKeyGenerator_new H d buf)) [m..<m + n]), g')"
proof -
  have "sk_ok d (SessionKeyGenerator_new H d buf)" using assms(2) by (simp add: sk_ok_def SessionKeyGenerator_new_def Let_def)
  then obtain g where g: "Generate H m (SessionKeyGenerator_new H d buf) = (Inr (map (key_stream H d (SessionKeyGenerator_new H d buf)) [0..<m]), g)"
      "sk_ok d g" "\<forall>i. key_stream H d g i = key_stream H d (SessionKeyGenerator_new H d buf) (m + i)"
    using Generate_from [OF assms] by blast
  obtain g' where "Generate H n g = (Inr (map (key_stream H d g) [0..<n]), g')" using Generate_from [OF assms g(2)] by blast
  moreover have "map (key_stream H d g) [0..<n] = map (key_stream H d (SessionKeyGenerator_new H d buf)) [m..<m + n]"
    using g(3) by (auto intro: nth_equalityI)
  ultimately show ?thesis using g(1) by auto
qed

theorem session_key_stream_witness:
  "\<exists>g g'. Generate (\<lambda>bs. [word_of_nat (length bs), 1]) 3 (SessionKeyGenerator_new (\<lambda>bs. [word_of_nat (length bs), 1]) 2 [1, 2, 3]) =
      (Inr (map (key_stream (\<lambda>bs. [word_of_nat (length bs), 1]) 2 (SessionKeyGenerator_new (\<lambda>bs. [word_of_nat (length bs), 1]) 2 [1, 2, 3])) [0..<3]), g) \<and>
    Generate (\<lambda>bs. [word_of_nat (length bs), 1]) 2 g =
      (Inr (map (key_stream (\<lambda>bs. [word_of_nat (length bs), 1]) 2 (SessionKeyGenerator_new (\<lambda>bs. [word_of_nat (length bs), 1]) 2 [1, 2, 3])) [3..<3 + 2]), g')"
  by (rule session_key_stream) simp_all

section \<open>One-time passwords\<close>

definition TOTP_INTERVAL :: int where "TOTP_INTERVAL = 30"

definition HMAC_RESULT_SIZE :: nat where "HMAC_RESULT_SIZE = 20"

text \<open>The division of the time truncates towards zero; the bytes are filled in from the last, each time shifting the time.\<close>

definition totp_counter :: "int \<Rightarrow> int" where
  "totp_counter timestamp = (if timestamp < 0 then - ((- timestamp) div TOTP_INTERVAL) else timestamp div TOTP_INTERVAL)"

fun totp_challenge :: "nat \<Rightarrow> int \<Rightarrow> uint8 list" where
  "totp_challenge 0 timestamp = []"
| "totp_challenge (Suc i) timestamp = totp_challenge i (timestamp div 256) @ [word_of_int timestamp]"

definition GenerateToken :: "(uint8 list \<Rightarrow> uint8 list \<Rightarrow> uint8 list) \<Rightarrow> uint8 list \<Rightarrow> int \<Rightarrow> uint32 res" where
  "GenerateToken hmac secret timestamp =
     (let digest = hmac secret (totp_challenge 8 (totp_counter timestamp));
          at = (\<lambda>i. bindr (mem_read ''digest'' i 1 digest) (\<lambda>bs. Inr (ucast (hd bs) :: uint32)))
      in bindr (at 19) (\<lambda>b.
           let offset = unat (and b 0xF) in
           bindr (at offset) (\<lambda>b0. bindr (at (offset + 1)) (\<lambda>b1. bindr (at (offset + 2)) (\<lambda>b2. bindr (at (offset + 3)) (\<lambda>b3.
             let truncated = and (or (or (or (push_bit 24 b0) (push_bit 16 b1)) (push_bit 8 b2)) b3) 0x7FFFFFFF
             in Inr (truncated mod 1000000)))))))"

definition ValidateToken :: "(uint8 list \<Rightarrow> uint8 list \<Rightarrow> uint8 list) \<Rightarrow> int \<Rightarrow> uint8 list \<Rightarrow> uint32 \<Rightarrow> bool res" where
  "ValidateToken hmac now secret token =
     bindr (GenerateToken hmac secret (now - TOTP_INTERVAL)) (\<lambda>t1.
       if token = t1 then Inr True
       else bindr (GenerateToken hmac secret now) (\<lambda>t2.
         if token = t2 then Inr True
         else bindr (GenerateToken hmac secret (now + TOTP_INTERVAL)) (\<lambda>t3. Inr (token = t3))))"

lemma GenerateToken_ok:
  assumes "\<forall>k m. length (hmac k m) = HMAC_RESULT_SIZE"
  shows "\<exists>tok. GenerateToken hmac secret t = Inr tok \<and> unat tok < 1000000"
proof -
  have "and (w :: uint32) 0xF = take_bit 4 w" for w by (simp add: take_bit_eq_mask mask_eq_exp_minus_1)
  then have o: "unat (and (w :: uint32) 0xF) + 3 < 20" for w
    using take_bit_nat_less_exp [of 4 "unat w"] by (simp add: unsigned_take_bit_eq)
  have m: "unat (w mod 1000000 :: uint32) < 1000000" for w by (simp add: unat_mod)
  show ?thesis
    using assms o [of "ucast (hd (take 1 (drop 19 (hmac secret (totp_challenge 8 (totp_counter t))))))"] m
    by (auto simp: GenerateToken_def Let_def mem_read_def HMAC_RESULT_SIZE_def)
qed

lemma GenerateToken_counter: "totp_counter s = totp_counter t \<Longrightarrow> GenerateToken hmac secret s = GenerateToken hmac secret t"
  by (simp add: GenerateToken_def)

lemma ValidateToken_any:
  assumes "\<forall>k m. length (hmac k m) = HMAC_RESULT_SIZE"
  shows "ValidateToken hmac now secret token =
    Inr (\<exists>t \<in> {now - TOTP_INTERVAL, now, now + TOTP_INTERVAL}. GenerateToken hmac secret t = Inr token)"
proof -
  obtain a b c where abc: "GenerateToken hmac secret (now - TOTP_INTERVAL) = Inr a" "GenerateToken hmac secret now = Inr b"
      "GenerateToken hmac secret (now + TOTP_INTERVAL) = Inr c"
    using GenerateToken_ok [OF assms] by metis
  have "ValidateToken hmac now secret token = Inr (token = a \<or> token = b \<or> token = c)"
    by (cases "token = a"; cases "token = b") (simp_all add: ValidateToken_def abc)
  then show ?thesis using abc by auto
qed

text \<open>
  A one-time password has at most six digits and is computed without leaving the digest; the one of a moment is accepted at every
  time that is at most half a minute away from it.
\<close>

theorem totp_window:
  assumes "\<forall>k m. length (hmac k m) = HMAC_RESULT_SIZE" "30 \<le> t" "30 \<le> now" "\<bar>now - t\<bar> \<le> 30"
  shows "\<exists>tok. GenerateToken hmac secret t = Inr tok \<and> unat tok < 1000000 \<and> ValidateToken hmac now secret tok = Inr True"
proof -
  obtain tok where tok: "GenerateToken hmac secret t = Inr tok" "unat tok < 1000000" using GenerateToken_ok [OF assms(1)] by blast
  have "(now - 30) div 30 \<le> t div 30" "t div 30 \<le> (now + 30) div 30" using assms(4) by (auto intro!: zdiv_mono1)
  moreover have "(now - 30) div 30 = now div 30 - 1" "(now + 30) div 30 = now div 30 + 1" by simp_all
  ultimately have "t div 30 = (now - 30) div 30 \<or> t div 30 = now div 30 \<or> t div 30 = (now + 30) div 30" by linarith
  then have "totp_counter t = totp_counter (now - 30) \<or> totp_counter t = totp_counter now \<or> totp_counter t = totp_counter (now + 30)"
    using assms(2,3) by (simp add: totp_counter_def TOTP_INTERVAL_def)
  then obtain s where "s \<in> {now - TOTP_INTERVAL, now, now + TOTP_INTERVAL}" "totp_counter s = totp_counter t"
    unfolding TOTP_INTERVAL_def by (metis insertI1 insertI2)
  then have "\<exists>s \<in> {now - TOTP_INTERVAL, now, now + TOTP_INTERVAL}. GenerateToken hmac secret s = Inr tok"
    using tok(1) GenerateToken_counter [of s t hmac secret] by (intro bexI [of _ s]) simp_all
  then show ?thesis using tok ValidateToken_any [OF assms(1)] by simp
qed

theorem totp_window_witness:
  "\<exists>tok. GenerateToken (\<lambda>_ _. replicate 20 7) [1] 59 = Inr tok \<and> unat tok < 1000000 \<and> ValidateToken (\<lambda>_ _. replicate 20 7) 89 [1] tok = Inr True"
  by (rule totp_window) (simp_all add: HMAC_RESULT_SIZE_def)
end
