(* ===== verification/Spec2Isabelle.thy ===== *)
theory Spec2Isabelle
  imports TaskScheduler IPLocation Logging Network DBUpdater DatabasePool QueryResults Containers
begin

text \<open>
  A verification development for WarheadDiscord, a server that relays messages of game servers to
  Discord. Game servers connect over TCP, authenticate with an account and a key, and send framed
  packets; the server checks the account against its database, asks the bot for the guild and its
  channels, keeps a session per account and posts the messages of a session through the bot.

  \<^bold>\<open>Parts, theories and their sources\<close> (paths under \<open>src/src\<close>).

  \<^item> \<open>Prelude\<close>: machine integers as words, the result type \<open>res\<close> (an exception, a failed assertion or
    an undefined access on the left), memory reads and writes with their bounds.
  \<^item> \<open>MessageBuffer\<close>, \<open>ByteConverter\<close>, \<open>ByteBuffer\<close>, \<open>WireFormat\<close>, \<open>PacketUtilities\<close>, \<open>Packets\<close>: the
    buffers, the byte order, the stream operators, and the packet classes with the opcode table
    (\<open>common/Utilities\<close>, \<open>server/Server/Packets\<close>, \<open>server/Server/Protocol\<close>, \<open>shared\<close>). Every access
    that C++ leaves undefined is a value \<open>UndefinedAccess\<close>, so that safety is a theorem.
  \<^item> \<open>Utf8\<close>, \<open>TextUtil\<close>: the validator and the conversions of \<open>deps/utf8cpp\<close> and the string functions of
    \<open>common/Utilities/Util.cpp\<close>.
  \<^item> \<open>Queues\<close>: \<open>PacketQueue\<close>, \<open>ProducerConsumerQueue\<close> and the lock-free \<open>MPSCQueue\<close>
    (\<open>common/Threading\<close>); the last one on an explicit heap of nodes with a step relation in which
    the two halves of an enqueue of any number of producers interleave.
  \<^item> \<open>Socket\<close>, \<open>DiscordSocket\<close>, \<open>Framing\<close>: the base socket (\<open>shared/Network/Socket.h\<close>) and the client
    connection (\<open>server/Server/DiscordSocket.cpp\<close>); \<open>Framing\<close> gives the receive loop its abstract
    specification, an automaton that consumes one byte at a time.
  \<^item> \<open>DiscordSession\<close>, \<open>Discord\<close>: sessions with their handlers, the server object with its sessions,
    shutdown and game time (\<open>server/Server\<close>, \<open>server/Handlers\<close>, \<open>server/Discord\<close>, \<open>server/Time\<close>).
  \<^item> \<open>SRP6\<close>, \<open>Account\<close>, \<open>Bot\<close>: password verifiers and key exchange, \<open>AccountMgr\<close> and \<open>BanMgr\<close>, the bot
    with its guilds, channels and slash commands (\<open>common/Cryptography\<close>, \<open>server/Account\<close>,
    \<open>server/Bot\<close>, \<open>server/ChatCommands\<close>).
  \<^item> \<open>TaskScheduler\<close>: the scheduler of \<open>common/Utilities/TaskScheduler\<close>.
  \<^item> \<open>KeyedStore\<close>: \<open>unordered_map\<close> as a list of entries with distinct keys.
  \<^item> \<open>Convert\<close>, \<open>TimeText\<close>: splitting, trimming and converting strings, timers and the text of durations
    (\<open>common/Utilities\<close>: \<open>Tokenize\<close>, \<open>StringFormat\<close>, \<open>StringConvert\<close>, \<open>Timer\<close>).
  \<^item> \<open>Config\<close>, \<open>IPLocation\<close>: configuration files, their two layers and the typed options
    (\<open>common/Configuration\<close>, \<open>server/Config\<close>), and the database of countries by address (\<open>common/IPLocation\<close>).
  \<^item> \<open>LogChannel\<close>, \<open>Logging\<close>: levels, patterns, console and file channels, loggers and the log
    (\<open>common/Logging\<close>); what they do to the outside is a list of effects.
  \<^item> \<open>Network\<close>: network threads, acceptor and socket managers (\<open>shared/Network\<close>,
    \<open>server/Server/DiscordSocketMgr.cpp\<close>), with the sockets of \<open>DiscordSocket\<close>.
  \<^item> \<open>Updater\<close>: the database updater (\<open>database/Updater/UpdateFetcher.cpp\<close>), with SQL statements as values.
  \<^item> \<open>QueryAsync\<close>: transactions with their retries, chains of query callbacks and query holders
    (\<open>database/Database\<close>: \<open>Transaction\<close>, \<open>QueryCallback\<close>, \<open>QueryHolder\<close>).
  \<^item> \<open>Statements\<close>: prepared statements, the binding of their parameters, the table of statements and the calls of the
    server that use it (\<open>PreparedStatement\<close>, \<open>MySQLPreparedStatement\<close>, \<open>Implementation/DiscordDatabase\<close>).
  \<^item> \<open>MySQLConnection\<close>: a connection over the client library, which is an argument: opening, reconnecting, statements
    and transactions (\<open>MySQLConnection.cpp\<close>).
  \<^item> \<open>DatabasePool\<close>: the pool with its workers and its queue, and the loader of databases (\<open>DatabaseWorkerPool\<close>,
    \<open>DatabaseWorker\<close>, \<open>AdhocStatement\<close>, \<open>DatabaseLoader\<close>).
  \<^item> \<open>QueryResults\<close>: the results of queries, their buffer and the reading of fields (\<open>QueryResult.cpp\<close>, \<open>Field.cpp\<close>).
  \<^item> \<open>DBUpdater\<close>: creating, populating and updating a database with the command-line client (\<open>database/Updater/DBUpdater.cpp\<close>).
  \<^item> \<open>Containers\<close>: algorithms on containers, flags, session keys and one-time passwords (\<open>common/Utilities/Containers.h\<close>,
    \<open>EnumFlag.h\<close>, \<open>SessionKeyGenerator.h\<close>, \<open>TOTP.cpp\<close>, \<open>Random.cpp\<close>).

  \<^bold>\<open>How code becomes definitions.\<close> A class is a record and its member functions take and return the
  record; names follow the source, with a short prefix per class where two classes share a name. Calls
  that leave a component are recorded in order (\<open>ds_events\<close>, the list of executed statements, the
  messages created by the bot), and the composition theorems of this theory feed them to the component
  that receives them. Exceptions and failed assertions are values of \<open>res\<close>. Locks that are taken and
  released within one operation make it atomic and are left out; where the order of threads matters
  (\<open>MPSCQueue\<close>) the model has a step relation. Clocks, random numbers, SHA-1, the answers of the
  database and of the Discord library are arguments.

  \<^bold>\<open>Bounds and fuel.\<close> Loops that the source does not bound are \<open>partial_function (option)\<close> (the receive
  loop, the drain of the lock-free queue, the dispatch of the scheduler) and the theorems about them
  state that they return. Sizes are \<open>nat\<close> where the code uses \<open>size_t\<close> and the model bounds them;
  subtractions of positions wrap at 64 bits. Other integers are words of their width.

  \<^bold>\<open>Interfaces.\<close> Locales state what one component relies on of another: the close hook of a socket
  (interpreted in \<open>DiscordSocket\<close>), the queues, in which each element is taken once and in order (interpreted
  for the four queues in \<open>Queues\<close>), the wire codec of a packet class (interpreted for the message classes in
  \<open>DiscordSession\<close>), the ordered queue of the scheduler (interpreted for the task queue in
  \<open>TaskScheduler\<close>), the keyed store (interpreted for the unordered maps in \<open>KeyedStore\<close>, and used for
  sessions, accounts, bans, guilds, options and tables) and the sockets of a network thread (interpreted
  for the client connections in \<open>Network\<close>). Where a component relies on code outside the repository, the client library of the
  database, the file system or a hash, that code is an argument and its documented behaviour a hypothesis.

  \<^bold>\<open>Results.\<close> From the wire to the bot: the receive loop computes the byte automaton for every cut of the
  stream into blocks, hands packets over in order, and the update of the session posts the messages
  (\<open>Framing\<close>, \<open>DiscordSession\<close>, this theory). Authentication: a client becomes a session exactly when
  its account, bans, key and guild allow it, and an account created by the slash command can log in
  with the key of the reply (\<open>DiscordSocket\<close>, \<open>Bot\<close>, this theory); the key exchange agrees (\<open>SRP6\<close>).
  State: sessions, accounts, guilds, queues and scheduled tasks keep their invariants through every
  operation. Memory: no read of the packet layer leaves its buffer. Output: queued packets go out in
  order, partial writes lose nothing, a delayed close completes. The network: counters match the
  sockets, connections are spread evenly and a started network can be stopped. Around it: the two layers of
  configuration, the lookup of addresses, the delivery of log messages and their patterns, and the updater,
  which runs every file once and in order. The database: a transaction is sent as a whole or rolled back as long as the connection
  holds, the prepared statements agree with the calls that use them but for one, the pool calls operations in order, and the results
  of queries are stored inside their buffer and read back. Several theorems state behaviour that
  the code surely does not intend: a full send buffer is sent twice, timed bans are inverted or
  forgotten, a random key can abort the server, truncation overruns its buffer, an asynchronous
  callable can pop an empty queue, channel entries are read before they are written, a lost connection splits a
  transaction, a pool that was opened at the second attempt runs nothing, and the dates of a ban are read past their buffer.

  \<^bold>\<open>Not modelled.\<close>
  Third-party code under \<open>src/deps\<close> other than utf8cpp (boost, dpp, fmt, mysql, openssl, SFMT,
  zlib) is what the program calls. Of the program's own code: crash reports
  (\<open>common/Debugging\<close>), the Windows console and the start-up in \<open>app/Main.cpp\<close> are platform glue;
  \<open>Asio\<close> wraps Boost. Texts of replies, messages and embeds are left out, and so are floating-point numbers.
\<close>

section \<open>From the byte stream to the bot\<close>

text \<open>The calls of a socket on its session, made in order.\<close>

fun session_event :: "socket_event \<Rightarrow> discord_session \<Rightarrow> discord_session" where
  "session_event (SessionQueuePacket sid packet) s = ss_QueuePacket packet s"
| "session_event (SessionSetLatency sid latency) s = ss_SetLatency latency s"
| "session_event _ s = s"

definition session_events :: "socket_event list \<Rightarrow> discord_session \<Rightarrow> discord_session" where
  "session_events es s = foldl (\<lambda>s e. session_event e s) s es"

lemma session_events_queue:
  "session_events (map (\<lambda>p. SessionQueuePacket sid p) ps) s =
     s\<lparr>ss_recvQueue := (ss_recvQueue s)\<lparr>pq_queue := pq_queue (ss_recvQueue s) @ ps\<rparr>\<rparr>"
  by (induction ps arbitrary: s) (simp_all add: session_events_def ss_QueuePacket_def pq_AddPacket_def)

text \<open>
  C1. From the wire to the bot: when an authenticated client sends chat messages, encoded and framed
  by the wire format and cut into blocks in any way, the receive loop hands them to the session and
  the next update of the session posts each of them, in order and with its text, to the channel of
  its type - those whose type names no channel, or a channel that does not exist, are dropped.
\<close>

theorem messages_reach_bot:
  assumes "ready N (re_host env) (RHeader []) sock" "\<forall>block \<in> set blocks. length block \<le> N"
    and "re_table env = OpcodeTable_Initialize OpcodeTable_new" "ds_discordSession sock = Some sid" "ds_events sock = []"
    and "\<forall>m\<in>set ms. wire_message m \<and> length (message_bytes m) + 2 < 10000" "length ms \<le> 101"
    and "concat blocks = concat (map (\<lambda>m. frame_bytes (code_value CLIENT_SEND_MESSAGE) (message_bytes m)) ms)"
    and "ss_recvQueue s = PacketQueue_new" "length (ss_channels s) = DEFAULT_CHANNELS_COUNT" "db_isEnable b"
  shows "\<exists>sock' s' b'. receive_blocks env blocks sock = Some (Inr sock') \<and>
    ss_Update h (re_table env) (session_events (ds_events sock') (s\<lparr>ss_socket := Some sock'\<rparr>)) b = Inr (sk_IsOpen sock', s', b') \<and>
    db_created b' = db_created b @ concat (map (\<lambda>m.
      channel_messages (ss_channels s) (mp_ChannelType m) (\<lambda>c. BotText c (mp_Context m))) ms)"
proof -
  let ?ps = "map (\<lambda>m. (code_value CLIENT_SEND_MESSAGE, message_bytes m)) ms"
  let ?packets = "map (\<lambda>m. packet_of CLIENT_SEND_MESSAGE (message_bytes m)) ms"
  have "\<forall>(cmd, payload)\<in>set ?ps. session_code cmd \<and> length payload + 2 < 10000"
    using assms(6) by (auto simp: session_code_def)
  moreover have "concat blocks = concat (map (\<lambda>(cmd, payload). frame_bytes cmd payload) ?ps)"
    using assms(8) by (simp add: comp_def)
  ultimately obtain sock' where sock': "receive_blocks env blocks sock = Some (Inr sock')"
      and core: "ds_core sock' = ds_core (sock\<lparr>ds_events := ds_events sock @ map (\<lambda>(cmd, payload). SessionQueuePacket sid
        \<lparr>dp_opcode = cmd, dp_buf = \<lparr>bb_rpos = 0, bb_wpos = 0, bb_storage = payload\<rparr>\<rparr>) ?ps\<rparr>)"
    using receive_frames [OF assms(1-4)] by blast
  have "ds_events sock' = ds_events (ds_core sock')" by (simp add: ds_core_def)
  also have "\<dots> = map (\<lambda>p. SessionQueuePacket sid p) ?packets"
    unfolding core using assms(5) by (simp add: ds_core_def packet_of_def comp_def)
  finally have events: "ds_events sock' = map (\<lambda>p. SessionQueuePacket sid p) ?packets" .
  let ?s = "session_events (ds_events sock') (s\<lparr>ss_socket := Some sock'\<rparr>)"
  have s: "ss_socket ?s = Some sock'" "ss_channels ?s = ss_channels s" "pq_queue (ss_recvQueue ?s) = ?packets"
    unfolding events session_events_queue using assms(9) by (simp_all add: PacketQueue_new_def)
  have texts: "\<forall>m\<in>set ms. packet_messages h (ss_channels s) (packet_of CLIENT_SEND_MESSAGE (message_bytes m)) =
      channel_messages (ss_channels s) (mp_ChannelType m) (\<lambda>c. BotText c (mp_Context m)) \<and>
      queued_ok (packet_of CLIENT_SEND_MESSAGE (message_bytes m))"
    using assms(6) by (auto intro!: packet_messages_text)
  then have serviced: "serviced ?s" using s assms(10) by (simp add: serviced_def)
  have "posted h ?s = concat (map (\<lambda>m. channel_messages (ss_channels s) (mp_ChannelType m) (\<lambda>c. BotText c (mp_Context m))) ms)"
    using s texts assms(7) by (simp add: posted_def comp_def cong: map_cong)
  then have loop: "session_loop h (re_table env) 0 ?s b = Inr (after_update ?s, post (concat (map (\<lambda>m.
      channel_messages (ss_channels s) (mp_ChannelType m) (\<lambda>c. BotText c (mp_Context m))) ms)) b)"
    using session_loop_serviced [OF serviced s(1), of h b] assms(3) by simp
  have "ss_socket (after_update ?s) = Some sock'" using s(1) by (simp add: after_update_def)
  with loop sock' assms(11) show ?thesis by (auto simp: ss_Update_def post_def)
qed

theorem messages_reach_bot_witness:
  "\<exists>sock' s' b'. let env = \<lparr>re_host = WARHEAD_BIGENDIAN, re_now = 5, re_table = OpcodeTable_Initialize OpcodeTable_new\<rparr>;
       sock = DiscordSocket_new\<lparr>sk_reading := True, ds_authed := True, ds_discordSession := Some 7\<rparr>;
       blocks = [frame_bytes (code_value CLIENT_SEND_MESSAGE) (message_bytes hi_message)]
     in receive_blocks env blocks sock = Some (Inr sock') \<and>
        ss_Update WARHEAD_BIGENDIAN (re_table env) (session_events (ds_events sock') (sample_session\<lparr>ss_socket := Some sock'\<rparr>))
          \<lparr>db_isEnable = True, db_created = []\<rparr> = Inr (sk_IsOpen sock', s', b') \<and>
        db_created b' = [BotText 12 ''Hi'']"
proof -
  let ?env = "\<lparr>re_host = WARHEAD_BIGENDIAN, re_now = 5, re_table = OpcodeTable_Initialize OpcodeTable_new\<rparr>"
  let ?sock = "DiscordSocket_new\<lparr>sk_reading := True, ds_authed := True, ds_discordSession := Some 7\<rparr>"
  let ?f = "frame_bytes (code_value CLIENT_SEND_MESSAGE) (message_bytes hi_message)"
  have len: "length ?f \<le> READ_BLOCK_SIZE"
    by (simp add: frame_bytes_def message_bytes_def string_bytes_def hi_message_def DiscordServerPktHeader_def READ_BLOCK_SIZE_def)
  have r: "ready READ_BLOCK_SIZE (re_host ?env) (RHeader []) ?sock" by (rule ready_new)
  have l: "length (message_bytes hi_message) + 2 < 10000" by (simp add: message_bytes_def string_bytes_def hi_message_def)
  have d: "ds_discordSession ?sock = Some 7" "ds_events ?sock = []" by (simp_all add: DiscordSocket_new_def)
  note t = messages_reach_bot [OF r, where blocks = "[?f]" and sid = 7 and ms = "[hi_message]" and s = sample_session
      and b = "\<lparr>db_isEnable = True, db_created = []\<rparr>" and h = WARHEAD_BIGENDIAN]
  have "\<exists>sock' s' b'. receive_blocks ?env [?f] ?sock = Some (Inr sock') \<and>
    ss_Update WARHEAD_BIGENDIAN (re_table ?env) (session_events (ds_events sock') (sample_session\<lparr>ss_socket := Some sock'\<rparr>))
          \<lparr>db_isEnable = True, db_created = []\<rparr> = Inr (sk_IsOpen sock', s', b') \<and>
    db_created b' = db_created \<lparr>db_isEnable = True, db_created = []\<rparr> @ concat (map (\<lambda>m.
      channel_messages (ss_channels sample_session) (mp_ChannelType m) (\<lambda>c. BotText c (mp_Context m))) [hi_message])"
    by (rule t) (use len l d hi_message_wire(1) in \<open>simp_all add: sample_session_fields DEFAULT_CHANNELS_COUNT_def
          del: receive_blocks.simps\<close>)
  then show ?thesis unfolding Let_def
    by (simp add: channel_messages_def sample_session_fields hi_message_def DEFAULT_CHANNELS_COUNT_def
        del: receive_blocks.simps)
qed

section \<open>From the key to the session\<close>

text \<open>
  The authentication from the answer of the database on: the row that is stored is fetched, its fields go to \<open>HandleAuthSessionCallback\<close>,
  and the lambdas that this chains ask the bot for the guild of the account, then for its channels. \<open>guilds\<close>, \<open>got\<close> and \<open>answer\<close>
  are what Discord answers, \<open>junk\<close> is the initial content of the array of channels, and \<open>time_size\<close> and \<open>garbage\<close> are what the
  result set takes from outside.
\<close>

definition fetched :: "endian \<Rightarrow> nat \<Rightarrow> (nat \<Rightarrow> uint8) \<Rightarrow> account_row option \<Rightarrow> field list option res" where
  "fetched h time_size garbage row =
     (case row of None \<Rightarrow> Inr None | Some r \<Rightarrow> bindr (account_result h time_size garbage r) (\<lambda>fs. Inr (Some fs)))"

definition login_flow ::
  "auth_env \<Rightarrow> nat \<Rightarrow> (nat \<Rightarrow> uint8) \<Rightarrow> int64 list option \<Rightarrow> answers_to \<Rightarrow> int64 list \<Rightarrow> channel list option \<Rightarrow> auth_session \<Rightarrow>
   account_row option \<Rightarrow> discord_socket \<Rightarrow> discord_socket res" where
  "login_flow env time_size garbage guilds answer junk got auth row s =
     bindr (fetched (ae_host env) time_size garbage row) (\<lambda>result.
     bindr (HandleAuthSessionCallback env auth result s) (\<lambda>s1.
       case result of
         None \<Rightarrow> Inr s1
       | Some fs \<Rightarrow>
           bindr (AccountInfo_new (ae_host env) (ae_double env) (ae_gameTime env) fs) (\<lambda>account.
             if BotCheckBotInGuild (ai_GuildID account) \<notin> set (drop (length (ds_events s)) (ds_events s1)) then Inr s1
             else
               (case CheckBotInGuild guilds (ai_GuildID account) of
                  None \<Rightarrow> Inr s1
                | Some isExist \<Rightarrow>
                    bindr (auth_bot_callback (ae_host env) account isExist s1) (\<lambda>s2.
                      if \<not> isExist then Inr s2
                      else auth_channels_callback (ae_host env) auth account
                             (fst (CheckChannels answer junk got (ai_GuildID account))) s2)))))"

lemma AsyncRead_ok:
  assumes "mb_inv (sk_readBuffer s)" "sk_IsOpen s"
  shows "\<exists>m. AsyncRead s = Inr (s\<lparr>sk_readBuffer := m, sk_reading := True\<rparr>)"
proof -
  obtain m where "mb_Normalize (sk_readBuffer s) = Inr m" using mb_Normalize_ok [OF assms(1)] by blast
  then show ?thesis using assms(2) by (auto simp: AsyncRead_def)
qed

lemma CheckChannels_length:
  assumes "length junk = 7"
  shows "length (fst (CheckChannels answer junk got g)) = 7"
proof (cases got)
  case (Some channels)
  show ?thesis
  proof (cases "find_category answer channels")
    case (Some cn)
    then obtain cat n where "find_category answer channels = Some (cat, n)" by (cases cn) auto
    then show ?thesis
      using \<open>got = _\<close> CreateTextChannel_spec [of channel_types "GetTextChannels channels cat junk" answer g cat
          "replicate n (CreateCategoryRequest g DEFAULT_CATEGORY_NAME)"] assms
      by (auto simp: CheckChannels_cases)
  qed (use Some assms in \<open>simp add: CheckChannels_cases\<close>)
qed (use assms in \<open>simp add: CheckChannels_def\<close>)

text \<open>The flow for a row without a ban: what the callback decides, and behind it the answers of the bot.\<close>

lemma login_flow_row:
  assumes "sk_IsOpen s" "account_valid (ae_host env) row" "ar_bandate row = None"
  shows "login_flow env time_size garbage guilds answer junk got auth (Some row) s =
    (if \<not> may_enter env auth (Some row) then Inr (refused (if ae_discordClosed env then ServerOffline else IncorrectKey) [] s)
     else (let s1 = goes_on (ae_location env) (ar_GuildID row) s in
       case CheckBotInGuild guilds (ar_GuildID row) of
         None \<Rightarrow> Inr s1
       | Some isExist \<Rightarrow>
           bindr (auth_bot_callback (ae_host env) (account_of row) isExist s1) (\<lambda>s2.
             if \<not> isExist then Inr s2
             else auth_channels_callback (ae_host env) auth (account_of row) (fst (CheckChannels answer junk got (ar_GuildID row))) s2)))"
proof -
  obtain fs where fs: "account_result (ae_host env) time_size garbage row = Inr fs"
      "AccountInfo_new (ae_host env) (ae_double env) (ae_gameTime env) fs = Inr (account_of row)"
    using AccountInfo_row [OF assms(2)] assms(3) by fastforce
  have cb: "HandleAuthSessionCallback env auth (Some fs) s = Inr (if may_enter env auth (Some row)
      then goes_on (ae_location env) (ar_GuildID row) s else refused (if ae_discordClosed env then ServerOffline else IncorrectKey) [] s)"
    using auth_callback_row [OF assms(1,2), of time_size garbage auth] fs(1) assms(3) by auto
  have g: "ai_GuildID (account_of row) = ar_GuildID row" by (simp add: account_of_def)
  have seen: "drop (length (ds_events s)) (ds_events (goes_on l e s)) = [BotCheckBotInGuild e]" "drop (length (ds_events s)) (ds_events (refused c [] s)) = []" for l e c
    by (simp_all add: goes_on_def refused_def)
  show ?thesis by (cases "may_enter env auth (Some row)") (simp_all add: login_flow_def fetched_def fs cb g seen Let_def cong: option.case_cong if_cong)
qed

text \<open>A row with a ban ends the callback in the reading of its dates; without a row the client is unknown.\<close>

lemma login_flow_ends:
  assumes "sk_IsOpen s"
  shows "account_valid (ae_host env) row \<Longrightarrow> ar_bandate row \<noteq> None \<Longrightarrow>
      login_flow env time_size garbage guilds answer junk got auth (Some row) s = Inl (UndefinedAccess ''data.value'')"
    and "login_flow env time_size garbage guilds answer junk got auth None s = Inr (refused UnknownAccount [] s)"
proof -
  assume row: "account_valid (ae_host env) row" "ar_bandate row \<noteq> None"
  then obtain fs where "account_result (ae_host env) time_size garbage row = Inr fs"
      "HandleAuthSessionCallback env auth (Some fs) s = Inl (UndefinedAccess ''data.value'')"
    using auth_callback_row [OF assms row(1), of time_size garbage auth] by auto
  then show "login_flow env time_size garbage guilds answer junk got auth (Some row) s = Inl (UndefinedAccess ''data.value'')"
    by (simp add: login_flow_def fetched_def)
next
  show "login_flow env time_size garbage guilds answer junk got auth None s = Inr (refused UnknownAccount [] s)"
    using reject_client_eq [OF assms] by (simp add: login_flow_def fetched_def HandleAuthSessionCallback_def refused_def)
qed



end
